(* ===== verification/Tcmu_Prelude.thy ===== *)
theory Tcmu_Prelude
  imports Main "HOL-Library.Word"
begin

unbundle bit_operations_syntax

text \<open>
  What the components share: bytes and the flat memory that C pointers index, unsigned
  arithmetic of 32 and 64 bits written out on \<^typ>\<open>nat\<close>, big-endian integers (the
  \<open>htobe16/32/64\<close>, \<open>be16toh\<close> \<open>\<dots>\<close> calls of the C code and the helpers of
  \<open>be_byteshift.h\<close>), and byte buffers that the code fills with \<open>memcpy(&buf[off], ...)\<close>.

  Integers of the C code are \<^typ>\<open>nat\<close> values below the bound of their type; every
  addition, subtraction and conversion that can leave the type goes through
  \<open>add64\<close>, \<open>sub64\<close>, \<open>u32\<close> and their kin, which wrap. Bytes are \<open>8 word\<close>.
\<close>

named_theorems buf_simps \<open>reading back what was stored in a byte buffer\<close>

type_synonym byte = "8 word"
type_synonym mem = "nat \<Rightarrow> byte"

section \<open>Unsigned arithmetic\<close>

definition u16 :: "nat \<Rightarrow> nat" where
  "u16 n = n mod 2 ^ 16"

definition u32 :: "nat \<Rightarrow> nat" where
  "u32 n = n mod 2 ^ 32"

definition u64 :: "nat \<Rightarrow> nat" where
  "u64 n = n mod 2 ^ 64"

definition add32 :: "nat \<Rightarrow> nat \<Rightarrow> nat" where
  "add32 a b = (a + b) mod 2 ^ 32"

definition sub32 :: "nat \<Rightarrow> nat \<Rightarrow> nat" where
  "sub32 a b = (a + (2 ^ 32 - b mod 2 ^ 32)) mod 2 ^ 32"

definition int32 :: "nat \<Rightarrow> int" where
  "int32 n = (let k = u32 n in if k < 2 ^ 31 then int k else int k - 2 ^ 32)"

definition add64 :: "nat \<Rightarrow> nat \<Rightarrow> nat" where
  "add64 a b = (a + b) mod 2 ^ 64"

definition sub64 :: "nat \<Rightarrow> nat \<Rightarrow> nat" where
  "sub64 a b = (a + (2 ^ 64 - b mod 2 ^ 64)) mod 2 ^ 64"

definition mul64 :: "nat \<Rightarrow> nat \<Rightarrow> nat" where
  "mul64 a b = (a * b) mod 2 ^ 64"

lemma u16_id: "n < 2 ^ 16 \<Longrightarrow> u16 n = n"
  by (simp add: u16_def)

lemma u32_id: "n < 2 ^ 32 \<Longrightarrow> u32 n = n"
  by (simp add: u32_def)

lemma u64_id: "n < 2 ^ 64 \<Longrightarrow> u64 n = n"
  by (simp add: u64_def)

lemma int32_id: "n < 2 ^ 31 \<Longrightarrow> int32 n = int n"
  by (simp add: int32_def u32_def Let_def)

lemma add32_id: "a + b < 2 ^ 32 \<Longrightarrow> add32 a b = a + b"
  by (simp add: add32_def)

lemma add64_id: "a + b < 2 ^ 64 \<Longrightarrow> add64 a b = a + b"
  by (simp add: add64_def)

lemma mul64_id: "a * b < 2 ^ 64 \<Longrightarrow> mul64 a b = a * b"
  by (simp add: mul64_def)

lemma sub32_id: "b \<le> a \<Longrightarrow> a < 2 ^ 32 \<Longrightarrow> sub32 a b = a - b"
proof -
  assume "b \<le> a" and "a < 2 ^ 32"
  then have "a + (2 ^ 32 - b mod 2 ^ 32) = (a - b) + 2 ^ 32" by simp
  then show ?thesis using \<open>a < 2 ^ 32\<close> by (simp add: sub32_def)
qed

lemma sub64_id: "b \<le> a \<Longrightarrow> a < 2 ^ 64 \<Longrightarrow> sub64 a b = a - b"
proof -
  assume "b \<le> a" and "a < 2 ^ 64"
  then have "a + (2 ^ 64 - b mod 2 ^ 64) = (a - b) + 2 ^ 64" by simp
  then show ?thesis using \<open>a < 2 ^ 64\<close> by (simp add: sub64_def)
qed

lemma sub64_underflow: "a < b \<Longrightarrow> b < 2 ^ 64 \<Longrightarrow> sub64 a b = 2 ^ 64 - (b - a)"
  by (simp add: sub64_def)

text \<open>The wrap test \<open>a + b < a\<close> of the C code detects exactly an overflow.\<close>

lemma add64_wraps_iff:
  assumes "a < 2 ^ 64" and "b < 2 ^ 64"
  shows "add64 a b < a \<longleftrightarrow> 2 ^ 64 \<le> a + b"
proof (cases "a + b < 2 ^ 64")
  case True
  then show ?thesis by (simp add: add64_id)
next
  case False
  then have "(a + b) mod 2 ^ 64 = a + b - 2 ^ 64"
    using assms by (simp add: mod_if)
  then show ?thesis using False assms by (simp add: add64_def)
qed

section \<open>Big-endian integers\<close>

fun be_enc :: "nat \<Rightarrow> nat \<Rightarrow> byte list" where
  "be_enc 0 n = []"
| "be_enc (Suc k) n = be_enc k (n div 256) @ [of_nat n]"

definition be_dec :: "byte list \<Rightarrow> nat" where
  "be_dec bs = foldl (\<lambda>a b. a * 256 + unat b) 0 bs"

abbreviation htobe16 :: "nat \<Rightarrow> byte list" where "htobe16 \<equiv> be_enc 2"
abbreviation htobe32 :: "nat \<Rightarrow> byte list" where "htobe32 \<equiv> be_enc 4"
abbreviation htobe64 :: "nat \<Rightarrow> byte list" where "htobe64 \<equiv> be_enc 8"

lemma length_be_enc [simp]: "length (be_enc k n) = k"
  by (induction k arbitrary: n) auto

lemma be_dec_snoc [simp]: "be_dec (bs @ [b]) = be_dec bs * 256 + unat b"
  by (simp add: be_dec_def)

lemma be_dec_Nil [simp]: "be_dec [] = 0"
  by (simp add: be_dec_def)

lemma unat_of_nat_byte: "unat (of_nat n :: byte) = n mod 256"
  by (simp add: unat_of_nat)

lemma unat_byte_bound [simp]: "unat (b :: byte) < 256"
  using unsigned_less [of b] by simp

lemma be_dec_bound: "be_dec bs < 256 ^ length bs"
proof (induction bs rule: rev_induct)
  case Nil
  then show ?case by simp
next
  case (snoc b bs)
  have "be_dec bs * 256 + unat b < (be_dec bs + 1) * 256"
    using unat_byte_bound [of b] by (simp add: algebra_simps)
  also have "\<dots> \<le> 256 ^ length bs * 256"
    using snoc by (intro mult_le_mono1) simp
  finally show ?case by simp
qed

lemma be_dec_enc: "be_dec (be_enc k n) = n mod 256 ^ k"
proof (induction k arbitrary: n)
  case 0
  then show ?case by simp
next
  case (Suc k)
  have "n mod 256 ^ Suc k = 256 * (n div 256 mod 256 ^ k) + n mod 256"
    by (simp add: mod_mult2_eq)
  with Suc show ?case by (simp add: unat_of_nat_byte algebra_simps)
qed

lemma be_enc_dec: "be_enc (length bs) (be_dec bs) = bs"
proof (induction bs rule: rev_induct)
  case Nil
  then show ?case by simp
next
  case (snoc b bs)
  have "(be_dec bs * 256 + unat b) div 256 = be_dec bs" by simp
  moreover have "of_nat (be_dec bs * 256 + unat b) = b"
  proof -
    have "(256 :: byte) = 0" by simp
    then show ?thesis by (simp only: of_nat_add of_nat_mult of_nat_numeral) simp
  qed
  ultimately show ?case using snoc by (simp del: of_nat_add of_nat_mult)
qed

lemma be_enc_dec': "length bs = k \<Longrightarrow> be_enc k (be_dec bs) = bs"
  using be_enc_dec [of bs] by simp

text \<open>
  A big-endian field of fixed width: what the code stores it reads back. The laws are
  proved once here and interpreted for each width the code uses.
\<close>

locale be_field =
  fixes width :: nat and enc :: "nat \<Rightarrow> byte list" and dec :: "byte list \<Rightarrow> nat"
  assumes enc_width [simp]: "length (enc n) = width"
    and dec_enc_mod: "dec (enc n) = n mod 256 ^ width"
    and enc_dec: "length bs = width \<Longrightarrow> enc (dec bs) = bs"
begin

lemma dec_enc: "n < 256 ^ width \<Longrightarrow> dec (enc n) = n"
  by (simp add: dec_enc_mod)

lemma enc_inj: "n < 256 ^ width \<Longrightarrow> k < 256 ^ width \<Longrightarrow> enc n = enc k \<Longrightarrow> n = k"
  by (metis dec_enc)

lemma dec_inj: "length bs = width \<Longrightarrow> length cs = width \<Longrightarrow> dec bs = dec cs \<Longrightarrow> bs = cs"
  by (metis enc_dec)

end

interpretation be16: be_field 2 "be_enc 2" be_dec
  by unfold_locales (simp_all add: be_dec_enc be_enc_dec')

interpretation be32: be_field 4 "be_enc 4" be_dec
  by unfold_locales (simp_all add: be_dec_enc be_enc_dec')

interpretation be64: be_field 8 "be_enc 8" be_dec
  by unfold_locales (simp_all add: be_dec_enc be_enc_dec')

section \<open>The helpers of be\_byteshift.h\<close>

text \<open>
  \<open>put_unaligned_be32(val, p)\<close> stores four bytes at \<open>p\<close>: the model returns them.
\<close>

definition put_unaligned_be32 :: "32 word \<Rightarrow> byte list" where
  "put_unaligned_be32 val =
     [ucast (drop_bit 24 val), ucast (drop_bit 16 val), ucast (drop_bit 8 val), ucast val]"

definition put_unaligned_be16 :: "16 word \<Rightarrow> byte list" where
  "put_unaligned_be16 val = [ucast (drop_bit 8 val), ucast val]"

definition get_unaligned_be16 :: "mem \<Rightarrow> 16 word" where
  "get_unaligned_be16 p = push_bit 8 (ucast (p 0)) OR ucast (p 1)"

definition get_unaligned_be32_raw :: "mem \<Rightarrow> 32 word" where
  "get_unaligned_be32_raw p =
     push_bit 24 (ucast (p 0)) OR push_bit 16 (ucast (p 1)) OR push_bit 8 (ucast (p 2)) OR ucast (p 3)"

text \<open>The wrapper's return type is \<open>uint16_t\<close>, so the upper half is dropped.\<close>

definition get_unaligned_be32 :: "mem \<Rightarrow> 16 word" where
  "get_unaligned_be32 p = ucast (get_unaligned_be32_raw p)"

lemma unat_drop_bit_div: "unat (drop_bit k (w :: 'a::len word)) = unat w div 2 ^ k"
  by (simp only: unat_drop_bit_eq) (rule drop_bit_eq_div)

lemma ucast_byte_0: "(ucast (w :: 'a::len word) :: byte) = of_nat (unat w)"
  by (rule sym) (rule of_nat_unat)

lemma be_enc_2: "be_enc 2 n = [of_nat (n div 256), of_nat n]"
  by (simp add: numeral_2_eq_2)

lemma be_enc_4: "be_enc 4 n = [of_nat (n div 2 ^ 24), of_nat (n div 2 ^ 16), of_nat (n div 2 ^ 8), of_nat n]"
proof -
  have "(4::nat) = Suc (Suc 2)" by simp
  then have "be_enc 4 n = be_enc (Suc (Suc 2)) n" by (rule arg_cong)
  also have "\<dots> = be_enc 2 (n div 256 div 256) @ [of_nat (n div 256), of_nat n]"
    by (simp only: be_enc.simps append.simps append_assoc)
  finally show ?thesis by (simp add: be_enc_2 div_mult2_eq [symmetric])
qed

lemma put_unaligned_be32_eq: "put_unaligned_be32 v = be_enc 4 (unat v)"
  by (simp only: put_unaligned_be32_def be_enc_4 ucast_byte_0 unat_drop_bit_div)

lemma put_unaligned_be16_eq: "put_unaligned_be16 v = be_enc 2 (unat v)"
  by (simp only: put_unaligned_be16_def be_enc_2 ucast_byte_0 unat_drop_bit_div) simp

section \<open>Byte buffers\<close>

text \<open>\<open>memcpy(&buf[off], bs, n)\<close> into a local array, and reading \<open>n\<close> bytes at an offset.\<close>

definition buf_put :: "byte list \<Rightarrow> nat \<Rightarrow> byte list \<Rightarrow> byte list" where
  "buf_put buf off bs = take off buf @ bs @ drop (off + length bs) buf"

definition buf_get :: "byte list \<Rightarrow> nat \<Rightarrow> nat \<Rightarrow> byte list" where
  "buf_get buf off n = take n (drop off buf)"

lemma length_buf_put [simp]: "off + length bs \<le> length buf \<Longrightarrow> length (buf_put buf off bs) = length buf"
  by (simp add: buf_put_def)

lemma nth_buf_put:
  "off + length bs \<le> length buf \<Longrightarrow> i < length buf \<Longrightarrow>
   buf_put buf off bs ! i = (if off \<le> i \<and> i < off + length bs then bs ! (i - off) else buf ! i)"
  by (auto simp: buf_put_def nth_append min_def)

lemma length_buf_get [simp]: "off + n \<le> length buf \<Longrightarrow> length (buf_get buf off n) = n"
  by (simp add: buf_get_def)

lemma buf_get_put_same [buf_simps]:
  "off + length bs \<le> length buf \<Longrightarrow> n = length bs \<Longrightarrow> buf_get (buf_put buf off bs) off n = bs"
  by (simp add: buf_get_def buf_put_def)

lemma buf_get_put_other [buf_simps]:
  assumes "off + length bs \<le> length buf" and "i + n \<le> length buf"
    and "i + n \<le> off \<or> off + length bs \<le> i"
  shows "buf_get (buf_put buf off bs) i n = buf_get buf i n"
  using assms
  by (intro nth_equalityI) (auto simp: buf_get_def nth_buf_put)

section \<open>Flat memory\<close>

definition mem_read :: "mem \<Rightarrow> nat \<Rightarrow> nat \<Rightarrow> byte list" where
  "mem_read m a n = map (\<lambda>i. m (a + i)) [0..<n]"

definition mem_write :: "mem \<Rightarrow> nat \<Rightarrow> byte list \<Rightarrow> mem" where
  "mem_write m a bs = (\<lambda>x. if a \<le> x \<and> x < a + length bs then bs ! (x - a) else m x)"

lemma length_mem_read [simp]: "length (mem_read m a n) = n"
  by (simp add: mem_read_def)

lemma nth_mem_read [simp]: "i < n \<Longrightarrow> mem_read m a n ! i = m (a + i)"
  by (simp add: mem_read_def)

lemma mem_read_0 [simp]: "mem_read m a 0 = []"
  by (simp add: mem_read_def)

lemma mem_read_add: "mem_read m a (n + k) = mem_read m a n @ mem_read m (a + n) k"
  by (rule nth_equalityI) (auto simp: nth_append)

lemma mem_read_split: "k \<le> n \<Longrightarrow> mem_read m a n = mem_read m a k @ mem_read m (a + k) (n - k)"
  using mem_read_add [of m a k "n - k"] by simp

lemma take_mem_read: "take k (mem_read m a n) = mem_read m a (min k n)"
  by (rule nth_equalityI) auto

lemma drop_mem_read: "drop k (mem_read m a n) = mem_read m (a + k) (n - k)"
  by (rule nth_equalityI) (auto simp: add.assoc)

lemma mem_write_Nil [simp]: "mem_write m a [] = m"
  by (rule ext) (auto simp: mem_write_def)

lemma mem_read_write_same [simp]: "mem_read (mem_write m a bs) a (length bs) = bs"
  by (rule nth_equalityI) (auto simp: mem_write_def)

lemma mem_read_write_other:
  "b + n \<le> a \<or> a + length bs \<le> b \<Longrightarrow> mem_read (mem_write m a bs) b n = mem_read m b n"
  by (rule nth_equalityI) (auto simp: mem_write_def)

lemma mem_write_out: "x < a \<or> a + length bs \<le> x \<Longrightarrow> mem_write m a bs x = m x"
  by (auto simp: mem_write_def)

lemma mem_write_in: "a \<le> x \<Longrightarrow> x < a + length bs \<Longrightarrow> mem_write m a bs x = bs ! (x - a)"
  by (auto simp: mem_write_def)

lemma mem_write_append: "mem_write (mem_write m a bs) (a + length bs) cs = mem_write m a (bs @ cs)"
  by (rule ext) (auto simp: mem_write_def nth_append)

section \<open>Masks\<close>

lemma unat_and_not_mask: "unat (w AND NOT (mask k) :: 64 word) = unat w - unat w mod 2 ^ k"
proof -
  have "take_bit k w \<le> w" by (simp add: word_le_nat_alt unsigned_take_bit_eq)
  moreover have "w - take_bit k w = w AND NOT (take_bit k w)"
    by (rule disjunctive_diff_eq_and_not) (auto simp: bit_simps intro!: bit_eqI)
  moreover have "w AND NOT (take_bit k w) = w AND NOT (mask k)" by (auto simp: bit_simps intro!: bit_eqI)
  ultimately have "w AND NOT (mask k) = w - take_bit k w" "take_bit k w \<le> w" by simp_all
  moreover have "unat (take_bit k w) = unat w mod 2 ^ k"
    unfolding unsigned_take_bit_eq by (rule take_bit_eq_mod)
  ultimately show ?thesis by (simp only: unat_sub)
qed

end
