(* ===== verification/Tcmu_Iovec.thy ===== *)
theory Tcmu_Iovec
  imports Tcmu_Prelude
begin

text \<open>
  The scatter-gather helpers of \<open>api.c\<close>: consuming, comparing, zeroing and copying
  through arrays of \<open>struct iovec\<close> that point into memory. An array with its count
  (\<open>struct iovec *iovec, size_t iov_cnt\<close>) is the list of its \<open>iov_cnt\<close> entries;
  where the C code takes no count and may run past the array, the model returns \<open>None\<close>.
\<close>

record iovec =
  iov_base :: nat
  iov_len :: nat

section \<open>The operations\<close>

fun first_diff :: "byte list \<Rightarrow> byte list \<Rightarrow> nat" where
  "first_diff (s # ss) (d # ds) = (if s = d then Suc (first_diff ss ds) else 0)"
| "first_diff _ _ = 0"

fun compare_loop :: "mem \<Rightarrow> byte list \<Rightarrow> iovec list \<Rightarrow> nat \<Rightarrow> nat \<Rightarrow> int option" where
  "compare_loop m blk [] sz mem_off = (if sz = 0 then Some (- 1) else None)"
| "compare_loop m blk (v # vs) sz mem_off =
     (if sz = 0 then Some (- 1)
      else let part = min sz (iov_len v);
               s = take part (drop mem_off blk);
               d = mem_read m (iov_base v) part
           in if s \<noteq> d then Some (int (first_diff s d + mem_off))
              else compare_loop m blk vs (sz - part) (mem_off + part))"

definition tcmu_compare_with_iovec :: "mem \<Rightarrow> byte list \<Rightarrow> iovec list \<Rightarrow> nat \<Rightarrow> int option" where
  "tcmu_compare_with_iovec m blk iovec sz = compare_loop m blk iovec sz 0"

fun tcmu_seek_in_iovec :: "iovec list \<Rightarrow> nat \<Rightarrow> (nat \<times> iovec list) option" where
  "tcmu_seek_in_iovec [] count = (if count = 0 then Some (0, []) else None)"
| "tcmu_seek_in_iovec (v # vs) count =
     (if count = 0 then Some (0, v # vs)
      else if count \<ge> iov_len v then
        (case tcmu_seek_in_iovec vs (count - iov_len v) of
           None \<Rightarrow> None
         | Some (consumed, vs') \<Rightarrow> Some (Suc consumed, v\<lparr>iov_len := 0\<rparr> # vs'))
      else Some (0, v\<lparr>iov_base := iov_base v + count, iov_len := iov_len v - count\<rparr> # vs))"

fun tcmu_iovec_length :: "iovec list \<Rightarrow> nat" where
  "tcmu_iovec_length [] = 0"
| "tcmu_iovec_length (v # vs) = add64 (iov_len v) (tcmu_iovec_length vs)"

fun tcmu_zero_iovec :: "mem \<Rightarrow> iovec list \<Rightarrow> mem" where
  "tcmu_zero_iovec m [] = m"
| "tcmu_zero_iovec m (v # vs) = tcmu_zero_iovec (mem_write m (iov_base v) (replicate (iov_len v) 0)) vs"

definition iov_advance :: "iovec \<Rightarrow> nat \<Rightarrow> iovec" where
  "iov_advance v n = v\<lparr>iov_base := iov_base v + n, iov_len := iov_len v - n\<rparr>"

fun memcpy_into_loop :: "mem \<Rightarrow> iovec list \<Rightarrow> byte list \<Rightarrow> nat \<Rightarrow> nat \<Rightarrow> nat \<times> iovec list \<times> mem" where
  "memcpy_into_loop m [] src len copied = (copied, [], m)"
| "memcpy_into_loop m (v # vs) src len copied =
     (if len = 0 then (copied, v # vs, m)
      else let to_copy = min (iov_len v) len;
               m' = mem_write m (iov_base v) (take to_copy (drop copied src));
               (c, vs', m'') = memcpy_into_loop m' vs src (len - to_copy) (copied + to_copy)
           in (c, iov_advance v to_copy # vs', m''))"

definition tcmu_memcpy_into_iovec :: "mem \<Rightarrow> iovec list \<Rightarrow> byte list \<Rightarrow> nat \<Rightarrow> nat \<times> iovec list \<times> mem" where
  "tcmu_memcpy_into_iovec m iovec src len = memcpy_into_loop m iovec src len 0"

fun memcpy_from_loop :: "mem \<Rightarrow> byte list \<Rightarrow> nat \<Rightarrow> iovec list \<Rightarrow> nat \<Rightarrow> nat \<times> byte list \<times> iovec list" where
  "memcpy_from_loop m dest len [] copied = (copied, dest, [])"
| "memcpy_from_loop m dest len (v # vs) copied =
     (if len = 0 then (copied, dest, v # vs)
      else let to_copy = min (iov_len v) len;
               dest' = buf_put dest copied (mem_read m (iov_base v) to_copy);
               (c, d, vs') = memcpy_from_loop m dest' (len - to_copy) vs (copied + to_copy)
           in (c, d, iov_advance v to_copy # vs'))"

definition tcmu_memcpy_from_iovec :: "mem \<Rightarrow> byte list \<Rightarrow> nat \<Rightarrow> iovec list \<Rightarrow> nat \<times> byte list \<times> iovec list" where
  "tcmu_memcpy_from_iovec m dest len iovec = memcpy_from_loop m dest len iovec 0"

section \<open>What an array of iovecs holds\<close>

definition gather :: "mem \<Rightarrow> iovec list \<Rightarrow> byte list" where
  "gather m vs = concat (map (\<lambda>v. mem_read m (iov_base v) (iov_len v)) vs)"

definition iov_total :: "iovec list \<Rightarrow> nat" where
  "iov_total vs = sum_list (map iov_len vs)"

definition iov_range :: "iovec \<Rightarrow> nat set" where
  "iov_range v = {iov_base v ..< iov_base v + iov_len v}"

fun iovs_disjoint :: "iovec list \<Rightarrow> bool" where
  "iovs_disjoint [] = True"
| "iovs_disjoint (v # vs) = (list_all (\<lambda>w. iov_range v \<inter> iov_range w = {}) vs \<and> iovs_disjoint vs)"

lemma gather_Nil [simp]: "gather m [] = []"
  by (simp add: gather_def)

lemma gather_Cons [simp]: "gather m (v # vs) = mem_read m (iov_base v) (iov_len v) @ gather m vs"
  by (simp add: gather_def)

lemma gather_append: "gather m (vs @ ws) = gather m vs @ gather m ws"
  by (simp add: gather_def)

lemma iov_total_Nil [simp]: "iov_total [] = 0"
  by (simp add: iov_total_def)

lemma iov_total_Cons [simp]: "iov_total (v # vs) = iov_len v + iov_total vs"
  by (simp add: iov_total_def)

lemma length_gather [simp]: "length (gather m vs) = iov_total vs"
  by (induction vs) auto

lemma iov_advance_simps [simp]:
  "iov_base (iov_advance v n) = iov_base v + n" "iov_len (iov_advance v n) = iov_len v - n"
  by (simp_all add: iov_advance_def)

lemma mem_read_cong: "(\<And>x. x \<in> {a ..< a + n} \<Longrightarrow> m x = m' x) \<Longrightarrow> mem_read m a n = mem_read m' a n"
  by (auto simp: mem_read_def)

lemma gather_cong:
  "(\<And>x. x \<in> \<Union> (iov_range ` set vs) \<Longrightarrow> m x = m' x) \<Longrightarrow> gather m vs = gather m' vs"
proof (induction vs)
  case Nil
  then show ?case by simp
next
  case (Cons v vs)
  have "mem_read m (iov_base v) (iov_len v) = mem_read m' (iov_base v) (iov_len v)"
    by (rule mem_read_cong) (use Cons.prems in \<open>auto simp: iov_range_def\<close>)
  with Cons show ?case by simp
qed

lemma tcmu_iovec_length_mod: "tcmu_iovec_length vs = iov_total vs mod 2 ^ 64"
  by (induction vs) (simp_all add: add64_def mod_add_right_eq)

section \<open>Consuming and comparing\<close>

lemma seek_total: "tcmu_seek_in_iovec vs count = Some (c, vs') \<Longrightarrow> iov_total vs' = iov_total vs - count"
  by (induction vs count arbitrary: c vs' rule: tcmu_seek_in_iovec.induct)
    (auto split: if_splits option.splits)

lemma seek_defined: "count \<le> iov_total vs \<Longrightarrow> \<exists>c vs'. tcmu_seek_in_iovec vs count = Some (c, vs')"
proof (induction vs arbitrary: count)
  case Nil
  then show ?case by simp
next
  case (Cons v vs)
  show ?case
  proof (cases "count \<ge> iov_len v")
    case True
    with Cons.prems have "count - iov_len v \<le> iov_total vs" by simp
    from Cons.IH [OF this] obtain c vs' where "tcmu_seek_in_iovec vs (count - iov_len v) = Some (c, vs')"
      by blast
    with True show ?thesis by simp
  next
    case False
    then show ?thesis by simp
  qed
qed

lemma seek_Some_le: "tcmu_seek_in_iovec vs count = Some r \<Longrightarrow> count \<le> iov_total vs"
proof (induction vs count arbitrary: r rule: tcmu_seek_in_iovec.induct)
  case (1 count)
  then show ?case by (simp split: if_splits)
next
  case (2 v vs count)
  then show ?case by (force split: if_splits option.splits)
qed

lemma seek_length: "tcmu_seek_in_iovec vs count = Some (c, vs') \<Longrightarrow> length vs' = length vs"
  by (induction vs count arbitrary: c vs' rule: tcmu_seek_in_iovec.induct)
    (auto split: if_splits option.splits)

lemma seek_gather:
  "tcmu_seek_in_iovec vs count = Some (c, vs') \<Longrightarrow> gather m vs' = drop count (gather m vs)"
proof (induction vs count arbitrary: c vs' rule: tcmu_seek_in_iovec.induct)
  case (1 count)
  then show ?case by (simp split: if_splits)
next
  case (2 v vs count)
  then show ?case
    by (auto split: if_splits option.splits simp: drop_mem_read drop_append)
qed

lemma first_diff_same: "first_diff s s = length s"
  by (induction s) auto

lemma first_diff_least:
  "length s = length d \<Longrightarrow> s \<noteq> d \<Longrightarrow>
   first_diff s d < length s \<and> s ! first_diff s d \<noteq> d ! first_diff s d \<and>
   take (first_diff s d) s = take (first_diff s d) d"
proof (induction s d rule: first_diff.induct)
  case (1 s ss d ds)
  then show ?case by auto
qed auto

lemma first_diff_append_same [simp]: "first_diff (xs @ xs') (xs @ ys') = length xs + first_diff xs' ys'"
  by (induction xs) auto

lemma first_diff_append_diff:
  "length xs = length ys \<Longrightarrow> xs \<noteq> ys \<Longrightarrow> first_diff (xs @ xs') (ys @ ys') = first_diff xs ys"
  by (induction xs ys rule: list_induct2) auto

lemma compare_loop_spec:
  assumes "sz + off \<le> length blk" and "sz \<le> iov_total vs"
  shows "compare_loop m blk vs sz off =
    (let s = take sz (drop off blk); d = take sz (gather m vs)
     in if s = d then Some (- 1) else Some (int (first_diff s d + off)))"
  using assms
proof (induction vs arbitrary: sz off)
  case Nil
  then show ?case by simp
next
  case (Cons v vs)
  let ?part = "min sz (iov_len v)"
  let ?s1 = "take ?part (drop off blk)" and ?d1 = "mem_read m (iov_base v) ?part"
  let ?s2 = "take (sz - ?part) (drop (off + ?part) blk)" and ?d2 = "take (sz - ?part) (gather m vs)"
  have s: "take sz (drop off blk) = ?s1 @ ?s2"
    using take_add [of ?part "sz - ?part" "drop off blk"] by (simp add: add.commute)
  have d: "take sz (gather m (v # vs)) = ?d1 @ ?d2"
    by (cases "sz \<le> iov_len v") (simp_all add: take_mem_read min_def)
  have len: "length ?s1 = length ?d1" using Cons.prems by simp
  have IH: "compare_loop m blk vs (sz - ?part) (off + ?part) =
      (if ?s2 = ?d2 then Some (- 1) else Some (int (first_diff ?s2 ?d2 + (off + ?part))))"
    using Cons.IH [of "sz - ?part" "off + ?part"] Cons.prems by (simp add: Let_def)
  show ?case
  proof (cases "sz = 0")
    case True
    then show ?thesis by simp
  next
    case False
    show ?thesis
    proof (cases "?s1 = ?d1")
      case True
      with False IH show ?thesis
        unfolding s d by (simp add: Let_def)
    next
      case neq: False
      with False show ?thesis
        unfolding s d using len by (simp add: Let_def first_diff_append_diff [OF len neq])
    qed
  qed
qed

section \<open>Copying into and out of the array\<close>

lemma iovs_disjoint_tail_range:
  "iovs_disjoint (v # vs) \<Longrightarrow> iov_range v \<inter> \<Union> (iov_range ` set vs) = {}"
  by (auto simp: list_all_iff)

lemma memcpy_into_frame:
  "memcpy_into_loop m vs src len copied = (c, vs', m') \<Longrightarrow> copied + len \<le> length src \<Longrightarrow>
   x \<notin> \<Union> (iov_range ` set vs) \<Longrightarrow> m' x = m x"
proof (induction vs arbitrary: m len copied c vs' m')
  case Nil
  then show ?case by simp
next
  case (Cons v vs)
  show ?case
  proof (cases "len = 0")
    case True
    with Cons.prems show ?thesis by simp
  next
    case False
    let ?n = "min (iov_len v) len"
    let ?m1 = "mem_write m (iov_base v) (take ?n (drop copied src))"
    obtain c1 vs1 m1 where rec: "memcpy_into_loop ?m1 vs src (len - ?n) (copied + ?n) = (c1, vs1, m1)"
      by (metis surj_pair)
    from rec False Cons.prems(1) have "m' = m1" by (simp add: Let_def)
    moreover have "m1 x = ?m1 x"
      by (rule Cons.IH [OF rec]) (use Cons.prems in auto)
    moreover have "?m1 x = m x"
      by (rule mem_write_out) (use Cons.prems in \<open>auto simp: iov_range_def\<close>)
    ultimately show ?thesis by simp
  qed
qed

lemma memcpy_into_loop_spec:
  assumes "memcpy_into_loop m vs src len copied = (c, vs', m')"
    and "copied + len \<le> length src" and "iovs_disjoint vs"
  shows "c = copied + min len (iov_total vs) \<and>
    gather m' vs = take len (take (iov_total vs) (drop copied src)) @ drop len (gather m vs) \<and>
    gather m' vs' = drop len (gather m vs) \<and> iov_total vs' = iov_total vs - len \<and>
    length vs' = length vs"
  using assms
proof (induction vs arbitrary: m len copied c vs' m')
  case Nil
  then show ?case by simp
next
  case (Cons v vs)
  show ?case
  proof (cases "len = 0")
    case True
    with Cons.prems show ?thesis by simp
  next
    case False
    let ?n = "min (iov_len v) len"
    let ?part = "take ?n (drop copied src)"
    let ?m1 = "mem_write m (iov_base v) ?part"
    obtain c1 vs1 m1 where rec: "memcpy_into_loop ?m1 vs src (len - ?n) (copied + ?n) = (c1, vs1, m1)"
      by (metis surj_pair)
    from rec False Cons.prems(1) have res: "c = c1" "vs' = iov_advance v ?n # vs1" "m' = m1"
      by (auto simp: Let_def)
    have plen: "length ?part = ?n" using Cons.prems(2) by simp
    have disj: "iov_range v \<inter> \<Union> (iov_range ` set vs) = {}"
      using Cons.prems(3) by (rule iovs_disjoint_tail_range)
    have IH: "c1 = copied + ?n + min (len - ?n) (iov_total vs)"
      "gather m1 vs = take (len - ?n) (take (iov_total vs) (drop (copied + ?n) src)) @ drop (len - ?n) (gather ?m1 vs)"
      "gather m1 vs1 = drop (len - ?n) (gather ?m1 vs)" "iov_total vs1 = iov_total vs - (len - ?n)"
      "length vs1 = length vs"
      using Cons.IH [OF rec] Cons.prems by auto
    have g1: "gather ?m1 vs = gather m vs"
    proof (rule gather_cong, rule mem_write_out)
      fix x
      assume "x \<in> \<Union> (iov_range ` set vs)"
      with disj have "x \<notin> iov_range v" by auto
      then show "x < iov_base v \<or> iov_base v + length ?part \<le> x"
        unfolding plen by (auto simp: iov_range_def)
    qed
    have same: "m1 x = ?m1 x" if "x \<in> iov_range v" for x
      by (rule memcpy_into_frame [OF rec]) (use that disj Cons.prems(2) in auto)
    have "mem_read m1 (iov_base v) (iov_len v) = mem_read ?m1 (iov_base v) (iov_len v)"
      by (rule mem_read_cong) (simp add: same iov_range_def)
    also have "\<dots> = mem_read ?m1 (iov_base v) ?n @ mem_read ?m1 (iov_base v + ?n) (iov_len v - ?n)"
      by (rule mem_read_split) simp
    also have "mem_read ?m1 (iov_base v) ?n = ?part"
      using mem_read_write_same [of m "iov_base v" ?part] plen by simp
    also have "mem_read ?m1 (iov_base v + ?n) (iov_len v - ?n) = mem_read m (iov_base v + ?n) (iov_len v - ?n)"
      by (rule mem_read_write_other, rule disjI2) (simp only: plen le_refl)
    finally have head: "mem_read m1 (iov_base v) (iov_len v) = ?part @ mem_read m (iov_base v + ?n) (iov_len v - ?n)" .
    have tail: "mem_read m1 (iov_base v + ?n) (iov_len v - ?n) = mem_read m (iov_base v + ?n) (iov_len v - ?n)"
      using arg_cong [OF head, of "drop ?n"] plen by (simp add: drop_mem_read)
    show ?thesis
    proof (cases "len \<le> iov_len v")
      case True
      then show ?thesis
        using IH res head tail g1 by (simp add: drop_mem_read min_def)
    next
      case le: False
      have "take len (take (iov_len v + iov_total vs) (drop copied src)) =
          take (iov_len v) (drop copied src) @ take (len - iov_len v) (take (iov_total vs) (drop (copied + iov_len v) src))"
      proof -
        have "min len (iov_len v + iov_total vs) = iov_len v + min (len - iov_len v) (iov_total vs)"
          using le by arith
        then have "take len (take (iov_len v + iov_total vs) (drop copied src)) =
            take (iov_len v + min (len - iov_len v) (iov_total vs)) (drop copied src)"
          by (simp only: take_take)
        then show ?thesis by (simp only: take_add drop_drop take_take add.commute [of copied])
      qed
      then show ?thesis
        using le IH res head tail g1 by (auto simp: min_def)
    qed
  qed
qed

lemma memcpy_from_loop_spec:
  assumes "memcpy_from_loop m dest len vs copied = (c, d, vs')" and "copied + len \<le> length dest"
  shows "c = copied + min len (iov_total vs) \<and>
    d = take copied dest @ take len (gather m vs) @ drop (copied + min len (iov_total vs)) dest \<and>
    gather m vs' = drop len (gather m vs) \<and> length vs' = length vs"
  using assms
proof (induction vs arbitrary: dest len copied c d vs')
  case Nil
  then show ?case by simp
next
  case (Cons v vs)
  show ?case
  proof (cases "len = 0")
    case True
    with Cons.prems show ?thesis by simp
  next
    case False
    let ?n = "min (iov_len v) len"
    let ?dest = "buf_put dest copied (mem_read m (iov_base v) ?n)"
    obtain c1 d1 vs1 where rec: "memcpy_from_loop m ?dest (len - ?n) vs (copied + ?n) = (c1, d1, vs1)"
      by (metis surj_pair)
    from rec False Cons.prems(1) have res: "c = c1" "d = d1" "vs' = iov_advance v ?n # vs1"
      by (auto simp: Let_def)
    have "copied + ?n + (len - ?n) \<le> length ?dest"
      using Cons.prems(2) by simp
    note IH = Cons.IH [OF rec this]
    show ?thesis
      using IH res Cons.prems(2)
      by (cases "len \<le> iov_len v") (auto simp: buf_put_def drop_mem_read take_mem_read min_def ac_simps)
  qed
qed

text \<open>The addresses an array denotes, in order; a copy consumes a prefix of them.\<close>

definition iov_addrs :: "iovec list \<Rightarrow> nat list" where
  "iov_addrs vs = concat (map (\<lambda>v. [iov_base v ..< iov_base v + iov_len v]) vs)"

lemma iov_addrs_Nil [simp]: "iov_addrs [] = []"
  by (simp add: iov_addrs_def)

lemma iov_addrs_Cons [simp]: "iov_addrs (v # vs) = [iov_base v ..< iov_base v + iov_len v] @ iov_addrs vs"
  by (simp add: iov_addrs_def)

lemma length_iov_addrs [simp]: "length (iov_addrs vs) = iov_total vs"
  by (induction vs) auto

lemma set_iov_addrs: "set (iov_addrs vs) = \<Union> (iov_range ` set vs)"
  by (induction vs) (auto simp: iov_range_def)

lemma gather_addrs: "gather m vs = map m (iov_addrs vs)"
proof -
  have "mem_read m a n = map m [a ..< a + n]" for a n
    by (rule nth_equalityI) simp_all
  then show ?thesis by (induction vs) simp_all
qed

lemma iovs_disjoint_distinct: "iovs_disjoint vs \<longleftrightarrow> distinct (iov_addrs vs)"
proof (induction vs)
  case Nil
  then show ?case by simp
next
  case (Cons v vs)
  have "set [iov_base v ..< iov_base v + iov_len v] = iov_range v" by (simp add: iov_range_def)
  then have "distinct (iov_addrs (v # vs)) \<longleftrightarrow> distinct (iov_addrs vs) \<and> iov_range v \<inter> \<Union> (iov_range ` set vs) = {}"
    by (simp add: set_iov_addrs)
  also have "iov_range v \<inter> \<Union> (iov_range ` set vs) = {} \<longleftrightarrow> list_all (\<lambda>w. iov_range v \<inter> iov_range w = {}) vs"
    by (auto simp: list_all_iff)
  finally show ?case using Cons by auto
qed

lemma memcpy_into_rest:
  "memcpy_into_loop m vs src len copied = (c, vs', m') \<Longrightarrow> iov_addrs vs' = drop len (iov_addrs vs)"
proof (induction vs arbitrary: m len copied c vs' m')
  case Nil
  then show ?case by simp
next
  case (Cons v vs)
  show ?case
  proof (cases "len = 0")
    case True
    with Cons.prems show ?thesis by simp
  next
    case False
    let ?n = "min (iov_len v) len"
    let ?m1 = "mem_write m (iov_base v) (take ?n (drop copied src))"
    obtain c1 vs1 m1 where rec: "memcpy_into_loop ?m1 vs src (len - ?n) (copied + ?n) = (c1, vs1, m1)"
      by (metis surj_pair)
    from rec False Cons.prems(1) have "vs' = iov_advance v ?n # vs1" by (auto simp: Let_def)
    moreover have "iov_addrs vs1 = drop (len - ?n) (iov_addrs vs)" by (rule Cons.IH [OF rec])
    ultimately show ?thesis by (cases "len \<le> iov_len v") (auto simp: min_def)
  qed
qed

text \<open>
  The contract that the command emulations rely on: a response is truncated to the space
  the initiator gave, nothing outside that space is written, and data sent by the
  initiator is gathered in order. Stated as an interface, so that the clients depend on
  the contract and not on the loops.
\<close>

locale sg_transfer =
  fixes copy_in :: "mem \<Rightarrow> iovec list \<Rightarrow> byte list \<Rightarrow> nat \<Rightarrow> nat \<times> iovec list \<times> mem"
    and copy_out :: "mem \<Rightarrow> byte list \<Rightarrow> nat \<Rightarrow> iovec list \<Rightarrow> nat \<times> byte list \<times> iovec list"
  assumes copy_in_spec: "copy_in m vs src len = (c, vs', m') \<Longrightarrow> len \<le> length src \<Longrightarrow> iovs_disjoint vs \<Longrightarrow>
      c = min len (iov_total vs) \<and>
      gather m' vs = take len (take (iov_total vs) src) @ drop len (gather m vs) \<and>
      gather m' vs' = drop len (gather m vs) \<and> iov_total vs' = iov_total vs - len"
    and copy_in_rest: "copy_in m vs src len = (c, vs', m') \<Longrightarrow> iov_addrs vs' = drop len (iov_addrs vs)"
    and copy_in_frame: "copy_in m vs src len = (c, vs', m') \<Longrightarrow> len \<le> length src \<Longrightarrow>
      x \<notin> \<Union> (iov_range ` set vs) \<Longrightarrow> m' x = m x"
    and copy_out_spec: "copy_out m dest len vs = (c, d, vs') \<Longrightarrow> len \<le> length dest \<Longrightarrow>
      c = min len (iov_total vs) \<and> d = take len (gather m vs) @ drop (min len (iov_total vs)) dest"
begin

lemma copy_in_gather:
  assumes "len \<le> length src" and "iovs_disjoint vs"
  shows "gather (snd (snd (copy_in m vs src len))) vs = take (iov_total vs) (take len src) @ drop len (gather m vs)"
  using copy_in_spec [of m vs src len] assms by (metis prod.collapse take_take min.commute)

lemma copy_in_count:
  assumes "len \<le> length src" and "iovs_disjoint vs"
  shows "fst (copy_in m vs src len) = min len (iov_total vs)"
  using copy_in_spec [of m vs src len] assms by (metis prod.collapse)

lemma rest_disjoint: "copy_in m vs src len = (c, vs', m') \<Longrightarrow> iovs_disjoint vs \<Longrightarrow> iovs_disjoint vs'"
  by (simp add: iovs_disjoint_distinct copy_in_rest)

text \<open>A later copy into the advanced array does not disturb what an earlier one wrote.\<close>

lemma copy_in_then:
  assumes first: "copy_in m vs src len = (c, vs', m1)" and disj: "iovs_disjoint vs"
    and later: "\<And>x. x \<notin> \<Union> (iov_range ` set vs') \<Longrightarrow> m2 x = m1 x"
  shows "gather m2 vs = take len (gather m1 vs) @ gather m2 vs'"
proof -
  let ?as = "iov_addrs vs"
  have rest: "iov_addrs vs' = drop len ?as" by (rule copy_in_rest [OF first])
  have "set (take len ?as) \<inter> set (drop len ?as) = {}"
    using disj by (auto simp: iovs_disjoint_distinct dest: set_take_disj_set_drop_if_distinct [of _ len len])
  then have "map m2 (take len ?as) = map m1 (take len ?as)"
    using later by (auto simp: set_iov_addrs [symmetric] rest)
  then have "map m2 ?as = map m1 (take len ?as) @ map m2 (drop len ?as)"
    by (metis append_take_drop_id map_append)
  then show ?thesis by (simp add: gather_addrs rest take_map)
qed

lemma round_trip:
  assumes "iovs_disjoint vs" and "length src \<le> iov_total vs" and "length dest = length src"
  shows "copy_out (snd (snd (copy_in m vs src (length src)))) dest (length src) vs = (c, d, vs') \<Longrightarrow>
    c = length src \<and> d = src"
  using copy_out_spec [of "snd (snd (copy_in m vs src (length src)))" dest "length src" vs c d vs']
    copy_in_gather [of "length src" src vs m] assms by simp

end

interpretation sg: sg_transfer tcmu_memcpy_into_iovec tcmu_memcpy_from_iovec
proof
  show "c = min len (iov_total vs) \<and>
      gather m' vs = take len (take (iov_total vs) src) @ drop len (gather m vs) \<and>
      gather m' vs' = drop len (gather m vs) \<and> iov_total vs' = iov_total vs - len"
    if "tcmu_memcpy_into_iovec m vs src len = (c, vs', m')" "len \<le> length src" "iovs_disjoint vs"
    for m vs src len c vs' m'
    using memcpy_into_loop_spec [of m vs src len 0 c vs' m'] that
    by (simp add: tcmu_memcpy_into_iovec_def)
  show "iov_addrs vs' = drop len (iov_addrs vs)"
    if "tcmu_memcpy_into_iovec m vs src len = (c, vs', m')" for m vs src len c vs' m'
    using memcpy_into_rest [of m vs src len 0 c vs' m'] that by (simp add: tcmu_memcpy_into_iovec_def)
  show "m' x = m x"
    if "tcmu_memcpy_into_iovec m vs src len = (c, vs', m')" "len \<le> length src" "x \<notin> \<Union> (iov_range ` set vs)"
    for m vs src len c vs' m' x
    using memcpy_into_frame [of m vs src len 0 c vs' m' x] that
    by (simp add: tcmu_memcpy_into_iovec_def)
  show "c = min len (iov_total vs) \<and> d = take len (gather m vs) @ drop (min len (iov_total vs)) dest"
    if "tcmu_memcpy_from_iovec m dest len vs = (c, d, vs')" "len \<le> length dest"
    for m dest len vs c d vs'
    using memcpy_from_loop_spec [of m dest len vs 0 c d vs'] that
    by (simp add: tcmu_memcpy_from_iovec_def)
qed

section \<open>Properties\<close>

text \<open>
  C33: Copying \<open>len\<close> bytes of a response into an initiator's scatter list
  (\<open>tcmu_memcpy_into_iovec\<close>) copies as many as fit, in order: afterwards the list
  reads as the copied prefix followed by what it held before, the advanced list denotes exactly
  the untouched rest, and no byte outside the list changes.
\<close>
theorem memcpy_into_iovec_correct:
  assumes "tcmu_memcpy_into_iovec m vs src len = (c, vs', m')"
    and "len \<le> length src" and "iovs_disjoint vs"
  shows "c = min len (iov_total vs) \<and>
    gather m' vs = take c src @ drop c (gather m vs) \<and>
    gather m' vs' = drop c (gather m vs) \<and>
    (\<forall>x. x \<notin> \<Union> (iov_range ` set vs) \<longrightarrow> m' x = m x)"
proof (intro conjI)
  note spec = sg.copy_in_spec [OF assms]
  from spec show c: "c = min len (iov_total vs)" by simp
  have d: "drop len (gather m vs) = drop c (gather m vs)"
    unfolding c by (cases "len \<le> iov_total vs") simp_all
  from spec show "gather m' vs' = drop c (gather m vs)" by (simp add: d)
  from spec show "gather m' vs = take c src @ drop c (gather m vs)"
    by (simp only: d c) (simp add: take_take)
  show "\<forall>x. x \<notin> \<Union> (iov_range ` set vs) \<longrightarrow> m' x = m x"
    using sg.copy_in_frame [OF assms(1,2)] by blast
qed

theorem memcpy_into_iovec_correct_witness:
  "let vs = [\<lparr>iov_base = 10, iov_len = 2\<rparr>, \<lparr>iov_base = 20, iov_len = 3\<rparr>];
       (c, vs', m') = tcmu_memcpy_into_iovec (\<lambda>_. 9) vs [1, 2, 3] 3
   in c = 3 \<and> gather m' vs = [1, 2, 3, 9, 9] \<and> m' 30 = 9"
proof -
  let ?vs = "[\<lparr>iov_base = 10, iov_len = 2\<rparr>, \<lparr>iov_base = 20, iov_len = 3\<rparr>]"
  have disj: "iovs_disjoint ?vs" by (simp add: iov_range_def)
  obtain c vs' m' where eq: "tcmu_memcpy_into_iovec (\<lambda>_. 9) ?vs [1, 2, 3] 3 = (c, vs', m')"
    by (metis surj_pair)
  note ok = memcpy_into_iovec_correct [OF eq _ disj]
  have c: "c = 3" using ok by simp
  moreover have "gather m' ?vs = take c [1, 2, 3] @ drop c (gather (\<lambda>_. 9) ?vs)"
    using ok by simp
  then have "gather m' ?vs = [1, 2, 3, 9, 9]"
    by (simp only: c) (simp add: mem_read_def numeral_eq_Suc)
  moreover have "m' 30 = 9"
    using ok by (simp add: iov_range_def)
  ultimately show ?thesis using eq by (simp add: Let_def)
qed

text \<open>
  C2: Round trip: a block that fits in the scatter list and is copied into it
  (\<open>tcmu_memcpy_into_iovec\<close>) is what \<open>tcmu_memcpy_from_iovec\<close> gathers from that list.
\<close>
theorem memcpy_iovec_roundtrip:
  assumes "iovs_disjoint vs" and "length src \<le> iov_total vs" and "length dest = length src"
    and "tcmu_memcpy_into_iovec m vs src (length src) = (c, vs', m')"
    and "tcmu_memcpy_from_iovec m' dest (length src) vs = (c2, d, vs2)"
  shows "c2 = length src \<and> d = src"
  using sg.round_trip [OF assms(1-3), of m c2 d vs2] assms(4,5) by simp

theorem memcpy_iovec_roundtrip_witness:
  "let vs = [\<lparr>iov_base = 10, iov_len = 2\<rparr>, \<lparr>iov_base = 20, iov_len = 3\<rparr>];
       (c, vs', m') = tcmu_memcpy_into_iovec (\<lambda>_. 0) vs [7, 8, 9] 3;
       (c2, d, vs2) = tcmu_memcpy_from_iovec m' [0, 0, 0] 3 vs
   in c2 = 3 \<and> d = [7, 8, 9]"
proof -
  let ?vs = "[\<lparr>iov_base = 10, iov_len = 2\<rparr>, \<lparr>iov_base = 20, iov_len = 3\<rparr>]"
  obtain c vs' m' where e1: "tcmu_memcpy_into_iovec (\<lambda>_. 0) ?vs [7, 8, 9] 3 = (c, vs', m')"
    by (metis surj_pair)
  obtain c2 d vs2 where e2: "tcmu_memcpy_from_iovec m' [0, 0, 0] 3 ?vs = (c2, d, vs2)"
    by (metis surj_pair)
  have "c2 = 3 \<and> d = [7, 8, 9]"
    using memcpy_iovec_roundtrip [of ?vs "[7, 8, 9]" "[0, 0, 0]" "\<lambda>_. 0" c vs' m' c2 d vs2] e1 e2
    by (simp add: iov_range_def eval_nat_numeral)
  with e1 e2 show ?thesis by (simp add: Let_def)
qed

text \<open>
  C28: \<open>tcmu_compare_with_iovec\<close> returns \<open>-1\<close> exactly when the first \<open>sz\<close> bytes
  of the block and of the scatter list are equal, and otherwise the offset of the first byte that
  differs; it never runs past the array when the list holds that many bytes.
\<close>
theorem compare_with_iovec_correct:
  assumes "sz \<le> length blk" and "sz \<le> iov_total vs"
  shows "(take sz blk = take sz (gather m vs) \<and> tcmu_compare_with_iovec m blk vs sz = Some (- 1)) \<or>
    (\<exists>i < sz. tcmu_compare_with_iovec m blk vs sz = Some (int i) \<and>
       blk ! i \<noteq> gather m vs ! i \<and> take i blk = take i (gather m vs))"
proof (cases "take sz blk = take sz (gather m vs)")
  case True
  then show ?thesis
    using compare_loop_spec [of sz 0 blk vs m] assms by (simp add: tcmu_compare_with_iovec_def)
next
  case False
  let ?s = "take sz blk" and ?d = "take sz (gather m vs)"
  let ?i = "first_diff ?s ?d"
  have fd: "?i < length ?s \<and> ?s ! ?i \<noteq> ?d ! ?i \<and> take ?i ?s = take ?i ?d"
    using False assms by (intro first_diff_least) auto
  moreover have "tcmu_compare_with_iovec m blk vs sz = Some (int ?i)"
    using compare_loop_spec [of sz 0 blk vs m] assms False by (simp add: tcmu_compare_with_iovec_def)
  moreover have "?i < sz" using fd by simp
  ultimately show ?thesis
    using assms by (intro disjI2 exI [of _ ?i]) (auto simp: min_absorb1)
qed

theorem compare_with_iovec_correct_witness:
  "let vs = [\<lparr>iov_base = 0, iov_len = 2\<rparr>, \<lparr>iov_base = 8, iov_len = 2\<rparr>]
   in \<exists>i < 4. tcmu_compare_with_iovec (\<lambda>x. if x = 9 then 1 else 0) [0, 0, 0, 0] vs 4 = Some (int i)"
proof -
  let ?vs = "[\<lparr>iov_base = 0, iov_len = 2\<rparr>, \<lparr>iov_base = 8, iov_len = 2\<rparr>]"
  let ?m = "\<lambda>x::nat. if x = 9 then 1 else 0 :: byte"
  have "take 4 [0, 0, 0, 0 :: byte] \<noteq> take 4 (gather ?m ?vs)"
    by (simp add: mem_read_def numeral_eq_Suc)
  with compare_with_iovec_correct [of 4 "[0, 0, 0, 0]" ?vs ?m] show ?thesis
    unfolding Let_def by auto
qed

text \<open>
  C4: \<open>tcmu_seek_in_iovec\<close> stays inside the array exactly when the count does not
  exceed the bytes it holds, and then leaves the array denoting the bytes after the first
  \<open>count\<close>, with its number of entries unchanged.
\<close>
theorem seek_in_iovec_correct:
  "(tcmu_seek_in_iovec vs count \<noteq> None) = (count \<le> iov_total vs) \<and>
   (\<forall>c vs'. tcmu_seek_in_iovec vs count = Some (c, vs') \<longrightarrow>
      gather m vs' = drop count (gather m vs) \<and> length vs' = length vs)"
  using seek_defined [of count vs] seek_Some_le [of vs count] seek_gather [of vs count _ _ m]
    seek_length [of vs count]
  by auto

theorem seek_in_iovec_correct_witness:
  "\<exists>vs'. tcmu_seek_in_iovec [\<lparr>iov_base = 0, iov_len = 2\<rparr>, \<lparr>iov_base = 8, iov_len = 4\<rparr>] 3 = Some (1, vs') \<and>
     gather (\<lambda>x. of_nat x) vs' = [9, 10, 11]"
  using seek_in_iovec_correct [of "[\<lparr>iov_base = 0, iov_len = 2\<rparr>, \<lparr>iov_base = 8, iov_len = 4\<rparr>]" 3 "\<lambda>x. of_nat x"]
  by (simp add: mem_read_def numeral_eq_Suc)

end
