(* ===== verification/Tcmu_Scsi.thy ===== *)
theory Tcmu_Scsi
  imports Tcmu_Iovec
begin

text \<open>
  Status codes and the command structure of \<open>libtcmu_common.h\<close>, the CDB field readers
  and the sense-data writers of \<open>api.c\<close>, and the translation of a handler's status into
  the SCSI status and sense data returned to the kernel (\<open>tcmu_sts_to_scsi\<close> of
  \<open>libtcmu.c\<close>).
\<close>

section \<open>Status codes and commands\<close>

datatype tcmu_sts =
    TCMU_STS_ASYNC_HANDLED | TCMU_STS_NOT_HANDLED | TCMU_STS_OK | TCMU_STS_NO_RESOURCE
  | TCMU_STS_PASSTHROUGH_ERR | TCMU_STS_BUSY | TCMU_STS_WR_ERR | TCMU_STS_RD_ERR
  | TCMU_STS_MISCOMPARE | TCMU_STS_INVALID_CMD | TCMU_STS_INVALID_CDB
  | TCMU_STS_INVALID_PARAM_LIST | TCMU_STS_INVALID_PARAM_LIST_LEN | TCMU_STS_TIMEOUT
  | TCMU_STS_FENCED | TCMU_STS_HW_ERR | TCMU_STS_RANGE | TCMU_STS_FRMT_IN_PROGRESS
  | TCMU_STS_CAPACITY_CHANGED | TCMU_STS_NOTSUPP_SAVE_PARAMS | TCMU_STS_WR_ERR_INCOMPAT_FRMT
  | TCMU_STS_TRANSITION | TCMU_STS_IMPL_TRANSITION_ERR | TCMU_STS_EXPL_TRANSITION_ERR
  | TCMU_STS_NO_LOCK_HOLDERS | TCMU_STS_NOTSUPP_SEG_DESC_TYPE | TCMU_STS_NOTSUPP_TGT_DESC_TYPE
  | TCMU_STS_CP_TGT_DEV_NOTCONN | TCMU_STS_INVALID_CP_TGT_DEV_TYPE

type_synonym cdb = "nat \<Rightarrow> byte"

abbreviation (input) SENSE_BUFFERSIZE :: nat where "SENSE_BUFFERSIZE \<equiv> 96"

record tcmulib_cmd =
  cmd_id :: nat
  cdb :: cdb
  iovec :: "iovec list"
  iov_cnt :: nat
  sense_buf :: "byte list"

text \<open>The array that \<open>iovec\<close>, \<open>iov_cnt\<close> denote, and storing it back after a call consumed it.\<close>

definition cmd_iovs :: "tcmulib_cmd \<Rightarrow> iovec list" where
  "cmd_iovs cmd = take (iov_cnt cmd) (iovec cmd)"

definition set_cmd_iovs :: "tcmulib_cmd \<Rightarrow> iovec list \<Rightarrow> tcmulib_cmd" where
  "set_cmd_iovs cmd vs = cmd\<lparr>iovec := vs @ drop (iov_cnt cmd) (iovec cmd)\<rparr>"

text \<open>Sense keys of \<open>scsi/scsi.h\<close>.\<close>

abbreviation (input) NOT_READY :: byte where "NOT_READY \<equiv> 0x02"
abbreviation (input) MEDIUM_ERROR :: byte where "MEDIUM_ERROR \<equiv> 0x03"
abbreviation (input) HARDWARE_ERROR :: byte where "HARDWARE_ERROR \<equiv> 0x04"
abbreviation (input) ILLEGAL_REQUEST :: byte where "ILLEGAL_REQUEST \<equiv> 0x05"
abbreviation (input) UNIT_ATTENTION :: byte where "UNIT_ATTENTION \<equiv> 0x06"
abbreviation (input) DATA_PROTECT :: byte where "DATA_PROTECT \<equiv> 0x07"
abbreviation (input) COPY_ABORTED :: byte where "COPY_ABORTED \<equiv> 0x0a"
abbreviation (input) MISCOMPARE :: byte where "MISCOMPARE \<equiv> 0x0e"

abbreviation (input) SAM_STAT_GOOD :: nat where "SAM_STAT_GOOD \<equiv> 0x00"
abbreviation (input) SAM_STAT_CHECK_CONDITION :: nat where "SAM_STAT_CHECK_CONDITION \<equiv> 0x02"
abbreviation (input) SAM_STAT_BUSY :: nat where "SAM_STAT_BUSY \<equiv> 0x08"
abbreviation (input) SAM_STAT_TASK_SET_FULL :: nat where "SAM_STAT_TASK_SET_FULL \<equiv> 0x28"

section \<open>Command descriptor blocks\<close>

text \<open>\<open>None\<close> is the negative return \<open>-EINVAL\<close>.\<close>

definition tcmu_get_cdb_length :: "cdb \<Rightarrow> nat option" where
  "tcmu_get_cdb_length c =
     (let group_code = drop_bit 5 (c 0) in
      if group_code = 0 then Some 6
      else if group_code = 1 \<or> group_code = 2 then Some 10
      else if group_code = 3 then (if c 0 = 0x7f then Some (8 + unat (c 7)) else None)
      else if group_code = 4 then Some 16
      else if group_code = 5 then Some 12
      else None)"

definition cdb_be :: "cdb \<Rightarrow> nat \<Rightarrow> nat \<Rightarrow> nat" where
  "cdb_be c off n = be_dec (map (\<lambda>i. c (off + i)) [0..<n])"

text \<open>\<open>None\<close> is the failed \<open>assert_perror(EINVAL)\<close>, which aborts the daemon.\<close>

definition tcmu_get_lba :: "cdb \<Rightarrow> nat option" where
  "tcmu_get_lba c =
     (if tcmu_get_cdb_length c = Some 6 then
        Some (unat (push_bit 16 (ucast (c 1 AND 0x1f)) OR (of_nat (cdb_be c 2 2) :: 32 word)))
      else if tcmu_get_cdb_length c = Some 10 then Some (cdb_be c 2 4)
      else if tcmu_get_cdb_length c = Some 12 then Some (cdb_be c 2 4)
      else if tcmu_get_cdb_length c = Some 16 then Some (cdb_be c 2 8)
      else None)"

definition tcmu_get_xfer_length :: "cdb \<Rightarrow> nat option" where
  "tcmu_get_xfer_length c =
     (if tcmu_get_cdb_length c = Some 6 then Some (unat (c 4))
      else if tcmu_get_cdb_length c = Some 10 then Some (cdb_be c 7 2)
      else if tcmu_get_cdb_length c = Some 12 then Some (cdb_be c 6 4)
      else if tcmu_get_cdb_length c = Some 16 then Some (cdb_be c 10 4)
      else None)"

text \<open>Consuming a command's data buffer. Only the count is adjusted, not \<open>cmd->iovec\<close>.\<close>

definition tcmu_seek_in_cmd_iovec :: "tcmulib_cmd \<Rightarrow> nat \<Rightarrow> tcmulib_cmd option" where
  "tcmu_seek_in_cmd_iovec cmd count =
     (case tcmu_seek_in_iovec (iovec cmd) count of
        None \<Rightarrow> None
      | Some (consumed, vs) \<Rightarrow> Some (cmd\<lparr>iovec := vs, iov_cnt := sub64 (iov_cnt cmd) consumed\<rparr>))"

section \<open>Sense data\<close>

definition tcmu_set_sense_data_raw :: "byte list \<Rightarrow> byte \<Rightarrow> nat \<Rightarrow> byte list" where
  "tcmu_set_sense_data_raw sense key asc_ascq =
     sense[0 := 0x70, 2 := key, 7 := 0xa, 12 := of_nat (asc_ascq div 256), 13 := of_nat asc_ascq]"

definition sense_clear :: "byte list \<Rightarrow> byte list" where
  "sense_clear sense = buf_put sense 0 (replicate 18 0)"

definition tcmu_set_sense_data :: "byte list \<Rightarrow> byte \<Rightarrow> nat \<Rightarrow> byte list" where
  "tcmu_set_sense_data sense key asc_ascq =
     tcmu_set_sense_data_raw (sense_clear sense) key asc_ascq"

definition tcmu_set_sense_key_specific_info :: "byte list \<Rightarrow> nat \<Rightarrow> byte list" where
  "tcmu_set_sense_key_specific_info sense info =
     (let s = buf_put (sense_clear sense) 16 (put_unaligned_be16 (of_nat info))
      in s[15 := s ! 15 OR 0x80])"

definition tcmu_set_sense_info :: "byte list \<Rightarrow> nat \<Rightarrow> byte list" where
  "tcmu_set_sense_info sense info =
     (let s = buf_put (sense_clear sense) 3 (put_unaligned_be32 (of_nat info))
      in s[0 := s ! 0 OR 0x80])"

text \<open>\<open>return tcmu_set_sense_data(cmd->sense_buf, key, asc_ascq)\<close>\<close>

definition sense_fail :: "tcmulib_cmd \<Rightarrow> byte \<Rightarrow> nat \<Rightarrow> tcmu_sts \<times> tcmulib_cmd" where
  "sense_fail cmd key asc_ascq =
     (TCMU_STS_PASSTHROUGH_ERR, cmd\<lparr>sense_buf := tcmu_set_sense_data (sense_buf cmd) key asc_ascq\<rparr>)"

fun tcmu_sts_to_scsi :: "tcmu_sts \<Rightarrow> byte list \<Rightarrow> nat \<times> byte list" where
  "tcmu_sts_to_scsi TCMU_STS_OK s = (SAM_STAT_GOOD, s)"
| "tcmu_sts_to_scsi TCMU_STS_NO_RESOURCE s = (SAM_STAT_TASK_SET_FULL, s)"
| "tcmu_sts_to_scsi TCMU_STS_TIMEOUT s = (SAM_STAT_BUSY, s)"
| "tcmu_sts_to_scsi TCMU_STS_BUSY s = (SAM_STAT_BUSY, s)"
| "tcmu_sts_to_scsi TCMU_STS_PASSTHROUGH_ERR s = (SAM_STAT_CHECK_CONDITION, s)"
| "tcmu_sts_to_scsi TCMU_STS_RANGE s = (SAM_STAT_CHECK_CONDITION, tcmu_set_sense_data s ILLEGAL_REQUEST 0x2100)"
| "tcmu_sts_to_scsi TCMU_STS_HW_ERR s = (SAM_STAT_CHECK_CONDITION, tcmu_set_sense_data s HARDWARE_ERROR 0x4400)"
| "tcmu_sts_to_scsi TCMU_STS_MISCOMPARE s = (SAM_STAT_CHECK_CONDITION, tcmu_set_sense_data_raw s MISCOMPARE 0x1d00)"
| "tcmu_sts_to_scsi TCMU_STS_RD_ERR s = (SAM_STAT_CHECK_CONDITION, tcmu_set_sense_data s MEDIUM_ERROR 0x1100)"
| "tcmu_sts_to_scsi TCMU_STS_WR_ERR s = (SAM_STAT_CHECK_CONDITION, tcmu_set_sense_data s MEDIUM_ERROR 0x0C00)"
| "tcmu_sts_to_scsi TCMU_STS_INVALID_CDB s = (SAM_STAT_CHECK_CONDITION, tcmu_set_sense_data s ILLEGAL_REQUEST 0x2400)"
| "tcmu_sts_to_scsi TCMU_STS_INVALID_PARAM_LIST s = (SAM_STAT_CHECK_CONDITION, tcmu_set_sense_data s ILLEGAL_REQUEST 0x2600)"
| "tcmu_sts_to_scsi TCMU_STS_INVALID_PARAM_LIST_LEN s = (SAM_STAT_CHECK_CONDITION, tcmu_set_sense_data s ILLEGAL_REQUEST 0x1a00)"
| "tcmu_sts_to_scsi TCMU_STS_NOTSUPP_SEG_DESC_TYPE s = (SAM_STAT_CHECK_CONDITION, tcmu_set_sense_data s ILLEGAL_REQUEST 0x2609)"
| "tcmu_sts_to_scsi TCMU_STS_NOTSUPP_TGT_DESC_TYPE s = (SAM_STAT_CHECK_CONDITION, tcmu_set_sense_data s ILLEGAL_REQUEST 0x2607)"
| "tcmu_sts_to_scsi TCMU_STS_CP_TGT_DEV_NOTCONN s = (SAM_STAT_CHECK_CONDITION, tcmu_set_sense_data s COPY_ABORTED 0x0D02)"
| "tcmu_sts_to_scsi TCMU_STS_INVALID_CP_TGT_DEV_TYPE s = (SAM_STAT_CHECK_CONDITION, tcmu_set_sense_data s COPY_ABORTED 0x0D03)"
| "tcmu_sts_to_scsi TCMU_STS_CAPACITY_CHANGED s = (SAM_STAT_CHECK_CONDITION, tcmu_set_sense_data s UNIT_ATTENTION 0x2A09)"
| "tcmu_sts_to_scsi TCMU_STS_TRANSITION s = (SAM_STAT_CHECK_CONDITION, tcmu_set_sense_data s NOT_READY 0x040A)"
| "tcmu_sts_to_scsi TCMU_STS_IMPL_TRANSITION_ERR s = (SAM_STAT_CHECK_CONDITION, tcmu_set_sense_data s UNIT_ATTENTION 0x2A07)"
| "tcmu_sts_to_scsi TCMU_STS_EXPL_TRANSITION_ERR s = (SAM_STAT_CHECK_CONDITION, tcmu_set_sense_data s HARDWARE_ERROR 0x670A)"
| "tcmu_sts_to_scsi TCMU_STS_FENCED s = (SAM_STAT_CHECK_CONDITION, tcmu_set_sense_data s NOT_READY 0x040B)"
| "tcmu_sts_to_scsi TCMU_STS_WR_ERR_INCOMPAT_FRMT s = (SAM_STAT_CHECK_CONDITION, tcmu_set_sense_data s ILLEGAL_REQUEST 0x3005)"
| "tcmu_sts_to_scsi TCMU_STS_NOTSUPP_SAVE_PARAMS s = (SAM_STAT_CHECK_CONDITION, tcmu_set_sense_data s ILLEGAL_REQUEST 0x3900)"
| "tcmu_sts_to_scsi TCMU_STS_FRMT_IN_PROGRESS s = (SAM_STAT_CHECK_CONDITION, tcmu_set_sense_data_raw s NOT_READY 0x0404)"
| "tcmu_sts_to_scsi TCMU_STS_NOT_HANDLED s = (SAM_STAT_CHECK_CONDITION, tcmu_set_sense_data s ILLEGAL_REQUEST 0x2000)"
| "tcmu_sts_to_scsi TCMU_STS_INVALID_CMD s = (SAM_STAT_CHECK_CONDITION, tcmu_set_sense_data s ILLEGAL_REQUEST 0x2000)"
| "tcmu_sts_to_scsi TCMU_STS_ASYNC_HANDLED s = (SAM_STAT_CHECK_CONDITION, s)"
| "tcmu_sts_to_scsi TCMU_STS_NO_LOCK_HOLDERS s = (SAM_STAT_CHECK_CONDITION, s)"

section \<open>CDB lemmas\<close>

lemma cdb_be_bound: "cdb_be c off n < 256 ^ n"
  using be_dec_bound [of "map (\<lambda>i. c (off + i)) [0..<n]"] by (simp add: cdb_be_def)

lemma tcmu_get_lba_bound: "tcmu_get_lba c = Some lba \<Longrightarrow> lba < 2 ^ 64"
proof -
  assume "tcmu_get_lba c = Some lba"
  moreover have "unat (w :: 32 word) < 2 ^ 64" for w
    using unsigned_less [of w, where 'a = nat] by simp
  ultimately show ?thesis
    using cdb_be_bound [of c 2 4] cdb_be_bound [of c 2 8]
    by (auto simp: tcmu_get_lba_def split: if_splits)
qed

lemma tcmu_get_xfer_length_bound: "tcmu_get_xfer_length c = Some n \<Longrightarrow> n < 2 ^ 32"
  using cdb_be_bound [of c 7 2] cdb_be_bound [of c 6 4] cdb_be_bound [of c 10 4]
    less_trans [OF unat_byte_bound [of "c 4"], of "2 ^ 32"]
  by (auto simp: tcmu_get_xfer_length_def split: if_splits)

text \<open>
  The field layouts of SPC-4 that the readers are meant for: READ/WRITE of 6, 10, 12 and
  16 bytes. They are the specification, written as encoders.
\<close>

definition cdb_of :: "byte list \<Rightarrow> cdb" where
  "cdb_of bs = (\<lambda>i. if i < length bs then bs ! i else 0)"

definition mk_cdb6 :: "byte \<Rightarrow> nat \<Rightarrow> nat \<Rightarrow> cdb" where
  "mk_cdb6 op lba n = cdb_of ([op, of_nat (lba div 2 ^ 16)] @ be_enc 2 lba @ [of_nat n, 0])"

definition mk_cdb10 :: "byte \<Rightarrow> nat \<Rightarrow> nat \<Rightarrow> cdb" where
  "mk_cdb10 op lba n = cdb_of ([op, 0] @ be_enc 4 lba @ [0] @ be_enc 2 n @ [0])"

definition mk_cdb12 :: "byte \<Rightarrow> nat \<Rightarrow> nat \<Rightarrow> cdb" where
  "mk_cdb12 op lba n = cdb_of ([op, 0] @ be_enc 4 lba @ be_enc 4 n @ [0, 0])"

definition mk_cdb16 :: "byte \<Rightarrow> nat \<Rightarrow> nat \<Rightarrow> cdb" where
  "mk_cdb16 op lba n = cdb_of ([op, 0] @ be_enc 8 lba @ be_enc 4 n @ [0, 0])"

lemma cdb_be_cdb_of:
  "cdb_be (cdb_of (xs @ ys @ zs)) (length xs) (length ys) = be_dec ys"
  unfolding cdb_be_def cdb_of_def
  by (rule arg_cong [where f = be_dec], rule nth_equalityI) (auto simp: nth_append)

lemma cdb_be_at:
  "length xs = off \<Longrightarrow> cdb_be (cdb_of (xs @ be_enc k v @ zs)) off k = v mod 256 ^ k"
  using cdb_be_cdb_of [of xs "be_enc k v" zs] by (simp add: be_dec_enc)

lemma cdb_of_nth [simp]: "i < length bs \<Longrightarrow> cdb_of bs i = bs ! i"
  by (simp add: cdb_of_def)

lemma lba6_value:
  assumes "lba < 2 ^ 21"
  shows "unat (push_bit 16 (ucast ((of_nat (lba div 2 ^ 16) :: byte) AND 0x1f)) OR
    (of_nat (lba mod 2 ^ 16) :: 32 word)) = lba"
proof -
  let ?h = "lba div 2 ^ 16" and ?l = "lba mod 2 ^ 16"
  have h: "?h < 32" using assms by simp
  have "(of_nat ?h :: byte) AND 0x1f = take_bit 5 (of_nat ?h)"
    by (simp add: take_bit_eq_mask mask_numeral)
  also have "\<dots> = of_nat (take_bit 5 ?h)" by (simp add: of_nat_take_bit)
  also have "take_bit 5 ?h = ?h" using h by (simp add: take_bit_nat_eq_self)
  finally have c1: "(ucast ((of_nat ?h :: byte) AND 0x1f) :: 32 word) = of_nat ?h"
    using h by (simp add: unsigned_of_nat take_bit_nat_eq_self)
  have "push_bit 16 (of_nat ?h :: 32 word) OR of_nat ?l = of_nat (push_bit 16 ?h OR ?l)"
    by (simp add: of_nat_or_eq push_bit_of_nat)
  also have "push_bit 16 ?h OR ?l = push_bit 16 ?h + ?l"
  proof (rule disjunctive_add_eq_or [symmetric])
    have "?l = take_bit 16 lba" by (simp add: take_bit_eq_mod)
    then show "push_bit 16 ?h AND ?l = 0"
      by (simp only:) (simp add: bit_eq_iff bit_simps)
  qed
  also have "\<dots> = lba" by (simp add: push_bit_eq_mult)
  finally show ?thesis unfolding c1 using assms by (simp add: unat_of_nat)
qed

lemma mk_cdb6_readers:
  assumes "drop_bit 5 op = 0" and "lba < 2 ^ 21" and "n < 2 ^ 8"
  shows "tcmu_get_lba (mk_cdb6 op lba n) = Some lba \<and> tcmu_get_xfer_length (mk_cdb6 op lba n) = Some n"
proof -
  have len: "tcmu_get_cdb_length (mk_cdb6 op lba n) = Some 6"
    using assms(1) by (simp add: tcmu_get_cdb_length_def mk_cdb6_def)
  have l: "cdb_be (mk_cdb6 op lba n) 2 2 = lba mod 2 ^ 16"
    using cdb_be_at [of "[op, of_nat (lba div 2 ^ 16)]" 2 2 lba "[of_nat n, 0]"] by (simp add: mk_cdb6_def)
  have h: "mk_cdb6 op lba n 1 = of_nat (lba div 2 ^ 16)"
    by (simp add: mk_cdb6_def)
  have "mk_cdb6 op lba n 4 = of_nat n"
    by (simp add: mk_cdb6_def nth_append)
  with assms(3) have "tcmu_get_xfer_length (mk_cdb6 op lba n) = Some n"
    by (simp add: tcmu_get_xfer_length_def len unat_of_nat_byte)
  moreover have "tcmu_get_lba (mk_cdb6 op lba n) = Some lba"
    unfolding tcmu_get_lba_def len l h using lba6_value [OF assms(2)] by simp
  ultimately show ?thesis by simp
qed

lemma mk_cdb10_readers:
  assumes "drop_bit 5 op \<in> {1, 2}" and "lba < 2 ^ 32" and "n < 2 ^ 16"
  shows "tcmu_get_lba (mk_cdb10 op lba n) = Some lba \<and> tcmu_get_xfer_length (mk_cdb10 op lba n) = Some n"
proof -
  have len: "tcmu_get_cdb_length (mk_cdb10 op lba n) = Some 10"
    using assms(1) by (auto simp: tcmu_get_cdb_length_def mk_cdb10_def)
  have "cdb_be (mk_cdb10 op lba n) 2 4 = lba"
    using cdb_be_at [of "[op, 0]" 2 4 lba "[0] @ be_enc 2 n @ [0]"] assms(2) by (simp add: mk_cdb10_def)
  moreover have "cdb_be (mk_cdb10 op lba n) 7 2 = n"
    using cdb_be_at [of "[op, 0] @ be_enc 4 lba @ [0]" 7 2 n "[0]"] assms(3) by (simp add: mk_cdb10_def)
  ultimately show ?thesis
    by (simp add: tcmu_get_lba_def tcmu_get_xfer_length_def len)
qed

lemma mk_cdb12_readers:
  assumes "drop_bit 5 op = 5" and "lba < 2 ^ 32" and "n < 2 ^ 32"
  shows "tcmu_get_lba (mk_cdb12 op lba n) = Some lba \<and> tcmu_get_xfer_length (mk_cdb12 op lba n) = Some n"
proof -
  have len: "tcmu_get_cdb_length (mk_cdb12 op lba n) = Some 12"
    using assms(1) by (simp add: tcmu_get_cdb_length_def mk_cdb12_def)
  have "cdb_be (mk_cdb12 op lba n) 2 4 = lba"
    using cdb_be_at [of "[op, 0]" 2 4 lba "be_enc 4 n @ [0, 0]"] assms(2) by (simp add: mk_cdb12_def)
  moreover have "cdb_be (mk_cdb12 op lba n) 6 4 = n"
    using cdb_be_at [of "[op, 0] @ be_enc 4 lba" 6 4 n "[0, 0]"] assms(3) by (simp add: mk_cdb12_def)
  ultimately show ?thesis
    by (simp add: tcmu_get_lba_def tcmu_get_xfer_length_def len)
qed

lemma mk_cdb16_readers:
  assumes "drop_bit 5 op = 4" and "lba < 2 ^ 64" and "n < 2 ^ 32"
  shows "tcmu_get_lba (mk_cdb16 op lba n) = Some lba \<and> tcmu_get_xfer_length (mk_cdb16 op lba n) = Some n"
proof -
  have len: "tcmu_get_cdb_length (mk_cdb16 op lba n) = Some 16"
    using assms(1) by (simp add: tcmu_get_cdb_length_def mk_cdb16_def)
  have "cdb_be (mk_cdb16 op lba n) 2 8 = lba"
    using cdb_be_at [of "[op, 0]" 2 8 lba "be_enc 4 n @ [0, 0]"] assms(2) by (simp add: mk_cdb16_def)
  moreover have "cdb_be (mk_cdb16 op lba n) 10 4 = n"
    using cdb_be_at [of "[op, 0] @ be_enc 8 lba" 10 4 n "[0, 0]"] assms(3) by (simp add: mk_cdb16_def)
  ultimately show ?thesis
    by (simp add: tcmu_get_lba_def tcmu_get_xfer_length_def len)
qed

section \<open>Sense lemmas\<close>

definition sense_key :: "byte list \<Rightarrow> byte" where "sense_key s = s ! 2"

definition sense_asc :: "byte list \<Rightarrow> nat" where "sense_asc s = unat (s ! 12) * 256 + unat (s ! 13)"

lemma length_sense_clear [simp]: "18 \<le> length s \<Longrightarrow> length (sense_clear s) = length s"
  by (simp add: sense_clear_def)

lemma length_sense_raw [simp]: "length (tcmu_set_sense_data_raw s k a) = length s"
  by (simp add: tcmu_set_sense_data_raw_def)

lemma length_set_sense [simp]: "18 \<le> length s \<Longrightarrow> length (tcmu_set_sense_data s k a) = length s"
  by (simp add: tcmu_set_sense_data_def)

lemma sense_raw_fields:
  assumes "18 \<le> length s" and "a < 2 ^ 16"
  shows "tcmu_set_sense_data_raw s k a ! 0 = 0x70" "sense_key (tcmu_set_sense_data_raw s k a) = k"
    "sense_asc (tcmu_set_sense_data_raw s k a) = a"
proof -
  have "a div 256 mod 256 = a div 256" using assms(2) by simp
  then show "sense_asc (tcmu_set_sense_data_raw s k a) = a"
    using assms(1) by (simp add: sense_asc_def tcmu_set_sense_data_raw_def unat_of_nat_byte)
  have "s \<noteq> []" using assms(1) by auto
  then show "tcmu_set_sense_data_raw s k a ! 0 = 0x70" "sense_key (tcmu_set_sense_data_raw s k a) = k"
    using assms(1) by (simp_all add: tcmu_set_sense_data_raw_def sense_key_def)
qed

lemma sense_fields:
  assumes "18 \<le> length s" and "a < 2 ^ 16"
  shows "tcmu_set_sense_data s k a ! 0 = 0x70" "sense_key (tcmu_set_sense_data s k a) = k"
    "sense_asc (tcmu_set_sense_data s k a) = a"
  using sense_raw_fields [of "sense_clear s" a k] assms by (simp_all add: tcmu_set_sense_data_def)

lemma seek_whole_entries:
  "(\<forall>v \<in> set xs. 0 < iov_len v) \<Longrightarrow>
   tcmu_seek_in_iovec (xs @ ys) (iov_total xs) = Some (length xs, map (\<lambda>v. v\<lparr>iov_len := 0\<rparr>) xs @ ys)"
proof (induction xs)
  case Nil
  then show ?case by (cases ys) simp_all
next
  case (Cons v xs)
  then show ?case by simp
qed

lemma gather_emptied: "gather m (map (\<lambda>v. v\<lparr>iov_len := 0\<rparr>) xs) = []"
  by (induction xs) auto

section \<open>Properties\<close>

text \<open>
  C37: The CDB readers invert the field layouts of SPC-4: for 6-, 10-, 12- and 16-byte
  commands \<open>tcmu_get_lba\<close> and \<open>tcmu_get_xfer_length\<close> return the logical block
  address and the transfer length that were encoded.
\<close>
theorem cdb_readers_correct:
  "(drop_bit 5 op = 0 \<and> lba < 2 ^ 21 \<and> n < 2 ^ 8 \<longrightarrow>
      tcmu_get_lba (mk_cdb6 op lba n) = Some lba \<and> tcmu_get_xfer_length (mk_cdb6 op lba n) = Some n) \<and>
   (drop_bit 5 op \<in> {1, 2} \<and> lba < 2 ^ 32 \<and> n < 2 ^ 16 \<longrightarrow>
      tcmu_get_lba (mk_cdb10 op lba n) = Some lba \<and> tcmu_get_xfer_length (mk_cdb10 op lba n) = Some n) \<and>
   (drop_bit 5 op = 5 \<and> lba < 2 ^ 32 \<and> n < 2 ^ 32 \<longrightarrow>
      tcmu_get_lba (mk_cdb12 op lba n) = Some lba \<and> tcmu_get_xfer_length (mk_cdb12 op lba n) = Some n) \<and>
   (drop_bit 5 op = 4 \<and> lba < 2 ^ 64 \<and> n < 2 ^ 32 \<longrightarrow>
      tcmu_get_lba (mk_cdb16 op lba n) = Some lba \<and> tcmu_get_xfer_length (mk_cdb16 op lba n) = Some n)"
proof (intro conjI impI)
  show "tcmu_get_lba (mk_cdb6 op lba n) = Some lba" "tcmu_get_xfer_length (mk_cdb6 op lba n) = Some n"
    if "drop_bit 5 op = 0 \<and> lba < 2 ^ 21 \<and> n < 2 ^ 8"
    using that mk_cdb6_readers by auto
  show "tcmu_get_lba (mk_cdb10 op lba n) = Some lba" "tcmu_get_xfer_length (mk_cdb10 op lba n) = Some n"
    if "drop_bit 5 op \<in> {1, 2} \<and> lba < 2 ^ 32 \<and> n < 2 ^ 16"
    using that mk_cdb10_readers by auto
  show "tcmu_get_lba (mk_cdb12 op lba n) = Some lba" "tcmu_get_xfer_length (mk_cdb12 op lba n) = Some n"
    if "drop_bit 5 op = 5 \<and> lba < 2 ^ 32 \<and> n < 2 ^ 32"
    using that mk_cdb12_readers by auto
  show "tcmu_get_lba (mk_cdb16 op lba n) = Some lba" "tcmu_get_xfer_length (mk_cdb16 op lba n) = Some n"
    if "drop_bit 5 op = 4 \<and> lba < 2 ^ 64 \<and> n < 2 ^ 32"
    using that mk_cdb16_readers by auto
qed

theorem cdb_readers_correct_witness:
  "tcmu_get_lba (mk_cdb6 0x08 0x12345 7) = Some 0x12345 \<and>
   tcmu_get_lba (mk_cdb10 0x28 0x12345678 8) = Some 0x12345678 \<and>
   tcmu_get_xfer_length (mk_cdb12 0xa8 1 0x10000) = Some 0x10000 \<and>
   tcmu_get_xfer_length (mk_cdb16 0x88 1 0x10000) = Some 0x10000"
  using cdb_readers_correct [of "0x08" "0x12345" 7] cdb_readers_correct [of "0x28" "0x12345678" 8]
    cdb_readers_correct [of "0xa8" 1 "0x10000"] cdb_readers_correct [of "0x88" 1 "0x10000"]
  by simp

text \<open>
  C6: Sense data written by \<open>tcmu_set_sense_data\<close> is fixed-format current sense data
  that carries exactly the given sense key and additional sense code, and clears the rest of the
  first 18 bytes; the bytes beyond stay.
\<close>
theorem set_sense_data_correct:
  assumes "18 \<le> length s" and "a < 2 ^ 16"
  shows "tcmu_set_sense_data s k a ! 0 = 0x70 \<and> sense_key (tcmu_set_sense_data s k a) = k \<and>
    sense_asc (tcmu_set_sense_data s k a) = a \<and>
    (\<forall>i < 18. i \<notin> {0, 2, 7, 12, 13} \<longrightarrow> tcmu_set_sense_data s k a ! i = 0) \<and>
    (\<forall>i < length s. 18 \<le> i \<longrightarrow> tcmu_set_sense_data s k a ! i = s ! i)"
proof (intro conjI allI impI)
  show "tcmu_set_sense_data s k a ! i = 0" if "i < 18" "i \<notin> {0, 2, 7, 12, 13}" for i
    using that assms by (simp add: tcmu_set_sense_data_def tcmu_set_sense_data_raw_def sense_clear_def nth_buf_put)
  show "tcmu_set_sense_data s k a ! i = s ! i" if "i < length s" "18 \<le> i" for i
    using that assms by (simp add: tcmu_set_sense_data_def tcmu_set_sense_data_raw_def sense_clear_def nth_buf_put)
qed (use sense_fields assms in auto)

theorem set_sense_data_correct_witness:
  "sense_key (tcmu_set_sense_data (replicate 96 1) ILLEGAL_REQUEST 0x2100) = ILLEGAL_REQUEST \<and>
   sense_asc (tcmu_set_sense_data (replicate 96 1) ILLEGAL_REQUEST 0x2100) = 0x2100"
  using set_sense_data_correct [of "replicate 96 1" "0x2100" ILLEGAL_REQUEST] by simp

text \<open>
  Every status a handler can return is translated: success is GOOD, resource shortage and
  busy have their own status without sense data, and every other status that is not passed through
  and not unknown to the table becomes CHECK CONDITION with valid sense data (a non-zero key and the
  fixed-format response code), whatever the sense buffer held before.
\<close>
theorem sts_to_scsi_total:
  assumes "18 \<le> length s" and "tcmu_sts_to_scsi sts s = (status, s')"
  shows "status = SAM_STAT_GOOD \<and> sts = TCMU_STS_OK \<and> s' = s \<or>
    status \<in> {SAM_STAT_TASK_SET_FULL, SAM_STAT_BUSY} \<and> s' = s \<or>
    status = SAM_STAT_CHECK_CONDITION \<and> s' = s \<and>
      sts \<in> {TCMU_STS_PASSTHROUGH_ERR, TCMU_STS_ASYNC_HANDLED, TCMU_STS_NO_LOCK_HOLDERS} \<or>
    status = SAM_STAT_CHECK_CONDITION \<and> s' ! 0 = 0x70 \<and> sense_key s' \<noteq> 0 \<and> sense_asc s' \<noteq> 0"
  using assms(2) by (cases sts) (auto simp: sense_fields sense_raw_fields assms(1))

theorem sts_to_scsi_total_witness:
  "fst (tcmu_sts_to_scsi TCMU_STS_RANGE (replicate 96 0)) = SAM_STAT_CHECK_CONDITION \<and>
   sense_key (snd (tcmu_sts_to_scsi TCMU_STS_RANGE (replicate 96 0))) \<noteq> 0"
  using sts_to_scsi_total [of "replicate 96 0" TCMU_STS_RANGE
      "fst (tcmu_sts_to_scsi TCMU_STS_RANGE (replicate 96 0))"
      "snd (tcmu_sts_to_scsi TCMU_STS_RANGE (replicate 96 0))"]
  by simp

text \<open>
  C8: The miscompare report. COMPARE AND WRITE and WRITE AND VERIFY store the offset of the
  first difference with \<open>tcmu_set_sense_info\<close>, which sets the VALID bit, and complete with
  \<open>TCMU_STS_MISCOMPARE\<close>. The initiator gets key MISCOMPARE and the offset in the INFORMATION
  field, but the VALID bit is overwritten by the response code, so the field is marked invalid.
\<close>
theorem miscompare_sense_info:
  assumes "18 \<le> length s" and "off < 2 ^ 32"
  shows "bit (tcmu_set_sense_info s off ! 0) 7 \<and>
    (let s' = snd (tcmu_sts_to_scsi TCMU_STS_MISCOMPARE (tcmu_set_sense_info s off))
     in sense_key s' = MISCOMPARE \<and> sense_asc s' = 0x1d00 \<and>
        be_dec (buf_get s' 3 4) = off \<and> \<not> bit (s' ! 0) 7)"
proof -
  let ?s1 = "tcmu_set_sense_info s off"
  let ?s2 = "tcmu_set_sense_data_raw ?s1 MISCOMPARE 0x1d00"
  have ne: "s \<noteq> []" using assms(1) by auto
  have len: "18 \<le> length ?s1"
    using assms(1) by (simp add: tcmu_set_sense_info_def put_unaligned_be32_eq Let_def)
  let ?b = "buf_put (sense_clear s) 3 (put_unaligned_be32 (of_nat off))"
  have "?s1 ! 0 = ?b ! 0 OR 0x80"
    using assms(1) ne by (simp add: tcmu_set_sense_info_def put_unaligned_be32_eq Let_def)
  then have "bit (?s1 ! 0) 7" by (simp add: bit_or_iff)
  moreover have "buf_get ?s2 3 4 = be_enc 4 off"
  proof (rule nth_equalityI)
    show "length (buf_get ?s2 3 4) = length (be_enc 4 off)" using len by simp
    fix i
    assume "i < length (buf_get ?s2 3 4)"
    then have "i < 4" using len by simp
    then show "buf_get ?s2 3 4 ! i = be_enc 4 off ! i"
      using assms len
      by (simp add: buf_get_def tcmu_set_sense_data_raw_def tcmu_set_sense_info_def Let_def
          put_unaligned_be32_eq nth_buf_put unat_of_nat)
  qed
  moreover have "\<not> bit (?s2 ! 0) 7"
    using sense_raw_fields(1) [OF len, of "0x1d00" MISCOMPARE] by simp
  ultimately show ?thesis
    using sense_raw_fields(2,3) [OF len, of "0x1d00" MISCOMPARE] assms(2)
    by (simp add: Let_def be_dec_enc)
qed

theorem miscompare_sense_info_witness:
  "be_dec (buf_get (snd (tcmu_sts_to_scsi TCMU_STS_MISCOMPARE (tcmu_set_sense_info (replicate 96 0) 513))) 3 4) = 513"
  using miscompare_sense_info [of "replicate 96 0" 513] by (simp add: Let_def)

text \<open>
  C9: \<open>tcmu_seek_in_cmd_iovec\<close> over exactly the first \<open>k\<close> entries of a command's
  data buffer leaves the command denoting only the entries from \<open>k\<close> to \<open>n - k\<close>: the
  count is reduced by the entries consumed while the array still starts at them, so the last
  \<open>k\<close> entries of the data that should remain are lost.
\<close>
theorem seek_in_cmd_iovec_loses_tail:
  assumes "iovec cmd = xs @ ys" and "iov_cnt cmd = length (iovec cmd)" and "length (iovec cmd) < 2 ^ 64"
    and "\<forall>v \<in> set xs. 0 < iov_len v"
  shows "\<exists>cmd'. tcmu_seek_in_cmd_iovec cmd (iov_total xs) = Some cmd' \<and>
    gather m (cmd_iovs cmd') = gather m (take (length ys - length xs) ys)"
proof -
  have cnt: "sub64 (iov_cnt cmd) (length xs) = length ys"
    using assms(1-3) by (simp add: sub64_id)
  show ?thesis
    using seek_whole_entries [OF assms(4), of ys] assms(1)
    by (simp add: tcmu_seek_in_cmd_iovec_def cnt cmd_iovs_def gather_append)
      (simp add: take_map gather_emptied)
qed

theorem seek_in_cmd_iovec_loses_tail_witness:
  "\<exists>cmd'. tcmu_seek_in_cmd_iovec
      \<lparr>cmd_id = 0, cdb = (\<lambda>_. 0), iovec = [\<lparr>iov_base = 0, iov_len = 4\<rparr>, \<lparr>iov_base = 4, iov_len = 4\<rparr>],
        iov_cnt = 2, sense_buf = []\<rparr> 4 = Some cmd' \<and> gather (\<lambda>_. 0) (cmd_iovs cmd') = []"
  using seek_in_cmd_iovec_loses_tail [of
      "\<lparr>cmd_id = 0, cdb = (\<lambda>_. 0), iovec = [\<lparr>iov_base = 0, iov_len = 4\<rparr>, \<lparr>iov_base = 4, iov_len = 4\<rparr>],
        iov_cnt = 2, sense_buf = []\<rparr>" "[\<lparr>iov_base = 0, iov_len = 4\<rparr>]" "[\<lparr>iov_base = 4, iov_len = 4\<rparr>]" "\<lambda>_. 0"]
  by simp

end
