(* ===== verification/Zbc_Zone.thy ===== *)
theory Zbc_Zone
  imports Tcmu_Scsi
begin

text \<open>
  The zones of the emulated zoned block device (\<open>file_zbc.c\<close>): zone descriptors, the
  device descriptor with its open-zone counters, the zone state machine (close, open, finish,
  reset) and the ZBC OUT commands that drive it. A pointer \<open>zone = &zdev->zones[i]\<close> is
  the index \<open>i\<close>, so updates through it are seen by the device, as in the C code.

  \<open>unsigned int\<close> counters wrap at 32 bits. A result \<open>None\<close> means that the C code
  aborts on a failed assertion or dereferences a null or out-of-range pointer.
\<close>

section \<open>Data\<close>

abbreviation (input) ZBC_HA :: nat where "ZBC_HA \<equiv> 0x00"
abbreviation (input) ZBC_HM :: nat where "ZBC_HM \<equiv> 0x14"

abbreviation (input) ZBC_ZONE_TYPE_CONVENTIONAL :: byte where "ZBC_ZONE_TYPE_CONVENTIONAL \<equiv> 0x1"
abbreviation (input) ZBC_ZONE_TYPE_SEQWRITE_REQ :: byte where "ZBC_ZONE_TYPE_SEQWRITE_REQ \<equiv> 0x2"
abbreviation (input) ZBC_ZONE_TYPE_SEQWRITE_PREF :: byte where "ZBC_ZONE_TYPE_SEQWRITE_PREF \<equiv> 0x3"

abbreviation (input) ZBC_ZONE_COND_NOT_WP :: byte where "ZBC_ZONE_COND_NOT_WP \<equiv> 0x0"
abbreviation (input) ZBC_ZONE_COND_EMPTY :: byte where "ZBC_ZONE_COND_EMPTY \<equiv> 0x1"
abbreviation (input) ZBC_ZONE_COND_IMP_OPEN :: byte where "ZBC_ZONE_COND_IMP_OPEN \<equiv> 0x2"
abbreviation (input) ZBC_ZONE_COND_EXP_OPEN :: byte where "ZBC_ZONE_COND_EXP_OPEN \<equiv> 0x3"
abbreviation (input) ZBC_ZONE_COND_CLOSED :: byte where "ZBC_ZONE_COND_CLOSED \<equiv> 0x4"
abbreviation (input) ZBC_ZONE_COND_READONLY :: byte where "ZBC_ZONE_COND_READONLY \<equiv> 0xD"
abbreviation (input) ZBC_ZONE_COND_FULL :: byte where "ZBC_ZONE_COND_FULL \<equiv> 0xE"
abbreviation (input) ZBC_ZONE_COND_OFFLINE :: byte where "ZBC_ZONE_COND_OFFLINE \<equiv> 0xF"

abbreviation (input) ASC_READ_ERROR :: nat where "ASC_READ_ERROR \<equiv> 0x1100"
abbreviation (input) ASC_WRITE_ERROR :: nat where "ASC_WRITE_ERROR \<equiv> 0x0C00"
abbreviation (input) ASC_LBA_OUT_OF_RANGE :: nat where "ASC_LBA_OUT_OF_RANGE \<equiv> 0x2100"
abbreviation (input) ASC_INVALID_FIELD_IN_CDB :: nat where "ASC_INVALID_FIELD_IN_CDB \<equiv> 0x2400"
abbreviation (input) ASC_INTERNAL_TARGET_FAILURE :: nat where "ASC_INTERNAL_TARGET_FAILURE \<equiv> 0x4400"
abbreviation (input) ASC_UNALIGNED_WRITE_COMMAND :: nat where "ASC_UNALIGNED_WRITE_COMMAND \<equiv> 0x2104"
abbreviation (input) ASC_WRITE_BOUNDARY_VIOLATION :: nat where "ASC_WRITE_BOUNDARY_VIOLATION \<equiv> 0x2105"
abbreviation (input) ASC_ATTEMPT_TO_READ_INVALID_DATA :: nat where "ASC_ATTEMPT_TO_READ_INVALID_DATA \<equiv> 0x2106"
abbreviation (input) ASC_INSUFFICIENT_ZONE_RESOURCES :: nat where "ASC_INSUFFICIENT_ZONE_RESOURCES \<equiv> 0x550E"

record zbc_zone =
  z_start :: nat
  z_len :: nat
  z_wp :: nat
  z_type :: byte
  z_cond :: byte
  z_non_seq :: byte
  z_reset :: byte

definition zbc_zone_conv :: "zbc_zone \<Rightarrow> bool" where
  "zbc_zone_conv z \<longleftrightarrow> z_type z = ZBC_ZONE_TYPE_CONVENTIONAL"

definition zbc_zone_seq_req :: "zbc_zone \<Rightarrow> bool" where
  "zbc_zone_seq_req z \<longleftrightarrow> z_type z = ZBC_ZONE_TYPE_SEQWRITE_REQ"

definition zbc_zone_seq_pref :: "zbc_zone \<Rightarrow> bool" where
  "zbc_zone_seq_pref z \<longleftrightarrow> z_type z = ZBC_ZONE_TYPE_SEQWRITE_PREF"

definition zbc_zone_seq :: "zbc_zone \<Rightarrow> bool" where
  "zbc_zone_seq z \<longleftrightarrow> \<not> zbc_zone_conv z"

definition zbc_zone_empty :: "zbc_zone \<Rightarrow> bool" where
  "zbc_zone_empty z \<longleftrightarrow> z_cond z = ZBC_ZONE_COND_EMPTY"

definition zbc_zone_full :: "zbc_zone \<Rightarrow> bool" where
  "zbc_zone_full z \<longleftrightarrow> z_cond z = ZBC_ZONE_COND_FULL"

definition zbc_zone_imp_open :: "zbc_zone \<Rightarrow> bool" where
  "zbc_zone_imp_open z \<longleftrightarrow> z_cond z = ZBC_ZONE_COND_IMP_OPEN"

definition zbc_zone_exp_open :: "zbc_zone \<Rightarrow> bool" where
  "zbc_zone_exp_open z \<longleftrightarrow> z_cond z = ZBC_ZONE_COND_EXP_OPEN"

definition zbc_zone_is_open :: "zbc_zone \<Rightarrow> bool" where
  "zbc_zone_is_open z \<longleftrightarrow> zbc_zone_imp_open z \<or> zbc_zone_exp_open z"

definition zbc_zone_closed :: "zbc_zone \<Rightarrow> bool" where
  "zbc_zone_closed z \<longleftrightarrow> z_cond z = ZBC_ZONE_COND_CLOSED"

lemmas zone_type_defs = zbc_zone_conv_def zbc_zone_seq_req_def zbc_zone_seq_pref_def zbc_zone_seq_def

lemmas zone_cond_defs = zbc_zone_empty_def zbc_zone_full_def zbc_zone_imp_open_def
  zbc_zone_exp_open_def zbc_zone_is_open_def zbc_zone_closed_def

record zbc_meta =
  m_magic :: nat
  m_model :: nat
  m_capacity :: nat
  m_lba_size :: nat
  m_zone_size :: nat
  m_nr_zones :: nat
  m_nr_conv_zones :: nat
  m_nr_open_zones :: nat
  m_nr_imp_open :: nat
  m_nr_exp_open :: nat

record zbc_dev_config =
  c_path :: string
  c_dev_size :: int
  c_need_format :: bool
  c_model :: nat
  c_lba_size :: nat
  c_zone_size :: nat
  c_conv_num :: nat
  c_open_num :: nat

text \<open>\<open>zdev_file\<close> is the contents of the backstore file behind \<open>zdev->fd\<close>.\<close>

record zbc_dev =
  zdev_cfg :: zbc_dev_config
  zdev_file :: mem
  meta_size :: nat
  meta :: zbc_meta
  zdev_model :: nat
  capacity :: nat
  lba_size :: nat
  zone_size :: nat
  zones :: "zbc_zone list"
  nr_zones :: nat
  nr_conv_zones :: nat
  nr_open_zones :: nat
  nr_imp_open :: nat
  nr_exp_open :: nat

type_synonym zbc_result = "(tcmu_sts \<times> zbc_dev \<times> tcmulib_cmd) option"

definition zbc_fail :: "zbc_dev \<Rightarrow> tcmulib_cmd \<Rightarrow> byte \<Rightarrow> nat \<Rightarrow> zbc_result" where
  "zbc_fail zd cmd key asc = (case sense_fail cmd key asc of (sts, cmd') \<Rightarrow> Some (sts, zd, cmd'))"

definition upd_zone :: "zbc_dev \<Rightarrow> nat \<Rightarrow> (zbc_zone \<Rightarrow> zbc_zone) \<Rightarrow> zbc_dev" where
  "upd_zone zd i f = zd\<lparr>zones := (zones zd)[i := f (zones zd ! i)]\<rparr>"

section \<open>Zone state machine\<close>

definition zbc_get_zone :: "zbc_dev \<Rightarrow> nat \<Rightarrow> bool \<Rightarrow> nat option" where
  "zbc_get_zone zd lba lowest =
     (let zno = u32 (lba div zone_size zd) in
      if zno \<ge> nr_zones zd then None
      else if lowest \<and> lba \<noteq> z_start (zones zd ! zno) then None
      else Some zno)"

definition zbc_close_zone_raw :: "zbc_dev \<Rightarrow> nat \<Rightarrow> zbc_dev" where
  "zbc_close_zone_raw zd i =
     (let z = zones zd ! i in
      if zbc_zone_conv z then zd
      else if \<not> zbc_zone_is_open z then zd
      else
        let zd1 = (if zbc_zone_imp_open z then zd\<lparr>nr_imp_open := sub32 (nr_imp_open zd) 1\<rparr>
                   else zd\<lparr>nr_exp_open := sub32 (nr_exp_open zd) 1\<rparr>)
        in upd_zone zd1 i (\<lambda>z. z\<lparr>z_cond := if z_wp z = z_start z then ZBC_ZONE_COND_EMPTY
                                           else ZBC_ZONE_COND_CLOSED\<rparr>))"

fun close_imp_open_from :: "zbc_dev \<Rightarrow> nat list \<Rightarrow> zbc_dev" where
  "close_imp_open_from zd [] = zd"
| "close_imp_open_from zd (i # is) =
     (if zbc_zone_imp_open (zones zd ! i) then zbc_close_zone_raw zd i else close_imp_open_from zd is)"

definition zbc_close_imp_open_zone :: "zbc_dev \<Rightarrow> zbc_dev" where
  "zbc_close_imp_open_zone zd = close_imp_open_from zd [0..<nr_zones zd]"

definition zbc_open_zone_raw :: "zbc_dev \<Rightarrow> nat \<Rightarrow> bool \<Rightarrow> zbc_dev" where
  "zbc_open_zone_raw zd i explicit =
     (let z = zones zd ! i in
      if (explicit \<and> zbc_zone_exp_open z) \<or> (\<not> explicit \<and> zbc_zone_imp_open z) then zd
      else
        let zd1 = (if add32 (nr_imp_open zd) (nr_exp_open zd) \<ge> nr_open_zones zd
                   then zbc_close_imp_open_zone zd else zd)
        in if explicit
           then (upd_zone zd1 i (\<lambda>z. z\<lparr>z_cond := ZBC_ZONE_COND_EXP_OPEN\<rparr>))
                  \<lparr>nr_exp_open := add32 (nr_exp_open zd1) 1\<rparr>
           else (upd_zone zd1 i (\<lambda>z. z\<lparr>z_cond := ZBC_ZONE_COND_IMP_OPEN\<rparr>))
                  \<lparr>nr_imp_open := add32 (nr_imp_open zd1) 1\<rparr>)"

definition zbc_finish_zone_raw :: "zbc_dev \<Rightarrow> nat \<Rightarrow> bool \<Rightarrow> zbc_dev" where
  "zbc_finish_zone_raw zd i emp =
     (let z = zones zd ! i in
      if zbc_zone_conv z then zd
      else if zbc_zone_closed z \<or> zbc_zone_is_open z \<or> (emp \<and> zbc_zone_empty z) then
        let zd1 = (if zbc_zone_is_open z then zbc_close_zone_raw zd i else zd)
        in upd_zone zd1 i (\<lambda>z. z\<lparr>z_wp := add64 (z_start z) (z_len z), z_cond := ZBC_ZONE_COND_FULL,
                                 z_non_seq := 0, z_reset := 0\<rparr>)
      else zd)"

definition zbc_reset_wp_raw :: "zbc_dev \<Rightarrow> nat \<Rightarrow> zbc_dev" where
  "zbc_reset_wp_raw zd i =
     (let z = zones zd ! i in
      if zbc_zone_conv z then zd
      else
        let zd1 = (if zbc_zone_is_open z then zbc_close_zone_raw zd i else zd)
        in upd_zone zd1 i (\<lambda>z. z\<lparr>z_wp := z_start z, z_cond := ZBC_ZONE_COND_EMPTY,
                                 z_non_seq := 0, z_reset := 0\<rparr>))"

text \<open>\<open>for (i = 0; i < zdev->nr_zones; i++) op(zdev, &zdev->zones[i])\<close>\<close>

definition for_zones :: "(zbc_dev \<Rightarrow> nat \<Rightarrow> zbc_dev) \<Rightarrow> zbc_dev \<Rightarrow> zbc_dev" where
  "for_zones f zd = fold (\<lambda>i d. f d i) [0..<nr_zones zd] zd"

section \<open>ZBC OUT commands\<close>

definition cdb_all :: "tcmulib_cmd \<Rightarrow> bool" where
  "cdb_all cmd \<longleftrightarrow> cdb cmd 14 AND 0x01 \<noteq> 0"

definition count_closed :: "zbc_dev \<Rightarrow> nat" where
  "count_closed zd = u32 (length (filter (\<lambda>i. zbc_zone_closed (zones zd ! i)) [0..<nr_zones zd]))"

definition zbc_open_zone :: "zbc_dev \<Rightarrow> tcmulib_cmd \<Rightarrow> zbc_result" where
  "zbc_open_zone zd cmd =
     (if cdb_all cmd then
        if add32 (nr_exp_open zd) (count_closed zd) > nr_open_zones zd
        then zbc_fail zd cmd DATA_PROTECT ASC_INSUFFICIENT_ZONE_RESOURCES
        else Some (TCMU_STS_OK,
               for_zones (\<lambda>d i. if zbc_zone_closed (zones d ! i) then zbc_open_zone_raw d i True else d) zd,
               cmd)
      else
        case tcmu_get_lba (cdb cmd) of
          None \<Rightarrow> None
        | Some lba \<Rightarrow>
            if lba > capacity zd then zbc_fail zd cmd ILLEGAL_REQUEST ASC_LBA_OUT_OF_RANGE
            else (case zbc_get_zone zd lba True of
                None \<Rightarrow> zbc_fail zd cmd ILLEGAL_REQUEST ASC_INVALID_FIELD_IN_CDB
              | Some i \<Rightarrow>
                  let z = zones zd ! i in
                  if zbc_zone_conv z then zbc_fail zd cmd ILLEGAL_REQUEST ASC_INVALID_FIELD_IN_CDB
                  else if zbc_zone_exp_open z \<or> zbc_zone_full z then Some (TCMU_STS_OK, zd, cmd)
                  else if add32 (nr_exp_open zd) 1 > nr_open_zones zd
                  then zbc_fail zd cmd DATA_PROTECT ASC_INSUFFICIENT_ZONE_RESOURCES
                  else
                    let zd1 = (if zbc_zone_imp_open z then zbc_close_zone_raw zd i else zd)
                    in Some (TCMU_STS_OK, zbc_open_zone_raw zd1 i True, cmd)))"

text \<open>
  CLOSE ZONE, FINISH ZONE and RESET WRITE POINTER have the same shape: the \<open>ALL\<close> bit
  applies the operation to every zone, otherwise the zone that starts at the given LBA.
\<close>

definition zone_command ::
  "(zbc_dev \<Rightarrow> nat \<Rightarrow> zbc_dev) \<Rightarrow> (zbc_dev \<Rightarrow> nat \<Rightarrow> zbc_dev) \<Rightarrow> zbc_dev \<Rightarrow> tcmulib_cmd \<Rightarrow> zbc_result" where
  "zone_command all_op one_op zd cmd =
     (if cdb_all cmd then Some (TCMU_STS_OK, for_zones all_op zd, cmd)
      else
        case tcmu_get_lba (cdb cmd) of
          None \<Rightarrow> None
        | Some lba \<Rightarrow>
            if lba > capacity zd then zbc_fail zd cmd ILLEGAL_REQUEST ASC_LBA_OUT_OF_RANGE
            else (case zbc_get_zone zd lba True of
                None \<Rightarrow> zbc_fail zd cmd ILLEGAL_REQUEST ASC_INVALID_FIELD_IN_CDB
              | Some i \<Rightarrow>
                  if zbc_zone_conv (zones zd ! i)
                  then zbc_fail zd cmd ILLEGAL_REQUEST ASC_INVALID_FIELD_IN_CDB
                  else Some (TCMU_STS_OK, one_op zd i, cmd)))"

definition zbc_close_zone :: "zbc_dev \<Rightarrow> tcmulib_cmd \<Rightarrow> zbc_result" where
  "zbc_close_zone = zone_command zbc_close_zone_raw zbc_close_zone_raw"

definition zbc_finish_zone :: "zbc_dev \<Rightarrow> tcmulib_cmd \<Rightarrow> zbc_result" where
  "zbc_finish_zone = zone_command (\<lambda>d i. zbc_finish_zone_raw d i False) (\<lambda>d i. zbc_finish_zone_raw d i True)"

definition zbc_reset_wp :: "zbc_dev \<Rightarrow> tcmulib_cmd \<Rightarrow> zbc_result" where
  "zbc_reset_wp = zone_command zbc_reset_wp_raw zbc_reset_wp_raw"

definition zbc_out :: "zbc_dev \<Rightarrow> tcmulib_cmd \<Rightarrow> zbc_result" where
  "zbc_out zd cmd =
     (if cdb cmd 1 = 0x01 then zbc_close_zone zd cmd
      else if cdb cmd 1 = 0x02 then zbc_finish_zone zd cmd
      else if cdb cmd 1 = 0x03 then zbc_open_zone zd cmd
      else if cdb cmd 1 = 0x04 then zbc_reset_wp zd cmd
      else zbc_fail zd cmd ILLEGAL_REQUEST ASC_INVALID_FIELD_IN_CDB)"

section \<open>Invariant\<close>

text \<open>
  Geometry: zone \<open>i\<close> starts at \<open>i * zone_size\<close> and the zones tile the LBAs
  below the capacity; only the last may be short. Type: a device has one kind of sequential zone.
\<close>

definition seq_type_of :: "nat \<Rightarrow> byte" where
  "seq_type_of mdl = (if mdl = ZBC_HA then ZBC_ZONE_TYPE_SEQWRITE_PREF else ZBC_ZONE_TYPE_SEQWRITE_REQ)"

definition zone_end :: "zbc_zone \<Rightarrow> nat" where
  "zone_end z = z_start z + z_len z"

definition zone_geom :: "zbc_dev \<Rightarrow> nat \<Rightarrow> zbc_zone \<Rightarrow> bool" where
  "zone_geom zd i z \<longleftrightarrow>
     z_start z = i * zone_size zd \<and> zone_end z = min (Suc i * zone_size zd) (capacity zd) \<and> 0 < z_len z \<and>
     z_type z = (if i < nr_conv_zones zd then ZBC_ZONE_TYPE_CONVENTIONAL else seq_type_of (zdev_model zd))"

definition zbc_geom :: "zbc_dev \<Rightarrow> bool" where
  "zbc_geom zd \<longleftrightarrow>
     0 < zone_size zd \<and> length (zones zd) = nr_zones zd \<and> nr_zones zd < 2 ^ 32 \<and>
     capacity zd < 2 ^ 63 \<and> nr_zones zd = (capacity zd + zone_size zd - 1) div zone_size zd \<and>
     list_all (\<lambda>(i, z). zone_geom zd i z) (enumerate 0 (zones zd))"

text \<open>Write pointer and condition of one zone.\<close>

definition zone_ok :: "zbc_zone \<Rightarrow> bool" where
  "zone_ok z \<longleftrightarrow>
     (if zbc_zone_conv z then z_cond z = ZBC_ZONE_COND_NOT_WP
      else z_start z \<le> z_wp z \<and> z_wp z \<le> zone_end z \<and>
        (if zbc_zone_empty z then z_wp z = z_start z
         else if zbc_zone_full z then z_wp z = zone_end z
         else (zbc_zone_closed z \<and> z_start z < z_wp z \<or> zbc_zone_is_open z) \<and>
              (zbc_zone_seq_req z \<longrightarrow> z_wp z < zone_end z)))"

definition count_zones :: "(zbc_zone \<Rightarrow> bool) \<Rightarrow> zbc_dev \<Rightarrow> nat" where
  "count_zones P zd = length (filter P (zones zd))"

text \<open>The counters the code maintains incrementally agree with the zone conditions.\<close>

definition counters_ok :: "zbc_dev \<Rightarrow> bool" where
  "counters_ok zd \<longleftrightarrow>
     nr_imp_open zd = count_zones zbc_zone_imp_open zd \<and> nr_exp_open zd = count_zones zbc_zone_exp_open zd"

definition zbc_inv :: "zbc_dev \<Rightarrow> bool" where
  "zbc_inv zd \<longleftrightarrow> zbc_geom zd \<and> list_all zone_ok (zones zd) \<and> counters_ok zd"

text \<open>The limit on open zones that the device reports.\<close>

definition open_limit :: "zbc_dev \<Rightarrow> bool" where
  "open_limit zd \<longleftrightarrow> nr_imp_open zd + nr_exp_open zd \<le> nr_open_zones zd"

lemma length_filter_update:
  "i < length xs \<Longrightarrow>
   length (filter P (xs[i := y])) + of_bool (P (xs ! i)) = length (filter P xs) + of_bool (P y)"
proof (induction xs arbitrary: i)
  case Nil
  then show ?case by simp
next
  case (Cons x xs)
  show ?case
  proof (cases i)
    case 0
    then show ?thesis by simp
  next
    case (Suc j)
    with Cons have "length (filter P (xs[j := y])) + of_bool (P (xs ! j)) = length (filter P xs) + of_bool (P y)"
      by simp
    with Suc show ?thesis by simp
  qed
qed

lemma zbc_geom_nth: "zbc_geom zd \<Longrightarrow> i < nr_zones zd \<Longrightarrow> zone_geom zd i (zones zd ! i)"
  by (auto simp: zbc_geom_def list_all_length nth_enumerate_eq)

lemma zbc_inv_zone_ok: "zbc_inv zd \<Longrightarrow> i < nr_zones zd \<Longrightarrow> zone_ok (zones zd ! i)"
  by (auto simp: zbc_inv_def zbc_geom_def list_all_length)

lemma zbc_inv_length: "zbc_inv zd \<Longrightarrow> length (zones zd) = nr_zones zd"
  by (simp add: zbc_inv_def zbc_geom_def)

lemma count_zones_le: "count_zones P zd \<le> length (zones zd)"
  by (simp add: count_zones_def)

text \<open>
  The frame every zone operation keeps: it replaces one zone by one with the same place and
  type, and changes nothing of the device but the two counters.
\<close>

definition zone_upd :: "zbc_dev \<Rightarrow> nat \<Rightarrow> zbc_zone \<Rightarrow> nat \<Rightarrow> nat \<Rightarrow> zbc_dev" where
  "zone_upd zd i z imp ex = zd\<lparr>zones := (zones zd)[i := z], nr_imp_open := imp, nr_exp_open := ex\<rparr>"

lemma zone_upd_simps [simp]:
  "zones (zone_upd zd i z a b) = (zones zd)[i := z]" "nr_imp_open (zone_upd zd i z a b) = a"
  "nr_exp_open (zone_upd zd i z a b) = b" "nr_zones (zone_upd zd i z a b) = nr_zones zd"
  "zone_size (zone_upd zd i z a b) = zone_size zd" "capacity (zone_upd zd i z a b) = capacity zd"
  "nr_conv_zones (zone_upd zd i z a b) = nr_conv_zones zd" "zdev_model (zone_upd zd i z a b) = zdev_model zd"
  "nr_open_zones (zone_upd zd i z a b) = nr_open_zones zd"
  by (simp_all add: zone_upd_def)

lemma zone_upd_inv:
  assumes inv: "zbc_inv zd" and i: "i < nr_zones zd"
    and same: "z_start z = z_start (zones zd ! i)" "z_len z = z_len (zones zd ! i)" "z_type z = z_type (zones zd ! i)"
    and ok: "zone_ok z"
    and a: "a + of_bool (zbc_zone_imp_open (zones zd ! i)) = nr_imp_open zd + of_bool (zbc_zone_imp_open z)"
    and b: "b + of_bool (zbc_zone_exp_open (zones zd ! i)) = nr_exp_open zd + of_bool (zbc_zone_exp_open z)"
  shows "zbc_inv (zone_upd zd i z a b)"
proof -
  let ?zd = "zone_upd zd i z a b"
  have len: "i < length (zones zd)" using inv i by (simp add: zbc_inv_length)
  have "zone_geom ?zd j (zones ?zd ! j)" if "j < length (zones zd)" for j
  proof -
    have "zone_geom zd j (zones zd ! j)"
      using inv that by (simp add: zbc_inv_def zbc_geom_nth zbc_geom_def)
    then show ?thesis
      using same that len by (cases "j = i") (auto simp: zone_geom_def zone_end_def)
  qed
  then have "zbc_geom ?zd"
    using inv by (auto simp: zbc_inv_def zbc_geom_def list_all_length nth_enumerate_eq)
  moreover have "list_all zone_ok (zones ?zd)"
    using inv ok len by (auto simp: zbc_inv_def list_all_length nth_list_update)
  moreover have "counters_ok ?zd"
    using inv a b length_filter_update [OF len, of zbc_zone_imp_open z]
      length_filter_update [OF len, of zbc_zone_exp_open z]
    by (auto simp: zbc_inv_def counters_ok_def count_zones_def)
  ultimately show ?thesis by (simp add: zbc_inv_def)
qed

definition zone_place :: "zbc_zone \<Rightarrow> nat \<times> nat \<times> byte" where
  "zone_place z = (z_start z, z_len z, z_type z)"

definition dev_erase :: "zbc_dev \<Rightarrow> zbc_dev" where
  "dev_erase zd = zd\<lparr>zones := [], nr_imp_open := 0, nr_exp_open := 0\<rparr>"

definition dev_frame :: "zbc_dev \<Rightarrow> zbc_dev \<Rightarrow> bool" where
  "dev_frame zd zd' \<longleftrightarrow>
     dev_erase zd' = dev_erase zd \<and> map zone_place (zones zd') = map zone_place (zones zd)"

lemma dev_frame_refl [simp]: "dev_frame zd zd"
  by (simp add: dev_frame_def)

lemma dev_frame_trans: "dev_frame a b \<Longrightarrow> dev_frame b c \<Longrightarrow> dev_frame a c"
  by (simp add: dev_frame_def)

lemma dev_erase_fields:
  "nr_zones (dev_erase zd) = nr_zones zd" "capacity (dev_erase zd) = capacity zd"
  "zone_size (dev_erase zd) = zone_size zd" "nr_open_zones (dev_erase zd) = nr_open_zones zd"
  "lba_size (dev_erase zd) = lba_size zd" "zdev_model (dev_erase zd) = zdev_model zd"
  "meta_size (dev_erase zd) = meta_size zd" "zdev_file (dev_erase zd) = zdev_file zd"
  "nr_conv_zones (dev_erase zd) = nr_conv_zones zd"
  by (simp_all add: dev_erase_def)

lemma dev_frame_fields:
  assumes "dev_frame zd zd'"
  shows "nr_zones zd' = nr_zones zd" "capacity zd' = capacity zd" "zone_size zd' = zone_size zd"
    "nr_open_zones zd' = nr_open_zones zd" "lba_size zd' = lba_size zd" "zdev_model zd' = zdev_model zd"
    "meta_size zd' = meta_size zd" "zdev_file zd' = zdev_file zd" "nr_conv_zones zd' = nr_conv_zones zd"
proof -
  have e: "dev_erase zd' = dev_erase zd" using assms by (simp add: dev_frame_def)
  show "nr_zones zd' = nr_zones zd" "capacity zd' = capacity zd" "zone_size zd' = zone_size zd"
    "nr_open_zones zd' = nr_open_zones zd" "lba_size zd' = lba_size zd" "zdev_model zd' = zdev_model zd"
    "meta_size zd' = meta_size zd" "zdev_file zd' = zdev_file zd" "nr_conv_zones zd' = nr_conv_zones zd"
    using arg_cong [OF e, of nr_zones] arg_cong [OF e, of capacity] arg_cong [OF e, of zone_size]
      arg_cong [OF e, of nr_open_zones] arg_cong [OF e, of lba_size] arg_cong [OF e, of zdev_model]
      arg_cong [OF e, of meta_size] arg_cong [OF e, of zdev_file] arg_cong [OF e, of nr_conv_zones]
    by (simp_all only: dev_erase_fields)
qed

lemma dev_frame_place:
  assumes "dev_frame zd zd'" and "i < length (zones zd)"
  shows "z_start (zones zd' ! i) = z_start (zones zd ! i)" "z_len (zones zd' ! i) = z_len (zones zd ! i)"
    "z_type (zones zd' ! i) = z_type (zones zd ! i)"
proof -
  from assms(1) have m: "map zone_place (zones zd') = map zone_place (zones zd)"
    by (simp add: dev_frame_def)
  then have "length (zones zd') = length (zones zd)" by (rule map_eq_imp_length_eq)
  with assms(2) arg_cong [OF m, of "\<lambda>xs. xs ! i"] have "zone_place (zones zd' ! i) = zone_place (zones zd ! i)"
    by simp
  then show "z_start (zones zd' ! i) = z_start (zones zd ! i)" "z_len (zones zd' ! i) = z_len (zones zd ! i)"
    "z_type (zones zd' ! i) = z_type (zones zd ! i)"
    by (simp_all add: zone_place_def)
qed

lemma zone_upd_frame:
  "i < length (zones zd) \<Longrightarrow> zone_place z = zone_place (zones zd ! i) \<Longrightarrow> dev_frame zd (zone_upd zd i z a b)"
  by (simp add: dev_frame_def dev_erase_def zone_upd_def map_update list_update_same_conv)

section \<open>Interfaces of the zone operations\<close>

text \<open>What every operation on one zone promises, and what follows for a loop over all zones.\<close>

locale zone_op =
  fixes opr :: "zbc_dev \<Rightarrow> nat \<Rightarrow> zbc_dev"
  assumes opr_inv: "zbc_inv zd \<Longrightarrow> i < nr_zones zd \<Longrightarrow> zbc_inv (opr zd i)"
    and opr_frame: "zbc_inv zd \<Longrightarrow> i < nr_zones zd \<Longrightarrow> dev_frame zd (opr zd i)"
begin

lemma fold_inv_frame:
  "zbc_inv zd \<Longrightarrow> list_all (\<lambda>i. i < nr_zones zd) is \<Longrightarrow>
   zbc_inv (fold (\<lambda>i d. opr d i) is zd) \<and> dev_frame zd (fold (\<lambda>i d. opr d i) is zd)"
proof (induction "is" arbitrary: zd)
  case Nil
  then show ?case by simp
next
  case (Cons i "is")
  then have inv: "zbc_inv (opr zd i)" and fr: "dev_frame zd (opr zd i)"
    by (auto intro: opr_inv opr_frame)
  with Cons have "list_all (\<lambda>j. j < nr_zones (opr zd i)) is"
    by (simp add: dev_frame_fields(1) [OF fr])
  with Cons.IH [OF inv] fr show ?case by (auto intro: dev_frame_trans)
qed

lemma for_zones_inv: "zbc_inv zd \<Longrightarrow> zbc_inv (for_zones opr zd)"
  and for_zones_frame: "zbc_inv zd \<Longrightarrow> dev_frame zd (for_zones opr zd)"
  using fold_inv_frame [of zd "[0..<nr_zones zd]"] by (auto simp: for_zones_def list_all_iff)

end

text \<open>An operation that acts on its zone alone, as a function of that zone, and opens nothing.\<close>

locale local_zone_op = zone_op +
  fixes ztrans :: "zbc_zone \<Rightarrow> zbc_zone"
  assumes opr_zones: "zbc_inv zd \<Longrightarrow> i < nr_zones zd \<Longrightarrow> zones (opr zd i) = (zones zd)[i := ztrans (zones zd ! i)]"
    and ztrans_open: "zbc_zone_is_open (ztrans z) \<Longrightarrow> zbc_zone_is_open z \<and> z_cond (ztrans z) = z_cond z"
begin

lemma opr_limit:
  assumes "zbc_inv zd" and "i < nr_zones zd" and "open_limit zd"
  shows "open_limit (opr zd i)"
proof -
  have len: "i < length (zones zd)" using assms by (simp add: zbc_inv_length)
  have "counters_ok zd" "counters_ok (opr zd i)"
    using assms opr_inv by (auto simp: zbc_inv_def)
  moreover have "length (filter P (zones (opr zd i))) \<le> length (filter P (zones zd))"
    if "P = zbc_zone_imp_open \<or> P = zbc_zone_exp_open" for P
  proof -
    have "of_bool (P (ztrans (zones zd ! i))) \<le> (of_bool (P (zones zd ! i)) :: nat)"
      using that ztrans_open [of "zones zd ! i"] by (auto simp: zone_cond_defs)
    with length_filter_update [OF len, of P "ztrans (zones zd ! i)"] show ?thesis
      unfolding opr_zones [OF assms(1,2)] by linarith
  qed
  ultimately have "nr_imp_open (opr zd i) \<le> nr_imp_open zd" "nr_exp_open (opr zd i) \<le> nr_exp_open zd"
    by (simp_all add: counters_ok_def count_zones_def)
  then show ?thesis
    using assms(3) dev_frame_fields(4) [OF opr_frame [OF assms(1,2)]] by (simp add: open_limit_def)
qed

lemma fold_zones:
  "zbc_inv zd \<Longrightarrow> n \<le> nr_zones zd \<Longrightarrow>
   zbc_inv (fold (\<lambda>i d. opr d i) [0..<n] zd) \<and> nr_zones (fold (\<lambda>i d. opr d i) [0..<n] zd) = nr_zones zd \<and>
   zones (fold (\<lambda>i d. opr d i) [0..<n] zd) = map ztrans (take n (zones zd)) @ drop n (zones zd) \<and>
   (open_limit zd \<longrightarrow> open_limit (fold (\<lambda>i d. opr d i) [0..<n] zd))"
proof (induction n)
  case 0
  then show ?case by simp
next
  case (Suc n)
  let ?d = "fold (\<lambda>i d. opr d i) [0..<n] zd"
  have IH: "zbc_inv ?d" "nr_zones ?d = nr_zones zd"
    "zones ?d = map ztrans (take n (zones zd)) @ drop n (zones zd)" "open_limit zd \<longrightarrow> open_limit ?d"
    using Suc by auto
  have n: "n < nr_zones ?d" using IH Suc.prems by simp
  have len: "n < length (zones zd)" using Suc.prems by (simp add: zbc_inv_length)
  have "zones (opr ?d n) = map ztrans (take (Suc n) (zones zd)) @ drop (Suc n) (zones zd)"
    using opr_zones [OF IH(1) n] IH(3) len
    by (simp add: nth_append list_update_append take_Suc_conv_app_nth Cons_nth_drop_Suc [symmetric])
  then show ?case
    using opr_inv [OF IH(1) n] dev_frame_fields(1) [OF opr_frame [OF IH(1) n]] opr_limit [OF IH(1) n] IH
    by simp
qed

lemma for_zones_zones: "zbc_inv zd \<Longrightarrow> zones (for_zones opr zd) = map ztrans (zones zd)"
  and for_zones_limit: "zbc_inv zd \<Longrightarrow> open_limit zd \<Longrightarrow> open_limit (for_zones opr zd)"
  using fold_zones [of zd "nr_zones zd"] by (simp_all add: for_zones_def zbc_inv_length)

end

section \<open>Closing, finishing and resetting\<close>

text \<open>What the operations do to their zone, as functions of the zone alone.\<close>

definition close_z :: "zbc_zone \<Rightarrow> zbc_zone" where
  "close_z z = (if zbc_zone_seq z \<and> zbc_zone_is_open z
     then z\<lparr>z_cond := if z_wp z = z_start z then ZBC_ZONE_COND_EMPTY else ZBC_ZONE_COND_CLOSED\<rparr> else z)"

definition finish_z :: "bool \<Rightarrow> zbc_zone \<Rightarrow> zbc_zone" where
  "finish_z emp z = (if zbc_zone_seq z \<and> (zbc_zone_closed z \<or> zbc_zone_is_open z \<or> emp \<and> zbc_zone_empty z)
     then z\<lparr>z_wp := zone_end z, z_cond := ZBC_ZONE_COND_FULL, z_non_seq := 0, z_reset := 0\<rparr> else z)"

definition reset_z :: "zbc_zone \<Rightarrow> zbc_zone" where
  "reset_z z = (if zbc_zone_seq z
     then z\<lparr>z_wp := z_start z, z_cond := ZBC_ZONE_COND_EMPTY, z_non_seq := 0, z_reset := 0\<rparr> else z)"

lemma place_z [simp]:
  "zone_place (close_z z) = zone_place z" "zone_place (finish_z b z) = zone_place z"
  "zone_place (reset_z z) = zone_place z"
  by (simp_all add: close_z_def finish_z_def reset_z_def zone_place_def)

lemma zone_bounds:
  assumes "zbc_inv zd" and "i < nr_zones zd"
  shows "0 < z_len (zones zd ! i)" "zone_end (zones zd ! i) \<le> capacity zd" "capacity zd < 2 ^ 63"
    "z_type (zones zd ! i) \<in> {ZBC_ZONE_TYPE_CONVENTIONAL, ZBC_ZONE_TYPE_SEQWRITE_REQ, ZBC_ZONE_TYPE_SEQWRITE_PREF}"
  using zbc_geom_nth [of zd i] assms
  by (auto simp: zbc_inv_def zbc_geom_def zone_geom_def seq_type_of_def)

lemma zone_end_add64:
  assumes "zbc_inv zd" and "i < nr_zones zd"
  shows "add64 (z_start (zones zd ! i)) (z_len (zones zd ! i)) = zone_end (zones zd ! i)"
  using zone_bounds(2,3) [OF assms] by (simp add: zone_end_def add64_id)

lemma filter_pos: "i < length xs \<Longrightarrow> P (xs ! i) \<Longrightarrow> 1 \<le> length (filter P xs)"
  by (metis filter_empty_conv length_0_conv less_one linorder_not_less nth_mem)

lemma open_count_bound:
  assumes "zbc_inv zd"
  shows "nr_imp_open zd + nr_exp_open zd \<le> nr_zones zd" "nr_zones zd < 2 ^ 32"
proof -
  have "length (filter zbc_zone_imp_open xs) + length (filter zbc_zone_exp_open xs) \<le> length xs" for xs
    by (induction xs) (auto simp: zone_cond_defs)
  from this [of "zones zd"] show "nr_imp_open zd + nr_exp_open zd \<le> nr_zones zd"
    using assms zbc_inv_length [OF assms] by (auto simp: zbc_inv_def counters_ok_def count_zones_def)
  show "nr_zones zd < 2 ^ 32" using assms by (simp add: zbc_inv_def zbc_geom_def)
qed

lemma zone_ok_open_seq: "zone_ok z \<Longrightarrow> zbc_zone_is_open z \<Longrightarrow> zbc_zone_seq z"
  by (cases "zbc_zone_conv z") (auto simp: zone_ok_def zbc_zone_seq_def zone_cond_defs)

lemma zone_upd_id [simp]: "zone_upd zd i (zones zd ! i) (nr_imp_open zd) (nr_exp_open zd) = zd"
  by (simp add: zone_upd_def)

lemma upd_zone_zone_upd:
  "i < length (zones zd) \<Longrightarrow> upd_zone (zone_upd zd i z a b) i f = zone_upd zd i (f z) a b"
  by (simp add: upd_zone_def zone_upd_def)

lemma close_raw_upd:
  assumes inv: "zbc_inv zd" and i: "i < nr_zones zd"
  shows "zbc_close_zone_raw zd i = zone_upd zd i (close_z (zones zd ! i))
    (nr_imp_open zd - of_bool (zbc_zone_imp_open (zones zd ! i)))
    (nr_exp_open zd - of_bool (zbc_zone_exp_open (zones zd ! i)))"
proof -
  let ?z = "zones zd ! i"
  have len: "i < length (zones zd)" using assms by (simp add: zbc_inv_length)
  have ok: "zone_ok ?z" using assms by (rule zbc_inv_zone_ok)
  have cnt: "nr_imp_open zd = length (filter zbc_zone_imp_open (zones zd))"
    "nr_exp_open zd = length (filter zbc_zone_exp_open (zones zd))"
    using inv by (simp_all add: zbc_inv_def counters_ok_def count_zones_def)
  have b: "nr_imp_open zd < 2 ^ 32" "nr_exp_open zd < 2 ^ 32"
    using open_count_bound [OF inv] by auto
  consider "\<not> zbc_zone_is_open ?z" | "zbc_zone_imp_open ?z" "zbc_zone_seq ?z" | "zbc_zone_exp_open ?z" "zbc_zone_seq ?z"
    using zone_ok_open_seq [OF ok] by (auto simp: zbc_zone_is_open_def)
  then show ?thesis
  proof cases
    case 1
    then show ?thesis
      by (simp add: zbc_close_zone_raw_def close_z_def Let_def zbc_zone_is_open_def)
  next
    case 2
    moreover have "sub32 (nr_imp_open zd) 1 = nr_imp_open zd - 1"
      using filter_pos [of i "zones zd" zbc_zone_imp_open, OF len 2(1)] cnt b by (intro sub32_id) auto
    moreover have "\<not> zbc_zone_exp_open ?z" using 2 by (simp add: zone_cond_defs)
    ultimately show ?thesis
      by (simp add: zbc_close_zone_raw_def close_z_def Let_def zbc_zone_is_open_def zbc_zone_seq_def
          upd_zone_def zone_upd_def)
  next
    case 3
    moreover have "sub32 (nr_exp_open zd) 1 = nr_exp_open zd - 1"
      using filter_pos [of i "zones zd" zbc_zone_exp_open, OF len 3(1)] cnt b by (intro sub32_id) auto
    moreover have "\<not> zbc_zone_imp_open ?z" using 3 by (simp add: zone_cond_defs)
    ultimately show ?thesis
      by (simp add: zbc_close_zone_raw_def close_z_def Let_def zbc_zone_is_open_def zbc_zone_seq_def
          upd_zone_def zone_upd_def)
  qed
qed


lemma close_z_ok:
  assumes "zone_ok z" "0 < z_len z"
  shows "zone_ok (close_z z)"
proof (cases "zbc_zone_seq z \<and> zbc_zone_is_open z")
  case True
  have "z_start z \<le> z_wp z" "z_wp z \<le> zone_end z" "zbc_zone_seq_req z \<longrightarrow> z_wp z < zone_end z"
    using True assms(1) unfolding zone_ok_def by (auto simp: zone_type_defs zone_cond_defs)
  then show ?thesis
    using True assms(2) by (simp add: zone_ok_def close_z_def zone_type_defs zone_cond_defs zone_end_def)
next
  case False
  then show ?thesis using assms by (simp only: close_z_def if_False)
qed

lemma finish_z_ok:
  assumes "zone_ok z" "0 < z_len z"
  shows "zone_ok (finish_z b z)"
proof (cases "zbc_zone_seq z \<and> (zbc_zone_closed z \<or> zbc_zone_is_open z \<or> b \<and> zbc_zone_empty z)")
  case True
  then show ?thesis
    using assms(2) by (simp add: zone_ok_def finish_z_def zone_type_defs zone_cond_defs zone_end_def)
next
  case False
  then show ?thesis using assms by (simp only: finish_z_def if_False)
qed

lemma reset_z_ok: "zone_ok z \<Longrightarrow> zone_ok (reset_z z)"
  by (cases "zbc_zone_conv z") (simp_all add: zone_ok_def reset_z_def zone_type_defs zone_cond_defs zone_end_def)

lemma place_zD:
  "zone_place z = zone_place z' \<Longrightarrow> z_start z = z_start z'"
  "zone_place z = zone_place z' \<Longrightarrow> z_len z = z_len z'"
  "zone_place z = zone_place z' \<Longrightarrow> z_type z = z_type z'"
  by (simp_all add: zone_place_def)

text \<open>An operation that is a \<^const>\<open>zone_upd\<close> with adjusted counters keeps the interface.\<close>

lemma local_zone_opI:
  assumes upd: "\<And>zd i. zbc_inv zd \<Longrightarrow> i < nr_zones zd \<Longrightarrow>
      opr zd i = zone_upd zd i (t (zones zd ! i))
        (nr_imp_open zd - of_bool (zbc_zone_imp_open (zones zd ! i) \<and> \<not> zbc_zone_imp_open (t (zones zd ! i))))
        (nr_exp_open zd - of_bool (zbc_zone_exp_open (zones zd ! i) \<and> \<not> zbc_zone_exp_open (t (zones zd ! i))))"
    and place: "\<And>z. zone_place (t z) = zone_place z"
    and ok: "\<And>z. zone_ok z \<Longrightarrow> 0 < z_len z \<Longrightarrow> zone_ok (t z)"
    and opn: "\<And>z. zbc_zone_is_open (t z) \<Longrightarrow> zbc_zone_is_open z \<and> z_cond (t z) = z_cond z"
  shows "local_zone_op opr t"
proof unfold_locales
  fix zd i
  assume inv: "zbc_inv zd" and i: "i < nr_zones zd"
  let ?z = "zones zd ! i"
  have len: "i < length (zones zd)" using inv i by (simp add: zbc_inv_length)
  have pos: "1 \<le> nr_imp_open zd" if "zbc_zone_imp_open ?z"
    using filter_pos [of i "zones zd" zbc_zone_imp_open, OF len that] inv
    by (simp add: zbc_inv_def counters_ok_def count_zones_def)
  have pos': "1 \<le> nr_exp_open zd" if "zbc_zone_exp_open ?z"
    using filter_pos [of i "zones zd" zbc_zone_exp_open, OF len that] inv
    by (simp add: zbc_inv_def counters_ok_def count_zones_def)
  have same: "z_cond (t ?z) = z_cond ?z" if "zbc_zone_imp_open (t ?z) \<or> zbc_zone_exp_open (t ?z)"
    using opn [of ?z] that unfolding zbc_zone_is_open_def by blast
  have keep: "zbc_zone_imp_open (t ?z) \<Longrightarrow> zbc_zone_imp_open ?z" "zbc_zone_exp_open (t ?z) \<Longrightarrow> zbc_zone_exp_open ?z"
    using same unfolding zbc_zone_imp_open_def zbc_zone_exp_open_def by metis+
  show "zbc_inv (opr zd i)"
    unfolding upd [OF inv i]
  proof (rule zone_upd_inv [OF inv i])
    show "zone_ok (t ?z)"
      using ok zbc_inv_zone_ok [OF inv i] zone_bounds(1) [OF inv i] by blast
  qed (use place [of ?z] keep pos pos' in \<open>auto simp: zone_place_def\<close>)
  show "dev_frame zd (opr zd i)"
    unfolding upd [OF inv i] by (rule zone_upd_frame [OF len]) (rule place)
  show "zones (opr zd i) = (zones zd)[i := t ?z]"
    unfolding upd [OF inv i] by simp
next
  show "zbc_zone_is_open (t z) \<Longrightarrow> zbc_zone_is_open z \<and> z_cond (t z) = z_cond z" for z
    by (rule opn)
qed

lemma close_z_not_open: "zone_ok z \<Longrightarrow> \<not> zbc_zone_imp_open (close_z z) \<and> \<not> zbc_zone_exp_open (close_z z)"
proof (cases "zbc_zone_is_open z")
  case True
  moreover assume "zone_ok z"
  ultimately have "zbc_zone_seq z" by (blast dest: zone_ok_open_seq)
  with True show ?thesis by (simp add: close_z_def zbc_zone_imp_open_def zbc_zone_exp_open_def)
next
  case False
  then show ?thesis by (simp add: close_z_def zbc_zone_is_open_def)
qed

lemma close_z_open: "zbc_zone_is_open (close_z z) \<Longrightarrow> zbc_zone_is_open z \<and> z_cond (close_z z) = z_cond z"
  by (cases "zbc_zone_seq z \<and> zbc_zone_is_open z") (simp_all add: close_z_def zone_cond_defs split: if_splits)

lemma finish_z_open: "zbc_zone_is_open (finish_z b z) \<Longrightarrow> zbc_zone_is_open z \<and> z_cond (finish_z b z) = z_cond z"
  by (simp add: finish_z_def zone_cond_defs split: if_splits)

lemma reset_z_open: "zbc_zone_is_open (reset_z z) \<Longrightarrow> zbc_zone_is_open z \<and> z_cond (reset_z z) = z_cond z"
  by (simp add: reset_z_def zone_cond_defs split: if_splits)

interpretation close_op: local_zone_op zbc_close_zone_raw close_z
proof (rule local_zone_opI [OF _ place_z(1) close_z_ok close_z_open])
  fix zd i
  assume *: "zbc_inv zd" "i < nr_zones zd"
  show "zbc_close_zone_raw zd i = zone_upd zd i (close_z (zones zd ! i))
        (nr_imp_open zd - of_bool (zbc_zone_imp_open (zones zd ! i) \<and> \<not> zbc_zone_imp_open (close_z (zones zd ! i))))
        (nr_exp_open zd - of_bool (zbc_zone_exp_open (zones zd ! i) \<and> \<not> zbc_zone_exp_open (close_z (zones zd ! i))))"
    by (simp add: close_raw_upd [OF *] close_z_not_open [OF zbc_inv_zone_ok [OF *]])
qed

lemma close_then_upd:
  assumes inv: "zbc_inv zd" and i: "i < nr_zones zd"
  shows "(if zbc_zone_is_open (zones zd ! i) then zbc_close_zone_raw zd i else zd) =
    zone_upd zd i (close_z (zones zd ! i))
      (nr_imp_open zd - of_bool (zbc_zone_imp_open (zones zd ! i)))
      (nr_exp_open zd - of_bool (zbc_zone_exp_open (zones zd ! i)))"
proof (cases "zbc_zone_is_open (zones zd ! i)")
  case True
  then show ?thesis using close_raw_upd [OF assms] by simp
next
  case False
  then show ?thesis by (simp add: close_z_def zbc_zone_is_open_def)
qed

lemma finish_raw_upd:
  assumes inv: "zbc_inv zd" and i: "i < nr_zones zd"
  shows "zbc_finish_zone_raw zd i b = zone_upd zd i (finish_z b (zones zd ! i))
        (nr_imp_open zd - of_bool (zbc_zone_imp_open (zones zd ! i) \<and> \<not> zbc_zone_imp_open (finish_z b (zones zd ! i))))
        (nr_exp_open zd - of_bool (zbc_zone_exp_open (zones zd ! i) \<and> \<not> zbc_zone_exp_open (finish_z b (zones zd ! i))))"
proof -
  let ?z = "zones zd ! i"
  have len: "i < length (zones zd)" using assms by (simp add: zbc_inv_length)
  let ?c = "zbc_zone_closed ?z \<or> zbc_zone_is_open ?z \<or> (b \<and> zbc_zone_empty ?z)"
  show ?thesis
  proof (cases "\<not> zbc_zone_conv ?z \<and> ?c")
    case True
    let ?f = "\<lambda>z. z\<lparr>z_wp := add64 (z_start z) (z_len z), z_cond := ZBC_ZONE_COND_FULL, z_non_seq := 0, z_reset := 0\<rparr>"
    have "zbc_finish_zone_raw zd i b =
        upd_zone (if zbc_zone_is_open ?z then zbc_close_zone_raw zd i else zd) i ?f"
      using True by (simp add: zbc_finish_zone_raw_def Let_def)
    also have "\<dots> = zone_upd zd i (?f (close_z ?z)) (nr_imp_open zd - of_bool (zbc_zone_imp_open ?z))
        (nr_exp_open zd - of_bool (zbc_zone_exp_open ?z))"
      unfolding close_then_upd [OF assms] by (rule upd_zone_zone_upd [OF len])
    also have "?f (close_z ?z) = finish_z b ?z"
      using True zone_end_add64 [OF assms] by (simp add: close_z_def finish_z_def zbc_zone_seq_def)
    finally show ?thesis
      using True by (simp add: finish_z_def zbc_zone_seq_def zone_cond_defs)
  next
    case False
    then show ?thesis
      by (auto simp: zbc_finish_zone_raw_def Let_def finish_z_def zbc_zone_seq_def)
  qed
qed

lemma reset_raw_upd:
  assumes inv: "zbc_inv zd" and i: "i < nr_zones zd"
  shows "zbc_reset_wp_raw zd i = zone_upd zd i (reset_z (zones zd ! i))
        (nr_imp_open zd - of_bool (zbc_zone_imp_open (zones zd ! i) \<and> \<not> zbc_zone_imp_open (reset_z (zones zd ! i))))
        (nr_exp_open zd - of_bool (zbc_zone_exp_open (zones zd ! i) \<and> \<not> zbc_zone_exp_open (reset_z (zones zd ! i))))"
proof -
  let ?z = "zones zd ! i"
  have len: "i < length (zones zd)" using assms by (simp add: zbc_inv_length)
  show ?thesis
  proof (cases "zbc_zone_conv ?z")
    case False
    let ?f = "\<lambda>z. z\<lparr>z_wp := z_start z, z_cond := ZBC_ZONE_COND_EMPTY, z_non_seq := 0, z_reset := 0\<rparr>"
    have "zbc_reset_wp_raw zd i = upd_zone (if zbc_zone_is_open ?z then zbc_close_zone_raw zd i else zd) i ?f"
      using False by (simp add: zbc_reset_wp_raw_def Let_def)
    also have "\<dots> = zone_upd zd i (?f (close_z ?z)) (nr_imp_open zd - of_bool (zbc_zone_imp_open ?z))
        (nr_exp_open zd - of_bool (zbc_zone_exp_open ?z))"
      unfolding close_then_upd [OF assms] by (rule upd_zone_zone_upd [OF len])
    also have "?f (close_z ?z) = reset_z ?z"
      using False by (simp add: close_z_def reset_z_def zbc_zone_seq_def)
    finally show ?thesis
      using False by (simp add: reset_z_def zbc_zone_seq_def zone_cond_defs)
  next
    case True
    then show ?thesis by (simp add: zbc_reset_wp_raw_def reset_z_def zbc_zone_seq_def)
  qed
qed

interpretation finish_op: local_zone_op "\<lambda>d i. zbc_finish_zone_raw d i b" "finish_z b" for b
  by (rule local_zone_opI [OF finish_raw_upd place_z(2) finish_z_ok finish_z_open])

interpretation reset_op: local_zone_op zbc_reset_wp_raw reset_z
  by (rule local_zone_opI [OF reset_raw_upd place_z(3) reset_z_ok reset_z_open])

end
