(* ===== verification/Zbc_ZoneOps.thy ===== *)
theory Zbc_ZoneOps
  imports Zbc_Zone
begin

text \<open>
  Opening a zone, and the theorems about the ZBC OUT commands (CLOSE, FINISH, OPEN ZONE and
  RESET WRITE POINTER): they keep the device invariant and the geometry, every zone only moves
  along the zone condition state machine of the ZBC standard, and the limit on open zones is kept
  by every command but OPEN ZONE with the \<open>ALL\<close> bit.
\<close>

section \<open>Opening\<close>

lemma close_imp_open_cases:
  assumes "\<forall>i \<in> set is. i < length (zones zd)"
  shows "(close_imp_open_from zd is = zd \<and> (\<forall>i \<in> set is. \<not> zbc_zone_imp_open (zones zd ! i))) \<or>
    (\<exists>j \<in> set is. zbc_zone_imp_open (zones zd ! j) \<and> close_imp_open_from zd is = zbc_close_zone_raw zd j)"
  using assms by (induction "is") auto

lemma close_imp_open_zone_cases:
  assumes inv: "zbc_inv zd"
  obtains "zbc_close_imp_open_zone zd = zd" "nr_imp_open zd = 0"
  | j where "j < nr_zones zd" "zbc_zone_imp_open (zones zd ! j)" "zbc_close_imp_open_zone zd = zbc_close_zone_raw zd j"
proof -
  have len: "length (zones zd) = nr_zones zd" using inv by (rule zbc_inv_length)
  have "nr_imp_open zd = 0" if "\<forall>i \<in> set [0..<nr_zones zd]. \<not> zbc_zone_imp_open (zones zd ! i)"
  proof -
    have "filter zbc_zone_imp_open (zones zd) = []"
      using that len by (auto simp: filter_empty_conv in_set_conv_nth)
    then show ?thesis using inv by (simp add: zbc_inv_def counters_ok_def count_zones_def)
  qed
  then show thesis
    using close_imp_open_cases [of "[0..<nr_zones zd]" zd] len that
    by (auto simp: zbc_close_imp_open_zone_def)
qed

text \<open>Making room for one more open zone: what \<open>__zbc_open_zone\<close> does before it opens.\<close>

definition make_room :: "zbc_dev \<Rightarrow> zbc_dev" where
  "make_room zd = (if add32 (nr_imp_open zd) (nr_exp_open zd) \<ge> nr_open_zones zd
                   then zbc_close_imp_open_zone zd else zd)"

lemma make_room_cases:
  assumes inv: "zbc_inv zd"
  obtains (same) "make_room zd = zd" "nr_imp_open zd + nr_exp_open zd < nr_open_zones zd \<or> nr_imp_open zd = 0"
  | (close) j where "j < nr_zones zd" "zbc_zone_imp_open (zones zd ! j)" "make_room zd = zbc_close_zone_raw zd j"
proof (cases "add32 (nr_imp_open zd) (nr_exp_open zd) \<ge> nr_open_zones zd")
  case True
  then have "make_room zd = zbc_close_imp_open_zone zd" by (simp add: make_room_def)
  with close_imp_open_zone_cases [OF inv] same close show thesis by metis
next
  case False
  moreover have "add32 (nr_imp_open zd) (nr_exp_open zd) = nr_imp_open zd + nr_exp_open zd"
    using open_count_bound [OF inv] by (intro add32_id) simp
  ultimately show thesis using same by (simp add: make_room_def)
qed

lemma make_room_props:
  assumes inv: "zbc_inv zd"
  shows "zbc_inv (make_room zd)" "dev_frame zd (make_room zd)"
    "nr_exp_open (make_room zd) = nr_exp_open zd" "nr_imp_open (make_room zd) \<le> nr_imp_open zd"
    "\<not> zbc_zone_imp_open (zones zd ! i) \<Longrightarrow> i < nr_zones zd \<Longrightarrow> zones (make_room zd) ! i = zones zd ! i"
    "open_limit zd \<Longrightarrow> nr_exp_open zd < nr_open_zones zd \<Longrightarrow>
       nr_imp_open (make_room zd) + nr_exp_open (make_room zd) < nr_open_zones zd"
proof -
  note room_cases = make_room_cases [OF inv]
  show "zbc_inv (make_room zd)" "dev_frame zd (make_room zd)"
    using room_cases inv close_op.opr_inv [OF inv] close_op.opr_frame [OF inv] by (metis dev_frame_refl)+
  show "nr_exp_open (make_room zd) = nr_exp_open zd" "nr_imp_open (make_room zd) \<le> nr_imp_open zd"
    "\<not> zbc_zone_imp_open (zones zd ! i) \<Longrightarrow> i < nr_zones zd \<Longrightarrow> zones (make_room zd) ! i = zones zd ! i"
    "open_limit zd \<Longrightarrow> nr_exp_open zd < nr_open_zones zd \<Longrightarrow>
       nr_imp_open (make_room zd) + nr_exp_open (make_room zd) < nr_open_zones zd"
  proof -
    have close: "nr_exp_open (zbc_close_zone_raw zd j) = nr_exp_open zd \<and>
        Suc (nr_imp_open (zbc_close_zone_raw zd j)) = nr_imp_open zd \<and>
        zones (zbc_close_zone_raw zd j) = (zones zd)[j := close_z (zones zd ! j)]"
      if "j < nr_zones zd" "zbc_zone_imp_open (zones zd ! j)" for j
    proof -
      have "\<not> zbc_zone_exp_open (zones zd ! j)" using that(2) by (simp add: zone_cond_defs)
      moreover have "1 \<le> nr_imp_open zd"
        using filter_pos [of j "zones zd" zbc_zone_imp_open] that inv
        by (simp add: zbc_inv_length zbc_inv_def counters_ok_def count_zones_def)
      ultimately show ?thesis using close_raw_upd [OF inv that(1)] that by simp
    qed
    show "nr_exp_open (make_room zd) = nr_exp_open zd"
      using room_cases close by (metis)
    show "nr_imp_open (make_room zd) \<le> nr_imp_open zd"
      using room_cases close by (metis le_refl lessI less_imp_le)
    show "zones (make_room zd) ! i = zones zd ! i"
      if "\<not> zbc_zone_imp_open (zones zd ! i)" "i < nr_zones zd"
      using room_cases close that by (metis nth_list_update_neq)
    show "nr_imp_open (make_room zd) + nr_exp_open (make_room zd) < nr_open_zones zd"
      if "open_limit zd" "nr_exp_open zd < nr_open_zones zd"
    proof (rule room_cases)
      assume "make_room zd = zd" "nr_imp_open zd + nr_exp_open zd < nr_open_zones zd \<or> nr_imp_open zd = 0"
      then show ?thesis using that by auto
    next
      fix j
      assume "j < nr_zones zd" "zbc_zone_imp_open (zones zd ! j)" "make_room zd = zbc_close_zone_raw zd j"
      then show ?thesis using close [of j] that by (auto simp: open_limit_def)
    qed
  qed
qed

definition open_z :: "bool \<Rightarrow> zbc_zone \<Rightarrow> zbc_zone" where
  "open_z explicit z = z\<lparr>z_cond := if explicit then ZBC_ZONE_COND_EXP_OPEN else ZBC_ZONE_COND_IMP_OPEN\<rparr>"

lemma open_raw_upd:
  assumes inv: "zbc_inv zd" and i: "i < nr_zones zd" and ni: "\<not> zbc_zone_is_open (zones zd ! i)"
  shows "zbc_open_zone_raw zd i explicit = zone_upd (make_room zd) i (open_z explicit (zones zd ! i))
    (nr_imp_open (make_room zd) + of_bool (\<not> explicit)) (nr_exp_open (make_room zd) + of_bool explicit)"
proof -
  let ?r = "make_room zd"
  have "nr_imp_open ?r < nr_zones zd \<or> nr_imp_open ?r = nr_zones zd" "nr_imp_open ?r + nr_exp_open ?r \<le> nr_zones zd"
    using open_count_bound(1) [OF make_room_props(1) [OF inv]] dev_frame_fields(1) [OF make_room_props(2) [OF inv]]
    by auto
  have lt: "nr_imp_open ?r + nr_exp_open ?r < nr_zones zd"
  proof -
    have "length (filter zbc_zone_imp_open xs) + length (filter zbc_zone_exp_open xs) < length xs"
      if "k < length xs" "\<not> zbc_zone_is_open (xs ! k)" for k xs
    proof -
      have "length (filter (\<lambda>z. \<not> zbc_zone_is_open z) xs) \<ge> 1" using filter_pos [of k xs] that by simp
      moreover have "length (filter zbc_zone_imp_open ys) + length (filter zbc_zone_exp_open ys) +
          length (filter (\<lambda>z. \<not> zbc_zone_is_open z) ys) = length ys" for ys
        by (induction ys) (auto simp: zone_cond_defs)
      ultimately show ?thesis by (metis add_le_cancel_left less_add_one less_le_trans)
    qed
    from this [of i "zones ?r"] show ?thesis
      using make_room_props(1) [OF inv] make_room_props(5) [OF inv _ i] dev_frame_fields(1) [OF make_room_props(2) [OF inv]] i ni
      by (auto simp: zbc_inv_def counters_ok_def count_zones_def zbc_geom_def zbc_zone_is_open_def)
  qed
  then have "add32 (nr_imp_open ?r) 1 = nr_imp_open ?r + 1" "add32 (nr_exp_open ?r) 1 = nr_exp_open ?r + 1"
    using open_count_bound(2) [OF inv] by (simp_all only: add32_id)
  moreover have "zones ?r ! i = zones zd ! i"
    using make_room_props(5) [OF inv _ i] ni by (simp add: zbc_zone_is_open_def)
  ultimately show ?thesis
    using ni unfolding zbc_open_zone_raw_def make_room_def [symmetric]
    by (simp add: zbc_zone_is_open_def upd_zone_def zone_upd_def open_z_def Let_def)
qed

lemma open_raw_correct:
  assumes inv: "zbc_inv zd" and i: "i < nr_zones zd" and ni: "\<not> zbc_zone_is_open (zones zd ! i)"
    and seq: "zbc_zone_seq (zones zd ! i)" and nf: "zbc_zone_seq_req (zones zd ! i) \<Longrightarrow> \<not> zbc_zone_full (zones zd ! i)"
  shows "zbc_inv (zbc_open_zone_raw zd i explicit)" "dev_frame zd (zbc_open_zone_raw zd i explicit)"
    "zones (zbc_open_zone_raw zd i explicit) ! i = open_z explicit (zones zd ! i)"
    "open_limit zd \<Longrightarrow> nr_exp_open zd < nr_open_zones zd \<Longrightarrow> open_limit (zbc_open_zone_raw zd i explicit)"
    "nr_exp_open (zbc_open_zone_raw zd i explicit) = nr_exp_open zd + of_bool explicit"
proof -
  let ?r = "make_room zd" and ?z = "zones zd ! i"
  have zi: "zones ?r ! i = ?z"
    using make_room_props(5) [OF inv _ i] ni by (simp add: zbc_zone_is_open_def)
  have ri: "i < nr_zones ?r" using i dev_frame_fields(1) [OF make_room_props(2) [OF inv]] by simp
  have rlen: "i < length (zones ?r)" using ri zbc_inv_length [OF make_room_props(1) [OF inv]] by simp
  have zok: "zone_ok ?z" by (rule zbc_inv_zone_ok [OF inv i])
  have wp: "z_start ?z \<le> z_wp ?z" "z_wp ?z \<le> zone_end ?z" "zbc_zone_seq_req ?z \<Longrightarrow> z_wp ?z < zone_end ?z"
    using zok seq nf zone_bounds(1) [OF inv i]
    by (auto simp: zone_ok_def zbc_zone_seq_def zone_end_def split: if_splits)
  have ok: "zone_ok (open_z explicit ?z)"
    using wp seq by (simp add: zone_ok_def open_z_def zone_type_defs zone_cond_defs zone_end_def)
  note upd = open_raw_upd [OF inv i ni, of explicit]
  show "zbc_inv (zbc_open_zone_raw zd i explicit)"
    unfolding upd
    by (rule zone_upd_inv [OF make_room_props(1) [OF inv] ri])
      (use ok ni in \<open>simp_all add: zi open_z_def zone_cond_defs\<close>)
  have "dev_frame ?r (zbc_open_zone_raw zd i explicit)"
    unfolding upd by (rule zone_upd_frame [OF rlen]) (simp add: zi open_z_def zone_place_def)
  then show "dev_frame zd (zbc_open_zone_raw zd i explicit)"
    using make_room_props(2) [OF inv] by (rule dev_frame_trans [rotated])
  show "zones (zbc_open_zone_raw zd i explicit) ! i = open_z explicit ?z"
    unfolding upd using rlen by simp
  show "open_limit (zbc_open_zone_raw zd i explicit)" if "open_limit zd" "nr_exp_open zd < nr_open_zones zd"
    using make_room_props(6) [OF inv that] dev_frame_fields(4) [OF make_room_props(2) [OF inv]]
    unfolding upd open_limit_def by simp
  show "nr_exp_open (zbc_open_zone_raw zd i explicit) = nr_exp_open zd + of_bool explicit"
    unfolding upd by (simp add: make_room_props(3) [OF inv])
qed

text \<open>A closed zone can be opened: it is sequential, not open and not full.\<close>

lemma closed_openable:
  assumes "zone_ok z" and "zbc_zone_closed z"
  shows "\<not> zbc_zone_is_open z" "zbc_zone_seq z" "zbc_zone_seq_req z \<Longrightarrow> \<not> zbc_zone_full z"
  using assms by (auto simp: zone_ok_def zbc_zone_seq_def zone_cond_defs split: if_splits)

interpretation open_closed_op: zone_op "\<lambda>d i. if zbc_zone_closed (zones d ! i) then zbc_open_zone_raw d i True else d"
proof unfold_locales
  fix zd i
  assume inv: "zbc_inv zd" and i: "i < nr_zones zd"
  have "zbc_inv (zbc_open_zone_raw zd i True)" "dev_frame zd (zbc_open_zone_raw zd i True)"
    if "zbc_zone_closed (zones zd ! i)"
    using open_raw_correct(1,2) [OF inv i closed_openable [OF zbc_inv_zone_ok [OF inv i] that]] by blast+
  then show "zbc_inv (if zbc_zone_closed (zones zd ! i) then zbc_open_zone_raw zd i True else zd)"
    "dev_frame zd (if zbc_zone_closed (zones zd ! i) then zbc_open_zone_raw zd i True else zd)"
    using inv by simp_all
qed

section \<open>The zone condition state machine of the standard\<close>

text \<open>
  A sequential zone abstracts to the number of blocks written before its write pointer and its
  condition. The rules are the transitions the ZBC standard allows.
\<close>

datatype zcond = ZC_not_wp | ZC_empty | ZC_imp_open | ZC_exp_open | ZC_closed | ZC_full

definition zcond_of :: "zbc_zone \<Rightarrow> zcond" where
  "zcond_of z = (if zbc_zone_empty z then ZC_empty else if zbc_zone_imp_open z then ZC_imp_open
     else if zbc_zone_exp_open z then ZC_exp_open else if zbc_zone_closed z then ZC_closed
     else if zbc_zone_full z then ZC_full else ZC_not_wp)"

definition zabs :: "zbc_zone \<Rightarrow> nat \<times> zcond" where
  "zabs z = (if zbc_zone_conv z then (0, ZC_not_wp) else (z_wp z - z_start z, zcond_of z))"

inductive zc_step :: "nat \<Rightarrow> nat \<times> zcond \<Rightarrow> nat \<times> zcond \<Rightarrow> bool" for n where
  zc_open: "c \<in> {ZC_empty, ZC_closed} \<Longrightarrow> c' \<in> {ZC_imp_open, ZC_exp_open} \<Longrightarrow> zc_step n (w, c) (w, c')"
| zc_close_empty: "c \<in> {ZC_imp_open, ZC_exp_open} \<Longrightarrow> zc_step n (0, c) (0, ZC_empty)"
| zc_close: "c \<in> {ZC_imp_open, ZC_exp_open} \<Longrightarrow> 0 < w \<Longrightarrow> zc_step n (w, c) (w, ZC_closed)"
| zc_finish: "c \<in> {ZC_empty, ZC_imp_open, ZC_exp_open, ZC_closed} \<Longrightarrow> zc_step n (w, c) (n, ZC_full)"
| zc_reset: "c \<noteq> ZC_not_wp \<Longrightarrow> zc_step n (w, c) (0, ZC_empty)"
| zc_write: "c \<in> {ZC_imp_open, ZC_exp_open} \<Longrightarrow> w < w' \<Longrightarrow> w' < n \<Longrightarrow> zc_step n (w, c) (w', c)"
| zc_fill: "c \<in> {ZC_imp_open, ZC_exp_open} \<Longrightarrow> w < n \<Longrightarrow> zc_step n (w, c) (n, ZC_full)"

inductive_cases zc_step_notE: "zc_step n (w, ZC_not_wp) s"

definition zone_steps :: "zbc_zone \<Rightarrow> zbc_zone \<Rightarrow> bool" where
  "zone_steps z z' \<longleftrightarrow> (zc_step (z_len z))\<^sup>*\<^sup>* (zabs z) (zabs z') \<and> z_len z' = z_len z"

lemma zone_steps_refl [simp]: "zone_steps z z"
  by (simp add: zone_steps_def)

lemma zone_steps_trans: "zone_steps a b \<Longrightarrow> zone_steps b c \<Longrightarrow> zone_steps a c"
  by (auto simp: zone_steps_def)

lemma zone_steps_step: "zc_step (z_len z) (zabs z) (zabs z') \<Longrightarrow> z_len z' = z_len z \<Longrightarrow> zone_steps z z'"
  by (auto simp: zone_steps_def)

definition dev_steps :: "zbc_dev \<Rightarrow> zbc_dev \<Rightarrow> bool" where
  "dev_steps zd zd' \<longleftrightarrow> list_all2 zone_steps (zones zd) (zones zd')"

lemma dev_steps_refl [simp]: "dev_steps zd zd"
  by (simp add: dev_steps_def list_all2_same)

lemma dev_steps_trans: "dev_steps a b \<Longrightarrow> dev_steps b c \<Longrightarrow> dev_steps a c"
  unfolding dev_steps_def by (rule list_all2_trans [of zone_steps zone_steps, OF zone_steps_trans])

lemma dev_steps_update:
  "zones zd' = (zones zd)[i := z] \<Longrightarrow> zone_steps (zones zd ! i) z \<Longrightarrow> dev_steps zd zd'"
  by (cases "i < length (zones zd)")
    (auto simp: dev_steps_def list_all2_conv_all_nth nth_list_update)

lemma zcond_of_simps:
  "zbc_zone_empty z \<Longrightarrow> zcond_of z = ZC_empty" "zbc_zone_imp_open z \<Longrightarrow> zcond_of z = ZC_imp_open"
  "zbc_zone_exp_open z \<Longrightarrow> zcond_of z = ZC_exp_open" "zbc_zone_closed z \<Longrightarrow> zcond_of z = ZC_closed"
  "zbc_zone_full z \<Longrightarrow> zcond_of z = ZC_full"
  by (simp_all add: zcond_of_def zone_cond_defs)

lemma close_z_steps:
  assumes "zone_ok z"
  shows "zone_steps z (close_z z)"
proof (cases "zbc_zone_seq z \<and> zbc_zone_is_open z")
  case True
  have wp: "z_start z \<le> z_wp z"
    using True assms by (auto simp: zone_ok_def zbc_zone_seq_def)
  have c: "zcond_of z \<in> {ZC_imp_open, ZC_exp_open}"
    using True by (auto simp: zbc_zone_is_open_def zcond_of_simps)
  have a: "zabs z = (z_wp z - z_start z, zcond_of z)" using True by (simp add: zabs_def zbc_zone_seq_def)
  have "zc_step (z_len z) (zabs z) (zabs (close_z z))"
  proof (cases "z_wp z = z_start z")
    case eq: True
    have "zabs (close_z z) = (0, ZC_empty)"
      using True eq by (simp add: zabs_def close_z_def zone_type_defs zcond_of_def zone_cond_defs)
    then show ?thesis using zc_close_empty [OF c] eq by (simp add: a)
  next
    case neq: False
    have "zabs (close_z z) = (z_wp z - z_start z, ZC_closed)"
      using True neq by (simp add: zabs_def close_z_def zone_type_defs zcond_of_def zone_cond_defs)
    then show ?thesis using zc_close [OF c] neq wp by (simp add: a)
  qed
  then show ?thesis by (rule zone_steps_step) (simp add: close_z_def)
next
  case False
  then show ?thesis by (simp only: close_z_def if_False zone_steps_refl)
qed

lemma finish_z_steps: "zone_steps z (finish_z b z)"
proof (cases "zbc_zone_seq z \<and> (zbc_zone_closed z \<or> zbc_zone_is_open z \<or> b \<and> zbc_zone_empty z)")
  case True
  then have c: "zcond_of z \<in> {ZC_empty, ZC_imp_open, ZC_exp_open, ZC_closed}"
    by (auto simp: zbc_zone_is_open_def zcond_of_simps)
  have "zabs z = (z_wp z - z_start z, zcond_of z)" "zabs (finish_z b z) = (z_len z, ZC_full)"
    using True by (simp_all add: zabs_def finish_z_def zone_type_defs zcond_of_def zone_cond_defs zone_end_def)
  then show ?thesis
    using zc_finish [OF c] by (intro zone_steps_step) (simp_all add: finish_z_def)
next
  case False
  then show ?thesis by (simp only: finish_z_def if_False zone_steps_refl)
qed

lemma reset_z_steps:
  assumes "zone_ok z"
  shows "zone_steps z (reset_z z)"
proof (cases "zbc_zone_seq z")
  case True
  then have "zcond_of z \<noteq> ZC_not_wp"
    using assms by (simp add: zone_ok_def zbc_zone_seq_def zcond_of_def) (metis zbc_zone_is_open_def)
  moreover have "zabs z = (z_wp z - z_start z, zcond_of z)" "zabs (reset_z z) = (0, ZC_empty)"
    using True by (simp_all add: zabs_def reset_z_def zone_type_defs zcond_of_def zone_cond_defs)
  ultimately show ?thesis
    using zc_reset by (intro zone_steps_step) (simp_all add: reset_z_def)
next
  case False
  then show ?thesis by (simp only: reset_z_def if_False zone_steps_refl)
qed

lemma make_room_steps:
  assumes inv: "zbc_inv zd"
  shows "dev_steps zd (make_room zd)"
proof (rule make_room_cases [OF inv])
  fix j
  assume j: "j < nr_zones zd" and eq: "make_room zd = zbc_close_zone_raw zd j"
  show ?thesis
    unfolding eq using close_op.opr_zones [OF inv j] close_z_steps [OF zbc_inv_zone_ok [OF inv j]]
    by (rule dev_steps_update)
qed simp

lemma open_z_steps:
  assumes "zbc_zone_seq z" and "zbc_zone_empty z \<or> zbc_zone_closed z"
  shows "zone_steps z (open_z explicit z)"
proof -
  have "zcond_of z \<in> {ZC_empty, ZC_closed}" using assms(2) by (auto simp: zcond_of_simps)
  moreover have "zcond_of (open_z explicit z) \<in> {ZC_imp_open, ZC_exp_open}"
    by (simp add: open_z_def zcond_of_def zone_cond_defs)
  ultimately have "zc_step (z_len z) (zabs z) (zabs (open_z explicit z))"
    using assms(1) zc_open by (simp add: zabs_def open_z_def zone_type_defs)
  then show ?thesis by (rule zone_steps_step) (simp add: open_z_def)
qed

lemma open_raw_steps:
  assumes inv: "zbc_inv zd" and i: "i < nr_zones zd"
    and seq: "zbc_zone_seq (zones zd ! i)" and c: "zbc_zone_empty (zones zd ! i) \<or> zbc_zone_closed (zones zd ! i)"
  shows "dev_steps zd (zbc_open_zone_raw zd i explicit)"
proof -
  have ni: "\<not> zbc_zone_is_open (zones zd ! i)" using c by (auto simp: zone_cond_defs)
  then have "zones (make_room zd) ! i = zones zd ! i"
    using make_room_props(5) [OF inv _ i] by (simp add: zbc_zone_is_open_def)
  moreover have "zones (zbc_open_zone_raw zd i explicit) = (zones (make_room zd))[i := open_z explicit (zones zd ! i)]"
    by (simp add: open_raw_upd [OF inv i ni])
  ultimately have "dev_steps (make_room zd) (zbc_open_zone_raw zd i explicit)"
    using open_z_steps [OF seq c, of explicit] by (metis dev_steps_update)
  with make_room_steps [OF inv] show ?thesis by (rule dev_steps_trans)
qed

text \<open>An operation on one zone that moves zones only along the standard's state machine.\<close>

locale refining_zone_op = zone_op +
  assumes opr_steps: "zbc_inv zd \<Longrightarrow> i < nr_zones zd \<Longrightarrow> dev_steps zd (opr zd i)"
begin

lemma fold_steps:
  "zbc_inv zd \<Longrightarrow> list_all (\<lambda>i. i < nr_zones zd) is \<Longrightarrow> dev_steps zd (fold (\<lambda>i d. opr d i) is zd)"
proof (induction "is" arbitrary: zd)
  case Nil
  then show ?case by simp
next
  case (Cons i "is")
  then have i: "i < nr_zones zd" by simp
  have "dev_steps (opr zd i) (fold (\<lambda>i d. opr d i) is (opr zd i))"
    using Cons.IH [OF opr_inv [OF Cons.prems(1) i]] Cons.prems dev_frame_fields(1) [OF opr_frame [OF Cons.prems(1) i]]
    by simp
  with opr_steps [OF Cons.prems(1) i] show ?case by (auto intro: dev_steps_trans)
qed

lemma for_zones_steps: "zbc_inv zd \<Longrightarrow> dev_steps zd (for_zones opr zd)"
  using fold_steps [of zd "[0..<nr_zones zd]"] by (simp add: for_zones_def list_all_iff)

end

interpretation close_op: refining_zone_op zbc_close_zone_raw
  by unfold_locales
    (rule dev_steps_update, rule close_op.opr_zones, assumption+, rule close_z_steps, rule zbc_inv_zone_ok)

interpretation finish_op: refining_zone_op "\<lambda>d i. zbc_finish_zone_raw d i b" for b
  by unfold_locales (rule dev_steps_update, rule finish_op.opr_zones, assumption+, rule finish_z_steps)

interpretation reset_op: refining_zone_op zbc_reset_wp_raw
  by unfold_locales
    (rule dev_steps_update, rule reset_op.opr_zones, assumption+, rule reset_z_steps, rule zbc_inv_zone_ok)

interpretation open_closed_op: refining_zone_op
  "\<lambda>d i. if zbc_zone_closed (zones d ! i) then zbc_open_zone_raw d i True else d"
proof unfold_locales
  fix zd i
  assume *: "zbc_inv zd" "i < nr_zones zd"
  show "dev_steps zd (if zbc_zone_closed (zones zd ! i) then zbc_open_zone_raw zd i True else zd)"
    using open_raw_steps [OF *] closed_openable(2) [OF zbc_inv_zone_ok [OF *]] by simp
qed

section \<open>Commands\<close>

text \<open>What a command may do to the device: nothing when it fails, and otherwise moves zones.\<close>

definition cmd_ok :: "zbc_dev \<Rightarrow> zbc_result \<Rightarrow> bool" where
  "cmd_ok zd r \<longleftrightarrow> (case r of
      Some (sts, zd', cmd') \<Rightarrow> zbc_inv zd' \<and> dev_frame zd zd' \<and> dev_steps zd zd' \<and> (sts \<noteq> TCMU_STS_OK \<longrightarrow> zd' = zd)
    | None \<Rightarrow> False)"

lemma cmd_ok_fail: "zbc_inv zd \<Longrightarrow> cmd_ok zd (zbc_fail zd cmd k a)"
  by (simp add: cmd_ok_def zbc_fail_def sense_fail_def)

lemma cmd_ok_done:
  "zbc_inv zd' \<Longrightarrow> dev_frame zd zd' \<Longrightarrow> dev_steps zd zd' \<Longrightarrow> cmd_ok zd (Some (TCMU_STS_OK, zd', cmd))"
  by (simp add: cmd_ok_def)

lemma zbc_out_lba: "cdb cmd 0 = 0x94 \<Longrightarrow> tcmu_get_lba (cdb cmd) = Some (cdb_be (cdb cmd) 2 8)"
  by (simp add: tcmu_get_lba_def tcmu_get_cdb_length_def)

lemma get_zone_Some: "zbc_get_zone zd lba low = Some i \<Longrightarrow> i < nr_zones zd"
  by (auto simp: zbc_get_zone_def Let_def split: if_splits)

lemma zone_command_ok:
  assumes f: "refining_zone_op f" and g: "refining_zone_op g"
    and inv: "zbc_inv zd" and lba: "tcmu_get_lba (cdb cmd) = Some lba"
  shows "cmd_ok zd (zone_command f g zd cmd)"
proof -
  have zf: "zone_op f" and zg: "zone_op g"
    using f g by (simp_all add: refining_zone_op_def)
  have "cmd_ok zd (Some (TCMU_STS_OK, for_zones f zd, cmd))"
    using zone_op.for_zones_inv [OF zf inv] zone_op.for_zones_frame [OF zf inv]
      refining_zone_op.for_zones_steps [OF f inv] by (rule cmd_ok_done)
  moreover have "cmd_ok zd (Some (TCMU_STS_OK, g zd i, cmd))" if "zbc_get_zone zd lba True = Some i" for i
    using zone_op.opr_inv [OF zg inv] zone_op.opr_frame [OF zg inv]
      refining_zone_op.opr_steps [OF g inv] get_zone_Some [OF that] by (intro cmd_ok_done)
  ultimately show ?thesis
    by (simp add: zone_command_def lba cmd_ok_fail [OF inv] split: option.splits)
qed

lemma open_one_ok:
  assumes inv: "zbc_inv zd" and i: "i < nr_zones zd" and seq: "zbc_zone_seq (zones zd ! i)"
    and n: "\<not> zbc_zone_exp_open (zones zd ! i)" "\<not> zbc_zone_full (zones zd ! i)"
  defines "zd1 \<equiv> (if zbc_zone_imp_open (zones zd ! i) then zbc_close_zone_raw zd i else zd)"
  shows "zbc_inv (zbc_open_zone_raw zd1 i True)" "dev_frame zd (zbc_open_zone_raw zd1 i True)"
    "dev_steps zd (zbc_open_zone_raw zd1 i True)"
    "open_limit zd \<Longrightarrow> nr_exp_open zd < nr_open_zones zd \<Longrightarrow> open_limit (zbc_open_zone_raw zd1 i True)"
    "zones (zbc_open_zone_raw zd1 i True) ! i = open_z True (zones zd ! i)"
    "nr_exp_open (zbc_open_zone_raw zd1 i True) = Suc (nr_exp_open zd)"
proof -
  let ?z = "zones zd ! i"
  have "nr_exp_open (zbc_close_zone_raw zd i) = nr_exp_open zd"
    using n(1) by (simp add: close_raw_upd [OF inv i])
  then have zd1: "zbc_inv zd1" "dev_frame zd zd1" "dev_steps zd zd1" "open_limit zd \<Longrightarrow> open_limit zd1"
    "nr_exp_open zd1 = nr_exp_open zd"
    using inv close_op.opr_inv [OF inv i] close_op.opr_frame [OF inv i] close_op.opr_steps [OF inv i]
      close_op.opr_limit [OF inv i]
    by (simp_all add: zd1_def)
  have i1: "i < nr_zones zd1" using i dev_frame_fields(1) [OF zd1(2)] by simp
  have len: "i < length (zones zd)" using inv i by (simp add: zbc_inv_length)
  have z1: "zones zd1 ! i = (if zbc_zone_imp_open ?z then close_z ?z else ?z)"
    using close_op.opr_zones [OF inv i] len by (simp add: zd1_def)
  have ok: "zone_ok (zones zd1 ! i)" by (rule zbc_inv_zone_ok [OF zd1(1) i1])
  have seq1: "zbc_zone_seq (zones zd1 ! i)"
    using seq dev_frame_place(3) [OF zd1(2) len] by (simp add: zone_type_defs)
  have nopen: "\<not> zbc_zone_is_open (zones zd1 ! i)"
    using close_z_not_open [OF zbc_inv_zone_ok [OF inv i]] n(1) by (simp add: z1 zbc_zone_is_open_def)
  have nfull: "\<not> zbc_zone_full (zones zd1 ! i)"
    using n(2) by (simp add: z1 close_z_def zone_cond_defs)
  have c: "zbc_zone_empty (zones zd1 ! i) \<or> zbc_zone_closed (zones zd1 ! i)"
    using ok seq1 nopen nfull by (simp add: zone_ok_def zbc_zone_seq_def) metis
  note o = open_raw_correct [OF zd1(1) i1 nopen seq1, of True]
  show "zbc_inv (zbc_open_zone_raw zd1 i True)" using o(1) nfull by blast
  show "dev_frame zd (zbc_open_zone_raw zd1 i True)"
    using dev_frame_trans [OF zd1(2)] o(2) nfull by blast
  show "dev_steps zd (zbc_open_zone_raw zd1 i True)"
    using dev_steps_trans [OF zd1(3) open_raw_steps [OF zd1(1) i1 seq1 c]] .
  show "open_limit (zbc_open_zone_raw zd1 i True)" if "open_limit zd" "nr_exp_open zd < nr_open_zones zd"
    using o(4) nfull zd1(4,5) that dev_frame_fields(4) [OF zd1(2)] by simp
  show "zones (zbc_open_zone_raw zd1 i True) ! i = open_z True ?z"
    using o(3) nfull by (simp add: z1 open_z_def close_z_def)
  show "nr_exp_open (zbc_open_zone_raw zd1 i True) = Suc (nr_exp_open zd)"
    using o(5) nfull zd1(5) by simp
qed

lemma open_command_ok:
  assumes inv: "zbc_inv zd" and lba: "tcmu_get_lba (cdb cmd) = Some lba"
  shows "cmd_ok zd (zbc_open_zone zd cmd)"
proof -
  let ?o = "\<lambda>d i. if zbc_zone_closed (zones d ! i) then zbc_open_zone_raw d i True else d"
  have all: "cmd_ok zd (Some (TCMU_STS_OK, for_zones ?o zd, cmd))"
    using open_closed_op.for_zones_inv [OF inv] open_closed_op.for_zones_frame [OF inv]
      open_closed_op.for_zones_steps [OF inv] by (rule cmd_ok_done)
  have one: "cmd_ok zd (Some (TCMU_STS_OK, zbc_open_zone_raw
      (if zbc_zone_imp_open (zones zd ! i) then zbc_close_zone_raw zd i else zd) i True, cmd))"
    if "zbc_get_zone zd lba True = Some i" "\<not> zbc_zone_conv (zones zd ! i)"
      "\<not> (zbc_zone_exp_open (zones zd ! i) \<or> zbc_zone_full (zones zd ! i))" for i
    using open_one_ok(1-3) [OF inv get_zone_Some [OF that(1)]] that(2,3)
    by (intro cmd_ok_done) (simp_all add: zbc_zone_seq_def)
  have same: "cmd_ok zd (Some (TCMU_STS_OK, zd, cmd))"
    using inv by (intro cmd_ok_done) simp_all
  show ?thesis
    using all one same cmd_ok_fail [OF inv]
    by (simp add: zbc_open_zone_def lba Let_def split: option.split)
qed

lemma zbc_out_ok:
  assumes inv: "zbc_inv zd" and op: "cdb cmd 0 = 0x94"
  shows "cmd_ok zd (zbc_out zd cmd)"
  using zone_command_ok [OF close_op.refining_zone_op_axioms close_op.refining_zone_op_axioms inv zbc_out_lba [OF op]]
    zone_command_ok [OF finish_op.refining_zone_op_axioms finish_op.refining_zone_op_axioms inv zbc_out_lba [OF op]]
    zone_command_ok [OF reset_op.refining_zone_op_axioms reset_op.refining_zone_op_axioms inv zbc_out_lba [OF op]]
    open_command_ok [OF inv zbc_out_lba [OF op]] cmd_ok_fail [OF inv]
  by (simp add: zbc_out_def zbc_close_zone_def zbc_finish_zone_def zbc_reset_wp_def)


section \<open>Looking a zone up\<close>

lemma zone_index_bound:
  assumes inv: "zbc_inv zd" and lba: "lba \<le> capacity zd"
  shows "u32 (lba div zone_size zd) = lba div zone_size zd"
proof -
  have z: "0 < zone_size zd" "nr_zones zd < 2 ^ 32" "nr_zones zd = (capacity zd + zone_size zd - 1) div zone_size zd"
    using inv by (simp_all add: zbc_inv_def zbc_geom_def)
  have "lba div zone_size zd \<le> (capacity zd + zone_size zd - 1) div zone_size zd"
    using lba z(1) by (intro div_le_mono) simp
  with z(2,3) show ?thesis by (intro u32_id) simp
qed

lemma zone_place_nth:
  assumes "zbc_inv zd" and "i < nr_zones zd"
  shows "z_start (zones zd ! i) = i * zone_size zd" "zone_end (zones zd ! i) = min (Suc i * zone_size zd) (capacity zd)"
  using zbc_geom_nth [of zd i] assms by (auto simp: zbc_inv_def zone_geom_def)

lemma zone_index_lt:
  assumes inv: "zbc_inv zd" and lba: "lba < capacity zd"
  shows "lba div zone_size zd < nr_zones zd"
proof -
  have z: "0 < zone_size zd" "nr_zones zd = (capacity zd + zone_size zd - 1) div zone_size zd"
    using inv by (simp_all add: zbc_inv_def zbc_geom_def)
  have "lba div zone_size zd * zone_size zd + zone_size zd \<le> capacity zd + zone_size zd - 1"
    using lba div_times_less_eq_dividend [of lba "zone_size zd"] by linarith
  then have "Suc (lba div zone_size zd) * zone_size zd \<le> capacity zd + zone_size zd - 1" by simp
  then have "Suc (lba div zone_size zd) \<le> (capacity zd + zone_size zd - 1) div zone_size zd"
    by (simp add: less_eq_div_iff_mult_less_eq z(1))
  with z(2) show ?thesis by simp
qed

lemma zone_index_iff:
  assumes inv: "zbc_inv zd" and i: "i < nr_zones zd" and lba: "lba < capacity zd"
  shows "lba div zone_size zd = i \<longleftrightarrow> z_start (zones zd ! i) \<le> lba \<and> lba < zone_end (zones zd ! i)"
proof -
  have z: "0 < zone_size zd" using inv by (simp add: zbc_inv_def zbc_geom_def)
  have "lba div zone_size zd = i \<longleftrightarrow> i * zone_size zd \<le> lba \<and> lba < Suc i * zone_size zd"
    using z by (metis div_nat_eqI dividend_less_times_div div_times_less_eq_dividend mult.commute mult_Suc_right mult_Suc)
  with lba show ?thesis by (auto simp: zone_place_nth [OF inv i])
qed

lemma exp_open_incr:
  assumes inv: "zbc_inv zd" and i: "i < nr_zones zd" and n: "\<not> zbc_zone_exp_open (zones zd ! i)"
  shows "add32 (nr_exp_open zd) 1 = nr_exp_open zd + 1"
proof -
  have "nr_exp_open zd < nr_zones zd"
    using length_filter_less [of "zones zd ! i" "zones zd" zbc_zone_exp_open] i n inv zbc_inv_length [OF inv]
    by (simp add: zbc_inv_def counters_ok_def count_zones_def)
  then show ?thesis
    using open_count_bound(2) [OF inv] by (intro add32_id) simp
qed

section \<open>A small device\<close>

text \<open>
  A host-managed device of 30 blocks in zones of 8, the last one short, the first one
  conventional, with at most two open zones. It instantiates the hypotheses of the theorems.
\<close>

definition sample_config :: zbc_dev_config where
  "sample_config = \<lparr>c_path = ''/tmp/disk'', c_dev_size = 15360, c_need_format = False, c_model = ZBC_HM,
     c_lba_size = 512, c_zone_size = 8, c_conv_num = 1, c_open_num = 2\<rparr>"

definition sample_meta :: zbc_meta where
  "sample_meta = \<lparr>m_magic = 0x555a4243, m_model = ZBC_HM, m_capacity = 30, m_lba_size = 512, m_zone_size = 8,
     m_nr_zones = 4, m_nr_conv_zones = 1, m_nr_open_zones = 2, m_nr_imp_open = 0, m_nr_exp_open = 0\<rparr>"

definition sample_zone :: "nat \<Rightarrow> nat \<Rightarrow> nat \<Rightarrow> byte \<Rightarrow> zbc_zone" where
  "sample_zone s n w c = \<lparr>z_start = s, z_len = n, z_wp = w, z_type = ZBC_ZONE_TYPE_SEQWRITE_REQ, z_cond = c,
     z_non_seq = 0, z_reset = 0\<rparr>"

definition sample_dev :: "zbc_zone list \<Rightarrow> nat \<Rightarrow> nat \<Rightarrow> zbc_dev" where
  "sample_dev zs imp ex = \<lparr>zdev_cfg = sample_config, zdev_file = (\<lambda>_. 0), meta_size = 4096, meta = sample_meta,
     zdev_model = ZBC_HM, capacity = 30, lba_size = 512, zone_size = 8,
     zones = \<lparr>z_start = 0, z_len = 8, z_wp = 2 ^ 64 - 1, z_type = ZBC_ZONE_TYPE_CONVENTIONAL,
       z_cond = ZBC_ZONE_COND_NOT_WP, z_non_seq = 0, z_reset = 0\<rparr> # zs,
     nr_zones = 4, nr_conv_zones = 1, nr_open_zones = 2, nr_imp_open = imp, nr_exp_open = ex\<rparr>"

text \<open>Two closed zones and an implicitly open one behind them.\<close>

definition dev_mixed :: zbc_dev where
  "dev_mixed = sample_dev [sample_zone 8 8 10 ZBC_ZONE_COND_CLOSED, sample_zone 16 8 17 ZBC_ZONE_COND_CLOSED,
     sample_zone 24 6 25 ZBC_ZONE_COND_IMP_OPEN] 1 0"

definition zone_cmd :: "byte \<Rightarrow> bool \<Rightarrow> nat \<Rightarrow> tcmulib_cmd" where
  "zone_cmd sa all lba = \<lparr>cmd_id = 7, cdb = cdb_of ([0x94, sa] @ be_enc 8 lba @ [0, 0, 0, 0, of_bool all, 0]),
     iovec = [], iov_cnt = 0, sense_buf = replicate 96 0\<rparr>"

lemmas sample_defs = sample_config_def sample_meta_def sample_zone_def sample_dev_def dev_mixed_def

lemma zone_cmd_fields [simp]:
  "cdb (zone_cmd sa a lba) 0 = 0x94" "cdb (zone_cmd sa a lba) (Suc 0) = sa" "cdb_all (zone_cmd sa a lba) = a"
  by (simp_all add: zone_cmd_def cdb_all_def nth_append)

lemma zone_cmd_lba: "lba < 2 ^ 64 \<Longrightarrow> cdb_be (cdb (zone_cmd sa a lba)) 2 8 = lba"
  using cdb_be_at [of "[0x94, sa]" 2 8 lba "[0, 0, 0, 0, of_bool a, 0]"] by (simp add: zone_cmd_def)

lemma dev_mixed_inv: "zbc_inv dev_mixed" "open_limit dev_mixed"
  by (simp_all add: zbc_inv_def zbc_geom_def zone_geom_def zone_end_def seq_type_of_def zone_ok_def counters_ok_def
      count_zones_def open_limit_def zone_type_defs zone_cond_defs sample_defs)

section \<open>Properties\<close>

text \<open>
  C10: \<open>zbc_get_zone\<close> finds zones by division and a 32-bit truncation, yet on a well-formed
  device it is exact: for every LBA below the capacity it returns the one zone whose range holds
  the LBA, with \<open>lowest\<close> it succeeds exactly for the first LBA of a zone, and at the capacity
  itself, which the commands let through, it returns no zone when asked for a zone start.
\<close>
theorem zbc_get_zone_correct:
  assumes inv: "zbc_inv zd"
  shows "(lba < capacity zd \<longrightarrow>
      (zbc_get_zone zd lba False = Some i \<longleftrightarrow>
         i < nr_zones zd \<and> z_start (zones zd ! i) \<le> lba \<and> lba < zone_end (zones zd ! i)) \<and>
      zbc_get_zone zd lba False \<noteq> None \<and>
      (zbc_get_zone zd lba True = Some i \<longleftrightarrow> i < nr_zones zd \<and> lba = z_start (zones zd ! i))) \<and>
    zbc_get_zone zd (capacity zd) True = None"
proof (intro conjI impI)
  assume lba: "lba < capacity zd"
  have z: "0 < zone_size zd" using inv by (simp add: zbc_inv_def zbc_geom_def)
  note u = zone_index_bound [OF inv less_imp_le [OF lba]] and lt = zone_index_lt [OF inv lba]
  show "zbc_get_zone zd lba False = Some i \<longleftrightarrow>
      i < nr_zones zd \<and> z_start (zones zd ! i) \<le> lba \<and> lba < zone_end (zones zd ! i)"
    using zone_index_iff [OF inv _ lba, of i] lt by (auto simp: zbc_get_zone_def Let_def u)
  show "zbc_get_zone zd lba False \<noteq> None"
    using lt by (simp add: zbc_get_zone_def Let_def u)
  have "lba = z_start (zones zd ! i) \<Longrightarrow> i < nr_zones zd \<Longrightarrow> lba div zone_size zd = i"
    using z by (simp add: zone_place_nth(1) [OF inv])
  then show "zbc_get_zone zd lba True = Some i \<longleftrightarrow> i < nr_zones zd \<and> lba = z_start (zones zd ! i)"
    using lt by (auto simp: zbc_get_zone_def Let_def u)
next
  have "False" if i: "capacity zd div zone_size zd < nr_zones zd"
    and s: "capacity zd = z_start (zones zd ! (capacity zd div zone_size zd))"
  proof -
    have "0 < z_len (zones zd ! (capacity zd div zone_size zd))"
      "zone_end (zones zd ! (capacity zd div zone_size zd)) \<le> capacity zd"
      using zone_bounds(1,2) [OF inv i] by auto
    then show False using s by (simp add: zone_end_def)
  qed
  then show "zbc_get_zone zd (capacity zd) True = None"
    using zone_index_bound [OF inv order_refl] unfolding zbc_get_zone_def Let_def by (metis linorder_not_less)
qed

theorem zbc_get_zone_correct_witness:
  "zbc_inv dev_mixed \<and> zbc_get_zone dev_mixed 29 False = Some 3 \<and> zbc_get_zone dev_mixed 16 True = Some 2 \<and>
   zbc_get_zone dev_mixed 30 True = None"
  using zbc_get_zone_correct [OF dev_mixed_inv(1), of 29 3] zbc_get_zone_correct [OF dev_mixed_inv(1), of 16 2] dev_mixed_inv(1)
  by (simp add: sample_defs zone_end_def)



text \<open>
  C33: No ZBC OUT command without the \<open>ALL\<close> bit takes the device over its limit of open
  zones, nor do CLOSE, FINISH and RESET with it; an explicit open makes room by closing an
  implicitly open zone first.
\<close>
theorem zbc_out_open_limit:
  assumes inv: "zbc_inv zd" and lim: "open_limit zd"
    and r: "zbc_out zd cmd = Some (sts, zd', cmd')" and na: "\<not> (cdb cmd 1 = 0x03 \<and> cdb_all cmd)"
  shows "open_limit zd'"
proof -
  have cmd: "open_limit zd'" if "zone_command f g zd cmd = Some (sts, zd', cmd')"
    "local_zone_op f t" "local_zone_op g t'" for f g t t'
    using that(1) local_zone_op.for_zones_limit [OF that(2) inv lim]
      local_zone_op.opr_limit [OF that(3) inv _ lim] get_zone_Some lim
    by (auto simp: zone_command_def zbc_fail_def sense_fail_def split: if_splits option.splits)
  have exp: "nr_exp_open zd < nr_open_zones zd"
    if "\<not> nr_open_zones zd < add32 (nr_exp_open zd) 1" "i < nr_zones zd" "\<not> zbc_zone_exp_open (zones zd ! i)" for i
    using exp_open_incr [OF inv that(2,3)] that(1) by simp
  have opn: "open_limit zd'" if "zbc_open_zone zd cmd = Some (sts, zd', cmd')" "\<not> cdb_all cmd"
  proof -
    have "open_limit (zbc_open_zone_raw (if zbc_zone_imp_open (zones zd ! i) then zbc_close_zone_raw zd i else zd) i True)"
      if "zbc_get_zone zd lba True = Some i" "\<not> zbc_zone_conv (zones zd ! i)" "\<not> zbc_zone_exp_open (zones zd ! i)"
        "\<not> zbc_zone_full (zones zd ! i)" "\<not> nr_open_zones zd < add32 (nr_exp_open zd) 1" for lba i
      using open_one_ok(4) [OF inv get_zone_Some [OF that(1)] _ that(3,4) lim] that
        exp [OF that(5) get_zone_Some [OF that(1)] that(3)]
      by (simp add: zbc_zone_seq_def)
    with that lim show ?thesis
      by (auto simp: zbc_open_zone_def Let_def zbc_fail_def sense_fail_def split: if_splits option.splits) presburger+
  qed
  show ?thesis
    using r na opn lim
      cmd [OF _ close_op.local_zone_op_axioms close_op.local_zone_op_axioms]
      cmd [OF _ finish_op.local_zone_op_axioms finish_op.local_zone_op_axioms]
      cmd [OF _ reset_op.local_zone_op_axioms reset_op.local_zone_op_axioms]
    by (auto simp: zbc_out_def zbc_close_zone_def zbc_finish_zone_def zbc_reset_wp_def zbc_fail_def sense_fail_def
        split: if_splits)
qed

theorem zbc_out_open_limit_witness:
  "\<exists>sts zd' cmd'. zbc_out dev_mixed (zone_cmd 0x03 False 16) = Some (sts, zd', cmd') \<and> open_limit zd'"
  using zbc_out_open_limit [OF dev_mixed_inv, of "zone_cmd 0x03 False 16"]
    zbc_out_ok [OF dev_mixed_inv(1), of "zone_cmd 0x03 False 16"]
  by (auto simp: cmd_ok_def split: option.splits)

text \<open>The limit is 2, and all three sequential zones end up explicitly open.\<close>

lemma open_all_run:
  "zbc_out dev_mixed (zone_cmd 0x03 True 0) =
     Some (TCMU_STS_OK, sample_dev [sample_zone 8 8 10 ZBC_ZONE_COND_EXP_OPEN,
       sample_zone 16 8 17 ZBC_ZONE_COND_EXP_OPEN, sample_zone 24 6 25 ZBC_ZONE_COND_EXP_OPEN] 0 3, zone_cmd 0x03 True 0)"
  by (simp add: zbc_out_def zbc_open_zone_def sample_defs for_zones_def count_closed_def
      zbc_open_zone_raw_def zbc_close_imp_open_zone_def zbc_close_zone_raw_def upd_zone_def Let_def
      zone_type_defs zone_cond_defs add32_def sub32_def u32_def upt_rec)

text \<open>
  C31: OPEN ZONE with the \<open>ALL\<close> bit can take the device over its limit of open zones. Its check
  counts the zones that are closed when it starts, but making room closes implicitly open
  zones, and one with a higher number is then opened as well.
\<close>
theorem open_all_exceeds_limit:
  "\<exists>zd cmd zd' cmd'. zbc_inv zd \<and> open_limit zd \<and> cdb_all cmd \<and>
     zbc_open_zone zd cmd = Some (TCMU_STS_OK, zd', cmd') \<and> nr_open_zones zd' = 2 \<and> nr_exp_open zd' = 3"
proof (intro exI conjI)
  show "zbc_inv dev_mixed" "open_limit dev_mixed" by (rule dev_mixed_inv)+
  show "cdb_all (zone_cmd 0x03 True 0)" by simp
  show "zbc_open_zone dev_mixed (zone_cmd 0x03 True 0) = Some (TCMU_STS_OK,
      sample_dev [sample_zone 8 8 10 ZBC_ZONE_COND_EXP_OPEN,
       sample_zone 16 8 17 ZBC_ZONE_COND_EXP_OPEN, sample_zone 24 6 25 ZBC_ZONE_COND_EXP_OPEN] 0 3, zone_cmd 0x03 True 0)"
    using open_all_run by (simp add: zbc_out_def)
qed (simp_all add: sample_dev_def)

text \<open>The effect of a command that applies one function to all zones and another to one zone.\<close>

definition cmd_effect ::
  "zbc_dev \<Rightarrow> tcmulib_cmd \<Rightarrow> zbc_result \<Rightarrow> (zbc_zone \<Rightarrow> zbc_zone) \<Rightarrow> (zbc_zone \<Rightarrow> zbc_zone) \<Rightarrow> bool" where
  "cmd_effect zd cmd r tall tone \<longleftrightarrow>
     (let lba = cdb_be (cdb cmd) 2 8 in
      (cdb_all cmd \<longrightarrow> (\<exists>zd'. r = Some (TCMU_STS_OK, zd', cmd) \<and> zones zd' = map tall (zones zd))) \<and>
      (\<forall>i < nr_zones zd. \<not> cdb_all cmd \<and> lba = z_start (zones zd ! i) \<and> zbc_zone_seq (zones zd ! i) \<longrightarrow>
         (\<exists>zd'. r = Some (TCMU_STS_OK, zd', cmd) \<and> zones zd' = (zones zd)[i := tone (zones zd ! i)])) \<and>
      (\<not> cdb_all cmd \<and> (\<forall>i < nr_zones zd. lba = z_start (zones zd ! i) \<longrightarrow> zbc_zone_conv (zones zd ! i)) \<longrightarrow>
         r = zbc_fail zd cmd ILLEGAL_REQUEST
               (if lba > capacity zd then ASC_LBA_OUT_OF_RANGE else ASC_INVALID_FIELD_IN_CDB)))"

lemma get_zone_lowest:
  assumes inv: "zbc_inv zd" and lba: "lba \<le> capacity zd"
  shows "zbc_get_zone zd lba True = Some i \<longleftrightarrow> i < nr_zones zd \<and> lba = z_start (zones zd ! i)"
proof -
  have z: "0 < zone_size zd" using inv by (simp add: zbc_inv_def zbc_geom_def)
  have "lba = z_start (zones zd ! i) \<Longrightarrow> i < nr_zones zd \<Longrightarrow> lba div zone_size zd = i"
    using z by (simp add: zone_place_nth(1) [OF inv])
  then show ?thesis
    by (auto simp: zbc_get_zone_def Let_def zone_index_bound [OF assms])
qed

lemma zone_start_le: "zbc_inv zd \<Longrightarrow> i < nr_zones zd \<Longrightarrow> z_start (zones zd ! i) < capacity zd"
  using zone_bounds(1,2) [of zd i] by (simp add: zone_end_def)

lemma zone_command_effect:
  assumes f: "local_zone_op f t" and g: "local_zone_op g t'" and inv: "zbc_inv zd" and op: "cdb cmd 0 = 0x94"
  shows "cmd_effect zd cmd (zone_command f g zd cmd) t t'"
proof -
  let ?lba = "cdb_be (cdb cmd) 2 8"
  have one: "zone_command f g zd cmd = Some (TCMU_STS_OK, g zd i, cmd) \<and> zones (g zd i) = (zones zd)[i := t' (zones zd ! i)]"
    if "i < nr_zones zd" "\<not> cdb_all cmd" "?lba = z_start (zones zd ! i)" "zbc_zone_seq (zones zd ! i)" for i
  proof -
    have "?lba \<le> capacity zd" using zone_start_le [OF inv that(1)] that(3) by simp
    with that get_zone_lowest [OF inv this, of i] have "zbc_get_zone zd ?lba True = Some i" "\<not> capacity zd < ?lba" by auto
    with that show ?thesis
      using local_zone_op.opr_zones [OF g inv that(1)]
      by (simp add: zone_command_def zbc_out_lba [OF op] zbc_zone_seq_def)
  qed
  have none: "zone_command f g zd cmd = zbc_fail zd cmd ILLEGAL_REQUEST
        (if ?lba > capacity zd then ASC_LBA_OUT_OF_RANGE else ASC_INVALID_FIELD_IN_CDB)"
    if "\<not> cdb_all cmd" "\<forall>i < nr_zones zd. ?lba = z_start (zones zd ! i) \<longrightarrow> zbc_zone_conv (zones zd ! i)"
  proof (cases "?lba > capacity zd")
    case True
    with that show ?thesis by (simp add: zone_command_def zbc_out_lba [OF op])
  next
    case False
    then have "?lba \<le> capacity zd" by simp
    with that get_zone_lowest [OF inv this] show ?thesis
      by (auto simp: zone_command_def zbc_out_lba [OF op] split: option.split)
  qed
  show ?thesis
    using one none local_zone_op.for_zones_zones [OF f inv]
    unfolding cmd_effect_def Let_def by (auto simp: zone_command_def)
qed

text \<open>
  C25: CLOSE ZONE, FINISH ZONE and RESET WRITE POINTER do to each addressed zone exactly what
  the functions \<open>close_z\<close>, \<open>finish_z\<close> and \<open>reset_z\<close> say, and to no other zone anything;
  with the \<open>ALL\<close> bit FINISH leaves empty zones alone and for a single zone it does not.
  An LBA that starts no sequential zone is refused, with LBA OUT OF RANGE only above
  the capacity.
\<close>
theorem zone_commands_correct:
  assumes "zbc_inv zd" and "cdb cmd 0 = 0x94"
  shows "cmd_effect zd cmd (zbc_close_zone zd cmd) close_z close_z \<and>
    cmd_effect zd cmd (zbc_finish_zone zd cmd) (finish_z False) (finish_z True) \<and>
    cmd_effect zd cmd (zbc_reset_wp zd cmd) reset_z reset_z"
  unfolding zbc_close_zone_def zbc_finish_zone_def zbc_reset_wp_def
  using zone_command_effect [OF close_op.local_zone_op_axioms close_op.local_zone_op_axioms assms]
    zone_command_effect [OF finish_op.local_zone_op_axioms finish_op.local_zone_op_axioms assms]
    zone_command_effect [OF reset_op.local_zone_op_axioms reset_op.local_zone_op_axioms assms]
  by blast

theorem zone_commands_correct_witness:
  "\<exists>zd'. zbc_reset_wp dev_mixed (zone_cmd 0x04 False 16) = Some (TCMU_STS_OK, zd', zone_cmd 0x04 False 16) \<and>
     zones zd' = (zones dev_mixed)[2 := reset_z (zones dev_mixed ! 2)]"
proof -
  have "cmd_effect dev_mixed (zone_cmd 0x04 False 16) (zbc_reset_wp dev_mixed (zone_cmd 0x04 False 16)) reset_z reset_z"
    using zone_commands_correct [OF dev_mixed_inv(1), of "zone_cmd 0x04 False 16"] by simp
  moreover have "cdb_be (cdb (zone_cmd 0x04 False 16)) 2 8 = 16" by (simp add: zone_cmd_lba)
  moreover have "2 < nr_zones dev_mixed" "z_start (zones dev_mixed ! 2) = 16" "zbc_zone_seq (zones dev_mixed ! 2)"
    by (simp_all add: sample_defs zone_type_defs)
  ultimately show ?thesis
    unfolding cmd_effect_def Let_def by (metis zone_cmd_fields(3))
qed

text \<open>
  OPEN ZONE for one zone. An LBA that starts no sequential zone is refused; a zone that is
  explicitly open or full is left as it is; a device whose explicitly open zones already reach the
  limit refuses with INSUFFICIENT ZONE RESOURCES; and otherwise the zone is explicitly open
  afterwards with its write pointer kept, and the device counts one more such zone.
\<close>
theorem open_zone_correct:
  assumes inv: "zbc_inv zd" and op: "cdb cmd 0 = 0x94" and one: "\<not> cdb_all cmd"
  shows "(case find (\<lambda>i. z_start (zones zd ! i) = cdb_be (cdb cmd) 2 8 \<and> zbc_zone_seq (zones zd ! i)) [0..<nr_zones zd] of
      None \<Rightarrow> zbc_open_zone zd cmd = zbc_fail zd cmd ILLEGAL_REQUEST
        (if cdb_be (cdb cmd) 2 8 > capacity zd then ASC_LBA_OUT_OF_RANGE else ASC_INVALID_FIELD_IN_CDB)
    | Some i \<Rightarrow>
        if zbc_zone_exp_open (zones zd ! i) \<or> zbc_zone_full (zones zd ! i)
        then zbc_open_zone zd cmd = Some (TCMU_STS_OK, zd, cmd)
        else if nr_exp_open zd \<ge> nr_open_zones zd
        then zbc_open_zone zd cmd = zbc_fail zd cmd DATA_PROTECT ASC_INSUFFICIENT_ZONE_RESOURCES
        else \<exists>zd'. zbc_open_zone zd cmd = Some (TCMU_STS_OK, zd', cmd) \<and>
          zones zd' ! i = (zones zd ! i)\<lparr>z_cond := ZBC_ZONE_COND_EXP_OPEN\<rparr> \<and> nr_exp_open zd' = Suc (nr_exp_open zd))"
proof -
  let ?lba = "cdb_be (cdb cmd) 2 8"
  let ?f = "find (\<lambda>i. z_start (zones zd ! i) = ?lba \<and> zbc_zone_seq (zones zd ! i)) [0..<nr_zones zd]"
  show ?thesis
  proof (cases ?f)
    case None
    then have "\<not> (z_start (zones zd ! i) = ?lba \<and> zbc_zone_seq (zones zd ! i))" if "i < nr_zones zd" for i
      using that by (simp add: find_None_iff)
    then have "zbc_zone_conv (zones zd ! i)" if "zbc_get_zone zd ?lba True = Some i" "\<not> capacity zd < ?lba" for i
      using get_zone_lowest [OF inv, of ?lba i] that by (simp add: zbc_zone_seq_def)
    then have "zbc_open_zone zd cmd = zbc_fail zd cmd ILLEGAL_REQUEST
        (if ?lba > capacity zd then ASC_LBA_OUT_OF_RANGE else ASC_INVALID_FIELD_IN_CDB)"
      by (simp add: zbc_open_zone_def one zbc_out_lba [OF op] Let_def split: option.split)
    with None show ?thesis by simp
  next
    case (Some i)
    then have i: "i < nr_zones zd" and lba: "?lba = z_start (zones zd ! i)" and seq: "zbc_zone_seq (zones zd ! i)"
      by (auto simp: find_Some_iff)
    have cap: "\<not> capacity zd < ?lba" using zone_start_le [OF inv i] lba by simp
    then have get: "zbc_get_zone zd ?lba True = Some i"
      using get_zone_lowest [OF inv, of ?lba i] i lba by simp
    have lim: "add32 (nr_exp_open zd) 1 > nr_open_zones zd \<longleftrightarrow> nr_exp_open zd \<ge> nr_open_zones zd"
      if "\<not> zbc_zone_exp_open (zones zd ! i)"
      using exp_open_incr [OF inv i that] by simp linarith
    have run: "zbc_open_zone zd cmd =
      (if zbc_zone_exp_open (zones zd ! i) \<or> zbc_zone_full (zones zd ! i) then Some (TCMU_STS_OK, zd, cmd)
       else if nr_exp_open zd \<ge> nr_open_zones zd then zbc_fail zd cmd DATA_PROTECT ASC_INSUFFICIENT_ZONE_RESOURCES
       else Some (TCMU_STS_OK, zbc_open_zone_raw
          (if zbc_zone_imp_open (zones zd ! i) then zbc_close_zone_raw zd i else zd) i True, cmd))"
      using lim seq by (simp add: zbc_open_zone_def one zbc_out_lba [OF op] cap get zbc_zone_seq_def Let_def)
    show ?thesis
      using open_one_ok(5,6) [OF inv i seq] unfolding Some option.case run
      by (simp add: open_z_def)
  qed
qed

theorem open_zone_correct_witness:
  "\<exists>zd'. zbc_open_zone dev_mixed (zone_cmd 0x03 False 16) = Some (TCMU_STS_OK, zd', zone_cmd 0x03 False 16) \<and>
     zones zd' ! 2 = sample_zone 16 8 17 ZBC_ZONE_COND_EXP_OPEN \<and> nr_exp_open zd' = 1"
proof -
  have "find (\<lambda>i. z_start (zones dev_mixed ! i) = 16 \<and> zbc_zone_seq (zones dev_mixed ! i)) [0..<nr_zones dev_mixed] = Some 2"
    by (simp add: sample_defs zone_type_defs upt_rec)
  with open_zone_correct [OF dev_mixed_inv(1), of "zone_cmd 0x03 False 16"] show ?thesis
    by (simp add: zone_cmd_lba) (simp add: sample_defs zone_cond_defs)
qed

end
