(* ===== verification/Tcmu_Device.thy ===== *)
theory Tcmu_Device
  imports Tcmu_Scsi
begin

text \<open>
  The device descriptor \<open>struct tcmu_device\<close> (\<open>libtcmu_priv.h\<close>) with its accessors
  (\<open>libtcmu.c\<close>). Setters truncate to the width of their field. The handler's private data is
  the state of the handler's own theory, not a field here. Also what command emulations share:
  copying a response into the data buffer of a command.
\<close>

record tcmu_device =
  cmd_tail :: nat
  num_lbas :: nat
  block_size :: nat
  max_xfer_len :: nat
  opt_unmap_gran :: nat
  unmap_gran_align :: nat
  write_cache_enabled :: bool
  solid_state_media :: bool
  tcm_hba_name :: string
  tcm_dev_name :: string
  cfgstring :: string

definition tcmu_set_dev_num_lbas :: "tcmu_device \<Rightarrow> nat \<Rightarrow> tcmu_device" where
  "tcmu_set_dev_num_lbas dev n = dev\<lparr>num_lbas := u64 n\<rparr>"

definition tcmu_get_dev_num_lbas :: "tcmu_device \<Rightarrow> nat" where
  "tcmu_get_dev_num_lbas dev = num_lbas dev"

definition tcmu_set_dev_block_size :: "tcmu_device \<Rightarrow> nat \<Rightarrow> tcmu_device" where
  "tcmu_set_dev_block_size dev n = dev\<lparr>block_size := u32 n\<rparr>"

definition tcmu_get_dev_block_size :: "tcmu_device \<Rightarrow> nat" where
  "tcmu_get_dev_block_size dev = block_size dev"

definition tcmu_set_dev_max_xfer_len :: "tcmu_device \<Rightarrow> nat \<Rightarrow> tcmu_device" where
  "tcmu_set_dev_max_xfer_len dev n = dev\<lparr>max_xfer_len := u32 n\<rparr>"

definition tcmu_get_dev_max_xfer_len :: "tcmu_device \<Rightarrow> nat" where
  "tcmu_get_dev_max_xfer_len dev = max_xfer_len dev"

definition tcmu_set_dev_opt_unmap_gran :: "tcmu_device \<Rightarrow> nat \<Rightarrow> tcmu_device" where
  "tcmu_set_dev_opt_unmap_gran dev n = dev\<lparr>opt_unmap_gran := u32 n\<rparr>"

definition tcmu_get_dev_opt_unmap_gran :: "tcmu_device \<Rightarrow> nat" where
  "tcmu_get_dev_opt_unmap_gran dev = opt_unmap_gran dev"

definition tcmu_set_dev_unmap_gran_align :: "tcmu_device \<Rightarrow> nat \<Rightarrow> tcmu_device" where
  "tcmu_set_dev_unmap_gran_align dev n = dev\<lparr>unmap_gran_align := u32 n\<rparr>"

definition tcmu_get_dev_unmap_gran_align :: "tcmu_device \<Rightarrow> nat" where
  "tcmu_get_dev_unmap_gran_align dev = unmap_gran_align dev"

definition tcmu_set_dev_write_cache_enabled :: "tcmu_device \<Rightarrow> bool \<Rightarrow> tcmu_device" where
  "tcmu_set_dev_write_cache_enabled dev b = dev\<lparr>write_cache_enabled := b\<rparr>"

definition tcmu_get_dev_write_cache_enabled :: "tcmu_device \<Rightarrow> bool" where
  "tcmu_get_dev_write_cache_enabled dev = write_cache_enabled dev"

definition tcmu_set_dev_solid_state_media :: "tcmu_device \<Rightarrow> bool \<Rightarrow> tcmu_device" where
  "tcmu_set_dev_solid_state_media dev b = dev\<lparr>solid_state_media := b\<rparr>"

definition tcmu_get_dev_solid_state_media :: "tcmu_device \<Rightarrow> bool" where
  "tcmu_get_dev_solid_state_media dev = solid_state_media dev"

text \<open>\<open>None\<close> is the division by a zero block size.\<close>

definition tcmu_update_num_lbas :: "tcmu_device \<Rightarrow> nat \<Rightarrow> (int \<times> tcmu_device) option" where
  "tcmu_update_num_lbas dev new_size =
     (if new_size = 0 then Some (-22, dev)
      else if tcmu_get_dev_block_size dev = 0 then None
      else Some (0, tcmu_set_dev_num_lbas dev (new_size div tcmu_get_dev_block_size dev)))"

lemmas dev_accessors [simp] = tcmu_set_dev_num_lbas_def tcmu_get_dev_num_lbas_def tcmu_set_dev_block_size_def
  tcmu_get_dev_block_size_def tcmu_set_dev_max_xfer_len_def tcmu_get_dev_max_xfer_len_def
  tcmu_set_dev_opt_unmap_gran_def tcmu_get_dev_opt_unmap_gran_def tcmu_set_dev_unmap_gran_align_def
  tcmu_get_dev_unmap_gran_align_def tcmu_set_dev_write_cache_enabled_def tcmu_get_dev_write_cache_enabled_def
  tcmu_set_dev_solid_state_media_def tcmu_get_dev_solid_state_media_def

section \<open>Responses\<close>

text \<open>Copying a response into the command's data buffer; returns the number of bytes copied.\<close>

definition cmd_respond :: "mem \<Rightarrow> tcmulib_cmd \<Rightarrow> byte list \<Rightarrow> nat \<Rightarrow> nat \<times> mem \<times> tcmulib_cmd" where
  "cmd_respond m cmd data len =
     (case tcmu_memcpy_into_iovec m (cmd_iovs cmd) data len of (c, vs, m') \<Rightarrow> (c, m', set_cmd_iovs cmd vs))"

definition cmd_wf :: "tcmulib_cmd \<Rightarrow> bool" where
  "cmd_wf cmd \<longleftrightarrow> iov_cnt cmd \<le> length (iovec cmd) \<and> iovs_disjoint (cmd_iovs cmd) \<and> iov_total (cmd_iovs cmd) < 2 ^ 64"

lemma cmd_iovs_set: "iov_cnt cmd \<le> length (iovec cmd) \<Longrightarrow> length vs = iov_cnt cmd \<Longrightarrow> cmd_iovs (set_cmd_iovs cmd vs) = vs"
  by (simp add: cmd_iovs_def set_cmd_iovs_def)

text \<open>
  The initiator's buffer after a response: the response, cut at the space there is, and
  behind it what was there before.
\<close>

definition responded :: "mem \<Rightarrow> mem \<Rightarrow> tcmulib_cmd \<Rightarrow> byte list \<Rightarrow> bool" where
  "responded m m' cmd resp \<longleftrightarrow>
     gather m' (cmd_iovs cmd) = take (iov_total (cmd_iovs cmd)) resp @ drop (length resp) (gather m (cmd_iovs cmd)) \<and>
     (\<forall>x. x \<notin> \<Union> (iov_range ` set (cmd_iovs cmd)) \<longrightarrow> m' x = m x)"

lemma cmd_respond_spec:
  assumes "cmd_wf cmd" and "len \<le> length data" and "cmd_respond m cmd data len = (c, m', cmd')"
  shows "responded m m' cmd (take len data)" "c = min len (iov_total (cmd_iovs cmd))"
    "cdb cmd' = cdb cmd" "sense_buf cmd' = sense_buf cmd" "cmd_id cmd' = cmd_id cmd" "iov_cnt cmd' = iov_cnt cmd"
proof -
  obtain vs where cp: "tcmu_memcpy_into_iovec m (cmd_iovs cmd) data len = (c, vs, m')" "cmd' = set_cmd_iovs cmd vs"
    using assms(3) by (auto simp: cmd_respond_def split: prod.splits)
  have d: "iovs_disjoint (cmd_iovs cmd)" using assms(1) by (simp add: cmd_wf_def)
  show "responded m m' cmd (take len data)" "c = min len (iov_total (cmd_iovs cmd))"
    using sg.copy_in_spec [OF cp(1) assms(2) d] sg.copy_in_frame [OF cp(1) assms(2)] assms(2)
    by (simp_all add: responded_def min.commute min.absorb1)
  show "cdb cmd' = cdb cmd" "sense_buf cmd' = sense_buf cmd" "cmd_id cmd' = cmd_id cmd" "iov_cnt cmd' = iov_cnt cmd"
    by (simp_all add: cp(2) set_cmd_iovs_def)
qed

end
