(* ===== verification/Zbc_Meta.thy ===== *)
theory Zbc_Meta
  imports Zbc_ZoneOps Tcmu_Device
begin

unbundle bit_operations_syntax

text \<open>
  The metadata of the emulated zoned device (\<open>file_zbc.c\<close>): the on-disk layout of
  \<open>struct zbc_meta\<close> and \<open>struct zbc_zone\<close>, the page-aligned size of the metadata area, formatting,
  checking and mapping it, and opening the backstore. Structures are stored in the byte order of
  a little-endian host. The page size and the results of the system calls are parameters
  (\<open>os_env\<close>).
\<close>

section \<open>On-disk layout\<close>

definition le_enc :: "nat \<Rightarrow> nat \<Rightarrow> byte list" where
  "le_enc k n = rev (be_enc k n)"

definition le_dec :: "byte list \<Rightarrow> nat" where
  "le_dec bs = be_dec (rev bs)"

abbreviation (input) SIZEOF_META :: nat where "SIZEOF_META \<equiv> 48"
abbreviation (input) SIZEOF_ZONE :: nat where "SIZEOF_ZONE \<equiv> 64"

definition ZBC_MAGIC :: nat where
  "ZBC_MAGIC = unat ((push_bit 24 0x55 OR push_bit 16 0x5a OR push_bit 8 0x42 OR 0x43) :: 32 word)"

definition zone_bytes :: "zbc_zone \<Rightarrow> byte list" where
  "zone_bytes z = le_enc 8 (z_start z) @ le_enc 8 (z_len z) @ le_enc 8 (z_wp z) @
     [z_type z, z_cond z, z_non_seq z, z_reset z] @ replicate 36 0"

definition zone_of_bytes :: "byte list \<Rightarrow> zbc_zone" where
  "zone_of_bytes b = \<lparr>z_start = le_dec (buf_get b 0 8), z_len = le_dec (buf_get b 8 8), z_wp = le_dec (buf_get b 16 8),
     z_type = b ! 24, z_cond = b ! 25, z_non_seq = b ! 26, z_reset = b ! 27\<rparr>"

definition meta_bytes :: "zbc_meta \<Rightarrow> byte list" where
  "meta_bytes m = le_enc 4 (m_magic m) @ le_enc 4 (m_model m) @ le_enc 8 (m_capacity m) @ le_enc 4 (m_lba_size m) @
     le_enc 4 (m_zone_size m) @ le_enc 4 (m_nr_zones m) @ le_enc 4 (m_nr_conv_zones m) @ le_enc 4 (m_nr_open_zones m) @
     le_enc 4 (m_nr_imp_open m) @ le_enc 4 (m_nr_exp_open m) @ replicate 4 0"

definition meta_of_bytes :: "byte list \<Rightarrow> zbc_meta" where
  "meta_of_bytes b = \<lparr>m_magic = le_dec (buf_get b 0 4), m_model = le_dec (buf_get b 4 4),
     m_capacity = le_dec (buf_get b 8 8), m_lba_size = le_dec (buf_get b 16 4), m_zone_size = le_dec (buf_get b 20 4),
     m_nr_zones = le_dec (buf_get b 24 4), m_nr_conv_zones = le_dec (buf_get b 28 4),
     m_nr_open_zones = le_dec (buf_get b 32 4), m_nr_imp_open = le_dec (buf_get b 36 4),
     m_nr_exp_open = le_dec (buf_get b 40 4)\<rparr>"

text \<open>The file as others see it: the shared mapping covers its first \<open>meta_size\<close> bytes.\<close>

definition meta_area :: "zbc_dev \<Rightarrow> byte list" where
  "meta_area zd = meta_bytes (meta zd) @ concat (map zone_bytes (zones zd))"

definition file_image :: "zbc_dev \<Rightarrow> mem" where
  "file_image zd = mem_write (zdev_file zd) 0 (meta_area zd)"

section \<open>Size of the metadata\<close>

definition zbc_meta_size :: "nat \<Rightarrow> nat" where
  "zbc_meta_size n = add64 SIZEOF_META (mul64 n SIZEOF_ZONE)"

definition zbc_meta_size_aligned :: "nat \<Rightarrow> nat \<Rightarrow> nat" where
  "zbc_meta_size_aligned page n =
     (let meta_size = (of_nat (zbc_meta_size n) :: 64 word);
          pg_size = (of_nat page :: 64 word) - 1
      in unat ((meta_size + pg_size - 1) AND NOT (pg_size - 1)))"

section \<open>System calls\<close>

datatype stat_result = Stat_enoent | Stat_error int | Stat_ok nat bool

record os_env =
  os_page :: nat
  os_stat :: stat_result
  os_open :: int
  os_ftruncate :: int
  os_mmap :: int
  os_msync :: int

text \<open>\<open>ftruncate\<close> keeps the common prefix and fills the rest with zeros.\<close>

definition ftruncate_file :: "nat \<Rightarrow> nat \<Rightarrow> mem \<Rightarrow> mem" where
  "ftruncate_file old new f = (\<lambda>a. if a < old \<and> a < new then f a else 0)"

definition pread :: "nat \<Rightarrow> mem \<Rightarrow> nat \<Rightarrow> nat \<Rightarrow> byte list" where
  "pread flen f off n = mem_read f off (min n (flen - off))"

section \<open>Mapping, checking and formatting\<close>

text \<open>A mapped zone is read from its place in the file.\<close>

definition zbc_map_meta :: "os_env \<Rightarrow> zbc_dev \<Rightarrow> int \<times> zbc_dev" where
  "zbc_map_meta env zd =
     (if os_mmap env \<noteq> 0 then (os_mmap env, zd)
      else (0, zd\<lparr>meta := meta_of_bytes (mem_read (zdev_file zd) 0 SIZEOF_META),
                  zones := map (\<lambda>i. zone_of_bytes (mem_read (zdev_file zd) (SIZEOF_META + i * SIZEOF_ZONE) SIZEOF_ZONE))
                             [0..<nr_zones zd]\<rparr>))"

definition zbc_flush_meta :: "os_env \<Rightarrow> zbc_dev \<Rightarrow> int" where
  "zbc_flush_meta env zd = os_msync env"

definition zbc_check_zone :: "nat \<Rightarrow> zbc_dev \<Rightarrow> zbc_meta \<Rightarrow> nat \<Rightarrow> bool" where
  "zbc_check_zone flen zd m zno =
     (let b = pread flen (zdev_file zd) (SIZEOF_META + zno * SIZEOF_ZONE) SIZEOF_ZONE; z = zone_of_bytes b in
      if length b \<noteq> SIZEOF_ZONE then False
      else if z_type z \<notin> {ZBC_ZONE_TYPE_CONVENTIONAL, ZBC_ZONE_TYPE_SEQWRITE_PREF, ZBC_ZONE_TYPE_SEQWRITE_REQ} then False
      else if zbc_zone_seq_pref z \<and> m_model m \<noteq> ZBC_HA then False
      else if zbc_zone_seq_req z \<and> m_model m \<noteq> ZBC_HM then False
      else if zbc_zone_conv z \<and> z_cond z \<noteq> ZBC_ZONE_COND_NOT_WP then False
      else if z_start z mod m_zone_size m \<noteq> 0 \<or> z_len z > m_zone_size m then False
      else True)"

definition zbc_check_meta :: "os_env \<Rightarrow> nat \<Rightarrow> nat \<Rightarrow> zbc_dev \<Rightarrow> bool \<times> zbc_dev" where
  "zbc_check_meta env flen st_size zd =
     (let b = pread flen (zdev_file zd) 0 SIZEOF_META; m = meta_of_bytes b in
      if length b \<noteq> SIZEOF_META then (False, zd)
      else if m_magic m \<noteq> ZBC_MAGIC then (False, zd)
      else if m_model m \<noteq> ZBC_HM \<and> m_model m \<noteq> ZBC_HA then (False, zd)
      else if m_lba_size m \<noteq> 512 \<and> m_lba_size m \<noteq> 4096 then (False, zd)
      else if int (mul64 (m_capacity m) (m_lba_size m)) \<noteq> c_dev_size (zdev_cfg zd) mod 2 ^ 64 then (False, zd)
      else if m_zone_size m = 0 \<or>
        (of_nat (m_zone_size m) AND (of_nat (sub32 (m_zone_size m) 1) :: 32 word)) \<noteq> 0 then (False, zd)
      else
        let n = u32 (sub64 (add64 (m_capacity m) (m_zone_size m)) 1 div m_zone_size m) in
        if m_nr_zones m \<noteq> n \<or> m_nr_conv_zones m \<ge> n \<or> m_nr_open_zones m > n then (False, zd)
        else
          let zd1 = zd\<lparr>meta_size := zbc_meta_size_aligned (os_page env) n\<rparr> in
          if int st_size mod 2 ^ 64 \<noteq> (int (meta_size zd1) + c_dev_size (zdev_cfg zd)) mod 2 ^ 64 then (False, zd1)
          else if \<not> list_all (zbc_check_zone flen zd1 m) [0..<n] then (False, zd1)
          else (True, zd1\<lparr>zdev_model := m_model m, capacity := m_capacity m, lba_size := m_lba_size m,
                   zone_size := m_zone_size m, nr_zones := m_nr_zones m, nr_conv_zones := m_nr_conv_zones m,
                   nr_open_zones := m_nr_open_zones m\<rparr>))"

text \<open>One turn of the loop that writes the zones, which carries the LBA of the next zone.\<close>

definition format_zone :: "zbc_meta \<Rightarrow> nat \<Rightarrow> nat \<Rightarrow> nat \<Rightarrow> zbc_zone" where
  "format_zone m nconv i lba =
     (let len = (if add64 lba (m_zone_size m) > m_capacity m then sub64 (m_capacity m) lba else m_zone_size m) in
      if i < nconv then
        \<lparr>z_start = lba, z_len = len, z_wp = 2 ^ 64 - 1, z_type = ZBC_ZONE_TYPE_CONVENTIONAL,
         z_cond = ZBC_ZONE_COND_NOT_WP, z_non_seq = 0, z_reset = 0\<rparr>
      else
        \<lparr>z_start = lba, z_len = len, z_wp = lba,
         z_type = (if m_model m = ZBC_HA then ZBC_ZONE_TYPE_SEQWRITE_PREF else ZBC_ZONE_TYPE_SEQWRITE_REQ),
         z_cond = ZBC_ZONE_COND_EMPTY, z_non_seq = 0, z_reset = 0\<rparr>)"

fun format_zones :: "zbc_meta \<Rightarrow> nat \<Rightarrow> nat \<Rightarrow> nat \<Rightarrow> nat \<Rightarrow> zbc_zone list" where
  "format_zones m nconv i 0 lba = []"
| "format_zones m nconv i (Suc n) lba =
     (let z = format_zone m nconv i lba in z # format_zones m nconv (Suc i) n (add64 lba (z_len z)))"

abbreviation (input) ZBC_CONF_DEFAULT_CONV_NUM :: nat where "ZBC_CONF_DEFAULT_CONV_NUM \<equiv> 0xffffffff"
abbreviation (input) ENOSPC :: int where "ENOSPC \<equiv> 28"

text \<open>
  The parameters of the device, from the configuration: \<open>None\<close> when the code divides by zero,
  \<open>Inl\<close> an error code and the device as it was left, \<open>Inr\<close> the device.
\<close>

definition format_params :: "zbc_dev \<Rightarrow> (int \<times> zbc_dev + zbc_dev) option" where
  "format_params zd =
     (let cfg = zdev_cfg zd in
      if c_lba_size cfg = 0 then None
      else
        let cap = nat (c_dev_size cfg mod 2 ^ 64) div c_lba_size cfg;
            zs = c_zone_size cfg div c_lba_size cfg
        in
        if zs = 0 then None
        else
          let n = u32 (sub64 (add64 cap zs) 1 div zs);
              zd1 = zd\<lparr>zdev_model := c_model cfg, lba_size := c_lba_size cfg, capacity := cap,
                       zone_size := zs, nr_zones := n\<rparr>
          in
          if c_conv_num cfg \<noteq> ZBC_CONF_DEFAULT_CONV_NUM \<and> c_conv_num cfg \<ge> n
          then Some (Inl (- ENOSPC, zd1\<lparr>nr_conv_zones := c_conv_num cfg\<rparr>))
          else
            let nconv = (if c_conv_num cfg = ZBC_CONF_DEFAULT_CONV_NUM
                         then (if n div 100 = 0 then 1 else n div 100) else c_conv_num cfg);
                nseq = sub32 n nconv;
                nopen = (if c_open_num cfg \<ge> nseq div 2 then (if nseq div 2 = 0 then 1 else nseq div 2)
                         else c_open_num cfg)
            in Some (Inr (zd1\<lparr>nr_conv_zones := nconv, nr_open_zones := nopen\<rparr>)))"

definition meta_of_dev :: "zbc_dev \<Rightarrow> zbc_meta" where
  "meta_of_dev zd = \<lparr>m_magic = ZBC_MAGIC, m_model = zdev_model zd, m_capacity = capacity zd,
     m_lba_size = u32 (lba_size zd), m_zone_size = u32 (zone_size zd), m_nr_zones = nr_zones zd,
     m_nr_conv_zones = nr_conv_zones zd, m_nr_open_zones = nr_open_zones zd, m_nr_imp_open = 0, m_nr_exp_open = 0\<rparr>"

definition zbc_format_meta :: "os_env \<Rightarrow> nat \<Rightarrow> zbc_dev \<Rightarrow> (int \<times> zbc_dev) option" where
  "zbc_format_meta env flen zd =
     (case format_params zd of
        None \<Rightarrow> None
      | Some (Inl r) \<Rightarrow> Some r
      | Some (Inr zd1) \<Rightarrow>
          let zd2 = zd1\<lparr>meta_size := zbc_meta_size_aligned (os_page env) (nr_zones zd1)\<rparr> in
          if os_ftruncate env < 0 then Some (os_ftruncate env, zd2)
          else
            let zd3 = zd2\<lparr>zdev_file := ftruncate_file flen
                      (nat ((int (meta_size zd2) + c_dev_size (zdev_cfg zd2)) mod 2 ^ 64)) (zdev_file zd2)\<rparr>
            in case zbc_map_meta env zd3 of (r, zd4) \<Rightarrow>
              if r \<noteq> 0 then Some (r, zd4)
              else
                let m = meta_of_dev zd4;
                    zd5 = zd4\<lparr>zdev_file := mem_write (zdev_file zd4) 0 (replicate (meta_size zd4) 0), meta := m, zones := format_zones m (nr_conv_zones zd4) 0 (nr_zones zd4) 0\<rparr>
                in Some (zbc_flush_meta env zd5, zd5))"

text \<open>The counters, zero in a fresh descriptor, wrap below zero here and are then set.\<close>

definition zbc_init_meta :: "os_env \<Rightarrow> zbc_dev \<Rightarrow> int \<times> zbc_dev" where
  "zbc_init_meta env zd =
     (case zbc_map_meta env zd of (r, zd1) \<Rightarrow>
        if r \<noteq> 0 then (r, zd1)
        else (0, (for_zones zbc_close_zone_raw zd1)\<lparr>nr_imp_open := 0, nr_exp_open := 0\<rparr>))"

abbreviation (input) EINVAL :: int where "EINVAL \<equiv> 22"

text \<open>
  \<open>None\<close> when \<open>stat\<close> fails for another reason than a missing file: the code then reads the
  uninitialised \<open>st\<close>. A new file is empty.
\<close>

definition zbc_open_backstore :: "os_env \<Rightarrow> tcmu_device \<Rightarrow> zbc_dev \<Rightarrow> (int \<times> tcmu_device \<times> zbc_dev) option" where
  "zbc_open_backstore env dev zd =
     (case os_stat env of
        Stat_error e \<Rightarrow> None
      | st \<Rightarrow>
          let zd1 = (if st = Stat_enoent then zd\<lparr>zdev_cfg := (zdev_cfg zd)\<lparr>c_need_format := True\<rparr>\<rparr> else zd);
              flen = (case st of Stat_ok n r \<Rightarrow> n | _ \<Rightarrow> 0)
          in
          if (case st of Stat_ok n r \<Rightarrow> \<not> r | _ \<Rightarrow> False) then Some (- EINVAL, dev, zd1)
          else if os_open env < 0 then Some (os_open env, dev, zd1)
          else
            case zbc_check_meta env flen flen zd1 of (ok, zd2) \<Rightarrow>
              let need = c_need_format (zdev_cfg zd2) \<or> \<not> ok;
                  zd3 = zd2\<lparr>zdev_cfg := (zdev_cfg zd2)\<lparr>c_need_format := need\<rparr>\<rparr>
              in case (if need then zbc_format_meta env flen zd3 else Some (zbc_init_meta env zd3)) of
                   None \<Rightarrow> None
                 | Some (r, zd4) \<Rightarrow>
                     if r \<noteq> 0 then Some (r, dev, zd4)
                     else Some (0, tcmu_set_dev_num_lbas (tcmu_set_dev_block_size dev (lba_size zd4)) (capacity zd4), zd4))"

section \<open>Layout lemmas\<close>

lemma length_le_enc [simp]: "length (le_enc k n) = k"
  by (simp add: le_enc_def)

lemma le_dec_enc: "n < 256 ^ k \<Longrightarrow> le_dec (le_enc k n) = n"
  by (simp add: le_dec_def le_enc_def be_dec_enc)

lemma buf_get_at: "length xs = off \<Longrightarrow> length ys = n \<Longrightarrow> buf_get (xs @ ys @ zs) off n = ys"
  by (simp add: buf_get_def)

lemma length_zone_bytes [simp]: "length (zone_bytes z) = SIZEOF_ZONE"
  by (simp add: zone_bytes_def)

lemma length_meta_bytes [simp]: "length (meta_bytes m) = SIZEOF_META"
  by (simp add: meta_bytes_def)

definition zone_fits :: "zbc_zone \<Rightarrow> bool" where
  "zone_fits z \<longleftrightarrow> z_start z < 2 ^ 64 \<and> z_len z < 2 ^ 64 \<and> z_wp z < 2 ^ 64"

lemma zone_of_bytes_of:
  assumes "zone_fits z"
  shows "zone_of_bytes (zone_bytes z) = z"
proof -
  let ?t = "[z_type z, z_cond z, z_non_seq z, z_reset z] @ replicate 36 0"
  let ?a = "le_enc 8 (z_start z)" and ?b = "le_enc 8 (z_len z)" and ?c = "le_enc 8 (z_wp z)"
  have w: "zone_bytes z = ?a @ ?b @ ?c @ ?t" by (simp add: zone_bytes_def)
  have "buf_get (zone_bytes z) 0 8 = ?a" "buf_get (zone_bytes z) 8 8 = ?b" "buf_get (zone_bytes z) 16 8 = ?c"
    unfolding w using buf_get_at [of "[]" 0 ?a 8] buf_get_at [of ?a 8 ?b 8] buf_get_at [of "?a @ ?b" 16 ?c 8] by simp_all
  moreover have "zone_bytes z ! 24 = z_type z" "zone_bytes z ! 25 = z_cond z" "zone_bytes z ! 26 = z_non_seq z"
    "zone_bytes z ! 27 = z_reset z"
    unfolding w by (simp_all add: nth_append)
  ultimately show ?thesis
    using assms by (simp add: zone_of_bytes_def zone_fits_def le_dec_enc)
qed

definition meta_fits :: "zbc_meta \<Rightarrow> bool" where
  "meta_fits m \<longleftrightarrow> m_magic m < 2 ^ 32 \<and> m_model m < 2 ^ 32 \<and> m_capacity m < 2 ^ 64 \<and> m_lba_size m < 2 ^ 32 \<and>
     m_zone_size m < 2 ^ 32 \<and> m_nr_zones m < 2 ^ 32 \<and> m_nr_conv_zones m < 2 ^ 32 \<and> m_nr_open_zones m < 2 ^ 32 \<and>
     m_nr_imp_open m < 2 ^ 32 \<and> m_nr_exp_open m < 2 ^ 32"

lemma meta_of_bytes_of:
  assumes "meta_fits m"
  shows "meta_of_bytes (meta_bytes m) = m"
proof -
  let ?a = "le_enc 4 (m_magic m)" and ?b = "le_enc 4 (m_model m)" and ?c = "le_enc 8 (m_capacity m)"
    and ?d = "le_enc 4 (m_lba_size m)" and ?e = "le_enc 4 (m_zone_size m)" and ?f = "le_enc 4 (m_nr_zones m)"
    and ?g = "le_enc 4 (m_nr_conv_zones m)" and ?h = "le_enc 4 (m_nr_open_zones m)" and ?i = "le_enc 4 (m_nr_imp_open m)"
    and ?j = "le_enc 4 (m_nr_exp_open m)"
  have w: "meta_bytes m = ?a @ ?b @ ?c @ ?d @ ?e @ ?f @ ?g @ ?h @ ?i @ ?j @ replicate 4 0"
    by (simp add: meta_bytes_def)
  have "buf_get (meta_bytes m) 0 4 = ?a" "buf_get (meta_bytes m) 4 4 = ?b" "buf_get (meta_bytes m) 8 8 = ?c"
    "buf_get (meta_bytes m) 16 4 = ?d" "buf_get (meta_bytes m) 20 4 = ?e" "buf_get (meta_bytes m) 24 4 = ?f"
    "buf_get (meta_bytes m) 28 4 = ?g" "buf_get (meta_bytes m) 32 4 = ?h" "buf_get (meta_bytes m) 36 4 = ?i"
    "buf_get (meta_bytes m) 40 4 = ?j"
    unfolding w
    using buf_get_at [of "[]" 0 ?a 4] buf_get_at [of ?a 4 ?b 4] buf_get_at [of "?a @ ?b" 8 ?c 8]
      buf_get_at [of "?a @ ?b @ ?c" 16 ?d 4] buf_get_at [of "?a @ ?b @ ?c @ ?d" 20 ?e 4]
      buf_get_at [of "?a @ ?b @ ?c @ ?d @ ?e" 24 ?f 4] buf_get_at [of "?a @ ?b @ ?c @ ?d @ ?e @ ?f" 28 ?g 4]
      buf_get_at [of "?a @ ?b @ ?c @ ?d @ ?e @ ?f @ ?g" 32 ?h 4]
      buf_get_at [of "?a @ ?b @ ?c @ ?d @ ?e @ ?f @ ?g @ ?h" 36 ?i 4]
      buf_get_at [of "?a @ ?b @ ?c @ ?d @ ?e @ ?f @ ?g @ ?h @ ?i" 40 ?j 4]
    by simp_all
  then show ?thesis
    using assms by (simp add: meta_of_bytes_def meta_fits_def le_dec_enc)
qed

lemma mem_read_image:
  "off + n \<le> length bs \<Longrightarrow> mem_read (mem_write m 0 bs) off n = take n (drop off bs)"
  by (rule nth_equalityI) (simp_all add: mem_write_in)

lemma concat_block:
  "i < length xs \<Longrightarrow> (\<And>x. length (f x) = k) \<Longrightarrow> take k (drop (i * k) (concat (map f xs))) = f (xs ! i)"
proof (induction xs arbitrary: i)
  case Nil
  then show ?case by simp
next
  case (Cons x xs)
  then show ?case by (cases i) auto
qed

lemma length_concat_block: "(\<And>x. length (f x) = k) \<Longrightarrow> length (concat (map f xs)) = length xs * k"
  by (induction xs) auto

lemma file_image_meta: "mem_read (file_image zd) 0 SIZEOF_META = meta_bytes (meta zd)"
  by (simp add: file_image_def meta_area_def mem_read_image)

lemma file_image_zone:
  assumes "i < length (zones zd)"
  shows "mem_read (file_image zd) (SIZEOF_META + i * SIZEOF_ZONE) SIZEOF_ZONE = zone_bytes (zones zd ! i)"
proof -
  have "SIZEOF_META + i * SIZEOF_ZONE + SIZEOF_ZONE \<le> length (meta_area zd)"
    using assms by (simp add: meta_area_def length_concat_block [where k = 64])
  then show ?thesis
    using concat_block [OF assms, of zone_bytes 64]
    by (simp add: file_image_def mem_read_image meta_area_def)
qed

text \<open>
  The alignment clears with \<open>pg_size - 1\<close>, which is \<open>page - 2\<close>: bit 0 is left alone. The size is
  a multiple of 16, so bit 0 of the sum is clear and the result is still the next page boundary.
\<close>

lemma even_and_not_mask:
  assumes "\<not> bit (w :: 64 word) 0" and "0 < k" and "k < 64"
  shows "w AND NOT (2 ^ k - 2) = w AND NOT (mask k)"
proof -
  have eq: "(2 ^ k - 2 :: 64 word) = push_bit 1 (mask (k - 1))"
    using assms(2) by (cases k) (simp_all add: mask_eq_exp_minus_1 push_bit_eq_mult algebra_simps)
  have "bit (2 ^ k - 2 :: 64 word) n \<longleftrightarrow> 1 \<le> n \<and> n < k" if "n < 64" for n
    unfolding eq bit_push_bit_iff using that assms(2) by (auto simp: bit_simps)
  then show ?thesis
    using assms(1) by (auto simp: bit_simps intro!: bit_eqI) (metis One_nat_def Suc_leI neq0_conv)
qed

lemma round_up_even:
  fixes s :: nat
  assumes "s mod 16 = 0" and "4 \<le> k"
  shows "(s + 2 ^ k - 2) - (s + 2 ^ k - 2) mod 2 ^ k = (s + 2 ^ k - 1) div 2 ^ k * 2 ^ k"
proof -
  have "(s + 2 ^ k - 2) div 2 ^ k = (s + 2 ^ k - 1) div 2 ^ k"
  proof -
    let ?q = "s div 2 ^ k" and ?r = "s mod 2 ^ k"
    have M: "(16::nat) dvd 2 ^ k" using assms(2) le_imp_power_dvd [of 4 k "2::nat"] by simp
    have s: "s = ?q * 2 ^ k + ?r" by (simp only: div_mult_mod_eq)
    have "?r mod 16 = 0" using assms(1) M by (simp add: mod_mod_cancel)
    then have "?r = 0 \<or> 16 \<le> ?r" by (cases "?r < 16") auto
    moreover have "?r < 2 ^ k" by simp
    moreover have "16 \<le> (2::nat) ^ k" using M by (simp add: dvd_imp_le)
    moreover have "s + 2 ^ k - 2 = ?q * 2 ^ k + (?r + 2 ^ k - 2)" "s + 2 ^ k - 1 = ?q * 2 ^ k + (?r + 2 ^ k - 1)"
      using s calculation(3) by linarith+
    moreover have "(?r + 2 ^ k - 2) div 2 ^ k = (?r + 2 ^ k - 1) div 2 ^ k"
    proof (cases "?r = 0")
      case True
      then show ?thesis using calculation(3) by simp
    next
      case False
      then have "?r + 2 ^ k - 2 = 2 ^ k + (?r - 2)" "?r + 2 ^ k - 1 = 2 ^ k + (?r - 1)" "?r - 2 < 2 ^ k" "?r - 1 < 2 ^ k"
        using calculation(1,2) by linarith+
      then show ?thesis by (simp only: div_add_self1 div_less power_not_zero zero_neq_numeral [symmetric] simp_thms not_False_eq_True)
    qed
    ultimately show ?thesis
      by (simp only: div_mult_self3 power_not_zero zero_neq_numeral [symmetric] not_False_eq_True)
  qed
  then show ?thesis by (metis minus_mod_eq_div_mult)
qed

definition page_ok :: "nat \<Rightarrow> bool" where
  "page_ok page \<longleftrightarrow> list_ex (\<lambda>k. page = 2 ^ k) [4..<32]"

lemma meta_size_aligned_eq:
  assumes p: "page_ok page" and n: "n < 2 ^ 32"
  shows "zbc_meta_size_aligned page n = (SIZEOF_META + n * SIZEOF_ZONE + page - 1) div page * page"
proof -
  obtain k where k: "page = 2 ^ k" "4 \<le> k" "k < 32" using p unfolding page_ok_def list_ex_iff set_upt atLeastLessThan_iff Bex_def by blast
  define s where "s = SIZEOF_META + n * SIZEOF_ZONE"
  have s: "s < 2 ^ 40" "s mod 16 = 0"
    using n by (simp_all add: s_def)
  have "n * SIZEOF_ZONE < 2 ^ 64" "SIZEOF_META + n * SIZEOF_ZONE < 2 ^ 64" using s by (simp_all add: s_def)
  then have ms: "zbc_meta_size n = s" by (simp add: zbc_meta_size_def mul64_id add64_id s_def)
  have k16: "(16::nat) \<le> 2 ^ k" "(2::nat) ^ k < 2 ^ 32"
    using k power_increasing [of 4 k "2::nat"] power_strict_increasing [of k 32 "2::nat"] by simp_all
  define w :: "64 word" where "w = of_nat s + (of_nat page - 1) - 1"
  have w: "w = of_nat (s + 2 ^ k - 2)"
    using k16 by (simp add: w_def k(1) of_nat_diff)
  have uw: "unat w = s + 2 ^ k - 2"
    unfolding w unat_of_nat using s(1) k16 by simp
  have "\<not> bit w 0"
  proof -
    have "16 dvd s" using s(2) by (simp add: mod_eq_0_iff_dvd)
    then have "even s" by (rule dvd_trans [rotated]) simp
    moreover have "even ((2::nat) ^ k)" using k(2) by simp
    ultimately have "even (s + 2 ^ k - 2)" by simp
    then have "\<not> bit (unat w) 0" by (simp add: uw bit_0)
    then show ?thesis by (simp only: bit_unsigned_iff possible_bit_0 simp_thms)
  qed
  then have "w AND NOT (2 ^ k - 2) = w AND NOT (mask k)" using k by (intro even_and_not_mask) auto
  moreover have "(of_nat page - 1 - 1 :: 64 word) = 2 ^ k - 2" by (simp add: k(1))
  ultimately have "zbc_meta_size_aligned page n = unat (w AND NOT (mask k))"
    unfolding zbc_meta_size_aligned_def ms Let_def w_def by simp
  also have "\<dots> = (s + 2 ^ k - 1) div 2 ^ k * 2 ^ k"
    unfolding unat_and_not_mask uw using s(2) k(2) by (rule round_up_even)
  finally show ?thesis by (simp add: k(1) s_def)
qed

section \<open>Formatting\<close>

lemma ceil_div_less:
  fixes zs :: nat
  assumes "0 < zs"
  shows "i < (c + zs - 1) div zs \<longleftrightarrow> i * zs < c"
proof -
  have "i < (c + zs - 1) div zs \<longleftrightarrow> Suc i * zs \<le> c + zs - 1"
    using assms by (simp add: Suc_le_eq [symmetric] less_eq_div_iff_mult_less_eq)
  also have "\<dots> \<longleftrightarrow> i * zs < c" using assms by (cases c) auto
  finally show ?thesis .
qed

lemma format_zone_fields:
  assumes "i * zs < c" and "m_zone_size m = zs" and "m_capacity m = c" and "c < 2 ^ 63" and "zs < 2 ^ 63"
  shows "z_start (format_zone m nc i (i * zs)) = i * zs" "zone_end (format_zone m nc i (i * zs)) = min (Suc i * zs) c"
    "0 < zs \<Longrightarrow> 0 < z_len (format_zone m nc i (i * zs))" "zone_ok (format_zone m nc i (i * zs))"
    "z_type (format_zone m nc i (i * zs)) = (if i < nc then ZBC_ZONE_TYPE_CONVENTIONAL else seq_type_of (m_model m))"
    "\<not> zbc_zone_is_open (format_zone m nc i (i * zs))"
    "z_cond (format_zone m nc i (i * zs)) = (if i < nc then ZBC_ZONE_COND_NOT_WP else ZBC_ZONE_COND_EMPTY)"
    "zone_fits (format_zone m nc i (i * zs))"
proof -
  have a: "add64 (i * zs) zs = i * zs + zs" using assms by (intro add64_id) simp
  have s: "sub64 c (i * zs) = c - i * zs" using assms by (intro sub64_id) simp_all
  have "c - i * zs < 2 ^ 64" using assms(4) by (simp add: less_imp_diff_less)
  then show "z_start (format_zone m nc i (i * zs)) = i * zs" "zone_end (format_zone m nc i (i * zs)) = min (Suc i * zs) c"
    "0 < zs \<Longrightarrow> 0 < z_len (format_zone m nc i (i * zs))" "zone_ok (format_zone m nc i (i * zs))"
    "z_type (format_zone m nc i (i * zs)) = (if i < nc then ZBC_ZONE_TYPE_CONVENTIONAL else seq_type_of (m_model m))"
    "\<not> zbc_zone_is_open (format_zone m nc i (i * zs))"
    "z_cond (format_zone m nc i (i * zs)) = (if i < nc then ZBC_ZONE_COND_NOT_WP else ZBC_ZONE_COND_EMPTY)"
    "zone_fits (format_zone m nc i (i * zs))"
    using assms a s
    by (simp_all add: format_zone_def Let_def zone_end_def zone_ok_def zone_type_defs zone_cond_defs seq_type_of_def
        zone_fits_def)
qed

lemma format_zones_nth:
  assumes "m_zone_size m = zs" and "m_capacity m = c" and "c < 2 ^ 63" and "zs < 2 ^ 63" and "0 < zs"
  shows "\<forall>j < n. (i + j) * zs < c \<Longrightarrow> lba = i * zs \<Longrightarrow>
    length (format_zones m nc i n lba) = n \<and>
    (\<forall>j < n. format_zones m nc i n lba ! j = format_zone m nc (i + j) ((i + j) * zs))"
proof (induction n arbitrary: i lba)
  case 0
  then show ?case by simp
next
  case (Suc n)
  let ?z = "format_zone m nc i lba"
  let ?r = "format_zones m nc (Suc i) n (add64 lba (z_len ?z))"
  have i: "i * zs < c" using Suc.prems(1) by auto
  have tail: "length ?r = n \<and> (\<forall>j < n. ?r ! j = format_zone m nc (Suc i + j) ((Suc i + j) * zs))"
  proof (cases "n = 0")
    case True
    then show ?thesis by simp
  next
    case False
    then have "(i + 1) * zs < c" using Suc.prems(1) by auto
    then have "zone_end ?z = Suc i * zs" "z_start ?z = i * zs" "Suc i * zs < 2 ^ 63"
      using format_zone_fields(1,2) [OF i assms(1-4), of nc] Suc.prems(2) assms(3) by auto
    then have lba: "add64 lba (z_len ?z) = Suc i * zs"
      using Suc.prems(2) by (simp add: zone_end_def add64_id)
    have "\<forall>j < n. (Suc i + j) * zs < c" using Suc.prems(1) by (metis Suc_less_eq add_Suc_shift)
    from Suc.IH [OF this lba] show ?thesis .
  qed
  have "(?z # ?r) ! j = format_zone m nc (i + j) ((i + j) * zs)" if "j < Suc n" for j
    using tail that Suc.prems(2) by (cases j) auto
  with tail show ?case by (simp add: Let_def)
qed

text \<open>What the configuration must satisfy; the parser guarantees the first three.\<close>

definition cfg_ok :: "zbc_dev_config \<Rightarrow> bool" where
  "cfg_ok cfg \<longleftrightarrow> c_lba_size cfg \<in> {512, 4096} \<and> c_model cfg \<in> {ZBC_HM, ZBC_HA} \<and> 0 < c_open_num cfg \<and>
     c_zone_size cfg div c_lba_size cfg > 0 \<and> c_zone_size cfg div c_lba_size cfg < 2 ^ 32 \<and>
     int (c_lba_size cfg) \<le> c_dev_size cfg \<and> c_dev_size cfg < 2 ^ 63 \<and>
     (nat (c_dev_size cfg) div c_lba_size cfg + c_zone_size cfg div c_lba_size cfg - 1) div
       (c_zone_size cfg div c_lba_size cfg) < 2 ^ 32 \<and>
     c_open_num cfg < 2 ^ 32 \<and>
     (c_conv_num cfg = ZBC_CONF_DEFAULT_CONV_NUM \<or>
      c_conv_num cfg < (nat (c_dev_size cfg) div c_lba_size cfg + c_zone_size cfg div c_lba_size cfg - 1) div
       (c_zone_size cfg div c_lba_size cfg))"

definition params_ok :: "zbc_dev \<Rightarrow> bool" where
  "params_ok zd \<longleftrightarrow> 0 < zone_size zd \<and> zone_size zd < 2 ^ 32 \<and> 0 < capacity zd \<and> capacity zd < 2 ^ 62 \<and>
     nr_zones zd = (capacity zd + zone_size zd - 1) div zone_size zd \<and> nr_zones zd < 2 ^ 32 \<and>
     nr_conv_zones zd \<le> nr_zones zd \<and> 0 < nr_open_zones zd \<and> nr_open_zones zd \<le> nr_zones zd \<and>
     lba_size zd \<in> {512, 4096} \<and> zdev_model zd \<in> {ZBC_HM, ZBC_HA}"

lemma format_params_ok:
  assumes c: "cfg_ok (zdev_cfg zd)"
  obtains zd1 where "format_params zd = Some (Inr zd1)" "params_ok zd1" "zdev_cfg zd1 = zdev_cfg zd"
    "nr_imp_open zd1 = nr_imp_open zd" "nr_exp_open zd1 = nr_exp_open zd" "zdev_file zd1 = zdev_file zd"
    "capacity zd1 = nat (c_dev_size (zdev_cfg zd)) div c_lba_size (zdev_cfg zd)"
    "zone_size zd1 = c_zone_size (zdev_cfg zd) div c_lba_size (zdev_cfg zd)" "lba_size zd1 = c_lba_size (zdev_cfg zd)"
    "c_conv_num (zdev_cfg zd) \<noteq> ZBC_CONF_DEFAULT_CONV_NUM \<Longrightarrow> nr_conv_zones zd1 = c_conv_num (zdev_cfg zd)"
proof -
  let ?cfg = "zdev_cfg zd"
  define cap where "cap = nat (c_dev_size ?cfg) div c_lba_size ?cfg"
  define zs where "zs = c_zone_size ?cfg div c_lba_size ?cfg"
  define n where "n = (cap + zs - 1) div zs"
  have C: "c_lba_size ?cfg \<in> {512, 4096}" "c_model ?cfg \<in> {ZBC_HM, ZBC_HA}" "0 < c_open_num ?cfg"
    "0 < zs" "zs < 2 ^ 32" "int (c_lba_size ?cfg) \<le> c_dev_size ?cfg" "c_dev_size ?cfg < 2 ^ 63" "n < 2 ^ 32"
    "c_conv_num ?cfg = ZBC_CONF_DEFAULT_CONV_NUM \<or> c_conv_num ?cfg < n"
    using c unfolding cfg_ok_def zs_def n_def cap_def by blast+
  have l: "0 < c_lba_size ?cfg" "c_lba_size ?cfg \<ge> 512" using C(1) by auto
  have d: "nat (c_dev_size ?cfg) < 2 ^ 63" "c_lba_size ?cfg \<le> nat (c_dev_size ?cfg)" using C(6,7) l by (simp_all add: nat_less_iff le_nat_iff)
  have dev: "c_dev_size ?cfg mod 2 ^ 64 = c_dev_size ?cfg" 
    by (rule mod_pos_pos_trivial) (use C(6,7) in simp_all)
  have cap: "0 < cap" "cap < 2 ^ 62"
  proof -
    show "0 < cap" using d l by (simp add: cap_def div_greater_zero_iff)
    have "cap \<le> nat (c_dev_size ?cfg) div 512" unfolding cap_def using l by (intro div_le_mono2) simp_all
    then show "cap < 2 ^ 62" using d(1) by simp
  qed
  have zs: "0 < zs" "zs < 2 ^ 32" "n < 2 ^ 32" using C by blast+
  have n: "u32 (sub64 (add64 cap zs) 1 div zs) = n"
  proof -
    have "add64 cap zs = cap + zs" using cap zs by (intro add64_id) simp
    moreover have "sub64 (cap + zs) 1 = cap + zs - 1" using cap zs by (intro sub64_id) simp_all
    ultimately show ?thesis using zs(3) by (simp add: n_def u32_id)
  qed
  have n1: "0 < n" using ceil_div_less [OF zs(1), of 0 cap] cap by (simp add: n_def)
  define nconv where "nconv = (if c_conv_num ?cfg = ZBC_CONF_DEFAULT_CONV_NUM
      then (if n div 100 = 0 then 1 else n div 100) else c_conv_num ?cfg)"
  define nseq where "nseq = sub32 n nconv"
  define nopen where "nopen = (if c_open_num ?cfg \<ge> nseq div 2 then (if nseq div 2 = 0 then 1 else nseq div 2)
      else c_open_num ?cfg)"
  have nc: "nconv \<le> n" "c_conv_num ?cfg \<noteq> ZBC_CONF_DEFAULT_CONV_NUM \<Longrightarrow> nconv < n"
    using n1 C(9) by (auto simp: nconv_def)
  have "nseq = n - nconv" unfolding nseq_def using nc zs(3) by (intro sub32_id) simp_all
  then have no: "0 < nopen" "nopen \<le> n" using n1 C(3) by (auto simp: nopen_def)
  let ?zd1 = "zd\<lparr>zdev_model := c_model ?cfg, lba_size := c_lba_size ?cfg, capacity := cap,
                       zone_size := zs, nr_zones := n, nr_conv_zones := nconv, nr_open_zones := nopen\<rparr>"
  have "format_params zd = Some (Inr ?zd1)"
    unfolding format_params_def Let_def dev cap_def [symmetric] zs_def [symmetric] n nconv_def [symmetric]
      nseq_def [symmetric] nopen_def [symmetric]
    using l zs(1) C(9) by auto
  moreover have "params_ok ?zd1"
    using cap zs nc(1) no C(1,2) unfolding params_ok_def by (simp add: n_def)
  ultimately show ?thesis using that [of ?zd1] by (simp add: cap_def zs_def nconv_def)
qed

lemma format_zones_inv:
  assumes p: "params_ok zd" and z: "zones zd = format_zones (meta_of_dev zd) (nr_conv_zones zd) 0 (nr_zones zd) 0"
    and cnt: "nr_imp_open zd = 0" "nr_exp_open zd = 0"
  shows "zbc_inv zd" "list_all zone_fits (zones zd)"
    "\<forall>i < nr_zones zd. z_cond (zones zd ! i) = (if i < nr_conv_zones zd then ZBC_ZONE_COND_NOT_WP else ZBC_ZONE_COND_EMPTY)"
proof -
  let ?m = "meta_of_dev zd" and ?zs = "zone_size zd" and ?c = "capacity zd"
  have P: "0 < ?zs" "?zs < 2 ^ 32" "?c < 2 ^ 62" "nr_zones zd = (?c + ?zs - 1) div ?zs" "nr_zones zd < 2 ^ 32"
    using p by (simp_all add: params_ok_def)
  have m: "m_zone_size ?m = ?zs" "m_capacity ?m = ?c" "m_model ?m = zdev_model zd"
    using P(2) by (simp_all add: meta_of_dev_def u32_id)
  have b: "?c < 2 ^ 63" "?zs < 2 ^ 63" using P by simp_all
  have lt: "i * ?zs < ?c" if "i < nr_zones zd" for i
    using ceil_div_less [OF P(1), of i ?c] that P(4) by simp
  have nth: "length (zones zd) = nr_zones zd \<and> (\<forall>j < nr_zones zd. zones zd ! j = format_zone ?m (nr_conv_zones zd) j (j * ?zs))"
    using format_zones_nth [OF m(1,2) b P(1), of "nr_zones zd" 0 0 "nr_conv_zones zd"] lt by (simp add: z)
  note f = format_zone_fields [OF lt m(1,2) b, where nc = "nr_conv_zones zd"]
  have geom: "zbc_geom zd"
    unfolding zbc_geom_def using nth f(1-3,5) P b(1) m(3)
    by (auto simp: list_all_length nth_enumerate_eq zone_geom_def)
  have ok: "list_all zone_ok (zones zd)" using nth f(4) by (auto simp: list_all_length)
  have "\<forall>z \<in> set (zones zd). \<not> zbc_zone_is_open z" using nth f(6) by (auto simp: in_set_conv_nth)
  then have "counters_ok zd"
    using cnt by (simp add: counters_ok_def count_zones_def filter_empty_conv zbc_zone_is_open_def)
  with geom ok show "zbc_inv zd" by (simp add: zbc_inv_def)
  show "list_all zone_fits (zones zd)" using nth f(8) by (auto simp: list_all_length)
  show "\<forall>i < nr_zones zd. z_cond (zones zd ! i) = (if i < nr_conv_zones zd then ZBC_ZONE_COND_NOT_WP else ZBC_ZONE_COND_EMPTY)"
    using nth f(7) by simp
qed

definition os_ok :: "os_env \<Rightarrow> bool" where
  "os_ok env \<longleftrightarrow> page_ok (os_page env) \<and> os_open env \<ge> 0 \<and> os_ftruncate env = 0 \<and> os_mmap env = 0 \<and> os_msync env = 0"

lemma format_meta_run:
  assumes c: "cfg_ok (zdev_cfg zd)" and os: "os_ok env" and cnt: "nr_imp_open zd = 0" "nr_exp_open zd = 0"
  obtains zd' where "zbc_format_meta env flen zd = Some (0, zd')" "zbc_inv zd'" "params_ok zd'" "meta zd' = meta_of_dev zd'"
    "list_all zone_fits (zones zd')" "nr_imp_open zd' = 0" "nr_exp_open zd' = 0" "zdev_cfg zd' = zdev_cfg zd"
    "meta_size zd' = zbc_meta_size_aligned (os_page env) (nr_zones zd')"
    "\<forall>i < nr_zones zd'. z_cond (zones zd' ! i) = (if i < nr_conv_zones zd' then ZBC_ZONE_COND_NOT_WP else ZBC_ZONE_COND_EMPTY)"
    "capacity zd' = nat (c_dev_size (zdev_cfg zd)) div c_lba_size (zdev_cfg zd)"
    "zone_size zd' = c_zone_size (zdev_cfg zd) div c_lba_size (zdev_cfg zd)" "lba_size zd' = c_lba_size (zdev_cfg zd)"
proof (rule format_params_ok [OF c])
  fix zd1
  assume z1: "format_params zd = Some (Inr zd1)" "params_ok zd1" "zdev_cfg zd1 = zdev_cfg zd"
    "nr_imp_open zd1 = nr_imp_open zd" "nr_exp_open zd1 = nr_exp_open zd" "zdev_file zd1 = zdev_file zd"
    "capacity zd1 = nat (c_dev_size (zdev_cfg zd)) div c_lba_size (zdev_cfg zd)"
    "zone_size zd1 = c_zone_size (zdev_cfg zd) div c_lba_size (zdev_cfg zd)" "lba_size zd1 = c_lba_size (zdev_cfg zd)"
  obtain zd' where r: "zbc_format_meta env flen zd = Some (0, zd')"
    and f: "capacity zd' = capacity zd1" "zone_size zd' = zone_size zd1" "lba_size zd' = lba_size zd1"
      "nr_zones zd' = nr_zones zd1" "nr_conv_zones zd' = nr_conv_zones zd1" "nr_open_zones zd' = nr_open_zones zd1"
      "zdev_model zd' = zdev_model zd1" "zdev_cfg zd' = zdev_cfg zd1" "nr_imp_open zd' = 0" "nr_exp_open zd' = 0"
      "meta_size zd' = zbc_meta_size_aligned (os_page env) (nr_zones zd1)"
      "meta zd' = meta_of_dev zd1" "zones zd' = format_zones (meta_of_dev zd1) (nr_conv_zones zd1) 0 (nr_zones zd1) 0"
    using os z1(1,4,5) cnt
    by (simp add: zbc_format_meta_def zbc_map_meta_def zbc_flush_meta_def os_ok_def Let_def meta_of_dev_def)
  have m: "meta_of_dev zd1 = meta_of_dev zd'" by (simp add: meta_of_dev_def f)
  have p: "params_ok zd'" using z1(2) by (simp add: params_ok_def f)
  have z: "zones zd' = format_zones (meta_of_dev zd') (nr_conv_zones zd') 0 (nr_zones zd') 0"
    by (simp add: f m [symmetric])
  show thesis
    using that [of zd', OF r format_zones_inv(1) [OF p z f(9,10)] p _ format_zones_inv(2) [OF p z f(9,10)] f(9,10)]
      format_zones_inv(3) [OF p z f(9,10)] m z1(3,7-9) f by simp
qed

section \<open>Reopening\<close>

text \<open>Closing zones at start-up does not depend on the counters.\<close>

lemma close_raw_zones: "i < length (zones zd) \<Longrightarrow> zones (zbc_close_zone_raw zd i) = (zones zd)[i := close_z (zones zd ! i)]"
  and close_raw_erase: "dev_erase (zbc_close_zone_raw zd i) = dev_erase zd"
  by (simp_all add: zbc_close_zone_raw_def close_z_def zbc_zone_seq_def upd_zone_def Let_def dev_erase_def)

lemma close_all:
  assumes "n \<le> length (zones zd)"
  shows "zones (fold (\<lambda>i d. zbc_close_zone_raw d i) [0..<n] zd) = map close_z (take n (zones zd)) @ drop n (zones zd) \<and>
    dev_erase (fold (\<lambda>i d. zbc_close_zone_raw d i) [0..<n] zd) = dev_erase zd"
  using assms
proof (induction n)
  case 0
  then show ?case by simp
next
  case (Suc n)
  let ?d = "fold (\<lambda>i d. zbc_close_zone_raw d i) [0..<n] zd"
  have IH: "zones ?d = map close_z (take n (zones zd)) @ drop n (zones zd)" "dev_erase ?d = dev_erase zd"
    using Suc by auto
  have "n < length (zones ?d)" using Suc.prems by (simp add: IH(1))
  from close_raw_zones [OF this] show ?case
    using IH Suc.prems close_raw_erase [of ?d n]
    by (simp add: nth_append list_update_append take_Suc_conv_app_nth Cons_nth_drop_Suc [symmetric])
qed

lemma close_all_zones:
  assumes "length (zones zd) = nr_zones zd"
  shows "(for_zones zbc_close_zone_raw zd)\<lparr>nr_imp_open := 0, nr_exp_open := 0\<rparr> =
    zd\<lparr>zones := map close_z (zones zd), nr_imp_open := 0, nr_exp_open := 0\<rparr>"
proof -
  let ?d = "for_zones zbc_close_zone_raw zd"
  have "zones ?d = map close_z (zones zd)" "dev_erase ?d = dev_erase zd"
    using close_all [of "nr_zones zd" zd] assms by (simp_all add: for_zones_def)
  moreover have "d\<lparr>nr_imp_open := 0, nr_exp_open := 0\<rparr> = (dev_erase d)\<lparr>zones := zones d\<rparr>" for d
    by (simp add: dev_erase_def)
  ultimately have "?d\<lparr>nr_imp_open := 0, nr_exp_open := 0\<rparr> = (dev_erase zd)\<lparr>zones := map close_z (zones zd)\<rparr>"
    by (simp only:)
  then show ?thesis by (simp add: dev_erase_def)
qed

text \<open>A device whose metadata a later open accepts.\<close>

definition pow2_32 :: "nat \<Rightarrow> bool" where
  "pow2_32 n \<longleftrightarrow> list_ex (\<lambda>k. n = 2 ^ k) [0..<32]"

definition persistent :: "nat \<Rightarrow> zbc_dev \<Rightarrow> bool" where
  "persistent page zd \<longleftrightarrow> params_ok zd \<and> meta zd = meta_of_dev zd \<and> list_all zone_fits (zones zd) \<and>
     nr_conv_zones zd < nr_zones zd \<and> pow2_32 (zone_size zd) \<and>
     int (capacity zd * lba_size zd) = c_dev_size (zdev_cfg zd) \<and> c_dev_size (zdev_cfg zd) < 2 ^ 62 \<and>
     meta_size zd = zbc_meta_size_aligned page (nr_zones zd)"

lemma pow2_and_pred:
  assumes "pow2_32 n"
  shows "(of_nat n AND (of_nat (sub32 n 1) :: 32 word)) = 0" "0 < n"
proof -
  obtain k where k: "n = 2 ^ k" "k < 32"
    using assms unfolding pow2_32_def list_ex_iff set_upt atLeastLessThan_iff Bex_def by blast
  have "sub32 n 1 = 2 ^ k - 1"
    using k power_strict_increasing [of k 32 "2::nat"] by (subst sub32_id) simp_all
  then have "(of_nat (sub32 n 1) :: 32 word) = mask k"
    by (simp add: mask_eq_exp_minus_1 of_nat_diff)
  moreover have "(2 ^ k :: 32 word) AND mask k = 0"
    by (rule bit_eqI) (auto simp: bit_simps)
  ultimately show "(of_nat n AND (of_nat (sub32 n 1) :: 32 word)) = 0" by (simp add: k(1))
  show "0 < n" by (simp add: k(1))
qed

lemma ZBC_MAGIC_val: "ZBC_MAGIC = 0x555a4243"
  by (simp add: ZBC_MAGIC_def)

lemma meta_fits_dev:
  assumes "params_ok zd"
  shows "meta_fits (meta_of_dev zd)"
  using assms by (auto simp: meta_fits_def meta_of_dev_def params_ok_def ZBC_MAGIC_val u32_def)

lemma meta_area_fits:
  assumes "page_ok page" and "nr_zones zd < 2 ^ 32" and "meta_size zd = zbc_meta_size_aligned page (nr_zones zd)"
  shows "SIZEOF_META + nr_zones zd * SIZEOF_ZONE \<le> meta_size zd"
proof -
  have "0 < page" using assms(1) by (auto simp: page_ok_def)
  then have "s \<le> (s + page - 1) div page * page" for s
    using ceil_div_less [of page "(s + page - 1) div page" s] by auto
  then show ?thesis unfolding assms(3) meta_size_aligned_eq [OF assms(1,2)] .
qed

lemma check_zone_accepts:
  assumes inv: "zbc_inv zd" and p: "persistent page zd" and f: "zdev_file zd0 = file_image zd"
    and i: "i < nr_zones zd" and l: "SIZEOF_META + nr_zones zd * SIZEOF_ZONE \<le> flen"
  shows "zbc_check_zone flen zd0 (meta_of_dev zd) i"
proof -
  let ?z = "zones zd ! i"
  have len: "i < length (zones zd)" using zbc_inv_length [OF inv] i by simp
  have full: "pread flen (zdev_file zd0) (SIZEOF_META + i * SIZEOF_ZONE) SIZEOF_ZONE = zone_bytes ?z"
    using file_image_zone [OF len] f i l by (simp add: pread_def min_absorb1)
  have z: "zone_of_bytes (zone_bytes ?z) = ?z"
    using p len by (intro zone_of_bytes_of) (simp add: persistent_def list_all_length)
  have g: "zone_geom zd i ?z" using inv i by (simp add: zbc_inv_def zbc_geom_nth)
  have zs: "m_zone_size (meta_of_dev zd) = zone_size zd" "m_model (meta_of_dev zd) = zdev_model zd"
    "zdev_model zd \<in> {ZBC_HM, ZBC_HA}"
    using p by (simp_all add: persistent_def params_ok_def meta_of_dev_def u32_id)
  have "z_start ?z mod zone_size zd = 0" "z_len ?z \<le> zone_size zd"
    using g by (auto simp: zone_geom_def zone_end_def)
  moreover have "zbc_zone_conv ?z \<Longrightarrow> z_cond ?z = ZBC_ZONE_COND_NOT_WP"
    using zbc_inv_zone_ok [OF inv i] by (simp add: zone_ok_def)
  moreover have "z_type ?z = ZBC_ZONE_TYPE_CONVENTIONAL \<or>
      (z_type ?z = ZBC_ZONE_TYPE_SEQWRITE_PREF \<and> zdev_model zd = ZBC_HA) \<or>
      (z_type ?z = ZBC_ZONE_TYPE_SEQWRITE_REQ \<and> zdev_model zd = ZBC_HM)"
    using g zs(3) by (auto simp: zone_geom_def seq_type_of_def split: if_splits)
  ultimately show ?thesis
    unfolding zbc_check_zone_def Let_def full z zs(1,2)
    by (auto simp: zbc_zone_seq_pref_def zbc_zone_seq_req_def)
qed

lemma check_meta_accepts:
  assumes inv: "zbc_inv zd" and p: "persistent (os_page env) zd" and pg: "page_ok (os_page env)"
    and f: "zdev_file zd0 = file_image zd" "c_dev_size (zdev_cfg zd0) = c_dev_size (zdev_cfg zd)"
    and l: "flen = meta_size zd + nat (c_dev_size (zdev_cfg zd))"
  shows "zbc_check_meta env flen flen zd0 =
    (True, zd0\<lparr>meta_size := meta_size zd, zdev_model := zdev_model zd, capacity := capacity zd, lba_size := lba_size zd,
       zone_size := zone_size zd, nr_zones := nr_zones zd, nr_conv_zones := nr_conv_zones zd,
       nr_open_zones := nr_open_zones zd\<rparr>)"
proof -
  have P: "0 < zone_size zd" "zone_size zd < 2 ^ 32" "capacity zd < 2 ^ 62"
    "nr_zones zd = (capacity zd + zone_size zd - 1) div zone_size zd" "nr_zones zd < 2 ^ 32"
    "nr_open_zones zd \<le> nr_zones zd" "lba_size zd = 512 \<or> lba_size zd = 4096" "zdev_model zd = ZBC_HM \<or> zdev_model zd = ZBC_HA"
    "nr_conv_zones zd < nr_zones zd" "pow2_32 (zone_size zd)" "int (capacity zd * lba_size zd) = c_dev_size (zdev_cfg zd)"
    "c_dev_size (zdev_cfg zd) < 2 ^ 62" "meta_size zd = zbc_meta_size_aligned (os_page env) (nr_zones zd)" "params_ok zd"
    "meta zd = meta_of_dev zd"
    using p by (auto simp: persistent_def params_ok_def)
  have area: "SIZEOF_META + nr_zones zd * SIZEOF_ZONE \<le> flen"
    using meta_area_fits [OF pg P(5,13)] l by simp
  have rd: "pread flen (zdev_file zd0) 0 SIZEOF_META = meta_bytes (meta_of_dev zd)"
    using file_image_meta [of zd] f(1) area P(15) by (simp add: pread_def min_absorb1)
  have m: "meta_of_bytes (meta_bytes (meta_of_dev zd)) = meta_of_dev zd"
    by (rule meta_of_bytes_of [OF meta_fits_dev [OF P(14)]])
  have fields: "m_magic (meta_of_dev zd) = ZBC_MAGIC" "m_model (meta_of_dev zd) = zdev_model zd"
    "m_capacity (meta_of_dev zd) = capacity zd" "m_lba_size (meta_of_dev zd) = lba_size zd"
    "m_zone_size (meta_of_dev zd) = zone_size zd" "m_nr_zones (meta_of_dev zd) = nr_zones zd"
    "m_nr_conv_zones (meta_of_dev zd) = nr_conv_zones zd" "m_nr_open_zones (meta_of_dev zd) = nr_open_zones zd"
    using P(2,7) by (auto simp: meta_of_dev_def u32_id)
  have cap: "capacity zd * lba_size zd < 2 ^ 62" 
  proof -
    have "int (capacity zd * lba_size zd) < int (2 ^ 62)" using P(11,12) by simp
    then show ?thesis by (simp only: of_nat_less_iff)
  qed
  then have mul: "mul64 (capacity zd) (lba_size zd) = capacity zd * lba_size zd" by (intro mul64_id) simp
  have n: "u32 (sub64 (add64 (capacity zd) (zone_size zd)) 1 div zone_size zd) = nr_zones zd"
  proof -
    have "add64 (capacity zd) (zone_size zd) = capacity zd + zone_size zd" using P by (intro add64_id) simp
    moreover have "sub64 (capacity zd + zone_size zd) 1 = capacity zd + zone_size zd - 1" using P by (intro sub64_id) simp_all
    ultimately show ?thesis using P(4,5) by (simp add: u32_id)
  qed
  have chk: "list_all (zbc_check_zone flen (zd0\<lparr>meta_size := s\<rparr>) (meta_of_dev zd)) [0..<nr_zones zd]" for s
    using check_zone_accepts [OF inv p, of "zd0\<lparr>meta_size := s\<rparr>" _ flen] f(1) area by (simp add: list_all_iff)
  have st: "int flen mod 2 ^ 64 = (int (meta_size zd) + c_dev_size (zdev_cfg zd0)) mod 2 ^ 64"
    using l f(2) P(11) of_nat_0_le_iff [of "capacity zd * lba_size zd", where ?'a = int] by simp
  have dv: "int (capacity zd * lba_size zd) = c_dev_size (zdev_cfg zd0) mod 2 ^ 64"
    unfolding P(11) f(2) by (rule mod_pos_pos_trivial [symmetric]) (use P(11,12) in linarith, use P(12) in simp)
  show ?thesis
    unfolding zbc_check_meta_def Let_def rd m fields n P(13) [symmetric]
    using P(1,6,7,8,9) pow2_and_pred [OF P(10)] chk st dv mul by auto
qed

lemma close_zones_inv:
  assumes inv: "zbc_inv zd"
  shows "zbc_inv (zd\<lparr>zones := map close_z (zones zd), nr_imp_open := 0, nr_exp_open := 0\<rparr>)"
proof -
  let ?d = "for_zones zbc_close_zone_raw zd"
  have z: "zones ?d = map close_z (zones zd)" by (rule close_op.for_zones_zones [OF inv])
  have "length (filter P (map close_z (zones zd))) = 0" if "P = zbc_zone_imp_open \<or> P = zbc_zone_exp_open" for P
    using inv close_z_not_open that by (auto simp: zbc_inv_def list_all_iff filter_empty_conv)
  then have "nr_imp_open ?d = 0" "nr_exp_open ?d = 0"
    using close_op.for_zones_inv [OF inv] z by (simp_all add: zbc_inv_def counters_ok_def count_zones_def)
  then have "?d = ?d\<lparr>nr_imp_open := 0, nr_exp_open := 0\<rparr>" by simp
  also have "\<dots> = zd\<lparr>zones := map close_z (zones zd), nr_imp_open := 0, nr_exp_open := 0\<rparr>"
    by (rule close_all_zones [OF zbc_inv_length [OF inv]])
  finally show ?thesis using close_op.for_zones_inv [OF inv] by simp
qed

lemma map_meta_image:
  assumes inv: "zbc_inv zd" and p: "persistent page zd" and f: "zdev_file zd0 = file_image zd"
    and n: "nr_zones zd0 = nr_zones zd" and os: "os_mmap env = 0"
  shows "zbc_map_meta env zd0 = (0, zd0\<lparr>meta := meta zd, zones := zones zd\<rparr>)"
proof -
  have len: "length (zones zd) = nr_zones zd" by (rule zbc_inv_length [OF inv])
  have "zone_of_bytes (mem_read (zdev_file zd0) (SIZEOF_META + i * SIZEOF_ZONE) SIZEOF_ZONE) = zones zd ! i"
    if "i < nr_zones zd" for i
    using file_image_zone [of i zd] that len p f zone_of_bytes_of [of "zones zd ! i"]
    by (simp add: persistent_def list_all_length)
  then have "map (\<lambda>i. zone_of_bytes (mem_read (zdev_file zd0) (SIZEOF_META + i * SIZEOF_ZONE) SIZEOF_ZONE)) [0..<nr_zones zd0] =
      map (\<lambda>i. zones zd ! i) [0..<nr_zones zd]"
    by (simp add: n)
  also have "\<dots> = zones zd" using map_nth [of "zones zd"] len by simp
  moreover have "meta_of_bytes (mem_read (zdev_file zd0) 0 SIZEOF_META) = meta zd"
    using file_image_meta [of zd] f p meta_of_bytes_of [OF meta_fits_dev [of zd]] by (simp add: persistent_def)
  ultimately show ?thesis by (simp add: zbc_map_meta_def os)
qed

section \<open>Properties\<close>

text \<open>
  C16: The metadata size is rounded up to a whole number of pages although
  \<open>zbc_meta_size_aligned\<close> takes \<open>sysconf(_SC_PAGESIZE) - 1\<close> for the page size and subtracts
  one again: the size is always a multiple of 16, so the bit that its mask misses is never set.
\<close>
theorem meta_size_aligned_correct:
  assumes "page_ok page" and "n < 2 ^ 32"
  shows "page dvd zbc_meta_size_aligned page n \<and> zbc_meta_size n = 48 + 64 * n \<and>
    zbc_meta_size n \<le> zbc_meta_size_aligned page n \<and> zbc_meta_size_aligned page n < zbc_meta_size n + page"
proof -
  let ?s = "SIZEOF_META + n * SIZEOF_ZONE"
  have "0 < page" using assms(1) by (auto simp: page_ok_def)
  then have c: "?s \<le> (?s + page - 1) div page * page" "(?s + page - 1) div page * page < ?s + page"
    using ceil_div_less [of page "(?s + page - 1) div page" ?s] div_times_less_eq_dividend [of "?s + page - 1" page] by linarith+
  have "n * SIZEOF_ZONE < 2 ^ 64" "?s < 2 ^ 64" using assms(2) by simp_all
  then have "zbc_meta_size n = ?s" by (simp only: zbc_meta_size_def mul64_id add64_id)
  with c show ?thesis unfolding meta_size_aligned_eq [OF assms] by (simp only: dvd_triv_left mult.commute simp_thms)
qed

theorem meta_size_aligned_correct_witness:
  "zbc_meta_size_aligned 4096 64 \<ge> 48 + 64 * 64 \<and> 4096 dvd zbc_meta_size_aligned 4096 64"
  using meta_size_aligned_correct [of 4096 64] by (simp add: page_ok_def)

text \<open>
  Formatting. For every configuration the option parser lets through that fits a device of at
  least one block, formatting succeeds and leaves a well-formed device: the zones tile the
  capacity, the conventional ones come first, every sequential zone is empty, at least one
  zone may be open and the limit of open zones is kept.
\<close>
theorem format_meta_correct:
  assumes "cfg_ok (zdev_cfg zd)" and "os_ok env" and "nr_imp_open zd = 0" and "nr_exp_open zd = 0"
  shows "\<exists>zd'. zbc_format_meta env flen zd = Some (0, zd') \<and> zbc_inv zd' \<and> open_limit zd' \<and> 0 < nr_open_zones zd' \<and>
    capacity zd' = nat (c_dev_size (zdev_cfg zd)) div c_lba_size (zdev_cfg zd) \<and>
    (\<forall>i < nr_zones zd'. z_cond (zones zd' ! i) =
       (if i < nr_conv_zones zd' then ZBC_ZONE_COND_NOT_WP else ZBC_ZONE_COND_EMPTY))"
  by (rule format_meta_run [OF assms, of flen]) (auto simp: open_limit_def params_ok_def)

definition fresh_dev :: "zbc_dev_config \<Rightarrow> mem \<Rightarrow> zbc_dev" where
  "fresh_dev cfg f = \<lparr>zdev_cfg = cfg, zdev_file = f, meta_size = 0,
     meta = \<lparr>m_magic = 0, m_model = 0, m_capacity = 0, m_lba_size = 0, m_zone_size = 0, m_nr_zones = 0,
       m_nr_conv_zones = 0, m_nr_open_zones = 0, m_nr_imp_open = 0, m_nr_exp_open = 0\<rparr>,
     zdev_model = 0, capacity = 0, lba_size = 0, zone_size = 0, zones = [], nr_zones = 0, nr_conv_zones = 0,
     nr_open_zones = 0, nr_imp_open = 0, nr_exp_open = 0\<rparr>"

definition sample_env :: "stat_result \<Rightarrow> os_env" where
  "sample_env st = \<lparr>os_page = 4096, os_stat = st, os_open = 3, os_ftruncate = 0, os_mmap = 0, os_msync = 0\<rparr>"

definition format_config :: zbc_dev_config where
  "format_config = \<lparr>c_path = ''/tmp/disk'', c_dev_size = 10485760, c_need_format = False, c_model = ZBC_HM,
     c_lba_size = 512, c_zone_size = 1048576, c_conv_num = 1, c_open_num = 2\<rparr>"

theorem format_meta_correct_witness:
  "\<exists>zd'. zbc_format_meta (sample_env Stat_enoent) 0 (fresh_dev format_config (\<lambda>_. 0)) = Some (0, zd') \<and> zbc_inv zd' \<and>
     open_limit zd' \<and> capacity zd' = 20480"
  using format_meta_correct [of "fresh_dev format_config (\<lambda>_. 0)" "sample_env Stat_enoent" 0]
  by (auto simp: fresh_dev_def format_config_def sample_env_def os_ok_def page_ok_def cfg_ok_def)

text \<open>
  C37: Persistence. Whatever commands were executed, reopening the backstore of a well-formed device
  accepts its metadata and restores the device: the same geometry, and every zone with the
  write pointer and type it had, zones that were open being closed. The blocks behind the metadata
  are untouched. This is for devices whose size is a whole number of blocks and that have
  a sequential zone; others are formatted anew.
\<close>
theorem reopen_preserves_zones:
  assumes inv: "zbc_inv zd" and p: "persistent (os_page env) zd" and os: "os_ok env"
    and st: "os_stat env = Stat_ok (meta_size zd + nat (c_dev_size (zdev_cfg zd))) True"
    and zd0: "zd0 = fresh_dev (zdev_cfg zd) (file_image zd)" and nf: "\<not> c_need_format (zdev_cfg zd)"
  shows "\<exists>dev' zd'. zbc_open_backstore env dev zd0 = Some (0, dev', zd') \<and> zbc_inv zd' \<and>
    zones zd' = map close_z (zones zd) \<and> capacity zd' = capacity zd \<and> zone_size zd' = zone_size zd \<and>
    meta_size zd' = meta_size zd \<and> (\<forall>a \<ge> meta_size zd. zdev_file zd' a = zdev_file zd a) \<and>
    num_lbas dev' = capacity zd \<and> block_size dev' = lba_size zd"
proof -
  let ?flen = "meta_size zd + nat (c_dev_size (zdev_cfg zd))"
  let ?zd1 = "zd0\<lparr>meta_size := meta_size zd, zdev_model := zdev_model zd, capacity := capacity zd, lba_size := lba_size zd,
       zone_size := zone_size zd, nr_zones := nr_zones zd, nr_conv_zones := nr_conv_zones zd,
       nr_open_zones := nr_open_zones zd\<rparr>"
  let ?zd2 = "?zd1\<lparr>meta := meta zd, zones := zones zd\<rparr>"
  let ?zd' = "?zd2\<lparr>zones := map close_z (zones zd), nr_imp_open := 0, nr_exp_open := 0\<rparr>"
  have fl: "zdev_file zd0 = file_image zd" "zdev_cfg zd0 = zdev_cfg zd" by (simp_all add: zd0 fresh_dev_def)
  have pg: "page_ok (os_page env)" "os_mmap env = 0" using os by (simp_all add: os_ok_def)
  have chk: "zbc_check_meta env ?flen ?flen zd0 = (True, ?zd1)"
    using check_meta_accepts [OF inv p pg(1) fl(1)] fl(2) by simp
  have mp: "zbc_map_meta env ?zd1 = (0, ?zd2)"
    using map_meta_image [OF inv p, of ?zd1 env] fl(1) pg(2) by simp
  have init: "zbc_init_meta env ?zd1 = (0, ?zd')"
    using close_all_zones [of ?zd2] zbc_inv_length [OF inv] by (simp add: zbc_init_meta_def mp)
  have run: "zbc_open_backstore env dev zd0 =
      Some (0, tcmu_set_dev_num_lbas (tcmu_set_dev_block_size dev (lba_size zd)) (capacity zd), ?zd')"
    using os nf fl(2) unfolding zbc_open_backstore_def st
    by (simp add: chk os_ok_def init)
  have inv': "zbc_inv ?zd'"
    using close_zones_inv [OF inv] by (simp add: zbc_inv_def zbc_geom_def zone_geom_def counters_ok_def count_zones_def cong: if_cong)
  have ns: "nr_zones zd < 2 ^ 32" "meta_size zd = zbc_meta_size_aligned (os_page env) (nr_zones zd)"
    using p by (simp_all add: persistent_def params_ok_def)
  have "length (meta_area zd) \<le> meta_size zd"
    using meta_area_fits [OF pg(1) ns] zbc_inv_length [OF inv]
    by (simp add: meta_area_def length_concat_block [where k = 64])
  then have "\<forall>a \<ge> meta_size zd. zdev_file ?zd' a = zdev_file zd a"
    by (simp add: fl(1) file_image_def mem_write_out)
  moreover have "u64 (capacity zd) = capacity zd" "u32 (lba_size zd) = lba_size zd"
    using p by (auto simp: persistent_def params_ok_def u64_id u32_id)
  ultimately show ?thesis using run inv' by simp
qed

theorem reopen_preserves_zones_witness:
  "\<forall>dev. \<exists>dev' zd'. zbc_open_backstore (sample_env (Stat_ok 19456 True)) dev
       (fresh_dev sample_config (file_image dev_mixed)) = Some (0, dev', zd') \<and> zbc_inv zd' \<and>
     zones zd' = map close_z (zones dev_mixed)"
proof -
  have cfg: "zdev_cfg dev_mixed = sample_config" "meta_size dev_mixed = 4096" by (simp_all add: sample_defs)
  have "page_ok 4096" "pow2_32 8" by (simp_all add: page_ok_def pow2_32_def upt_rec)
  then have "persistent 4096 dev_mixed"
    unfolding persistent_def
    by (simp add: params_ok_def meta_size_aligned_eq sample_defs meta_of_dev_def ZBC_MAGIC_val u32_def zone_fits_def)
  with reopen_preserves_zones [OF dev_mixed_inv(1), of "sample_env (Stat_ok 19456 True)", OF _ _ _ refl] show ?thesis
    by (simp add: cfg sample_env_def os_ok_def page_ok_def sample_config_def) blast
qed

end
