(* ===== verification/Zbc_Report.thy ===== *)
theory Zbc_Report
  imports Zbc_Meta
begin

unbundle bit_operations_syntax

text \<open>
  REPORT ZONES of \<open>file_zbc.c\<close>. The two loops walk the zone array with a pointer; here
  they recurse on the rest of the array, and running off its end is \<open>None\<close>. The theorem
  says which zones are reported and what bytes the initiator receives.
\<close>

type_synonym zbc_io_result = "(tcmu_sts \<times> mem \<times> zbc_dev \<times> tcmulib_cmd) option"

definition zbc_io_fail :: "mem \<Rightarrow> zbc_dev \<Rightarrow> tcmulib_cmd \<Rightarrow> byte \<Rightarrow> nat \<Rightarrow> zbc_io_result" where
  "zbc_io_fail m zd cmd key asc = (case sense_fail cmd key asc of (sts, cmd') \<Rightarrow> Some (sts, m, zd, cmd'))"

section \<open>Reporting options\<close>

abbreviation (input) ZBC_RO_ALL :: byte where "ZBC_RO_ALL \<equiv> 0x00"
abbreviation (input) ZBC_RO_EMPTY :: byte where "ZBC_RO_EMPTY \<equiv> 0x01"
abbreviation (input) ZBC_RO_IMP_OPEN :: byte where "ZBC_RO_IMP_OPEN \<equiv> 0x02"
abbreviation (input) ZBC_RO_EXP_OPEN :: byte where "ZBC_RO_EXP_OPEN \<equiv> 0x03"
abbreviation (input) ZBC_RO_CLOSED :: byte where "ZBC_RO_CLOSED \<equiv> 0x04"
abbreviation (input) ZBC_RO_FULL :: byte where "ZBC_RO_FULL \<equiv> 0x05"
abbreviation (input) ZBC_RO_READONLY :: byte where "ZBC_RO_READONLY \<equiv> 0x06"
abbreviation (input) ZBC_RO_OFFLINE :: byte where "ZBC_RO_OFFLINE \<equiv> 0x07"
abbreviation (input) ZBC_RO_RWP_RECOMMENDED :: byte where "ZBC_RO_RWP_RECOMMENDED \<equiv> 0x10"
abbreviation (input) ZBC_RO_NON_SEQ :: byte where "ZBC_RO_NON_SEQ \<equiv> 0x11"
abbreviation (input) ZBC_RO_NOT_WP :: byte where "ZBC_RO_NOT_WP \<equiv> 0x3f"
abbreviation (input) ZBC_RO_PARTIAL :: byte where "ZBC_RO_PARTIAL \<equiv> 0x80"

definition zbc_zone_not_wp :: "zbc_zone \<Rightarrow> bool" where
  "zbc_zone_not_wp z \<longleftrightarrow> z_cond z = ZBC_ZONE_COND_NOT_WP"

definition zbc_zone_offline :: "zbc_zone \<Rightarrow> bool" where
  "zbc_zone_offline z \<longleftrightarrow> z_cond z = ZBC_ZONE_COND_OFFLINE"

definition zbc_zone_rdonly :: "zbc_zone \<Rightarrow> bool" where
  "zbc_zone_rdonly z \<longleftrightarrow> z_cond z = ZBC_ZONE_COND_READONLY"

definition zbc_zone_rwp :: "zbc_zone \<Rightarrow> bool" where
  "zbc_zone_rwp z \<longleftrightarrow> z_reset z \<noteq> 0"

definition zbc_zone_non_seq :: "zbc_zone \<Rightarrow> bool" where
  "zbc_zone_non_seq z \<longleftrightarrow> z_non_seq z \<noteq> 0"

definition zbc_should_report_zone :: "zbc_zone \<Rightarrow> byte \<Rightarrow> bool" where
  "zbc_should_report_zone z ro =
     (let opt = ro AND NOT ZBC_RO_PARTIAL in
      if opt = ZBC_RO_ALL then True
      else if opt = ZBC_RO_EMPTY then zbc_zone_empty z
      else if opt = ZBC_RO_IMP_OPEN then zbc_zone_imp_open z
      else if opt = ZBC_RO_EXP_OPEN then zbc_zone_exp_open z
      else if opt = ZBC_RO_CLOSED then zbc_zone_closed z
      else if opt = ZBC_RO_FULL then zbc_zone_full z
      else if opt = ZBC_RO_READONLY then zbc_zone_rdonly z
      else if opt = ZBC_RO_OFFLINE then zbc_zone_offline z
      else if opt = ZBC_RO_RWP_RECOMMENDED then zbc_zone_rwp z
      else if opt = ZBC_RO_NON_SEQ then zbc_zone_non_seq z
      else if opt = ZBC_RO_NOT_WP then zbc_zone_not_wp z
      else False)"

definition ro_valid :: "byte \<Rightarrow> bool" where
  "ro_valid ro \<longleftrightarrow> ro \<in> {ZBC_RO_ALL, ZBC_RO_EMPTY, ZBC_RO_IMP_OPEN, ZBC_RO_EXP_OPEN, ZBC_RO_CLOSED, ZBC_RO_FULL,
     ZBC_RO_READONLY, ZBC_RO_OFFLINE, ZBC_RO_RWP_RECOMMENDED, ZBC_RO_NON_SEQ, ZBC_RO_NOT_WP}"

section \<open>The command\<close>

fun report_count :: "nat \<Rightarrow> byte \<Rightarrow> bool \<Rightarrow> zbc_zone list \<Rightarrow> nat \<Rightarrow> nat \<Rightarrow> nat \<Rightarrow> nat option" where
  "report_count cap ro partial [] lba len n = (if lba < cap then None else Some n)"
| "report_count cap ro partial (z # zs) lba len n =
     (if lba < cap then
        if zbc_should_report_zone z ro then
          if partial \<and> len < 64 then Some n
          else report_count cap ro partial zs (add64 (z_start z) (z_len z)) (if len > 64 then len - 64 else 0) (add32 n 1)
        else report_count cap ro partial zs (add64 (z_start z) (z_len z)) len n
      else Some n)"

definition report_header :: "nat \<Rightarrow> nat \<Rightarrow> byte list" where
  "report_header n cap =
     buf_put (buf_put (replicate 64 0) 0 (be_enc 4 (u32 (n * 64)))) 8 (be_enc 8 (sub64 cap 1))"

definition report_desc :: "zbc_zone \<Rightarrow> byte list" where
  "report_desc z =
     (let d1 = push_bit 4 (z_cond z) AND 0xf0;
          d2 = (if z_reset z \<noteq> 0 then d1 OR 0x01 else d1);
          d3 = (if z_non_seq z \<noteq> 0 then d2 OR 0x02 else d2)
      in buf_put (buf_put (buf_put (buf_put (replicate 64 0) 0 [z_type z AND 0x0f, d3])
           8 (be_enc 8 (z_len z))) 16 (be_enc 8 (z_start z))) 24 (be_enc 8 (z_wp z)))"

fun report_write :: "nat \<Rightarrow> byte \<Rightarrow> zbc_zone list \<Rightarrow> nat \<Rightarrow> nat \<Rightarrow> mem \<Rightarrow> iovec list \<Rightarrow> (mem \<times> iovec list) option" where
  "report_write cap ro [] lba len m vs = (if lba < cap \<and> len \<ge> 64 then None else Some (m, vs))"
| "report_write cap ro (z # zs) lba len m vs =
     (if lba < cap \<and> len \<ge> 64 then
        if zbc_should_report_zone z ro then
          (case tcmu_memcpy_into_iovec m vs (report_desc z) 64 of (c, vs', m') \<Rightarrow>
             report_write cap ro zs (add64 (z_start z) (z_len z)) (len - 64) m' vs')
        else report_write cap ro zs (add64 (z_start z) (z_len z)) len m vs
      else Some (m, vs))"

definition cdb_partial :: "tcmulib_cmd \<Rightarrow> bool" where
  "cdb_partial cmd \<longleftrightarrow> cdb cmd 14 AND ZBC_RO_PARTIAL \<noteq> 0"

definition cdb_ro :: "tcmulib_cmd \<Rightarrow> byte" where
  "cdb_ro cmd = cdb cmd 14 AND NOT ZBC_RO_PARTIAL"

definition zbc_report_zones :: "mem \<Rightarrow> zbc_dev \<Rightarrow> tcmulib_cmd \<Rightarrow> zbc_io_result" where
  "zbc_report_zones m zd cmd =
     (let partial = cdb_partial cmd; ro = cdb_ro cmd in
      if \<not> ro_valid ro then zbc_io_fail m zd cmd ILLEGAL_REQUEST ASC_INVALID_FIELD_IN_CDB
      else
        case tcmu_get_lba (cdb cmd) of None \<Rightarrow> None | Some lba \<Rightarrow>
        if lba \<ge> capacity zd then zbc_io_fail m zd cmd ILLEGAL_REQUEST ASC_LBA_OUT_OF_RANGE
        else
          case tcmu_get_xfer_length (cdb cmd) of None \<Rightarrow> None | Some xfer \<Rightarrow>
          case zbc_get_zone zd lba False of None \<Rightarrow> None | Some zno \<Rightarrow>
          case report_count (capacity zd) ro partial (drop zno (zones zd)) lba (if xfer > 64 then xfer - 64 else 0) 0 of
            None \<Rightarrow> None
          | Some n \<Rightarrow>
              case cmd_respond m cmd (report_header n (capacity zd)) 64 of (c, m1, cmd1) \<Rightarrow>
              if c < 64 then Some (TCMU_STS_OK, m1, zd, cmd1)
              else
                case report_write (capacity zd) ro (drop zno (zones zd)) lba
                       (tcmu_iovec_length (cmd_iovs cmd1)) m1 (cmd_iovs cmd1) of
                  None \<Rightarrow> None
                | Some (m2, vs) \<Rightarrow> Some (TCMU_STS_OK, m2, zd, set_cmd_iovs cmd1 vs))"

definition zbc_in :: "mem \<Rightarrow> zbc_dev \<Rightarrow> tcmulib_cmd \<Rightarrow> zbc_io_result" where
  "zbc_in m zd cmd =
     (if cdb cmd 1 = 0x00 then zbc_report_zones m zd cmd
      else zbc_io_fail m zd cmd ILLEGAL_REQUEST ASC_INVALID_FIELD_IN_CDB)"

section \<open>The walk over the zones\<close>

text \<open>The zones from some LBA on, laid out without gaps up to the capacity.\<close>

fun zone_chain :: "nat \<Rightarrow> nat \<Rightarrow> zbc_zone list \<Rightarrow> bool" where
  "zone_chain cap lba [] = (cap \<le> lba)"
| "zone_chain cap lba (z # zs) =
     (lba < cap \<and> add64 (z_start z) (z_len z) = zone_end z \<and> zone_chain cap (zone_end z) zs)"

lemma inv_zone_chain:
  assumes inv: "zbc_inv zd" and i: "i < nr_zones zd" and lba: "lba < capacity zd"
  shows "zone_chain (capacity zd) lba (drop i (zones zd))"
  using i lba
proof (induction "nr_zones zd - i" arbitrary: i lba)
  case 0
  then show ?case by simp
next
  case (Suc k)
  have len: "length (zones zd) = nr_zones zd" by (rule zbc_inv_length [OF inv])
  have d: "drop i (zones zd) = zones zd ! i # drop (Suc i) (zones zd)"
    using Suc.prems len by (simp add: Cons_nth_drop_Suc)
  have e: "zone_end (zones zd ! i) = min (Suc i * zone_size zd) (capacity zd)"
    by (rule zone_place_nth(2) [OF inv Suc.prems(1)])
  have "zone_chain (capacity zd) (zone_end (zones zd ! i)) (drop (Suc i) (zones zd))"
  proof (cases "Suc i < nr_zones zd")
    case True
    then have "zone_end (zones zd ! i) < capacity zd"
      using zone_start_le [OF inv True] zone_place_nth(1) [OF inv True] e by simp
    then show ?thesis using Suc.hyps(1) [of "Suc i"] Suc.hyps(2) True by simp
  next
    case False
    then have n: "Suc i = nr_zones zd" using Suc.prems(1) by simp
    have z: "0 < zone_size zd" "nr_zones zd = (capacity zd + zone_size zd - 1) div zone_size zd"
      using inv by (simp_all add: zbc_inv_def zbc_geom_def)
    have "capacity zd \<le> Suc i * zone_size zd"
      using ceil_div_less [OF z(1), of "Suc i" "capacity zd"] n z(2) by simp
    then show ?thesis using e n len by simp
  qed
  then show ?case using Suc.prems zone_end_add64 [OF inv Suc.prems(1)] by (simp add: d)
qed

lemma report_count_eq:
  "zone_chain cap lba zs \<Longrightarrow> n + length zs < 2 ^ 32 \<Longrightarrow>
   report_count cap ro partial zs lba len n =
     Some (n + (if partial then min (length (filter (\<lambda>z. zbc_should_report_zone z ro) zs)) (len div 64)
                else length (filter (\<lambda>z. zbc_should_report_zone z ro) zs)))"
proof (induction zs arbitrary: lba len n)
  case Nil
  then show ?case by simp
next
  case (Cons z zs)
  let ?R = "filter (\<lambda>z. zbc_should_report_zone z ro) zs"
  have chain: "zone_chain cap (zone_end z) zs" "add64 (z_start z) (z_len z) = zone_end z" "lba < cap"
    using Cons.prems(1) by simp_all
  have n1: "add32 n 1 = n + 1" "add32 n (Suc 0) = Suc n" using Cons.prems(2) add32_id [of n 1] by simp_all
  have IH: "report_count cap ro partial zs (zone_end z) len' n' =
      Some (n' + (if partial then min (length ?R) (len' div 64) else length ?R))" if "n' \<le> Suc n" for len' n'
    using Cons.IH [OF chain(1), of n' len'] Cons.prems(2) that by simp
  have step: "(if len > 64 then len - 64 else 0) div 64 = len div 64 - 1"
    using le_div_geq [of 64 len] by (cases "len \<le> 64") auto
  show ?case
  proof (cases "zbc_should_report_zone z ro \<and> \<not> (partial \<and> len < 64)")
    case True
    then have "partial \<Longrightarrow> 1 \<le> len div 64" using le_div_geq [of 64 len] by simp
    then show ?thesis
      using True chain IH [of "Suc n" "if len > 64 then len - 64 else 0"] n1 step by (auto simp: min_def)
  next
    case False
    then show ?thesis using chain IH [of n len] by auto
  qed
qed

lemma length_report_desc [simp]: "length (report_desc z) = 64"
  by (simp add: report_desc_def Let_def)

lemma length_report_header [simp]: "length (report_header n cap) = 64"
  by (simp add: report_header_def)

lemma report_write_eq:
  "zone_chain cap lba zs \<Longrightarrow> iovs_disjoint vs \<Longrightarrow> len = iov_total vs \<Longrightarrow>
   \<exists>m' vs'. report_write cap ro zs lba len m vs = Some (m', vs') \<and> length vs' = length vs \<and>
     gather m' vs = concat (map report_desc (take (iov_total vs div 64) (filter (\<lambda>z. zbc_should_report_zone z ro) zs))) @
        drop (64 * min (iov_total vs div 64) (length (filter (\<lambda>z. zbc_should_report_zone z ro) zs))) (gather m vs) \<and>
     (\<forall>x. x \<notin> \<Union> (iov_range ` set vs) \<longrightarrow> m' x = m x)"
proof (induction zs arbitrary: lba len m vs)
  case Nil
  then show ?case by simp
next
  case (Cons z zs)
  let ?R = "filter (\<lambda>z. zbc_should_report_zone z ro) zs"
  have chain: "zone_chain cap (zone_end z) zs" "add64 (z_start z) (z_len z) = zone_end z" "lba < cap"
    using Cons.prems(1) by simp_all
  show ?case
  proof (cases "64 \<le> iov_total vs \<and> zbc_should_report_zone z ro")
    case False
    then show ?thesis
      using chain Cons.IH [OF chain(1) Cons.prems(2,3), of m] Cons.prems(3) by auto
  next
    case True
    obtain c vs1 m1 where cp: "tcmu_memcpy_into_iovec m vs (report_desc z) 64 = (c, vs1, m1)"
      by (metis surj_pair)
    have sp: "gather m1 vs = report_desc z @ drop 64 (gather m vs)" "gather m1 vs1 = drop 64 (gather m vs)"
      "iov_total vs1 = iov_total vs - 64"
      using sg.copy_in_spec [OF cp _ Cons.prems(2)] True by simp_all
    have len1: "length vs1 = length vs"
      using memcpy_into_loop_spec [of m vs "report_desc z" 64 0 c vs1 m1] cp Cons.prems(2)
      by (simp add: tcmu_memcpy_into_iovec_def)
    have sub: "\<Union> (iov_range ` set vs1) \<subseteq> \<Union> (iov_range ` set vs)"
      unfolding set_iov_addrs [symmetric] sg.copy_in_rest [OF cp] by (rule set_drop_subset)
    obtain m2 vs2 where rec: "report_write cap ro zs (zone_end z) (iov_total vs - 64) m1 vs1 = Some (m2, vs2)"
      "length vs2 = length vs1"
      "gather m2 vs1 = concat (map report_desc (take (iov_total vs1 div 64) ?R)) @
         drop (64 * min (iov_total vs1 div 64) (length ?R)) (gather m1 vs1)"
      "\<forall>x. x \<notin> \<Union> (iov_range ` set vs1) \<longrightarrow> m2 x = m1 x"
      using Cons.IH [OF chain(1) sg.rest_disjoint [OF cp Cons.prems(2)], of "iov_total vs - 64" m1] sp(3) by metis
    have run: "report_write cap ro (z # zs) lba len m vs = Some (m2, vs2)"
      using True chain Cons.prems(3) cp rec(1) by simp
    have k: "iov_total vs div 64 = Suc (iov_total vs1 div 64)" using True sp(3) by (simp add: le_div_geq)
    have "gather m2 vs = take 64 (gather m1 vs) @ gather m2 vs1"
      using sg.copy_in_then [OF cp Cons.prems(2)] rec(4) by blast
    also have "\<dots> = report_desc z @ concat (map report_desc (take (iov_total vs1 div 64) ?R)) @
        drop (64 + 64 * min (iov_total vs1 div 64) (length ?R)) (gather m vs)"
      using sp(1,2) rec(3) by (simp add: add.commute)
    finally have g: "gather m2 vs = concat (map report_desc (take (iov_total vs div 64) (filter (\<lambda>z. zbc_should_report_zone z ro) (z # zs)))) @
        drop (64 * min (iov_total vs div 64) (length (filter (\<lambda>z. zbc_should_report_zone z ro) (z # zs)))) (gather m vs)"
      using True k by simp
    have "\<forall>x. x \<notin> \<Union> (iov_range ` set vs) \<longrightarrow> m2 x = m x"
      using rec(4) sub sg.copy_in_frame [OF cp] by fastforce
    with run g rec(2) len1 show ?thesis by auto
  qed
qed

section \<open>Properties\<close>

definition report_body :: "zbc_dev \<Rightarrow> byte \<Rightarrow> nat \<Rightarrow> zbc_zone list" where
  "report_body zd ro lba =
     filter (\<lambda>z. zbc_should_report_zone z ro) (dropWhile (\<lambda>z. zone_end z \<le> lba) (zones zd))"

lemma dropWhile_zones:
  assumes inv: "zbc_inv zd" and lba: "lba < capacity zd"
  shows "dropWhile (\<lambda>z. zone_end z \<le> lba) (zones zd) = drop (lba div zone_size zd) (zones zd)"
proof -
  let ?i = "lba div zone_size zd"
  have i: "?i < nr_zones zd" by (rule zone_index_lt [OF inv lba])
  have z: "0 < zone_size zd" using inv by (simp add: zbc_inv_def zbc_geom_def)
  have len: "length (zones zd) = nr_zones zd" by (rule zbc_inv_length [OF inv])
  have "zone_end (zones zd ! j) \<le> lba" if "j < ?i" for j
  proof -
    have "Suc j * zone_size zd \<le> lba"
      using that by (simp add: Suc_le_eq [symmetric] less_eq_div_iff_mult_less_eq [OF z])
    then show ?thesis using zone_place_nth(2) [OF inv, of j] that i by simp
  qed
  moreover have "\<not> zone_end (zones zd ! ?i) \<le> lba"
    using zone_index_iff [OF inv i lba] by simp
  ultimately show ?thesis using i len
    by (metis dropWhile_eq_drop takeWhile_eq_take takeWhile_eq_take_P_nth length_take min.absorb4)
qed

lemma report_zones_run:
  assumes inv: "zbc_inv zd" and wf: "cmd_wf cmd" and op: "cdb cmd 0 = 0x95"
    and ro: "ro_valid (cdb_ro cmd)" and lba: "cdb_be (cdb cmd) 2 8 < capacity zd"
  shows "\<exists>m' cmd'. zbc_report_zones m zd cmd = Some (TCMU_STS_OK, m', zd, cmd') \<and>
    (let R = report_body zd (cdb_ro cmd) (cdb_be (cdb cmd) 2 8);
         space = iov_total (cmd_iovs cmd);
         n = (if cdb_partial cmd then min (length R) ((cdb_be (cdb cmd) 10 4 - 64) div 64) else length R);
         reply = report_header n (capacity zd) @ concat (map report_desc (take ((space - 64) div 64) R))
     in gather m' (cmd_iovs cmd) = take space reply @ drop (length reply) (gather m (cmd_iovs cmd))) \<and>
    (\<forall>x. x \<notin> \<Union> (iov_range ` set (cmd_iovs cmd)) \<longrightarrow> m' x = m x)"
proof -
  let ?lba = "cdb_be (cdb cmd) 2 8" and ?ro = "cdb_ro cmd" and ?vs = "cmd_iovs cmd"
  let ?partial = "cdb_partial cmd" and ?xfer = "cdb_be (cdb cmd) 10 4"
  let ?zs = "drop (?lba div zone_size zd) (zones zd)"
  let ?R = "report_body zd ?ro ?lba"
  define n where "n = (if ?partial then min (length ?R) ((?xfer - 64) div 64) else length ?R)"
  define H where "H = report_header n (capacity zd)"
  have lenH [simp]: "length H = 64" "take (min 64 k) H = take k H" for k
    by (simp_all add: H_def) (metis H_def length_report_header min.commute order_refl take_all take_take)
  have R: "?R = filter (\<lambda>z. zbc_should_report_zone z ?ro) ?zs"
    by (simp add: report_body_def dropWhile_zones [OF inv lba])
  have i: "?lba div zone_size zd < nr_zones zd" by (rule zone_index_lt [OF inv lba])
  have get: "tcmu_get_lba (cdb cmd) = Some ?lba" "tcmu_get_xfer_length (cdb cmd) = Some ?xfer"
    "zbc_get_zone zd ?lba False = Some (?lba div zone_size zd)"
    using op i zone_index_bound [OF inv less_imp_le [OF lba]]
    by (simp_all add: tcmu_get_lba_def tcmu_get_xfer_length_def tcmu_get_cdb_length_def zbc_get_zone_def Let_def)
  have chain: "zone_chain (capacity zd) ?lba ?zs" by (rule inv_zone_chain [OF inv i lba])
  have "length ?zs < 2 ^ 32" using zbc_inv_length [OF inv] open_count_bound(2) [OF inv] by simp
  then have cnt: "report_count (capacity zd) ?ro ?partial ?zs ?lba (if ?xfer > 64 then ?xfer - 64 else 0) 0 = Some n"
    using report_count_eq [OF chain, of 0] unfolding n_def R by simp
  obtain c vs1 m1 where cp: "tcmu_memcpy_into_iovec m ?vs H 64 = (c, vs1, m1)"
    by (metis surj_pair)
  have wf': "iov_cnt cmd \<le> length (iovec cmd)" "iovs_disjoint ?vs" "iov_total ?vs < 2 ^ 64"
    using wf by (simp_all add: cmd_wf_def)
  have sp: "c = min 64 (iov_total ?vs)"
    "gather m1 ?vs = take (iov_total ?vs) H @ drop 64 (gather m ?vs)"
    "gather m1 vs1 = drop 64 (gather m ?vs)" "iov_total vs1 = iov_total ?vs - 64" "length vs1 = length ?vs"
    using sg.copy_in_spec [OF cp _ wf'(2)] memcpy_into_loop_spec [of m ?vs H 64 0 c vs1 m1] cp wf'(2)
    by (simp_all add: tcmu_memcpy_into_iovec_def)
  have frame: "\<forall>x. x \<notin> \<Union> (iov_range ` set ?vs) \<longrightarrow> m1 x = m x"
    using sg.copy_in_frame [OF cp] by simp
  have vs1: "cmd_iovs (set_cmd_iovs cmd vs1) = vs1"
    using wf'(1) sp(5) by (intro cmd_iovs_set) (simp_all add: cmd_iovs_def)
  show ?thesis
  proof (cases "iov_total ?vs < 64")
    case True
    then have "zbc_report_zones m zd cmd = Some (TCMU_STS_OK, m1, zd, set_cmd_iovs cmd vs1)"
      using ro lba by (simp add: zbc_report_zones_def Let_def get cnt cmd_respond_def cp sp(1) H_def [symmetric])
    moreover have "gather m1 ?vs = take (iov_total ?vs) H" using sp(2) True by simp
    ultimately show ?thesis using True frame by (simp add: Let_def n_def [symmetric] H_def [symmetric])
  next
    case False
    obtain m2 vs2 where wr: "report_write (capacity zd) ?ro ?zs ?lba (iov_total vs1) m1 vs1 = Some (m2, vs2)"
      "gather m2 vs1 = concat (map report_desc (take (iov_total vs1 div 64) ?R)) @
         drop (64 * min (iov_total vs1 div 64) (length ?R)) (gather m1 vs1)"
      "\<forall>x. x \<notin> \<Union> (iov_range ` set vs1) \<longrightarrow> m2 x = m1 x"
      using report_write_eq [OF chain sg.rest_disjoint [OF cp wf'(2)] refl, of ?ro m1] unfolding R by metis
    have "tcmu_iovec_length vs1 = iov_total vs1" using wf'(3) sp(4) by (simp add: tcmu_iovec_length_mod)
    then have run: "zbc_report_zones m zd cmd = Some (TCMU_STS_OK, m2, zd, set_cmd_iovs (set_cmd_iovs cmd vs1) vs2)"
      using ro lba False by (simp add: zbc_report_zones_def Let_def get cnt cmd_respond_def cp sp(1) H_def [symmetric] vs1 wr(1))
    have "gather m2 ?vs = H @ gather m2 vs1"
      using sg.copy_in_then [OF cp wf'(2), of m2] wr(3) sp(2) False by simp
    then have g: "gather m2 ?vs = H @ concat (map report_desc (take ((iov_total ?vs - 64) div 64) ?R)) @
        drop (64 + 64 * min ((iov_total ?vs - 64) div 64) (length ?R)) (gather m ?vs)"
      unfolding wr(2) sp(3,4) by (simp add: add.commute)
    have "length (concat (map report_desc xs)) = length xs * 64" for xs
      by (rule length_concat_block) simp
    moreover have "64 + 64 * min ((iov_total ?vs - 64) div 64) (length ?R) \<le> iov_total ?vs"
      using False by (auto simp: min_def)
    moreover have "set (iov_addrs vs1) \<subseteq> set (iov_addrs ?vs)"
      unfolding sg.copy_in_rest [OF cp] by (rule set_drop_subset)
    then have "\<forall>x. x \<notin> \<Union> (iov_range ` set ?vs) \<longrightarrow> m2 x = m x"
      using frame wr(3) unfolding set_iov_addrs by fastforce
    ultimately show ?thesis using run g False by (simp add: Let_def min.commute mult.commute n_def [symmetric] H_def [symmetric])
  qed
qed

text \<open>
  C39: REPORT ZONES. For a valid reporting option and an LBA below the capacity the command
  succeeds, changes no device state, and the initiator's buffer then holds the header and the
  descriptors of the zones that match the option, from the zone holding the LBA on, as many whole
  descriptors as fit, and behind them what it held before. The header counts all matching zones, or with
  \<open>PARTIAL\<close> those that fit the allocation length. Nothing outside the buffer is written.
\<close>
theorem report_zones_correct:
  assumes inv: "zbc_inv zd" and wf: "cmd_wf cmd" and op: "cdb cmd 0 = 0x95"
    and ro: "ro_valid (cdb_ro cmd)" and lba: "cdb_be (cdb cmd) 2 8 < capacity zd"
  shows "\<exists>m' cmd'. zbc_report_zones m zd cmd = Some (TCMU_STS_OK, m', zd, cmd') \<and>
    (let R = report_body zd (cdb_ro cmd) (cdb_be (cdb cmd) 2 8);
         space = iov_total (cmd_iovs cmd);
         n = (if cdb_partial cmd then min (length R) ((cdb_be (cdb cmd) 10 4 - 64) div 64) else length R);
         reply = report_header n (capacity zd) @ concat (map report_desc (take ((space - 64) div 64) R))
     in gather m' (cmd_iovs cmd) = take space reply @ drop (length reply) (gather m (cmd_iovs cmd))) \<and>
    (\<forall>x. x \<notin> \<Union> (iov_range ` set (cmd_iovs cmd)) \<longrightarrow> m' x = m x)"
  by (rule report_zones_run [OF assms])

definition report_cmd :: "byte \<Rightarrow> nat \<Rightarrow> nat \<Rightarrow> tcmulib_cmd" where
  "report_cmd ro lba alloc = \<lparr>cmd_id = 8, cdb = cdb_of ([0x95, 0] @ be_enc 8 lba @ be_enc 4 alloc @ [ro, 0]),
     iovec = [\<lparr>iov_base = 4096, iov_len = 100\<rparr>, \<lparr>iov_base = 8192, iov_len = 60\<rparr>], iov_cnt = 2, sense_buf = replicate 96 0\<rparr>"

theorem report_zones_correct_witness:
  "\<exists>m' cmd'. zbc_report_zones (\<lambda>_. 0) dev_mixed (report_cmd 0x04 8 160) = Some (TCMU_STS_OK, m', dev_mixed, cmd') \<and>
     gather m' (cmd_iovs (report_cmd 0x04 8 160)) =
       report_header 2 30 @ report_desc (sample_zone 8 8 10 ZBC_ZONE_COND_CLOSED) @ replicate 32 0"
proof -
  let ?c = "report_cmd 0x04 8 160"
  have lba: "cdb_be (cdb ?c) 2 8 = 8"
    using cdb_be_at [of "[0x95, 0]" 2 8 8 "be_enc 4 160 @ [4, 0]"] by (simp add: report_cmd_def)
  have c: "cdb ?c 0 = 0x95" "cdb ?c 14 = 0x04" "cmd_iovs ?c = [\<lparr>iov_base = 4096, iov_len = 100\<rparr>, \<lparr>iov_base = 8192, iov_len = 60\<rparr>]"
    by (simp_all add: report_cmd_def nth_append cmd_iovs_def)
  have f: "cdb_ro ?c = 0x04" "\<not> cdb_partial ?c" by (simp_all add: cdb_ro_def cdb_partial_def c)
  have wf: "cmd_wf ?c" by (simp add: cmd_wf_def c(3) iov_range_def) (simp add: report_cmd_def)
  have R: "report_body dev_mixed 0x04 8 =
      [sample_zone 8 8 10 ZBC_ZONE_COND_CLOSED, sample_zone 16 8 17 ZBC_ZONE_COND_CLOSED]"
    by (simp add: report_body_def sample_defs zone_end_def zbc_should_report_zone_def zone_cond_defs)
  have "mem_read (\<lambda>_. 0) a n = replicate n 0" for a n by (rule nth_equalityI) simp_all
  then have g: "gather (\<lambda>_. 0) (cmd_iovs ?c) = replicate 160 0"
    by (simp add: c(3)) (simp flip: replicate_add)
  have total: "iov_total (cmd_iovs ?c) = 160" and cap: "capacity dev_mixed = 30"
    by (simp_all add: c(3) dev_mixed_def sample_dev_def)
  have "ro_valid (cdb_ro ?c)" "cdb_be (cdb ?c) 2 8 < capacity dev_mixed"
    by (simp_all add: ro_valid_def f lba dev_mixed_def sample_dev_def)
  from report_zones_correct [OF dev_mixed_inv(1) wf c(1) this, of "\<lambda>_. 0"] show ?thesis
    by (simp add: lba f R Let_def g total cap) (auto simp: numeral_2_eq_2)
qed

end
