(* ===== verification/Zbc_IO.thy ===== *)
theory Zbc_IO
  imports Zbc_Report
begin

unbundle bit_operations_syntax

text \<open>
  READ, WRITE and SYNCHRONIZE CACHE of \<open>file_zbc.c\<close>. The results of \<open>pread\<close>, \<open>pwrite\<close>,
  \<open>fsync\<close> and \<open>msync\<close> are parameters (\<open>io_env\<close>): a byte count or a negative number for a given
  offset and size. Data goes between the initiator's buffers and the backstore file.
  \<open>None\<close> stands for a write past the end of a buffer, a null or out-of-range pointer, or a loop that
  makes no progress.
\<close>

section \<open>Operations\<close>

record io_env =
  io_pread :: "nat \<Rightarrow> nat \<Rightarrow> int"
  io_pwrite :: "nat \<Rightarrow> nat \<Rightarrow> int"
  io_fsync :: int
  io_msync :: int

definition zbc_check_rdwr :: "zbc_dev \<Rightarrow> tcmulib_cmd \<Rightarrow> (tcmu_sts \<times> tcmulib_cmd) option" where
  "zbc_check_rdwr zd cmd =
     (case tcmu_get_lba (cdb cmd) of None \<Rightarrow> None | Some lba \<Rightarrow>
      case tcmu_get_xfer_length (cdb cmd) of None \<Rightarrow> None | Some nr_lbas \<Rightarrow>
      if tcmu_iovec_length (cmd_iovs cmd) \<noteq> mul64 nr_lbas (lba_size zd)
      then Some (sense_fail cmd HARDWARE_ERROR ASC_INTERNAL_TARGET_FAILURE)
      else if add64 lba nr_lbas > capacity zd \<or> add64 lba nr_lbas < lba
      then Some (sense_fail cmd ILLEGAL_REQUEST ASC_LBA_OUT_OF_RANGE)
      else Some (TCMU_STS_OK, cmd))"

text \<open>
  One \<open>__zbc_read\<close>: the remaining count, the position in the buffer, the LBA and the zone type seen so
  far. \<open>nr_lbas\<close> is the whole length of the buffer in blocks. A count above the remaining one
  would be copied past the end of the buffer, a count of zero repeats for ever.
\<close>

function zbc_read_loop ::
  "io_env \<Rightarrow> zbc_dev \<Rightarrow> nat \<Rightarrow> mem \<Rightarrow> nat \<Rightarrow> nat \<Rightarrow> nat \<Rightarrow> nat \<Rightarrow> (bool \<times> mem \<times> nat) option" where
  "zbc_read_loop env zd nr_lbas m buf lba_count lba zone_type =
     (if lba_count = 0 then Some (True, m, zone_type)
      else
        case zbc_get_zone zd lba False of None \<Rightarrow> None | Some zno \<Rightarrow>
        let z = zones zd ! zno;
            zt = (if zdev_model zd = ZBC_HM \<and> zone_type = 0 then unat (z_type z) else zone_type)
        in
        if zdev_model zd = ZBC_HM \<and> zone_type \<noteq> 0 \<and> zone_type \<noteq> unat (z_type z) then Some (False, m, 0)
        else if zbc_zone_seq z \<and> lba \<ge> z_wp z
        then Some (True, mem_write m buf (replicate (lba_count * lba_size zd) 0), zt)
        else
          let boundary = (if zbc_zone_seq z then z_wp z else add64 (z_start z) (z_len z));
              count = (if add64 lba nr_lbas > boundary then sub64 boundary lba else lba_count);
              bytes = count * lba_size zd;
              off = meta_size zd + lba * lba_size zd;
              ret = io_pread env off bytes
          in
          if count > lba_count \<or> count = 0 then None
          else if ret \<noteq> int bytes then Some (False, mem_write m buf (mem_read (zdev_file zd) off (nat ret)), zt)
          else zbc_read_loop env zd nr_lbas (mem_write m buf (mem_read (zdev_file zd) off bytes)) (buf + bytes)
                 (lba_count - count) (lba + count) zt)"
  by pat_completeness auto

termination by (relation "measure (\<lambda>(env, zd, nr_lbas, m, buf, lba_count, lba, zone_type). lba_count)") auto

declare zbc_read_loop.simps [simp del]

definition zbc_read_raw :: "io_env \<Rightarrow> zbc_dev \<Rightarrow> mem \<Rightarrow> nat \<Rightarrow> nat \<Rightarrow> nat \<Rightarrow> nat \<Rightarrow> (int \<times> mem \<times> nat) option" where
  "zbc_read_raw env zd m buf nr_lbas lba zone_type =
     (case zbc_read_loop env zd nr_lbas m buf nr_lbas lba zone_type of
        None \<Rightarrow> None
      | Some (ok, m', zt) \<Rightarrow> Some (if ok then int nr_lbas else -5, m', zt))"

fun zbc_read_iovs ::
  "io_env \<Rightarrow> zbc_dev \<Rightarrow> tcmulib_cmd \<Rightarrow> mem \<Rightarrow> iovec list \<Rightarrow> nat \<Rightarrow> nat \<Rightarrow> zbc_io_result" where
  "zbc_read_iovs env zd cmd m [] lba zone_type = Some (TCMU_STS_OK, m, zd, cmd)"
| "zbc_read_iovs env zd cmd m (v # vs) lba zone_type =
     (case zbc_read_raw env zd m (iov_base v) (iov_len v div lba_size zd) lba zone_type of
        None \<Rightarrow> None
      | Some (ret, m', zt) \<Rightarrow>
          if ret \<le> 0 then
            if zt = 0 then zbc_io_fail m' zd cmd ILLEGAL_REQUEST ASC_ATTEMPT_TO_READ_INVALID_DATA
            else zbc_io_fail m' zd cmd MEDIUM_ERROR ASC_READ_ERROR
          else zbc_read_iovs env zd cmd m' vs (add64 lba (nat ret)) zt)"

definition zbc_read :: "io_env \<Rightarrow> mem \<Rightarrow> zbc_dev \<Rightarrow> tcmulib_cmd \<Rightarrow> zbc_io_result" where
  "zbc_read env m zd cmd =
     (case tcmu_get_lba (cdb cmd) of None \<Rightarrow> None | Some lba \<Rightarrow>
      case zbc_check_rdwr zd cmd of None \<Rightarrow> None | Some (sts, cmd') \<Rightarrow>
      if sts \<noteq> TCMU_STS_OK then Some (sts, m, zd, cmd')
      else zbc_read_iovs env zd cmd' m (cmd_iovs cmd') lba 0)"

text \<open>Each turn moves to the next zone; a count of zero would repeat for ever.\<close>

function zbc_write_check_zones :: "zbc_dev \<Rightarrow> tcmulib_cmd \<Rightarrow> nat \<Rightarrow> nat \<Rightarrow> nat \<Rightarrow> (tcmu_sts \<times> tcmulib_cmd) option" where
  "zbc_write_check_zones zd cmd nr_lbas lba zone_type =
     (if nr_lbas = 0 then Some (TCMU_STS_OK, cmd)
      else
        case zbc_get_zone zd lba False of
          None \<Rightarrow> Some (sense_fail cmd HARDWARE_ERROR ASC_INTERNAL_TARGET_FAILURE)
        | Some zno \<Rightarrow>
            let z = zones zd ! zno;
                zt = (if zone_type = 0 then unat (z_type z) else zone_type);
                zend = add64 (z_start z) (z_len z)
            in
            if unat (z_type z) \<noteq> zt \<or> (zbc_zone_seq_req z \<and> add64 lba nr_lbas > zend)
            then Some (sense_fail cmd ILLEGAL_REQUEST ASC_WRITE_BOUNDARY_VIOLATION)
            else if zbc_zone_seq_req z \<and> lba \<noteq> z_wp z then
              if zbc_zone_full z then Some (sense_fail cmd ILLEGAL_REQUEST ASC_INVALID_FIELD_IN_CDB)
              else Some (sense_fail cmd ILLEGAL_REQUEST ASC_UNALIGNED_WRITE_COMMAND)
            else
              let count = (if add64 lba nr_lbas > zend then sub64 zend lba else nr_lbas) in
              if count = 0 \<or> count > nr_lbas then None
              else zbc_write_check_zones zd cmd (nr_lbas - count) (add64 lba count) zt)"
  by pat_completeness auto

termination by (relation "measure (\<lambda>(zd, cmd, nr_lbas, lba, zone_type). nr_lbas)") auto

declare zbc_write_check_zones.simps [simp del]

text \<open>What a write of \<open>count\<close> blocks at \<open>lba\<close> does to the zone descriptor, after the data is written.\<close>

definition zbc_advance_wp :: "zbc_dev \<Rightarrow> nat \<Rightarrow> nat \<Rightarrow> nat \<Rightarrow> zbc_dev" where
  "zbc_advance_wp zd zno lba count =
     (let z = zones zd ! zno;
          zd1 = (if zbc_zone_seq_req z then upd_zone zd zno (\<lambda>z. z\<lparr>z_wp := add64 (z_wp z) count\<rparr>)
                 else if zbc_zone_seq_pref z \<and> add64 lba count \<ge> z_wp z
                 then upd_zone zd zno (\<lambda>z. z\<lparr>z_wp := add64 lba count\<rparr>)
                 else zd);
          z1 = zones zd1 ! zno;
          zend = add64 (z_start z1) (z_len z1)
      in
      if zbc_zone_seq z1 \<and> z_wp z1 \<ge> zend then
        let zd2 = (if zbc_zone_is_open z1 then zbc_close_zone_raw zd1 zno else zd1)
        in upd_zone zd2 zno (\<lambda>z. z\<lparr>z_wp := zend, z_cond := ZBC_ZONE_COND_FULL\<rparr>)
      else zd1)"

text \<open>The device after an implicit open, if the zone needs one.\<close>

definition write_open :: "zbc_dev \<Rightarrow> nat \<Rightarrow> zbc_dev" where
  "write_open zd i = (if zbc_zone_seq (zones zd ! i) \<and> \<not> zbc_zone_is_open (zones zd ! i)
     then zbc_open_zone_raw zd i False else zd)"

text \<open>
  The pointer \<open>iovec\<close> stays on the first entry: only the entries themselves are
  consumed by \<open>tcmu_seek_in_iovec\<close>.
\<close>

function zbc_write_loop ::
  "io_env \<Rightarrow> mem \<Rightarrow> zbc_dev \<Rightarrow> tcmulib_cmd \<Rightarrow> iovec list \<Rightarrow> nat \<Rightarrow> nat \<Rightarrow> zbc_io_result" where
  "zbc_write_loop env m zd cmd vs nr_lbas lba =
     (if nr_lbas = 0 then Some (TCMU_STS_OK, m, zd, set_cmd_iovs cmd vs)
      else
        case zbc_get_zone zd lba False of None \<Rightarrow> None | Some zno \<Rightarrow>
        let z = zones zd ! zno; zend = add64 (z_start z) (z_len z) in
        if add64 lba nr_lbas > zend
        then zbc_io_fail m zd (set_cmd_iovs cmd vs) ILLEGAL_REQUEST ASC_WRITE_BOUNDARY_VIOLATION
        else if zbc_zone_seq z \<and> \<not> zbc_zone_is_open z \<and> nr_exp_open zd \<ge> nr_open_zones zd
        then zbc_io_fail m zd (set_cmd_iovs cmd vs) DATA_PROTECT ASC_INSUFFICIENT_ZONE_RESOURCES
        else
          let zd1 = write_open zd zno in
          case vs of [] \<Rightarrow> None | v # _ \<Rightarrow>
          let count = min nr_lbas (iov_len v div lba_size zd1);
              off = meta_size zd1 + lba * lba_size zd1;
              ret = io_pwrite env off (count * lba_size zd1)
          in
          if ret \<le> 0 then zbc_io_fail m zd1 (set_cmd_iovs cmd vs) MEDIUM_ERROR ASC_WRITE_ERROR
          else
            case tcmu_seek_in_iovec vs (nat ret) of None \<Rightarrow> None | Some (c, vs') \<Rightarrow>
            let zd2 = zd1\<lparr>zdev_file := mem_write (zdev_file zd1) off (mem_read m (iov_base v) (nat ret))\<rparr>;
                done = nat ret div lba_size zd2
            in zbc_write_loop env m (zbc_advance_wp zd2 zno lba done) cmd vs' (sub64 nr_lbas done) (add64 lba done))"
  by pat_completeness auto

termination
proof (relation "measure (\<lambda>(env, m, zd, cmd, vs, nr_lbas, lba). iov_total vs)", goal_cases)
  case 1
  then show ?case by simp
next
  case (2 env m zd cmd vs nr_lbas lba zno z zend zd1 v vs0 count off ret r c vs' zd2 dn)
  then have "tcmu_seek_in_iovec vs (nat ret) = Some (c, vs')" "0 < ret" by simp_all
  then have "iov_total vs' = iov_total vs - nat ret" "nat ret \<le> iov_total vs" "0 < nat ret"
    using seek_total seek_Some_le by auto
  then show ?case by simp
qed

declare zbc_write_loop.simps [simp del]

definition zbc_write :: "io_env \<Rightarrow> mem \<Rightarrow> zbc_dev \<Rightarrow> tcmulib_cmd \<Rightarrow> zbc_io_result" where
  "zbc_write env m zd cmd =
     (case tcmu_get_lba (cdb cmd) of None \<Rightarrow> None | Some lba \<Rightarrow>
      case tcmu_get_xfer_length (cdb cmd) of None \<Rightarrow> None | Some nr_lbas \<Rightarrow>
      case zbc_check_rdwr zd cmd of None \<Rightarrow> None | Some (sts, cmd1) \<Rightarrow>
      if sts \<noteq> TCMU_STS_OK then Some (sts, m, zd, cmd1)
      else
        case zbc_write_check_zones zd cmd1 nr_lbas lba 0 of None \<Rightarrow> None | Some (sts, cmd2) \<Rightarrow>
        if sts \<noteq> TCMU_STS_OK then Some (sts, m, zd, cmd2)
        else zbc_write_loop env m zd cmd2 (cmd_iovs cmd2) nr_lbas lba)"

definition zbc_flush :: "io_env \<Rightarrow> mem \<Rightarrow> zbc_dev \<Rightarrow> tcmulib_cmd \<Rightarrow> zbc_io_result" where
  "zbc_flush env m zd cmd =
     (if io_fsync env \<noteq> 0 \<or> io_msync env \<noteq> 0 then zbc_io_fail m zd cmd MEDIUM_ERROR ASC_WRITE_ERROR
      else Some (TCMU_STS_OK, m, zd, cmd))"

section \<open>Advancing the write pointer\<close>

definition wp_after :: "nat \<Rightarrow> nat \<Rightarrow> zbc_zone \<Rightarrow> nat" where
  "wp_after lba count z = (if zbc_zone_seq_req z then z_wp z + count
     else if zbc_zone_seq_pref z then max (z_wp z) (lba + count) else z_wp z)"

definition fills :: "nat \<Rightarrow> nat \<Rightarrow> zbc_zone \<Rightarrow> bool" where
  "fills lba count z \<longleftrightarrow> zbc_zone_seq z \<and> zone_end z \<le> wp_after lba count z"

definition advance_z :: "nat \<Rightarrow> nat \<Rightarrow> zbc_zone \<Rightarrow> zbc_zone" where
  "advance_z lba count z = (if fills lba count z then z\<lparr>z_wp := zone_end z, z_cond := ZBC_ZONE_COND_FULL\<rparr>
     else z\<lparr>z_wp := wp_after lba count z\<rparr>)"

lemma advance_z_place [simp]: "zone_place (advance_z lba count z) = zone_place z"
  by (simp add: advance_z_def zone_place_def)

text \<open>A zone that \<open>zbc_write\<close> is about to write: conventional, or open with room for the blocks.\<close>

definition writable :: "nat \<Rightarrow> nat \<Rightarrow> zbc_zone \<Rightarrow> bool" where
  "writable lba count z \<longleftrightarrow> z_start z \<le> lba \<and> lba + count \<le> zone_end z \<and>
     (zbc_zone_seq z \<longrightarrow> zbc_zone_is_open z) \<and> (zbc_zone_seq_req z \<longrightarrow> lba = z_wp z)"

lemma advance_wp_upd:
  assumes inv: "zbc_inv zd" and i: "i < nr_zones zd" and w: "writable lba count (zones zd ! i)"
  shows "zbc_advance_wp zd i lba count = zone_upd zd i (advance_z lba count (zones zd ! i))
    (nr_imp_open zd - of_bool (zbc_zone_imp_open (zones zd ! i) \<and> fills lba count (zones zd ! i)))
    (nr_exp_open zd - of_bool (zbc_zone_exp_open (zones zd ! i) \<and> fills lba count (zones zd ! i)))"
proof -
  let ?z = "zones zd ! i" and ?z1 = "(zones zd ! i)\<lparr>z_wp := wp_after lba count (zones zd ! i)\<rparr>"
  have len: "i < length (zones zd)" using inv i by (simp add: zbc_inv_length)
  have zend: "add64 (z_start ?z) (z_len ?z) = zone_end ?z" by (rule zone_end_add64 [OF inv i])
  have b: "lba + count < 2 ^ 64" using w zone_bounds(2,3) [OF inv i] by (simp add: writable_def)
  have "zbc_zone_seq_req ?z \<Longrightarrow> add64 (z_wp ?z) count = z_wp ?z + count" "add64 lba count = lba + count"
    using w b by (auto simp: writable_def add64_id)
  then have step: "(if zbc_zone_seq_req ?z then upd_zone zd i (\<lambda>z. z\<lparr>z_wp := add64 (z_wp z) count\<rparr>)
      else if zbc_zone_seq_pref ?z \<and> add64 lba count \<ge> z_wp ?z then upd_zone zd i (\<lambda>z. z\<lparr>z_wp := add64 lba count\<rparr>)
      else zd) = zone_upd zd i ?z1 (nr_imp_open zd) (nr_exp_open zd)"
    by (auto simp: upd_zone_def zone_upd_def wp_after_def max_def)
  have cnt: "nr_imp_open zd = length (filter zbc_zone_imp_open (zones zd))"
    "nr_exp_open zd = length (filter zbc_zone_exp_open (zones zd))"
    using inv by (simp_all add: zbc_inv_def counters_ok_def count_zones_def)
  have bd: "nr_imp_open zd < 2 ^ 32" "nr_exp_open zd < 2 ^ 32" using open_count_bound [OF inv] by auto
  have s: "zbc_zone_imp_open ?z \<Longrightarrow> sub32 (nr_imp_open zd) 1 = nr_imp_open zd - 1"
    "zbc_zone_exp_open ?z \<Longrightarrow> sub32 (nr_exp_open zd) 1 = nr_exp_open zd - 1"
    using filter_pos [of i "zones zd" zbc_zone_imp_open, OF len] filter_pos [of i "zones zd" zbc_zone_exp_open, OF len] cnt bd
    by (auto intro!: sub32_id)
  have same: "zbc_zone_seq ?z1 = zbc_zone_seq ?z" "zbc_zone_imp_open ?z1 = zbc_zone_imp_open ?z"
    "zbc_zone_exp_open ?z1 = zbc_zone_exp_open ?z" "zbc_zone_is_open ?z1 = zbc_zone_is_open ?z" "zbc_zone_conv ?z1 = zbc_zone_conv ?z"
    by (simp_all add: zone_type_defs zone_cond_defs)
  have ex: "zbc_zone_imp_open ?z \<Longrightarrow> \<not> zbc_zone_exp_open ?z" by (simp add: zone_cond_defs)
  have nth: "zones (zone_upd zd i ?z1 (nr_imp_open zd) (nr_exp_open zd)) ! i = ?z1" using len by simp
  have cond: "(zbc_zone_seq ?z1 \<and> z_wp ?z1 \<ge> add64 (z_start ?z1) (z_len ?z1)) = fills lba count ?z"
    by (simp add: same fills_def zend)
  show ?thesis
  proof (cases "fills lba count ?z")
    case False
    then show ?thesis
      unfolding zbc_advance_wp_def Let_def step nth cond by (simp add: advance_z_def)
  next
    case True
    then have seq: "\<not> zbc_zone_conv ?z" and opn: "zbc_zone_is_open ?z"
      using w by (auto simp: fills_def zbc_zone_seq_def writable_def)
    have cl: "zbc_close_zone_raw (zone_upd zd i ?z1 (nr_imp_open zd) (nr_exp_open zd)) i =
        zone_upd zd i (?z1\<lparr>z_cond := if z_wp ?z1 = z_start ?z1 then ZBC_ZONE_COND_EMPTY else ZBC_ZONE_COND_CLOSED\<rparr>)
          (nr_imp_open zd - of_bool (zbc_zone_imp_open ?z)) (nr_exp_open zd - of_bool (zbc_zone_exp_open ?z))"
      unfolding zbc_close_zone_raw_def Let_def nth
      using seq opn s ex len by (auto simp: same upd_zone_def zone_upd_def zbc_zone_is_open_def)
    have z1: "zbc_zone_is_open ?z1 = True" "add64 (z_start ?z1) (z_len ?z1) = zone_end ?z" using opn by (simp_all add: same zend)
    show ?thesis
      unfolding zbc_advance_wp_def Let_def step nth cond unfolding z1 using True len
      by (simp add: cl upd_zone_zone_upd advance_z_def)
  qed
qed

lemma advance_z_ok:
  assumes ok: "zone_ok z" and w: "writable lba count z" and ty: "z_type z \<in> {ZBC_ZONE_TYPE_CONVENTIONAL,
      ZBC_ZONE_TYPE_SEQWRITE_REQ, ZBC_ZONE_TYPE_SEQWRITE_PREF}" and len: "0 < z_len z"
  shows "zone_ok (advance_z lba count z)"
proof (cases "zbc_zone_conv z")
  case True
  then show ?thesis
    using ok by (simp add: zone_ok_def advance_z_def fills_def zone_type_defs)
next
  case False
  then have opn: "zbc_zone_is_open z" and seq: "zbc_zone_seq z" using w by (auto simp: writable_def zbc_zone_seq_def)
  then have ne: "\<not> zbc_zone_empty z" "\<not> zbc_zone_full z" by (auto simp: zone_cond_defs)
  have wp: "z_start z \<le> z_wp z" "z_wp z \<le> zone_end z" using ok False by (simp_all add: zone_ok_def)
  have after: "z_start z \<le> wp_after lba count z" "\<not> fills lba count z \<Longrightarrow> wp_after lba count z < zone_end z"
    using wp w seq by (auto simp: wp_after_def fills_def writable_def)
  show ?thesis
  proof (cases "fills lba count z")
    case True
    then show ?thesis using False len by (simp add: zone_ok_def advance_z_def zone_type_defs zone_cond_defs zone_end_def)
  next
    case nf: False
    then show ?thesis
      using False opn ne after by (simp add: zone_ok_def advance_z_def zone_type_defs zone_cond_defs zone_end_def)
  qed
qed

lemma advance_wp_correct:
  assumes inv: "zbc_inv zd" and i: "i < nr_zones zd" and w: "writable lba count (zones zd ! i)"
  shows "zbc_inv (zbc_advance_wp zd i lba count)" "dev_frame zd (zbc_advance_wp zd i lba count)"
    "open_limit zd \<Longrightarrow> open_limit (zbc_advance_wp zd i lba count)"
    "zones (zbc_advance_wp zd i lba count) = (zones zd)[i := advance_z lba count (zones zd ! i)]"
proof -
  let ?z = "zones zd ! i"
  have len: "i < length (zones zd)" using inv i by (simp add: zbc_inv_length)
  note upd = advance_wp_upd [OF inv i w]
  have pos: "zbc_zone_imp_open ?z \<Longrightarrow> 1 \<le> nr_imp_open zd" "zbc_zone_exp_open ?z \<Longrightarrow> 1 \<le> nr_exp_open zd"
    using filter_pos [of i "zones zd" zbc_zone_imp_open, OF len] filter_pos [of i "zones zd" zbc_zone_exp_open, OF len] inv
    by (auto simp: zbc_inv_def counters_ok_def count_zones_def)
  have opn: "zbc_zone_imp_open (advance_z lba count ?z) = (zbc_zone_imp_open ?z \<and> \<not> fills lba count ?z)"
    "zbc_zone_exp_open (advance_z lba count ?z) = (zbc_zone_exp_open ?z \<and> \<not> fills lba count ?z)"
    by (auto simp: advance_z_def zone_cond_defs)
  show "zbc_inv (zbc_advance_wp zd i lba count)"
    unfolding upd
  proof (rule zone_upd_inv [OF inv i])
    show "zone_ok (advance_z lba count ?z)"
      using advance_z_ok [OF zbc_inv_zone_ok [OF inv i] w] zone_bounds(1,4) [OF inv i] by blast
  qed (use pos opn advance_z_place [of lba count ?z] in \<open>auto simp: zone_place_def\<close>)
  show "dev_frame zd (zbc_advance_wp zd i lba count)"
    unfolding upd by (rule zone_upd_frame [OF len]) simp
  show "open_limit (zbc_advance_wp zd i lba count)" if "open_limit zd"
    using that unfolding upd by (simp add: open_limit_def)
  show "zones (zbc_advance_wp zd i lba count) = (zones zd)[i := advance_z lba count ?z]"
    unfolding upd by simp
qed

section \<open>The write loop\<close>

text \<open>\<open>pwrite\<close> never reports more than it was asked to write.\<close>

definition pwrite_ok :: "io_env \<Rightarrow> bool" where
  "pwrite_ok env \<longleftrightarrow> (\<forall>off n. io_pwrite env off n \<le> int n)"

lemma zbc_inv_file [simp]: "zbc_inv (zd\<lparr>zdev_file := f\<rparr>) = zbc_inv zd"
  by (simp add: zbc_inv_def zbc_geom_def zone_geom_def counters_ok_def count_zones_def cong: if_cong)

lemma open_limit_file [simp]: "open_limit (zd\<lparr>zdev_file := f\<rparr>) = open_limit zd"
  by (simp add: open_limit_def)

lemma get_zone_in:
  assumes inv: "zbc_inv zd" and lba: "lba < capacity zd"
  shows "zbc_get_zone zd lba False = Some (lba div zone_size zd)"
  using zone_index_bound [OF inv less_imp_le [OF lba]] zone_index_lt [OF inv lba]
  by (simp add: zbc_get_zone_def Let_def)

text \<open>Sequential write required zones are written at their write pointer.\<close>

definition at_wp :: "zbc_dev \<Rightarrow> nat \<Rightarrow> nat \<Rightarrow> bool" where
  "at_wp zd lba nr \<longleftrightarrow> (let z = zones zd ! (lba div zone_size zd) in 0 < nr \<and> zbc_zone_seq_req z \<longrightarrow> lba = z_wp z)"

lemma write_open_correct:
  assumes inv: "zbc_inv zd" and i: "i < nr_zones zd" and lba: "z_start (zones zd ! i) \<le> lba" "lba < zone_end (zones zd ! i)"
    and wp: "zbc_zone_seq_req (zones zd ! i) \<longrightarrow> lba = z_wp (zones zd ! i)"
    and n: "lba + n \<le> zone_end (zones zd ! i)"
  shows "zbc_inv (write_open zd i)" "dev_frame zd (write_open zd i)"
    "open_limit zd \<Longrightarrow> \<not> (zbc_zone_seq (zones zd ! i) \<and> \<not> zbc_zone_is_open (zones zd ! i) \<and> nr_exp_open zd \<ge> nr_open_zones zd) \<Longrightarrow>
       open_limit (write_open zd i)"
    "writable lba n (zones (write_open zd i) ! i)" "z_wp (zones (write_open zd i) ! i) = z_wp (zones zd ! i)"
proof -
  let ?z = "zones zd ! i" and ?zd1 = "write_open zd i"
  have "zbc_inv ?zd1 \<and> dev_frame zd ?zd1 \<and>
      (open_limit zd \<longrightarrow> \<not> (zbc_zone_seq ?z \<and> \<not> zbc_zone_is_open ?z \<and> nr_exp_open zd \<ge> nr_open_zones zd) \<longrightarrow> open_limit ?zd1) \<and>
      writable lba n (zones ?zd1 ! i) \<and> z_wp (zones ?zd1 ! i) = z_wp ?z"
  proof (cases "zbc_zone_seq ?z \<and> \<not> zbc_zone_is_open ?z")
    case True
    then have "zbc_zone_seq_req ?z \<Longrightarrow> \<not> zbc_zone_full ?z"
      using zbc_inv_zone_ok [OF inv i] wp lba by (auto simp: zone_ok_def zbc_zone_seq_def zone_cond_defs)
    note o = open_raw_correct [OF inv i _ _ this, where explicit = False]
    have "writable lba n (open_z False ?z)"
      using lba n wp by (simp add: writable_def open_z_def zone_type_defs zone_cond_defs zone_end_def)
    with True o(1-4) show ?thesis
      unfolding write_open_def by (auto simp: open_z_def not_le)
  next
    case False
    then show ?thesis
      using inv lba n wp by (auto simp: write_open_def writable_def)
  qed
  then show "zbc_inv ?zd1" "dev_frame zd ?zd1"
    "open_limit zd \<Longrightarrow> \<not> (zbc_zone_seq ?z \<and> \<not> zbc_zone_is_open ?z \<and> nr_exp_open zd \<ge> nr_open_zones zd) \<Longrightarrow> open_limit ?zd1"
    "writable lba n (zones ?zd1 ! i)" "z_wp (zones ?zd1 ! i) = z_wp ?z"
    by blast+
qed

lemma writable_mono: "writable lba n z \<Longrightarrow> k \<le> n \<Longrightarrow> writable lba k z"
  by (auto simp: writable_def)

text \<open>One turn of the loop: \<open>k\<close> of the remaining blocks are written.\<close>

lemma write_turn:
  fixes f :: mem
  assumes inv: "zbc_inv zd" and cap: "lba + nr \<le> capacity zd" "0 < nr" and wp: "at_wp zd lba nr"
    and i: "i = lba div zone_size zd" and fit: "lba + nr \<le> zone_end (zones zd ! i)" and k: "k \<le> nr"
  defines "zd' \<equiv> zbc_advance_wp ((write_open zd i)\<lparr>zdev_file := f\<rparr>) i lba k"
  shows "zbc_inv zd'" "capacity zd' = capacity zd" "lba_size zd' = lba_size zd" "at_wp zd' (lba + k) (nr - k)"
    "open_limit zd \<Longrightarrow> \<not> (zbc_zone_seq (zones zd ! i) \<and> \<not> zbc_zone_is_open (zones zd ! i) \<and> nr_exp_open zd \<ge> nr_open_zones zd) \<Longrightarrow>
       open_limit zd'"
    "dev_frame ((write_open zd i)\<lparr>zdev_file := f\<rparr>) zd'" "dev_frame zd (write_open zd i)"
    "zones zd' ! i = advance_z lba k (zones (write_open zd i) ! i)"
proof -
  let ?z = "zones zd ! i" and ?zd1 = "write_open zd i"
  have lt: "lba < capacity zd" using cap by simp
  have ilt: "i < nr_zones zd" using zone_index_lt [OF inv lt] i by simp
  have pos: "z_start ?z \<le> lba" "lba < zone_end ?z" using zone_index_iff [OF inv ilt lt] i by simp_all
  have wp': "zbc_zone_seq_req ?z \<longrightarrow> lba = z_wp ?z" using wp cap(2) i by (simp add: at_wp_def Let_def)
  note o = write_open_correct [OF inv ilt pos wp' fit]
  let ?zd2 = "?zd1\<lparr>zdev_file := f\<rparr>"
  have inv2: "zbc_inv ?zd2" using o(1) by simp
  have fr: "nr_zones ?zd2 = nr_zones zd" "capacity ?zd2 = capacity zd" "lba_size ?zd2 = lba_size zd" "zone_size ?zd2 = zone_size zd"
    using dev_frame_fields [OF o(2)] by simp_all
  have i2: "i < nr_zones ?zd2" using ilt fr by simp
  have w2: "writable lba k (zones ?zd2 ! i)" using writable_mono [OF o(4) k] by simp
  note a = advance_wp_correct [OF inv2 i2 w2]
  note afr = dev_frame_fields [OF a(2)]
  show "zbc_inv zd'" unfolding zd'_def by (rule a(1))
  show "capacity zd' = capacity zd" "lba_size zd' = lba_size zd" unfolding zd'_def using afr fr by simp_all
  show "dev_frame ?zd2 zd'" "dev_frame zd ?zd1" unfolding zd'_def using a(2) o(2) by simp_all
  show "open_limit zd'"
    if "open_limit zd" "\<not> (zbc_zone_seq ?z \<and> \<not> zbc_zone_is_open ?z \<and> nr_exp_open zd \<ge> nr_open_zones zd)"
    unfolding zd'_def using a(3) o(3) [OF that] by simp
  have len: "i < length (zones ?zd2)" using i2 zbc_inv_length [OF inv2] by simp
  show zi: "zones zd' ! i = advance_z lba k (zones ?zd1 ! i)"
    unfolding zd'_def a(4) using len by simp
  show "at_wp zd' (lba + k) (nr - k)"
  proof (cases "k < nr")
    case True
    have place: "z_start (zones ?zd1 ! i) = z_start ?z" "z_len (zones ?zd1 ! i) = z_len ?z" "z_type (zones ?zd1 ! i) = z_type ?z"
      using dev_frame_place [OF o(2)] ilt zbc_inv_length [OF inv] by simp_all
    have "lba + k < zone_end ?z" using True fit by simp
    then have "(lba + k) div zone_size zd = i"
      using zone_index_iff [OF inv ilt, of "lba + k"] pos(1) True cap(1) by simp
    moreover have "zone_size zd' = zone_size zd" unfolding zd'_def using afr fr by simp
    moreover have "zbc_zone_seq_req (zones ?zd1 ! i) \<Longrightarrow> z_wp (advance_z lba k (zones ?zd1 ! i)) = lba + k"
      using wp' o(5) place \<open>lba + k < zone_end ?z\<close>
      by (auto simp: advance_z_def fills_def wp_after_def zbc_zone_seq_req_def zone_end_def)
    moreover have "zbc_zone_seq_req (advance_z lba k z) = zbc_zone_seq_req z" for z
      by (simp add: advance_z_def zbc_zone_seq_req_def)
    ultimately show ?thesis using zi by (auto simp: at_wp_def Let_def)
  next
    case False
    then show ?thesis by (simp add: at_wp_def Let_def)
  qed
qed

text \<open>A device without its zones, counters and data: what no command changes.\<close>

definition dev_geom :: "zbc_dev \<Rightarrow> zbc_dev" where
  "dev_geom zd = (dev_erase zd)\<lparr>zdev_file := \<lambda>_. 0\<rparr>"

lemma dev_geom_file [simp]: "dev_geom (zd\<lparr>zdev_file := f\<rparr>) = dev_geom zd"
  by (simp add: dev_geom_def dev_erase_def)

lemma dev_frame_geom: "dev_frame zd zd' \<Longrightarrow> dev_geom zd' = dev_geom zd"
  by (simp add: dev_geom_def dev_frame_def)

lemma write_loop_total:
  assumes pw: "pwrite_ok env"
  shows "zbc_inv zd \<Longrightarrow> lba + nr \<le> capacity zd \<Longrightarrow> at_wp zd lba nr \<Longrightarrow> vs \<noteq> [] \<Longrightarrow> 0 < lba_size zd \<Longrightarrow>
    \<exists>sts zd' cmd'. zbc_write_loop env m zd cmd vs nr lba = Some (sts, m, zd', cmd') \<and> zbc_inv zd' \<and>
      (open_limit zd \<longrightarrow> open_limit zd') \<and> dev_geom zd' = dev_geom zd"
proof (induction "iov_total vs" arbitrary: zd vs nr lba rule: less_induct)
  case less
  show ?case
  proof (cases "nr = 0")
    case True
    then show ?thesis using less.prems by (simp add: zbc_write_loop.simps)
  next
    case False
    let ?i = "lba div zone_size zd"
    let ?z = "zones zd ! ?i"
    have lt: "lba < capacity zd" using less.prems(2) False by simp
    have ilt: "?i < nr_zones zd" by (rule zone_index_lt [OF less.prems(1) lt])
    have get: "zbc_get_zone zd lba False = Some ?i" by (rule get_zone_in [OF less.prems(1) lt])
    have zend: "add64 (z_start ?z) (z_len ?z) = zone_end ?z" by (rule zone_end_add64 [OF less.prems(1) ilt])
    have add: "add64 lba k = lba + k" if "k \<le> nr" for k
      using zone_bounds(3) [OF less.prems(1) ilt] less.prems(2) that by (intro add64_id) simp
    obtain v vs1 where vs: "vs = v # vs1" using less.prems(4) by (cases vs) auto
    let ?zd1 = "write_open zd ?i"
    let ?full = "zbc_zone_seq ?z \<and> \<not> zbc_zone_is_open ?z \<and> nr_exp_open zd \<ge> nr_open_zones zd"
    show ?thesis
    proof (cases "lba + nr > zone_end ?z \<or> ?full")
      case True
      then show ?thesis
        using False less.prems(1) unfolding zbc_write_loop.simps [of env m zd]
        by (auto simp: get zend add Let_def zbc_io_fail_def sense_fail_def)
    next
      case ok: False
      then have fit: "lba + nr \<le> zone_end ?z" by simp
      note turn = write_turn [OF less.prems(1,2) _ less.prems(3) refl fit]
      have opn: "zbc_inv ?zd1" "open_limit zd \<longrightarrow> open_limit ?zd1" "lba_size ?zd1 = lba_size zd" "dev_geom ?zd1 = dev_geom zd"
      proof -
        have pos: "z_start ?z \<le> lba" "lba < zone_end ?z" using zone_index_iff [OF less.prems(1) ilt lt] by simp_all
        have wp': "zbc_zone_seq_req ?z \<longrightarrow> lba = z_wp ?z" using less.prems(3) False by (simp add: at_wp_def Let_def)
        note o = write_open_correct [OF less.prems(1) ilt pos wp' fit]
        show "zbc_inv ?zd1" "open_limit zd \<longrightarrow> open_limit ?zd1" using o(1,3) ok by blast+
        show "lba_size ?zd1 = lba_size zd" using dev_frame_fields(5) [OF o(2)] .
        show "dev_geom ?zd1 = dev_geom zd" by (rule dev_frame_geom [OF o(2)])
      qed
      let ?count = "min nr (iov_len v div lba_size ?zd1)"
      let ?off = "meta_size ?zd1 + lba * lba_size ?zd1"
      let ?ret = "io_pwrite env ?off (?count * lba_size ?zd1)"
      have loop: "zbc_write_loop env m zd cmd vs nr lba =
        (if ?ret \<le> 0 then zbc_io_fail m ?zd1 (set_cmd_iovs cmd vs) MEDIUM_ERROR ASC_WRITE_ERROR
         else case tcmu_seek_in_iovec vs (nat ?ret) of None \<Rightarrow> None | Some (c, vs') \<Rightarrow>
            let zd2 = ?zd1\<lparr>zdev_file := mem_write (zdev_file ?zd1) ?off (mem_read m (iov_base v) (nat ?ret))\<rparr>;
                done = nat ?ret div lba_size zd2
            in zbc_write_loop env m (zbc_advance_wp zd2 ?i lba done) cmd vs' (sub64 nr done) (add64 lba done))"
      proof -
        have c: "(nr = 0) = False" "(add64 lba nr > zone_end ?z) = False" "?full = False" using False ok by (simp_all add: add)
        show ?thesis
          unfolding zbc_write_loop.simps [of env m zd cmd vs nr lba] get option.case Let_def zend c if_False
          unfolding vs list.case by (rule refl)
      qed
      show ?thesis
      proof (cases "?ret \<le> 0")
        case True
        then show ?thesis using opn by (simp add: loop zbc_io_fail_def sense_fail_def)
      next
        case pos: False
        let ?done = "nat ?ret div lba_size ?zd1"
        have r: "nat ?ret \<le> ?count * lba_size ?zd1"
          using pw by (simp add: pwrite_ok_def nat_le_iff del: of_nat_mult)
        then have dn: "?done \<le> nr" using div_le_mono [OF r, of "lba_size ?zd1"] less.prems(5) opn(3) by simp
        have "?count * lba_size ?zd1 \<le> iov_len v div lba_size ?zd1 * lba_size ?zd1" by simp
        also have "\<dots> \<le> iov_len v" by simp
        finally have "nat ?ret \<le> iov_total vs" using r vs by simp
        then obtain c vs' where seek: "tcmu_seek_in_iovec vs (nat ?ret) = Some (c, vs')" using seek_defined by blast
        let ?f = "mem_write (zdev_file ?zd1) ?off (mem_read m (iov_base v) (nat ?ret))"
        let ?zd3 = "zbc_advance_wp (?zd1\<lparr>zdev_file := ?f\<rparr>) ?i lba ?done"
        have nr64: "sub64 nr ?done = nr - ?done"
          using dn less.prems(2) zone_bounds(3) [OF less.prems(1) ilt] by (intro sub64_id) simp_all
        have "zbc_write_loop env m zd cmd vs nr lba = zbc_write_loop env m ?zd3 cmd vs' (nr - ?done) (lba + ?done)"
          using pos by (simp add: loop seek Let_def nr64 add [OF dn])
        moreover have "\<exists>sts zd' cmd'. zbc_write_loop env m ?zd3 cmd vs' (nr - ?done) (lba + ?done) = Some (sts, m, zd', cmd') \<and>
            zbc_inv zd' \<and> (open_limit ?zd3 \<longrightarrow> open_limit zd') \<and> dev_geom zd' = dev_geom ?zd3"
        proof (rule less.hyps)
          show "iov_total vs' < iov_total vs" using seek_total [OF seek] seek_Some_le [OF seek] pos by simp
          show "vs' \<noteq> []" using seek_length [OF seek] vs by auto
          show "zbc_inv ?zd3" "at_wp ?zd3 (lba + ?done) (nr - ?done)" "0 < lba_size ?zd3"
            "lba + ?done + (nr - ?done) \<le> capacity ?zd3"
            using turn(1-4) [OF _ dn] False less.prems(2,5) dn by simp_all
        qed
        moreover have "dev_geom ?zd3 = dev_geom zd"
          using dev_frame_geom [OF turn(6) [OF _ dn]] False opn(4) by simp
        ultimately show ?thesis using turn(5) [OF _ dn] False ok by auto
      qed
    qed
  qed
qed

lemma write_check_zones_correct:
  "zbc_inv zd \<Longrightarrow> lba + nr \<le> capacity zd \<Longrightarrow>
   \<exists>sts cmd'. zbc_write_check_zones zd cmd nr lba zt = Some (sts, cmd') \<and>
     (sts = TCMU_STS_OK \<longrightarrow> cmd' = cmd \<and> at_wp zd lba nr)"
proof (induction nr arbitrary: lba zt rule: less_induct)
  case (less nr)
  show ?case
  proof (cases "nr = 0")
    case True
    then show ?thesis by (simp add: zbc_write_check_zones.simps at_wp_def Let_def)
  next
    case False
    let ?i = "lba div zone_size zd"
    let ?z = "zones zd ! ?i"
    have lt: "lba < capacity zd" using less.prems(2) False by simp
    have ilt: "?i < nr_zones zd" by (rule zone_index_lt [OF less.prems(1) lt])
    have get: "zbc_get_zone zd lba False = Some ?i" by (rule get_zone_in [OF less.prems(1) lt])
    have zend: "add64 (z_start ?z) (z_len ?z) = zone_end ?z" by (rule zone_end_add64 [OF less.prems(1) ilt])
    have b: "lba + nr < 2 ^ 64" using zone_bounds(3) [OF less.prems(1) ilt] less.prems(2) by simp
    have pos: "lba < zone_end ?z" using zone_index_iff [OF less.prems(1) ilt lt] by simp
    let ?count = "if lba + nr > zone_end ?z then zone_end ?z - lba else nr"
    have s: "sub64 (zone_end ?z) lba = zone_end ?z - lba"
      using pos zone_bounds(2,3) [OF less.prems(1) ilt] by (intro sub64_id) simp_all
    have c: "0 < ?count" "?count \<le> nr" using pos False by auto
    have a: "add64 lba nr = lba + nr" "add64 lba ?count = lba + ?count" using b c(2) by (auto intro!: add64_id)
    let ?zt = "if zt = 0 then unat (z_type ?z) else zt"
    have rest: "\<exists>sts cmd'. zbc_write_check_zones zd cmd (nr - ?count) (lba + ?count) ?zt = Some (sts, cmd') \<and>
        (sts = TCMU_STS_OK \<longrightarrow> cmd' = cmd \<and> at_wp zd (lba + ?count) (nr - ?count))"
      by (rule less.IH) (use c False less.prems in auto)
    have run: "zbc_write_check_zones zd cmd nr lba zt =
      (if unat (z_type ?z) \<noteq> ?zt \<or> (zbc_zone_seq_req ?z \<and> lba + nr > zone_end ?z)
       then Some (sense_fail cmd ILLEGAL_REQUEST ASC_WRITE_BOUNDARY_VIOLATION)
       else if zbc_zone_seq_req ?z \<and> lba \<noteq> z_wp ?z then
         if zbc_zone_full ?z then Some (sense_fail cmd ILLEGAL_REQUEST ASC_INVALID_FIELD_IN_CDB)
         else Some (sense_fail cmd ILLEGAL_REQUEST ASC_UNALIGNED_WRITE_COMMAND)
       else zbc_write_check_zones zd cmd (nr - ?count) (lba + ?count) ?zt)"
    proof -
      have cc: "(nr = 0) = False" "(?count = 0 \<or> ?count > nr) = False" using c False by auto
      show ?thesis
        unfolding zbc_write_check_zones.simps [of zd cmd nr lba zt] get option.case Let_def zend a(1) s
        unfolding cc if_False a(2) by (rule refl)
    qed
    obtain sts cmd' where R: "zbc_write_check_zones zd cmd (nr - ?count) (lba + ?count) ?zt = Some (sts, cmd')"
      "sts = TCMU_STS_OK \<longrightarrow> cmd' = cmd"
      using rest by blast
    show ?thesis
    proof (cases "zbc_zone_seq_req ?z \<and> lba \<noteq> z_wp ?z")
      case True
      then show ?thesis unfolding run by (simp add: sense_fail_def)
    next
      case False
      then have "at_wp zd lba nr" by (simp add: at_wp_def Let_def)
      with False R(2) show ?thesis unfolding run R(1) by (simp add: sense_fail_def)
    qed
  qed
qed

section \<open>Checking a transfer\<close>

lemma check_rdwr_cases:
  assumes wf: "cmd_wf cmd" and lba: "tcmu_get_lba (cdb cmd) = Some lba" and n: "tcmu_get_xfer_length (cdb cmd) = Some nr"
    and cap: "capacity zd < 2 ^ 63" and ls: "lba_size zd \<le> 4096"
  shows "zbc_check_rdwr zd cmd =
    Some (if iov_total (cmd_iovs cmd) \<noteq> nr * lba_size zd then sense_fail cmd HARDWARE_ERROR ASC_INTERNAL_TARGET_FAILURE
          else if lba + nr > capacity zd then sense_fail cmd ILLEGAL_REQUEST ASC_LBA_OUT_OF_RANGE
          else (TCMU_STS_OK, cmd))"
proof -
  have nr: "nr < 2 ^ 32" and l: "lba < 2 ^ 64" using tcmu_get_xfer_length_bound [OF n] tcmu_get_lba_bound [OF lba] .
  have "nr * lba_size zd \<le> nr * 4096" using ls by (rule mult_le_mono2)
  moreover have "nr * 4096 < 2 ^ 64" using nr by simp
  ultimately have "nr * lba_size zd < 2 ^ 64" by (rule le_less_trans)
  then have "mul64 nr (lba_size zd) = nr * lba_size zd" by (rule mul64_id)
  moreover have "tcmu_iovec_length (cmd_iovs cmd) = iov_total (cmd_iovs cmd)"
    using wf by (simp add: cmd_wf_def tcmu_iovec_length_mod)
  moreover have "(add64 lba nr > capacity zd \<or> add64 lba nr < lba) = (lba + nr > capacity zd)"
  proof (cases "lba + nr < 2 ^ 64")
    case True
    then show ?thesis by (simp add: add64_id)
  next
    case False
    have "(lba + nr) mod 2 ^ 64 = lba + nr - 2 ^ 64" using nr l False by (subst mod_if) simp
    then have "add64 lba nr < lba" using nr l False by (simp add: add64_def)
    then show ?thesis using False cap by simp
  qed
  ultimately show ?thesis by (simp add: zbc_check_rdwr_def lba n)
qed

section \<open>Reading\<close>

text \<open>What a block of the device reads as: blocks above the write pointer are zero.\<close>

definition zbc_block :: "zbc_dev \<Rightarrow> nat \<Rightarrow> byte list" where
  "zbc_block zd lba = (let z = zones zd ! (lba div zone_size zd) in
     if zbc_zone_seq z \<and> lba \<ge> z_wp z then replicate (lba_size zd) 0
     else mem_read (zdev_file zd) (meta_size zd + lba * lba_size zd) (lba_size zd))"

definition zbc_blocks :: "zbc_dev \<Rightarrow> nat \<Rightarrow> nat \<Rightarrow> byte list" where
  "zbc_blocks zd lba n = concat (map (zbc_block zd) [lba..<lba + n])"

lemma length_zbc_block [simp]: "length (zbc_block zd lba) = lba_size zd"
  by (simp add: zbc_block_def Let_def)

lemma length_zbc_blocks [simp]: "length (zbc_blocks zd lba n) = n * lba_size zd"
  using length_concat_block [of "zbc_block zd" "lba_size zd" "[lba..<lba + n]"] by (simp add: zbc_blocks_def)

lemma zbc_blocks_add: "zbc_blocks zd lba (n + k) = zbc_blocks zd lba n @ zbc_blocks zd (lba + n) k"
proof -
  have "[lba..<lba + (n + k)] = [lba..<lba + n] @ [lba + n..<lba + n + k]"
    using upt_add_eq_append [of lba "lba + n" k] by (simp only: add.assoc le_add1)
  then show ?thesis by (simp add: zbc_blocks_def)
qed

lemma zbc_blocks_const:
  assumes "\<And>l. lba \<le> l \<Longrightarrow> l < lba + n \<Longrightarrow> zbc_block zd l = f l"
  shows "zbc_blocks zd lba n = concat (map f [lba..<lba + n])"
proof -
  have "map (zbc_block zd) [lba..<lba + n] = map f [lba..<lba + n]" by (rule map_cong) (use assms in auto)
  then show ?thesis by (simp only: zbc_blocks_def)
qed

lemma concat_mem_read:
  "concat (map (\<lambda>l. mem_read f (a + l * s) s) [lba..<lba + n]) = mem_read f (a + lba * s) (n * s)"
proof (induction n)
  case 0
  then show ?case by simp
next
  case (Suc n)
  have "mem_read f (a + lba * s) (Suc n * s) = mem_read f (a + lba * s) (n * s) @ mem_read f (a + (lba + n) * s) s"
    using mem_read_add [of f "a + lba * s" "n * s" s] by (simp add: algebra_simps)
  with Suc show ?case by simp
qed

lemma concat_zeros: "concat (map (\<lambda>l. replicate s 0) [lba..<lba + n]) = replicate (n * s) 0"
proof (induction n)
  case (Suc n)
  then show ?case by (simp add: add.commute flip: replicate_add)
qed simp

lemma blocks_written:
  assumes "\<And>l. lba \<le> l \<Longrightarrow> l < lba + n \<Longrightarrow>
    zbc_zone_conv (zones zd ! (l div zone_size zd)) \<or> l < z_wp (zones zd ! (l div zone_size zd))"
  shows "zbc_blocks zd lba n = mem_read (zdev_file zd) (meta_size zd + lba * lba_size zd) (n * lba_size zd)"
proof -
  have "zbc_block zd l = mem_read (zdev_file zd) (meta_size zd + l * lba_size zd) (lba_size zd)"
    if "lba \<le> l" "l < lba + n" for l
    using assms [OF that] by (auto simp: zbc_block_def Let_def zbc_zone_seq_def)
  then show ?thesis by (simp only: zbc_blocks_const [of lba n zd] concat_mem_read)
qed

lemma blocks_unwritten:
  assumes "\<And>l. lba \<le> l \<Longrightarrow> l < lba + n \<Longrightarrow>
    zbc_zone_seq (zones zd ! (l div zone_size zd)) \<and> z_wp (zones zd ! (l div zone_size zd)) \<le> l"
  shows "zbc_blocks zd lba n = replicate (n * lba_size zd) 0"
proof -
  have "zbc_block zd l = replicate (lba_size zd) 0" if "lba \<le> l" "l < lba + n" for l
    using assms [OF that] by (auto simp: zbc_block_def Let_def)
  then show ?thesis by (simp only: zbc_blocks_const [of lba n zd] concat_zeros)
qed

definition pread_ok :: "io_env \<Rightarrow> bool" where
  "pread_ok env \<longleftrightarrow> (\<forall>off n. io_pread env off n = int n)"

text \<open>A range of blocks inside one zone.\<close>

definition in_zone :: "zbc_dev \<Rightarrow> nat \<Rightarrow> nat \<Rightarrow> nat \<Rightarrow> bool" where
  "in_zone zd i lba n \<longleftrightarrow> i < nr_zones zd \<and> z_start (zones zd ! i) \<le> lba \<and> lba + n \<le> zone_end (zones zd ! i)"

lemma in_zone_index:
  assumes "zbc_inv zd" and "in_zone zd i lba n" and "lba \<le> l" and "l < lba + n"
  shows "l div zone_size zd = i" "l < capacity zd" "zbc_get_zone zd l False = Some i"
proof -
  have i: "i < nr_zones zd" and "z_start (zones zd ! i) \<le> l" "l < zone_end (zones zd ! i)"
    using assms(2-4) by (auto simp: in_zone_def)
  moreover from this have l: "l < capacity zd" using zone_bounds(2) [OF assms(1) i] by simp
  ultimately show "l div zone_size zd = i" using zone_index_iff [OF assms(1) i l] by simp
  then show "l < capacity zd" "zbc_get_zone zd l False = Some i" using l get_zone_in [OF assms(1) l] by simp_all
qed

lemma read_raw_in_zone:
  assumes inv: "zbc_inv zd" and z: "in_zone zd i lba n" "0 < n" and pr: "pread_ok env"
    and zt: "zt = 0 \<or> zt = unat (z_type (zones zd ! i))"
  shows "zbc_read_raw env zd m buf n lba zt = Some (int n, mem_write m buf (zbc_blocks zd lba n),
    if zdev_model zd = ZBC_HM then unat (z_type (zones zd ! i)) else zt)"
proof -
  let ?z = "zones zd ! i" and ?f = "zdev_file zd" and ?off = "meta_size zd + lba * lba_size zd"
  let ?zt = "if zdev_model zd = ZBC_HM then unat (z_type ?z) else zt"
  have i: "i < nr_zones zd" and st: "z_start ?z \<le> lba" "lba + n \<le> zone_end ?z" using z(1) by (simp_all add: in_zone_def)
  note ix = in_zone_index [OF inv z(1)]
  have b: "zone_end ?z < 2 ^ 63" using zone_bounds(2,3) [OF inv i] by simp
  have zend: "add64 (z_start ?z) (z_len ?z) = zone_end ?z" by (rule zone_end_add64 [OF inv i])
  have a: "add64 lba n = lba + n" using st(2) b by (intro add64_id) simp
  have get: "zbc_get_zone zd lba False = Some i" using ix(3) z(2) by simp
  have ty: "(if zdev_model zd = ZBC_HM \<and> zt = 0 then unat (z_type ?z) else zt) = ?zt"
    "(zdev_model zd = ZBC_HM \<and> zt \<noteq> 0 \<and> zt \<noteq> unat (z_type ?z)) = False"
    using zt by auto
  have pr': "io_pread env off k = int k" for off k using pr by (simp add: pread_ok_def)
  note step = zbc_read_loop.simps [of env zd n m buf n lba zt]
  consider (zero) "zbc_zone_seq ?z" "z_wp ?z \<le> lba"
    | (all) "zbc_zone_conv ?z \<or> lba + n \<le> z_wp ?z"
    | (part) "zbc_zone_seq ?z" "lba < z_wp ?z" "z_wp ?z < lba + n"
    unfolding zbc_zone_seq_def by linarith
  then have "zbc_read_loop env zd n m buf n lba zt = Some (True, mem_write m buf (zbc_blocks zd lba n), ?zt)"
  proof cases
    case zero
    then have "zbc_blocks zd lba n = replicate (n * lba_size zd) 0" using ix(1) by (intro blocks_unwritten) simp
    then show ?thesis
      unfolding step get option.case Let_def ty using zero z(2) by simp
  next
    case all
    then have bl: "zbc_blocks zd lba n = mem_read ?f ?off (n * lba_size zd)" using ix(1) by (intro blocks_written) auto
    have nz: "(zbc_zone_seq ?z \<and> lba \<ge> z_wp ?z) = False"
      "(add64 lba n > (if zbc_zone_seq ?z then z_wp ?z else zone_end ?z)) = False"
      using all st(2) z(2) by (auto simp: zbc_zone_seq_def a)
    show ?thesis
      unfolding step get option.case Let_def ty zend nz if_False
      using z(2) by (simp add: pr' bl zbc_read_loop.simps)
  next
    case part
    let ?k = "z_wp ?z - lba"
    have k: "sub64 (z_wp ?z) lba = ?k" "0 < ?k" "?k < n" using part b st by (auto intro!: sub64_id)
    have nz: "(zbc_zone_seq ?z \<and> lba \<ge> z_wp ?z) = False" "zbc_zone_seq ?z = True" "(add64 lba n > z_wp ?z) = True"
      "(?k > n \<or> ?k = 0) = False" "(n = 0) = False"
      using part a k by auto
    let ?m1 = "mem_write m buf (mem_read ?f ?off (?k * lba_size zd))"
    have first: "zbc_read_loop env zd n m buf n lba zt =
        zbc_read_loop env zd n ?m1 (buf + ?k * lba_size zd) (n - ?k) (lba + ?k) ?zt"
      unfolding step get option.case Let_def ty nz(1,5) if_False unfolding nz(2,3) if_True k(1) unfolding nz(4) if_False
      by (simp add: pr')
    have get2: "zbc_get_zone zd (lba + ?k) False = Some i" using ix(3) [of "lba + ?k"] k by simp
    have c2: "(n - ?k = 0) = False" "(zbc_zone_seq ?z \<and> lba + ?k \<ge> z_wp ?z) = True"
      "(zdev_model zd = ZBC_HM \<and> ?zt \<noteq> 0 \<and> ?zt \<noteq> unat (z_type ?z)) = False"
      "(if zdev_model zd = ZBC_HM \<and> ?zt = 0 then unat (z_type ?z) else ?zt) = ?zt"
      using k part by auto
    have "zbc_read_loop env zd n ?m1 (buf + ?k * lba_size zd) (n - ?k) (lba + ?k) ?zt =
        Some (True, mem_write ?m1 (buf + ?k * lba_size zd) (replicate ((n - ?k) * lba_size zd) 0), ?zt)"
      unfolding zbc_read_loop.simps [of env zd n ?m1] get2 option.case Let_def c2 if_False if_True by (rule refl)
    moreover have "zbc_blocks zd lba ?k = mem_read ?f ?off (?k * lba_size zd)"
      using ix(1) k by (intro blocks_written) auto
    moreover have "zbc_blocks zd (lba + ?k) (n - ?k) = replicate ((n - ?k) * lba_size zd) 0"
      using ix(1) part k by (intro blocks_unwritten) auto
    ultimately show ?thesis
      using first zbc_blocks_add [of zd lba ?k "n - ?k"] k mem_write_append [of m buf "mem_read ?f ?off (?k * lba_size zd)"]
      by simp
  qed
  then show ?thesis by (simp add: zbc_read_raw_def)
qed

lemma mem_write_frame:
  "x \<notin> iov_range v \<Longrightarrow> length bs = iov_len v \<Longrightarrow> mem_write m (iov_base v) bs x = m x"
  by (rule mem_write_out) (auto simp: iov_range_def)

definition whole_blocks :: "nat \<Rightarrow> iovec list \<Rightarrow> bool" where
  "whole_blocks s vs \<longleftrightarrow> list_all (\<lambda>v. 0 < iov_len v \<and> iov_len v mod s = 0) vs"

lemma read_iovs_in_zone:
  assumes inv: "zbc_inv zd" and pr: "pread_ok env" and s: "0 < lba_size zd"
  shows "iovs_disjoint vs \<Longrightarrow> whole_blocks (lba_size zd) vs \<Longrightarrow> in_zone zd i lba (iov_total vs div lba_size zd) \<Longrightarrow>
    zt = 0 \<or> zt = unat (z_type (zones zd ! i)) \<Longrightarrow>
    \<exists>m'. zbc_read_iovs env zd cmd m vs lba zt = Some (TCMU_STS_OK, m', zd, cmd) \<and>
      gather m' vs = zbc_blocks zd lba (iov_total vs div lba_size zd) \<and>
      (\<forall>x. x \<notin> \<Union> (iov_range ` set vs) \<longrightarrow> m' x = m x)"
proof (induction vs arbitrary: m lba zt)
  case Nil
  then show ?case by (simp add: zbc_blocks_def)
next
  case (Cons v vs)
  let ?n = "iov_len v div lba_size zd" and ?r = "iov_total vs div lba_size zd"
  have v: "?n * lba_size zd = iov_len v" "0 < ?n" "whole_blocks (lba_size zd) vs"
    using Cons.prems(2) s by (auto simp: whole_blocks_def)
  have tot: "iov_total (v # vs) div lba_size zd = ?n + ?r"
    using div_mult_self3 [of "lba_size zd" ?n "iov_total vs"] s unfolding v(1) by simp
  have z: "in_zone zd i lba ?n" "in_zone zd i (lba + ?n) ?r" 
    using Cons.prems(3) unfolding tot by (auto simp: in_zone_def)
  let ?m1 = "mem_write m (iov_base v) (zbc_blocks zd lba ?n)"
  let ?zt = "if zdev_model zd = ZBC_HM then unat (z_type (zones zd ! i)) else zt"
  note rd = read_raw_in_zone [OF inv z(1) v(2) pr Cons.prems(4), of m "iov_base v"]
  have "lba + ?n < 2 ^ 64"
    using z(2) zone_bounds(2,3) [OF inv, of i] by (auto simp: in_zone_def)
  then have add: "add64 lba ?n = lba + ?n" by (rule add64_id)
  have disj: "iovs_disjoint vs" "iov_range v \<inter> \<Union> (iov_range ` set vs) = {}"
    using Cons.prems(1) iovs_disjoint_tail_range [OF Cons.prems(1)] by simp_all
  obtain m' where rest: "zbc_read_iovs env zd cmd ?m1 vs (lba + ?n) ?zt = Some (TCMU_STS_OK, m', zd, cmd)"
    "gather m' vs = zbc_blocks zd (lba + ?n) ?r" "\<forall>x. x \<notin> \<Union> (iov_range ` set vs) \<longrightarrow> m' x = ?m1 x"
  proof -
    have "?zt = 0 \<or> ?zt = unat (z_type (zones zd ! i))" using Cons.prems(4) by (simp split: if_split)
    from Cons.IH [OF disj(1) v(3) z(2) this, of ?m1] that show thesis by blast
  qed
  have run: "zbc_read_iovs env zd cmd m (v # vs) lba zt = Some (TCMU_STS_OK, m', zd, cmd)"
    using rd rest(1) v(2) add by simp
  have "mem_read m' (iov_base v) (iov_len v) = mem_read ?m1 (iov_base v) (iov_len v)"
  proof (rule mem_read_cong)
    fix x
    assume "x \<in> {iov_base v ..< iov_base v + iov_len v}"
    then have "x \<in> iov_range v" by (simp add: iov_range_def)
    then have "x \<notin> \<Union> (iov_range ` set vs)" using disj(2) by blast
    then show "m' x = ?m1 x" using rest(3) by blast
  qed
  also have "\<dots> = zbc_blocks zd lba ?n" using mem_read_write_same [of m "iov_base v" "zbc_blocks zd lba ?n"] v(1) by simp
  finally have g: "gather m' (v # vs) = zbc_blocks zd lba (iov_total (v # vs) div lba_size zd)"
    unfolding tot zbc_blocks_add using rest(2) by simp
  have "\<forall>x. x \<notin> \<Union> (iov_range ` set (v # vs)) \<longrightarrow> m' x = m x"
    using rest(3) mem_write_frame [of _ v "zbc_blocks zd lba ?n" m] v(1) by simp
  with run g show ?case by blast
qed

section \<open>A write that \<open>pwrite\<close> completes\<close>

definition pwrite_full :: "io_env \<Rightarrow> bool" where
  "pwrite_full env \<longleftrightarrow> (\<forall>off n. io_pwrite env off n = int n)"

text \<open>The zone can take the blocks: room, write pointer and resources.\<close>

definition write_allowed :: "zbc_dev \<Rightarrow> nat \<Rightarrow> nat \<Rightarrow> nat \<Rightarrow> bool" where
  "write_allowed zd i lba n \<longleftrightarrow> in_zone zd i lba n \<and> 0 < n \<and>
     (zbc_zone_seq_req (zones zd ! i) \<longrightarrow> lba = z_wp (zones zd ! i)) \<and>
     (zbc_zone_seq (zones zd ! i) \<and> \<not> zbc_zone_is_open (zones zd ! i) \<longrightarrow> nr_exp_open zd < nr_open_zones zd)"

lemma check_zones_one:
  assumes inv: "zbc_inv zd" and w: "write_allowed zd i lba nr"
  shows "zbc_write_check_zones zd cmd nr lba 0 = Some (TCMU_STS_OK, cmd)"
proof -
  let ?z = "zones zd ! i"
  have z: "in_zone zd i lba nr" "0 < nr" "zbc_zone_seq_req ?z \<longrightarrow> lba = z_wp ?z" using w by (simp_all add: write_allowed_def)
  have i: "i < nr_zones zd" "lba + nr \<le> zone_end ?z" using z(1) by (simp_all add: in_zone_def)
  have get: "zbc_get_zone zd lba False = Some i" using in_zone_index(3) [OF inv z(1)] z(2) by simp
  have zend: "add64 (z_start ?z) (z_len ?z) = zone_end ?z" by (rule zone_end_add64 [OF inv i(1)])
  have a: "add64 lba nr = lba + nr" using zone_bounds(2,3) [OF inv i(1)] i(2) by (intro add64_id) simp
  have c: "(zbc_zone_seq_req ?z \<and> lba \<noteq> z_wp ?z) = False" using z(3) by simp
  show ?thesis
    unfolding zbc_write_check_zones.simps [of zd cmd nr lba 0] get option.case Let_def zend a c if_False
    using z(2) i(2) by (simp add: zbc_write_check_zones.simps)
qed

text \<open>One turn of the write loop on the first entry, all of it written.\<close>

lemma write_loop_turn:
  assumes inv: "zbc_inv zd" and w: "write_allowed zd i lba nr" and pw: "pwrite_full env"
    and v: "iov_len v = k * lba_size zd" "0 < k" "k \<le> nr" "0 < lba_size zd"
  defines "zd1 \<equiv> write_open zd i"
  shows "zbc_write_loop env m zd cmd (v # vs) nr lba =
    zbc_write_loop env m (zbc_advance_wp (zd1\<lparr>zdev_file := mem_write (zdev_file zd) (meta_size zd + lba * lba_size zd)
        (mem_read m (iov_base v) (iov_len v))\<rparr>) i lba k) cmd
      (v\<lparr>iov_len := 0\<rparr> # vs) (nr - k) (lba + k)"
proof -
  let ?z = "zones zd ! i"
  have z: "in_zone zd i lba nr" "0 < nr" "zbc_zone_seq_req ?z \<longrightarrow> lba = z_wp ?z" using w by (simp_all add: write_allowed_def)
  have i: "i < nr_zones zd" "z_start ?z \<le> lba" "lba + nr \<le> zone_end ?z" using z(1) by (simp_all add: in_zone_def)
  have get: "zbc_get_zone zd lba False = Some i" using in_zone_index(3) [OF inv z(1)] z(2) by simp
  have zend: "add64 (z_start ?z) (z_len ?z) = zone_end ?z" by (rule zone_end_add64 [OF inv i(1)])
  have b: "lba + nr < 2 ^ 64" using zone_bounds(2,3) [OF inv i(1)] i(3) by simp
  have a: "add64 lba nr = lba + nr" "add64 lba k = lba + k" using b v(3) by (simp_all add: add64_id)
  have s: "sub64 nr k = nr - k" using b v(3) by (intro sub64_id) simp_all
  have fr: "dev_frame zd zd1"
    unfolding zd1_def using write_open_correct(2) [OF inv i(1,2) _ z(3) i(3)] i(3) z(2) by simp
  note f = dev_frame_fields [OF fr]
  have c: "(nr = 0) = False" "(lba + nr > zone_end ?z) = False"
    "(zbc_zone_seq ?z \<and> \<not> zbc_zone_is_open ?z \<and> nr_exp_open zd \<ge> nr_open_zones zd) = False"
    using w z i by (auto simp: write_allowed_def)
  have cnt: "min nr (iov_len v div lba_size zd) = k" using v by simp
  have seek: "tcmu_seek_in_iovec (v # vs) (iov_len v) =
      Some (1, v\<lparr>iov_len := 0\<rparr> # vs)"
    using v by (cases vs) simp_all
  have pw': "io_pwrite env off n = int n" for off n using pw by (simp add: pwrite_full_def)
  have d: "iov_len v div lba_size zd = k" using v by simp
  have "0 < iov_len v" using v by simp
  then have nz: "(int (iov_len v) \<le> 0) = False" by simp
  show ?thesis
    unfolding zbc_write_loop.simps [of env m zd cmd "v # vs"] get option.case Let_def zend a(1) c if_False list.case
      zd1_def [symmetric] f cnt v(1) [symmetric] pw' nz nat_int seek prod.case
    by (simp add: d f s a(2))
qed

lemma write_one:
  assumes inv: "zbc_inv zd" and w: "write_allowed zd i lba nr" and pw: "pwrite_full env" and wf: "cmd_wf cmd"
    and rd: "tcmu_get_lba (cdb cmd) = Some lba" "tcmu_get_xfer_length (cdb cmd) = Some nr"
    and ls: "lba_size zd \<in> {512, 4096}" and v: "cmd_iovs cmd = [v]" "iov_len v = nr * lba_size zd"
  obtains zd' cmd' where "zbc_write env m zd cmd = Some (TCMU_STS_OK, m, zd', cmd')" "zbc_inv zd'"
    "zdev_file zd' = mem_write (zdev_file zd) (meta_size zd + lba * lba_size zd) (mem_read m (iov_base v) (iov_len v))"
    "zones zd' ! i = advance_z lba nr (zones (write_open zd i) ! i)" "dev_frame (zd'\<lparr>zdev_file := zdev_file zd\<rparr>) zd"
    "open_limit zd \<Longrightarrow> open_limit zd'"
proof -
  let ?zd1 = "write_open zd i" and ?off = "meta_size zd + lba * lba_size zd" and ?z = "zones zd ! i"
  let ?f = "mem_write (zdev_file zd) ?off (mem_read m (iov_base v) (iov_len v))"
  let ?zd' = "zbc_advance_wp (?zd1\<lparr>zdev_file := ?f\<rparr>) i lba nr"
  have l: "lba_size zd \<le> 4096" "0 < lba_size zd" using ls by auto
  have z: "in_zone zd i lba nr" "0 < nr" "zbc_zone_seq_req ?z \<longrightarrow> lba = z_wp ?z" using w by (simp_all add: write_allowed_def)
  have i: "i < nr_zones zd" "z_start ?z \<le> lba" "lba + nr \<le> zone_end ?z" using z(1) by (simp_all add: in_zone_def)
  have cap: "lba + nr \<le> capacity zd" "capacity zd < 2 ^ 63" using zone_bounds(2,3) [OF inv i(1)] i(3) by simp_all
  have ix: "i = lba div zone_size zd" using in_zone_index(1) [OF inv z(1)] z(2) by simp
  have at: "at_wp zd lba nr" using z(3) ix by (simp add: at_wp_def Let_def)
  note turn = write_turn(1-6,8) [OF inv cap(1) z(2) at ix i(3) order_refl, where f = ?f]
  note fr = write_turn(7) [OF inv cap(1) z(2) at ix i(3) order_refl]
  have "zbc_write_loop env m zd cmd [v] nr lba =
      Some (TCMU_STS_OK, m, ?zd', set_cmd_iovs cmd [v\<lparr>iov_len := 0\<rparr>])"
    using write_loop_turn [OF inv w pw v(2) z(2) order_refl l(2)] by (simp add: zbc_write_loop.simps)
  then have run: "zbc_write env m zd cmd =
      Some (TCMU_STS_OK, m, ?zd', set_cmd_iovs cmd [v\<lparr>iov_len := 0\<rparr>])"
    using check_rdwr_cases [OF wf rd cap(2) l(1)] cap(1) v check_zones_one [OF inv w, of cmd] by (simp add: zbc_write_def rd)
  have fl: "zdev_file ?zd' = ?f" using dev_frame_fields(8) [OF turn(6)] by simp
  have ef: "dev_erase (d\<lparr>zdev_file := f\<rparr>) = (dev_erase d)\<lparr>zdev_file := f\<rparr>" for d f by (simp add: dev_erase_def)
  have er: "dev_erase ?zd' = (dev_erase zd)\<lparr>zdev_file := ?f\<rparr>"
    using turn(6) fr by (simp add: dev_frame_def ef)
  have "dev_frame (?zd'\<lparr>zdev_file := zdev_file zd\<rparr>) zd"
  proof -
    have "dev_erase (?zd'\<lparr>zdev_file := zdev_file zd\<rparr>) = (dev_erase ?zd')\<lparr>zdev_file := zdev_file zd\<rparr>"
      by (simp add: dev_erase_def)
    also have "\<dots> = dev_erase zd" unfolding er by (simp add: dev_erase_def)
    finally show ?thesis using turn(6) fr by (simp add: dev_frame_def)
  qed
  moreover have "open_limit zd \<Longrightarrow> open_limit ?zd'" using turn(5) w by (auto simp: write_allowed_def)
  ultimately show thesis using that [OF run turn(1) fl turn(7)] by blast
qed

lemma write_total:
  assumes inv: "zbc_inv zd" and wf: "cmd_wf cmd" and pw: "pwrite_ok env"
    and op: "drop_bit 5 (cdb cmd 0) \<in> {1, 2, 4, 5}" and ls: "lba_size zd \<in> {512, 4096}"
  shows "\<exists>sts zd' cmd'. zbc_write env m zd cmd = Some (sts, m, zd', cmd') \<and> zbc_inv zd' \<and>
    (open_limit zd \<longrightarrow> open_limit zd') \<and> dev_geom zd' = dev_geom zd"
proof -
  obtain lba nr where rd: "tcmu_get_lba (cdb cmd) = Some lba" "tcmu_get_xfer_length (cdb cmd) = Some nr"
    using op by (auto simp: tcmu_get_lba_def tcmu_get_xfer_length_def tcmu_get_cdb_length_def)
  have l: "lba_size zd \<le> 4096" "0 < lba_size zd" using ls by auto
  have cap: "capacity zd < 2 ^ 63" using inv by (simp add: zbc_inv_def zbc_geom_def)
  note chk = check_rdwr_cases [OF wf rd cap l(1)]
  show ?thesis
  proof (cases "iov_total (cmd_iovs cmd) = nr * lba_size zd \<and> lba + nr \<le> capacity zd")
    case True
    obtain sts cmd' where z: "zbc_write_check_zones zd cmd nr lba 0 = Some (sts, cmd')"
      "sts = TCMU_STS_OK \<longrightarrow> cmd' = cmd \<and> at_wp zd lba nr"
      using write_check_zones_correct [OF inv, of lba nr cmd 0] True by blast
    show ?thesis
    proof (cases "sts = TCMU_STS_OK")
      case ok: True
      have "\<exists>sts zd' cmd'. zbc_write_loop env m zd cmd (cmd_iovs cmd) nr lba = Some (sts, m, zd', cmd') \<and> zbc_inv zd' \<and>
          (open_limit zd \<longrightarrow> open_limit zd') \<and> dev_geom zd' = dev_geom zd"
      proof (cases "nr = 0")
        case True
        then show ?thesis using inv by (simp add: zbc_write_loop.simps)
      next
        case False
        then have "0 < iov_total (cmd_iovs cmd)" using True l(2) by simp
        then have "cmd_iovs cmd \<noteq> []" by auto
        then show ?thesis using write_loop_total [OF pw inv _ _ _ l(2)] True z(2) ok by blast
      qed
      then show ?thesis using True z ok by (simp add: zbc_write_def rd chk)
    next
      case False
      then show ?thesis using True z inv by (simp add: zbc_write_def rd chk)
    qed
  next
    case False
    then show ?thesis using inv by (auto simp: zbc_write_def rd chk sense_fail_def)
  qed
qed

section \<open>Properties\<close>

text \<open>
  C19: WRITE is safe. Whatever \<open>pwrite\<close> returns, errors and short writes included, the command returns a
  status, never reads or writes past an array, keeps the device invariant, the geometry and the limit of open
  zones, and leaves the initiator's memory alone.
\<close>
theorem zbc_write_safe:
  assumes "zbc_inv zd" and "cmd_wf cmd" and "pwrite_ok env"
    and "drop_bit 5 (cdb cmd 0) \<in> {1, 2, 4, 5}" and "lba_size zd \<in> {512, 4096}"
  shows "\<exists>sts zd' cmd'. zbc_write env m zd cmd = Some (sts, m, zd', cmd') \<and> zbc_inv zd' \<and>
    (open_limit zd \<longrightarrow> open_limit zd') \<and> dev_geom zd' = dev_geom zd"
  by (rule write_total [OF assms])

definition rw_cmd :: "byte \<Rightarrow> nat \<Rightarrow> nat \<Rightarrow> iovec list \<Rightarrow> tcmulib_cmd" where
  "rw_cmd op lba n vs = \<lparr>cmd_id = 9, cdb = mk_cdb16 op lba n, iovec = vs, iov_cnt = length vs, sense_buf = replicate 96 0\<rparr>"

lemma rw_cmd_fields:
  assumes "drop_bit 5 op = 4" and "lba < 2 ^ 64" and "n < 2 ^ 32"
  shows "tcmu_get_lba (cdb (rw_cmd op lba n vs)) = Some lba" "tcmu_get_xfer_length (cdb (rw_cmd op lba n vs)) = Some n"
    "cmd_iovs (rw_cmd op lba n vs) = vs" "cdb (rw_cmd op lba n vs) 0 = op"
  using mk_cdb16_readers [OF assms] by (simp_all add: rw_cmd_def cmd_iovs_def mk_cdb16_def)

lemma rw_cmd_wf: "iovs_disjoint vs \<Longrightarrow> iov_total vs < 2 ^ 64 \<Longrightarrow> cmd_wf (rw_cmd op lba n vs)"
  by (simp add: cmd_wf_def rw_cmd_def cmd_iovs_def)

definition posix_env :: io_env where
  "posix_env = \<lparr>io_pread = \<lambda>off n. int n, io_pwrite = \<lambda>off n. int n, io_fsync = 0, io_msync = 0\<rparr>"

lemma posix_env_ok: "pread_ok posix_env" "pwrite_full posix_env" "pwrite_ok posix_env"
  by (simp_all add: posix_env_def pread_ok_def pwrite_full_def pwrite_ok_def)

theorem zbc_write_safe_witness:
  "\<exists>sts zd' cmd'. zbc_write posix_env (\<lambda>_. 7) dev_mixed (rw_cmd 0x8a 10 2 [\<lparr>iov_base = 0, iov_len = 1024\<rparr>]) =
     Some (sts, \<lambda>_. 7, zd', cmd') \<and> zbc_inv zd' \<and> open_limit zd'"
proof -
  let ?c = "rw_cmd 0x8a 10 2 [\<lparr>iov_base = 0, iov_len = 1024\<rparr>]"
  have "cmd_wf ?c" by (rule rw_cmd_wf) simp_all
  moreover have "drop_bit 5 (cdb ?c 0) \<in> {1, 2, 4, 5}" by (simp add: rw_cmd_fields(4))
  moreover have "lba_size dev_mixed \<in> {512, 4096}" by (simp add: sample_defs)
  ultimately show ?thesis
    using zbc_write_safe [OF dev_mixed_inv(1), of ?c posix_env "\<lambda>_. 7"] posix_env_ok(3) dev_mixed_inv(2) by blast
qed

text \<open>
  READ inside one zone. The initiator's buffers receive the blocks of the range, in order, whatever
  way the range is split over buffers of whole blocks; blocks at or above the write pointer of a
  sequential zone read as zeros; no other memory and no device state changes.
\<close>
theorem zbc_read_correct:
  assumes inv: "zbc_inv zd" and wf: "cmd_wf cmd" and pr: "pread_ok env"
    and rd: "tcmu_get_lba (cdb cmd) = Some lba" "tcmu_get_xfer_length (cdb cmd) = Some nr"
    and ls: "lba_size zd \<in> {512, 4096}" and z: "in_zone zd i lba nr"
    and vs: "whole_blocks (lba_size zd) (cmd_iovs cmd)" "iov_total (cmd_iovs cmd) = nr * lba_size zd"
  shows "\<exists>m'. zbc_read env m zd cmd = Some (TCMU_STS_OK, m', zd, cmd) \<and>
    gather m' (cmd_iovs cmd) = zbc_blocks zd lba nr \<and>
    (\<forall>x. x \<notin> \<Union> (iov_range ` set (cmd_iovs cmd)) \<longrightarrow> m' x = m x)"
proof -
  have l: "lba_size zd \<le> 4096" "0 < lba_size zd" using ls by auto
  have i: "i < nr_zones zd" "lba + nr \<le> zone_end (zones zd ! i)" using z by (simp_all add: in_zone_def)
  have cap: "lba + nr \<le> capacity zd" "capacity zd < 2 ^ 63" using zone_bounds(2,3) [OF inv i(1)] i(2) by simp_all
  have n: "iov_total (cmd_iovs cmd) div lba_size zd = nr" using vs(2) l(2) by simp
  have "\<exists>m'. zbc_read_iovs env zd cmd m (cmd_iovs cmd) lba 0 = Some (TCMU_STS_OK, m', zd, cmd) \<and>
      gather m' (cmd_iovs cmd) = zbc_blocks zd lba nr \<and>
      (\<forall>x. x \<notin> \<Union> (iov_range ` set (cmd_iovs cmd)) \<longrightarrow> m' x = m x)"
    using read_iovs_in_zone [OF inv pr l(2), of "cmd_iovs cmd" i lba 0 cmd m] wf vs(1) z unfolding n cmd_wf_def by blast
  then show ?thesis
    using check_rdwr_cases [OF wf rd cap(2) l(1)] vs(2) cap(1) by (simp add: zbc_read_def rd)
qed

theorem zbc_read_correct_witness:
  "\<exists>m'. zbc_read posix_env (\<lambda>_. 7) dev_mixed
       (rw_cmd 0x88 9 3 [\<lparr>iov_base = 0, iov_len = 1024\<rparr>, \<lparr>iov_base = 4096, iov_len = 512\<rparr>]) =
     Some (TCMU_STS_OK, m', dev_mixed, rw_cmd 0x88 9 3 [\<lparr>iov_base = 0, iov_len = 1024\<rparr>, \<lparr>iov_base = 4096, iov_len = 512\<rparr>]) \<and>
     gather m' [\<lparr>iov_base = 0, iov_len = 1024\<rparr>, \<lparr>iov_base = 4096, iov_len = 512\<rparr>] = zbc_blocks dev_mixed 9 3"
proof -
  let ?vs = "[\<lparr>iov_base = 0, iov_len = 1024\<rparr>, \<lparr>iov_base = 4096, iov_len = 512\<rparr>]"
  let ?c = "rw_cmd 0x88 9 3 ?vs"
  have wf: "cmd_wf ?c" by (rule rw_cmd_wf) (simp_all add: iov_range_def)
  have f: "tcmu_get_lba (cdb ?c) = Some 9" "tcmu_get_xfer_length (cdb ?c) = Some 3" "cmd_iovs ?c = ?vs"
    by (rule rw_cmd_fields; simp)+
  have d: "lba_size dev_mixed = 512" "in_zone dev_mixed 1 9 3" by (simp_all add: sample_defs in_zone_def zone_end_def)
  show ?thesis
    using zbc_read_correct [OF dev_mixed_inv(1) wf posix_env_ok(1) f(1,2), of 1 "\<lambda>_. 7"] d
    by (simp add: f(3) whole_blocks_def) blast
qed

text \<open>
  C18: Read after write. A WRITE from one buffer into a zone that can take it (at the write pointer of a
  sequential write required zone, with zone resources left) succeeds, moves the write pointer of a
  sequential write required zone to the end of the written range, keeps the device invariant, and a READ of the
  same range returns exactly the bytes written.
\<close>
theorem read_after_write:
  assumes inv: "zbc_inv zd" and w: "write_allowed zd i lba nr" and env: "pwrite_full env" "pread_ok env"
    and wf: "cmd_wf cmd" "cmd_wf rcmd"
    and rd: "tcmu_get_lba (cdb cmd) = Some lba" "tcmu_get_xfer_length (cdb cmd) = Some nr"
      "tcmu_get_lba (cdb rcmd) = Some lba" "tcmu_get_xfer_length (cdb rcmd) = Some nr"
    and ls: "lba_size zd \<in> {512, 4096}" and v: "cmd_iovs cmd = [v]" "iov_len v = nr * lba_size zd"
    and rv: "whole_blocks (lba_size zd) (cmd_iovs rcmd)" "iov_total (cmd_iovs rcmd) = nr * lba_size zd"
  shows "\<exists>zd' cmd' m'. zbc_write env m zd cmd = Some (TCMU_STS_OK, m, zd', cmd') \<and> zbc_inv zd' \<and>
    (zbc_zone_seq_req (zones zd ! i) \<longrightarrow> z_wp (zones zd' ! i) = lba + nr) \<and>
    zbc_read env m2 zd' rcmd = Some (TCMU_STS_OK, m', zd', rcmd) \<and>
    gather m' (cmd_iovs rcmd) = mem_read m (iov_base v) (iov_len v)"
proof -
  let ?z = "zones zd ! i"
  obtain zd' cmd' where wr: "zbc_write env m zd cmd = Some (TCMU_STS_OK, m, zd', cmd')" "zbc_inv zd'"
    "zdev_file zd' = mem_write (zdev_file zd) (meta_size zd + lba * lba_size zd) (mem_read m (iov_base v) (iov_len v))"
    "zones zd' ! i = advance_z lba nr (zones (write_open zd i) ! i)" "dev_frame (zd'\<lparr>zdev_file := zdev_file zd\<rparr>) zd"
    by (rule write_one [OF inv w env(1) wf(1) rd(1,2) ls v])
  have z: "in_zone zd i lba nr" "0 < nr" "zbc_zone_seq_req ?z \<longrightarrow> lba = z_wp ?z" using w by (simp_all add: write_allowed_def)
  have i: "i < nr_zones zd" "z_start ?z \<le> lba" "lba + nr \<le> zone_end ?z" using z(1) by (simp_all add: in_zone_def)
  have f: "nr_zones zd' = nr_zones zd" "lba_size zd' = lba_size zd" "meta_size zd' = meta_size zd"
    using dev_frame_fields [OF wr(5)] by simp_all
  have place: "z_start (zones zd' ! i) = z_start ?z" "z_len (zones zd' ! i) = z_len ?z" "z_type (zones zd' ! i) = z_type ?z"
    using dev_frame_place [OF wr(5), of i] i(1) f(1) zbc_inv_length [OF wr(2)] by simp_all
  have z': "in_zone zd' i lba nr" using i f(1) place by (simp add: in_zone_def zone_end_def)
  have opn: "z_wp (zones (write_open zd i) ! i) = z_wp ?z" "zone_place (zones (write_open zd i) ! i) = zone_place ?z"
    using write_open_correct(2,5) [OF inv i(1,2) _ z(3) i(3)] i z(2) dev_frame_place [of zd "write_open zd i" i] zbc_inv_length [OF inv]
    by (simp_all add: zone_place_def)
  have wp: "zbc_zone_seq (zones zd' ! i) \<Longrightarrow> lba + nr \<le> z_wp (zones zd' ! i)" and
    req: "zbc_zone_seq_req ?z \<longrightarrow> z_wp (zones zd' ! i) = lba + nr"
    using opn z(3) i(3) zone_bounds(4) [OF inv i(1)] place_zD [OF opn(2)]
    unfolding wr(4) by (auto simp: advance_z_def fills_def wp_after_def zone_type_defs zone_end_def)
  have "zbc_blocks zd' lba nr = mem_read (zdev_file zd') (meta_size zd' + lba * lba_size zd') (nr * lba_size zd')"
  proof (rule blocks_written)
    fix l
    assume l: "lba \<le> l" "l < lba + nr"
    have "zbc_zone_conv (zones zd' ! i) \<or> lba + nr \<le> z_wp (zones zd' ! i)" using wp unfolding zbc_zone_seq_def by blast
    then show "zbc_zone_conv (zones zd' ! (l div zone_size zd')) \<or> l < z_wp (zones zd' ! (l div zone_size zd'))"
      using l in_zone_index(1) [OF wr(2) z' l] by auto
  qed
  also have "\<dots> = mem_read m (iov_base v) (iov_len v)"
    using mem_read_write_same [of "zdev_file zd" _ "mem_read m (iov_base v) (iov_len v)"] v(2) by (simp add: f wr(3))
  finally have "zbc_blocks zd' lba nr = mem_read m (iov_base v) (iov_len v)" .
  moreover have "\<exists>m'. zbc_read env m2 zd' rcmd = Some (TCMU_STS_OK, m', zd', rcmd) \<and>
      gather m' (cmd_iovs rcmd) = zbc_blocks zd' lba nr"
  proof -
    have n: "iov_total (cmd_iovs rcmd) div lba_size zd' = nr" "0 < lba_size zd'" "lba_size zd' \<le> 4096" using rv(2) ls f(2) by auto
    have cap: "lba + nr \<le> capacity zd'" "capacity zd' < 2 ^ 63"
      using zone_bounds(2,3) [OF wr(2), of i] z' by (simp_all add: in_zone_def)
    have "\<exists>m'. zbc_read_iovs env zd' rcmd m2 (cmd_iovs rcmd) lba 0 = Some (TCMU_STS_OK, m', zd', rcmd) \<and>
        gather m' (cmd_iovs rcmd) = zbc_blocks zd' lba nr"
      using read_iovs_in_zone [OF wr(2) env(2) n(2), of "cmd_iovs rcmd" i lba 0 rcmd m2] wf(2) rv(1) z' f(2)
      unfolding n cmd_wf_def by auto
    then show ?thesis
      using check_rdwr_cases [OF wf(2) rd(3,4) cap(2) n(3)] rv(2) cap(1) f(2) by (simp add: zbc_read_def rd)
  qed
  ultimately show ?thesis using wr(1,2) req by auto
qed

theorem read_after_write_witness:
  "\<exists>zd' cmd' m'. zbc_write posix_env (\<lambda>_. 7) dev_mixed (rw_cmd 0x8a 10 2 [\<lparr>iov_base = 0, iov_len = 1024\<rparr>]) =
       Some (TCMU_STS_OK, \<lambda>_. 7, zd', cmd') \<and> z_wp (zones zd' ! 1) = 12 \<and>
     zbc_read posix_env (\<lambda>_. 0) zd' (rw_cmd 0x88 10 2 [\<lparr>iov_base = 0, iov_len = 512\<rparr>, \<lparr>iov_base = 600, iov_len = 512\<rparr>]) =
       Some (TCMU_STS_OK, m', zd', rw_cmd 0x88 10 2 [\<lparr>iov_base = 0, iov_len = 512\<rparr>, \<lparr>iov_base = 600, iov_len = 512\<rparr>]) \<and>
     gather m' [\<lparr>iov_base = 0, iov_len = 512\<rparr>, \<lparr>iov_base = 600, iov_len = 512\<rparr>] = mem_read (\<lambda>_. 7) 0 1024"
proof -
  let ?v = "\<lparr>iov_base = 0, iov_len = 1024\<rparr>" and ?vs = "[\<lparr>iov_base = 0, iov_len = 512\<rparr>, \<lparr>iov_base = 600, iov_len = 512\<rparr>]"
  let ?c = "rw_cmd 0x8a 10 2 [?v]" and ?r = "rw_cmd 0x88 10 2 ?vs"
  have wf: "cmd_wf ?c" "cmd_wf ?r" by (rule rw_cmd_wf; simp add: iov_range_def)+
  have f: "tcmu_get_lba (cdb ?c) = Some 10" "tcmu_get_xfer_length (cdb ?c) = Some 2"
    "tcmu_get_lba (cdb ?r) = Some 10" "tcmu_get_xfer_length (cdb ?r) = Some 2"
    and iv: "cmd_iovs ?c = [?v]" "cmd_iovs ?r = ?vs"
    by (rule rw_cmd_fields; simp)+
  have d: "lba_size dev_mixed = 512" "write_allowed dev_mixed 1 10 2" "zbc_zone_seq_req (zones dev_mixed ! 1)"
    by (simp_all add: sample_defs write_allowed_def in_zone_def zone_end_def zone_type_defs)
  show ?thesis
    using read_after_write [OF dev_mixed_inv(1) d(2) posix_env_ok(2,1) wf f _ iv(1), of "\<lambda>_. 7" "\<lambda>_. 0"] d(1,3)
    by (simp add: iv(2) whole_blocks_def) blast
qed

text \<open>
  C32: A WRITE whose data is in more than one buffer fails. The loop keeps looking at the first
  entry, which is empty after the first turn, so it asks \<open>pwrite\<close> for zero bytes and reports a medium error, although
  the first \<open>k\<close> blocks are on the medium and the write pointer has moved past them.
\<close>
theorem write_multi_iovec_fails:
  assumes inv: "zbc_inv zd" and w: "write_allowed zd i lba nr" and env: "pwrite_full env" and wf: "cmd_wf cmd"
    and rd: "tcmu_get_lba (cdb cmd) = Some lba" "tcmu_get_xfer_length (cdb cmd) = Some nr"
    and ls: "lba_size zd \<in> {512, 4096}" and vs: "cmd_iovs cmd = v # vs" "iov_total (v # vs) = nr * lba_size zd"
    and k: "iov_len v = k * lba_size zd" "0 < k" "k < nr" and req: "zbc_zone_seq_req (zones zd ! i)"
  shows "\<exists>zd' cmd'. zbc_write env m zd cmd = Some (TCMU_STS_PASSTHROUGH_ERR, m, zd', cmd') \<and>
    sense_buf cmd' = tcmu_set_sense_data (sense_buf cmd) MEDIUM_ERROR ASC_WRITE_ERROR \<and>
    z_wp (zones zd' ! i) = lba + k \<and> z_wp (zones zd ! i) = lba"
proof -
  let ?z = "zones zd ! i" and ?off = "meta_size zd + lba * lba_size zd"
  let ?f = "mem_write (zdev_file zd) ?off (mem_read m (iov_base v) (iov_len v))"
  let ?zd' = "zbc_advance_wp ((write_open zd i)\<lparr>zdev_file := ?f\<rparr>) i lba k"
  let ?vs' = "v\<lparr>iov_len := 0\<rparr> # vs"
  have l: "lba_size zd \<le> 4096" "0 < lba_size zd" using ls by auto
  have z: "in_zone zd i lba nr" "0 < nr" "zbc_zone_seq_req ?z \<longrightarrow> lba = z_wp ?z" using w by (simp_all add: write_allowed_def)
  have i: "i < nr_zones zd" "z_start ?z \<le> lba" "lba + nr \<le> zone_end ?z" using z(1) by (simp_all add: in_zone_def)
  have cap: "lba + nr \<le> capacity zd" "capacity zd < 2 ^ 63" using zone_bounds(2,3) [OF inv i(1)] i(3) by simp_all
  have ix: "i = lba div zone_size zd" using in_zone_index(1) [OF inv z(1)] z(2) by simp
  have at: "at_wp zd lba nr" using z(3) ix by (simp add: at_wp_def Let_def)
  note turn = write_turn(1-6,8) [OF inv cap(1) z(2) at ix i(3) less_imp_le [OF k(3)], where f = ?f]
  note fr = write_turn(7) [OF inv cap(1) z(2) at ix i(3) less_imp_le [OF k(3)]]
  have place: "zone_place (zones (write_open zd i) ! i) = zone_place ?z"
    using dev_frame_place [OF fr] i(1) zbc_inv_length [OF inv] by (simp add: zone_place_def)
  have opn: "writable lba nr (zones (write_open zd i) ! i)" "z_wp (zones (write_open zd i) ! i) = z_wp ?z"
    using write_open_correct(4,5) [OF inv i(1,2) _ z(3) i(3)] i z(2) by simp_all
  have req1: "zbc_zone_seq_req (zones (write_open zd i) ! i)" "zbc_zone_seq (zones (write_open zd i) ! i)"
    using req place_zD(3) [OF place] by (simp_all add: zone_type_defs)
  have nf: "\<not> fills lba k (zones (write_open zd i) ! i)"
    using k(3) i(3) req req1 opn z(3) place_zD [OF place] by (simp add: fills_def wp_after_def zone_end_def)
  have z2: "zones ?zd' ! i = (zones (write_open zd i) ! i)\<lparr>z_wp := lba + k\<rparr>"
    unfolding turn(7) advance_z_def using nf req req1 opn z(3) by (simp add: wp_after_def)
  have open2: "zbc_zone_is_open (zones ?zd' ! i)" using opn(1) req1 unfolding z2 writable_def by (simp add: zone_cond_defs)
  have nz: "nr_zones ?zd' = nr_zones zd"
    using dev_frame_fields(1) [OF turn(6)] dev_frame_fields(1) [OF fr] by simp
  have z3: "in_zone ?zd' i (lba + k) (nr - k)"
    unfolding in_zone_def z2 nz using i k(3) place_zD [OF place] by (simp add: zone_end_def)
  have get: "zbc_get_zone ?zd' (lba + k) False = Some i" using in_zone_index(3) [OF turn(1) z3] k(3) by simp
  have i3: "i < nr_zones ?zd'" using i(1) nz by simp
  have zend: "add64 (z_start (zones ?zd' ! i)) (z_len (zones ?zd' ! i)) = zone_end (zones ?zd' ! i)"
    by (rule zone_end_add64 [OF turn(1) i3])
  have fit: "lba + nr \<le> zone_end (zones ?zd' ! i)" using z3 k(3) by (simp add: in_zone_def)
  have a: "add64 (lba + k) (nr - k) = lba + nr" using cap k(3) by (subst add64_id) simp_all
  have wo: "write_open ?zd' i = ?zd'" using open2 by (simp add: write_open_def)
  have stop: "zbc_write_loop env m ?zd' cmd ?vs' (nr - k) (lba + k) =
      zbc_io_fail m ?zd' (set_cmd_iovs cmd ?vs') MEDIUM_ERROR ASC_WRITE_ERROR"
  proof -
    have c: "(nr - k = 0) = False" "(zone_end (zones ?zd' ! i) < lba + nr) = False"
      "(zbc_zone_seq (zones ?zd' ! i) \<and> \<not> zbc_zone_is_open (zones ?zd' ! i) \<and> nr_exp_open ?zd' \<ge> nr_open_zones ?zd') = False"
      using k(3) fit open2 by auto
    show ?thesis
      unfolding zbc_write_loop.simps [of env m ?zd' cmd ?vs'] get option.case Let_def zend a c if_False wo list.case
      using env by (simp add: pwrite_full_def)
  qed
  have "zbc_write_loop env m zd cmd (v # vs) nr lba = zbc_io_fail m ?zd' (set_cmd_iovs cmd ?vs') MEDIUM_ERROR ASC_WRITE_ERROR"
    using write_loop_turn [OF inv w env k(1,2) less_imp_le [OF k(3)] l(2), of m cmd vs] stop by simp
  then have "zbc_write env m zd cmd = zbc_io_fail m ?zd' (set_cmd_iovs cmd ?vs') MEDIUM_ERROR ASC_WRITE_ERROR"
    using check_rdwr_cases [OF wf rd cap(2) l(1)] cap(1) vs check_zones_one [OF inv w, of cmd] by (simp add: zbc_write_def rd)
  then show ?thesis
    using z(3) req z2 by (simp add: zbc_io_fail_def sense_fail_def set_cmd_iovs_def)
qed

theorem write_multi_iovec_fails_witness:
  "\<exists>zd' cmd'. zbc_write posix_env (\<lambda>_. 7) dev_mixed
       (rw_cmd 0x8a 10 2 [\<lparr>iov_base = 0, iov_len = 512\<rparr>, \<lparr>iov_base = 512, iov_len = 512\<rparr>]) =
     Some (TCMU_STS_PASSTHROUGH_ERR, \<lambda>_. 7, zd', cmd') \<and> z_wp (zones zd' ! 1) = 11"
proof -
  let ?v = "\<lparr>iov_base = 0, iov_len = 512\<rparr>" and ?vs = "[\<lparr>iov_base = 512, iov_len = 512\<rparr>]"
  let ?c = "rw_cmd 0x8a 10 2 (?v # ?vs)"
  have wf: "cmd_wf ?c" by (rule rw_cmd_wf) (simp_all add: iov_range_def)
  have f: "tcmu_get_lba (cdb ?c) = Some 10" "tcmu_get_xfer_length (cdb ?c) = Some 2" and iv: "cmd_iovs ?c = ?v # ?vs"
    by (rule rw_cmd_fields; simp)+
  have d: "lba_size dev_mixed = 512" "write_allowed dev_mixed 1 10 2" "zbc_zone_seq_req (zones dev_mixed ! 1)"
    by (simp_all add: sample_defs write_allowed_def in_zone_def zone_end_def zone_type_defs)
  show ?thesis
    using write_multi_iovec_fails [OF dev_mixed_inv(1) d(2) posix_env_ok(2) wf f _ iv, of 1 "\<lambda>_. 7"] d(1,3)
    by simp blast
qed

text \<open>A full zone followed by one whose write pointer is three blocks in.\<close>

definition dev_cross :: zbc_dev where
  "dev_cross = sample_dev [sample_zone 8 8 16 ZBC_ZONE_COND_FULL, sample_zone 16 8 19 ZBC_ZONE_COND_CLOSED,
     sample_zone 24 6 24 ZBC_ZONE_COND_EMPTY] 0 0"

text \<open>
  A READ that crosses from one zone into the next can write past the end of the initiator's buffer. The
  length left in a zone is compared with the whole length of the buffer instead of what remains
  of it: here 4 blocks at LBA 14, of which 2 are in the second zone, make the code fetch 3.
\<close>
theorem read_crossing_overruns:
  "\<exists>zd cmd lba nr. zbc_inv zd \<and> cmd_wf cmd \<and> tcmu_get_lba (cdb cmd) = Some lba \<and>
     tcmu_get_xfer_length (cdb cmd) = Some nr \<and> lba + nr \<le> capacity zd \<and>
     iov_total (cmd_iovs cmd) = nr * lba_size zd \<and> zbc_read posix_env (\<lambda>_. 0) zd cmd = None"
proof (intro exI conjI)
  let ?v = "\<lparr>iov_base = 0, iov_len = 2048\<rparr>"
  let ?c = "rw_cmd 0x88 14 4 [?v]"
  show inv: "zbc_inv dev_cross"
    by (simp add: zbc_inv_def zbc_geom_def zone_geom_def zone_end_def seq_type_of_def zone_ok_def counters_ok_def
      count_zones_def zone_type_defs zone_cond_defs sample_defs dev_cross_def)
  show wf: "cmd_wf ?c" by (rule rw_cmd_wf) simp_all
  show f: "tcmu_get_lba (cdb ?c) = Some 14" "tcmu_get_xfer_length (cdb ?c) = Some 4" by (rule rw_cmd_fields; simp)+
  have iv: "cmd_iovs ?c = [?v]" by (rule rw_cmd_fields) simp_all
  have d: "capacity dev_cross = 30" "lba_size dev_cross = 512" "zone_size dev_cross = 8" "nr_zones dev_cross = 4"
    "zdev_model dev_cross = ZBC_HM" "zones dev_cross ! Suc 0 = sample_zone 8 8 16 ZBC_ZONE_COND_FULL"
    "zones dev_cross ! 2 = sample_zone 16 8 19 ZBC_ZONE_COND_CLOSED"
    by (simp_all add: dev_cross_def sample_dev_def)
  show "14 + 4 \<le> capacity dev_cross" "iov_total (cmd_iovs ?c) = 4 * lba_size dev_cross" by (simp_all add: d iv)
  have second: "zbc_read_loop posix_env dev_cross 4 m b 2 16 2 = None" for m b
    by (simp add: zbc_read_loop.simps [of posix_env dev_cross 4 m b 2] zbc_get_zone_def u32_def d sample_zone_def Let_def
        zone_type_defs add64_def sub64_def)
  have "zbc_read_loop posix_env dev_cross 4 m 0 4 14 0 = None" for m
    by (simp add: zbc_read_loop.simps [of posix_env dev_cross 4 m 0 4] zbc_get_zone_def u32_def d sample_zone_def Let_def
        zone_type_defs add64_def sub64_def posix_env_def [THEN arg_cong, of io_pread] second)
  then show "zbc_read posix_env (\<lambda>_. 0) dev_cross ?c = None"
    using check_rdwr_cases [OF wf f, of dev_cross] by (simp add: zbc_read_def f iv d zbc_read_raw_def)
qed

end
