(* ===== verification/Tcmu_Emul.thy ===== *)
theory Tcmu_Emul
  imports Tcmu_Device "HOL-Library.Monad_Syntax"
begin

unbundle bit_operations_syntax

text \<open>
  The SCSI commands that \<open>api.c\<close> emulates for every handler: INQUIRY with its vital product data
  pages, READ CAPACITY, MODE SENSE, MODE SELECT, START STOP UNIT and TEST UNIT READY.
  Buffers are byte lists of the length the code declares; a write that does not fit is \<open>None\<close>.
  What the code reads from configfs (the unit serial number) is a parameter.
\<close>

section \<open>Buffers and strings\<close>

definition put_at :: "byte list \<Rightarrow> nat \<Rightarrow> byte list \<Rightarrow> byte list option" where
  "put_at data off bs = (if off + length bs \<le> length data then Some (buf_put data off bs) else None)"

definition bytes_of :: "string \<Rightarrow> byte list" where
  "bytes_of s = map of_char s"

text \<open>\<open>snprintf(&data[off], size, "%s", s)\<close>: at most \<open>size\<close> bytes with the final zero; the result is the full length.\<close>

definition snprintf :: "byte list \<Rightarrow> nat \<Rightarrow> nat \<Rightarrow> string \<Rightarrow> (nat \<times> byte list) option" where
  "snprintf data off sz s =
     (case put_at data off (if sz = 0 then [] else take (sz - 1) (bytes_of s) @ [0]) of
        None \<Rightarrow> None | Some data' \<Rightarrow> Some (length s, data'))"

definition char_to_hex :: "char \<Rightarrow> byte option" where
  "char_to_hex c = (let v = (of_char c :: nat) in
     if 48 \<le> v \<and> v \<le> 57 then Some (of_nat (v - 48))
     else if 97 \<le> v \<and> v \<le> 102 then Some (of_nat (v - 97 + 10))
     else if 65 \<le> v \<and> v \<le> 70 then Some (of_nat (v - 65 + 10))
     else None)"

definition hex_digit :: "nat \<Rightarrow> char" where
  "hex_digit d = (if d < 10 then char_of (48 + d) else char_of (87 + d))"

text \<open>\<open>%04x\<close> of a 16-bit value.\<close>

definition hex4 :: "nat \<Rightarrow> string" where
  "hex4 n = map (\<lambda>k. hex_digit (n div 16 ^ k mod 16)) [3, 2, 1, 0]"

section \<open>Ports\<close>

record alua_grp =
  grp_state :: byte
  grp_supported_states :: byte
  grp_tpgs :: byte
  grp_status :: byte
  grp_implicit_trans_secs :: byte
  grp_pref :: bool
  grp_id :: nat
  grp_num_tgt_ports :: nat

record tgt_port =
  rel_port_id :: nat
  proto_id :: byte
  port_wwn :: string
  port_enabled :: bool
  port_tpgt :: nat
  port_grp :: alua_grp

section \<open>INQUIRY\<close>

type_synonym emul_result = "(tcmu_sts \<times> mem \<times> tcmulib_cmd) option"

definition emul_respond :: "mem \<Rightarrow> tcmulib_cmd \<Rightarrow> byte list \<Rightarrow> nat \<Rightarrow> emul_result" where
  "emul_respond m cmd data len =
     (case cmd_respond m cmd data len of (c, m', cmd') \<Rightarrow> Some (TCMU_STS_OK, m', cmd'))"

definition std_inquiry_data :: "tgt_port option \<Rightarrow> byte list" where
  "std_inquiry_data port =
     [0, 0, 0x05, 0x02, 31, (case port of None \<Rightarrow> 0x08 | Some p \<Rightarrow> 0x08 OR grp_tpgs (port_grp p)), 0, 0x02] @
     bytes_of ''LIO-ORG '' @ bytes_of ''TCMU device'' @ replicate 5 0x20 @ bytes_of ''0002''"

definition tcmu_emulate_std_inquiry :: "mem \<Rightarrow> tgt_port option \<Rightarrow> tcmulib_cmd \<Rightarrow> emul_result" where
  "tcmu_emulate_std_inquiry m port cmd = emul_respond m cmd (std_inquiry_data port) 36"

definition evpd_supported :: "byte list" where
  "evpd_supported = [0, 0, 0, 6, 0x00, 0x80, 0x83, 0xb0, 0xb1, 0xb2] @ replicate 6 0"

definition evpd_serial :: "string \<Rightarrow> byte list option" where
  "evpd_serial wwn = do {
     (len, data) \<leftarrow> snprintf ((replicate 512 0)[1 := 0x80]) 4 256 wwn;
     Some (data[3 := of_nat (len + 1)])
   }"

text \<open>One nibble of the serial number per hexadecimal digit, bytes 7 to 19 of the designator at \<open>p\<close>.\<close>

fun naa_fill :: "byte list \<Rightarrow> nat \<Rightarrow> string \<Rightarrow> nat \<Rightarrow> bool \<Rightarrow> byte list" where
  "naa_fill data p [] i nxt = data"
| "naa_fill data p (c # cs) i nxt =
     (if i < 20 then
        case char_to_hex c of
          None \<Rightarrow> naa_fill data p cs i nxt
        | Some v \<Rightarrow> if nxt then naa_fill (data[p + i := data ! (p + i) OR v]) p cs (Suc i) False
                    else naa_fill (data[p + i := push_bit 4 v]) p cs i True
      else data)"

text \<open>The T10 vendor and the NAA designator, the same for every device; returns the bytes used.\<close>

definition evpd_83_ids :: "byte list \<Rightarrow> string \<Rightarrow> (nat \<times> byte list) option" where
  "evpd_83_ids data wwn = do {
     data \<leftarrow> put_at data 4 [2, 1];
     data \<leftarrow> put_at data 8 (bytes_of ''LIO-ORG '');
     (len, data) \<leftarrow> snprintf data 16 (512 - 16) wwn;
     let l = (of_nat (8 + len + 1) :: byte);
     data \<leftarrow> put_at data 7 [l];
     let used = unat l + 4;
     let p = 4 + used;
     data \<leftarrow> put_at data p [1, 3];
     data \<leftarrow> put_at data (p + 3) [16];
     data \<leftarrow> put_at data (p + 4) [0x60, 0x01, 0x40, 0x50];
     Some (used + 20, naa_fill data p wwn 7 True)
   }"

text \<open>
  The vendor specific designator. The size given to \<open>snprintf\<close> is the space behind \<open>data[used + 4]\<close>,
  but the string goes to \<open>data[used + 8]\<close>.
\<close>

definition evpd_83_vendor :: "byte list \<Rightarrow> nat \<Rightarrow> string \<Rightarrow> (nat \<times> byte list) option" where
  "evpd_83_vendor data used cfg = do {
     let p = 4 + used;
     data \<leftarrow> put_at data p [2, 0];
     (len, data) \<leftarrow> snprintf data (p + 4) (sub64 (sub64 512 used) 4) cfg;
     let l = (of_nat (len + 1) :: byte);
     data \<leftarrow> put_at data (p + 3) [l];
     Some (used + unat l + 4, data)
   }"

definition pad4 :: "nat \<Rightarrow> nat" where
  "pad4 len = min 256 (len + (4 - len mod 4) mod 4)"

definition evpd_83_port :: "byte list \<Rightarrow> nat \<Rightarrow> tgt_port \<Rightarrow> (nat \<times> byte list) option" where
  "evpd_83_port data used port = do {
     let id0 = (push_bit 4 (proto_id port) :: byte);
     data \<leftarrow> put_at data (4 + used) [id0 OR 0x1, 0x80 OR 0x10 OR 0x4];
     data \<leftarrow> put_at data (4 + used + 3) [4];
     data \<leftarrow> put_at data (4 + used + 6) (be_enc 2 (rel_port_id port));
     let used = used + 8;
     data \<leftarrow> put_at data (4 + used) [id0 OR 0x1, 0x80 OR 0x10 OR 0x5];
     data \<leftarrow> put_at data (4 + used + 3) [4];
     data \<leftarrow> put_at data (4 + used + 6) (be_enc 2 (grp_id (port_grp port)));
     let used = used + 8;
     data \<leftarrow> put_at data (4 + used) [id0 OR 0x3, 0x80 OR 0x10 OR 0x8];
     (len, data) \<leftarrow> snprintf data (4 + used + 4) (sub64 (sub64 512 used) 4) (port_wwn port @ '',t,0x'' @ hex4 (port_tpgt port));
     let len = pad4 (len + 1);
     data \<leftarrow> put_at data (4 + used + 3) [of_nat len];
     let used = used + len + 4;
     data \<leftarrow> put_at data (4 + used) [id0 OR 0x3, 0x80 OR 0x20 OR 0x8];
     (len, data) \<leftarrow> snprintf data (4 + used + 4) (sub64 (sub64 512 used) 4) (port_wwn port);
     let len = pad4 (len + 1);
     data \<leftarrow> put_at data (4 + used + 3) [of_nat len];
     Some (used + len + 4, data)
   }"

definition evpd_83 :: "tcmu_device \<Rightarrow> tgt_port option \<Rightarrow> string \<Rightarrow> (nat \<times> byte list) option" where
  "evpd_83 dev port wwn = do {
     (used, data) \<leftarrow> evpd_83_ids ((replicate 512 0)[1 := 0x83]) wwn;
     (used, data) \<leftarrow> evpd_83_vendor data used (cfgstring dev);
     (used, data) \<leftarrow> (case port of None \<Rightarrow> Some (used, data) | Some p \<Rightarrow> evpd_83_port data used p);
     data \<leftarrow> put_at data 2 (be_enc 2 (u16 used));
     Some (used + 4, data)
   }"

abbreviation (input) VPD_MAX_UNMAP_LBA_COUNT :: nat where "VPD_MAX_UNMAP_LBA_COUNT \<equiv> 33554432"
abbreviation (input) VPD_MAX_UNMAP_BLOCK_DESC_COUNT :: nat where "VPD_MAX_UNMAP_BLOCK_DESC_COUNT \<equiv> 4"
abbreviation (input) VPD_MAX_WRITE_SAME_LENGTH :: nat where "VPD_MAX_WRITE_SAME_LENGTH \<equiv> 0xFFFFFFFF"

definition evpd_block_limits :: "tcmu_device \<Rightarrow> bool \<Rightarrow> byte list" where
  "evpd_block_limits dev has_unmap =
     (let xl = be_enc 4 (tcmu_get_dev_max_xfer_len dev);
          align = be_enc 4 (tcmu_get_dev_unmap_gran_align dev)
      in [0, 0xb0] @ be_enc 2 0x3c @ [0x01, 0x01, 0, 0] @ xl @ xl @ [0, 0, 0, 0] @
         (if has_unmap then be_enc 4 VPD_MAX_UNMAP_LBA_COUNT @ be_enc 4 VPD_MAX_UNMAP_BLOCK_DESC_COUNT @
            be_enc 4 (tcmu_get_dev_opt_unmap_gran dev) @ align[0 := align ! 0 OR 0x80]
          else replicate 16 0) @
         be_enc 8 VPD_MAX_WRITE_SAME_LENGTH @ replicate 20 0)"

definition evpd_block_char :: "tcmu_device \<Rightarrow> byte list" where
  "evpd_block_char dev = [0x00, 0xb1] @ be_enc 2 0x003c @
     (if tcmu_get_dev_solid_state_media dev then be_enc 2 0x0001 else [0, 0]) @ replicate 58 0"

definition evpd_provisioning :: "bool \<Rightarrow> byte list" where
  "evpd_provisioning has_unmap = [0x00, 0xb2] @ be_enc 2 0x0004 @ [0, if has_unmap then 0x04 OR 0xe0 else 0x04] @ replicate 58 0"

definition tcmu_emulate_evpd_inquiry ::
  "mem \<Rightarrow> tcmu_device \<Rightarrow> bool \<Rightarrow> string option \<Rightarrow> tgt_port option \<Rightarrow> tcmulib_cmd \<Rightarrow> emul_result" where
  "tcmu_emulate_evpd_inquiry m dev has_unmap wwn port cmd =
     (if cdb cmd 2 = 0x00 then emul_respond m cmd evpd_supported 16
      else if cdb cmd 2 = 0x80 then
        case wwn of None \<Rightarrow> Some (TCMU_STS_HW_ERR, m, cmd) | Some w \<Rightarrow>
        (case evpd_serial w of None \<Rightarrow> None | Some data \<Rightarrow> emul_respond m cmd data 512)
      else if cdb cmd 2 = 0x83 then
        case wwn of None \<Rightarrow> Some (TCMU_STS_HW_ERR, m, cmd) | Some w \<Rightarrow>
        (case evpd_83 dev port w of None \<Rightarrow> None | Some (len, data) \<Rightarrow>
           if len \<le> 512 then emul_respond m cmd data len else None)
      else if cdb cmd 2 = 0xb0 then emul_respond m cmd (evpd_block_limits dev has_unmap) 64
      else if cdb cmd 2 = 0xb1 then emul_respond m cmd (evpd_block_char dev) 64
      else if cdb cmd 2 = 0xb2 then emul_respond m cmd (evpd_provisioning has_unmap) 64
      else Some (TCMU_STS_INVALID_CDB, m, cmd))"

definition tcmu_emulate_inquiry ::
  "mem \<Rightarrow> tcmu_device \<Rightarrow> bool \<Rightarrow> string option \<Rightarrow> tgt_port option \<Rightarrow> tcmulib_cmd \<Rightarrow> emul_result" where
  "tcmu_emulate_inquiry m dev has_unmap wwn port cmd =
     (if cdb cmd 1 AND 0x01 = 0 then
        if cdb cmd 2 = 0 then tcmu_emulate_std_inquiry m port cmd else Some (TCMU_STS_INVALID_CDB, m, cmd)
      else tcmu_emulate_evpd_inquiry m dev has_unmap wwn port cmd)"

section \<open>READ CAPACITY, TEST UNIT READY, START STOP UNIT\<close>

definition tcmu_emulate_test_unit_ready :: "mem \<Rightarrow> tcmulib_cmd \<Rightarrow> emul_result" where
  "tcmu_emulate_test_unit_ready m cmd = Some (TCMU_STS_OK, m, cmd)"

definition tcmu_emulate_read_capacity_10 :: "mem \<Rightarrow> nat \<Rightarrow> nat \<Rightarrow> tcmulib_cmd \<Rightarrow> emul_result" where
  "tcmu_emulate_read_capacity_10 m lbas bsize cmd =
     emul_respond m cmd
       (be_enc 4 (if lbas < 0x100000000 then u32 (sub64 lbas 1) else 0xffffffff) @ be_enc 4 bsize) 8"

definition tcmu_emulate_read_capacity_16 :: "mem \<Rightarrow> nat \<Rightarrow> nat \<Rightarrow> tcmulib_cmd \<Rightarrow> emul_result" where
  "tcmu_emulate_read_capacity_16 m lbas bsize cmd =
     emul_respond m cmd (be_enc 8 (sub64 lbas 1) @ be_enc 4 bsize @ [0, 0, 0x80 OR 0x40] @ replicate 17 0) 32"

definition tcmu_emulate_start_stop :: "mem \<Rightarrow> tcmulib_cmd \<Rightarrow> emul_result" where
  "tcmu_emulate_start_stop m cmd =
     (if drop_bit 4 (cdb cmd 4) AND 0xf \<noteq> 0 then Some (TCMU_STS_INVALID_CDB, m, cmd)
      else if cdb cmd 4 AND 0x01 = 0 then Some (TCMU_STS_INVALID_CDB, m, cmd)
      else Some (TCMU_STS_OK, m, cmd))"

section \<open>MODE SENSE and MODE SELECT\<close>

text \<open>The mode pages of a disk, in the order of \<open>modesense_handlers\<close>: page, subpage, contents.\<close>

definition rwrecovery_page :: "byte list" where
  "rwrecovery_page = [0x1, 0xa] @ replicate 10 0"

definition cache_page :: "tcmu_device \<Rightarrow> byte list" where
  "cache_page dev = [0x8, 0x12, if tcmu_get_dev_write_cache_enabled dev then 0x4 else 0] @ replicate 17 0"

definition control_page :: "byte list" where
  "control_page = [0x0a, 0x0a, 0x02, 0, 0, 0x40, 0, 0, 0xff, 0xff, 0, 0]"

definition modesense_handlers :: "tcmu_device \<Rightarrow> (byte \<times> byte \<times> byte list) list" where
  "modesense_handlers dev = [(0x1, 0, rwrecovery_page), (0x8, 0, cache_page dev), (0xa, 0, control_page)]"

text \<open>\<open>copy_to_response_buf\<close> into the response at \<open>pos\<close>; \<open>None\<close> is the null pointer.\<close>

definition copy_to_response_buf :: "byte list \<Rightarrow> nat option \<Rightarrow> nat \<Rightarrow> byte list \<Rightarrow> byte list option" where
  "copy_to_response_buf obuf pos to_len from_buf =
     (case pos of None \<Rightarrow> Some obuf | Some p \<Rightarrow> put_at obuf p (take (min to_len (length from_buf)) from_buf))"

text \<open>State of a MODE SENSE: the response, the position of the next page (null once it is full), the length so far.\<close>

definition handle_mode_sense ::
  "byte list \<Rightarrow> nat \<Rightarrow> bool \<Rightarrow> (byte list \<times> nat option \<times> nat) \<Rightarrow> (int \<times> byte list \<times> nat option \<times> nat) option" where
  "handle_mode_sense page alloc_len ten st = (case st of (obuf, pos, used) \<Rightarrow>
     case copy_to_response_buf obuf pos (sub64 alloc_len used) page of
       None \<Rightarrow> None
     | Some obuf' \<Rightarrow>
         let ret = length page in
         if \<not> ten \<and> used + ret \<ge> 255 then Some (-22, obuf', pos, used)
         else
           let pos' = (if pos \<noteq> None \<and> used + ret \<ge> alloc_len then None else pos)
           in Some (int ret, obuf', map_option (\<lambda>p. p + ret) pos', used + ret))"

fun mode_sense_all ::
  "(byte \<times> byte \<times> byte list) list \<Rightarrow> nat \<Rightarrow> bool \<Rightarrow> (byte list \<times> nat option \<times> nat) \<Rightarrow> (int \<times> byte list \<times> nat option \<times> nat) option" where
  "mode_sense_all [] alloc_len ten st = Some (0, st)"
| "mode_sense_all ((pg, sub, page) # hs) alloc_len ten st =
     (case handle_mode_sense page alloc_len ten st of
        None \<Rightarrow> None
      | Some (ret, st') \<Rightarrow> if ret < 0 then Some (ret, st') else mode_sense_all hs alloc_len ten st')"

definition tcmu_emulate_mode_sense :: "mem \<Rightarrow> tcmu_device \<Rightarrow> tcmulib_cmd \<Rightarrow> emul_result" where
  "tcmu_emulate_mode_sense m dev cmd =
     (let ten = (cdb cmd 0 = 0x5a); page_code = cdb cmd 2 AND 0x3f; subpage_code = cdb cmd 3 in
      case tcmu_get_xfer_length (cdb cmd) of None \<Rightarrow> None | Some alloc_len \<Rightarrow>
      if alloc_len = 0 then Some (TCMU_STS_OK, m, cmd)
      else
        let hdr = (if ten then 8 else 4) in
        if hdr > alloc_len then Some (TCMU_STS_INVALID_CDB, m, cmd)
        else
          let st0 = (replicate alloc_len 0, Some hdr, hdr);
              r = (if page_code = 0x3f then
                     (case mode_sense_all (modesense_handlers dev) alloc_len ten st0 of
                        None \<Rightarrow> None | Some (ret, st) \<Rightarrow> Some (if ret < 0 then None else Some st))
                   else
                     (case find (\<lambda>(pg, sub, page). page_code = pg \<and> subpage_code = sub) (modesense_handlers dev) of
                        None \<Rightarrow> Some None
                      | Some (pg, sub, page) \<Rightarrow>
                          (case handle_mode_sense page alloc_len ten st0 of
                             None \<Rightarrow> None | Some (ret, st) \<Rightarrow> Some (if ret \<le> 0 then None else Some st))))
          in case r of
               None \<Rightarrow> None
             | Some None \<Rightarrow> Some (TCMU_STS_INVALID_CDB, m, cmd)
             | Some (Some (obuf, pos, used)) \<Rightarrow>
                 let obuf' = (if ten then buf_put obuf 0 (be_enc 2 (u16 (used - 2))) else obuf[0 := of_nat (used - 1)])
                 in emul_respond m cmd obuf' alloc_len)"

text \<open>
  \<open>garbage\<close> is what the uninitialised \<open>in_buf[512]\<close> holds before the parameter list is copied into it.
\<close>

definition tcmu_emulate_mode_select :: "byte list \<Rightarrow> mem \<Rightarrow> tcmu_device \<Rightarrow> tcmulib_cmd \<Rightarrow> emul_result" where
  "tcmu_emulate_mode_select garbage m dev cmd =
     (let ten = (cdb cmd 0 = 0x55); page_code = cdb cmd 2 AND 0x3f; subpage_code = cdb cmd 3; hdr = (if ten then 8 else 4) in
      case tcmu_get_xfer_length (cdb cmd) of None \<Rightarrow> None | Some alloc_len \<Rightarrow>
      if alloc_len = 0 then Some (TCMU_STS_OK, m, cmd)
      else
        case tcmu_memcpy_from_iovec m garbage 512 (cmd_iovs cmd) of (copied, in_buf, vs) \<Rightarrow>
        let cmd' = set_cmd_iovs cmd vs in
        if copied \<ge> 512 then Some (TCMU_STS_INVALID_PARAM_LIST_LEN, m, cmd')
        else if cdb cmd 1 AND 0x10 = 0 \<or> cdb cmd 1 AND 0x01 \<noteq> 0 then Some (TCMU_STS_INVALID_CDB, m, cmd')
        else
          case find (\<lambda>(pg, sub, page). page_code = pg \<and> subpage_code = sub) (modesense_handlers dev) of
            None \<Rightarrow> Some (TCMU_STS_INVALID_CDB, m, cmd')
          | Some (pg, sub, page) \<Rightarrow>
              if \<not> ten \<and> hdr + length page \<ge> 255 then Some (TCMU_STS_INVALID_CDB, m, cmd')
              else if alloc_len < hdr + length page then Some (TCMU_STS_INVALID_PARAM_LIST_LEN, m, cmd')
              else if buf_get in_buf hdr (length page) \<noteq> page then Some (TCMU_STS_INVALID_PARAM_LIST, m, cmd')
              else Some (TCMU_STS_OK, m, cmd'))"

section \<open>What a mode sense answers\<close>

text \<open>The mode parameter header in front of \<open>n\<close> bytes of pages: the length field counts what follows it.\<close>

definition mode_header :: "bool \<Rightarrow> nat \<Rightarrow> byte list" where
  "mode_header ten n = (if ten then be_enc 2 (8 + n - 2) @ replicate 6 0 else [of_nat (4 + n - 1), 0, 0, 0])"

text \<open>The pages a MODE SENSE asks for: all of them for page code 3Fh, one otherwise.\<close>

definition mode_pages :: "tcmu_device \<Rightarrow> byte \<Rightarrow> byte \<Rightarrow> byte list option" where
  "mode_pages dev pg sub =
     (if pg = 0x3f then Some (rwrecovery_page @ cache_page dev @ control_page)
      else if pg = 0x1 \<and> sub = 0 then Some rwrecovery_page
      else if pg = 0x8 \<and> sub = 0 then Some (cache_page dev)
      else if pg = 0xa \<and> sub = 0 then Some control_page
      else None)"

definition cut_to :: "nat \<Rightarrow> byte list \<Rightarrow> byte list" where
  "cut_to n bs = take n bs @ replicate (n - length bs) 0"

lemma length_cut_to [simp]: "length (cut_to n bs) = n"
  by (simp add: cut_to_def)

lemma length_pages [simp]: "length rwrecovery_page = 12" "length (cache_page dev) = 20" "length control_page = 12"
  by (simp_all add: rwrecovery_page_def cache_page_def control_page_def)

definition ms_inv :: "nat \<Rightarrow> byte list \<Rightarrow> byte list \<times> nat option \<times> nat \<Rightarrow> bool" where
  "ms_inv n full st \<longleftrightarrow> (case st of (obuf, pos, used) \<Rightarrow> obuf = cut_to n full \<and> used = length full \<and>
     (pos = Some used \<and> used \<le> n \<or> pos = None \<and> n \<le> used))"

lemma cut_to_put:
  "length full \<le> n \<Longrightarrow> put_at (cut_to n full) (length full) (take (n - length full) page) = Some (cut_to n (full @ page))"
  by (auto simp: put_at_def buf_put_def cut_to_def min_def)

lemma handle_mode_sense_step:
  assumes "ms_inv n full st" and "n < 2 ^ 64" and "\<not> ten \<Longrightarrow> length full + length page < 255"
  shows "\<exists>st'. handle_mode_sense page n ten st = Some (int (length page), st') \<and> ms_inv n (full @ page) st'"
proof -
  obtain obuf pos used where st: "st = (obuf, pos, used)" by (cases st)
  have inv: "obuf = cut_to n full" "used = length full" "pos = Some used \<and> used \<le> n \<or> pos = None \<and> n \<le> used"
    using assms(1) by (auto simp: ms_inv_def st)
  have t: "take (min (n - length full) (length page)) page = take (n - length full) page"
    by (cases "n - length full \<le> length page") (simp_all add: min_def)
  have cp: "copy_to_response_buf obuf pos (sub64 n used) page = Some (cut_to n (full @ page))"
  proof (cases pos)
    case None
    then have "n \<le> length full" using inv by auto
    then have "cut_to n (full @ page) = cut_to n full" by (simp add: cut_to_def)
    then show ?thesis by (simp add: None copy_to_response_buf_def inv(1))
  next
    case (Some p)
    then have "p = length full" "length full \<le> n" using inv by auto
    then show ?thesis
      using assms(2) by (simp add: Some copy_to_response_buf_def inv(1,2) t cut_to_put sub64_id)
  qed
  have ret: "\<not> (\<not> ten \<and> 255 \<le> used + length page)" using assms(3) inv(2) by auto
  let ?pos = "map_option (\<lambda>p. p + length page) (if pos \<noteq> None \<and> used + length page \<ge> n then None else pos)"
  have "handle_mode_sense page n ten st = Some (int (length page), cut_to n (full @ page), ?pos, used + length page)"
    using ret by (simp add: st handle_mode_sense_def cp Let_def del: not_le)
  moreover have "?pos = Some (used + length page) \<and> used + length page \<le> n \<or> ?pos = None \<and> n \<le> used + length page"
    using inv(3) by auto
  ultimately show ?thesis by (auto simp: ms_inv_def inv(2))
qed

lemma mode_sense_all_steps:
  assumes "ms_inv n full st" and "n < 2 ^ 64"
    and "length full + length (concat (map (snd \<circ> snd) hs)) < 255"
  shows "\<exists>st'. mode_sense_all hs n ten st = Some (0, st') \<and> ms_inv n (full @ concat (map (snd \<circ> snd) hs)) st'"
  using assms
proof (induction hs arbitrary: full st)
  case Nil
  then show ?case by simp
next
  case (Cons h hs)
  obtain pg sub page where h: "h = (pg, sub, page)" by (cases h)
  obtain st' where st': "handle_mode_sense page n ten st = Some (int (length page), st')" "ms_inv n (full @ page) st'"
    using handle_mode_sense_step [OF Cons.prems(1,2), of ten page] Cons.prems(3) by (auto simp: h)
  show ?case using Cons.IH [OF st'(2) Cons.prems(2)] Cons.prems(3) by (simp add: h st'(1))
qed

lemma ms_inv_init: "h \<le> n \<Longrightarrow> ms_inv n (replicate h 0) (replicate n 0, Some h, h)"
  by (simp add: ms_inv_def cut_to_def min_def flip: replicate_add)

lemma mode_header_put:
  assumes "h = (if ten then 8 else 4)" "h \<le> n"
  shows "(if ten then buf_put (cut_to n (replicate h 0 @ pages)) 0 (be_enc 2 (8 + length pages - 2))
     else (cut_to n (replicate h 0 @ pages))[0 := of_nat (4 + length pages - 1)]) = cut_to n (mode_header ten (length pages) @ pages)"
proof (cases ten)
  case True
  then obtain k where k: "n = 8 + k" using assms by (metis le_Suc_ex)
  have "be_enc 2 (8 + length pages - 2) @ replicate 6 0 @ cut_to k pages = cut_to n (mode_header True (length pages) @ pages)"
    by (simp add: k cut_to_def mode_header_def)
  moreover have "cut_to n (replicate h 0 @ pages) = replicate 8 0 @ cut_to k pages"
    using True assms(1) by (simp add: k cut_to_def)
  ultimately show ?thesis using True by (simp add: buf_put_def drop_append)
next
  case False
  then obtain k where k: "n = 4 + k" using assms by (metis le_Suc_ex)
  have "cut_to n (replicate h 0 @ pages) = replicate 4 0 @ cut_to k pages"
    using False assms(1) by (simp add: k cut_to_def)
  then have "(cut_to n (replicate h 0 @ pages))[0 := of_nat (4 + length pages - 1)] = [of_nat (4 + length pages - 1), 0, 0, 0] @ cut_to k pages"
    by (simp add: numeral_eq_Suc)
  moreover have "cut_to n (mode_header ten (length pages) @ pages) = [of_nat (4 + length pages - 1), 0, 0, 0] @ cut_to k pages"
    using False by (simp add: k cut_to_def mode_header_def numeral_eq_Suc)
  ultimately show ?thesis using False by simp
qed

lemma length_mode_header [simp]: "length (mode_header ten n) = (if ten then 8 else 4)"
  by (simp add: mode_header_def)

lemma find_mode_page:
  "pg \<noteq> 0x3f \<Longrightarrow> (case find (\<lambda>(p, s, page). pg = p \<and> sub = s) (modesense_handlers dev) of
     None \<Rightarrow> None | Some (p, s, page) \<Rightarrow> Some page) = mode_pages dev pg sub"
  by (auto simp: modesense_handlers_def mode_pages_def)

lemma length_mode_pages: "mode_pages dev pg sub = Some pages \<Longrightarrow> 0 < length pages \<and> length pages \<le> 44"
  by (auto simp: mode_pages_def rwrecovery_page_def cache_page_def control_page_def split: if_splits)

lemma emul_respond_ok:
  assumes "cmd_wf cmd" and "len \<le> length data"
  shows "\<exists>m' cmd'. emul_respond m cmd data len = Some (TCMU_STS_OK, m', cmd') \<and> responded m m' cmd (take len data)"
proof -
  obtain c m' cmd' where r: "cmd_respond m cmd data len = (c, m', cmd')" by (metis surj_pair)
  show ?thesis using cmd_respond_spec(1) [OF assms r] by (simp add: emul_respond_def r)
qed
lemma mode_sense_cases:
  assumes wf: "cmd_wf cmd" and len: "tcmu_get_xfer_length (cdb cmd) = Some n"
    and ten: "ten \<longleftrightarrow> cdb cmd 0 = 0x5a" and hdr: "hdr = (if ten then 8 else 4)"
    and want: "want = mode_pages dev (cdb cmd 2 AND 0x3f) (cdb cmd 3)"
  shows "n = 0 \<Longrightarrow> tcmu_emulate_mode_sense m dev cmd = Some (TCMU_STS_OK, m, cmd)"
    and "0 < n \<Longrightarrow> n < hdr \<or> want = None \<Longrightarrow> tcmu_emulate_mode_sense m dev cmd = Some (TCMU_STS_INVALID_CDB, m, cmd)"
    and "hdr \<le> n \<Longrightarrow> want = Some pages \<Longrightarrow>
      \<exists>m' cmd'. tcmu_emulate_mode_sense m dev cmd = Some (TCMU_STS_OK, m', cmd') \<and>
        responded m m' cmd (cut_to n (mode_header ten (length pages) @ pages))"
proof -
  let ?pg = "cdb cmd 2 AND 0x3f" and ?sub = "cdb cmd 3"
  let ?st0 = "(replicate n 0, Some hdr, hdr) :: byte list \<times> nat option \<times> nat"
  let ?find = "find (\<lambda>(pg, sub, page). ?pg = pg \<and> ?sub = sub) (modesense_handlers dev)"
  have n: "n < 2 ^ 64" using tcmu_get_xfer_length_bound [OF len] by simp
  have hs: "concat (map (snd \<circ> snd) (modesense_handlers dev)) = rwrecovery_page @ cache_page dev @ control_page"
    by (simp add: modesense_handlers_def)
  have h8: "hdr \<le> 8" "0 < hdr" using hdr by auto
  show "n = 0 \<Longrightarrow> tcmu_emulate_mode_sense m dev cmd = Some (TCMU_STS_OK, m, cmd)"
    by (simp add: tcmu_emulate_mode_sense_def len)
  have one: "?find = None \<longleftrightarrow> want = None" "?find = Some (a, b, page) \<Longrightarrow> want = Some page" if "?pg \<noteq> 0x3f" for a b page
    using find_mode_page [OF that, of ?sub dev, symmetric] by (auto simp: want split: option.splits)
  show "tcmu_emulate_mode_sense m dev cmd = Some (TCMU_STS_INVALID_CDB, m, cmd)" if "0 < n" "n < hdr \<or> want = None"
  proof (cases "n < hdr")
    case True
    then show ?thesis using that(1) by (simp add: tcmu_emulate_mode_sense_def len Let_def ten [symmetric] hdr [symmetric])
  next
    case False
    then have w: "want = None" "\<not> hdr > n" using that(2) by auto
    then have "?pg \<noteq> 0x3f" by (auto simp: want mode_pages_def)
    with one(1) w that(1) show ?thesis
      by (simp add: tcmu_emulate_mode_sense_def len Let_def ten [symmetric] hdr [symmetric])
  qed
  show "\<exists>m' cmd'. tcmu_emulate_mode_sense m dev cmd = Some (TCMU_STS_OK, m', cmd') \<and>
        responded m m' cmd (cut_to n (mode_header ten (length pages) @ pages))"
    if le: "hdr \<le> n" and w: "want = Some pages"
  proof -
    note inv0 = ms_inv_init [OF le]
    have sm: "0 < length pages" "length pages \<le> 44" using length_mode_pages w want by metis+
    let ?r = "if ?pg = 0x3f then
                (case mode_sense_all (modesense_handlers dev) n ten ?st0 of
                   None \<Rightarrow> None | Some (ret, st) \<Rightarrow> Some (if ret < 0 then None else Some st))
              else (case ?find of None \<Rightarrow> Some None
                | Some (pg, sub, page) \<Rightarrow> (case handle_mode_sense page n ten ?st0 of
                      None \<Rightarrow> None | Some (ret, st) \<Rightarrow> Some (if ret \<le> 0 then None else Some st)))"
    have "\<exists>st. ?r = Some (Some st) \<and> ms_inv n (replicate hdr 0 @ pages) st"
    proof (cases "?pg = 0x3f")
      case True
      then have "pages = rwrecovery_page @ cache_page dev @ control_page" using w by (simp add: want mode_pages_def)
      with mode_sense_all_steps [OF inv0 n, of "modesense_handlers dev" ten] True h8 show ?thesis
        by (auto simp: hs)
    next
      case False
      then obtain a b where "?find = Some (a, b, pages)" using one w by (cases ?find) auto
      with handle_mode_sense_step [OF inv0 n, of ten pages] False h8 sm show ?thesis by auto
    qed
    then obtain pos where r: "?r = Some (Some (cut_to n (replicate hdr 0 @ pages), pos, hdr + length pages))"
      by (auto simp: ms_inv_def)
    have small: "u16 (hdr + length pages - 2) = hdr + length pages - 2" using sm(2) h8(1) by (intro u16_id) simp
    have "(if ten then buf_put (cut_to n (replicate hdr 0 @ pages)) 0 (be_enc 2 (hdr + length pages - 2))
       else (cut_to n (replicate hdr 0 @ pages))[0 := of_nat (hdr + length pages - 1)]) = cut_to n (mode_header ten (length pages) @ pages)"
      using mode_header_put [OF hdr le, of pages] by (simp only: hdr split: if_splits) auto
    then have "tcmu_emulate_mode_sense m dev cmd = emul_respond m cmd (cut_to n (mode_header ten (length pages) @ pages)) n"
      unfolding tcmu_emulate_mode_sense_def Let_def len option.case ten [symmetric] hdr [symmetric] r
      using le h8(2) by (simp only: small split_conv option.case) simp
    then show ?thesis using emul_respond_ok [OF wf, of n "cut_to n (mode_header ten (length pages) @ pages)" m] by simp
  qed
qed

text \<open>
  MODE SENSE answers with the mode header and the requested pages, cut at (and padded to)
  the allocation length; the length field of the header counts the whole answer even when it is
  cut. A page that does not exist, or an allocation length shorter than the header, is an invalid
  CDB, and then nothing is written.
\<close>
theorem mode_sense_correct:
  assumes "cmd_wf cmd" and "tcmu_get_xfer_length (cdb cmd) = Some n"
    and "ten \<longleftrightarrow> cdb cmd 0 = 0x5a" and "hdr = (if ten then 8 else 4)"
    and "want = mode_pages dev (cdb cmd 2 AND 0x3f) (cdb cmd 3)"
  shows "(n = 0 \<longrightarrow> tcmu_emulate_mode_sense m dev cmd = Some (TCMU_STS_OK, m, cmd)) \<and>
    (0 < n \<and> (n < hdr \<or> want = None) \<longrightarrow> tcmu_emulate_mode_sense m dev cmd = Some (TCMU_STS_INVALID_CDB, m, cmd)) \<and>
    (\<forall>pages. hdr \<le> n \<and> want = Some pages \<longrightarrow>
      (\<exists>m' cmd'. tcmu_emulate_mode_sense m dev cmd = Some (TCMU_STS_OK, m', cmd') \<and>
        responded m m' cmd (cut_to n (mode_header ten (length pages) @ pages))))"
  using mode_sense_cases [OF assms] by blast

definition emul_dev :: tcmu_device where
  "emul_dev = \<lparr>cmd_tail = 0, num_lbas = 2048, block_size = 512, max_xfer_len = 128, opt_unmap_gran = 0, unmap_gran_align = 0,
     write_cache_enabled = True, solid_state_media = False, tcm_hba_name = [], tcm_dev_name = [], cfgstring = ''foo/bar''\<rparr>"

definition emul_cmd :: "byte list \<Rightarrow> nat \<Rightarrow> tcmulib_cmd" where
  "emul_cmd c n = \<lparr>cmd_id = 0, cdb = cdb_of c, iovec = [\<lparr>iov_base = 1000, iov_len = n\<rparr>], iov_cnt = 1, sense_buf = replicate 96 0\<rparr>"

lemma emul_cmd_wf: "n < 2 ^ 64 \<Longrightarrow> cmd_wf (emul_cmd c n)"
  by (simp add: cmd_wf_def emul_cmd_def cmd_iovs_def)

theorem mode_sense_correct_witness:
  "let cmd = emul_cmd [0x1a, 0, 0x3f, 0, 24, 0] 24 in
   \<exists>m' cmd'. tcmu_emulate_mode_sense (\<lambda>_. 0) emul_dev cmd = Some (TCMU_STS_OK, m', cmd') \<and>
     responded (\<lambda>_. 0) m' cmd ([47, 0, 0, 0] @ rwrecovery_page @ [0x8, 0x12, 0x4, 0, 0, 0, 0, 0])"
proof -
  let ?cmd = "emul_cmd [0x1a, 0, 0x3f, 0, 24, 0] 24"
  have len: "tcmu_get_xfer_length (cdb ?cmd) = Some 24"
    by (simp add: emul_cmd_def tcmu_get_xfer_length_def tcmu_get_cdb_length_def)
  have six: "(cdb ?cmd 0 = 0x5a) = False" and code: "cdb ?cmd 2 AND 0x3f = 0x3f" "cdb ?cmd 3 = 0"
    by (simp_all add: emul_cmd_def)
  have pages: "mode_pages emul_dev 0x3f 0 = Some (rwrecovery_page @ cache_page emul_dev @ control_page)"
    by (simp add: mode_pages_def)
  have resp: "cut_to 24 (mode_header False 44 @ rwrecovery_page @ cache_page emul_dev @ control_page) =
      [47, 0, 0, 0] @ rwrecovery_page @ [0x8, 0x12, 0x4, 0, 0, 0, 0, 0]"
    by (simp add: cut_to_def mode_header_def rwrecovery_page_def cache_page_def control_page_def emul_dev_def numeral_eq_Suc)
  show ?thesis
    using mode_sense_correct [of ?cmd 24 False 4 _ emul_dev "\<lambda>_. 0", OF emul_cmd_wf len six [symmetric] _ refl]
    by (simp add: code pages resp)
qed
text \<open>
  READ CAPACITY(10) and (16) answer with the last logical block and the block length in
  big-endian; a last block that does not fit the 10-byte form is reported as FFFFFFFFh there.
\<close>
theorem read_capacity_correct:
  assumes "cmd_wf cmd" and "0 < lbas" and "lbas < 2 ^ 64" and "bsize < 2 ^ 32"
  shows "(\<exists>m' cmd' resp. tcmu_emulate_read_capacity_10 m lbas bsize cmd = Some (TCMU_STS_OK, m', cmd') \<and>
      responded m m' cmd resp \<and> length resp = 8 \<and>
      be_dec (buf_get resp 0 4) = min (lbas - 1) (2 ^ 32 - 1) \<and> be_dec (buf_get resp 4 4) = bsize) \<and>
    (\<exists>m' cmd' resp. tcmu_emulate_read_capacity_16 m lbas bsize cmd = Some (TCMU_STS_OK, m', cmd') \<and>
      responded m m' cmd resp \<and> length resp = 32 \<and>
      be_dec (buf_get resp 0 8) = lbas - 1 \<and> be_dec (buf_get resp 8 4) = bsize \<and> resp ! 14 = 0xc0)"
    (is "?rc10 \<and> ?rc16")
proof

  let ?last = "if lbas < 0x100000000 then u32 (sub64 lbas 1) else 0xffffffff"
  let ?r10 = "be_enc 4 ?last @ be_enc 4 bsize"
  have last: "?last = min (lbas - 1) (2 ^ 32 - 1)" using assms(2,3) by (simp add: sub64_id u32_def min_def) arith
  have d4: "be_dec (be_enc 4 k) = k" if "k < 2 ^ 32" for k using that by (simp add: be_dec_enc)
  have l32: "min (lbas - 1) (2 ^ 32 - 1) < 2 ^ 32" by (simp add: min_def)
  have "be_dec (buf_get ?r10 0 4) = min (lbas - 1) (2 ^ 32 - 1)" "be_dec (buf_get ?r10 4 4) = bsize"
    using d4 [OF l32] d4 [OF assms(4)] by (simp_all only: last) (simp_all add: buf_get_def)
  with emul_respond_ok [OF assms(1), of 8 ?r10 m] show ?rc10
    by (auto simp: tcmu_emulate_read_capacity_10_def intro!: exI [of _ ?r10])
  let ?r16 = "be_enc 8 (sub64 lbas 1) @ be_enc 4 bsize @ [0, 0, 0x80 OR 0x40] @ replicate 17 0"
  have "be_dec (buf_get ?r16 0 8) = lbas - 1" "be_dec (buf_get ?r16 8 4) = bsize" "?r16 ! 14 = 0xc0"
    using assms(2,3) d4 [OF assms(4)] by (simp_all add: buf_get_def be_dec_enc sub64_id nth_append)
  with emul_respond_ok [OF assms(1), of 32 ?r16 m] show ?rc16
    by (auto simp: tcmu_emulate_read_capacity_16_def intro!: exI [of _ ?r16])
qed

theorem read_capacity_correct_witness:
  "let cmd = emul_cmd [0x25, 0, 0, 0, 0, 0, 0, 0, 0, 0] 8 in
   \<exists>m' cmd' resp. tcmu_emulate_read_capacity_10 (\<lambda>_. 0) 2048 512 cmd = Some (TCMU_STS_OK, m', cmd') \<and>
      responded (\<lambda>_. 0) m' cmd resp \<and> length resp = 8 \<and>
      be_dec (buf_get resp 0 4) = 2047 \<and> be_dec (buf_get resp 4 4) = 512"
  using read_capacity_correct [OF emul_cmd_wf, of 8 2048 512 "\<lambda>_. 0" "[0x25, 0, 0, 0, 0, 0, 0, 0, 0, 0]"]
  by (simp add: min_def)

text \<open>
  MODE SELECT accepts exactly the values MODE SENSE reports: sending back the header and the
  page that MODE SENSE answers for an existing page is accepted, and a parameter list whose page
  differs from it is an invalid parameter list; memory is not changed either way.
\<close>
theorem mode_select_accepts_current:
  assumes "ten \<longleftrightarrow> cdb cmd 0 = 0x55" and "hdr = (if ten then 8 else 4)"
    and "page_code = cdb cmd 2 AND 0x3f" and "page_code \<noteq> 0x3f" and "mode_pages dev page_code (cdb cmd 3) = Some page"
    and "cdb cmd 1 AND 0x10 \<noteq> 0" and "cdb cmd 1 AND 0x01 = 0"
    and "tcmu_get_xfer_length (cdb cmd) = Some (hdr + length page)"
    and "gather m (cmd_iovs cmd) = header @ sent" and "length header = hdr" and "length sent = length page"
    and "length garbage = 512"
  shows "\<exists>cmd'. tcmu_emulate_mode_select garbage m dev cmd =
    Some (if sent = page then TCMU_STS_OK else TCMU_STS_INVALID_PARAM_LIST, m, cmd')"
proof -
  have sm: "0 < length page" "length page \<le> 44" using length_mode_pages [OF assms(5)] by auto
  have h: "0 < hdr" "hdr \<le> 8" using assms(2) by auto
  obtain c d vs where cp: "tcmu_memcpy_from_iovec m garbage 512 (cmd_iovs cmd) = (c, d, vs)" by (metis surj_pair)
  have tot: "iov_total (cmd_iovs cmd) = hdr + length page"
    using length_gather [of m "cmd_iovs cmd"] assms(9-11) by simp
  have c: "c = hdr + length page" "d = (header @ sent) @ drop (hdr + length page) garbage"
    using sg.copy_out_spec [OF cp] assms(9-12) sm h tot by auto
  have get: "buf_get d hdr (length page) = sent"
    using assms(10,11) by (simp add: c(2) buf_get_def)
  obtain a b where f: "find (\<lambda>(pg, sub, page). page_code = pg \<and> cdb cmd 3 = sub) (modesense_handlers dev) = Some (a, b, page)"
    using find_mode_page [OF assms(4), of "cdb cmd 3" dev] assms(5) by (auto split: option.splits)
  have nz: "(hdr + length page = 0) = False" "(512 \<le> hdr + length page) = False" "(255 \<le> hdr + length page) = False"
    "(hdr + length page < hdr + length page) = False" "(cdb cmd 1 AND 0x10 = 0) = False" "(cdb cmd 1 AND 0x01 \<noteq> 0) = False"
    using sm h assms(6,7) by auto
  show ?thesis
    unfolding tcmu_emulate_mode_select_def Let_def assms(8) option.case assms(1,2,3) [symmetric] cp prod.case c(1) f nz if_False get
    by auto
qed

theorem mode_select_accepts_current_witness:
  "let cmd = emul_cmd [0x15, 0x10, 0x0a, 0, 16, 0] 16; m = mem_write (\<lambda>_. 0) 1000 ([0, 0, 0, 0] @ control_page) in
   \<exists>cmd'. tcmu_emulate_mode_select (replicate 512 0) m emul_dev cmd = Some (TCMU_STS_OK, m, cmd')"
proof -
  let ?cmd = "emul_cmd [0x15, 0x10, 0x0a, 0, 16, 0] 16" and ?m = "mem_write (\<lambda>_. 0) 1000 ([0, 0, 0, 0] @ control_page)"
  have len: "tcmu_get_xfer_length (cdb ?cmd) = Some (4 + length control_page)"
    by (simp add: emul_cmd_def tcmu_get_xfer_length_def tcmu_get_cdb_length_def)
  have g: "gather ?m (cmd_iovs ?cmd) = [0, 0, 0, 0] @ control_page"
    using mem_read_write_same [of "\<lambda>_. 0" 1000 "[0, 0, 0, 0] @ control_page"] by (simp add: emul_cmd_def cmd_iovs_def)
  show ?thesis
    using mode_select_accepts_current [of False ?cmd 4 "0x0a" emul_dev control_page ?m "[0, 0, 0, 0]" control_page "replicate 512 0"]
      len g by (simp add: emul_cmd_def mode_pages_def)
qed
section \<open>The device identification page\<close>

lemma length_put_at: "put_at data off bs = Some data' \<Longrightarrow> length data' = length data"
  by (auto simp: put_at_def split: if_splits)

lemma put_at_fits [simp]: "off + length bs \<le> length data \<Longrightarrow> put_at data off bs = Some (buf_put data off bs)"
  by (simp add: put_at_def)

lemma length_naa_fill [simp]: "length (naa_fill data p cs i nxt) = length data"
  by (induction data p cs i nxt rule: naa_fill.induct) (auto split: option.splits)

lemma length_bytes_of [simp]: "length (bytes_of s) = length s"
  by (simp add: bytes_of_def)

lemma snprintf_spec:
  assumes "0 < sz"
  shows "snprintf data off sz s = None \<longleftrightarrow> length data < off + min sz (Suc (length s))"
    and "snprintf data off sz s = Some (len, data') \<Longrightarrow> len = length s \<and> length data' = length data"
proof -
  show "snprintf data off sz s = None \<longleftrightarrow> length data < off + min sz (Suc (length s))"
    using assms by (auto simp: snprintf_def put_at_def min_def split: option.splits)
  show "snprintf data off sz s = Some (len, data') \<Longrightarrow> len = length s \<and> length data' = length data"
    by (auto simp: snprintf_def dest: length_put_at split: option.splits)
qed

lemma snprintf_fits:
  assumes "off + Suc (length s) \<le> length data" and "0 < sz"
  obtains data' where "snprintf data off sz s = Some (length s, data')" "length data' = length data"
proof -
  have "snprintf data off sz s \<noteq> None" using assms snprintf_spec(1) [OF assms(2), of data off s] by simp
  then show thesis using snprintf_spec(2) [OF assms(2), of data off s] that by (metis not_None_eq prod.collapse)
qed

lemma evpd_83_ids_ok:
  assumes "length data = 512" and "length wwn \<le> 246"
  obtains data' where "evpd_83_ids data wwn = Some (length wwn + 33, data')" "length data' = 512"
proof -
  let ?d1 = "buf_put (buf_put data 4 [2, 1]) 8 (bytes_of ''LIO-ORG '')"
  obtain d2 where d2: "snprintf ?d1 16 (512 - 16) wwn = Some (length wwn, d2)" "length d2 = 512"
    using snprintf_fits [of 16 wwn ?d1 "512 - 16"] assms by auto
  have l: "unat (of_nat (9 + length wwn) :: byte) = length wwn + 9"
    using assms(2) by (simp add: unat_of_nat_byte del: of_nat_add of_nat_Suc)
  have "\<exists>data'. evpd_83_ids data wwn = Some (length wwn + 33, data') \<and> length data' = 512"
    using assms d2 by (simp add: evpd_83_ids_def l Let_def del: of_nat_add of_nat_Suc)
  then show thesis using that by blast
qed

lemma evpd_83_vendor_iff:
  assumes "length data = 512" and "used \<le> 400" and "length cfg < 2 ^ 32"
  shows "evpd_83_vendor data used cfg = None \<longleftrightarrow> 512 < used + 9 + length cfg"
    and "evpd_83_vendor data used cfg = Some (used', data') \<Longrightarrow> used' \<le> 508 \<and> length data' = 512"
proof -
  let ?d1 = "buf_put data (4 + used) [2, 0]"
  have sz: "sub64 (sub64 512 used) 4 = 508 - used" "0 < 508 - used" using assms(2) by (simp_all add: sub64_id)
  note sp = snprintf_spec [OF sz(2), of ?d1 "8 + used" cfg]
  have lb: "unat (of_nat (length cfg + 1) :: byte) \<le> length cfg + 1"
    by (simp add: unat_of_nat_byte del: of_nat_Suc of_nat_add)
  have put: "put_at data (4 + used) [2, 0] = Some ?d1" using assms(1,2) by simp
  have none: "snprintf ?d1 (8 + used) (508 - used) cfg = None \<longleftrightarrow> 512 < used + 9 + length cfg"
    using sp(1) assms(1,2) by (auto simp: min_def)
  have len2: "put_at d (7 + used) [b] = Some (buf_put d (7 + used) [b])" if "length d = 512" for d b
    using that assms(2) by simp
  show "evpd_83_vendor data used cfg = None \<longleftrightarrow> 512 < used + 9 + length cfg"
    using none sp(2) assms(1) len2
    by (auto simp: evpd_83_vendor_def Let_def put sz(1) bind_eq_None_conv simp del: of_nat_Suc of_nat_add)
  show "used' \<le> 508 \<and> length data' = 512" if r: "evpd_83_vendor data used cfg = Some (used', data')"
  proof -
    obtain n d where s: "snprintf ?d1 (8 + used) (508 - used) cfg = Some (n, d)"
      and rest: "put_at d (7 + used) [of_nat (n + 1)] = Some data'" "used' = used + unat (of_nat (n + 1) :: byte) + 4"
      using r by (auto simp: evpd_83_vendor_def Let_def put sz(1) bind_eq_Some_conv simp del: of_nat_Suc of_nat_add)
    have "n = length cfg" "length d = 512" using sp(2) [OF s] assms(1,2) by auto
    then show ?thesis using rest none s lb length_put_at [OF rest(1)] by auto
  qed
qed

text \<open>
  C38: The device identification page overruns its 512-byte stack buffer exactly when the serial
  number and the configuration string together exceed 470 characters: \<open>snprintf\<close> is given
  four bytes more than there are behind the designator header. Up to that length the page is
  built and no longer than the buffer.
\<close>
theorem evpd_83_overrun_iff:
  assumes "length wwn \<le> 246" and "length (cfgstring dev) < 2 ^ 32"
  shows "(evpd_83 dev None wwn = None \<longleftrightarrow> 470 < length wwn + length (cfgstring dev)) \<and>
    (\<forall>len data. evpd_83 dev None wwn = Some (len, data) \<longrightarrow> len \<le> 512 \<and> length data = 512)"
proof -
  let ?d0 = "(replicate 512 0)[1 := 0x83 :: byte]"
  obtain d1 where d1: "evpd_83_ids ?d0 wwn = Some (length wwn + 33, d1)" "length d1 = 512"
    using evpd_83_ids_ok [of ?d0 wwn] assms(1) by auto
  note v = evpd_83_vendor_iff [OF d1(2), of "length wwn + 33" "cfgstring dev"]
  have "length wwn + 33 \<le> 400" using assms(1) by simp
  note v = v(1) [OF this assms(2)] v(2) [OF this assms(2)]
  show ?thesis
  proof (cases "evpd_83_vendor d1 (length wwn + 33) (cfgstring dev)")
    case None
    then show ?thesis using v(1) by (simp add: evpd_83_def d1(1) del: One_nat_def)
  next
    case (Some r)
    obtain used d2 where r: "r = (used, d2)" by (cases r)
    have "used \<le> 508" "length d2 = 512" using v(2) Some r by auto
    then show ?thesis using Some r v(1) by (simp add: evpd_83_def d1(1) del: One_nat_def)
  qed
qed

theorem evpd_83_overrun_iff_witness:
  "evpd_83 (emul_dev\<lparr>cfgstring := replicate 500 CHR ''a''\<rparr>) None ''0123'' = None \<and>
   evpd_83 emul_dev None ''0123'' \<noteq> None"
  using evpd_83_overrun_iff [of "''0123''" "emul_dev\<lparr>cfgstring := replicate 500 CHR ''a''\<rparr>"]
    evpd_83_overrun_iff [of "''0123''" emul_dev] by (simp add: emul_dev_def)

end
