(* ===== verification/Zbc_Config.thy ===== *)
theory Zbc_Config
  imports Zbc_IO Tcmu_Emul
begin

text \<open>
  The configuration string of the zoned block device (\<open>file_zbc.c\<close>): the option parser and
  opening and closing a device. A C string is the list of its characters before the final zero, so
  \<open>*str\<close> at the end of the list is 0. The size the kernel reports for the device is a parameter.
\<close>

section \<open>strtoul\<close>

definition is_digit :: "char \<Rightarrow> bool" where
  "is_digit c \<longleftrightarrow> 48 \<le> (of_char c :: nat) \<and> (of_char c :: nat) \<le> 57"

definition is_space :: "char \<Rightarrow> bool" where
  "is_space c \<longleftrightarrow> (of_char c :: nat) = 32 \<or> (9 \<le> (of_char c :: nat) \<and> (of_char c :: nat) \<le> 13)"

fun digits_value :: "nat \<Rightarrow> string \<Rightarrow> nat" where
  "digits_value acc [] = acc"
| "digits_value acc (c # cs) = (if is_digit c then digits_value (acc * 10 + (of_char c - 48)) cs else acc)"

text \<open>
  \<open>strtoul(s, &end, 10)\<close>: white space, a sign, digits; a value beyond 64 bits saturates, a negative one
  wraps, and without digits \<open>end\<close> is \<open>s\<close>.
\<close>

definition strtoul :: "string \<Rightarrow> nat \<times> string" where
  "strtoul s =
     (let s1 = dropWhile is_space s;
          neg = (take 1 s1 = ''-'');
          s2 = (if neg \<or> take 1 s1 = ''+'' then drop 1 s1 else s1);
          v = digits_value 0 s2
      in
      if takeWhile is_digit s2 = [] then (0, s)
      else (if v \<ge> 2 ^ 64 then 2 ^ 64 - 1 else if neg then sub64 0 v else v, dropWhile is_digit s2))"

section \<open>Options\<close>

definition prefix_of :: "string \<Rightarrow> string \<Rightarrow> bool" where
  "prefix_of name s \<longleftrightarrow> take (length name) s = name"

definition zbc_parse_model :: "string \<Rightarrow> zbc_dev_config \<Rightarrow> string + (zbc_dev_config \<times> string)" where
  "zbc_parse_model val cfg =
     (if prefix_of ''HA'' val then Inr (cfg\<lparr>c_model := ZBC_HA\<rparr>, drop 2 val)
      else if prefix_of ''HM'' val then Inr (cfg\<lparr>c_model := ZBC_HM\<rparr>, drop 2 val)
      else Inl ''Invalid device model'')"

definition zbc_parse_lba :: "string \<Rightarrow> zbc_dev_config \<Rightarrow> string + (zbc_dev_config \<times> string)" where
  "zbc_parse_lba val cfg = (case strtoul val of (v, rest) \<Rightarrow>
     if v \<noteq> 512 \<and> v \<noteq> 4096 then Inl ''Invalid LBA size'' else Inr (cfg\<lparr>c_lba_size := v\<rparr>, rest))"

definition zbc_parse_zsize :: "string \<Rightarrow> zbc_dev_config \<Rightarrow> string + (zbc_dev_config \<times> string)" where
  "zbc_parse_zsize val cfg = (case strtoul val of (v, rest) \<Rightarrow>
     let z = mul64 (mul64 v 1024) 1024 in
     if z = 0 \<or> (of_nat z AND (of_nat z - 1) :: 64 word) \<noteq> 0 then Inl ''Invalid zone size''
     else Inr (cfg\<lparr>c_zone_size := z\<rparr>, rest))"

definition zbc_parse_conv :: "string \<Rightarrow> zbc_dev_config \<Rightarrow> string + (zbc_dev_config \<times> string)" where
  "zbc_parse_conv val cfg = (case strtoul val of (v, rest) \<Rightarrow> Inr (cfg\<lparr>c_conv_num := u32 v\<rparr>, rest))"

definition zbc_parse_open :: "string \<Rightarrow> zbc_dev_config \<Rightarrow> string + (zbc_dev_config \<times> string)" where
  "zbc_parse_open val cfg = (case strtoul val of (v, rest) \<Rightarrow>
     if u32 v = 0 then Inl ''Invalid number of open zones'' else Inr (cfg\<lparr>c_open_num := u32 v\<rparr>, rest))"

definition zbc_params :: "(string \<times> (string \<Rightarrow> zbc_dev_config \<Rightarrow> string + (zbc_dev_config \<times> string))) list" where
  "zbc_params = [(''model-'', zbc_parse_model), (''lba-'', zbc_parse_lba), (''zsize-'', zbc_parse_zsize),
     (''conv-'', zbc_parse_conv), (''open-'', zbc_parse_open)]"

lemma length_strtoul: "length (snd (strtoul s)) \<le> length s"
proof -
  let ?s1 = "dropWhile is_space s"
  have "length ?s1 \<le> length s" by (rule length_dropWhile_le)
  moreover have "length (dropWhile is_digit (drop 1 ?s1)) \<le> length ?s1" "length (dropWhile is_digit ?s1) \<le> length ?s1"
    using length_dropWhile_le [of is_digit "drop 1 ?s1"] length_dropWhile_le [of is_digit ?s1] by auto
  ultimately show ?thesis by (auto simp: strtoul_def Let_def)
qed

lemma length_parse:
  assumes "(name, parse) \<in> set zbc_params" and "parse s cfg = Inr (cfg', s')"
  shows "length s' \<le> length s"
  using assms length_strtoul [of s]
  by (auto simp: zbc_params_def zbc_parse_model_def zbc_parse_lba_def zbc_parse_zsize_def zbc_parse_conv_def
      zbc_parse_open_def Let_def split: if_splits prod.splits)

text \<open>The loop over the options: the string behind them and the configuration, or the error message.\<close>

function zbc_parse_options :: "string \<Rightarrow> zbc_dev_config \<Rightarrow> string + (zbc_dev_config \<times> string)" where
  "zbc_parse_options str cfg =
     (if str = [] \<or> hd str = CHR ''@'' then Inr (cfg, str)
      else
        case find (\<lambda>(name, parse). prefix_of name str) zbc_params of
          None \<Rightarrow> Inl ''Invalid option name''
        | Some (name, parse) \<Rightarrow>
            (case parse (drop (length name) str) cfg of
               Inl msg \<Rightarrow> Inl msg
             | Inr (cfg', rest) \<Rightarrow>
                 if take 1 rest \<noteq> ''/'' then Inr (cfg', rest) else zbc_parse_options (drop 1 rest) cfg'))"
  by pat_completeness auto

termination
proof (relation "measure (\<lambda>(str, cfg). length str)", goal_cases)
  case (2 str cfg r name parse q cfg' rest)
  then have "(name, parse) \<in> set zbc_params" by (auto simp: find_Some_iff) (metis nth_mem)
  moreover have "parse (drop (length name) str) cfg = Inr (cfg', rest)" using 2 by simp
  ultimately have "length rest \<le> length (drop (length name) str)" by (rule length_parse)
  moreover have "rest \<noteq> []" using 2 by auto
  ultimately show ?case using 2(1) by (cases rest) auto
qed simp

declare zbc_parse_options.simps [simp del]

abbreviation (input) ZBC_CONF_DEFAULT_ZSIZE :: nat where "ZBC_CONF_DEFAULT_ZSIZE \<equiv> 256 * 1024 * 1024"
abbreviation (input) ZBC_CONF_DEFAULT_OPEN_NUM :: nat where "ZBC_CONF_DEFAULT_OPEN_NUM \<equiv> 128"

definition default_config :: zbc_dev_config where
  "default_config = \<lparr>c_path = [], c_dev_size = 0, c_need_format = False, c_model = ZBC_HM, c_lba_size = 512,
     c_zone_size = ZBC_CONF_DEFAULT_ZSIZE, c_conv_num = ZBC_CONF_DEFAULT_CONV_NUM, c_open_num = ZBC_CONF_DEFAULT_OPEN_NUM\<rparr>"

definition config_format_error :: string where
  "config_format_error = ''Invalid configuration string format''"

definition zbc_parse_config :: "os_env \<Rightarrow> string \<Rightarrow> string + zbc_dev_config" where
  "zbc_parse_config env cfgstr =
     (if \<not> prefix_of ''zbc/'' cfgstr then Inl config_format_error
      else
        let str = drop 4 cfgstr;
            r = (if take 1 str = ''/'' then Inr (default_config, str)
                 else case zbc_parse_options str default_config of
                     Inl msg \<Rightarrow> Inl msg
                   | Inr (cfg, rest) \<Rightarrow> if take 1 rest \<noteq> ''@'' then Inl config_format_error
                       else Inr (cfg\<lparr>c_need_format := True\<rparr>, drop 1 rest))
        in case r of
             Inl msg \<Rightarrow> Inl msg
           | Inr (cfg, path) \<Rightarrow>
               let cfg1 = cfg\<lparr>c_path := path\<rparr>
               in Inr (if os_stat env = Stat_enoent then cfg1\<lparr>c_need_format := True\<rparr> else cfg1))"

section \<open>Opening and closing\<close>

abbreviation (input) ENODEV :: int where "ENODEV \<equiv> 19"

text \<open>\<open>disk\<close> is what the backstore file holds, \<open>dev_size\<close> what configfs reports; the handler's state is freed on failure.\<close>

definition zbc_open :: "os_env \<Rightarrow> int \<Rightarrow> mem \<Rightarrow> tcmu_device \<Rightarrow> (int \<times> tcmu_device \<times> zbc_dev option) option" where
  "zbc_open env dev_size disk dev =
     (case zbc_parse_config env (cfgstring dev) of
        Inl msg \<Rightarrow> Some (- EINVAL, dev, None)
      | Inr cfg \<Rightarrow>
          if dev_size = -1 then Some (- ENODEV, dev, None)
          else
            (case zbc_open_backstore env dev (fresh_dev (cfg\<lparr>c_dev_size := dev_size\<rparr>) disk) of
               None \<Rightarrow> None
             | Some (ret, dev', zd) \<Rightarrow> if ret \<noteq> 0 then Some (ret, dev', None) else Some (0, dev', Some zd)))"

text \<open>Closing unmaps the metadata, which leaves it in the file.\<close>

definition zbc_close :: "zbc_dev \<Rightarrow> mem" where
  "zbc_close zd = file_image zd"

section \<open>Numbers\<close>

fun dec_of :: "nat \<Rightarrow> string" where
  "dec_of n = (if n < 10 then [char_of (48 + n)] else dec_of (n div 10) @ [char_of (48 + n mod 10)])"

declare dec_of.simps [simp del]

lemma digit_char [simp]: "(d :: nat) < 10 \<Longrightarrow> is_digit (char_of (48 + d))" "(d :: nat) < 10 \<Longrightarrow> of_char (char_of (48 + d) :: char) - 48 = d"
  by (simp_all add: is_digit_def of_char_of)

lemma dec_of_digits: "list_all is_digit (dec_of n) \<and> dec_of n \<noteq> []"
proof (induction n rule: dec_of.induct)
  case (1 n)
  then show ?case by (cases "n < 10") (simp_all add: dec_of.simps [of n])
qed

lemma digits_value_append:
  "list_all is_digit xs \<Longrightarrow> digits_value acc (xs @ ys) = digits_value (digits_value acc xs) ys"
  by (induction xs arbitrary: acc) auto

lemma digits_value_dec: "digits_value 0 (dec_of n) = n"
proof (induction n rule: dec_of.induct)
  case (1 n)
  show ?case
  proof (cases "n < 10")
    case True
    then show ?thesis by (simp add: dec_of.simps [of n])
  next
    case False
    then show ?thesis using 1 dec_of_digits [of "n div 10"] by (simp add: dec_of.simps [of n] digits_value_append)
  qed
qed

lemma digit_not_sign: "is_digit c \<Longrightarrow> \<not> is_space c \<and> c \<noteq> CHR ''-'' \<and> c \<noteq> CHR ''+''"
  by (auto simp: is_digit_def is_space_def)

lemma strtoul_dec:
  assumes "n < 2 ^ 64" and "rest = [] \<or> \<not> is_digit (hd rest)"
  shows "strtoul (dec_of n @ rest) = (n, rest)"
proof -
  obtain c cs where d: "dec_of n = c # cs" "is_digit c" "list_all is_digit (dec_of n)"
    using dec_of_digits [of n] by (cases "dec_of n") auto
  have sp: "dropWhile is_space (dec_of n @ rest) = dec_of n @ rest" using d(1) digit_not_sign [OF d(2)] by simp
  have sg: "take 1 (dec_of n @ rest) \<noteq> ''-''" "take 1 (dec_of n @ rest) \<noteq> ''+''" using d(1) digit_not_sign [OF d(2)] by auto
  have v: "digits_value 0 (dec_of n @ rest) = n"
    using assms(2) by (cases rest) (auto simp: digits_value_append [OF d(3)] digits_value_dec)
  have t: "takeWhile is_digit (dec_of n @ rest) \<noteq> []" using d(1,2) by simp
  have dr: "dropWhile is_digit (dec_of n @ rest) = rest"
    using d(3) assms(2) by (cases rest) (auto simp: list_all_iff dropWhile_append)
  show ?thesis using assms(1) sg t by (simp add: strtoul_def Let_def sp v dr)
qed

lemma strtoul_bound: "fst (strtoul s) < 2 ^ 64"
  by (simp add: strtoul_def Let_def sub64_def)

section \<open>What the parser accepts\<close>

definition options_ok :: "zbc_dev_config \<Rightarrow> bool" where
  "options_ok cfg \<longleftrightarrow> c_model cfg \<in> {ZBC_HA, ZBC_HM} \<and> c_lba_size cfg \<in> {512, 4096} \<and>
     (\<exists>k. k < 64 \<and> c_zone_size cfg = 2 ^ k \<and> 20 \<le> k) \<and> c_conv_num cfg < 2 ^ 32 \<and> 0 < c_open_num cfg \<and> c_open_num cfg < 2 ^ 32"

lemma bit_of_nat_64: "bit (of_nat n :: 64 word) k \<longleftrightarrow> k < 64 \<and> bit n k"
  by transfer (simp add: bit_take_bit_iff bit_of_nat_iff_bit)

lemma and_pred_pow2:
  assumes "0 < z" "z < 2 ^ 64" "(of_nat z AND (of_nat z - 1) :: 64 word) = 0"
  shows "\<exists>k<64. z = 2 ^ k"
proof -
  obtain k where k: "2 ^ k \<le> z" "z < 2 ^ Suc k" using ex_power_ivl1 [of 2 z] assms(1) by auto
  have k64: "k < 64" using k(1) assms(2) by (metis order_le_less_trans power_less_imp_less_exp one_less_numeral_iff semiring_norm(76))
  show ?thesis
  proof (cases "z = 2 ^ k")
    case True then show ?thesis using k64 by blast
  next
    case False
    then have "2 ^ k \<le> z - 1" "z - 1 < 2 ^ Suc k" using k by auto
    moreover have "bit n k" if "2 ^ k \<le> n" "n < 2 ^ Suc k" for n :: nat
      using that by (simp add: bit_iff_odd div_nat_eqI [of "2 ^ k" 1 n])
    ultimately have "bit z k" "bit (z - 1) k" using k by auto
    moreover have "(of_nat z - 1 :: 64 word) = of_nat (z - 1)" using assms(1) by (simp add: of_nat_diff)
    ultimately have "bit (of_nat z AND (of_nat z - 1) :: 64 word) k"
      using k64 by (simp add: bit_and_iff bit_of_nat_64)
    then show ?thesis using assms(3) by simp
  qed
qed

lemma parse_zsize_ok:
  assumes "zbc_parse_zsize s cfg = Inr (cfg', s')"
  shows "\<exists>k. k < 64 \<and> c_zone_size cfg' = 2 ^ k \<and> 20 \<le> k"
proof -
  obtain v where z: "c_zone_size cfg' = mul64 (mul64 v 1024) 1024" "c_zone_size cfg' \<noteq> 0"
    "(of_nat (c_zone_size cfg') AND (of_nat (c_zone_size cfg') - 1) :: 64 word) = 0"
    using assms by (auto simp: zbc_parse_zsize_def Let_def split: if_splits prod.splits)
  have lt: "c_zone_size cfg' < 2 ^ 64" by (simp add: z(1) mul64_def)
  obtain k where k: "k < 64" "c_zone_size cfg' = 2 ^ k" using and_pred_pow2 [OF _ lt z(3)] z(2) by auto
  have "2 ^ 20 dvd mul64 (mul64 v 1024) 1024"
    by (simp add: mul64_def mod_mult_left_eq dvd_mod mult.assoc)
  then have "20 \<le> k" using k(2) z(1) by (simp add: power_dvd_imp_le [of 2 20 k])
  with k show ?thesis by blast
qed

lemma parse_param_ok:
  assumes "(name, parse) \<in> set zbc_params" and "parse s cfg = Inr (cfg', s')" and "options_ok cfg"
  shows "options_ok cfg'" "c_path cfg' = c_path cfg" "c_need_format cfg' = c_need_format cfg"
proof -
  have "options_ok cfg' \<and> c_path cfg' = c_path cfg \<and> c_need_format cfg' = c_need_format cfg"
  proof (cases "parse = zbc_parse_zsize")
    case True
    then have p: "zbc_parse_zsize s cfg = Inr (cfg', s')" using assms(2) by simp
    then obtain z where z: "cfg' = cfg\<lparr>c_zone_size := z\<rparr>"
      by (auto simp: zbc_parse_zsize_def Let_def split: if_splits prod.splits)
    then show ?thesis using parse_zsize_ok [OF p] assms(3) by (simp add: options_ok_def)
  next
    case False
    then show ?thesis using assms
      by (auto simp: zbc_params_def zbc_parse_model_def zbc_parse_lba_def zbc_parse_conv_def zbc_parse_open_def
          options_ok_def u32_def split: if_splits prod.splits)
  qed
  then show "options_ok cfg'" "c_path cfg' = c_path cfg" "c_need_format cfg' = c_need_format cfg" by auto
qed
lemma parse_options_ok:
  "zbc_parse_options str cfg = Inr (cfg', rest) \<Longrightarrow> options_ok cfg \<Longrightarrow>
   options_ok cfg' \<and> c_path cfg' = c_path cfg \<and> c_need_format cfg' = c_need_format cfg"
proof (induction str cfg rule: zbc_parse_options.induct)
  case (1 str cfg)
  show ?case
  proof (cases "str = [] \<or> hd str = CHR ''@''")
    case True
    then show ?thesis using "1.prems" by (simp add: zbc_parse_options.simps [of str])
  next
    case False
    obtain name parse where f: "find (\<lambda>(name, parse). prefix_of name str) zbc_params = Some (name, parse)"
      using "1.prems"(1) False by (auto simp: zbc_parse_options.simps [of str] split: option.splits)
    then have mem: "(name, parse) \<in> set zbc_params" by (auto simp: find_Some_iff) (metis nth_mem)
    obtain cfg1 rest1 where p: "parse (drop (length name) str) cfg = Inr (cfg1, rest1)"
      using "1.prems"(1) False f by (auto simp: zbc_parse_options.simps [of str] split: sum.splits)
    note ok = parse_param_ok [OF mem p "1.prems"(2)]
    show ?thesis
      using "1.prems"(1) "1.IH" [OF False f refl p refl] False f p ok
      by (auto simp: zbc_parse_options.simps [of str] split: if_splits)
  qed
qed

lemma default_config_ok: "options_ok default_config"
  by (auto simp: options_ok_def default_config_def intro!: exI [of _ 28])

lemma prefix_zbc: "prefix_of ''zbc/'' s \<longleftrightarrow> take 4 s = ''zbc/''"
  by (simp add: prefix_of_def numeral_eq_Suc)

text \<open>
  Whatever the configuration string, the parser ends, and a configuration it accepts is one
  of the supported ones: host-aware or host-managed, blocks of 512 or 4096 bytes, a power of two
  of at least 1 MiB as the zone size, at least one open zone; and it is formatted exactly when options
  are given or the file does not exist.
\<close>
theorem zbc_parse_config_sound:
  assumes "zbc_parse_config env cfgstr = Inr cfg"
  shows "c_model cfg \<in> {ZBC_HA, ZBC_HM} \<and> c_lba_size cfg \<in> {512, 4096} \<and>
    (\<exists>k. 20 \<le> k \<and> k < 64 \<and> c_zone_size cfg = 2 ^ k) \<and> 0 < c_open_num cfg \<and> c_open_num cfg < 2 ^ 32 \<and>
    take 4 cfgstr = ''zbc/'' \<and>
    (c_need_format cfg \<longleftrightarrow> cfgstr ! 4 \<noteq> CHR ''/'' \<or> os_stat env = Stat_enoent)"
proof -
  let ?str = "drop 4 cfgstr"
  have p: "take 4 cfgstr = ''zbc/''" using assms by (auto simp: zbc_parse_config_def prefix_zbc split: if_splits)
  have ne: "cfgstr \<noteq> []" using p by auto
  have hd: "take 1 ?str = ''/'' \<longleftrightarrow> ?str \<noteq> [] \<and> cfgstr ! 4 = CHR ''/''"
    by (cases ?str) (auto simp: drop_eq_Nil nth_via_drop)
  have str: "?str \<noteq> []"
    using assms by (auto simp: zbc_parse_config_def zbc_parse_options.simps [of "[]"] Let_def split: if_splits)
  obtain c0 path where c0: "options_ok c0" "c_need_format c0 \<longleftrightarrow> take 1 ?str \<noteq> ''/''"
    "cfg = (if os_stat env = Stat_enoent then c0\<lparr>c_path := path, c_need_format := True\<rparr> else c0\<lparr>c_path := path\<rparr>)"
  proof (cases "take 1 ?str = ''/''")
    case True
    moreover have "\<not> c_need_format default_config" by (simp add: default_config_def)
    ultimately show thesis using assms that [of default_config ?str] default_config_ok p
      by (auto simp: zbc_parse_config_def prefix_zbc Let_def split: if_splits)
  next
    case False
    then obtain c1 rest where r: "zbc_parse_options ?str default_config = Inr (c1, rest)" "take 1 rest = ''@''"
      using assms p by (auto simp: zbc_parse_config_def prefix_zbc split: if_splits sum.splits)
    have "options_ok c1" using parse_options_ok [OF r(1) default_config_ok] by simp
    then show thesis using assms that [of "c1\<lparr>c_need_format := True\<rparr>" "drop 1 rest"] False r p
      by (auto simp: zbc_parse_config_def prefix_zbc options_ok_def Let_def split: if_splits)
  qed
  then have "options_ok cfg" by (auto simp: options_ok_def)
  moreover have "c_need_format cfg \<longleftrightarrow> take 1 ?str \<noteq> ''/'' \<or> os_stat env = Stat_enoent" using c0 by auto
  ultimately show ?thesis using p hd str by (auto simp: options_ok_def)
qed

theorem zbc_parse_config_sound_witness:
  "\<exists>cfg. zbc_parse_config (sample_env (Stat_ok 0 True)) ''zbc//tmp/disk'' = Inr cfg \<and> c_zone_size cfg = 268435456 \<and>
     \<not> c_need_format cfg \<and> (\<exists>k. 20 \<le> k \<and> k < 64 \<and> c_zone_size cfg = 2 ^ k)"
proof -
  let ?cfg = "default_config\<lparr>c_path := ''/tmp/disk''\<rparr>"
  have "zbc_parse_config (sample_env (Stat_ok 0 True)) ''zbc//tmp/disk'' = Inr ?cfg"
    by (simp add: zbc_parse_config_def prefix_zbc sample_env_def)
  from this zbc_parse_config_sound [OF this] show ?thesis by (auto simp: default_config_def)
qed

text \<open>The option string of a configuration.\<close>

definition options_string :: "zbc_dev_config \<Rightarrow> string" where
  "options_string cfg =
     ''model-'' @ (if c_model cfg = ZBC_HA then ''HA'' else ''HM'') @ ''/lba-'' @ dec_of (c_lba_size cfg) @
     ''/zsize-'' @ dec_of (c_zone_size cfg div 2 ^ 20) @ ''/conv-'' @ dec_of (c_conv_num cfg) @
     ''/open-'' @ dec_of (c_open_num cfg) @ ''@'' @ c_path cfg"

lemma param_find:
  "find (\<lambda>(name, parse). prefix_of name (''model-'' @ s)) zbc_params = Some (''model-'', zbc_parse_model)"
  "find (\<lambda>(name, parse). prefix_of name (''lba-'' @ s)) zbc_params = Some (''lba-'', zbc_parse_lba)"
  "find (\<lambda>(name, parse). prefix_of name (''zsize-'' @ s)) zbc_params = Some (''zsize-'', zbc_parse_zsize)"
  "find (\<lambda>(name, parse). prefix_of name (''conv-'' @ s)) zbc_params = Some (''conv-'', zbc_parse_conv)"
  "find (\<lambda>(name, parse). prefix_of name (''open-'' @ s)) zbc_params = Some (''open-'', zbc_parse_open)"
  by (simp_all add: zbc_params_def prefix_of_def)

lemma parse_options_step:
  assumes "find (\<lambda>(nm, parse). prefix_of nm (name @ val @ rest)) zbc_params = Some (name, parse)"
    and "name \<noteq> [] \<and> hd name \<noteq> CHR ''@''" and "parse (val @ rest) cfg = Inr (cfg', rest)"
  shows "zbc_parse_options (name @ val @ rest) cfg =
    (if take 1 rest \<noteq> ''/'' then Inr (cfg', rest) else zbc_parse_options (drop 1 rest) cfg')"
  using assms by (simp add: zbc_parse_options.simps [of "name @ val @ rest"])

lemma pow2_and_pred_64:
  assumes "k < 64"
  shows "(of_nat (2 ^ k) AND (of_nat (2 ^ k) - 1) :: 64 word) = 0"
proof -
  have "(of_nat (2 ^ k) - 1 :: 64 word) = mask k" by (simp add: mask_eq_exp_minus_1)
  moreover have "(of_nat (2 ^ k) AND mask k :: 64 word) = 0"
    by (rule bit_word_eqI) (auto simp: bit_and_iff bit_mask_iff bit_exp_iff)
  ultimately show ?thesis by simp
qed

lemmas options_steps = parse_options_step [OF param_find(1)] parse_options_step [OF param_find(2)]
  parse_options_step [OF param_find(3)] parse_options_step [OF param_find(4)] parse_options_step [OF param_find(5)]

lemma not_digit [simp]: "\<not> is_digit CHR ''/''" "\<not> is_digit CHR ''@''"
  by (simp_all add: is_digit_def)

lemma parse_values:
  assumes "rest = [] \<or> \<not> is_digit (hd rest)"
  shows "zbc_parse_model ((if mdl = ZBC_HA then ''HA'' else ''HM'') @ rest) cfg =
      Inr (cfg\<lparr>c_model := if mdl = ZBC_HA then ZBC_HA else ZBC_HM\<rparr>, rest)"
    and "v \<in> {512, 4096} \<Longrightarrow> zbc_parse_lba (dec_of v @ rest) cfg = Inr (cfg\<lparr>c_lba_size := v\<rparr>, rest)"
    and "20 \<le> k \<Longrightarrow> k < 64 \<Longrightarrow> zbc_parse_zsize (dec_of (2 ^ k div 2 ^ 20) @ rest) cfg = Inr (cfg\<lparr>c_zone_size := 2 ^ k\<rparr>, rest)"
    and "v < 2 ^ 32 \<Longrightarrow> zbc_parse_conv (dec_of v @ rest) cfg = Inr (cfg\<lparr>c_conv_num := v\<rparr>, rest)"
    and "0 < v \<Longrightarrow> v < 2 ^ 32 \<Longrightarrow> zbc_parse_open (dec_of v @ rest) cfg = Inr (cfg\<lparr>c_open_num := v\<rparr>, rest)"
proof -
  show "zbc_parse_model ((if mdl = ZBC_HA then ''HA'' else ''HM'') @ rest) cfg =
      Inr (cfg\<lparr>c_model := if mdl = ZBC_HA then ZBC_HA else ZBC_HM\<rparr>, rest)"
    by (simp add: zbc_parse_model_def prefix_of_def)
  note st = strtoul_dec [OF _ assms]
  show "v \<in> {512, 4096} \<Longrightarrow> zbc_parse_lba (dec_of v @ rest) cfg = Inr (cfg\<lparr>c_lba_size := v\<rparr>, rest)"
    by (auto simp: zbc_parse_lba_def st)
  show "v < 2 ^ 32 \<Longrightarrow> zbc_parse_conv (dec_of v @ rest) cfg = Inr (cfg\<lparr>c_conv_num := v\<rparr>, rest)"
    using st [of v] by (simp add: zbc_parse_conv_def u32_id)
  show "0 < v \<Longrightarrow> v < 2 ^ 32 \<Longrightarrow> zbc_parse_open (dec_of v @ rest) cfg = Inr (cfg\<lparr>c_open_num := v\<rparr>, rest)"
    using st [of v] by (simp add: zbc_parse_open_def u32_id)
  show "zbc_parse_zsize (dec_of (2 ^ k div 2 ^ 20) @ rest) cfg = Inr (cfg\<lparr>c_zone_size := 2 ^ k\<rparr>, rest)"
    if k: "20 \<le> k" "k < 64"
  proof -
    obtain j where j: "k = 20 + j" using k(1) le_Suc_ex by blast
    have lt: "(2 :: nat) ^ (j + n) < 2 ^ 64" if "n \<le> 20" for n
      using k j that by (intro power_strict_increasing) auto
    have "mul64 (2 ^ j) (2 ^ 10) = 2 ^ (j + 10)" "mul64 (2 ^ (j + 10)) (2 ^ 10) = 2 ^ (j + 20)"
      using lt [of 10] lt [of 20] by (simp_all only: mul64_def flip: power_add) (simp_all add: add.assoc)
    then have z: "mul64 (mul64 (2 ^ j) 1024) 1024 = 2 ^ k" by (simp add: j add.commute)
    have d: "(2 :: nat) ^ k div 2 ^ 20 = 2 ^ j" by (simp add: j power_add)
    show ?thesis
      using st [of "2 ^ j"] lt [of 0] pow2_and_pred_64 [OF k(2)]
      unfolding d by (simp add: zbc_parse_zsize_def z del: of_nat_power)
  qed
qed

lemma parse_options_string:
  assumes "options_ok cfg"
  shows "zbc_parse_options (options_string cfg) default_config =
    Inr (cfg\<lparr>c_path := [], c_dev_size := 0, c_need_format := False\<rparr>, CHR ''@'' # c_path cfg)"
proof -
  obtain k where k: "20 \<le> k" "k < 64" "c_zone_size cfg = 2 ^ k" using assms by (auto simp: options_ok_def)
  have ok: "c_lba_size cfg \<in> {512, 4096}" "c_conv_num cfg < 2 ^ 32" "0 < c_open_num cfg" "c_open_num cfg < 2 ^ 32"
    "(if c_model cfg = ZBC_HA then ZBC_HA else ZBC_HM) = c_model cfg"
    using assms by (auto simp: options_ok_def)
  let ?r5 = "CHR ''@'' # c_path cfg"
  let ?s5 = "''open-'' @ dec_of (c_open_num cfg) @ ?r5"
  let ?s4 = "''conv-'' @ dec_of (c_conv_num cfg) @ CHR ''/'' # ?s5"
  let ?s3 = "''zsize-'' @ dec_of (2 ^ k div 2 ^ 20) @ CHR ''/'' # ?s4"
  let ?s2 = "''lba-'' @ dec_of (c_lba_size cfg) @ CHR ''/'' # ?s3"
  let ?m = "if c_model cfg = ZBC_HA then ''HA'' else ''HM''"
  have str: "options_string cfg = ''model-'' @ ?m @ CHR ''/'' # ?s2" by (simp add: options_string_def k(3))
  have s1: "zbc_parse_options (options_string cfg) c = zbc_parse_options ?s2 (c\<lparr>c_model := c_model cfg\<rparr>)" for c
    unfolding str by (subst options_steps(1)) (simp_all add: parse_values(1) ok(5) del: append.simps)
  have s2: "zbc_parse_options ?s2 c = zbc_parse_options ?s3 (c\<lparr>c_lba_size := c_lba_size cfg\<rparr>)" for c
    by (subst options_steps(2)) (use ok in \<open>simp_all add: parse_values(2) del: append.simps\<close>)
  have s3: "zbc_parse_options ?s3 c = zbc_parse_options ?s4 (c\<lparr>c_zone_size := 2 ^ k\<rparr>)" for c
    by (subst options_steps(3)) (use k parse_values(3) [OF _ k(1,2)] in \<open>simp_all del: append.simps\<close>)
  have s4: "zbc_parse_options ?s4 c = zbc_parse_options ?s5 (c\<lparr>c_conv_num := c_conv_num cfg\<rparr>)" for c
    by (subst options_steps(4)) (use ok in \<open>simp_all add: parse_values(4) del: append.simps\<close>)
  have s5: "zbc_parse_options ?s5 c = Inr (c\<lparr>c_open_num := c_open_num cfg\<rparr>, ?r5)" for c
    by (subst options_steps(5)) (use ok in \<open>simp_all add: parse_values(5) del: append.simps\<close>)
  show ?thesis unfolding s1 s2 s3 s4 s5 by (simp add: default_config_def k(3) [symmetric])
qed

lemma parse_config_string:
  assumes "options_ok cfg" and "c_need_format cfg" and "c_dev_size cfg = 0"
  shows "zbc_parse_config env (''zbc/'' @ options_string cfg) = Inr cfg"
proof -
  have h: "take 1 (options_string cfg) \<noteq> ''/''" "drop 4 (''zbc/'' @ options_string cfg) = options_string cfg"
    by (simp_all add: options_string_def)
  have "cfg\<lparr>c_dev_size := 0, c_need_format := True\<rparr> = cfg" "cfg\<lparr>c_need_format := True\<rparr> = cfg" using assms(2,3) by (cases cfg, simp)+
  then show ?thesis
    using h(1) by (simp add: zbc_parse_config_def prefix_zbc parse_options_string [OF assms(1)] Let_def)
qed

text \<open>
  The configuration syntax is complete: every supported configuration is the result of parsing
  the option string that spells it out.
\<close>
theorem zbc_parse_config_roundtrip:
  assumes "options_ok cfg" and "c_need_format cfg" and "c_dev_size cfg = 0"
  shows "zbc_parse_config env (''zbc/'' @ options_string cfg) = Inr cfg"
  by (rule parse_config_string [OF assms])

definition ha_config :: zbc_dev_config where
  "ha_config = \<lparr>c_path = ''/tmp/disk'', c_dev_size = 0, c_need_format = True, c_model = ZBC_HA,
     c_lba_size = 4096, c_zone_size = 2 ^ 27, c_conv_num = 10, c_open_num = 32\<rparr>"

lemma ha_config_ok: "options_ok ha_config"
  by (auto simp: options_ok_def ha_config_def intro!: exI [of _ 27])

theorem zbc_parse_config_roundtrip_witness:
  "zbc_parse_config (sample_env Stat_enoent) ''zbc/model-HA/lba-4096/zsize-128/conv-10/open-32@/tmp/disk'' = Inr ha_config"
proof -
  have "dec_of 4096 = ''4096''" "dec_of 128 = ''128''" "dec_of 10 = ''10''" "dec_of 32 = ''32''" by code_simp+
  then have "''zbc/'' @ options_string ha_config = ''zbc/model-HA/lba-4096/zsize-128/conv-10/open-32@/tmp/disk''"
    by (simp add: ha_config_def options_string_def)
  moreover have "c_need_format ha_config" "c_dev_size ha_config = 0" by (simp_all add: ha_config_def)
  ultimately show ?thesis using zbc_parse_config_roundtrip [OF ha_config_ok, of "sample_env Stat_enoent"] by simp
qed

lemma if_eqI: "x = z \<Longrightarrow> y = z \<Longrightarrow> (if P then x else y) = z"
  by simp

lemma check_meta_keeps:
  "zdev_cfg (snd (zbc_check_meta env a b zd)) = zdev_cfg zd"
  "nr_imp_open (snd (zbc_check_meta env a b zd)) = nr_imp_open zd"
  "nr_exp_open (snd (zbc_check_meta env a b zd)) = nr_exp_open zd"
  unfolding zbc_check_meta_def Let_def
  by (simp_all only: if_distrib [of snd] if_distrib [of zdev_cfg] if_distrib [of nr_imp_open] if_distrib [of nr_exp_open] snd_conv)
    (intro if_eqI; simp)+

lemma open_formats_run:
  assumes os: "os_ok env" and st: "\<forall>e. os_stat env \<noteq> Stat_error e" "\<forall>n. os_stat env \<noteq> Stat_ok n False"
    and cfg: "zbc_parse_config env (cfgstring dev) = Inr cfg" "c_need_format cfg"
    and fit: "cfg_ok (cfg\<lparr>c_dev_size := dev_size\<rparr>)"
  shows "\<exists>dev' zd. zbc_open env dev_size disk dev = Some (0, dev', Some zd) \<and> zbc_inv zd \<and> open_limit zd \<and>
    capacity zd = nat dev_size div c_lba_size cfg \<and> num_lbas dev' = capacity zd \<and> block_size dev' = c_lba_size cfg \<and> lba_size zd = c_lba_size cfg \<and>
    (\<forall>i < nr_zones zd. z_cond (zones zd ! i) = (if i < nr_conv_zones zd then ZBC_ZONE_COND_NOT_WP else ZBC_ZONE_COND_EMPTY))"
proof -
  let ?cfg = "cfg\<lparr>c_dev_size := dev_size\<rparr>"
  let ?zd0 = "fresh_dev ?cfg disk"
  let ?flen = "case os_stat env of Stat_ok n r \<Rightarrow> n | _ \<Rightarrow> 0"
  have upd: "?cfg\<lparr>c_need_format := True\<rparr> = ?cfg" using cfg(2) by (cases cfg) simp
  then have z1: "?zd0\<lparr>zdev_cfg := (zdev_cfg ?zd0)\<lparr>c_need_format := True\<rparr>\<rparr> = ?zd0" by (simp add: fresh_dev_def)
  obtain ok zd2 where ck: "zbc_check_meta env ?flen ?flen ?zd0 = (ok, zd2)" by (metis surj_pair)
  have zd2: "zdev_cfg zd2 = ?cfg" "nr_imp_open zd2 = 0" "nr_exp_open zd2 = 0"
    using check_meta_keeps [of env ?flen ?flen ?zd0] ck by (simp_all add: fresh_dev_def)
  let ?zd3 = "zd2\<lparr>zdev_cfg := (zdev_cfg zd2)\<lparr>c_need_format := True\<rparr>\<rparr>"
  have nf: "c_need_format (zdev_cfg zd2) \<or> \<not> ok" using zd2(1) cfg(2) by simp
  have c3: "cfg_ok (zdev_cfg ?zd3)" "nr_imp_open ?zd3 = 0" "nr_exp_open ?zd3 = 0" using fit upd zd2 by simp_all
  obtain zd' where f: "zbc_format_meta env ?flen ?zd3 = Some (0, zd')" "zbc_inv zd'" "params_ok zd'" "nr_imp_open zd' = 0"
      "nr_exp_open zd' = 0" "capacity zd' = nat (c_dev_size (zdev_cfg ?zd3)) div c_lba_size (zdev_cfg ?zd3)"
      "\<forall>i < nr_zones zd'. z_cond (zones zd' ! i) = (if i < nr_conv_zones zd' then ZBC_ZONE_COND_NOT_WP else ZBC_ZONE_COND_EMPTY)"
      "lba_size zd' = c_lba_size (zdev_cfg ?zd3)"
    by (rule format_meta_run [OF c3(1) os c3(2,3), of ?flen]) (rule that, assumption+)
  have ds: "dev_size \<noteq> -1" using fit by (auto simp: cfg_ok_def)
  have bs: "zbc_open_backstore env dev ?zd0 =
      Some (0, tcmu_set_dev_num_lbas (tcmu_set_dev_block_size dev (lba_size zd')) (capacity zd'), zd')"
  proof (cases "os_stat env")
    case Stat_enoent
    then show ?thesis using ck f(1) os by (simp add: zbc_open_backstore_def z1 os_ok_def nf)
  next
    case (Stat_error e)
    then show ?thesis using st(1) by simp
  next
    case (Stat_ok n r)
    then show ?thesis using st(2) ck f(1) os by (cases r) (simp_all add: zbc_open_backstore_def os_ok_def nf)
  qed
  have "u64 (capacity zd') = capacity zd'" "u32 (lba_size zd') = lba_size zd'" "0 < nr_open_zones zd'"
    using f(3) by (auto simp: params_ok_def u64_id u32_id)
  then show ?thesis
    using f zd2(1) by (simp add: zbc_open_def cfg(1) ds bs open_limit_def)
qed

text \<open>
  Opening a device whose configuration string has options, or whose file is missing, formats it:
  whatever the file held, the handler starts from a well-formed device of the size the kernel
  reports, with every sequential zone empty, and tells the core the capacity and block size. So a
  daemon that reopens a device with the same option string loses all write pointers.
\<close>
theorem zbc_open_formats:
  assumes os: "os_ok env" and st: "\<forall>e. os_stat env \<noteq> Stat_error e" "\<forall>n. os_stat env \<noteq> Stat_ok n False"
    and cfg: "zbc_parse_config env (cfgstring dev) = Inr cfg" "c_need_format cfg"
    and fit: "cfg_ok (cfg\<lparr>c_dev_size := dev_size\<rparr>)"
  shows "\<exists>dev' zd. zbc_open env dev_size disk dev = Some (0, dev', Some zd) \<and> zbc_inv zd \<and> open_limit zd \<and>
    capacity zd = nat dev_size div c_lba_size cfg \<and> num_lbas dev' = capacity zd \<and> block_size dev' = c_lba_size cfg \<and> lba_size zd = c_lba_size cfg \<and>
    (\<forall>i < nr_zones zd. z_cond (zones zd ! i) = (if i < nr_conv_zones zd then ZBC_ZONE_COND_NOT_WP else ZBC_ZONE_COND_EMPTY))"
  by (rule open_formats_run [OF assms])

definition open_dev :: tcmu_device where
  "open_dev = emul_dev\<lparr>cfgstring := ''zbc/'' @ options_string ha_config\<rparr>"

theorem zbc_open_formats_witness:
  "\<forall>disk. \<exists>dev' zd. zbc_open (sample_env (Stat_ok 0 True)) 10737418240 disk open_dev = Some (0, dev', Some zd) \<and> zbc_inv zd \<and>
     num_lbas dev' = 2621440"
proof
  fix disk
  let ?env = "sample_env (Stat_ok 0 True)"
  have "c_need_format ha_config" "c_dev_size ha_config = 0" by (simp_all add: ha_config_def)
  then have "zbc_parse_config ?env (cfgstring open_dev) = Inr ha_config"
    using parse_config_string [OF ha_config_ok] by (simp add: open_dev_def)
  moreover have "cfg_ok (ha_config\<lparr>c_dev_size := 10737418240\<rparr>)" by (simp add: cfg_ok_def ha_config_def)
  ultimately show "\<exists>dev' zd. zbc_open ?env 10737418240 disk open_dev = Some (0, dev', Some zd) \<and> zbc_inv zd \<and> num_lbas dev' = 2621440"
    using zbc_open_formats [of ?env open_dev ha_config 10737418240 disk]
    by (auto simp: sample_env_def os_ok_def page_ok_def ha_config_def)
qed

end
