(* ===== verification/Zbc_Cmd.thy ===== *)
theory Zbc_Cmd
  imports Zbc_Config
begin

unbundle bit_operations_syntax

text \<open>
  The command dispatcher of the zoned block device (\<open>zbc_handle_cmd\<close> of \<open>file_zbc.c\<close>) and the
  commands that only answer: INQUIRY, READ CAPACITY and MODE SENSE. The state of a command is the initiator's
  memory, the device and the command. The last section runs arbitrary sequences of commands.
  The serial number and the \<open>hw_block_size\<close> attribute, which the code reads from configfs, are parameters.
\<close>

section \<open>Answers\<close>

definition zbc_respond :: "mem \<Rightarrow> zbc_dev \<Rightarrow> tcmulib_cmd \<Rightarrow> byte list \<Rightarrow> nat \<Rightarrow> zbc_io_result" where
  "zbc_respond m zd cmd data len =
     (case cmd_respond m cmd data len of (c, m', cmd') \<Rightarrow> Some (TCMU_STS_OK, m', zd, cmd'))"

definition zbc_vpd :: "zbc_dev \<Rightarrow> byte \<Rightarrow> byte list" where
  "zbc_vpd zd pg = (replicate 512 0)[0 := of_nat (m_model (meta zd)), 1 := pg]"

definition zbc_evpd_inquiry :: "string option \<Rightarrow> int \<Rightarrow> mem \<Rightarrow> tcmu_device \<Rightarrow> zbc_dev \<Rightarrow> tcmulib_cmd \<Rightarrow> zbc_io_result" where
  "zbc_evpd_inquiry wwn hw_block_size m dev zd cmd =
     (let data = zbc_vpd zd (cdb cmd 2) in
      if cdb cmd 2 = 0x00 then
        zbc_respond m zd cmd (buf_put data 3 [5, 0x83, 0xb0, 0xb1, 0xb6]) 8
      else if cdb cmd 2 = 0x83 then
        case wwn of
          None \<Rightarrow> zbc_io_fail m zd cmd HARDWARE_ERROR ASC_INTERNAL_TARGET_FAILURE
        | Some w \<Rightarrow>
            (case evpd_83_ids data w of
               None \<Rightarrow> None
             | Some (used, data') \<Rightarrow> zbc_respond m zd cmd (buf_put data' 2 (be_enc 2 (u16 used))) (used + 4))
      else if cdb cmd 2 = 0xb0 then
        if hw_block_size \<le> 0 then zbc_io_fail m zd cmd ILLEGAL_REQUEST ASC_INVALID_FIELD_IN_CDB
        else if tcmu_get_dev_max_xfer_len dev = 0 then zbc_io_fail m zd cmd HARDWARE_ERROR ASC_INTERNAL_TARGET_FAILURE
        else
          let xl = be_enc 4 (tcmu_get_dev_max_xfer_len dev);
              data1 = buf_put data 2 (be_enc 2 0x3c @ [0x01, 0x01])
          in zbc_respond m zd cmd (buf_put (buf_put data1 8 (xl @ xl)) 36 (be_enc 8 VPD_MAX_WRITE_SAME_LENGTH)) 64
      else if cdb cmd 2 = 0xb1 then
        zbc_respond m zd cmd
          (buf_put data 2 (be_enc 2 0x3c @ be_enc 2 0x1C20 @ [0, 0, if zdev_model zd = ZBC_HA then 0x02 OR 0x10 else 0x02])) 64
      else if cdb cmd 2 = 0xb6 then
        let data1 = buf_put data 2 (be_enc 2 0x3c @ [0x01]);
            n = be_enc 4 (nr_open_zones zd)
        in zbc_respond m zd cmd (if zdev_model zd = ZBC_HA then buf_put data1 8 (n @ n) else buf_put data1 16 n) 64
      else zbc_io_fail m zd cmd ILLEGAL_REQUEST ASC_INVALID_FIELD_IN_CDB)"

definition zbc_std_inquiry :: "mem \<Rightarrow> zbc_dev \<Rightarrow> tcmulib_cmd \<Rightarrow> zbc_io_result" where
  "zbc_std_inquiry m zd cmd = zbc_respond m zd cmd
     ([of_nat (m_model (meta zd)), 0, 0x05, 0x02, 31, 0, 0, 0x02] @ bytes_of ''LIO-ORG '' @
      bytes_of ''TCMU ZBC device'' @ [0] @ bytes_of ''0002'') 36"

definition zbc_inquiry :: "string option \<Rightarrow> int \<Rightarrow> mem \<Rightarrow> tcmu_device \<Rightarrow> zbc_dev \<Rightarrow> tcmulib_cmd \<Rightarrow> zbc_io_result" where
  "zbc_inquiry wwn hw m dev zd cmd =
     (if cdb cmd 1 AND 0x01 \<noteq> 0 then zbc_evpd_inquiry wwn hw m dev zd cmd
      else if cdb cmd 2 \<noteq> 0 then zbc_io_fail m zd cmd ILLEGAL_REQUEST ASC_INVALID_FIELD_IN_CDB
      else zbc_std_inquiry m zd cmd)"

definition zbc_read_capacity :: "mem \<Rightarrow> zbc_dev \<Rightarrow> tcmulib_cmd \<Rightarrow> zbc_io_result" where
  "zbc_read_capacity m zd cmd =
     zbc_respond m zd cmd (be_enc 8 (sub64 (capacity zd) 1) @ be_enc 4 (u32 (lba_size zd)) @ [0x10] @ replicate 19 0) 32"

text \<open>The mode pages, with the space they need; \<open>None\<close> is the negative return when there is not enough.\<close>

definition zbc_mode_sense_rwrecovery_page :: "nat \<Rightarrow> byte list option" where
  "zbc_mode_sense_rwrecovery_page buf_len = (if buf_len < 12 then None else Some ([0x1, 0xa] @ replicate 10 0))"

definition zbc_mode_sense_cache_page :: "nat \<Rightarrow> byte list option" where
  "zbc_mode_sense_cache_page buf_len = (if buf_len < 20 then None else Some ([0x08, 0x12, 0x04] @ replicate 17 0))"

definition zbc_mode_sense_control_page :: "nat \<Rightarrow> byte list option" where
  "zbc_mode_sense_control_page buf_len =
     (if buf_len < 12 then None else Some [0x0a, 0x0a, 0x02, 0, 0, 0x40, 0, 0, 0xff, 0xff, 0, 0])"

definition zbc_modesense_handlers :: "(byte \<times> byte \<times> (nat \<Rightarrow> byte list option)) list" where
  "zbc_modesense_handlers = [(0x01, 0, zbc_mode_sense_rwrecovery_page), (0x08, 0, zbc_mode_sense_cache_page),
     (0x0a, 0, zbc_mode_sense_control_page)]"

text \<open>The loop over all pages stops once the answer is longer than the allocation length.\<close>

fun zbc_sense_all ::
  "(byte \<times> byte \<times> (nat \<Rightarrow> byte list option)) list \<Rightarrow> bool \<Rightarrow> nat \<Rightarrow> byte list \<Rightarrow> nat \<Rightarrow> byte list \<times> nat" where
  "zbc_sense_all [] ten alloc_len data used = (data, used)"
| "zbc_sense_all ((pg, sub, get) # hs) ten alloc_len data used =
     (case get (512 - used) of
        None \<Rightarrow> (data, used)
      | Some page \<Rightarrow>
          let data' = buf_put data used page; used' = used + length page in
          if \<not> ten \<and> used' \<ge> 255 then (data', used')
          else if used' > alloc_len then (data', used')
          else zbc_sense_all hs ten alloc_len data' used')"

definition zbc_sense_one :: "byte \<Rightarrow> byte \<Rightarrow> byte list \<Rightarrow> nat \<Rightarrow> (byte list \<times> nat) option" where
  "zbc_sense_one page_code subpage_code data used =
     (case find (\<lambda>(pg, sub, get). page_code = pg \<and> subpage_code = sub) zbc_modesense_handlers of
        None \<Rightarrow> None
      | Some (pg, sub, get) \<Rightarrow>
          (case get (512 - used) of None \<Rightarrow> None | Some page \<Rightarrow> Some (buf_put data used page, used + length page)))"

definition zbc_mode_sense :: "mem \<Rightarrow> zbc_dev \<Rightarrow> tcmulib_cmd \<Rightarrow> zbc_io_result" where
  "zbc_mode_sense m zd cmd =
     (let ten = (cdb cmd 0 = 0x5a); page_code = cdb cmd 2 AND 0x3f; used = (if ten then 8 else 4); data = replicate 512 0 in
      case tcmu_get_xfer_length (cdb cmd) of None \<Rightarrow> None | Some alloc_len \<Rightarrow>
      case (if page_code = 0x3f then Some (zbc_sense_all zbc_modesense_handlers ten alloc_len data used)
            else zbc_sense_one page_code (cdb cmd 3) data used) of
        None \<Rightarrow> zbc_io_fail m zd cmd ILLEGAL_REQUEST ASC_INVALID_FIELD_IN_CDB
      | Some (data', used') \<Rightarrow>
          zbc_respond m zd cmd
            (if ten then buf_put data' 0 (be_enc 2 (u16 (used' - 2))) else data'[0 := of_nat (used' - 1)]) 512)"

section \<open>Dispatch\<close>

text \<open>What the environment of the handler answers during one command.\<close>

record cmd_env =
  env_io :: io_env
  env_wwn :: "string option"
  env_hw_block_size :: int
  env_garbage :: "byte list"

definition emul_zbc :: "zbc_dev \<Rightarrow> emul_result \<Rightarrow> zbc_io_result" where
  "emul_zbc zd r = (case r of None \<Rightarrow> None | Some (sts, m, cmd) \<Rightarrow> Some (sts, m, zd, cmd))"

definition out_zbc :: "mem \<Rightarrow> zbc_result \<Rightarrow> zbc_io_result" where
  "out_zbc m r = (case r of None \<Rightarrow> None | Some (sts, zd, cmd) \<Rightarrow> Some (sts, m, zd, cmd))"

definition zbc_handle_cmd :: "cmd_env \<Rightarrow> mem \<Rightarrow> tcmu_device \<Rightarrow> zbc_dev \<Rightarrow> tcmulib_cmd \<Rightarrow> zbc_io_result" where
  "zbc_handle_cmd env m dev zd cmd =
     (let op = cdb cmd 0 in
      if op = 0x12 then zbc_inquiry (env_wwn env) (env_hw_block_size env) m dev zd cmd
      else if op = 0x00 then emul_zbc zd (tcmu_emulate_test_unit_ready m cmd)
      else if op = 0x9e then
        if cdb cmd 1 = 0x10 then zbc_read_capacity m zd cmd else Some (TCMU_STS_NOT_HANDLED, m, zd, cmd)
      else if op = 0x1a \<or> op = 0x5a then zbc_mode_sense m zd cmd
      else if op = 0x15 \<or> op = 0x55 then emul_zbc zd (tcmu_emulate_mode_select (env_garbage env) m dev cmd)
      else if op = 0x95 then zbc_in m zd cmd
      else if op = 0x94 then out_zbc m (zbc_out zd cmd)
      else if op = 0x08 then Some (TCMU_STS_NOT_HANDLED, m, zd, cmd)
      else if op = 0x28 \<or> op = 0xa8 \<or> op = 0x88 then zbc_read (env_io env) m zd cmd
      else if op = 0x0a then Some (TCMU_STS_NOT_HANDLED, m, zd, cmd)
      else if op = 0x2a \<or> op = 0xaa \<or> op = 0x8a then zbc_write (env_io env) m zd cmd
      else if op = 0x35 \<or> op = 0x91 then zbc_flush (env_io env) m zd cmd
      else Some (TCMU_STS_NOT_HANDLED, m, zd, cmd))"

section \<open>Effects of a command\<close>

lemma respond_dev:
  "\<exists>m' cmd'. zbc_respond m zd cmd data len = Some (TCMU_STS_OK, m', zd, cmd')"
  by (simp add: zbc_respond_def split: prod.split)

lemma fail_dev: "\<exists>sts cmd'. zbc_io_fail m zd cmd k a = Some (sts, m, zd, cmd')"
  by (simp add: zbc_io_fail_def sense_fail_def)

text \<open>A command that answers without touching the device.\<close>

definition answers :: "zbc_dev \<Rightarrow> zbc_io_result \<Rightarrow> bool" where
  "answers zd r \<longleftrightarrow> (\<exists>sts m' cmd'. r = Some (sts, m', zd, cmd'))"

lemma answers_intros [intro]:
  "answers zd (zbc_respond m zd cmd data len)" "answers zd (zbc_io_fail m zd cmd k a)" "answers zd (Some (sts, m, zd, cmd))"
  unfolding answers_def using respond_dev fail_dev by blast+

lemma evpd_83_ids_total:
  assumes "length data = 512"
  shows "\<exists>r. evpd_83_ids data wwn = Some r"
proof -
  let ?d1 = "buf_put (buf_put data 4 [2, 1]) 8 (bytes_of ''LIO-ORG '')"
  have l: "length ?d1 = 512" using assms by simp
  obtain n d where sn: "snprintf ?d1 16 496 wwn = Some (n, d)"
    using snprintf_spec(1) [of 496 ?d1 16 wwn] l by (cases "snprintf ?d1 16 496 wwn") auto
  have d: "length d = 512" using snprintf_spec(2) [OF _ sn] l by simp
  have u: "unat (of_nat (9 + n) :: byte) \<le> 255" using unat_byte_bound [of "of_nat (9 + n)"] by linarith
  show ?thesis
    using assms sn d u by (simp add: evpd_83_ids_def Let_def del: of_nat_Suc of_nat_add)
qed

lemma inquiry_answers: "answers zd (zbc_inquiry wwn hw m dev zd cmd)"
proof -
  have ids: "answers zd (case wwn of None \<Rightarrow> zbc_io_fail m zd cmd k a | Some w \<Rightarrow>
      case evpd_83_ids (zbc_vpd zd pg) w of None \<Rightarrow> None
      | Some (used, data') \<Rightarrow> zbc_respond m zd cmd (buf_put data' 2 (be_enc 2 (u16 used))) (used + 4))" for k a pg
    using evpd_83_ids_total [of "zbc_vpd zd pg" "the wwn"]
    by (auto simp: zbc_vpd_def split: option.split)
  then show ?thesis
    by (auto simp: zbc_inquiry_def zbc_evpd_inquiry_def zbc_std_inquiry_def Let_def)
qed

lemma mode_sense_answers:
  assumes "cdb cmd 0 \<in> {0x1a, 0x5a}"
  shows "answers zd (zbc_mode_sense m zd cmd)"
proof -
  obtain n where "tcmu_get_xfer_length (cdb cmd) = Some n"
    using assms by (auto simp: tcmu_get_xfer_length_def tcmu_get_cdb_length_def)
  then show ?thesis by (auto simp: zbc_mode_sense_def Let_def split: option.split prod.split)
qed

lemma mode_select_answers:
  assumes "cdb cmd 0 \<in> {0x15, 0x55}"
  shows "answers zd (emul_zbc zd (tcmu_emulate_mode_select g m dev cmd))"
proof -
  obtain n where "tcmu_get_xfer_length (cdb cmd) = Some n"
    using assms by (auto simp: tcmu_get_xfer_length_def tcmu_get_cdb_length_def)
  then show ?thesis
    by (auto simp: tcmu_emulate_mode_select_def emul_zbc_def answers_def Let_def split: option.splits prod.splits)
qed

lemma zbc_in_answers:
  assumes "zbc_inv zd" and "cmd_wf cmd" and "cdb cmd 0 = 0x95"
  shows "answers zd (zbc_in m zd cmd)"
proof -
  have lba: "tcmu_get_lba (cdb cmd) = Some (cdb_be (cdb cmd) 2 8)"
    using assms(3) by (simp add: tcmu_get_lba_def tcmu_get_cdb_length_def)
  consider "\<not> ro_valid (cdb_ro cmd)" | "ro_valid (cdb_ro cmd)" "cdb_be (cdb cmd) 2 8 \<ge> capacity zd"
    | "ro_valid (cdb_ro cmd)" "cdb_be (cdb cmd) 2 8 < capacity zd" by fastforce
  then have "answers zd (zbc_report_zones m zd cmd)"
  proof cases
    case 3
    then show ?thesis using report_zones_run [OF assms, of m] unfolding answers_def by blast
  qed (auto simp: zbc_report_zones_def Let_def lba)
  then show ?thesis by (auto simp: zbc_in_def)
qed

lemma read_iovs_dev:
  "zbc_read_iovs env zd cmd m vs lba zt = Some (sts, m', zd', cmd') \<Longrightarrow> zd' = zd"
  by (induction env zd cmd m vs lba zt rule: zbc_read_iovs.induct)
    (auto simp: zbc_io_fail_def sense_fail_def split: option.splits prod.splits if_splits)

lemma read_dev: "zbc_read env m zd cmd = Some (sts, m', zd', cmd') \<Longrightarrow> zd' = zd"
  using read_iovs_dev by (auto simp: zbc_read_def split: option.splits prod.splits if_splits)
lemma handle_cmd_cases:
  assumes inv: "zbc_inv zd" and wf: "cmd_wf cmd" and pw: "pwrite_ok (env_io env)" and ls: "lba_size zd \<in> {512, 4096}"
  obtains (answer) "answers zd (zbc_handle_cmd env m dev zd cmd)"
  | (is_out) "cdb cmd 0 = 0x94" "zbc_handle_cmd env m dev zd cmd = out_zbc m (zbc_out zd cmd)"
  | (is_read) "cdb cmd 0 \<in> {0x28, 0xa8, 0x88}" "zbc_handle_cmd env m dev zd cmd = zbc_read (env_io env) m zd cmd"
  | (is_write) "cdb cmd 0 \<in> {0x2a, 0xaa, 0x8a}" "zbc_handle_cmd env m dev zd cmd = zbc_write (env_io env) m zd cmd"
proof -
  let ?op = "cdb cmd 0"
  consider "?op = 0x94" | "?op \<in> {0x28, 0xa8, 0x88}" | "?op \<in> {0x2a, 0xaa, 0x8a}" | "?op = 0x12" | "?op \<in> {0x1a, 0x5a}"
    | "?op \<in> {0x15, 0x55}" | "?op = 0x95" | "?op \<in> {0x35, 0x91}" | "?op = 0" | "?op = 0x9e"
    | "?op \<notin> {0x94, 0x28, 0xa8, 0x88, 0x2a, 0xaa, 0x8a, 0x12, 0x1a, 0x5a, 0x15, 0x55, 0x95, 0x35, 0x91, 0, 0x9e}" by blast
  then show thesis
  proof cases
    case 1
    then show ?thesis using is_out by (simp add: zbc_handle_cmd_def)
  next
    case 2
    then show ?thesis using is_read by (auto simp: zbc_handle_cmd_def)
  next
    case 3
    then show ?thesis using is_write by (auto simp: zbc_handle_cmd_def)
  next
    case 4
    then show ?thesis using answer inquiry_answers by (simp add: zbc_handle_cmd_def)
  next
    case 5
    then show ?thesis using answer mode_sense_answers by (auto simp: zbc_handle_cmd_def)
  next
    case 6
    then show ?thesis using answer mode_select_answers by (auto simp: zbc_handle_cmd_def)
  next
    case 7
    then show ?thesis using answer zbc_in_answers [OF inv wf] by (simp add: zbc_handle_cmd_def)
  next
    case 8
    then show ?thesis by (intro answer) (auto simp: zbc_handle_cmd_def zbc_flush_def)
  next
    case 9
    then show ?thesis by (intro answer) (auto simp: zbc_handle_cmd_def emul_zbc_def tcmu_emulate_test_unit_ready_def)
  next
    case 10
    then show ?thesis by (intro answer) (auto simp: zbc_handle_cmd_def zbc_read_capacity_def)
  next
    case 11
    then show ?thesis by (intro answer) (auto simp: zbc_handle_cmd_def Let_def)
  qed
qed

lemma handle_cmd_inv:
  assumes inv: "zbc_inv zd" and wf: "cmd_wf cmd" and pw: "pwrite_ok (env_io env)" and ls: "lba_size zd \<in> {512, 4096}"
    and run: "zbc_handle_cmd env m dev zd cmd = Some (sts, m', zd', cmd')"
  shows "zbc_inv zd' \<and> dev_geom zd' = dev_geom zd"
proof (cases rule: handle_cmd_cases [where env = env and m = m and dev = dev, OF inv wf pw ls, case_names answer is_out is_read is_write])
  case answer
  then show ?thesis using run inv by (auto simp: answers_def)
next
  case is_out
  have "cmd_ok zd (zbc_out zd cmd)" by (rule zbc_out_ok [OF inv is_out(1)])
  then show ?thesis
    using run is_out(2) dev_frame_geom by (auto simp: cmd_ok_def out_zbc_def split: option.splits)
next
  case is_read
  then have "zd' = zd" using run by (intro read_dev [of "env_io env" m zd cmd sts m' zd' cmd']) simp
  then show ?thesis using inv by simp
next
  case is_write
  then have "drop_bit 5 (cdb cmd 0) \<in> {1, 2, 4, 5}" by auto
  then show ?thesis using write_total [OF inv wf pw _ ls, of m] run is_write(2) by auto
qed

text \<open>
  C38: No command leaves the handler stuck. Every well-formed command other than a READ gets
  a status, whatever its CDB and whatever \<open>pwrite\<close> returns, and keeps the device
  invariant and the geometry; only ZBC OUT and WRITE change the device at all. A READ that
  returns changes nothing of the device.
\<close>
theorem zbc_handle_cmd_safe:
  assumes inv: "zbc_inv zd" and wf: "cmd_wf cmd" and pw: "pwrite_ok (env_io env)" and ls: "lba_size zd \<in> {512, 4096}"
  shows "(cdb cmd 0 \<notin> {0x28, 0xa8, 0x88} \<longrightarrow>
      (\<exists>sts m' zd' cmd'. zbc_handle_cmd env m dev zd cmd = Some (sts, m', zd', cmd') \<and> zbc_inv zd' \<and> dev_geom zd' = dev_geom zd)) \<and>
    (\<forall>sts m' zd' cmd'. cdb cmd 0 \<notin> {0x94, 0x2a, 0xaa, 0x8a} \<and>
       zbc_handle_cmd env m dev zd cmd = Some (sts, m', zd', cmd') \<longrightarrow> zd' = zd)"
proof -
  have some: "\<exists>r. zbc_handle_cmd env m dev zd cmd = Some r" if "cdb cmd 0 \<notin> {0x28, 0xa8, 0x88}"
  proof (cases rule: handle_cmd_cases [where env = env and m = m and dev = dev, OF inv wf pw ls, case_names answer is_out is_read is_write])
    case answer
    then show ?thesis by (auto simp: answers_def)
  next
    case is_out
    have "cmd_ok zd (zbc_out zd cmd)" by (rule zbc_out_ok [OF inv is_out(1)])
    then show ?thesis using is_out(2) by (auto simp: cmd_ok_def out_zbc_def split: option.splits)
  next
    case is_read
    then show ?thesis using that by blast
  next
    case is_write
    then have "drop_bit 5 (cdb cmd 0) \<in> {1, 2, 4, 5}" by auto
    then show ?thesis using write_total [OF inv wf pw _ ls, of m] is_write(2) by auto
  qed
  moreover have "zd' = zd" if "cdb cmd 0 \<notin> {0x94, 0x2a, 0xaa, 0x8a}"
    "zbc_handle_cmd env m dev zd cmd = Some (sts, m', zd', cmd')" for sts m' zd' cmd'
  proof (cases rule: handle_cmd_cases [where env = env and m = m and dev = dev, OF inv wf pw ls, case_names answer is_out is_read is_write])
    case answer
    then show ?thesis using that(2) by (auto simp: answers_def)
  next
    case is_read
    then show ?thesis using that(2) by (intro read_dev [of "env_io env" m zd cmd sts m' zd' cmd']) simp
  qed (use that in auto)
  ultimately show ?thesis using handle_cmd_inv [OF inv wf pw ls] by (metis surj_pair)
qed

definition posix_cmd_env :: cmd_env where
  "posix_cmd_env = \<lparr>env_io = posix_env, env_wwn = Some ''0123'', env_hw_block_size = 512, env_garbage = replicate 512 0\<rparr>"

theorem zbc_handle_cmd_safe_witness:
  "\<exists>sts m' zd' cmd'. zbc_handle_cmd posix_cmd_env (\<lambda>_. 7) emul_dev dev_mixed (rw_cmd 0x8a 10 2 [\<lparr>iov_base = 0, iov_len = 1024\<rparr>]) =
     Some (sts, m', zd', cmd') \<and> zbc_inv zd'"
proof -
  let ?c = "rw_cmd 0x8a 10 2 [\<lparr>iov_base = 0, iov_len = 1024\<rparr>]"
  have "cmd_wf ?c" by (rule rw_cmd_wf) simp_all
  moreover have "cdb ?c 0 \<notin> {0x28, 0xa8, 0x88}" by (simp add: rw_cmd_fields(4))
  moreover have "lba_size dev_mixed \<in> {512, 4096}" by (simp add: sample_defs)
  ultimately show ?thesis
    using zbc_handle_cmd_safe [OF dev_mixed_inv(1), of ?c posix_cmd_env "\<lambda>_. 7" emul_dev] posix_env_ok(3)
    by (simp add: posix_cmd_env_def) blast
qed

section \<open>Sequences of commands\<close>

text \<open>Between commands the initiator may change its memory.\<close>

inductive zbc_reach :: "tcmu_device \<Rightarrow> zbc_dev \<Rightarrow> mem \<times> zbc_dev \<Rightarrow> bool" for dev zd0 where
  reach_open: "zbc_reach dev zd0 (m, zd0)"
| reach_memory: "zbc_reach dev zd0 (m, zd) \<Longrightarrow> zbc_reach dev zd0 (m', zd)"
| reach_cmd: "zbc_reach dev zd0 (m, zd) \<Longrightarrow> cmd_wf cmd \<Longrightarrow> pwrite_ok (env_io env) \<Longrightarrow>
    zbc_handle_cmd env m dev zd cmd = Some (sts, m', zd', cmd') \<Longrightarrow> zbc_reach dev zd0 (m', zd')"

lemma dev_geom_fields: "lba_size (dev_geom zd) = lba_size zd" "capacity (dev_geom zd) = capacity zd"
  by (simp_all add: dev_geom_def dev_erase_def)

lemma dev_geom_eqD: "dev_geom zd' = dev_geom zd \<Longrightarrow> lba_size zd' = lba_size zd \<and> capacity zd' = capacity zd"
  by (metis dev_geom_fields)

lemma reach_inv:
  assumes "zbc_reach dev zd0 s" and "zbc_inv zd0" and "lba_size zd0 \<in> {512, 4096}"
  shows "zbc_inv (snd s) \<and> dev_geom (snd s) = dev_geom zd0"
  using assms(1)
proof induction
  case (reach_cmd m zd cmd env sts m' zd' cmd')
  have IH: "zbc_inv zd" "dev_geom zd = dev_geom zd0" using reach_cmd.IH by simp_all
  have "lba_size zd \<in> {512, 4096}" using assms(3) dev_geom_eqD [OF IH(2)] by simp
  from handle_cmd_inv [OF IH(1) reach_cmd.hyps(2,3) this reach_cmd.hyps(4)] show ?case using IH(2) by simp
qed (use assms in auto)


lemma open_dev_config: "zbc_parse_config env (cfgstring open_dev) = Inr ha_config" "c_need_format ha_config"
  "cfg_ok (ha_config\<lparr>c_dev_size := 10737418240\<rparr>)"
proof -
  show "c_need_format ha_config" by (simp add: ha_config_def)
  then show "zbc_parse_config env (cfgstring open_dev) = Inr ha_config"
    using parse_config_string [OF ha_config_ok] by (simp add: open_dev_def) (simp add: ha_config_def)
  show "cfg_ok (ha_config\<lparr>c_dev_size := 10737418240\<rparr>)" by (simp add: cfg_ok_def ha_config_def)
qed


end
