(* ===== verification/Tcmu_Ring.thy ===== *)
theory Tcmu_Ring
  imports Tcmu_Device "HOL-Library.Monad_Syntax" "HOL-Library.Multiset"
begin

unbundle bit_operations_syntax

text \<open>
  The command ring that the kernel and the daemon share (\<open>target_core_user_local.h\<close>, \<open>libtcmu.c\<close>): taking
  the next command and putting a completion. The ring is a function from offsets to entries. The fields
  \<open>req\<close> and \<open>rsp\<close> of an entry are a union: a response overwrites the request. The CDB of a request, which
  lies in the shared memory at \<open>cdb_off\<close>, is part of it. Reading a response as a request and dividing by a
  ring size of zero are \<open>None\<close>. \<open>junk\<close> is the content of fresh memory.

  The theorems: fetching refines a queue of entries, completions answer in the slots of fetched entries and
  in the order they are made, and a request that was not fetched yet is never overwritten.
\<close>

section \<open>Entries\<close>

definition tcmu_hdr_get_op :: "32 word \<Rightarrow> nat" where
  "tcmu_hdr_get_op len_op = unat (len_op AND 7)"

definition tcmu_hdr_set_op :: "32 word \<Rightarrow> nat \<Rightarrow> 32 word" where
  "tcmu_hdr_set_op len_op op = (len_op AND NOT 7) OR (of_nat op AND 7)"

definition tcmu_hdr_get_len :: "32 word \<Rightarrow> nat" where
  "tcmu_hdr_get_len len_op = unat (len_op AND NOT 7)"

definition tcmu_hdr_set_len :: "32 word \<Rightarrow> nat \<Rightarrow> 32 word" where
  "tcmu_hdr_set_len len_op len = (len_op AND 7) OR of_nat len"

lemma len_op_mask: "(7 :: 32 word) = mask 3" by (simp add: mask_eq_exp_minus_1)

lemma hdr_op_of_set [simp]: "op < 8 \<Longrightarrow> tcmu_hdr_get_op (tcmu_hdr_set_op w op) = op"
proof -
  assume "op < 8"
  have "(w AND NOT 7 OR of_nat op AND 7) AND 7 = (of_nat op AND 7 :: 32 word)"
    by (rule bit_eqI) (auto simp: bit_simps)
  moreover have "unat (of_nat op AND 7 :: 32 word) = op"
    unfolding len_op_mask using \<open>op < 8\<close> by (simp add: unsigned_and_eq take_bit_eq_mask [symmetric] unsigned_take_bit_eq take_bit_nat_eq_self unat_of_nat)
  ultimately show ?thesis by (simp add: tcmu_hdr_get_op_def tcmu_hdr_set_op_def)
qed

lemma hdr_len_of_set_op [simp]: "tcmu_hdr_get_len (tcmu_hdr_set_op w op) = tcmu_hdr_get_len w"
proof -
  have "(w AND NOT 7 OR of_nat op AND 7) AND NOT 7 = (w AND NOT 7 :: 32 word)" by (rule bit_eqI) (auto simp: bit_simps)
  then show ?thesis by (simp add: tcmu_hdr_get_len_def tcmu_hdr_set_op_def)
qed

lemma hdr_set_len:
  assumes "len < 2 ^ 32" "8 dvd len"
  shows "tcmu_hdr_get_len (tcmu_hdr_set_len w len) = len \<and> tcmu_hdr_get_op (tcmu_hdr_set_len w len) = tcmu_hdr_get_op w"
proof -
  have "take_bit 3 (of_nat len :: 32 word) = of_nat (take_bit 3 len)" by (simp add: take_bit_of_nat)
  also have "\<dots> = 0" using assms(2) by (simp add: take_bit_eq_mod)
  finally have low: "(of_nat len :: 32 word) AND 7 = 0" unfolding len_op_mask by (simp add: take_bit_eq_mask)
  have split: "(x OR l) AND NOT 7 = (x AND NOT 7) OR (l AND NOT 7)" "(x OR l) AND 7 = (x AND 7) OR (l AND 7)" for x l :: "32 word"
    by (rule bit_eqI; auto simp: bit_simps)+
  have "(of_nat len :: 32 word) = (of_nat len AND 7) OR (of_nat len AND NOT 7)" by (rule bit_eqI) (auto simp: bit_simps)
  then have "(of_nat len :: 32 word) AND NOT 7 = of_nat len" using low by simp
  moreover have "(w AND 7) AND NOT 7 = 0" "(w AND 7) AND 7 = w AND 7" by (rule bit_eqI; auto simp: bit_simps)+
  ultimately have "(w AND 7 OR of_nat len) AND NOT 7 = of_nat len" "(w AND 7 OR of_nat len) AND 7 = w AND 7"
    unfolding split using low by simp_all
  then show ?thesis
    using assms(1) by (simp add: tcmu_hdr_get_len_def tcmu_hdr_get_op_def tcmu_hdr_set_len_def unat_of_nat)
qed

abbreviation (input) TCMU_OP_PAD :: nat where "TCMU_OP_PAD \<equiv> 0"
abbreviation (input) TCMU_OP_CMD :: nat where "TCMU_OP_CMD \<equiv> 1"

text \<open>The sense buffer of a response is written for a check condition only.\<close>

datatype tcmu_cmd_payload = Req (req_iov: "iovec list") (req_cdb: cdb) | Rsp (scsi_status: nat) (sense_buffer: "byte list option")

record tcmu_cmd_entry =
  len_op :: "32 word"
  hdr_cmd_id :: nat
  uflags :: byte
  payload :: tcmu_cmd_payload

record tcmu_mailbox =
  mb_addr :: nat
  cmdr_size :: nat
  cmd_head :: nat
  rb_tail :: nat
  ring :: "nat \<Rightarrow> tcmu_cmd_entry"

abbreviation ent_len :: "tcmu_cmd_entry \<Rightarrow> nat" where "ent_len e \<equiv> tcmu_hdr_get_len (len_op e)"
abbreviation ent_op :: "tcmu_cmd_entry \<Rightarrow> nat" where "ent_op e \<equiv> tcmu_hdr_get_op (len_op e)"

section \<open>Taking commands\<close>

definition device_cmd_head :: "tcmu_mailbox \<Rightarrow> nat" where
  "device_cmd_head mb = cmd_head mb"

definition device_cmd_tail :: "tcmu_device \<Rightarrow> nat" where
  "device_cmd_tail dev = cmd_tail dev"

text \<open>\<open>TCMU_UPDATE_DEV_TAIL\<close> and \<open>TCMU_UPDATE_RB_TAIL\<close>: the offset behind an entry.\<close>

definition advance_tail :: "tcmu_mailbox \<Rightarrow> nat \<Rightarrow> tcmu_cmd_entry \<Rightarrow> nat option" where
  "advance_tail mb tail e = (if cmdr_size mb = 0 then None else Some (add32 tail (ent_len e) mod cmdr_size mb))"

definition tcmu_update_dev_tail :: "tcmu_device \<Rightarrow> tcmu_mailbox \<Rightarrow> tcmu_cmd_entry \<Rightarrow> tcmu_device option" where
  "tcmu_update_dev_tail dev mb e = map_option (\<lambda>t. dev\<lparr>cmd_tail := t\<rparr>) (advance_tail mb (cmd_tail dev) e)"

text \<open>The command that a request becomes: the iovecs get addresses, the CDB is copied.\<close>

definition cmd_of_entry :: "mem \<Rightarrow> nat \<Rightarrow> tcmu_cmd_entry \<Rightarrow> nat \<Rightarrow> tcmulib_cmd" where
  "cmd_of_entry junk addr e cdb_len =
     \<lparr>cmd_id = hdr_cmd_id e, cdb = (\<lambda>i. if i < cdb_len then req_cdb (payload e) i else junk (96 + i)),
      iovec = map (\<lambda>v. v\<lparr>iov_base := add64 addr (iov_base v)\<rparr>) (req_iov (payload e)),
      iov_cnt = length (req_iov (payload e)), sense_buf = map junk [0..<96]\<rparr>"

definition set_unknown :: "tcmu_mailbox \<Rightarrow> nat \<Rightarrow> tcmu_mailbox" where
  "set_unknown mb tail = mb\<lparr>ring := (ring mb)(tail := (ring mb tail)\<lparr>uflags := uflags (ring mb tail) OR 1\<rparr>)\<rparr>"

partial_function (option) tcmulib_get_next_command ::
  "bool \<Rightarrow> mem \<Rightarrow> tcmu_device \<Rightarrow> tcmu_mailbox \<Rightarrow> (tcmulib_cmd option \<times> tcmu_device \<times> tcmu_mailbox) option" where
  "tcmulib_get_next_command alloc junk dev mb =
     (let ent = ring mb (device_cmd_tail dev) in
      if device_cmd_tail dev = device_cmd_head mb then Some (None, dev, mb)
      else if ent_op ent = TCMU_OP_PAD then do {
        dev' \<leftarrow> tcmu_update_dev_tail dev mb ent;
        tcmulib_get_next_command alloc junk dev' mb
      }
      else if ent_op ent = TCMU_OP_CMD then
        (case payload ent of
           Rsp st sn \<Rightarrow> None
         | Req iov c \<Rightarrow>
             (case tcmu_get_cdb_length c of
                None \<Rightarrow> do {
                  dev' \<leftarrow> tcmu_update_dev_tail dev mb ent;
                  tcmulib_get_next_command alloc junk dev' mb
                }
              | Some cdb_len \<Rightarrow>
                  if \<not> alloc then Some (None, dev, mb)
                  else do {
                    dev' \<leftarrow> tcmu_update_dev_tail dev mb ent;
                    Some (Some (cmd_of_entry junk (mb_addr mb) ent cdb_len), dev', mb)
                  }))
      else do {
        let mb' = set_unknown mb (device_cmd_tail dev);
        dev' \<leftarrow> tcmu_update_dev_tail dev mb' ent;
        tcmulib_get_next_command alloc junk dev' mb'
      })"

section \<open>Completing commands\<close>

text \<open>The loop that skips what is no command.\<close>

partial_function (option) skip_pads :: "tcmu_mailbox \<Rightarrow> tcmu_mailbox option" where
  "skip_pads mb =
     (if rb_tail mb = cmd_head mb \<or> ent_op (ring mb (rb_tail mb)) = TCMU_OP_CMD then Some mb
      else do {
        t \<leftarrow> advance_tail mb (rb_tail mb) (ring mb (rb_tail mb));
        skip_pads (mb\<lparr>rb_tail := t\<rparr>)
      })"

definition response :: "tcmulib_cmd \<Rightarrow> tcmu_sts \<Rightarrow> tcmu_cmd_payload" where
  "response cmd result =
     (case tcmu_sts_to_scsi result (sense_buf cmd) of (status, sense) \<Rightarrow>
        Rsp status (if status = SAM_STAT_CHECK_CONDITION then Some (take 96 sense) else None))"

definition tcmulib_command_complete :: "tcmu_mailbox \<Rightarrow> tcmulib_cmd \<Rightarrow> tcmu_sts \<Rightarrow> tcmu_mailbox option" where
  "tcmulib_command_complete mb cmd result = do {
     mb \<leftarrow> skip_pads mb;
     let tail = rb_tail mb;
     let ent = (ring mb tail)\<lparr>hdr_cmd_id := cmd_id cmd, payload := response cmd result\<rparr>;
     t \<leftarrow> advance_tail mb tail ent;
     Some (mb\<lparr>ring := (ring mb)(tail := ent), rb_tail := t\<rparr>)
   }"

section \<open>The entries from an offset on\<close>

fun total :: "tcmu_cmd_entry list \<Rightarrow> nat" where
  "total [] = 0"
| "total (e # es) = ent_len e + total es"

fun holds :: "(nat \<Rightarrow> tcmu_cmd_entry) \<Rightarrow> nat \<Rightarrow> nat \<Rightarrow> tcmu_cmd_entry list \<Rightarrow> bool" where
  "holds r n a [] \<longleftrightarrow> True"
| "holds r n a (e # es) \<longleftrightarrow> r a = e \<and> holds r n ((a + ent_len e) mod n) es"

lemma total_append [simp]: "total (xs @ ys) = total xs + total ys"
  by (induction xs) auto

lemma holds_append: "a < n \<Longrightarrow> holds r n a (xs @ ys) \<longleftrightarrow> holds r n a xs \<and> holds r n ((a + total xs) mod n) ys"
  by (induction xs arbitrary: a) (auto simp: mod_add_left_eq add.assoc)

lemma mod_shift_neq:
  fixes a :: nat
  assumes "a < n" "0 < d" "d < n"
  shows "(a + d) mod n \<noteq> a"
proof (cases "a + d < n")
  case False
  then have "(a + d) mod n = a + d - n" using assms by (simp add: le_mod_geq)
  then show ?thesis using False assms by linarith
qed (use assms in simp)

text \<open>Writing the slot at \<open>a\<close> does not disturb entries that lie behind it and end within one round.\<close>

lemma holds_update:
  assumes "a < n" "0 < d" "d + total es \<le> n" "\<forall>e \<in> set es. 0 < ent_len e"
  shows "holds (r(a := e')) n ((a + d) mod n) es \<longleftrightarrow> holds r n ((a + d) mod n) es"
  using assms(2-)
proof (induction es arbitrary: d)
  case (Cons e es)
  have "(a + d) mod n \<noteq> a" using Cons.prems assms(1) by (intro mod_shift_neq) auto
  moreover have "((a + d) mod n + ent_len e) mod n = (a + (d + ent_len e)) mod n" by (simp add: mod_add_left_eq add.assoc)
  ultimately show ?case using Cons.IH [of "d + ent_len e"] Cons.prems by simp
qed simp

section \<open>The ring as a queue\<close>

text \<open>
  \<open>dn\<close>: entries fetched and not answered, \<open>td\<close>: entries not fetched. An empty ring has equal head and
  tail, so the entries fill less than the ring. The ring size is bounded so that 32-bit sums do not wrap.
\<close>

definition ring_inv :: "tcmu_mailbox \<Rightarrow> nat \<Rightarrow> tcmu_cmd_entry list \<Rightarrow> tcmu_cmd_entry list \<Rightarrow> bool" where
  "ring_inv mb dt dn td \<longleftrightarrow>
     rb_tail mb < cmdr_size mb \<and> cmdr_size mb \<le> 2 ^ 31
   \<and> (\<forall>e \<in> set (dn @ td). 0 < ent_len e) \<and> total (dn @ td) < cmdr_size mb
   \<and> holds (ring mb) (cmdr_size mb) (rb_tail mb) (dn @ td)
   \<and> dt = (rb_tail mb + total dn) mod cmdr_size mb
   \<and> cmd_head mb = (rb_tail mb + total (dn @ td)) mod cmdr_size mb"

lemma ring_invD:
  assumes "ring_inv mb dt dn td"
  shows "0 < cmdr_size mb" "dt < cmdr_size mb" "total td < cmdr_size mb"
    and "holds (ring mb) (cmdr_size mb) dt td" "cmd_head mb = (dt + total td) mod cmdr_size mb"
  using assms by (auto simp: ring_inv_def holds_append mod_add_left_eq add.assoc)

lemma tail_at_head:
  assumes "ring_inv mb dt dn td"
  shows "dt = cmd_head mb \<longleftrightarrow> td = []"
proof (cases td)
  case (Cons e es)
  then have "0 < total td" using assms by (auto simp: ring_inv_def)
  then show ?thesis using ring_invD [OF assms] mod_shift_neq [of dt "cmdr_size mb" "total td"] Cons by auto
qed (use ring_invD [OF assms] in simp)

lemma advance_step:
  assumes "cmdr_size mb \<le> 2 ^ 31" "t < cmdr_size mb" "ent_len e < cmdr_size mb"
  shows "advance_tail mb t e = Some ((t + ent_len e) mod cmdr_size mb)"
proof -
  have "t + ent_len e < 2 ^ 32" using assms by simp
  then show ?thesis using assms by (simp add: advance_tail_def add32_id)
qed

text \<open>Fetching over the next entry, possibly with a change of the entry that keeps its header.\<close>

lemma ring_inv_pass:
  assumes "ring_inv mb dt dn (e # td)" "len_op e' = len_op e"
  shows "ring_inv (mb\<lparr>ring := (ring mb)(dt := e')\<rparr>) ((dt + ent_len e) mod cmdr_size mb) (dn @ [e']) td"
proof -
  let ?n = "cmdr_size mb"
  have inv: "rb_tail mb < ?n" "\<forall>x \<in> set (dn @ e # td). 0 < ent_len x" "total dn + ent_len e + total td < ?n"
    "holds (ring mb) ?n (rb_tail mb) dn" "holds (ring mb) ?n ((dt + ent_len e) mod ?n) td"
    "dt = (rb_tail mb + total dn) mod ?n" "dt < ?n"
    using assms(1) ring_invD [OF assms(1)] by (auto simp: ring_inv_def holds_append)
  have round: "rb_tail mb = (dt + (?n - total dn)) mod ?n"
  proof -
    have "(dt + (?n - total dn)) mod ?n = (rb_tail mb + total dn + (?n - total dn)) mod ?n" unfolding inv(6) by (rule mod_add_left_eq)
    also have "\<dots> = (rb_tail mb + ?n) mod ?n" using inv(3) by simp
    finally show ?thesis using inv(1) by simp
  qed
  have "holds ((ring mb)(dt := e')) ?n (rb_tail mb) dn"
  proof (cases "dn = []")
    case False
    have "holds ((ring mb)(dt := e')) ?n ((dt + (?n - total dn)) mod ?n) dn \<longleftrightarrow> holds (ring mb) ?n ((dt + (?n - total dn)) mod ?n) dn"
      using inv by (intro holds_update) auto
    then show ?thesis using inv(4) round by simp
  qed simp
  moreover have "holds ((ring mb)(dt := e')) ?n ((dt + ent_len e) mod ?n) td"
    using inv holds_update [of dt ?n "ent_len e" td "ring mb" e'] by simp
  ultimately show ?thesis
    using assms inv unfolding ring_inv_def by (auto simp: holds_append mod_add_left_eq add.assoc)
qed

text \<open>What fetching does to the queue: entries that are no command are passed, unknown ones marked.\<close>

definition fetchable :: "tcmu_cmd_entry \<Rightarrow> bool" where
  "fetchable e \<longleftrightarrow> ent_op e = TCMU_OP_CMD \<and> tcmu_get_cdb_length (req_cdb (payload e)) \<noteq> None"

definition passed :: "tcmu_cmd_entry \<Rightarrow> tcmu_cmd_entry" where
  "passed e = (if ent_op e = TCMU_OP_PAD \<or> ent_op e = TCMU_OP_CMD then e else e\<lparr>uflags := uflags e OR 1\<rparr>)"

definition command :: "mem \<Rightarrow> nat \<Rightarrow> tcmu_cmd_entry \<Rightarrow> tcmulib_cmd" where
  "command junk addr e = cmd_of_entry junk addr e (the (tcmu_get_cdb_length (req_cdb (payload e))))"

fun queue_next :: "bool \<Rightarrow> mem \<Rightarrow> nat \<Rightarrow> tcmu_cmd_entry list \<Rightarrow> tcmulib_cmd option \<times> tcmu_cmd_entry list \<times> tcmu_cmd_entry list" where
  "queue_next alloc junk addr [] = (None, [], [])"
| "queue_next alloc junk addr (e # es) =
     (if fetchable e then if alloc then (Some (command junk addr e), [e], es) else (None, [], e # es)
      else case queue_next alloc junk addr es of (c, ps, rest) \<Rightarrow> (c, passed e # ps, rest))"

definition requests :: "tcmu_cmd_entry list \<Rightarrow> bool" where
  "requests td \<longleftrightarrow> (\<forall>e \<in> set td. ent_op e = TCMU_OP_CMD \<longrightarrow> is_Req (payload e))"

lemma get_next_refines:
  assumes "ring_inv mb (cmd_tail dev) dn td" "requests td" "queue_next alloc junk (mb_addr mb) td = (c, ps, rest)"
  shows "\<exists>dev' mb'. tcmulib_get_next_command alloc junk dev mb = Some (c, dev', mb') \<and> ring_inv mb' (cmd_tail dev') (dn @ ps) rest
    \<and> mb_addr mb' = mb_addr mb \<and> cmdr_size mb' = cmdr_size mb \<and> rb_tail mb' = rb_tail mb \<and> cmd_head mb' = cmd_head mb \<and> dev' = dev\<lparr>cmd_tail := cmd_tail dev'\<rparr>"
  using assms
proof (induction td arbitrary: dev mb dn c ps)
  case Nil
  then show ?case
    using tail_at_head [OF Nil(1)] by (subst tcmulib_get_next_command.simps) (simp add: device_cmd_head_def device_cmd_tail_def)
next
  case (Cons e td)
  let ?t = "(cmd_tail dev + ent_len e) mod cmdr_size mb"
  note inv = Cons.prems(1)
  have at: "ring mb (cmd_tail dev) = e" "cmd_tail dev \<noteq> cmd_head mb"
    using ring_invD(4) [OF inv] tail_at_head [OF inv] by simp_all
  have "cmdr_size mb \<le> 2 ^ 31" using inv by (simp add: ring_inv_def)
  then have tail: "tcmu_update_dev_tail dev mb e = Some (dev\<lparr>cmd_tail := ?t\<rparr>)" "tcmu_update_dev_tail dev (set_unknown mb (cmd_tail dev)) e = Some (dev\<lparr>cmd_tail := ?t\<rparr>)"
    using ring_invD(2,3) [OF inv] by (simp_all add: tcmu_update_dev_tail_def advance_step set_unknown_def)
  have go: "tcmulib_get_next_command alloc junk dev mb =
      (if fetchable e then if alloc then Some (Some (command junk (mb_addr mb) e), dev\<lparr>cmd_tail := ?t\<rparr>, mb) else Some (None, dev, mb)
       else tcmulib_get_next_command alloc junk (dev\<lparr>cmd_tail := ?t\<rparr>) (mb\<lparr>ring := (ring mb)(cmd_tail dev := passed e)\<rparr>))"
    using Cons.prems(2) at tail
    by (subst tcmulib_get_next_command.simps)
      (auto simp: device_cmd_head_def device_cmd_tail_def fetchable_def command_def passed_def set_unknown_def Let_def requests_def
        fun_upd_idem split: tcmu_cmd_payload.splits option.splits)
  show ?case
  proof (cases "fetchable e")
    case True
    then show ?thesis using go Cons.prems(1,3) ring_inv_pass [OF inv refl] at(1) by (cases alloc) (auto simp: fun_upd_idem)
  next
    case False
    then obtain ps' where ps: "ps = passed e # ps'" "queue_next alloc junk (mb_addr mb) td = (c, ps', rest)"
      using Cons.prems(3) by (auto split: prod.splits)
    have "ring_inv (mb\<lparr>ring := (ring mb)(cmd_tail dev := passed e)\<rparr>) ?t (dn @ [passed e]) td"
      by (rule ring_inv_pass [OF inv]) (simp add: passed_def)
    from Cons.IH [of "mb\<lparr>ring := (ring mb)(cmd_tail dev := passed e)\<rparr>" "dev\<lparr>cmd_tail := ?t\<rparr>" "dn @ [passed e]" c ps'] this Cons.prems(2) ps False go
    show ?thesis by (auto simp: requests_def)
  qed
qed

section \<open>Completions\<close>

lemma skip_pads_spec:
  assumes "ring_inv mb dt (ps @ e # dn) td" "\<forall>p \<in> set ps. ent_op p \<noteq> TCMU_OP_CMD" "ent_op e = TCMU_OP_CMD"
  defines "mb' \<equiv> mb\<lparr>rb_tail := (rb_tail mb + total ps) mod cmdr_size mb\<rparr>"
  shows "skip_pads mb = Some mb' \<and> ring_inv mb' dt (e # dn) td"
  using assms(1,2) unfolding mb'_def
proof (induction ps arbitrary: mb)
  case Nil
  then have "ring mb (rb_tail mb) = e" "rb_tail mb < cmdr_size mb" by (simp_all add: ring_inv_def)
  then show ?case using Nil assms(3) by (subst skip_pads.simps) simp
next
  case (Cons p ps)
  let ?t = "(rb_tail mb + ent_len p) mod cmdr_size mb"
  have p: "ring mb (rb_tail mb) = p" and len: "cmdr_size mb \<le> 2 ^ 31" "rb_tail mb < cmdr_size mb" "ent_len p < cmdr_size mb"
    and tot: "0 < total (p # ps @ e # dn @ td)" "total (p # ps @ e # dn @ td) < cmdr_size mb"
    using Cons.prems(1) by (auto simp: ring_inv_def)
  have "rb_tail mb \<noteq> cmd_head mb"
    using mod_shift_neq [OF len(2) tot] Cons.prems(1) by (simp add: ring_inv_def)
  then have step: "skip_pads mb = skip_pads (mb\<lparr>rb_tail := ?t\<rparr>)"
    using Cons.prems(2) p advance_step [OF len] by (subst skip_pads.simps) simp
  have "ring_inv (mb\<lparr>rb_tail := ?t\<rparr>) dt (ps @ e # dn) td"
    using Cons.prems(1) by (auto simp: ring_inv_def holds_append mod_add_left_eq add.assoc)
  from Cons.IH [OF this] Cons.prems(2) step show ?case by (simp add: mod_add_left_eq add.assoc)
qed

lemma complete_spec:
  fixes cmd :: tcmulib_cmd and result :: tcmu_sts
  assumes "ring_inv mb dt (ps @ e # dn) td" "\<forall>p \<in> set ps. ent_op p \<noteq> TCMU_OP_CMD" "ent_op e = TCMU_OP_CMD"
  defines "slot \<equiv> (rb_tail mb + total ps) mod cmdr_size mb"
  defines "mb' \<equiv> mb\<lparr>ring := (ring mb)(slot := e\<lparr>hdr_cmd_id := cmd_id cmd, payload := response cmd result\<rparr>),
                     rb_tail := (slot + ent_len e) mod cmdr_size mb\<rparr>"
  shows "tcmulib_command_complete mb cmd result = Some mb' \<and> ring_inv mb' dt dn td"
proof -
  let ?mb1 = "mb\<lparr>rb_tail := slot\<rparr>"
  let ?n = "cmdr_size mb"
  let ?e = "e\<lparr>hdr_cmd_id := cmd_id cmd, payload := response cmd result\<rparr>"
  have skip: "skip_pads mb = Some ?mb1" "ring_inv ?mb1 dt (e # dn) td"
    using skip_pads_spec [OF assms(1-3)] unfolding slot_def by simp_all
  have inv: "ring mb slot = e" "?n \<le> 2 ^ 31" "slot < ?n" "ent_len e < ?n" "0 < ent_len e"
    "holds (ring mb) ?n ((slot + ent_len e) mod ?n) (dn @ td)" "ent_len e + total (dn @ td) < ?n" "\<forall>x \<in> set (dn @ td). 0 < ent_len x"
    using skip(2) by (auto simp: ring_inv_def)
  have "tcmulib_command_complete mb cmd result = Some mb'"
    using skip(1) inv advance_step [of ?mb1 slot ?e] by (simp add: tcmulib_command_complete_def mb'_def)
  moreover have "holds ((ring mb)(slot := ?e)) ?n ((slot + ent_len e) mod ?n) (dn @ td)"
    using inv holds_update [of slot ?n "ent_len e" "dn @ td" "ring mb" ?e] by simp
  then have "ring_inv mb' dt dn td"
    using skip(2) inv by (auto simp: ring_inv_def mb'_def mod_add_left_eq add.assoc)
  ultimately show ?thesis by simp
qed

section \<open>The protocol\<close>

text \<open>
  The other side of the ring, as the header documents it: the kernel puts an entry at the head when it
  fits, and reads the answers in the entries that the tail has passed.
\<close>

definition ring_room :: "tcmu_mailbox \<Rightarrow> tcmu_cmd_entry \<Rightarrow> bool" where
  "ring_room mb e \<longleftrightarrow> 0 < ent_len e \<and> (cmd_head mb + cmdr_size mb - rb_tail mb) mod cmdr_size mb + ent_len e < cmdr_size mb"

definition ring_put :: "tcmu_mailbox \<Rightarrow> tcmu_cmd_entry \<Rightarrow> tcmu_mailbox" where
  "ring_put mb e = mb\<lparr>ring := (ring mb)(cmd_head mb := e), cmd_head := (cmd_head mb + ent_len e) mod cmdr_size mb\<rparr>"

fun walk :: "(nat \<Rightarrow> tcmu_cmd_entry) \<Rightarrow> nat \<Rightarrow> nat \<Rightarrow> nat \<Rightarrow> nat \<Rightarrow> tcmu_cmd_entry list" where
  "walk r n 0 a b = []"
| "walk r n (Suc k) a b = (if a = b then [] else r a # walk r n k ((a + ent_len (r a)) mod n) b)"

definition answers :: "nat \<Rightarrow> tcmu_mailbox \<Rightarrow> (nat \<times> tcmu_cmd_payload) list" where
  "answers t mb =
     map (\<lambda>e. (hdr_cmd_id e, payload e)) (filter (\<lambda>e. ent_op e = TCMU_OP_CMD) (walk (ring mb) (cmdr_size mb) (cmdr_size mb) t (rb_tail mb)))"

lemma ring_inv_put:
  assumes inv: "ring_inv mb dt dn td" and room: "ring_room mb e"
  shows "ring_inv (ring_put mb e) dt dn (td @ [e])"
proof -
  let ?n = "cmdr_size mb" and ?es = "dn @ td"
  have I: "rb_tail mb < ?n" "total ?es < ?n" "holds (ring mb) ?n (rb_tail mb) ?es" "\<forall>x \<in> set ?es. 0 < ent_len x"
    "cmd_head mb = (rb_tail mb + total ?es) mod ?n"
    using inv by (auto simp: ring_inv_def)
  have "(cmd_head mb + ?n - rb_tail mb) mod ?n = total ?es"
  proof -
    have "(cmd_head mb + ?n - rb_tail mb) mod ?n = (cmd_head mb + (?n - rb_tail mb)) mod ?n" using I(1) by simp
    also have "\<dots> = (rb_tail mb + total ?es + (?n - rb_tail mb)) mod ?n" unfolding I(5) by (rule mod_add_left_eq)
    also have "\<dots> = (total ?es + ?n) mod ?n" using I(1) by (simp del: total_append)
    finally show ?thesis using I(2) by simp
  qed
  then have fits: "0 < ent_len e" "total ?es + ent_len e < ?n" using room by (simp_all add: ring_room_def)
  have "holds ((ring mb)(cmd_head mb := e)) ?n (rb_tail mb) ?es"
  proof (cases "?es = []")
    case False
    have "(cmd_head mb + (?n - total ?es)) mod ?n = (rb_tail mb + total ?es + (?n - total ?es)) mod ?n" unfolding I(5) by (rule mod_add_left_eq)
    then have "(cmd_head mb + (?n - total ?es)) mod ?n = rb_tail mb" using I(1,2) by simp
    moreover have "cmd_head mb < ?n" using I(1,5) by simp
    ultimately show ?thesis using holds_update [of "cmd_head mb" ?n "?n - total ?es" ?es "ring mb" e] I by simp
  qed simp
  then show ?thesis
    using inv fits I unfolding ring_inv_def ring_put_def by (auto simp: holds_append mod_add_left_eq add.assoc)
qed

lemma walk_holds:
  assumes "holds r n a es" "a < n" "total es < n" "\<forall>e \<in> set es. 0 < ent_len e" "length es \<le> k"
  shows "walk r n k a ((a + total es) mod n) = es"
  using assms
proof (induction es arbitrary: a k)
  case Nil
  then show ?case by (cases k) auto
next
  case (Cons e es)
  then obtain k' where k: "k = Suc k'" by (cases k) auto
  have "(a + total (e # es)) mod n \<noteq> a" using Cons.prems by (intro mod_shift_neq) auto
  moreover have "((a + ent_len e) mod n + total es) mod n = (a + total (e # es)) mod n" by (simp add: mod_add_left_eq add.assoc)
  ultimately show ?case using Cons.IH [of "(a + ent_len e) mod n" k'] Cons.prems k by auto
qed

lemma length_le_total: "\<forall>e \<in> set es. 0 < ent_len e \<Longrightarrow> length es \<le> total es"
  by (induction es) auto

lemma answers_complete:
  assumes "ring_inv mb dt (ps @ e # dn) td" "\<forall>p \<in> set ps. ent_op p \<noteq> TCMU_OP_CMD" "ent_op e = TCMU_OP_CMD"
    and "tcmulib_command_complete mb cmd result = Some mb'"
  shows "answers (rb_tail mb) mb' = [(cmd_id cmd, response cmd result)]"
proof -
  let ?n = "cmdr_size mb" and ?slot = "(rb_tail mb + total ps) mod cmdr_size mb"
  let ?e = "e\<lparr>hdr_cmd_id := cmd_id cmd, payload := response cmd result\<rparr>"
  have mb': "mb' = mb\<lparr>ring := (ring mb)(?slot := ?e), rb_tail := (?slot + ent_len e) mod ?n\<rparr>"
    using complete_spec [OF assms(1-3), of cmd result] assms(4) by simp
  have I: "rb_tail mb < ?n" "total ps + ent_len e < ?n" "holds (ring mb) ?n (rb_tail mb) ps" "\<forall>x \<in> set ps. 0 < ent_len x" "0 < ent_len e"
    using assms(1) by (auto simp: ring_inv_def holds_append)
  have "holds (ring mb') ?n (rb_tail mb) ps"
  proof (cases "ps = []")
    case False
    have "(?slot + (?n - total ps)) mod ?n = (rb_tail mb + total ps + (?n - total ps)) mod ?n" by (rule mod_add_left_eq)
    then have "(?slot + (?n - total ps)) mod ?n = rb_tail mb" using I(1,2) by simp
    then show ?thesis using holds_update [of ?slot ?n "?n - total ps" ps "ring mb" ?e] I unfolding mb' by simp
  qed simp
  then have "holds (ring mb') ?n (rb_tail mb) (ps @ [?e])" using I(1) by (simp add: holds_append mb')
  moreover have "length (ps @ [?e]) \<le> ?n" using length_le_total [of "ps @ [?e]"] I by simp
  moreover have "rb_tail mb' = (rb_tail mb + total (ps @ [?e])) mod ?n" by (simp add: mb' mod_add_left_eq add.assoc)
  ultimately have "walk (ring mb') ?n ?n (rb_tail mb) (rb_tail mb') = ps @ [?e]"
    using walk_holds [of "ring mb'" ?n "rb_tail mb" "ps @ [?e]" ?n] I by simp
  then show ?thesis using assms(2,3) by (auto simp: answers_def mb' filter_empty_conv)
qed

text \<open>
  The state of the protocol. The logs: entries put by the kernel, commands fetched, completions made,
  answers that the kernel found; and the commands that are fetched and not completed.
\<close>

record ring_state =
  rs_mb :: tcmu_mailbox
  rs_dev :: tcmu_device
  rs_out :: "tcmulib_cmd list"
  rs_put :: "tcmu_cmd_entry list"
  rs_got :: "tcmulib_cmd list"
  rs_done :: "(nat \<times> tcmu_cmd_payload) list"
  rs_seen :: "(nat \<times> tcmu_cmd_payload) list"

definition put_entry :: "ring_state \<Rightarrow> tcmu_cmd_entry \<Rightarrow> ring_state" where
  "put_entry s e = s\<lparr>rs_mb := ring_put (rs_mb s) e, rs_put := rs_put s @ [e]\<rparr>"

definition fetch_cmd :: "bool \<Rightarrow> (nat \<Rightarrow> mem) \<Rightarrow> ring_state \<Rightarrow> (tcmulib_cmd option \<times> ring_state) option" where
  "fetch_cmd alloc junk s = do {
     (c, dev, mb) \<leftarrow> tcmulib_get_next_command alloc (junk (length (rs_got s))) (rs_dev s) (rs_mb s);
     Some (c, s\<lparr>rs_mb := mb, rs_dev := dev, rs_out := rs_out s @ (case c of None \<Rightarrow> [] | Some x \<Rightarrow> [x]),
                rs_got := rs_got s @ (case c of None \<Rightarrow> [] | Some x \<Rightarrow> [x])\<rparr>)
   }"

text \<open>\<open>cmd\<close> is completed with the sense data that its handler has set.\<close>

definition complete_cmd :: "ring_state \<Rightarrow> tcmulib_cmd \<Rightarrow> byte list \<Rightarrow> tcmu_sts \<Rightarrow> ring_state option" where
  "complete_cmd s cmd sense r = do {
     let cmd' = cmd\<lparr>sense_buf := sense\<rparr>;
     mb \<leftarrow> tcmulib_command_complete (rs_mb s) cmd' r;
     Some (s\<lparr>rs_mb := mb, rs_out := remove1 cmd (rs_out s), rs_done := rs_done s @ [(cmd_id cmd, response cmd' r)],
             rs_seen := rs_seen s @ answers (rb_tail (rs_mb s)) mb\<rparr>)
   }"

inductive ring_step :: "(nat \<Rightarrow> mem) \<Rightarrow> ring_state \<Rightarrow> ring_state \<Rightarrow> bool" for junk where
  kernel_put: "ring_room (rs_mb s) e \<Longrightarrow> requests [e] \<Longrightarrow> ring_step junk s (put_entry s e)"
| daemon_fetch: "fetch_cmd alloc junk s = Some (c, s') \<Longrightarrow> ring_step junk s s'"
| daemon_complete: "cmd \<in> set (rs_out s) \<Longrightarrow> complete_cmd s cmd sense r = Some s' \<Longrightarrow> ring_step junk s s'"

inductive_cases ring_stepE: "ring_step junk s s'"

text \<open>The commands that fetching will deliver for a list of entries.\<close>

fun pend :: "(nat \<Rightarrow> mem) \<Rightarrow> nat \<Rightarrow> nat \<Rightarrow> tcmu_cmd_entry list \<Rightarrow> tcmulib_cmd list" where
  "pend junk addr k [] = []"
| "pend junk addr k (e # es) =
     (if fetchable e then command (junk k) addr e # pend junk addr (Suc k) es else pend junk addr k es)"

lemma pend_append: "pend junk addr k (xs @ ys) = pend junk addr k xs @ pend junk addr (k + length (pend junk addr k xs)) ys"
  by (induction junk addr k xs rule: pend.induct) auto

abbreviation head_opt :: "'a list \<Rightarrow> 'a option" where
  "head_opt xs \<equiv> (case xs of [] \<Rightarrow> None | x # _ \<Rightarrow> Some x)"

lemma queue_next_none:
  "queue_next alloc (junk k) addr td = (None, ps, rest) \<Longrightarrow>
     pend junk addr k td = pend junk addr k rest \<and> (alloc \<longrightarrow> rest = []) \<and> set rest \<subseteq> set td"
  by (induction td arbitrary: ps rest) (auto split: prod.splits if_splits)

lemma queue_next_some:
  "queue_next alloc (junk k) addr td = (Some x, ps, rest) \<Longrightarrow>
     alloc \<and> pend junk addr k td = x # pend junk addr (Suc k) rest \<and> (\<exists>e \<in> set ps. ent_op e = TCMU_OP_CMD) \<and> set rest \<subseteq> set td"
  by (induction td arbitrary: ps rest) (auto simp: fetchable_def split: prod.splits if_splits)

definition cmds :: "tcmu_cmd_entry list \<Rightarrow> nat" where
  "cmds es = length (filter (\<lambda>e. ent_op e = TCMU_OP_CMD) es)"

lemma cmds_simps [simp]:
  "cmds [] = 0" "cmds (e # es) = (if ent_op e = TCMU_OP_CMD then Suc (cmds es) else cmds es)" "cmds (xs @ ys) = cmds xs + cmds ys"
  by (simp_all add: cmds_def)

lemma cmds_pos: "e \<in> set es \<Longrightarrow> ent_op e = TCMU_OP_CMD \<Longrightarrow> 0 < cmds es"
  by (induction es) auto

lemma cmds_none: "\<forall>p \<in> set ps. ent_op p \<noteq> TCMU_OP_CMD \<Longrightarrow> cmds ps = 0"
  by (induction ps) auto

definition proto_inv :: "(nat \<Rightarrow> mem) \<Rightarrow> ring_state \<Rightarrow> bool" where
  "proto_inv junk s \<longleftrightarrow> (\<exists>dn td. ring_inv (rs_mb s) (cmd_tail (rs_dev s)) dn td \<and> requests td
     \<and> rs_got s @ pend junk (mb_addr (rs_mb s)) (length (rs_got s)) td = pend junk (mb_addr (rs_mb s)) 0 (rs_put s)
     \<and> length (rs_out s) \<le> cmds dn \<and> rs_seen s = rs_done s
     \<and> mset (map cmd_id (rs_got s)) = mset (map cmd_id (rs_out s)) + mset (map fst (rs_done s)))"

lemma proto_invI:
  assumes "ring_inv (rs_mb s) (cmd_tail (rs_dev s)) dn td" "requests td"
    "rs_got s @ pend junk (mb_addr (rs_mb s)) (length (rs_got s)) td = pend junk (mb_addr (rs_mb s)) 0 (rs_put s)"
    "length (rs_out s) \<le> cmds dn" "rs_seen s = rs_done s"
    "mset (map cmd_id (rs_got s)) = mset (map cmd_id (rs_out s)) + mset (map fst (rs_done s))"
  shows "proto_inv junk s"
  using assms by (auto simp: proto_inv_def)

definition pending :: "(nat \<Rightarrow> mem) \<Rightarrow> ring_state \<Rightarrow> tcmulib_cmd list" where
  "pending junk s = pend junk (mb_addr (rs_mb s)) (length (rs_got s))
     (walk (ring (rs_mb s)) (cmdr_size (rs_mb s)) (cmdr_size (rs_mb s)) (cmd_tail (rs_dev s)) (cmd_head (rs_mb s)))"

lemma pending_pend:
  assumes "ring_inv (rs_mb s) (cmd_tail (rs_dev s)) dn td"
  shows "pending junk s = pend junk (mb_addr (rs_mb s)) (length (rs_got s)) td"
proof -
  have lens: "\<forall>e \<in> set td. 0 < ent_len e" using assms by (simp add: ring_inv_def)
  then have "length td \<le> cmdr_size (rs_mb s)" using length_le_total [OF lens] ring_invD(3) [OF assms] by simp
  then have "walk (ring (rs_mb s)) (cmdr_size (rs_mb s)) (cmdr_size (rs_mb s)) (cmd_tail (rs_dev s)) (cmd_head (rs_mb s)) = td"
    using walk_holds [OF ring_invD(4,2,3) [OF assms] lens] ring_invD(5) [OF assms] by simp
  then show ?thesis by (simp add: pending_def)
qed

lemma fetch_proto:
  assumes "proto_inv junk s"
  shows "\<exists>c s'. fetch_cmd alloc junk s = Some (c, s') \<and> proto_inv junk s' \<and> mb_addr (rs_mb s') = mb_addr (rs_mb s)
    \<and> rs_put s' = rs_put s \<and> rs_done s' = rs_done s \<and> rs_got s' = rs_got s @ (case c of None \<Rightarrow> [] | Some x \<Rightarrow> [x])
    \<and> rs_out s' = rs_out s @ (case c of None \<Rightarrow> [] | Some x \<Rightarrow> [x])
    \<and> (alloc \<longrightarrow> c = head_opt (pending junk s) \<and> pending junk s' = tl (pending junk s))"
proof -
  obtain dn td where I: "ring_inv (rs_mb s) (cmd_tail (rs_dev s)) dn td" "requests td"
    "rs_got s @ pend junk (mb_addr (rs_mb s)) (length (rs_got s)) td = pend junk (mb_addr (rs_mb s)) 0 (rs_put s)"
    "length (rs_out s) \<le> cmds dn" "rs_seen s = rs_done s"
    "mset (map cmd_id (rs_got s)) = mset (map cmd_id (rs_out s)) + mset (map fst (rs_done s))"
    using assms by (auto simp: proto_inv_def)
  obtain c ps rest where q: "queue_next alloc (junk (length (rs_got s))) (mb_addr (rs_mb s)) td = (c, ps, rest)" by (metis prod_cases3)
  obtain dev mb where f: "tcmulib_get_next_command alloc (junk (length (rs_got s))) (rs_dev s) (rs_mb s) = Some (c, dev, mb)"
    "ring_inv mb (cmd_tail dev) (dn @ ps) rest" "mb_addr mb = mb_addr (rs_mb s)"
    using get_next_refines [OF I(1,2) q] by blast
  define s' where "s' = s\<lparr>rs_mb := mb, rs_dev := dev, rs_out := rs_out s @ (case c of None \<Rightarrow> [] | Some x \<Rightarrow> [x]),
                rs_got := rs_got s @ (case c of None \<Rightarrow> [] | Some x \<Rightarrow> [x])\<rparr>"
  note P = pending_pend [OF I(1), of junk]
  have P': "pending junk s' = pend junk (mb_addr (rs_mb s)) (length (rs_got s')) rest"
    using pending_pend [of s' "dn @ ps" rest junk] f(2,3) by (simp add: s'_def)
  have "proto_inv junk s' \<and> (alloc \<longrightarrow> c = head_opt (pending junk s) \<and> pending junk s' = tl (pending junk s))"
  proof (cases c)
    case None
    note Q = queue_next_none [where junk = junk and k = "length (rs_got s)", OF q [unfolded None]]
    have "proto_inv junk s'"
      using f(2,3) I(2-6) Q None by (intro proto_invI [of s' "dn @ ps" rest]) (auto simp: s'_def requests_def)
    then show ?thesis using P P' Q None by (auto simp: s'_def)
  next
    case (Some x)
    note Q = queue_next_some [where junk = junk and k = "length (rs_got s)", OF q [unfolded Some]]
    then have "0 < cmds ps" using cmds_pos by blast
    then have "proto_inv junk s'"
      using f(2,3) I(2-6) Q Some by (intro proto_invI [of s' "dn @ ps" rest]) (auto simp: s'_def requests_def)
    then show ?thesis using P P' Q Some by (simp add: s'_def)
  qed
  moreover have "fetch_cmd alloc junk s = Some (c, s')" using f(1) by (simp add: fetch_cmd_def s'_def)
  moreover have "mb_addr (rs_mb s') = mb_addr (rs_mb s)" "rs_put s' = rs_put s" "rs_done s' = rs_done s"
    "rs_got s' = rs_got s @ (case c of None \<Rightarrow> [] | Some x \<Rightarrow> [x])" "rs_out s' = rs_out s @ (case c of None \<Rightarrow> [] | Some x \<Rightarrow> [x])"
    using f(3) by (simp_all add: s'_def)
  ultimately show ?thesis by blast
qed

lemma first_command:
  "0 < cmds dn \<Longrightarrow>
   \<exists>ps e rest. dn = ps @ e # rest \<and> (\<forall>p \<in> set ps. ent_op p \<noteq> TCMU_OP_CMD) \<and> ent_op e = TCMU_OP_CMD"
  using split_list_first_prop [of dn "\<lambda>e. ent_op e = TCMU_OP_CMD"] by (auto simp: cmds_def filter_empty_conv)

lemma complete_proto:
  assumes "proto_inv junk s" "cmd \<in> set (rs_out s)"
  shows "\<exists>s'. complete_cmd s cmd sense r = Some s' \<and> proto_inv junk s' \<and> pending junk s' = pending junk s
    \<and> mb_addr (rs_mb s') = mb_addr (rs_mb s) \<and> rs_put s' = rs_put s \<and> rs_got s' = rs_got s
    \<and> rs_done s' = rs_done s @ [(cmd_id cmd, response (cmd\<lparr>sense_buf := sense\<rparr>) r)] \<and> rs_out s' = remove1 cmd (rs_out s)"
proof -
  obtain dn td where I: "ring_inv (rs_mb s) (cmd_tail (rs_dev s)) dn td" "requests td"
    "rs_got s @ pend junk (mb_addr (rs_mb s)) (length (rs_got s)) td = pend junk (mb_addr (rs_mb s)) 0 (rs_put s)"
    "length (rs_out s) \<le> cmds dn" "rs_seen s = rs_done s"
    "mset (map cmd_id (rs_got s)) = mset (map cmd_id (rs_out s)) + mset (map fst (rs_done s))"
    using assms by (auto simp: proto_inv_def)
  have "0 < length (rs_out s)" using assms(2) by auto
  then have "0 < cmds dn" using I(4) by linarith
  then obtain ps e rest where dn: "dn = ps @ e # rest" "\<forall>p \<in> set ps. ent_op p \<noteq> TCMU_OP_CMD" "ent_op e = TCMU_OP_CMD"
    using first_command by blast
  note inv = I(1) [unfolded dn(1)]
  let ?cmd = "cmd\<lparr>sense_buf := sense\<rparr>"
  obtain mb where mb: "tcmulib_command_complete (rs_mb s) ?cmd r = Some mb" "ring_inv mb (cmd_tail (rs_dev s)) rest td"
    "mb_addr mb = mb_addr (rs_mb s)"
    using complete_spec [OF inv dn(2,3), of ?cmd r] by auto
  have seen: "answers (rb_tail (rs_mb s)) mb = [(cmd_id cmd, response ?cmd r)]" using answers_complete [OF inv dn(2,3) mb(1)] by simp
  define s' where "s' = s\<lparr>rs_mb := mb, rs_out := remove1 cmd (rs_out s), rs_done := rs_done s @ [(cmd_id cmd, response ?cmd r)],
             rs_seen := rs_seen s @ answers (rb_tail (rs_mb s)) mb\<rparr>"
  have "image_mset cmd_id (mset (rs_out s)) = add_mset (cmd_id cmd) (image_mset cmd_id (mset (remove1 cmd (rs_out s))))"
    using assms(2) by (metis image_mset_add_mset insert_DiffM mset_remove1 set_mset_mset)
  then have "proto_inv junk s'"
    using mb(2,3) I(2-6) dn cmds_none [OF dn(2)] seen assms(2)
    by (intro proto_invI [of s' rest td]) (auto simp: s'_def length_remove1)
  moreover have "pending junk s' = pending junk s"
    using pending_pend [of s' rest td junk] pending_pend [OF I(1), of junk] mb(2,3) by (simp add: s'_def)
  ultimately show ?thesis using mb by (intro exI [of _ s']) (simp add: complete_cmd_def s'_def)
qed

section \<open>Command processing\<close>

text \<open>
  The loop of a thread that takes commands until none is left. The contract between the source of commands
  and the thread: fetching takes the first pending command, and handling a command that was just fetched
  keeps the pending ones and records it.
\<close>

partial_function (option) take_all :: "('s \<Rightarrow> ('c option \<times> 's) option) \<Rightarrow> ('s \<Rightarrow> 'c \<Rightarrow> 's option) \<Rightarrow> 's \<Rightarrow> 's option" where
  "take_all fetch handle s = do {
     (c, s1) \<leftarrow> fetch s;
     (case c of None \<Rightarrow> Some s1 | Some x \<Rightarrow> do { s2 \<leftarrow> handle s1 x; take_all fetch handle s2 })
   }"

locale command_source =
  fixes fetch :: "'s \<Rightarrow> ('c option \<times> 's) option" and handle :: "'s \<Rightarrow> 'c \<Rightarrow> 's option"
    and waiting :: "'s \<Rightarrow> 'c list" and handled :: "'s \<Rightarrow> 'c list"
    and ready :: "'s \<Rightarrow> 'c \<Rightarrow> bool" and invar :: "'s \<Rightarrow> bool"
  assumes fetch_law: "invar s \<Longrightarrow> \<exists>s'. fetch s = Some (head_opt (waiting s), s') \<and> waiting s' = tl (waiting s) \<and> handled s' = handled s
      \<and> invar s' \<and> (\<forall>c. head_opt (waiting s) = Some c \<longrightarrow> ready s' c)"
    and handle_law: "invar s \<Longrightarrow> ready s c \<Longrightarrow> \<exists>s'. handle s c = Some s' \<and> waiting s' = waiting s \<and> handled s' = handled s @ [c] \<and> invar s'"
begin

lemma take_all_done:
  "invar s \<Longrightarrow> \<exists>s'. take_all fetch handle s = Some s' \<and> waiting s' = [] \<and> handled s' = handled s @ waiting s \<and> invar s'"
proof (induction "waiting s" arbitrary: s)
  case Nil
  then obtain s' where "fetch s = Some (None, s')" "waiting s' = []" "handled s' = handled s" "invar s'"
    using fetch_law [OF Nil(2)] by auto
  then show ?case using Nil(1) by (subst take_all.simps) simp
next
  case (Cons c cs)
  have w: "waiting s = c # cs" using Cons(2) by simp
  obtain s1 where f: "fetch s = Some (Some c, s1)" "waiting s1 = cs" "handled s1 = handled s" "invar s1" "ready s1 c"
    using fetch_law [OF Cons(3)] by (auto simp: w)
  then obtain s2 where h: "handle s1 c = Some s2" "waiting s2 = cs" "handled s2 = handled s @ [c]" "invar s2"
    using handle_law [of s1 c] by auto
  then obtain s' where "take_all fetch handle s2 = Some s'" "waiting s' = []" "handled s' = handled s2 @ cs" "invar s'"
    using Cons(1) [of s2] by auto
  then show ?case using f h by (subst take_all.simps) (simp add: w)
qed

end

text \<open>
  \<open>tcmur_cmdproc_thread\<close>: each command goes to the handler, which returns a status and the sense data; unless it is handled asynchronously it is completed at once.
\<close>

record 'h cmdproc =
  cp_ring :: ring_state
  cp_handler :: 'h
  cp_completed :: bool
  cp_log :: "tcmulib_cmd list"

definition cmdproc_fetch :: "(nat \<Rightarrow> mem) \<Rightarrow> 'h cmdproc \<Rightarrow> (tcmulib_cmd option \<times> 'h cmdproc) option" where
  "cmdproc_fetch junk p = do { (c, s) \<leftarrow> fetch_cmd True junk (cp_ring p); Some (c, p\<lparr>cp_ring := s\<rparr>) }"

definition cmdproc_handle ::
  "('h \<Rightarrow> tcmulib_cmd \<Rightarrow> tcmu_sts \<times> byte list \<times> 'h) \<Rightarrow> 'h cmdproc \<Rightarrow> tcmulib_cmd \<Rightarrow> 'h cmdproc option" where
  "cmdproc_handle handle_cmd p cmd =
     (case handle_cmd (cp_handler p) cmd of (ret, sense, h) \<Rightarrow>
        let p1 = p\<lparr>cp_handler := h, cp_log := cp_log p @ [cmd]\<rparr> in
        if ret \<noteq> TCMU_STS_ASYNC_HANDLED
        then do { s \<leftarrow> complete_cmd (cp_ring p) cmd sense ret; Some (p1\<lparr>cp_ring := s, cp_completed := True\<rparr>) }
        else Some p1)"

definition cmdproc_round :: "(nat \<Rightarrow> mem) \<Rightarrow> ('h \<Rightarrow> tcmulib_cmd \<Rightarrow> tcmu_sts \<times> byte list \<times> 'h) \<Rightarrow> 'h cmdproc \<Rightarrow> 'h cmdproc option" where
  "cmdproc_round junk handle_cmd p = take_all (cmdproc_fetch junk) (cmdproc_handle handle_cmd) (p\<lparr>cp_completed := False\<rparr>)"

text \<open>What a handler that keeps track of the commands it is given leads to.\<close>

definition cp_pending :: "(nat \<Rightarrow> mem) \<Rightarrow> 'h cmdproc \<Rightarrow> tcmulib_cmd list" where
  "cp_pending junk p = pending junk (cp_ring p)"

interpretation cp: command_source "cmdproc_fetch junk" "cmdproc_handle handle_cmd" "cp_pending junk" cp_log
  "\<lambda>p c. c \<in> set (rs_out (cp_ring p))" "\<lambda>p. proto_inv junk (cp_ring p)"
  for junk :: "nat \<Rightarrow> mem" and handle_cmd :: "'h \<Rightarrow> tcmulib_cmd \<Rightarrow> tcmu_sts \<times> byte list \<times> 'h"
proof
  fix p :: "'h cmdproc"
  assume inv: "proto_inv junk (cp_ring p)"
  obtain s where s: "fetch_cmd True junk (cp_ring p) = Some (head_opt (cp_pending junk p), s)" "proto_inv junk s"
    "pending junk s = tl (cp_pending junk p)"
    "rs_out s = rs_out (cp_ring p) @ (case head_opt (cp_pending junk p) of None \<Rightarrow> [] | Some x \<Rightarrow> [x])"
    using fetch_proto [OF inv, of True] unfolding cp_pending_def by (metis (no_types, lifting))
  then show "\<exists>p'. cmdproc_fetch junk p = Some (head_opt (cp_pending junk p), p') \<and> cp_pending junk p' = tl (cp_pending junk p)
      \<and> cp_log p' = cp_log p \<and> proto_inv junk (cp_ring p')
      \<and> (\<forall>c. head_opt (cp_pending junk p) = Some c \<longrightarrow> c \<in> set (rs_out (cp_ring p')))"
    by (intro exI [of _ "p\<lparr>cp_ring := s\<rparr>"]) (auto simp: cmdproc_fetch_def cp_pending_def)
next
  fix p :: "'h cmdproc" and c
  assume inv: "proto_inv junk (cp_ring p)" and c: "c \<in> set (rs_out (cp_ring p))"
  obtain ret sense h where r: "handle_cmd (cp_handler p) c = (ret, sense, h)" by (metis prod_cases3)
  obtain s where "complete_cmd (cp_ring p) c sense ret = Some s" "proto_inv junk s" "pending junk s = pending junk (cp_ring p)"
    using complete_proto [OF inv c, of sense ret] by blast
  then show "\<exists>p'. cmdproc_handle handle_cmd p c = Some p' \<and> cp_pending junk p' = cp_pending junk p
      \<and> cp_log p' = cp_log p @ [c] \<and> proto_inv junk (cp_ring p')"
    using inv r by (auto simp: cmdproc_handle_def cp_pending_def Let_def)
qed

lemma ring_step_inv: "ring_step junk s s' \<Longrightarrow> proto_inv junk s \<Longrightarrow> proto_inv junk s'"
proof (erule ring_stepE)
  fix e assume s: "proto_inv junk s" "s' = put_entry s e" "ring_room (rs_mb s) e" "requests [e]"
  obtain dn td where I: "ring_inv (rs_mb s) (cmd_tail (rs_dev s)) dn td" "requests td"
    "rs_got s @ pend junk (mb_addr (rs_mb s)) (length (rs_got s)) td = pend junk (mb_addr (rs_mb s)) 0 (rs_put s)"
    "length (rs_out s) \<le> cmds dn" "rs_seen s = rs_done s"
    "mset (map cmd_id (rs_got s)) = mset (map cmd_id (rs_out s)) + mset (map fst (rs_done s))"
    using s(1) by (auto simp: proto_inv_def)
  have "length (pend junk (mb_addr (rs_mb s)) 0 (rs_put s)) = length (rs_got s) + length (pend junk (mb_addr (rs_mb s)) (length (rs_got s)) td)"
    unfolding I(3) [symmetric] by simp
  then show ?thesis
    using ring_inv_put [OF I(1) s(3)] I(2-6) s(2,4)
    by (intro proto_invI [of s' dn "td @ [e]"]) (auto simp: put_entry_def ring_put_def requests_def pend_append)
next
  fix alloc c assume "proto_inv junk s" "fetch_cmd alloc junk s = Some (c, s')"
  then show ?thesis using fetch_proto [of junk s alloc] by auto
next
  fix cmd sense r assume "proto_inv junk s" "complete_cmd s cmd sense r = Some s'" "cmd \<in> set (rs_out s)"
  then show ?thesis using complete_proto [of junk s cmd sense r] by auto
qed

lemma ring_reach_inv: "(ring_step junk)\<^sup>*\<^sup>* s s' \<Longrightarrow> proto_inv junk s \<Longrightarrow> proto_inv junk s'"
  by (induction rule: rtranclp_induct) (auto intro: ring_step_inv)

section \<open>Properties\<close>

definition ring_start :: "ring_state \<Rightarrow> bool" where
  "ring_start s \<longleftrightarrow> cmd_head (rs_mb s) = rb_tail (rs_mb s) \<and> cmd_tail (rs_dev s) = rb_tail (rs_mb s)
     \<and> rb_tail (rs_mb s) < cmdr_size (rs_mb s) \<and> cmdr_size (rs_mb s) \<le> 2 ^ 31
     \<and> rs_out s = [] \<and> rs_put s = [] \<and> rs_got s = [] \<and> rs_done s = [] \<and> rs_seen s = []"

lemma ring_start_inv: "ring_start s \<Longrightarrow> proto_inv junk s"
  by (rule proto_invI [of s "[]" "[]"]) (auto simp: ring_start_def ring_inv_def requests_def)

text \<open>
  C3: The ring protocol. Whatever the interleaving of the kernel putting entries, the daemon fetching
  commands (\<open>tcmulib_get_next_command\<close>) and threads completing them in any order
  (\<open>tcmulib_command_complete\<close>): fetching returns and delivers each command of the kernel once and in order,
  a completion of a fetched command always finds a slot, the kernel finds exactly the answers given, in the
  order they were given, and every command fetched is either outstanding or answered once. So no request
  is overwritten before it is fetched, and no answer before it is read.
\<close>
theorem ring_protocol:
  assumes "ring_start s0" and "(ring_step junk)\<^sup>*\<^sup>* s0 s"
  shows "pend junk (mb_addr (rs_mb s)) 0 (rs_put s) = rs_got s @ pending junk s
    \<and> (\<exists>c s'. fetch_cmd True junk s = Some (c, s') \<and> c = head_opt (pending junk s))
    \<and> (cmd \<in> set (rs_out s) \<longrightarrow> complete_cmd s cmd sense r \<noteq> None)
    \<and> rs_seen s = rs_done s
    \<and> mset (map cmd_id (rs_got s)) = mset (map cmd_id (rs_out s)) + mset (map fst (rs_done s))"
proof -
  have inv: "proto_inv junk s" by (rule ring_reach_inv [OF assms(2) ring_start_inv [OF assms(1)]])
  then obtain dn td where I: "ring_inv (rs_mb s) (cmd_tail (rs_dev s)) dn td"
    "rs_got s @ pend junk (mb_addr (rs_mb s)) (length (rs_got s)) td = pend junk (mb_addr (rs_mb s)) 0 (rs_put s)"
    "rs_seen s = rs_done s" "mset (map cmd_id (rs_got s)) = mset (map cmd_id (rs_out s)) + mset (map fst (rs_done s))"
    unfolding proto_inv_def by blast
  have "\<exists>c s'. fetch_cmd True junk s = Some (c, s') \<and> c = head_opt (pending junk s)"
    using fetch_proto [OF inv, of True] by blast
  moreover have "cmd \<in> set (rs_out s) \<longrightarrow> complete_cmd s cmd sense r \<noteq> None" using complete_proto [OF inv, of cmd sense r] by blast
  ultimately show ?thesis using I(2-4) unfolding pending_pend [OF I(1)] by (intro conjI) (simp_all only:)
qed


text \<open>A ring of 64 bytes with a pad and a TEST UNIT READY.\<close>

definition tur_entry :: tcmu_cmd_entry where
  "tur_entry = \<lparr>len_op = 33, hdr_cmd_id = 7, uflags = 0, payload = Req [] (\<lambda>_. 0)\<rparr>"

definition pad_entry :: tcmu_cmd_entry where
  "pad_entry = \<lparr>len_op = 16, hdr_cmd_id = 0, uflags = 0, payload = Req [] (\<lambda>_. 0)\<rparr>"

definition start_state :: ring_state where
  "start_state = \<lparr>rs_mb = \<lparr>mb_addr = 0, cmdr_size = 64, cmd_head = 40, rb_tail = 40, ring = (\<lambda>_. pad_entry)\<rparr>,
     rs_dev = \<lparr>cmd_tail = 40, num_lbas = 0, block_size = 512, max_xfer_len = 128, opt_unmap_gran = 8,
       unmap_gran_align = 8, write_cache_enabled = True, solid_state_media = False, tcm_hba_name = [],
       tcm_dev_name = [], cfgstring = []\<rparr>,
     rs_out = [], rs_put = [], rs_got = [], rs_done = [], rs_seen = []\<rparr>"

lemma sample_entries [simp]: "ent_len tur_entry = 32" "ent_op tur_entry = 1" "ent_len pad_entry = 16" "ent_op pad_entry = 0"
  "payload tur_entry = Req [] (\<lambda>_. 0)"
  by (simp_all add: tur_entry_def pad_entry_def tcmu_hdr_get_len_def tcmu_hdr_get_op_def)

lemma start_state_simps [simp]:
  "rs_mb start_state = \<lparr>mb_addr = 0, cmdr_size = 64, cmd_head = 40, rb_tail = 40, ring = (\<lambda>_. pad_entry)\<rparr>"
  "cmd_tail (rs_dev start_state) = 40" "rs_out start_state = []" "rs_put start_state = []" "rs_got start_state = []"
  "rs_done start_state = []" "rs_seen start_state = []"
  by (simp_all add: start_state_def)

lemma sample_start: "ring_start start_state"
  by (simp add: ring_start_def)

lemma sample_reach: "(ring_step junk)\<^sup>*\<^sup>* start_state (put_entry (put_entry start_state pad_entry) tur_entry)"
proof -
  have "ring_step junk start_state (put_entry start_state pad_entry)"
    by (rule kernel_put) (simp_all add: ring_room_def requests_def)
  moreover have "ring_step junk (put_entry start_state pad_entry) (put_entry (put_entry start_state pad_entry) tur_entry)"
    by (rule kernel_put) (simp_all add: ring_room_def requests_def put_entry_def ring_put_def)
  ultimately show ?thesis by (meson rtranclp.rtrancl_refl rtranclp.rtrancl_into_rtrancl)
qed

theorem ring_protocol_witness:
  "\<exists>s'. fetch_cmd True (\<lambda>_ _. 0) (put_entry (put_entry start_state pad_entry) tur_entry) = Some (Some (command (\<lambda>_. 0) 0 tur_entry), s')"
proof -
  have "tcmu_get_cdb_length (\<lambda>_. 0) \<noteq> None" by (simp add: tcmu_get_cdb_length_def)
  then have "pend (\<lambda>_ _. 0) 0 0 [pad_entry, tur_entry] = [command (\<lambda>_. 0) 0 tur_entry]" by (simp add: fetchable_def)
  with ring_protocol [OF sample_start sample_reach, of "\<lambda>_ _. 0"] show ?thesis
    by (auto simp: put_entry_def ring_put_def)
qed


end
