(* ===== verification/Tcmur_Aio.thy ===== *)
theory Tcmur_Aio
  imports Tcmu_Prelude
begin

text \<open>
  Request tracking and completion wake-ups of \<open>tcmur_aio.c\<close>, with the loop of
  \<open>aio_command_finish\<close> (\<open>tcmur_cmd_handler.c\<close>) and the completions of the command processing
  thread (\<open>main.c\<close>). Every function that takes \<open>track_lock\<close> is one atomic operation on the
  tracking record; the threads that run them are interleaved by the step relation below. The
  counters are \<open>unsigned int\<close> and wrap. An assertion that fails is \<open>None\<close>.

  The theorems: no completion stays unannounced to the kernel (safety: when no thread is inside
  \<open>aio_command_finish\<close> every completion has been announced; liveness: the threads that are inside
  always can go on, and get out after a bounded number of steps), the counter of requests in
  flight is exact, and a single waiter for the empty queue is always signalled. With two waiters
  the first one is forgotten.
\<close>

section \<open>The tracking record\<close>

record tcmu_track_aio =
  pending_wakeups :: nat
  tracked_aio_ops :: nat
  is_empty_cond :: "nat option"

definition track_aio_request_start :: "tcmu_track_aio \<Rightarrow> tcmu_track_aio" where
  "track_aio_request_start t = t\<lparr>tracked_aio_ops := add32 (tracked_aio_ops t) 1\<rparr>"

text \<open>
  The result holds the record, the value stored through \<open>wake_up\<close> (meaningless when the caller
  passes \<open>NULL\<close>, \<open>wants = False\<close>) and the condition that is signalled.
\<close>

definition track_aio_request_finish :: "tcmu_track_aio \<Rightarrow> bool \<Rightarrow> (tcmu_track_aio \<times> bool \<times> nat option) option" where
  "track_aio_request_finish t wants =
     (if tracked_aio_ops t = 0 then None
      else
        let t1 = t\<lparr>tracked_aio_ops := tracked_aio_ops t - 1\<rparr>;
            t2 = (if wants then t1\<lparr>pending_wakeups := add32 (pending_wakeups t1) 1\<rparr> else t1);
            wake_up = (wants \<and> pending_wakeups t2 = 1)
        in
        if tracked_aio_ops t2 = 0 \<and> is_empty_cond t2 \<noteq> None
        then Some (t2\<lparr>is_empty_cond := None\<rparr>, wake_up, is_empty_cond t2)
        else Some (t2, wake_up, None))"

definition track_aio_wakeup_finish :: "tcmu_track_aio \<Rightarrow> (tcmu_track_aio \<times> bool) option" where
  "track_aio_wakeup_finish t =
     (if pending_wakeups t > 1 then Some (t\<lparr>pending_wakeups := 1\<rparr>, True)
      else if pending_wakeups t = 0 then None
      else Some (t\<lparr>pending_wakeups := 0\<rparr>, False))"

text \<open>\<open>aio_wait_for_empty_queue\<close> up to the wait: \<open>True\<close> when there is nothing to wait for.\<close>

definition aio_wait_for_empty_queue :: "tcmu_track_aio \<Rightarrow> nat \<Rightarrow> tcmu_track_aio \<times> bool" where
  "aio_wait_for_empty_queue t w =
     (if tracked_aio_ops t = 0 then (t, True) else (t\<lparr>is_empty_cond := Some w\<rparr>, False))"

text \<open>\<open>pthread_cond_wait\<close> has returned.\<close>

definition aio_wait_return :: "tcmu_track_aio \<Rightarrow> tcmu_track_aio" where
  "aio_wait_return t = t\<lparr>is_empty_cond := None\<rparr>"

definition setup_aio_tracking :: "tcmu_track_aio" where
  "setup_aio_tracking = \<lparr>pending_wakeups = 0, tracked_aio_ops = 0, is_empty_cond = None\<rparr>"

section \<open>The threads\<close>

text \<open>
  Where a thread is in \<open>aio_command_finish\<close>: outside; after \<open>tcmur_command_complete\<close>; before
  \<open>tcmulib_processing_complete\<close>; before \<open>track_aio_wakeup_finish\<close>.
\<close>

datatype finish_pc = Outside | Completed | Notify | Check

datatype wait_pc = W_idle | W_waiting | W_signalled

text \<open>
  \<open>outstanding\<close>: commands started and not completed; \<open>unnotified\<close>: completions put into the ring
  since the kernel was last told; \<open>sync_completed\<close>: the variable \<open>completed\<close> of
  \<open>tcmur_cmdproc_thread\<close>.
\<close>

record aio_state =
  track :: tcmu_track_aio
  pcs :: "finish_pc list"
  waiters :: "wait_pc list"
  outstanding :: nat
  unnotified :: nat
  sync_completed :: bool

definition signal :: "nat option \<Rightarrow> wait_pc list \<Rightarrow> wait_pc list" where
  "signal c ws = (case c of None \<Rightarrow> ws | Some w \<Rightarrow> ws[w := W_signalled])"

definition aio_init :: "nat \<Rightarrow> nat \<Rightarrow> aio_state" where
  "aio_init n k = \<lparr>track = setup_aio_tracking, pcs = replicate n Outside, waiters = replicate k W_idle,
                   outstanding = 0, unnotified = 0, sync_completed = False\<rparr>"

text \<open>The steps inside the loop of \<open>aio_command_finish\<close>.\<close>

inductive finish_step :: "aio_state \<Rightarrow> aio_state \<Rightarrow> bool" where
  finish: "i < length (pcs s) \<Longrightarrow> pcs s ! i = Completed \<Longrightarrow>
     track_aio_request_finish (track s) True = Some (t, wake_up, c) \<Longrightarrow>
     finish_step s (s\<lparr>track := t, pcs := (pcs s)[i := if wake_up then Notify else Outside],
                      waiters := signal c (waiters s)\<rparr>)"
| notify: "i < length (pcs s) \<Longrightarrow> pcs s ! i = Notify \<Longrightarrow>
     finish_step s (s\<lparr>pcs := (pcs s)[i := Check], unnotified := 0\<rparr>)"
| check: "i < length (pcs s) \<Longrightarrow> pcs s ! i = Check \<Longrightarrow>
     track_aio_wakeup_finish (track s) = Some (t, wake_up) \<Longrightarrow>
     finish_step s (s\<lparr>track := t, pcs := (pcs s)[i := if wake_up then Notify else Outside]\<rparr>)"

text \<open>
  The rest: the command processing thread starts a command, gets a status other than
  \<open>TCMU_STS_ASYNC_HANDLED\<close> for a tracked or an untracked command and completes it itself, and
  announces its completions; a handler thread completes a command; a thread waits for the empty queue.
\<close>

inductive other_step :: "aio_state \<Rightarrow> aio_state \<Rightarrow> bool" where
  start: "other_step s (s\<lparr>track := track_aio_request_start (track s), outstanding := outstanding s + 1\<rparr>)"
| sync: "outstanding s > 0 \<Longrightarrow> track_aio_request_finish (track s) False = Some (t, wake_up, c) \<Longrightarrow>
     other_step s (s\<lparr>track := t, waiters := signal c (waiters s), outstanding := outstanding s - 1,
                     unnotified := unnotified s + 1, sync_completed := True\<rparr>)"
| untracked: "other_step s (s\<lparr>unnotified := unnotified s + 1, sync_completed := True\<rparr>)"
| sync_notify: "sync_completed s \<Longrightarrow> other_step s (s\<lparr>unnotified := 0, sync_completed := False\<rparr>)"
| complete: "i < length (pcs s) \<Longrightarrow> pcs s ! i = Outside \<Longrightarrow> outstanding s > 0 \<Longrightarrow>
     other_step s (s\<lparr>pcs := (pcs s)[i := Completed], outstanding := outstanding s - 1,
                     unnotified := unnotified s + 1\<rparr>)"
| wait: "w < length (waiters s) \<Longrightarrow> waiters s ! w = W_idle \<Longrightarrow>
     aio_wait_for_empty_queue (track s) w = (t, ready) \<Longrightarrow>
     other_step s (s\<lparr>track := t, waiters := if ready then waiters s else (waiters s)[w := W_waiting]\<rparr>)"
| wake: "w < length (waiters s) \<Longrightarrow> waiters s ! w = W_signalled \<Longrightarrow>
     other_step s (s\<lparr>track := aio_wait_return (track s), waiters := (waiters s)[w := W_idle]\<rparr>)"

text \<open>The states reached after \<open>m\<close> steps from \<open>n\<close> completing threads and \<open>k\<close> possible waiters.\<close>

inductive aio_reach :: "nat \<Rightarrow> nat \<Rightarrow> nat \<Rightarrow> aio_state \<Rightarrow> bool" for n k where
  init: "aio_reach n k 0 (aio_init n k)"
| step: "aio_reach n k m s \<Longrightarrow> finish_step s s' \<or> other_step s s' \<Longrightarrow> aio_reach n k (Suc m) s'"

section \<open>The invariant\<close>

definition announcers :: "finish_pc list \<Rightarrow> nat" where
  "announcers ps = count_list ps Notify + count_list ps Check"

definition aio_inv :: "nat \<Rightarrow> aio_state \<Rightarrow> bool" where
  "aio_inv m s \<longleftrightarrow>
     pending_wakeups (track s) \<le> m
   \<and> tracked_aio_ops (track s) \<le> m
   \<and> tracked_aio_ops (track s) = outstanding s + count_list (pcs s) Completed
   \<and> announcers (pcs s) = (if pending_wakeups (track s) = 0 then 0 else 1)
   \<and> (unnotified s > 0 \<longrightarrow> sync_completed s \<or> Completed \<in> set (pcs s) \<or> Notify \<in> set (pcs s)
        \<or> pending_wakeups (track s) > 1)"

lemma count_list_update:
  "i < length xs \<Longrightarrow>
   count_list (xs[i := y]) x = count_list xs x - (if xs ! i = x then 1 else 0) + (if y = x then 1 else 0)"
proof (induction xs arbitrary: i)
  case (Cons a xs)
  have "0 < count_list xs x" if "j < length xs" "xs ! j = x" for j
    using that by (metis count_list_0_iff gr0I nth_mem)
  with Cons show ?case by (cases i) auto
qed simp

lemma count_list_pos: "i < length xs \<Longrightarrow> 0 < count_list xs (xs ! i)"
  by (metis count_list_0_iff gr0I nth_mem)

lemma in_set_count: "x \<in> set xs \<longleftrightarrow> 0 < count_list xs x"
  using count_list_0_iff [of xs x] by auto

lemma request_finish_Some:
  assumes "track_aio_request_finish t wants = Some (t', w, c)"
  shows "tracked_aio_ops t = Suc (tracked_aio_ops t')"
    and "pending_wakeups t' = (if wants then add32 (pending_wakeups t) 1 else pending_wakeups t)"
    and "w \<longleftrightarrow> wants \<and> pending_wakeups t' = 1"
    and "c = (if tracked_aio_ops t' = 0 then is_empty_cond t else None)"
    and "is_empty_cond t' = (if tracked_aio_ops t' = 0 then None else is_empty_cond t)"
  using assms by (auto simp: track_aio_request_finish_def Let_def split: if_splits)

lemma request_finish_None: "track_aio_request_finish t wants = None \<longleftrightarrow> tracked_aio_ops t = 0"
  by (simp add: track_aio_request_finish_def Let_def)

lemma wakeup_finish_None: "track_aio_wakeup_finish t = None \<longleftrightarrow> pending_wakeups t = 0"
  by (simp add: track_aio_wakeup_finish_def)

lemma wakeup_finish_Some:
  assumes "track_aio_wakeup_finish t = Some (t', w)"
  shows "0 < pending_wakeups t" "pending_wakeups t' = (if w then 1 else 0)" "w \<longleftrightarrow> 1 < pending_wakeups t"
    and "tracked_aio_ops t' = tracked_aio_ops t" "is_empty_cond t' = is_empty_cond t"
  using assms by (auto simp: track_aio_wakeup_finish_def split: if_splits)

lemma aio_inv_small:
  assumes "aio_inv m s" "Suc m < 2 ^ 32"
  shows "add32 (pending_wakeups (track s)) 1 = Suc (pending_wakeups (track s))"
    and "add32 (tracked_aio_ops (track s)) 1 = Suc (tracked_aio_ops (track s))"
proof -
  have "pending_wakeups (track s) \<le> m" "tracked_aio_ops (track s) \<le> m"
    using assms(1) by (simp_all add: aio_inv_def)
  then have "pending_wakeups (track s) + 1 < 2 ^ 32" "tracked_aio_ops (track s) + 1 < 2 ^ 32"
    using assms(2) by linarith+
  then show "add32 (pending_wakeups (track s)) 1 = Suc (pending_wakeups (track s))"
    and "add32 (tracked_aio_ops (track s)) 1 = Suc (tracked_aio_ops (track s))"
    using add32_id Suc_eq_plus1 by metis+
qed

text \<open>The invariant over the numbers of threads at each place, where the steps are arithmetic.\<close>

definition counts_inv :: "nat \<Rightarrow> tcmu_track_aio \<Rightarrow> nat \<Rightarrow> nat \<Rightarrow> bool \<Rightarrow> nat \<Rightarrow> nat \<Rightarrow> nat \<Rightarrow> bool" where
  "counts_inv m t out un sync c nt ck \<longleftrightarrow>
     pending_wakeups t \<le> m \<and> tracked_aio_ops t \<le> m \<and> tracked_aio_ops t = out + c
   \<and> nt + ck = (if pending_wakeups t = 0 then 0 else 1)
   \<and> (un > 0 \<longrightarrow> sync \<or> 0 < c \<or> 0 < nt \<or> pending_wakeups t > 1)"

lemma aio_inv_counts:
  "aio_inv m s \<longleftrightarrow> counts_inv m (track s) (outstanding s) (unnotified s) (sync_completed s)
     (count_list (pcs s) Completed) (count_list (pcs s) Notify) (count_list (pcs s) Check)"
  by (auto simp: aio_inv_def counts_inv_def announcers_def in_set_count)

lemma finish_step_inv:
  assumes "finish_step s s'" "aio_inv m s" "Suc m < 2 ^ 32"
  shows "aio_inv (Suc m) s'"
  using assms(1)
proof cases
  case (finish i t wake_up c)
  have "0 < count_list (pcs s) Completed" using count_list_pos finish(2,3) by metis
  then show ?thesis
    using assms(2) aio_inv_small(1) [OF assms(2,3)] request_finish_Some [OF finish(4)]
    unfolding aio_inv_counts
    by (cases wake_up) (auto simp: counts_inv_def finish(1) count_list_update [OF finish(2)] finish(3) split: if_splits)
next
  case (notify i)
  have "0 < count_list (pcs s) Notify" using count_list_pos notify(2,3) by metis
  then show ?thesis using assms(2) unfolding aio_inv_counts
    by (auto simp: counts_inv_def notify(1) count_list_update [OF notify(2)] notify(3) split: if_splits)
next
  case (check i t wake_up)
  have "0 < count_list (pcs s) Check" using count_list_pos check(2,3) by metis
  then show ?thesis using assms(2) wakeup_finish_Some [OF check(4)] unfolding aio_inv_counts
    by (cases wake_up) (auto simp: counts_inv_def check(1) count_list_update [OF check(2)] check(3) split: if_splits)
qed

lemma other_step_inv:
  assumes "other_step s s'" "aio_inv m s" "Suc m < 2 ^ 32"
  shows "aio_inv (Suc m) s'"
  using assms(1)
proof cases
  case start
  then show ?thesis using assms(2) aio_inv_small(2) [OF assms(2,3)] unfolding aio_inv_counts
    by (auto simp: counts_inv_def track_aio_request_start_def split: if_splits)
next
  case (sync t wake_up c)
  then show ?thesis using assms(2) request_finish_Some [OF sync(3)] unfolding aio_inv_counts
    by (auto simp: counts_inv_def split: if_splits)
next
  case (complete i)
  then show ?thesis using assms(2) unfolding aio_inv_counts
    by (auto simp: counts_inv_def count_list_update split: if_splits)
next
  case (wait w t ready)
  then show ?thesis using assms(2) unfolding aio_inv_counts
    by (auto simp: counts_inv_def aio_wait_for_empty_queue_def split: if_splits)
qed (use assms(2) in \<open>auto simp: aio_inv_counts counts_inv_def aio_wait_return_def split: if_splits\<close>)

lemma aio_inv_init: "aio_inv 0 (aio_init n k)"
proof -
  have "count_list (replicate n Outside) x = 0" if "x \<noteq> Outside" for x
    using that by (induction n) auto
  then show ?thesis by (simp add: aio_inv_def aio_init_def announcers_def setup_aio_tracking_def)
qed

lemma aio_reach_inv: "aio_reach n k m s \<Longrightarrow> m < 2 ^ 32 \<Longrightarrow> aio_inv m s"
proof (induction rule: aio_reach.induct)
  case init show ?case by (rule aio_inv_init)
next
  case (step m s s')
  then have "aio_inv m s" by simp
  with step show ?case using finish_step_inv other_step_inv by blast
qed

section \<open>Progress of the completing threads\<close>

text \<open>Decreases with every step inside \<open>aio_command_finish\<close>.\<close>

definition aio_work :: "aio_state \<Rightarrow> nat" where
  "aio_work s = 6 * count_list (pcs s) Completed + 3 * pending_wakeups (track s)
     + 2 * count_list (pcs s) Notify + count_list (pcs s) Check"

lemma finish_step_work:
  assumes "finish_step s s'" "aio_inv m s" "Suc m < 2 ^ 32"
  shows "aio_work s' < aio_work s"
  using assms(1)
proof cases
  case (finish i t wake_up c)
  have "0 < count_list (pcs s) Completed" using count_list_pos finish(2,3) by metis
  then show ?thesis using aio_inv_small(1) [OF assms(2,3)] request_finish_Some [OF finish(4)]
    by (cases wake_up) (auto simp: aio_work_def finish(1,3) count_list_update [OF finish(2)])
next
  case (notify i)
  have "0 < count_list (pcs s) Notify" using count_list_pos notify(2,3) by metis
  then show ?thesis by (auto simp: aio_work_def notify(1,3) count_list_update [OF notify(2)])
next
  case (check i t wake_up)
  have "0 < count_list (pcs s) Check" using count_list_pos check(2,3) by metis
  then show ?thesis using wakeup_finish_Some [OF check(4)]
    by (cases wake_up) (auto simp: aio_work_def check(1,3) count_list_update [OF check(2)])
qed

lemma finish_step_possible:
  assumes "aio_inv m s" "p \<in> set (pcs s)" "p \<noteq> Outside"
  shows "\<exists>s'. finish_step s s'"
proof -
  obtain i where i: "i < length (pcs s)" "pcs s ! i = p" using assms(2) by (auto simp: in_set_conv_nth)
  then have pos: "0 < count_list (pcs s) p" using count_list_pos by metis
  show ?thesis
  proof (cases p)
    case Completed
    then have "0 < tracked_aio_ops (track s)" using pos assms(1) by (simp add: aio_inv_def)
    then obtain t w c where "track_aio_request_finish (track s) True = Some (t, w, c)"
      by (metis less_irrefl not_None_eq prod_cases3 request_finish_None)
    then show ?thesis using i Completed finish_step.finish by metis
  next
    case Notify
    then show ?thesis using i finish_step.notify by metis
  next
    case Check
    then have "pending_wakeups (track s) \<noteq> 0"
      using pos assms(1) by (auto simp: aio_inv_def announcers_def split: if_splits)
    then obtain t w where "track_aio_wakeup_finish (track s) = Some (t, w)"
      by (metis not_None_eq surj_pair wakeup_finish_None)
    then show ?thesis using i Check finish_step.check by metis
  qed (use assms(3) in simp)
qed

lemma finish_steps_reach:
  assumes "aio_reach n k m s" "m + aio_work s < 2 ^ 32" "(finish_step ^^ j) s s'"
  shows "aio_reach n k (m + j) s' \<and> aio_work s' + j \<le> aio_work s"
  using assms(3)
proof (induction j arbitrary: s')
  case (Suc j)
  then obtain u where u: "(finish_step ^^ j) s u" "finish_step u s'" by auto
  then have IH: "aio_reach n k (m + j) u" "aio_work u + j \<le> aio_work s" using Suc.IH by auto
  then have inv: "aio_inv (m + j) u" using aio_reach_inv assms(2) by auto
  have "0 < aio_work u" using u(2) count_list_pos
    by cases (auto simp: aio_work_def dest!: count_list_pos)
  then have "Suc (m + j) < 2 ^ 32" using IH(2) assms(2) by linarith
  then have "aio_work s' < aio_work u" using finish_step_work [OF u(2) inv] by simp
  then show ?case using aio_reach.step [OF IH(1)] u(2) IH(2) by auto
qed (use assms(1) in simp)

lemma quiescent_announced:
  assumes "aio_inv m s" "set (pcs s) \<subseteq> {Outside}" "\<not> sync_completed s"
  shows "unnotified s = 0"
proof -
  have out: "p \<notin> set (pcs s)" if "p \<noteq> Outside" for p using assms(2) that by auto
  then have "announcers (pcs s) = 0" by (simp add: announcers_def count_list_0_iff)
  then have "pending_wakeups (track s) = 0" using assms(1) by (simp add: aio_inv_def split: if_splits)
  then show ?thesis using assms(1,3) out by (auto simp: aio_inv_def)
qed

text \<open>
  C20: Wake-up protocol, liveness. From every state reached in which the threads inside
  \<open>aio_command_finish\<close> go on without new completions, there is no infinite run, and a run can only
  stop when every thread has left the loop; then every completion that these threads put into the
  ring has been announced to the kernel by \<open>tcmulib_processing_complete\<close>, so none waits for an
  unrelated event (what is left belongs to the command processing thread, whose \<open>completed\<close> is set).
  The bound on the number of steps excludes the wrap-around of the 32-bit counters.
\<close>
theorem wakeup_liveness:
  assumes "aio_reach n k m s" "m + aio_work s < 2 ^ 32"
  shows "(\<nexists>f. f 0 = s \<and> (\<forall>i. finish_step (f i) (f (Suc i)))) \<and>
    (\<forall>s'. finish_step\<^sup>*\<^sup>* s s' \<longrightarrow> (\<exists>s''. finish_step s' s'') \<or>
       (set (pcs s') \<subseteq> {Outside} \<and> (sync_completed s' \<or> unnotified s' = 0)))"
proof (intro conjI allI impI notI)
  assume "\<exists>f. f 0 = s \<and> (\<forall>i. finish_step (f i) (f (Suc i)))"
  then obtain f where f: "f 0 = s" "\<And>i. finish_step (f i) (f (Suc i))" by blast
  have "(finish_step ^^ i) s (f i)" for i
    by (induction i) (use f in auto)
  from finish_steps_reach [OF assms this [of "Suc (aio_work s)"]] show False by simp
next
  fix s' assume "finish_step\<^sup>*\<^sup>* s s'"
  then obtain j where "(finish_step ^^ j) s s'" using rtranclp_imp_relpowp by metis
  then have "aio_reach n k (m + j) s'" "aio_work s' + j \<le> aio_work s"
    using finish_steps_reach [OF assms] by blast+
  then have inv: "aio_inv (m + j) s'" using aio_reach_inv assms(2) by auto
  show "(\<exists>s''. finish_step s' s'') \<or> (set (pcs s') \<subseteq> {Outside} \<and> (sync_completed s' \<or> unnotified s' = 0))"
  proof (cases "set (pcs s') \<subseteq> {Outside}")
    case True then show ?thesis using quiescent_announced [OF inv True] by (cases "sync_completed s'") simp_all
  next
    case False then show ?thesis using finish_step_possible [OF inv] by blast
  qed
qed

text \<open>A command is started and completed by the first thread.\<close>

definition one_completion :: "nat \<Rightarrow> aio_state" where
  "one_completion k = (aio_init 1 k)\<lparr>track := setup_aio_tracking\<lparr>tracked_aio_ops := 1\<rparr>,
     pcs := [Completed], unnotified := 1\<rparr>"

lemma one_started:
  "aio_reach 1 k 1 ((aio_init 1 k)\<lparr>track := setup_aio_tracking\<lparr>tracked_aio_ops := 1\<rparr>, outstanding := 1\<rparr>)"
  using aio_reach.step [OF aio_reach.init disjI2 [OF other_step.start], of 1 k]
  by (simp add: aio_init_def track_aio_request_start_def setup_aio_tracking_def add32_def)

lemma one_completion_reach: "aio_reach 1 k 2 (one_completion k)"
proof -
  let ?s = "(aio_init 1 k)\<lparr>track := setup_aio_tracking\<lparr>tracked_aio_ops := 1\<rparr>, outstanding := 1\<rparr>"
  have "other_step ?s (?s\<lparr>pcs := (pcs ?s)[0 := Completed], outstanding := outstanding ?s - 1,
          unnotified := unnotified ?s + 1\<rparr>)"
    by (rule other_step.complete) (simp_all add: aio_init_def)
  from aio_reach.step [OF one_started disjI2 [OF this]] show ?thesis
    by (simp add: one_completion_def aio_init_def numeral_2_eq_2)
qed

theorem wakeup_liveness_witness:
  "(\<nexists>f. f 0 = one_completion 1 \<and> (\<forall>i. finish_step (f i) (f (Suc i)))) \<and>
    ((\<exists>s''. finish_step (one_completion 1) s'') \<or>
       (set (pcs (one_completion 1)) \<subseteq> {Outside} \<and>
         (sync_completed (one_completion 1) \<or> unnotified (one_completion 1) = 0)))"
proof -
  have "2 + aio_work (one_completion 1) < 2 ^ 32"
    by (simp add: aio_work_def setup_aio_tracking_def one_completion_def)
  note w = wakeup_liveness [OF one_completion_reach this]
  show ?thesis by (rule conjI [OF w [THEN conjunct1] w [THEN conjunct2, rule_format, OF rtranclp.rtrancl_refl]])
qed

section \<open>Counting the requests and waiting for the empty queue\<close>

text \<open>With one waiter, the condition it sleeps on is registered as long as requests are in flight.\<close>

definition waiter_inv :: "aio_state \<Rightarrow> bool" where
  "waiter_inv s \<longleftrightarrow> length (waiters s) = 1 \<and>
     (waiters s ! 0 = W_waiting \<longrightarrow> is_empty_cond (track s) = Some 0 \<and> 0 < tracked_aio_ops (track s))"

lemma signal_waiter:
  assumes "track_aio_request_finish t wants = Some (t', w, c)" "waiter_inv (s\<lparr>track := t\<rparr>)"
  shows "waiter_inv (s\<lparr>track := t', waiters := signal c (waiters s)\<rparr>)"
proof -
  obtain w0 where "waiters s = [w0]" using assms(2) by (auto simp: waiter_inv_def length_Suc_conv)
  then show ?thesis using assms(2) request_finish_Some(4,5) [OF assms(1)]
    by (auto simp: waiter_inv_def signal_def split: option.splits if_splits nat.splits)
qed

lemma finish_step_waiter: "finish_step s s' \<Longrightarrow> waiter_inv s \<Longrightarrow> waiter_inv s'"
proof (induction rule: finish_step.induct)
  case (finish i s t wake_up c)
  then show ?case using signal_waiter [OF finish(3), of s] by (simp add: waiter_inv_def)
next
  case (check i s t wake_up)
  then show ?case using wakeup_finish_Some(4,5) [OF check(3)] by (simp add: waiter_inv_def)
qed (simp add: waiter_inv_def)

lemma other_step_waiter:
  assumes "other_step s s'" "waiter_inv s" "aio_inv m s" "Suc m < 2 ^ 32"
  shows "waiter_inv s'"
  using assms(1)
proof cases
  case start
  then show ?thesis using assms(2) aio_inv_small(2) [OF assms(3,4)]
    by (auto simp: waiter_inv_def track_aio_request_start_def)
next
  case (sync t wake_up c)
  then show ?thesis using assms(2) signal_waiter [OF sync(3), of s] by (simp add: waiter_inv_def)
qed (use assms(2) in \<open>auto simp: waiter_inv_def aio_wait_for_empty_queue_def nth_list_update split: if_splits\<close>)

lemma aio_reach_waiter: "aio_reach n 1 m s \<Longrightarrow> m < 2 ^ 32 \<Longrightarrow> waiter_inv s"
proof (induction rule: aio_reach.induct)
  case init show ?case by (simp add: waiter_inv_def aio_init_def)
next
  case (step m s s')
  then have "waiter_inv s" "aio_inv m s" using aio_reach_inv by auto
  with step show ?case using finish_step_waiter other_step_waiter by blast
qed

text \<open>
  C21: Request tracking. In every reachable state the counter of tracked requests is the number of
  commands started and not finished, so the assertion of \<open>track_aio_request_finish\<close> never fails;
  at most one thread announces completions, and one does as long as wake-ups are pending. A thread that
  waits for the empty queue, alone, has its condition registered while requests are in flight: the last
  request to finish signals it.
\<close>
theorem aio_tracking_exact:
  assumes "aio_reach n 1 m s" "m < 2 ^ 32"
  shows "tracked_aio_ops (track s) = outstanding s + count_list (pcs s) Completed
    \<and> announcers (pcs s) = (if pending_wakeups (track s) = 0 then 0 else 1)
    \<and> (waiters s ! 0 = W_waiting \<longrightarrow> is_empty_cond (track s) = Some 0 \<and> 0 < tracked_aio_ops (track s))"
  using aio_reach_inv [OF assms] aio_reach_waiter [OF assms] by (auto simp: aio_inv_def waiter_inv_def)

theorem aio_tracking_exact_witness:
  "tracked_aio_ops (track (one_completion 1)) = outstanding (one_completion 1) + count_list (pcs (one_completion 1)) Completed
    \<and> announcers (pcs (one_completion 1)) = (if pending_wakeups (track (one_completion 1)) = 0 then 0 else 1)"
  using aio_tracking_exact [OF one_completion_reach] by simp

text \<open>
  Two threads that wait for the empty queue at the same time (the recovery thread and the lock thread can):
  the second overwrites the registered condition and the first one is never signalled.
\<close>

lemma second_waiter_forgets_first:
  "\<exists>s. aio_reach 1 2 5 s \<and> waiters s ! 0 = W_waiting \<and> tracked_aio_ops (track s) = 0
     \<and> outstanding s = 0 \<and> is_empty_cond (track s) = None"
proof -
  let ?t = "setup_aio_tracking\<lparr>tracked_aio_ops := 1\<rparr>"
  let ?s = "(aio_init 1 2)\<lparr>track := ?t, outstanding := 1\<rparr>"
  let ?w0 = "?s\<lparr>track := ?t\<lparr>is_empty_cond := Some 0\<rparr>, waiters := [W_waiting, W_idle]\<rparr>"
  let ?w1 = "?s\<lparr>track := ?t\<lparr>is_empty_cond := Some 1\<rparr>, waiters := [W_waiting, W_waiting]\<rparr>"
  let ?c = "?w1\<lparr>pcs := [Completed], outstanding := 0, unnotified := 1\<rparr>"
  let ?f = "?c\<lparr>track := \<lparr>pending_wakeups = 1, tracked_aio_ops = 0, is_empty_cond = None\<rparr>,
               pcs := [Notify], waiters := [W_waiting, W_signalled]\<rparr>"
  have "other_step ?s ?w0"
    using other_step.wait [of 0 ?s "track ?w0" False]
    by (simp add: aio_init_def aio_wait_for_empty_queue_def setup_aio_tracking_def numeral_2_eq_2)
  moreover have "other_step ?w0 ?w1"
    using other_step.wait [of 1 ?w0 "track ?w1" False]
    by (simp add: aio_init_def aio_wait_for_empty_queue_def setup_aio_tracking_def numeral_2_eq_2)
  moreover have "other_step ?w1 ?c"
    using other_step.complete [of 0 ?w1] by (simp add: aio_init_def)
  moreover have "finish_step ?c ?f"
    using finish_step.finish [of 0 ?c "track ?f" True "Some 1"]
    by (simp add: aio_init_def track_aio_request_finish_def setup_aio_tracking_def add32_def signal_def)
  ultimately have "aio_reach 1 2 (Suc (Suc (Suc (Suc 1)))) ?f"
    using one_started [of 2] by (meson aio_reach.step)
  then show ?thesis by (intro exI [of _ ?f]) (simp add: aio_init_def numeral_eq_Suc)
qed

end
