(* ===== verification/Tcmur_Device.thy ===== *)
theory Tcmur_Device
  imports Tcmur_Aio Tcmu_Device
begin

unbundle bit_operations_syntax

text \<open>
  The runner's state of a device, \<open>struct tcmur_device\<close> (\<open>tcmur_device.h\<close>), and the functions of
  \<open>tcmur_device.c\<close>: reopening a device whose connection was lost, and acquiring, dropping and
  querying the exclusive lock that failover between ports needs. Results of the handler's own
  functions and of the waits on other threads are fields of an environment record: the code calls
  them through function pointers of a plugin. Between the critical sections another thread can
  set the STOPPING flag; the environment says after which attempt it did. A loop that never ends
  is \<open>None\<close>.
\<close>

section \<open>State\<close>

abbreviation (input) TCMUR_DEV_FLAG_FORMATTING :: nat where "TCMUR_DEV_FLAG_FORMATTING \<equiv> 0"
abbreviation (input) TCMUR_DEV_FLAG_IN_RECOVERY :: nat where "TCMUR_DEV_FLAG_IN_RECOVERY \<equiv> 1"
abbreviation (input) TCMUR_DEV_FLAG_IS_OPEN :: nat where "TCMUR_DEV_FLAG_IS_OPEN \<equiv> 2"
abbreviation (input) TCMUR_DEV_FLAG_STOPPING :: nat where "TCMUR_DEV_FLAG_STOPPING \<equiv> 3"
abbreviation (input) TCMUR_DEV_FLAG_STOPPED :: nat where "TCMUR_DEV_FLAG_STOPPED \<equiv> 4"

datatype failover = TMCUR_DEV_FAILOVER_ALL_ACTIVE | TMCUR_DEV_FAILOVER_IMPLICIT | TMCUR_DEV_FAILOVER_EXPLICIT

datatype lock_status = TCMUR_DEV_LOCK_UNLOCKED | TCMUR_DEV_LOCK_LOCKED | TCMUR_DEV_LOCK_LOCKING

record tcmur_device =
  flags :: "32 word"
  failover_type :: failover
  lock_state :: lock_status
  pending_uas :: "32 word"
  track_queue :: tcmu_track_aio
  format_progress :: nat

definition set_flag :: "nat \<Rightarrow> tcmur_device \<Rightarrow> tcmur_device" where
  "set_flag n rdev = rdev\<lparr>flags := set_bit n (flags rdev)\<rparr>"

definition clear_flag :: "nat \<Rightarrow> tcmur_device \<Rightarrow> tcmur_device" where
  "clear_flag n rdev = rdev\<lparr>flags := unset_bit n (flags rdev)\<rparr>"

definition has_flag :: "nat \<Rightarrow> tcmur_device \<Rightarrow> bool" where
  "has_flag n rdev = bit (flags rdev) n"

text \<open>
  \<open>e_wait\<close>: what \<open>aio_wait_for_empty_queue\<close> returns; \<open>e_lock_thread\<close>: the lock state that the lock
  thread leaves when it is waited for; \<open>e_open i\<close>: the result of the handler's \<open>open\<close> at attempt
  \<open>i\<close>; \<open>e_stop i\<close>: STOPPING was set during attempt \<open>i\<close>; \<open>e_recovery\<close>: what
  \<open>tcmu_add_dev_to_recovery_list\<close> returns; \<open>e_lock i\<close>, \<open>e_tag i\<close>: the handler's \<open>lock\<close> and
  \<open>get_lock_tag\<close> at their \<open>i\<close>-th call.
\<close>

record dev_env =
  e_wait :: int
  e_lock_thread :: lock_status
  e_open :: "nat \<Rightarrow> int"
  e_stop :: "nat \<Rightarrow> bool"
  e_recovery :: int
  e_lock :: "nat \<Rightarrow> tcmu_sts"
  e_unlock :: tcmu_sts
  e_tag :: "nat \<Rightarrow> tcmu_sts \<times> 16 word"

definition EBUSY :: int where "EBUSY = 16"
definition EIO :: int where "EIO = 5"

section \<open>Recovery\<close>

definition tcmu_dev_in_recovery :: "tcmur_device \<Rightarrow> bool" where
  "tcmu_dev_in_recovery rdev = has_flag TCMUR_DEV_FLAG_IN_RECOVERY rdev"

definition tcmu_cancel_lock_thread :: "dev_env \<Rightarrow> tcmur_device \<Rightarrow> tcmur_device" where
  "tcmu_cancel_lock_thread env rdev =
     (if lock_state rdev \<noteq> TCMUR_DEV_LOCK_LOCKING then rdev else rdev\<lparr>lock_state := e_lock_thread env\<rparr>)"

definition tcmu_notify_lock_lost :: "tcmur_device \<Rightarrow> tcmur_device" where
  "tcmu_notify_lock_lost rdev =
     (if lock_state rdev \<noteq> TCMUR_DEV_LOCK_LOCKING then rdev\<lparr>lock_state := TCMUR_DEV_LOCK_UNLOCKED\<rparr> else rdev)"

definition tcmu_notify_conn_lost :: "dev_env \<Rightarrow> tcmur_device \<Rightarrow> tcmur_device" where
  "tcmu_notify_conn_lost env rdev =
     (if has_flag TCMUR_DEV_FLAG_STOPPING rdev \<or> has_flag TCMUR_DEV_FLAG_IN_RECOVERY rdev then rdev
      else if e_recovery env = 0 then set_flag TCMUR_DEV_FLAG_IN_RECOVERY rdev else rdev)"

text \<open>The loop that calls \<open>open\<close> until it succeeds, the device is stopped or the attempts are used up.\<close>

partial_function (option) reopen_loop ::
  "(nat \<Rightarrow> int) \<Rightarrow> (nat \<Rightarrow> bool) \<Rightarrow> int \<Rightarrow> tcmur_device \<Rightarrow> int \<Rightarrow> nat \<Rightarrow> (int \<times> tcmur_device) option" where
  "reopen_loop op stop retries rdev ret attempt =
     (if ret \<noteq> 0 \<and> \<not> has_flag TCMUR_DEV_FLAG_STOPPING rdev \<and> (retries < 0 \<or> int attempt \<le> retries) then
        let ret' = op attempt;
            rdev1 = (if stop attempt then set_flag TCMUR_DEV_FLAG_STOPPING rdev else rdev);
            rdev2 = (if ret' = 0 then set_flag TCMUR_DEV_FLAG_IS_OPEN rdev1 else rdev1)
        in reopen_loop op stop retries rdev2 ret' (attempt + 1)
      else Some (ret, rdev))"

definition tcmu_reopen_dev_raw :: "dev_env \<Rightarrow> tcmur_device \<Rightarrow> bool \<Rightarrow> int \<Rightarrow> (int \<times> tcmur_device) option" where
  "tcmu_reopen_dev_raw env rdev in_lock_thread retries =
     (if e_wait env \<noteq> 0 then Some (e_wait env, clear_flag TCMUR_DEV_FLAG_IN_RECOVERY rdev)
      else if has_flag TCMUR_DEV_FLAG_STOPPING rdev then Some (0, clear_flag TCMUR_DEV_FLAG_IN_RECOVERY rdev)
      else
        let rdev1 = (if in_lock_thread then rdev else tcmu_cancel_lock_thread env rdev);
            rdev2 = (if lock_state rdev1 \<noteq> TCMUR_DEV_LOCK_LOCKING
                     then rdev1\<lparr>lock_state := TCMUR_DEV_LOCK_UNLOCKED\<rparr> else rdev1);
            rdev3 = clear_flag TCMUR_DEV_FLAG_IS_OPEN rdev2
        in
        case reopen_loop (e_open env) (e_stop env) retries rdev3 (- EIO) 0 of
          None \<Rightarrow> None
        | Some (ret, rdev4) \<Rightarrow> Some (ret, clear_flag TCMUR_DEV_FLAG_IN_RECOVERY rdev4))"

definition tcmu_reopen_dev :: "dev_env \<Rightarrow> tcmur_device \<Rightarrow> bool \<Rightarrow> int \<Rightarrow> (int \<times> tcmur_device) option" where
  "tcmu_reopen_dev env rdev in_lock_thread retries =
     (if has_flag TCMUR_DEV_FLAG_IN_RECOVERY rdev then Some (- EBUSY, rdev)
      else tcmu_reopen_dev_raw env (set_flag TCMUR_DEV_FLAG_IN_RECOVERY rdev) in_lock_thread retries)"

section \<open>The device lock\<close>

definition tcmu_release_dev_lock :: "tcmur_device \<Rightarrow> tcmur_device" where
  "tcmu_release_dev_lock rdev =
     (if lock_state rdev \<noteq> TCMUR_DEV_LOCK_LOCKED then rdev else rdev\<lparr>lock_state := TCMUR_DEV_LOCK_UNLOCKED\<rparr>)"

text \<open>
  The retries of \<open>tcmu_get_lock_tag\<close>: \<open>n\<close> calls made so far. The status, the tag that the last
  call stored and the device.
\<close>

function get_lock_tag_retry :: "dev_env \<Rightarrow> tcmur_device \<Rightarrow> nat \<Rightarrow> (tcmu_sts \<times> 16 word \<times> tcmur_device) option" where
  "get_lock_tag_retry env rdev n =
     (case e_tag env n of (ret, tag) \<Rightarrow>
      if ret = TCMU_STS_OK \<or> ret = TCMU_STS_NO_LOCK_HOLDERS then Some (ret, tag, rdev)
      else if ret = TCMU_STS_FENCED then
        (case tcmu_reopen_dev env rdev False 0 of
           None \<Rightarrow> None
         | Some (r, rdev') \<Rightarrow>
             if r = 0 \<and> n < 1 then get_lock_tag_retry env rdev' (n + 1)
             else Some (TCMU_STS_BUSY, tag, tcmu_notify_conn_lost env rdev'))
      else Some (TCMU_STS_BUSY, tag, tcmu_notify_conn_lost env rdev))"
  by pat_completeness auto

termination by (relation "measure (\<lambda>(_, _, n). 2 - n)") auto

definition tcmu_get_lock_tag :: "dev_env \<Rightarrow> tcmur_device \<Rightarrow> 16 word \<Rightarrow> (tcmu_sts \<times> 16 word \<times> tcmur_device) option" where
  "tcmu_get_lock_tag env rdev tag =
     (if failover_type rdev \<noteq> TMCUR_DEV_FAILOVER_EXPLICIT then Some (TCMU_STS_OK, tag, rdev)
      else get_lock_tag_retry env rdev 0)"

text \<open>The retries of \<open>tcmu_acquire_dev_lock\<close>: the result of the last \<open>lock\<close> call and the device.\<close>

function lock_retry :: "dev_env \<Rightarrow> tcmur_device \<Rightarrow> nat \<Rightarrow> (tcmu_sts \<times> tcmur_device) option" where
  "lock_retry env rdev retries =
     (let ret = e_lock env retries in
      if ret = TCMU_STS_FENCED then
        if retries < 1 then
          (case tcmu_reopen_dev env rdev True 0 of
             None \<Rightarrow> None
           | Some (r, rdev') \<Rightarrow>
               if r = 0 then lock_retry env rdev' (retries + 1)
               else Some (ret, tcmu_notify_conn_lost env rdev'))
        else Some (ret, tcmu_notify_conn_lost env rdev)
      else if ret = TCMU_STS_TIMEOUT then Some (ret, tcmu_notify_conn_lost env rdev)
      else Some (ret, rdev))"
  by pat_completeness auto

termination by (relation "measure (\<lambda>(_, _, n). 2 - n)") auto

definition tcmu_acquire_dev_lock :: "dev_env \<Rightarrow> tcmur_device \<Rightarrow> (tcmu_sts \<times> tcmur_device) option" where
  "tcmu_acquire_dev_lock env rdev =
     (case (if e_wait env \<noteq> 0 then Some (TCMU_STS_OK, rdev) else lock_retry env rdev 0) of
        None \<Rightarrow> None
      | Some (ret, rdev') \<Rightarrow>
          Some (ret, rdev'\<lparr>lock_state := if ret = TCMU_STS_OK then TCMUR_DEV_LOCK_LOCKED
                                         else TCMUR_DEV_LOCK_UNLOCKED\<rparr>))"

declare get_lock_tag_retry.simps [simp del] lock_retry.simps [simp del]

section \<open>Reopening\<close>

text \<open>Only the flags IS_OPEN and STOPPING differ.\<close>

definition same_but_open :: "tcmur_device \<Rightarrow> tcmur_device \<Rightarrow> bool" where
  "same_but_open d d' \<longleftrightarrow> d' = d\<lparr>flags := flags d'\<rparr> \<and>
     (\<forall>k. k \<noteq> TCMUR_DEV_FLAG_IS_OPEN \<longrightarrow> k \<noteq> TCMUR_DEV_FLAG_STOPPING \<longrightarrow> has_flag k d' = has_flag k d)"

lemma flag_simps [simp]:
  "has_flag k (set_flag n d) \<longleftrightarrow> (k = n \<and> n < 32) \<or> has_flag k d"
  "has_flag k (clear_flag n d) \<longleftrightarrow> k \<noteq> n \<and> has_flag k d"
  "lock_state (set_flag n d) = lock_state d" "lock_state (clear_flag n d) = lock_state d"
  "failover_type (set_flag n d) = failover_type d" "failover_type (clear_flag n d) = failover_type d"
  "has_flag k (d\<lparr>lock_state := l\<rparr>) = has_flag k d"
  by (auto simp: has_flag_def set_flag_def clear_flag_def bit_set_bit_iff bit_unset_bit_iff)

lemma same_but_open_refl: "same_but_open d d"
  by (simp add: same_but_open_def)

lemma same_but_open_trans: "same_but_open d1 d2 \<Longrightarrow> same_but_open d2 d3 \<Longrightarrow> same_but_open d1 d3"
  unfolding same_but_open_def by (metis tcmur_device.surjective tcmur_device.update_convs(1))

lemma same_but_open_set:
  "n = TCMUR_DEV_FLAG_IS_OPEN \<or> n = TCMUR_DEV_FLAG_STOPPING \<Longrightarrow> same_but_open d (set_flag n d)"
  by (auto simp: same_but_open_def) (simp_all add: set_flag_def)

lemma same_but_openD:
  assumes "same_but_open d d'"
  shows "lock_state d' = lock_state d" "failover_type d' = failover_type d"
    and "k \<noteq> 2 \<Longrightarrow> k \<noteq> 3 \<Longrightarrow> has_flag k d' = has_flag k d"
  using assms unfolding same_but_open_def by (metis tcmur_device.select_convs tcmur_device.surjective tcmur_device.update_convs(1))+

lemma reopen_loop_returns:
  assumes "attempt \<le> n" "op n = 0 \<or> stop n \<or> (0 \<le> retries \<and> retries \<le> int n)"
    and "has_flag TCMUR_DEV_FLAG_IS_OPEN d \<longleftrightarrow> ret = 0"
  shows "\<exists>ret' d'. reopen_loop op stop retries d ret attempt = Some (ret', d')
    \<and> (has_flag TCMUR_DEV_FLAG_IS_OPEN d' \<longleftrightarrow> ret' = 0) \<and> same_but_open d d'"
  using assms
proof (induction "Suc n - attempt" arbitrary: attempt d ret)
  case (Suc j)
  define d1 where "d1 = (if stop attempt then set_flag TCMUR_DEV_FLAG_STOPPING d else d)"
  define d2 where "d2 = (if op attempt = 0 then set_flag TCMUR_DEV_FLAG_IS_OPEN d1 else d1)"
  have same: "same_but_open d d2"
    unfolding d1_def d2_def using same_but_open_set same_but_open_refl same_but_open_trans by (smt (verit))
  let ?go = "ret \<noteq> 0 \<and> \<not> has_flag TCMUR_DEV_FLAG_STOPPING d \<and> (retries < 0 \<or> int attempt \<le> retries)"
  show ?case
  proof (cases ?go)
    case False
    then show ?thesis using Suc.prems(3) same_but_open_refl by (auto simp: reopen_loop.simps)
  next
    case True
    then have open2: "has_flag TCMUR_DEV_FLAG_IS_OPEN d2 \<longleftrightarrow> op attempt = 0"
      using Suc.prems(3) by (auto simp: d1_def d2_def)
    have step: "reopen_loop op stop retries d ret attempt = reopen_loop op stop retries d2 (op attempt) (attempt + 1)"
      using True by (subst reopen_loop.simps) (simp add: d1_def d2_def Let_def)
    show ?thesis
    proof (cases "attempt = n")
      case True
      have "reopen_loop op stop retries d2 (op attempt) (attempt + 1) = Some (op attempt, d2)"
        using Suc.prems(2) True \<open>?go\<close> by (subst reopen_loop.simps) (auto simp: d1_def d2_def)
      then show ?thesis using step open2 same by simp
    next
      case False
      then have "j = Suc n - (attempt + 1)" "attempt + 1 \<le> n" using Suc.hyps(2) Suc.prems(1) by auto
      from Suc.hyps(1) [OF this Suc.prems(2) open2] show ?thesis
        using step same same_but_open_trans by auto
    qed
  qed
qed simp

lemma reopen_raw_returns:
  assumes "e_wait env = 0" "\<not> has_flag TCMUR_DEV_FLAG_STOPPING d"
    and "0 \<le> retries \<or> (\<exists>i. e_open env i = 0 \<or> e_stop env i)"
    and "e_lock_thread env \<noteq> TCMUR_DEV_LOCK_LOCKING"
  shows "\<exists>ret d'. tcmu_reopen_dev_raw env d b retries = Some (ret, d')
    \<and> \<not> has_flag TCMUR_DEV_FLAG_IN_RECOVERY d'
    \<and> (has_flag TCMUR_DEV_FLAG_IS_OPEN d' \<longleftrightarrow> ret = 0)
    \<and> (\<forall>k. k = TCMUR_DEV_FLAG_FORMATTING \<or> k = TCMUR_DEV_FLAG_STOPPED \<longrightarrow> has_flag k d' = has_flag k d)
    \<and> lock_state d' = (if b \<and> lock_state d = TCMUR_DEV_LOCK_LOCKING then TCMUR_DEV_LOCK_LOCKING
                        else TCMUR_DEV_LOCK_UNLOCKED)
    \<and> failover_type d' = failover_type d"
proof -
  define d1 where "d1 = (if b then d else tcmu_cancel_lock_thread env d)"
  define d2 where "d2 = (if lock_state d1 \<noteq> TCMUR_DEV_LOCK_LOCKING
                         then d1\<lparr>lock_state := TCMUR_DEV_LOCK_UNLOCKED\<rparr> else d1)"
  define d3 where "d3 = clear_flag TCMUR_DEV_FLAG_IS_OPEN d2"
  obtain n where "e_open env n = 0 \<or> e_stop env n \<or> (0 \<le> retries \<and> retries \<le> int n)"
    using assms(3) by (metis nat_0_le order_refl)
  moreover have "has_flag TCMUR_DEV_FLAG_IS_OPEN d3 \<longleftrightarrow> - EIO = 0" by (simp add: d3_def EIO_def)
  ultimately obtain ret d4 where loop:
    "reopen_loop (e_open env) (e_stop env) retries d3 (- EIO) 0 = Some (ret, d4)"
    "has_flag TCMUR_DEV_FLAG_IS_OPEN d4 \<longleftrightarrow> ret = 0" "same_but_open d3 d4"
    using reopen_loop_returns [of 0 n] by blast
  have raw: "tcmu_reopen_dev_raw env d b retries = Some (ret, clear_flag TCMUR_DEV_FLAG_IN_RECOVERY d4)"
    unfolding tcmu_reopen_dev_raw_def Let_def d1_def [symmetric] d2_def [symmetric] d3_def [symmetric]
    using assms(1,2) loop(1) by simp
  have lock: "lock_state d3 = (if b \<and> lock_state d = TCMUR_DEV_LOCK_LOCKING then TCMUR_DEV_LOCK_LOCKING
                        else TCMUR_DEV_LOCK_UNLOCKED)" "failover_type d3 = failover_type d"
    using assms(4) by (auto simp: d1_def d2_def d3_def tcmu_cancel_lock_thread_def)
  have flags: "has_flag k d3 = (k \<noteq> 2 \<and> has_flag k d)" for k
    by (simp add: d1_def d2_def d3_def tcmu_cancel_lock_thread_def)
  show ?thesis unfolding raw
    using loop(2) lock flags same_but_openD [OF loop(3)] by auto
qed

text \<open>
  C35: \<open>tcmu_reopen_dev\<close>. It refuses with \<open>-EBUSY\<close>, changing nothing, when a recovery is already
  running. Otherwise it returns, unless it was told to retry for ever and no attempt ever succeeds
  or is stopped; the recovery flag is clear again, the device is marked open exactly when the result
  is success, formatting and stopped flags are kept, and the lock has to be acquired anew: the lock
  state is UNLOCKED except while the calling lock thread holds it in LOCKING.
\<close>
theorem reopen_dev_correct:
  assumes "e_wait env = 0" "\<not> has_flag TCMUR_DEV_FLAG_STOPPING d"
    and "0 \<le> retries \<or> (\<exists>i. e_open env i = 0 \<or> e_stop env i)"
    and "e_lock_thread env \<noteq> TCMUR_DEV_LOCK_LOCKING"
  shows "if has_flag TCMUR_DEV_FLAG_IN_RECOVERY d then tcmu_reopen_dev env d b retries = Some (- EBUSY, d)
    else \<exists>ret d'. tcmu_reopen_dev env d b retries = Some (ret, d')
    \<and> \<not> has_flag TCMUR_DEV_FLAG_IN_RECOVERY d'
    \<and> (has_flag TCMUR_DEV_FLAG_IS_OPEN d' \<longleftrightarrow> ret = 0)
    \<and> (\<forall>k. k = TCMUR_DEV_FLAG_FORMATTING \<or> k = TCMUR_DEV_FLAG_STOPPED \<longrightarrow> has_flag k d' = has_flag k d)
    \<and> lock_state d' = (if b \<and> lock_state d = TCMUR_DEV_LOCK_LOCKING then TCMUR_DEV_LOCK_LOCKING
                        else TCMUR_DEV_LOCK_UNLOCKED)
    \<and> failover_type d' = failover_type d"
  using reopen_raw_returns [OF assms(1) _ assms(3,4), of "set_flag TCMUR_DEV_FLAG_IN_RECOVERY d" b] assms(2)
  by (auto simp: tcmu_reopen_dev_def)

definition calm_env :: dev_env where
  "calm_env = \<lparr>e_wait = 0, e_lock_thread = TCMUR_DEV_LOCK_LOCKED, e_open = (\<lambda>i. if i < 3 then -5 else 0),
     e_stop = (\<lambda>i. False), e_recovery = 0, e_lock = (\<lambda>i. if i = 0 then TCMU_STS_FENCED else TCMU_STS_OK),
     e_unlock = TCMU_STS_OK, e_tag = (\<lambda>i. (TCMU_STS_OK, 1))\<rparr>"

definition locked_dev :: tcmur_device where
  "locked_dev = \<lparr>flags = 4, failover_type = TMCUR_DEV_FAILOVER_EXPLICIT, lock_state = TCMUR_DEV_LOCK_LOCKED,
     pending_uas = 0, track_queue = setup_aio_tracking, format_progress = 0\<rparr>"

theorem reopen_dev_correct_witness:
  "\<exists>ret d'. tcmu_reopen_dev calm_env locked_dev False (-1) = Some (ret, d')
     \<and> (has_flag TCMUR_DEV_FLAG_IS_OPEN d' \<longleftrightarrow> ret = 0) \<and> lock_state d' = TCMUR_DEV_LOCK_UNLOCKED"
proof -
  have "\<exists>i. e_open calm_env i = 0" by (rule exI [of _ 3]) (simp add: calm_env_def)
  moreover have "\<not> has_flag TCMUR_DEV_FLAG_IN_RECOVERY locked_dev" "\<not> has_flag TCMUR_DEV_FLAG_STOPPING locked_dev"
    by (simp_all add: has_flag_def locked_dev_def bit_numeral_rec eval_nat_numeral)
  ultimately show ?thesis
    using reopen_dev_correct [of calm_env locked_dev "-1" False] by (auto simp: calm_env_def)
qed

section \<open>Acquiring the lock\<close>

lemma reopen_once_returns: "reopen_loop op stop 0 d (- EIO) 0 \<noteq> None"
  by (subst reopen_loop.simps, simp only: Let_def split: if_split) (simp add: reopen_loop.simps)

lemma case_pair_None: "(case x of None \<Rightarrow> None | Some (a, b) \<Rightarrow> Some (f a b)) = None \<longleftrightarrow> x = None"
  by (auto split: option.splits)

lemma reopen_dev_returns: "\<exists>ret d'. tcmu_reopen_dev env d b 0 = Some (ret, d')"
proof -
  have "tcmu_reopen_dev env d b 0 \<noteq> None"
    unfolding tcmu_reopen_dev_def tcmu_reopen_dev_raw_def Let_def
    by (simp add: reopen_once_returns case_pair_None del: not_None_eq)
  then show ?thesis by auto
qed

lemma notify_conn_lost_recovery:
  "e_recovery env = 0 \<Longrightarrow> \<not> has_flag TCMUR_DEV_FLAG_STOPPING d \<Longrightarrow>
   has_flag TCMUR_DEV_FLAG_IN_RECOVERY (tcmu_notify_conn_lost env d)"
  by (auto simp: tcmu_notify_conn_lost_def)

lemma notify_conn_lost_stopping [simp]:
  "has_flag TCMUR_DEV_FLAG_STOPPING (tcmu_notify_conn_lost env d) = has_flag TCMUR_DEV_FLAG_STOPPING d"
  by (auto simp: tcmu_notify_conn_lost_def)

lemma lock_retry_last:
  "lock_retry env d 1 = Some (e_lock env 1,
     if e_lock env 1 = TCMU_STS_FENCED \<or> e_lock env 1 = TCMU_STS_TIMEOUT then tcmu_notify_conn_lost env d else d)"
  by (subst lock_retry.simps) (simp add: Let_def)

text \<open>
  C36: \<open>tcmu_acquire_dev_lock\<close> returns with the lock state LOCKED exactly when its status is
  success, and never leaves LOCKING behind. When the queue could be flushed, success means that the handler
  granted the lock, at once or after one fencing followed by a successful reopen; when the handler was
  fenced off or timed out, the device goes into recovery. When the wait for the queue fails, the function
  reports success and marks the device locked although the handler was never asked.
\<close>
theorem acquire_dev_lock_correct:
  "\<exists>ret d'. tcmu_acquire_dev_lock env d = Some (ret, d')
    \<and> lock_state d' = (if ret = TCMU_STS_OK then TCMUR_DEV_LOCK_LOCKED else TCMUR_DEV_LOCK_UNLOCKED)
    \<and> (if e_wait env = 0
       then (ret = TCMU_STS_OK \<longleftrightarrow> e_lock env 0 = TCMU_STS_OK \<or>
               (e_lock env 0 = TCMU_STS_FENCED \<and> e_lock env 1 = TCMU_STS_OK
                \<and> (\<exists>d1. tcmu_reopen_dev env d True 0 = Some (0, d1))))
          \<and> (ret = TCMU_STS_FENCED \<or> ret = TCMU_STS_TIMEOUT \<longrightarrow> e_recovery env = 0 \<longrightarrow>
             \<not> has_flag TCMUR_DEV_FLAG_STOPPING d' \<longrightarrow> has_flag TCMUR_DEV_FLAG_IN_RECOVERY d')
       else ret = TCMU_STS_OK)"
proof (cases "e_wait env = 0")
  case False
  then show ?thesis by (simp add: tcmu_acquire_dev_lock_def)
next
  case wait: True
  obtain r d1 where reopen: "tcmu_reopen_dev env d True 0 = Some (r, d1)" using reopen_dev_returns by blast
  show ?thesis
  proof (cases "e_lock env 0 = TCMU_STS_FENCED \<and> r = 0")
    case True
    then have "lock_retry env d 0 = lock_retry env d1 1"
      using reopen by (subst lock_retry.simps) (simp add: Let_def)
    then show ?thesis using wait reopen True
      by (auto simp: tcmu_acquire_dev_lock_def lock_retry_last [unfolded One_nat_def] notify_conn_lost_recovery [unfolded One_nat_def])
  next
    case False
    have "lock_retry env d 0 = Some (e_lock env 0,
        if e_lock env 0 = TCMU_STS_FENCED then tcmu_notify_conn_lost env d1
        else if e_lock env 0 = TCMU_STS_TIMEOUT then tcmu_notify_conn_lost env d else d)"
      using reopen False by (subst lock_retry.simps) (simp add: Let_def)
    then show ?thesis using wait reopen False
      by (auto simp: tcmu_acquire_dev_lock_def notify_conn_lost_recovery [unfolded One_nat_def])
  qed
qed

theorem acquire_dev_lock_correct_witness:
  "\<exists>ret d'. tcmu_acquire_dev_lock calm_env locked_dev = Some (ret, d')
    \<and> lock_state d' = (if ret = TCMU_STS_OK then TCMUR_DEV_LOCK_LOCKED else TCMUR_DEV_LOCK_UNLOCKED)"
  using acquire_dev_lock_correct [of calm_env locked_dev] by blast

end
