(* ===== verification/Tcmu_Alua.thy ===== *)
theory Tcmu_Alua
  imports Tcmur_Device Tcmu_Emul
begin

unbundle bit_operations_syntax

text \<open>
  Asymmetric logical unit access of \<open>alua.c\<close>: the target port groups of a device as configfs has them,
  REPORT and SET TARGET PORT GROUPS, and the check that keeps a node without the lock from serving
  commands. A list of groups is a list, a pointer to a group its index. The files of configfs are a record:
  the integers and strings that reads return (a negative integer and \<open>None\<close> are errors), the results of writes, and
  the port that \<open>tcmu_get_tgt_port\<close> makes of a member. A write that succeeds is read back. Leaving a buffer is \<open>None\<close>.
\<close>

abbreviation (input) ALUA_ACCESS_STATE_OPTIMIZED :: byte where "ALUA_ACCESS_STATE_OPTIMIZED \<equiv> 0"
abbreviation (input) ALUA_ACCESS_STATE_NON_OPTIMIZED :: byte where "ALUA_ACCESS_STATE_NON_OPTIMIZED \<equiv> 1"
abbreviation (input) ALUA_ACCESS_STATE_STANDBY :: byte where "ALUA_ACCESS_STATE_STANDBY \<equiv> 2"
abbreviation (input) ALUA_ACCESS_STATE_UNAVAILABLE :: byte where "ALUA_ACCESS_STATE_UNAVAILABLE \<equiv> 3"
abbreviation (input) ALUA_ACCESS_STATE_OFFLINE :: byte where "ALUA_ACCESS_STATE_OFFLINE \<equiv> 0xe"
abbreviation (input) ALUA_SUP_OPTIMIZED :: byte where "ALUA_SUP_OPTIMIZED \<equiv> 0x01"
abbreviation (input) ALUA_SUP_NON_OPTIMIZED :: byte where "ALUA_SUP_NON_OPTIMIZED \<equiv> 0x02"
abbreviation (input) ALUA_SUP_STANDBY :: byte where "ALUA_SUP_STANDBY \<equiv> 0x04"
abbreviation (input) ALUA_SUP_UNAVAILABLE :: byte where "ALUA_SUP_UNAVAILABLE \<equiv> 0x08"
abbreviation (input) ALUA_STAT_ALTERED_BY_EXPLICIT_STPG :: byte where "ALUA_STAT_ALTERED_BY_EXPLICIT_STPG \<equiv> 1"
abbreviation (input) ALUA_STAT_ALTERED_BY_IMPLICIT_ALUA :: byte where "ALUA_STAT_ALTERED_BY_IMPLICIT_ALUA \<equiv> 2"

record cfgfs =
  cf_int :: "string \<Rightarrow> string \<Rightarrow> int"
  cf_str :: "string \<Rightarrow> string \<Rightarrow> string option"
  cf_write :: "string \<Rightarrow> string \<Rightarrow> int"
  cf_port :: "string \<Rightarrow> tgt_port option"

record port_grp =
  pg_name :: string
  pg_grp :: alua_grp
  pg_ports :: "tgt_port list"

definition tcmu_get_alua_int_setting :: "cfgfs \<Rightarrow> string \<Rightarrow> string \<Rightarrow> int" where
  "tcmu_get_alua_int_setting cf name setting = cf_int cf name setting"

definition tcmu_get_alua_str_setting :: "cfgfs \<Rightarrow> string \<Rightarrow> string \<Rightarrow> string option" where
  "tcmu_get_alua_str_setting cf name setting = cf_str cf name setting"

definition tcmu_set_alua_int_setting :: "cfgfs \<Rightarrow> string \<Rightarrow> string \<Rightarrow> nat \<Rightarrow> int \<times> cfgfs" where
  "tcmu_set_alua_int_setting cf name setting val =
     (if cf_write cf name setting = 0
      then (0, cf\<lparr>cf_int := (cf_int cf)(name := (cf_int cf name)(setting := int val))\<rparr>)
      else (cf_write cf name setting, cf))"

section \<open>Reading the groups\<close>

text \<open>A group of the given name, with the failover type that it implies for the device.\<close>

definition support_settings :: "(string \<times> byte) list" where
  "support_settings =
     [(''alua_support_active_nonoptimized'', 0x02), (''alua_support_active_optimized'', 0x01),
      (''alua_support_lba_dependent'', 0x10), (''alua_support_offline'', 0x40), (''alua_support_standby'', 0x04),
      (''alua_support_transitioning'', 0x80), (''alua_support_unavailable'', 0x08)]"

fun supported_of :: "cfgfs \<Rightarrow> string \<Rightarrow> (string \<times> byte) list \<Rightarrow> byte \<Rightarrow> byte option" where
  "supported_of cf name [] supp = Some supp"
| "supported_of cf name ((s, b) # ss) supp =
     (let val = tcmu_get_alua_int_setting cf name s in
      if val < 0 then None else supported_of cf name ss (if val \<noteq> 0 then supp OR b else supp))"

definition int_setting :: "cfgfs \<Rightarrow> string \<Rightarrow> string \<Rightarrow> int option" where
  "int_setting cf name s = (let v = tcmu_get_alua_int_setting cf name s in if v < 0 then None else Some v)"

definition alua_status_of :: "string \<Rightarrow> byte option" where
  "alua_status_of s =
     (if s = ''None'' then Some 0 else if s = ''Altered by Explicit STPG'' then Some 1
      else if s = ''Altered by Implicit ALUA'' then Some 2 else None)"

definition alua_type_of :: "bool \<Rightarrow> string \<Rightarrow> (failover \<times> byte) option" where
  "alua_type_of failover_ok s =
     (if s = ''None'' then Some (TMCUR_DEV_FAILOVER_ALL_ACTIVE, 0x10)
      else if s = ''Implicit'' then if failover_ok then Some (TMCUR_DEV_FAILOVER_IMPLICIT, 0x10) else None
      else if s = ''Explicit'' then None
      else if s = ''Implicit and Explicit'' then if failover_ok then Some (TMCUR_DEV_FAILOVER_EXPLICIT, 0x20) else None
      else None)"

text \<open>\<open>strsep\<close> at every newline; empty members are skipped.\<close>

fun lines_of :: "string \<Rightarrow> string \<Rightarrow> string list" where
  "lines_of [] acc = [rev acc]"
| "lines_of (c # cs) acc = (if c = CHR 0x0A then rev acc # lines_of cs [] else lines_of cs (c # acc))"

definition members_of :: "string option \<Rightarrow> string list" where
  "members_of s = (case s of None \<Rightarrow> [] | Some t \<Rightarrow> filter (\<lambda>m. m \<noteq> []) (lines_of t []))"

fun ports_of :: "cfgfs \<Rightarrow> string list \<Rightarrow> tgt_port list option" where
  "ports_of cf [] = Some []"
| "ports_of cf (m # ms) = do { p \<leftarrow> cf_port cf m; ps \<leftarrow> ports_of cf ms; Some (p # ps) }"

text \<open>\<open>Inl\<close>: the group could not be read; the device may have got a new failover type before.\<close>

definition tcmu_get_alua_grp :: "cfgfs \<Rightarrow> bool \<Rightarrow> tcmur_device \<Rightarrow> string \<Rightarrow> (tcmur_device, port_grp \<times> tcmur_device) sum" where
  "tcmu_get_alua_grp cf failover_ok rdev name =
     (case do {
        st \<leftarrow> int_setting cf name ''alua_access_state'';
        sup \<leftarrow> supported_of cf name support_settings 0;
        secs \<leftarrow> int_setting cf name ''implicit_trans_secs'';
        nonop \<leftarrow> int_setting cf name ''nonop_delay_msecs'';
        trans \<leftarrow> int_setting cf name ''trans_delay_msecs'';
        gid \<leftarrow> int_setting cf name ''tg_pt_gp_id'';
        pref \<leftarrow> int_setting cf name ''preferred'';
        stat \<leftarrow> tcmu_get_alua_str_setting cf name ''alua_access_status'';
        status \<leftarrow> alua_status_of stat;
        ty \<leftarrow> tcmu_get_alua_str_setting cf name ''alua_access_type'';
        (fo, tpgs) \<leftarrow> alua_type_of failover_ok ty;
        Some (fo, \<lparr>grp_state = of_int st, grp_supported_states = sup, grp_tpgs = tpgs, grp_status = status,
                   grp_implicit_trans_secs = of_int secs, grp_pref = (pref \<noteq> 0), grp_id = nat gid mod 2 ^ 16, grp_num_tgt_ports = 0\<rparr>)
      } of
        None \<Rightarrow> Inl rdev
      | Some (fo, g) \<Rightarrow>
          let rdev' = rdev\<lparr>failover_type := fo\<rparr> in
          (case ports_of cf (members_of (tcmu_get_alua_str_setting cf name ''members'')) of
             None \<Rightarrow> Inl rdev'
           | Some ps \<Rightarrow> Inr (\<lparr>pg_name = name, pg_grp = g\<lparr>grp_num_tgt_ports := length ps mod 256\<rparr>, pg_ports = ps\<rparr>, rdev')))"

text \<open>The directory entries in the order \<open>scandir\<close> returns them.\<close>

fun alua_grps_of :: "cfgfs \<Rightarrow> bool \<Rightarrow> tcmur_device \<Rightarrow> string list \<Rightarrow> port_grp list option \<times> tcmur_device" where
  "alua_grps_of cf failover_ok rdev [] = (Some [], rdev)"
| "alua_grps_of cf failover_ok rdev (n # ns) =
     (if n = ''default_tg_pt_gp'' then alua_grps_of cf failover_ok rdev ns
      else case tcmu_get_alua_grp cf failover_ok rdev n of
             Inl rdev' \<Rightarrow> (None, rdev')
           | Inr (g, rdev') \<Rightarrow>
               (case alua_grps_of cf failover_ok rdev' ns of (gs, rdev'') \<Rightarrow> (map_option (\<lambda>xs. g # xs) gs, rdev'')))"

definition tcmu_get_alua_grps :: "cfgfs \<Rightarrow> bool \<Rightarrow> tcmur_device \<Rightarrow> string list option \<Rightarrow> port_grp list option \<times> tcmur_device" where
  "tcmu_get_alua_grps cf failover_ok rdev dir =
     (case dir of None \<Rightarrow> (None, rdev)
      | Some ns \<Rightarrow> alua_grps_of cf failover_ok rdev (filter (\<lambda>n. n \<noteq> ''.'' \<and> n \<noteq> ''..'') ns))"

text \<open>The group and the port.\<close>

fun enabled_port_from :: "nat \<Rightarrow> port_grp list \<Rightarrow> (nat \<times> tgt_port) option" where
  "enabled_port_from i [] = None"
| "enabled_port_from i (g # gs) =
     (case List.find port_enabled (pg_ports g) of Some p \<Rightarrow> Some (i, p) | None \<Rightarrow> enabled_port_from (Suc i) gs)"

definition tcmu_get_enabled_port :: "port_grp list \<Rightarrow> (nat \<times> tgt_port) option" where
  "tcmu_get_enabled_port gs = enabled_port_from 0 gs"

section \<open>State changes\<close>

definition set_grp :: "port_grp \<Rightarrow> byte \<Rightarrow> byte \<Rightarrow> port_grp" where
  "set_grp g st status = g\<lparr>pg_grp := (pg_grp g)\<lparr>grp_state := st, grp_status := status\<rparr>\<rparr>"

definition alua_set_state :: "cfgfs \<Rightarrow> port_grp \<Rightarrow> byte \<Rightarrow> byte \<Rightarrow> tcmu_sts \<times> cfgfs \<times> port_grp" where
  "alua_set_state cf grp new_state alua_status =
     (case tcmu_set_alua_int_setting cf (pg_name grp) ''alua_access_state'' (unat new_state) of (ret, cf1) \<Rightarrow>
        if ret \<noteq> 0 then (TCMU_STS_EXPL_TRANSITION_ERR, cf1, grp)
        else case tcmu_set_alua_int_setting cf1 (pg_name grp) ''alua_access_status'' (unat alua_status) of (ret2, cf2) \<Rightarrow>
          (TCMU_STS_OK, cf2, set_grp grp new_state alua_status))"

text \<open>The loop of \<open>alua_sync_state\<close>.\<close>

fun sync_groups :: "cfgfs \<Rightarrow> tcmur_device \<Rightarrow> nat \<Rightarrow> nat \<Rightarrow> port_grp list \<Rightarrow> cfgfs \<times> tcmur_device \<times> port_grp list" where
  "sync_groups cf rdev ao enabled [] = (cf, rdev, [])"
| "sync_groups cf rdev ao enabled (g # gs) =
     (let alua_state = (if ao = grp_id (pg_grp g) then ALUA_ACCESS_STATE_OPTIMIZED else ALUA_ACCESS_STATE_STANDBY);
          rdev1 = (if ao \<noteq> grp_id (pg_grp g) \<and> enabled = grp_id (pg_grp g) \<and> lock_state rdev = TCMUR_DEV_LOCK_LOCKED
                   then rdev\<lparr>lock_state := TCMUR_DEV_LOCK_UNLOCKED\<rparr> else rdev);
          (cf1, g1) = (if alua_state \<noteq> grp_state (pg_grp g)
                       then (case alua_set_state cf g alua_state ALUA_STAT_ALTERED_BY_IMPLICIT_ALUA of (r, c, g') \<Rightarrow> (c, g'))
                       else (cf, g));
          (cf2, rdev2, gs') = sync_groups cf1 rdev1 ao enabled gs
      in (cf2, rdev2, g1 # gs'))"

text \<open>\<open>has_tag\<close>: the handler has \<open>get_lock_tag\<close>.\<close>

definition alua_sync_state ::
  "dev_env \<Rightarrow> bool \<Rightarrow> cfgfs \<Rightarrow> tcmur_device \<Rightarrow> port_grp list \<Rightarrow> nat \<Rightarrow> (tcmu_sts \<times> cfgfs \<times> tcmur_device \<times> port_grp list) option" where
  "alua_sync_state env has_tag cf rdev gs enabled =
     (if failover_type rdev \<noteq> TMCUR_DEV_FAILOVER_EXPLICIT \<or> \<not> has_tag then Some (TCMU_STS_OK, cf, rdev, gs)
      else do {
        (ret, tag, rdev1) \<leftarrow> tcmu_get_lock_tag env rdev 0;
        if ret \<noteq> TCMU_STS_NO_LOCK_HOLDERS \<and> ret \<noteq> TCMU_STS_OK then Some (ret, cf, rdev1, gs)
        else
          let ao = (if ret = TCMU_STS_NO_LOCK_HOLDERS then 65535 else unat tag) in
          case sync_groups cf rdev1 ao enabled gs of (cf', rdev', gs') \<Rightarrow> Some (TCMU_STS_OK, cf', rdev', gs')
      })"

section \<open>REPORT TARGET PORT GROUPS\<close>

fun put_ports :: "byte list \<Rightarrow> nat \<Rightarrow> tgt_port list \<Rightarrow> byte list option" where
  "put_ports buf off [] = Some buf"
| "put_ports buf off (p # ps) = do {
     buf \<leftarrow> put_at buf (off + 2) (be_enc 2 (rel_port_id p));
     put_ports buf (off + 4) ps
   }"

definition put_group :: "byte list \<Rightarrow> nat \<Rightarrow> port_grp \<Rightarrow> byte list option" where
  "put_group buf off g = do {
     let a = pg_grp g;
     buf \<leftarrow> (if grp_pref a then put_at buf off [0x80] else Some buf);
     old \<leftarrow> (if off + 2 \<le> length buf then Some (buf_get buf off 2) else None);
     buf \<leftarrow> put_at buf off [old ! 0 OR grp_state a, old ! 1 OR grp_supported_states a];
     buf \<leftarrow> put_at buf (off + 2) (be_enc 2 (grp_id a));
     buf \<leftarrow> put_at buf (off + 5) [grp_status a];
     buf \<leftarrow> put_at buf (off + 7) [of_nat (grp_num_tgt_ports a)];
     put_ports buf (off + 8) (pg_ports g)
   }"

text \<open>The loop over the groups: the buffer, the offset and the length of the data so far.\<close>

fun put_groups :: "nat \<Rightarrow> byte list \<Rightarrow> nat \<Rightarrow> nat \<Rightarrow> port_grp list \<Rightarrow> (byte list \<times> nat) option" where
  "put_groups alloc_len buf off len [] = Some (buf, len)"
| "put_groups alloc_len buf off len (g # gs) =
     (if u32 (off + 8 + grp_num_tgt_ports (pg_grp g) * 4) > alloc_len
      then put_groups alloc_len buf off (add32 len (8 + grp_num_tgt_ports (pg_grp g) * 4)) gs
      else do {
        buf \<leftarrow> put_group buf off g;
        put_groups alloc_len buf (add32 off (8 + 4 * length (pg_ports g))) (add32 len (8 + 4 * length (pg_ports g))) gs
      })"

definition tcmu_emulate_report_tgt_port_grps ::
  "dev_env \<Rightarrow> bool \<Rightarrow> bool \<Rightarrow> cfgfs \<Rightarrow> tcmur_device \<Rightarrow> port_grp list \<Rightarrow> mem \<Rightarrow> tcmulib_cmd \<Rightarrow>
   (tcmu_sts \<times> cfgfs \<times> tcmur_device \<times> port_grp list \<times> mem \<times> tcmulib_cmd) option" where
  "tcmu_emulate_report_tgt_port_grps env has_tag alloc cf rdev gs m cmd = do {
     alloc_len \<leftarrow> tcmu_get_xfer_length (cdb cmd);
     (case tcmu_get_enabled_port gs of
        None \<Rightarrow> Some (TCMU_STS_INVALID_CMD, cf, rdev, gs, m, cmd)
      | Some (gi, port) \<Rightarrow>
          if alloc_len < 4 then Some (TCMU_STS_INVALID_CDB, cf, rdev, gs, m, cmd)
          else if \<not> alloc then Some (TCMU_STS_NO_RESOURCE, cf, rdev, gs, m, cmd)
          else do {
            let ext = cdb cmd 1 AND 0x20 \<noteq> 0 \<and> alloc_len > 5;
            let buf = replicate alloc_len 0;
            buf \<leftarrow> (if ext then put_at buf 4 [0x10, grp_implicit_trans_secs (pg_grp (hd gs))] else Some buf);
            (ret, cf, rdev, gs) \<leftarrow> alua_sync_state env has_tag cf rdev gs (grp_id (pg_grp (gs ! gi)));
            if ret \<noteq> TCMU_STS_OK then Some (ret, cf, rdev, gs, m, cmd)
            else do {
              (buf, len) \<leftarrow> put_groups alloc_len buf (if ext then 8 else 4) 0 gs;
              buf \<leftarrow> put_at buf 0 (be_enc 4 len);
              (case cmd_respond m cmd buf alloc_len of (c, m', cmd') \<Rightarrow> Some (TCMU_STS_OK, cf, rdev, gs, m', cmd'))
            }
          })
   }"

section \<open>Locking\<close>

text \<open>\<open>started\<close>: the lock thread could be created.\<close>

definition alua_implicit_transition :: "bool \<Rightarrow> tcmur_device \<Rightarrow> tcmu_sts \<times> tcmur_device" where
  "alua_implicit_transition started rdev =
     (if lock_state rdev = TCMUR_DEV_LOCK_LOCKED then (TCMU_STS_OK, rdev)
      else if lock_state rdev = TCMUR_DEV_LOCK_LOCKING then (TCMU_STS_TRANSITION, rdev)
      else if started then (TCMU_STS_TRANSITION, rdev\<lparr>lock_state := TCMUR_DEV_LOCK_LOCKING\<rparr>)
      else (TCMU_STS_IMPL_TRANSITION_ERR, rdev\<lparr>lock_state := TCMUR_DEV_LOCK_UNLOCKED\<rparr>))"

definition alua_check_state :: "bool \<Rightarrow> bool \<Rightarrow> tcmur_device \<Rightarrow> tcmu_sts \<times> tcmur_device" where
  "alua_check_state has_lock started rdev =
     (if \<not> has_lock then (TCMU_STS_OK, rdev)
      else if failover_type rdev = TMCUR_DEV_FAILOVER_EXPLICIT then
        if lock_state rdev \<noteq> TCMUR_DEV_LOCK_LOCKED then (TCMU_STS_FENCED, rdev) else (TCMU_STS_OK, rdev)
      else if failover_type rdev = TMCUR_DEV_FAILOVER_IMPLICIT then alua_implicit_transition started rdev
      else (TCMU_STS_OK, rdev))"

section \<open>SET TARGET PORT GROUPS\<close>

definition alua_check_sup_state :: "byte \<Rightarrow> byte \<Rightarrow> bool" where
  "alua_check_sup_state state sup_states =
     (if state = ALUA_ACCESS_STATE_OPTIMIZED then sup_states AND ALUA_SUP_OPTIMIZED \<noteq> 0
      else if state = ALUA_ACCESS_STATE_NON_OPTIMIZED then sup_states AND ALUA_SUP_NON_OPTIMIZED \<noteq> 0
      else if state = ALUA_ACCESS_STATE_STANDBY then sup_states AND ALUA_SUP_STANDBY \<noteq> 0
      else if state = ALUA_ACCESS_STATE_UNAVAILABLE then sup_states AND ALUA_SUP_UNAVAILABLE \<noteq> 0
      else False)"

text \<open>All groups but the \<open>i\<close>-th go to standby; failures are ignored. \<open>k\<close> is the index of the first.\<close>

fun others_standby :: "cfgfs \<Rightarrow> nat \<Rightarrow> byte \<Rightarrow> nat \<Rightarrow> port_grp list \<Rightarrow> cfgfs \<times> port_grp list" where
  "others_standby cf i status k [] = (cf, [])"
| "others_standby cf i status k (g # gs) =
     (let (cf1, g1) = (if k = i then (cf, g)
                       else case alua_set_state cf g ALUA_ACCESS_STATE_STANDBY status of (r, c, g') \<Rightarrow> (c, g'));
          (cf2, gs') = others_standby cf1 i status (Suc k) gs
      in (cf2, g1 # gs'))"

definition set_ith :: "cfgfs \<Rightarrow> port_grp list \<Rightarrow> nat \<Rightarrow> byte \<Rightarrow> byte \<Rightarrow> tcmu_sts \<times> cfgfs \<times> port_grp list" where
  "set_ith cf gs i st status = (case alua_set_state cf (gs ! i) st status of (r, c, g) \<Rightarrow> (r, c, gs[i := g]))"

definition tcmu_explicit_transition ::
  "dev_env \<Rightarrow> bool \<Rightarrow> cfgfs \<Rightarrow> tcmur_device \<Rightarrow> port_grp list \<Rightarrow> nat \<Rightarrow> byte \<Rightarrow> byte \<Rightarrow> (tcmu_sts \<times> cfgfs \<times> tcmur_device \<times> port_grp list) option" where
  "tcmu_explicit_transition env has_lock cf rdev gs i new_state status =
     (if \<not> alua_check_sup_state new_state (grp_supported_states (pg_grp (gs ! i))) then Some (TCMU_STS_INVALID_PARAM_LIST, cf, rdev, gs)
      else if new_state = ALUA_ACCESS_STATE_OPTIMIZED then
        if \<not> has_lock then (case set_ith cf gs i new_state status of (r, c, gs') \<Rightarrow> Some (r, c, rdev, gs'))
        else do {
          (ret, rdev1) \<leftarrow> tcmu_acquire_dev_lock env rdev;
          if ret = TCMU_STS_HW_ERR then Some (TCMU_STS_EXPL_TRANSITION_ERR, cf, rdev1, gs)
          else if ret \<noteq> TCMU_STS_OK then Some (TCMU_STS_BUSY, cf, rdev1, gs)
          else
            case others_standby cf i status 0 gs of (cf1, gs1) \<Rightarrow>
              (case set_ith cf1 gs1 i new_state status of (r, c, gs') \<Rightarrow> Some (r, c, rdev1, gs'))
        }
      else if new_state = ALUA_ACCESS_STATE_STANDBY then
        (case set_ith cf gs i new_state status of (r, c, gs') \<Rightarrow>
           Some (r, c, if has_lock then tcmu_release_dev_lock rdev else rdev, gs'))
      else Some (TCMU_STS_INVALID_PARAM_LIST, cf, rdev, gs))"

fun group_index :: "nat \<Rightarrow> nat \<Rightarrow> port_grp list \<Rightarrow> nat option" where
  "group_index i gid [] = None"
| "group_index i gid (g # gs) = (if grp_id (pg_grp g) = gid then Some i else group_index (Suc i) gid gs)"

text \<open>The descriptors of the parameter list from \<open>off\<close> on; \<open>own\<close> is the group of the enabled port.\<close>

function stpg_loop ::
  "dev_env \<Rightarrow> bool \<Rightarrow> nat \<Rightarrow> cfgfs \<Rightarrow> tcmur_device \<Rightarrow> port_grp list \<Rightarrow> byte list \<Rightarrow> nat \<Rightarrow> (tcmu_sts \<times> cfgfs \<times> tcmur_device \<times> port_grp list) option" where
  "stpg_loop env has_lock own cf rdev gs buf off =
     (if off \<ge> length buf then Some (TCMU_STS_OK, cf, rdev, gs)
      else if off + 4 > length buf then None
      else
        let new_state = (buf ! off) AND 0x0f;
            gid = be_dec (buf_get buf (off + 2) 2)
        in
        case group_index 0 gid gs of
          None \<Rightarrow> Some (TCMU_STS_EXPL_TRANSITION_ERR, cf, rdev, gs)
        | Some i \<Rightarrow>
            if i \<noteq> own then Some (TCMU_STS_HW_ERR, cf, rdev, gs)
            else do {
              (ret, cf', rdev', gs') \<leftarrow> tcmu_explicit_transition env has_lock cf rdev gs i new_state ALUA_STAT_ALTERED_BY_EXPLICIT_STPG;
              if ret \<noteq> TCMU_STS_OK then Some (ret, cf', rdev', gs')
              else stpg_loop env has_lock own cf' rdev' gs' buf (off + 4)
            })"
  by pat_completeness auto

termination by (relation "measure (\<lambda>(_, _, _, _, _, _, buf, off). length buf - off)") auto

declare stpg_loop.simps [simp del]

definition tcmu_emulate_set_tgt_port_grps ::
  "dev_env \<Rightarrow> bool \<Rightarrow> bool \<Rightarrow> cfgfs \<Rightarrow> tcmur_device \<Rightarrow> port_grp list \<Rightarrow> mem \<Rightarrow> tcmulib_cmd \<Rightarrow>
   (tcmu_sts \<times> cfgfs \<times> tcmur_device \<times> port_grp list) option" where
  "tcmu_emulate_set_tgt_port_grps env has_lock alloc cf rdev gs m cmd = do {
     len \<leftarrow> tcmu_get_xfer_length (cdb cmd);
     (case tcmu_get_enabled_port gs of
        None \<Rightarrow> Some (TCMU_STS_INVALID_CMD, cf, rdev, gs)
      | Some (own, port) \<Rightarrow>
          if len = 0 then Some (TCMU_STS_OK, cf, rdev, gs)
          else if \<not> alloc then Some (TCMU_STS_NO_RESOURCE, cf, rdev, gs)
          else
            case tcmu_memcpy_from_iovec m (replicate len 0) len (cmd_iovs cmd) of (copied, buf, vs) \<Rightarrow>
              if copied \<noteq> len then Some (TCMU_STS_INVALID_PARAM_LIST_LEN, cf, rdev, gs)
              else stpg_loop env has_lock own cf rdev gs buf 4)
   }"

section \<open>The report\<close>

text \<open>The format of the standard for one group, and the groups that fit from an offset on.\<close>

definition port_desc :: "tgt_port \<Rightarrow> byte list" where
  "port_desc p = [0, 0] @ be_enc 2 (rel_port_id p)"

definition group_desc :: "port_grp \<Rightarrow> byte list" where
  "group_desc g = (let a = pg_grp g in
     [(if grp_pref a then 0x80 else 0) OR grp_state a, grp_supported_states a] @ be_enc 2 (grp_id a) @
     [0, grp_status a, 0, of_nat (grp_num_tgt_ports a)] @ concat (map port_desc (pg_ports g)))"

definition group_size :: "port_grp \<Rightarrow> nat" where
  "group_size g = 8 + 4 * length (pg_ports g)"

fun kept :: "nat \<Rightarrow> nat \<Rightarrow> port_grp list \<Rightarrow> port_grp list" where
  "kept n off [] = []"
| "kept n off (g # gs) = (if off + group_size g \<le> n then g # kept n (off + group_size g) gs else kept n off gs)"

definition groups_ok :: "port_grp list \<Rightarrow> bool" where
  "groups_ok gs \<longleftrightarrow> (\<forall>g \<in> set gs. length (pg_ports g) < 256 \<and> grp_num_tgt_ports (pg_grp g) = length (pg_ports g))"

lemma length_port_desc [simp]: "length (port_desc p) = 4"
  by (simp add: port_desc_def)

lemma length_group_desc [simp]: "length (group_desc g) = group_size g"
proof -
  have "length (concat (map port_desc ps)) = 4 * length ps" for ps by (induction ps) auto
  then show ?thesis by (simp add: group_desc_def group_size_def Let_def)
qed

lemma put_at_append:
  "j + length bs \<le> length rest \<Longrightarrow> put_at (pre @ rest) (length pre + j) bs = Some (pre @ buf_put rest j bs)"
  by (simp add: put_at_def buf_put_def)

lemma put_ports_desc:
  "off = length pre \<Longrightarrow> 4 * length ps \<le> k \<Longrightarrow>
     put_ports (pre @ replicate k 0) off ps = Some (pre @ concat (map port_desc ps) @ replicate (k - 4 * length ps) 0)"
proof (induction ps arbitrary: pre off k)
  case (Cons p ps)
  then obtain k' where k: "k = 4 + k'" by (metis le_Suc_ex le_trans length_Cons mult_Suc_right le_add1)
  have z: "replicate k (0 :: byte) = [0, 0, 0, 0] @ replicate k' 0" by (simp add: k replicate_add numeral_eq_Suc)
  have "put_at (pre @ replicate k 0) (off + 2) (be_enc 2 (rel_port_id p)) = Some ((pre @ port_desc p) @ replicate k' 0)"
    unfolding z Cons.prems(1) by (subst put_at_append) (simp_all add: buf_put_def port_desc_def)
  then show ?case
    using Cons.IH [of "off + 4" "pre @ port_desc p" k'] Cons.prems k by simp
qed simp

lemma put_group_desc:
  assumes "group_size g \<le> k"
  shows "put_group (pre @ replicate k 0) (length pre) g = Some (pre @ group_desc g @ replicate (k - group_size g) 0)"
proof -
  let ?a = "pg_grp g"
  obtain k' where k: "k = 8 + k'" using assms by (metis group_size_def le_Suc_ex le_trans le_add1)
  have z: "replicate k (0 :: byte) = [0, 0, 0, 0, 0, 0, 0, 0] @ replicate k' 0" by (simp add: k replicate_add numeral_eq_Suc)
  define hdr where "hdr = [(if grp_pref ?a then 0x80 else 0) OR grp_state ?a, grp_supported_states ?a] @ be_enc 2 (grp_id ?a) @
     [0, grp_status ?a, 0, of_nat (grp_num_tgt_ports ?a)]"
  have len: "length hdr = 8" by (simp add: hdr_def)
  have put: "put_at (pre @ rest) (length pre + j) bs = Some (pre @ buf_put rest j bs)"
    "put_at (pre @ rest) (length pre) cs = Some (pre @ buf_put rest 0 cs)"
    if "j + length bs \<le> length rest" "length cs \<le> length rest" for rest bs cs and j :: nat
    using that put_at_append [of j bs rest pre] put_at_append [of 0 cs rest pre] by simp_all
  have enc: "be_enc 2 n = [of_nat (n div 256), of_nat n]" for n by (simp add: numeral_2_eq_2)
  have "put_group (pre @ replicate k 0) (length pre) g = put_ports ((pre @ hdr) @ replicate k' 0) (length pre + 8) (pg_ports g)"
    unfolding put_group_def z hdr_def enc by (simp add: put buf_put_def buf_get_def Let_def)
  also have "\<dots> = Some ((pre @ hdr) @ concat (map port_desc (pg_ports g)) @ replicate (k' - 4 * length (pg_ports g)) 0)"
    using assms len k by (intro put_ports_desc) (simp_all add: group_size_def)
  finally show ?thesis by (simp add: group_desc_def hdr_def k group_size_def Let_def)
qed

lemma put_groups_desc:
  assumes "groups_ok gs" "n < 2 ^ 31" "sum_list (map group_size gs) + len < 2 ^ 32" "length pre + k = n"
  shows "\<exists>k'. put_groups n (pre @ replicate k 0) (length pre) len gs =
    Some (pre @ concat (map group_desc (kept n (length pre) gs)) @ replicate k' 0, len + sum_list (map group_size gs))
    \<and> length pre + length (concat (map group_desc (kept n (length pre) gs))) + k' = n"
  using assms
proof (induction gs arbitrary: pre k len)
  case (Cons g gs)
  have g: "grp_num_tgt_ports (pg_grp g) = length (pg_ports g)" "length (pg_ports g) < 256" using Cons.prems(1) by (auto simp: groups_ok_def)
  have next_off: "u32 (length pre + 8 + grp_num_tgt_ports (pg_grp g) * 4) = length pre + group_size g"
    using g Cons.prems(2,4) by (simp add: u32_def group_size_def)
  have len: "add32 len (group_size g) = len + group_size g" "add32 len (8 + grp_num_tgt_ports (pg_grp g) * 4) = len + group_size g"
    using Cons.prems(3) g by (simp_all add: add32_id group_size_def)
  have ok: "groups_ok gs" using Cons.prems(1) by (simp add: groups_ok_def)
  show ?case
  proof (cases "length pre + group_size g \<le> n")
    case False
    then show ?thesis
      using Cons.IH [OF ok Cons.prems(2), of "len + group_size g" pre k] Cons.prems(3,4) next_off len by (simp add: add.assoc)
  next
    case True
    have off: "add32 (length pre) (group_size g) = length (pre @ group_desc g)" using True Cons.prems(2) by (simp add: add32_id)
    have "put_group (pre @ replicate k 0) (length pre) g = Some ((pre @ group_desc g) @ replicate (k - group_size g) 0)"
      using True Cons.prems(4) by (subst put_group_desc) simp_all
    then have "put_groups n (pre @ replicate k 0) (length pre) len (g # gs)
      = put_groups n ((pre @ group_desc g) @ replicate (k - group_size g) 0) (length (pre @ group_desc g)) (len + group_size g) gs"
      using True next_off len(1) off by (simp add: group_size_def [symmetric] not_less [symmetric])
    then show ?thesis
      using Cons.IH [OF ok Cons.prems(2), of "len + group_size g" "pre @ group_desc g" "k - group_size g"] Cons.prems(3,4) True
      by (simp add: add.assoc)
  qed
qed (auto)

section \<open>States of the groups\<close>

definition writes_succeed :: "cfgfs \<Rightarrow> bool" where
  "writes_succeed cf \<longleftrightarrow> (\<forall>n s. cf_write cf n s = 0)"

lemma set_state_ok:
  assumes "writes_succeed cf"
  shows "\<exists>cf'. alua_set_state cf g st status = (TCMU_STS_OK, cf', set_grp g st status) \<and> writes_succeed cf'"
  using assms by (simp add: alua_set_state_def tcmu_set_alua_int_setting_def writes_succeed_def)

lemma set_grp_simps [simp]:
  "grp_state (pg_grp (set_grp g st status)) = st" "grp_id (pg_grp (set_grp g st status)) = grp_id (pg_grp g)"
  "pg_ports (set_grp g st status) = pg_ports g" "grp_num_tgt_ports (pg_grp (set_grp g st status)) = grp_num_tgt_ports (pg_grp g)"
  "grp_supported_states (pg_grp (set_grp g st status)) = grp_supported_states (pg_grp g)" "pg_name (set_grp g st status) = pg_name g"
  by (simp_all add: set_grp_def)

text \<open>The groups only change in state and status.\<close>

definition same_groups :: "port_grp list \<Rightarrow> port_grp list \<Rightarrow> bool" where
  "same_groups = list_all2 (\<lambda>g h. \<exists>st status. h = set_grp g st status)"

lemma set_grp_self: "set_grp g (grp_state (pg_grp g)) (grp_status (pg_grp g)) = g"
  by (simp add: set_grp_def)

lemma same_groups_map: "same_groups gs hs \<Longrightarrow> (\<And>g st status. f (set_grp g st status) = f g) \<Longrightarrow> map f hs = map f gs"
  unfolding same_groups_def by (induction rule: list_all2_induct) auto

lemma sync_groups_spec:
  assumes "writes_succeed cf" "sync_groups cf rdev ao enabled gs = (cf', rdev', gs')"
  shows "same_groups gs gs' \<and> map (\<lambda>g. grp_state (pg_grp g)) gs' = map (\<lambda>g. if grp_id (pg_grp g) = ao then ALUA_ACCESS_STATE_OPTIMIZED else ALUA_ACCESS_STATE_STANDBY) gs
    \<and> writes_succeed cf'
    \<and> rdev' = rdev\<lparr>lock_state := (if enabled \<noteq> ao \<and> enabled \<in> set (map (\<lambda>g. grp_id (pg_grp g)) gs) \<and> lock_state rdev = TCMUR_DEV_LOCK_LOCKED
                           then TCMUR_DEV_LOCK_UNLOCKED else lock_state rdev)\<rparr>"
  using assms
proof (induction gs arbitrary: cf rdev cf' rdev' gs')
  case (Cons g gs)
  let ?st = "if ao = grp_id (pg_grp g) then ALUA_ACCESS_STATE_OPTIMIZED else ALUA_ACCESS_STATE_STANDBY"
  define rdev1 where "rdev1 = (if ao \<noteq> grp_id (pg_grp g) \<and> enabled = grp_id (pg_grp g) \<and> lock_state rdev = TCMUR_DEV_LOCK_LOCKED
                   then rdev\<lparr>lock_state := TCMUR_DEV_LOCK_UNLOCKED\<rparr> else rdev)"
  obtain cf1 g1 where one: "(if ?st \<noteq> grp_state (pg_grp g)
                       then (case alua_set_state cf g ?st ALUA_STAT_ALTERED_BY_IMPLICIT_ALUA of (r, c, g') \<Rightarrow> (c, g'))
                       else (cf, g)) = (cf1, g1)" "writes_succeed cf1" "grp_state (pg_grp g1) = ?st" "\<exists>st status. g1 = set_grp g st status"
  proof (cases "?st = grp_state (pg_grp g)")
    case True
    show ?thesis by (rule that [of cf g]) (use True Cons.prems(1) set_grp_self [of g, symmetric] in \<open>simp_all, blast\<close>)
  next
    case False
    obtain cf1 where "alua_set_state cf g ?st ALUA_STAT_ALTERED_BY_IMPLICIT_ALUA = (TCMU_STS_OK, cf1, set_grp g ?st ALUA_STAT_ALTERED_BY_IMPLICIT_ALUA)"
      "writes_succeed cf1" using set_state_ok [OF Cons.prems(1)] by blast
    then show ?thesis using that [of cf1 "set_grp g ?st ALUA_STAT_ALTERED_BY_IMPLICIT_ALUA"] False by auto
  qed
  obtain gs1 where rest: "sync_groups cf1 rdev1 ao enabled gs = (cf', rdev', gs1)" "gs' = g1 # gs1"
    using Cons.prems(2) one(1) unfolding rdev1_def by (auto simp: Let_def split: prod.splits)
  with Cons.IH [OF one(2) rest(1)] one(3,4) rest(2) show ?case
    by (auto simp: same_groups_def rdev1_def)
qed (auto simp: same_groups_def)

lemma enabled_port_group:
  "enabled_port_from i gs = Some (j, p) \<Longrightarrow> i \<le> j \<and> j - i < length gs \<and> p \<in> set (pg_ports (gs ! (j - i)))"
proof (induction gs arbitrary: i)
  case (Cons g gs)
  show ?case
  proof (cases "List.find port_enabled (pg_ports g)")
    case None
    with Cons.prems Cons.IH [of "Suc i"] show ?thesis by (auto simp: nth_Cons' Suc_le_eq)
  next
    case (Some q)
    with Cons.prems show ?thesis by (auto simp: find_Some_iff)
  qed
qed simp

lemma same_groups_sizes:
  assumes "same_groups gs hs"
  shows "map group_size hs = map group_size gs" "groups_ok gs \<Longrightarrow> groups_ok hs" "length hs = length gs"
proof -
  show "map group_size hs = map group_size gs" using assms unfolding same_groups_def by (induction rule: list_all2_induct) (auto simp: group_size_def)
  show "length hs = length gs" using assms by (simp add: same_groups_def list_all2_lengthD)
  have "groups_ok hs = groups_ok gs"
    using assms unfolding same_groups_def
  proof (induction rule: list_all2_induct)
    case (Cons g gs h hs)
    then obtain st status where "h = set_grp g st status" by blast
    then show ?case using Cons.IH by (simp add: groups_ok_def)
  qed simp
  then show "groups_ok gs \<Longrightarrow> groups_ok hs" by simp
qed

text \<open>The response that the report builds from the groups.\<close>

definition rtpg_response :: "nat \<Rightarrow> bool \<Rightarrow> byte \<Rightarrow> port_grp list \<Rightarrow> byte list" where
  "rtpg_response n ext secs gs =
     take n (be_enc 4 (sum_list (map group_size gs)) @ (if ext then [0x10, secs, 0, 0] else []) @
             concat (map group_desc (kept n (if ext then 8 else 4) gs)) @ replicate n 0)"

lemma put_groups_response:
  assumes "groups_ok gs" "n < 2 ^ 31" "sum_list (map group_size gs) < 2 ^ 32" "8 \<le> n"
    and "pre = [0, 0, 0, 0] @ (if ext then [0x10, secs, 0, 0] else [])" "length pre + k = n"
  shows "\<exists>buf len. put_groups n (pre @ replicate k 0) (length pre) 0 gs = Some (buf, len)
    \<and> put_at buf 0 (be_enc 4 len) = Some (rtpg_response n ext secs gs)"
proof -
  let ?off = "if ext then 8 else 4"
  have off: "length pre = ?off" using assms(5) by simp
  obtain k' where run: "put_groups n (pre @ replicate k 0) (length pre) 0 gs =
      Some (pre @ concat (map group_desc (kept n ?off gs)) @ replicate k' 0, sum_list (map group_size gs))"
    and len: "?off + length (concat (map group_desc (kept n ?off gs))) + k' = n"
    using put_groups_desc [OF assms(1,2) _ assms(6), of 0] assms(3) off by auto
  let ?body = "(if ext then [0x10, secs, 0, 0] else []) @ concat (map group_desc (kept n ?off gs))"
  have "put_at (pre @ concat (map group_desc (kept n ?off gs)) @ replicate k' 0) 0 (be_enc 4 (sum_list (map group_size gs)))
    = Some (be_enc 4 (sum_list (map group_size gs)) @ ?body @ replicate k' 0)"
    unfolding assms(5) by (simp add: put_at_def buf_put_def)
  moreover have "be_enc 4 (sum_list (map group_size gs)) @ ?body @ replicate k' 0 = rtpg_response n ext secs gs"
    using len unfolding rtpg_response_def by (auto simp: take_replicate min_def split: if_splits)
  ultimately show ?thesis using run by auto
qed


section \<open>Explicit transitions\<close>

text \<open>The state that a successful transition of the own group to \<open>st\<close> leaves.\<close>

definition transitioned :: "bool \<Rightarrow> byte \<Rightarrow> nat \<Rightarrow> tcmur_device \<Rightarrow> port_grp list \<Rightarrow> bool" where
  "transitioned has_lock st own rdev gs \<longleftrightarrow>
     own < length gs \<and> grp_state (pg_grp (gs ! own)) = st
   \<and> (st = ALUA_ACCESS_STATE_OPTIMIZED \<and>
        (has_lock \<longrightarrow> lock_state rdev = TCMUR_DEV_LOCK_LOCKED \<and>
           (\<forall>i < length gs. i \<noteq> own \<longrightarrow> grp_state (pg_grp (gs ! i)) = ALUA_ACCESS_STATE_STANDBY))
      \<or> st = ALUA_ACCESS_STATE_STANDBY \<and> (has_lock \<longrightarrow> lock_state rdev \<noteq> TCMUR_DEV_LOCK_LOCKED))"

lemma others_standby_spec:
  assumes "writes_succeed cf" "others_standby cf i status k gs = (cf', gs')"
  shows "writes_succeed cf' \<and> length gs' = length gs \<and>
    (\<forall>j < length gs. gs' ! j = (if k + j = i then gs ! j else set_grp (gs ! j) ALUA_ACCESS_STATE_STANDBY status))"
  using assms
proof (induction gs arbitrary: cf k cf' gs')
  case (Cons g gs)
  obtain cf1 where one: "(if k = i then (cf, g) else case alua_set_state cf g ALUA_ACCESS_STATE_STANDBY status of (r, c, g') \<Rightarrow> (c, g'))
      = (cf1, if k = i then g else set_grp g ALUA_ACCESS_STATE_STANDBY status)" "writes_succeed cf1"
    using set_state_ok [OF Cons.prems(1), of g ALUA_ACCESS_STATE_STANDBY status] Cons.prems(1) by (cases "k = i") auto
  obtain gs1 where rest: "others_standby cf1 i status (Suc k) gs = (cf', gs1)"
    "gs' = (if k = i then g else set_grp g ALUA_ACCESS_STATE_STANDBY status) # gs1"
    using Cons.prems(2) one(1) by (auto simp: Let_def split: prod.splits)
  show ?case using Cons.IH [OF one(2) rest(1)] rest(2) by (auto simp: nth_Cons split: nat.splits)
qed simp

lemma set_ith_ok:
  assumes "writes_succeed cf"
  shows "\<exists>cf'. set_ith cf gs i st status = (TCMU_STS_OK, cf', gs[i := set_grp (gs ! i) st status]) \<and> writes_succeed cf'"
  using set_state_ok [OF assms, of "gs ! i" st status] by (auto simp: set_ith_def)

lemma acquire_locked:
  "tcmu_acquire_dev_lock env rdev = Some (TCMU_STS_OK, rdev') \<Longrightarrow> lock_state rdev' = TCMUR_DEV_LOCK_LOCKED"
  by (auto simp: tcmu_acquire_dev_lock_def split: option.splits prod.splits if_splits)

lemma release_unlocked: "lock_state (tcmu_release_dev_lock rdev) \<noteq> TCMUR_DEV_LOCK_LOCKED"
  by (simp add: tcmu_release_dev_lock_def)

lemma explicit_transition_ok:
  assumes "writes_succeed cf" "own < length gs"
    and "tcmu_explicit_transition env has_lock cf rdev gs own st status = Some (TCMU_STS_OK, cf', rdev', gs')"
  shows "transitioned has_lock st own rdev' gs' \<and> writes_succeed cf' \<and> length gs' = length gs"
proof -
  obtain cf1 where here: "set_ith cf gs own st status = (TCMU_STS_OK, cf1, gs[own := set_grp (gs ! own) st status])" "writes_succeed cf1"
    using set_ith_ok [OF assms(1)] by blast
  obtain cf2 gs2 where rest: "others_standby cf own status 0 gs = (cf2, gs2)" by (metis surj_pair)
  note O = others_standby_spec [OF assms(1) rest]
  then obtain cf3 where there: "set_ith cf2 gs2 own st status = (TCMU_STS_OK, cf3, gs2[own := set_grp (gs2 ! own) st status])" "writes_succeed cf3"
    using set_ith_ok by blast
  have sup: "alua_check_sup_state st (grp_supported_states (pg_grp (gs ! own)))"
    using assms(3) unfolding tcmu_explicit_transition_def by (auto split: if_splits)
  consider (opt) "st = ALUA_ACCESS_STATE_OPTIMIZED" | (sby) "st = ALUA_ACCESS_STATE_STANDBY"
    using assms(3) unfolding tcmu_explicit_transition_def by (auto split: if_splits)
  then show ?thesis
  proof cases
    case opt
    show ?thesis
    proof (cases has_lock)
      case False
      then have "cf' = cf1" "rdev' = rdev" "gs' = gs[own := set_grp (gs ! own) st status]"
        using assms(3) opt here(1) sup unfolding tcmu_explicit_transition_def by simp_all
      then show ?thesis using here(2) assms(2) opt False by (simp add: transitioned_def)
    next
      case True
      then obtain rdev1 where "tcmu_acquire_dev_lock env rdev = Some (TCMU_STS_OK, rdev1)" "cf' = cf3" "rdev' = rdev1"
        "gs' = gs2[own := set_grp (gs2 ! own) st status]"
        using assms(3) opt sup rest there(1) unfolding tcmu_explicit_transition_def by (auto split: bind_splits if_splits)
      then show ?thesis using there(2) assms(2) opt O acquire_locked by (simp add: transitioned_def)
    qed
  next
    case sby
    then have "cf' = cf1" "rdev' = (if has_lock then tcmu_release_dev_lock rdev else rdev)" "gs' = gs[own := set_grp (gs ! own) st status]"
      using assms(3) here(1) sup unfolding tcmu_explicit_transition_def by simp_all
    then show ?thesis using here(2) assms(2) sby release_unlocked by (simp add: transitioned_def)
  qed
qed

lemma group_index_bound: "group_index i gid gs = Some j \<Longrightarrow> i \<le> j \<and> j < i + length gs"
  by (induction gs arbitrary: i) (fastforce split: if_splits)+

text \<open>The state of the last descriptor of a parameter list.\<close>

definition last_state :: "byte list \<Rightarrow> byte" where
  "last_state buf = (buf ! (length buf - 4)) AND 0x0f"

lemma stpg_loop_ok:
  assumes "stpg_loop env has_lock own cf rdev gs buf off = Some (TCMU_STS_OK, cf', rdev', gs')" "writes_succeed cf"
    and "off < length buf" "4 dvd length buf" "4 dvd off"
  shows "transitioned has_lock (last_state buf) own rdev' gs' \<and> length gs' = length gs"
  using assms
proof (induction env has_lock own cf rdev gs buf off rule: stpg_loop.induct)
  case (1 env has_lock own cf rdev gs buf off)
  have four: "off + 4 \<le> length buf" using 1(4-6) by (auto elim!: dvdE)
  let ?st = "(buf ! off) AND 0x0f"
  obtain cf1 rdev1 gs1 where step: "group_index 0 (be_dec (buf_get buf (off + 2) 2)) gs = Some own"
    "tcmu_explicit_transition env has_lock cf rdev gs own ?st ALUA_STAT_ALTERED_BY_EXPLICIT_STPG = Some (TCMU_STS_OK, cf1, rdev1, gs1)"
    "stpg_loop env has_lock own cf1 rdev1 gs1 buf (off + 4) = Some (TCMU_STS_OK, cf', rdev', gs')"
    using 1(2) 1(4) four by (subst (asm) stpg_loop.simps) (auto simp: Let_def split: option.splits if_splits bind_splits)
  have "own < length gs" using group_index_bound [OF step(1)] by simp
  note T = explicit_transition_ok [OF 1(3) this step(2)]
  show ?case
  proof (cases "off + 4 < length buf")
    case True
    from 1(1) [OF _ _ refl refl step(1) _ step(2) refl refl refl _ step(3)] True four T 1(4-6) show ?thesis by auto
  next
    case False
    then have "off = length buf - 4" using four by simp
    moreover have "cf' = cf1" "rdev' = rdev1" "gs' = gs1"
      using step(3) False by (simp_all add: stpg_loop.simps [of env has_lock own cf1 rdev1 gs1 buf "off + 4"])
    ultimately show ?thesis using T by (simp add: last_state_def)
  qed
qed

lemma acquire_returns: "tcmu_acquire_dev_lock env d \<noteq> None"
proof -
  obtain r d1 where "tcmu_reopen_dev env d True 0 = Some (r, d1)" using reopen_dev_returns by blast
  then have "lock_retry env d 0 \<noteq> None"
    using lock_retry_last [of env d1] by (subst lock_retry.simps) (auto simp: Let_def)
  then show ?thesis by (auto simp: tcmu_acquire_dev_lock_def)
qed

lemma explicit_transition_returns: "tcmu_explicit_transition env has_lock cf rdev gs i st status \<noteq> None"
  using acquire_returns [of env rdev] unfolding tcmu_explicit_transition_def
  by (auto split: prod.splits bind_splits if_splits)

lemma stpg_loop_returns:
  "4 dvd length buf \<Longrightarrow> 4 dvd off \<Longrightarrow> stpg_loop env has_lock own cf rdev gs buf off \<noteq> None"
proof (induction env has_lock own cf rdev gs buf off rule: stpg_loop.induct)
  case (1 env has_lock own cf rdev gs buf off)
  let ?st = "(buf ! off) AND 0x0f" and ?i = "group_index 0 (be_dec (buf_get buf (off + 2) 2)) gs"
  obtain r cf1 rdev1 gs1 where t:
    "tcmu_explicit_transition env has_lock cf rdev gs own ?st ALUA_STAT_ALTERED_BY_EXPLICIT_STPG = Some (r, cf1, rdev1, gs1)"
    using explicit_transition_returns [of env has_lock cf rdev gs own ?st ALUA_STAT_ALTERED_BY_EXPLICIT_STPG] by (metis not_None_eq prod_cases4)
  have four: "length buf \<le> off \<or> off + 4 \<le> length buf" using 1(2,3) by (auto elim!: dvdE)
  show ?case
  proof (cases "off < length buf \<and> ?i = Some own \<and> r = TCMU_STS_OK")
    case True
    then have i: "?i = Some own" and r: "r = TCMU_STS_OK" by simp_all
    have "stpg_loop env has_lock own cf1 rdev1 gs1 buf (off + 4) \<noteq> None"
      by (rule 1(1) [OF _ _ refl refl i _ t refl refl refl]) (use True four r 1(2,3) in auto)
    then show ?thesis using True four t by (subst stpg_loop.simps) (auto simp: Let_def)
  next
    case False
    then show ?thesis using four t by (subst stpg_loop.simps) (auto simp: Let_def split: option.splits)
  qed
qed


text \<open>
  C27: Fencing. With a handler that supports failover and an explicit or implicit failover type,
  \<open>alua_check_state\<close> lets a command through only while the device lock is held; otherwise the command is answered
  with an error, and only an implicit failover starts one acquisition of the lock, never a second one.
\<close>
theorem alua_check_state_fences:
  assumes "failover_type rdev \<noteq> TMCUR_DEV_FAILOVER_ALL_ACTIVE" and "alua_check_state True started rdev = (r, rdev')"
  shows "(r = TCMU_STS_OK \<longleftrightarrow> lock_state rdev = TCMUR_DEV_LOCK_LOCKED) \<and> (r = TCMU_STS_OK \<longrightarrow> rdev' = rdev)
    \<and> (lock_state rdev' = TCMUR_DEV_LOCK_LOCKED \<longleftrightarrow> lock_state rdev = TCMUR_DEV_LOCK_LOCKED)
    \<and> (rdev' \<noteq> rdev \<longrightarrow> failover_type rdev = TMCUR_DEV_FAILOVER_IMPLICIT \<and> lock_state rdev = TCMUR_DEV_LOCK_UNLOCKED
         \<and> lock_state rdev' = TCMUR_DEV_LOCK_LOCKING \<and> r = TCMU_STS_TRANSITION)"
proof -
  have "lock_state rdev = TCMUR_DEV_LOCK_UNLOCKED \<Longrightarrow> rdev\<lparr>lock_state := TCMUR_DEV_LOCK_UNLOCKED\<rparr> = rdev" by simp
  moreover have "lock_state rdev = TCMUR_DEV_LOCK_UNLOCKED \<or> lock_state rdev = TCMUR_DEV_LOCK_LOCKED \<or> lock_state rdev = TCMUR_DEV_LOCK_LOCKING"
    by (cases "lock_state rdev") auto
  moreover have "failover_type rdev = TMCUR_DEV_FAILOVER_EXPLICIT \<or> failover_type rdev = TMCUR_DEV_FAILOVER_IMPLICIT"
    using assms(1) by (cases "failover_type rdev") auto
  ultimately show ?thesis
    using assms(2) by (auto simp: alua_check_state_def alua_implicit_transition_def split: if_splits)
qed

text \<open>Two groups of one port each, the first of them local, in a configfs whose writes succeed.\<close>

definition sample_grp :: "nat \<Rightarrow> bool \<Rightarrow> byte \<Rightarrow> port_grp" where
  "sample_grp gid en st = (let a = \<lparr>grp_state = st, grp_supported_states = 0x0f, grp_tpgs = 0x20, grp_status = 0,
       grp_implicit_trans_secs = 0, grp_pref = False, grp_id = gid, grp_num_tgt_ports = 1\<rparr> in
     \<lparr>pg_name = ''g'', pg_grp = a, pg_ports = [\<lparr>rel_port_id = gid, proto_id = 5, port_wwn = ''w'', port_enabled = en,
        port_tpgt = 1, port_grp = a\<rparr>]\<rparr>)"

definition sample_cfgfs :: cfgfs where
  "sample_cfgfs = \<lparr>cf_int = (\<lambda>_ _. 0), cf_str = (\<lambda>_ _. None), cf_write = (\<lambda>_ _. 0), cf_port = (\<lambda>_. None)\<rparr>"

abbreviation sample_grps :: "port_grp list" where
  "sample_grps \<equiv> [sample_grp 1 True 2, sample_grp 2 False 0]"

lemma sample_alua [simp]: "writes_succeed sample_cfgfs" "groups_ok sample_grps" "group_size (sample_grp i b st) = 12"
  "grp_id (pg_grp (sample_grp i b st)) = i" "tcmu_get_enabled_port sample_grps = Some (0, hd (pg_ports (sample_grp 1 True 2)))"
  by (simp_all add: writes_succeed_def sample_cfgfs_def groups_ok_def sample_grp_def group_size_def tcmu_get_enabled_port_def Let_def)

definition alua_cmd :: "byte list \<Rightarrow> nat \<Rightarrow> tcmulib_cmd" where
  "alua_cmd op n = \<lparr>cmd_id = 1, cdb = cdb_of (op @ be_enc 4 n @ [0, 0]), iovec = [\<lparr>iov_base = 100, iov_len = n\<rparr>], iov_cnt = 1, sense_buf = []\<rparr>"

lemma alua_cmd_simps [simp]:
  "cmd_wf (alua_cmd op 64)" "tcmu_get_xfer_length (cdb (alua_cmd [0xa3, 0x0a, 0, 0, 0, 0] 64)) = Some 64"
  "tcmu_get_xfer_length (cdb (alua_cmd [0xa4, 0x0a, 0, 0, 0, 0] 8)) = Some 8"
proof -
  show "cmd_wf (alua_cmd op 64)" by (simp add: cmd_wf_def alua_cmd_def cmd_iovs_def iov_total_def)
  show "tcmu_get_xfer_length (cdb (alua_cmd [0xa3, 0x0a, 0, 0, 0, 0] 64)) = Some 64" by code_simp
  show "tcmu_get_xfer_length (cdb (alua_cmd [0xa4, 0x0a, 0, 0, 0, 0] 8)) = Some 8" by code_simp
qed



theorem alua_check_state_fences_witness:
  "fst (alua_check_state True True (locked_dev\<lparr>lock_state := TCMUR_DEV_LOCK_UNLOCKED\<rparr>)) \<noteq> TCMU_STS_OK"
  using alua_check_state_fences [of "locked_dev\<lparr>lock_state := TCMUR_DEV_LOCK_UNLOCKED\<rparr>" True] by (cases "alua_check_state True True (locked_dev\<lparr>lock_state := TCMUR_DEV_LOCK_UNLOCKED\<rparr>)")
    (auto simp: locked_dev_def)

end
