(* ===== verification/Tcmur_Store.thy ===== *)
theory Tcmur_Store
  imports Tcmu_Device
begin

text \<open>
  What the runner sees of a handler (\<open>struct tcmur_handler\<close> of \<open>tcmu-runner.h\<close>): reading,
  writing and flushing a byte-addressed store. The contract is the locale \<open>backstore\<close>; the example
  file handler (\<open>file_example.c\<close>) is modelled and shown to satisfy it whatever short transfers and
  errors the kernel returns. A handler function and the call of the command's \<open>done\<close> with its
  status are one operation here: it returns that status.
\<close>

section \<open>The file handler\<close>

text \<open>
  An open file: its bytes, its length, and what the kernel answers to the \<open>k\<close>-th call of
  \<open>preadv\<close>, \<open>pwritev\<close> or \<open>fsync\<close>: negative for an error, else the most bytes it transfers.
\<close>

record file_state =
  fd_data :: mem
  fd_len :: nat
  fd_io :: "nat \<Rightarrow> int"
  fd_k :: nat

text \<open>The file as a store: zeros behind its end.\<close>

definition file_view :: "file_state \<Rightarrow> mem" where
  "file_view s = (\<lambda>x. if x < fd_len s then fd_data s x else 0)"

definition next_call :: "file_state \<Rightarrow> file_state" where
  "next_call s = s\<lparr>fd_k := Suc (fd_k s)\<rparr>"

text \<open>A transfer moves at least a byte unless there is none to move.\<close>

definition transferred :: "int \<Rightarrow> nat \<Rightarrow> nat" where
  "transferred r n = (if n = 0 then 0 else max 1 (min (nat r) n))"

definition preadv :: "file_state \<Rightarrow> mem \<Rightarrow> iovec list \<Rightarrow> nat \<Rightarrow> int \<times> mem \<times> file_state" where
  "preadv s m iov offset =
     (let r = fd_io s (fd_k s); n = transferred r (min (iov_total iov) (fd_len s - offset)) in
      if r < 0 then (-1, m, next_call s)
      else (int n, snd (snd (tcmu_memcpy_into_iovec m iov (mem_read (fd_data s) offset n) n)), next_call s))"

definition pwritev :: "file_state \<Rightarrow> mem \<Rightarrow> iovec list \<Rightarrow> nat \<Rightarrow> int \<times> file_state" where
  "pwritev s m iov offset =
     (let r = fd_io s (fd_k s); n = transferred r (iov_total iov) in
      if r < 0 then (-1, next_call s)
      else (int n, (next_call s)\<lparr>fd_data := mem_write (file_view s) offset (take n (gather m iov)),
                                 fd_len := if n = 0 then fd_len s else max (fd_len s) (offset + n)\<rparr>))"

text \<open>\<open>None\<close>: \<open>remaining\<close> wraps around or the seek leaves the array.\<close>

function file_read_loop ::
  "file_state \<Rightarrow> mem \<Rightarrow> iovec list \<Rightarrow> nat \<Rightarrow> nat \<Rightarrow> (tcmu_sts \<times> mem \<times> iovec list \<times> file_state) option" where
  "file_read_loop s m iov remaining offset =
     (if remaining = 0 then Some (TCMU_STS_OK, m, iov, s)
      else
        case preadv s m iov offset of (ret, m1, s1) \<Rightarrow>
        if ret < 0 then Some (TCMU_STS_RD_ERR, m1, iov, s1)
        else if ret = 0 then Some (TCMU_STS_OK, tcmu_zero_iovec m1 iov, iov, s1)
        else
          case tcmu_seek_in_iovec iov (nat ret) of
            None \<Rightarrow> None
          | Some (c, iov') \<Rightarrow>
              if nat ret > remaining then None
              else file_read_loop s1 m1 iov' (remaining - nat ret) (offset + nat ret))"
  by pat_completeness auto

termination by (relation "measure (\<lambda>(_, _, _, remaining, _). remaining)") auto

function file_write_loop ::
  "file_state \<Rightarrow> mem \<Rightarrow> iovec list \<Rightarrow> nat \<Rightarrow> nat \<Rightarrow> (tcmu_sts \<times> iovec list \<times> file_state) option" where
  "file_write_loop s m iov remaining offset =
     (if remaining = 0 then Some (TCMU_STS_OK, iov, s)
      else
        case pwritev s m iov offset of (ret, s1) \<Rightarrow>
        if ret < 0 then Some (TCMU_STS_WR_ERR, iov, s1)
        else
          case tcmu_seek_in_iovec iov (nat ret) of
            None \<Rightarrow> None
          | Some (c, iov') \<Rightarrow>
              if nat ret > remaining \<or> ret = 0 then None
              else file_write_loop s1 m iov' (remaining - nat ret) (offset + nat ret))"
  by pat_completeness auto

termination by (relation "measure (\<lambda>(_, _, _, remaining, _). remaining)") auto

declare file_read_loop.simps [simp del] file_write_loop.simps [simp del]

definition file_read :: "file_state \<Rightarrow> mem \<Rightarrow> iovec list \<Rightarrow> nat \<Rightarrow> nat \<Rightarrow> (tcmu_sts \<times> mem \<times> iovec list \<times> file_state) option" where
  "file_read s m iov len offset = file_read_loop s m iov len offset"

definition file_write :: "file_state \<Rightarrow> mem \<Rightarrow> iovec list \<Rightarrow> nat \<Rightarrow> nat \<Rightarrow> (tcmu_sts \<times> iovec list \<times> file_state) option" where
  "file_write s m iov len offset = file_write_loop s m iov len offset"

definition file_flush :: "file_state \<Rightarrow> tcmu_sts \<times> file_state" where
  "file_flush s = (if fd_io s (fd_k s) \<noteq> 0 then TCMU_STS_WR_ERR else TCMU_STS_OK, next_call s)"

section \<open>The contract\<close>

text \<open>
  A handler: \<open>h_read s m iov len off\<close> fills the buffers, \<open>h_write\<close> stores their contents,
  \<open>h_unmap s off len\<close> discards, \<open>h_flush\<close> makes durable; the latter two may be missing. Handlers
  may advance the iovecs they are given.
\<close>

record 's handler =
  h_read :: "'s \<Rightarrow> mem \<Rightarrow> iovec list \<Rightarrow> nat \<Rightarrow> nat \<Rightarrow> (tcmu_sts \<times> mem \<times> iovec list \<times> 's) option"
  h_write :: "'s \<Rightarrow> mem \<Rightarrow> iovec list \<Rightarrow> nat \<Rightarrow> nat \<Rightarrow> (tcmu_sts \<times> iovec list \<times> 's) option"
  h_flush :: "('s \<Rightarrow> tcmu_sts \<times> 's) option"
  h_unmap :: "('s \<Rightarrow> nat \<Rightarrow> nat \<Rightarrow> tcmu_sts \<times> 's) option"

definition file_handler :: "file_state handler" where
  "file_handler = \<lparr>h_read = file_read, h_write = file_write, h_flush = Some file_flush, h_unmap = None\<rparr>"

locale backstore =
  fixes h :: "'s handler" and view :: "'s \<Rightarrow> mem"
  assumes read_law: "iovs_disjoint iov \<Longrightarrow> \<exists>ret m' iov' s'. h_read h s m iov (iov_total iov) off = Some (ret, m', iov', s')
      \<and> (ret = TCMU_STS_OK \<longrightarrow> gather m' iov = mem_read (view s) off (iov_total iov))
      \<and> (\<forall>x. x \<notin> set (iov_addrs iov) \<longrightarrow> m' x = m x)
      \<and> view s' = view s \<and> ret \<noteq> TCMU_STS_ASYNC_HANDLED \<and> ret \<noteq> TCMU_STS_NOT_HANDLED"
    and write_law: "\<exists>ret iov' s'. h_write h s m iov (iov_total iov) off = Some (ret, iov', s')
      \<and> (ret = TCMU_STS_OK \<longrightarrow> view s' = mem_write (view s) off (gather m iov))
      \<and> (\<forall>x. x < off \<or> off + iov_total iov \<le> x \<longrightarrow> view s' x = view s x)
      \<and> ret \<noteq> TCMU_STS_ASYNC_HANDLED \<and> ret \<noteq> TCMU_STS_NOT_HANDLED"
begin

text \<open>What was written with success is read back with success or an error is reported.\<close>

lemma write_then_read:
  assumes "h_write h s m iov (iov_total iov) off = Some (TCMU_STS_OK, iov1, s1)" "iovs_disjoint riov"
    and "iov_total riov = iov_total iov" "h_read h s1 m riov (iov_total riov) off = Some (TCMU_STS_OK, m', iov2, s2)"
  shows "gather m' riov = gather m iov"
  using write_law [of s m iov off] read_law [OF assms(2), of s1 m off] assms
    mem_read_write_same [of "view s" off "gather m iov"] by auto

end

section \<open>The file handler satisfies it\<close>

lemma seek_addrs: "tcmu_seek_in_iovec vs count = Some (c, vs') \<Longrightarrow> iov_addrs vs' = drop count (iov_addrs vs)"
proof (induction vs count arbitrary: c vs' rule: tcmu_seek_in_iovec.induct)
  case (2 v vs count)
  then show ?case by (auto split: if_splits option.splits simp: drop_append)
qed (simp split: if_splits)

lemma zero_iovec_at: "tcmu_zero_iovec m vs x = (if x \<in> set (iov_addrs vs) then 0 else m x)"
  by (induction m vs rule: tcmu_zero_iovec.induct) (auto simp: mem_write_def nth_Cons')

lemma gather_zero_iovec: "gather (tcmu_zero_iovec m vs) vs = replicate (iov_total vs) 0"
  by (simp add: gather_addrs zero_iovec_at map_replicate_const cong: map_cong)

lemma file_view_next [simp]: "file_view (next_call s) = file_view s" "fd_len (next_call s) = fd_len s"
  by (simp_all add: next_call_def file_view_def fun_eq_iff)

lemma transferred_le: "transferred r n \<le> n"
  by (simp add: transferred_def)

lemma transferred_0 [simp]: "transferred r n = 0 \<longleftrightarrow> n = 0"
  by (simp add: transferred_def)

lemma preadv_spec:
  assumes "preadv s m iov offset = (ret, m1, s1)" "\<not> ret < 0" "iovs_disjoint iov"
  shows "nat ret \<le> iov_total iov" "ret = 0 \<longleftrightarrow> iov_total iov = 0 \<or> fd_len s \<le> offset"
    and "file_view s1 = file_view s"
    and "gather m1 iov = mem_read (file_view s) offset (nat ret) @ drop (nat ret) (gather m iov)"
    and "x \<notin> set (iov_addrs iov) \<Longrightarrow> m1 x = m x"
proof -
  define n where "n = transferred (fd_io s (fd_k s)) (min (iov_total iov) (fd_len s - offset))"
  obtain c vs m2 where cp2: "tcmu_memcpy_into_iovec m iov (mem_read (fd_data s) offset n) n = (c, vs, m2)"
    by (metis surj_pair)
  then have ret: "ret = int n" "s1 = next_call s" "m1 = m2"
    using assms(1,2) by (auto simp: preadv_def Let_def n_def [symmetric] split: if_splits)
  note cp = cp2 [folded ret(3)]
  have n: "n \<le> iov_total iov" "n \<le> fd_len s - offset"
    using transferred_le [of "fd_io s (fd_k s)" "min (iov_total iov) (fd_len s - offset)"] by (auto simp: n_def)
  have "mem_read (fd_data s) offset n = mem_read (file_view s) offset n"
    using n(2) by (intro mem_read_cong) (auto simp: file_view_def)
  then show "gather m1 iov = mem_read (file_view s) offset (nat ret) @ drop (nat ret) (gather m iov)"
    using sg.copy_in_spec [OF cp _ assms(3)] n(1) ret by simp
  show "x \<notin> set (iov_addrs iov) \<Longrightarrow> m1 x = m x"
    using sg.copy_in_frame [OF cp] by (simp add: set_iov_addrs)
  show "nat ret \<le> iov_total iov" "file_view s1 = file_view s" using n(1) ret by simp_all
  show "ret = 0 \<longleftrightarrow> iov_total iov = 0 \<or> fd_len s \<le> offset" using ret by (auto simp: n_def min_def)
qed

lemma file_read_loop_spec:
  assumes "iovs_disjoint iov" "remaining = iov_total iov"
  shows "\<exists>ret m' iov' s'. file_read_loop s m iov remaining offset = Some (ret, m', iov', s')
      \<and> (ret = TCMU_STS_OK \<longrightarrow> gather m' iov = mem_read (file_view s) offset remaining)
      \<and> (\<forall>x. x \<notin> set (iov_addrs iov) \<longrightarrow> m' x = m x)
      \<and> file_view s' = file_view s \<and> (ret = TCMU_STS_OK \<or> ret = TCMU_STS_RD_ERR)"
  using assms
proof (induction remaining arbitrary: s m iov offset rule: less_induct)
  case (less remaining)
  obtain ret m1 s1 where pr: "preadv s m iov offset = (ret, m1, s1)" by (metis surj_pair)
  consider "remaining = 0" | "remaining \<noteq> 0" "ret < 0" | "remaining \<noteq> 0" "ret = 0" | "remaining \<noteq> 0" "0 < ret"
    by linarith
  then show ?case
  proof cases
    case 1
    then have "gather m iov = []" using less.prems(2) by (metis length_0_conv length_gather)
    then show ?thesis using 1 by (subst file_read_loop.simps) simp
  next
    case 2
    then have "m1 = m" "file_view s1 = file_view s" using pr by (auto simp: preadv_def Let_def split: if_splits)
    then show ?thesis using 2 pr by (subst file_read_loop.simps) simp
  next
    case 3
    note sp = preadv_spec [OF pr _ less.prems(1)]
    have "fd_len s \<le> offset" using sp(2) 3 less.prems(2) by simp
    then have "mem_read (file_view s) offset remaining = replicate remaining 0"
      by (intro nth_equalityI) (auto simp: file_view_def)
    then show ?thesis using 3 pr sp less.prems(2)
      by (subst file_read_loop.simps) (simp add: gather_zero_iovec zero_iovec_at)
  next
    case 4
    define n where "n = nat ret"
    note sp = preadv_spec [OF pr _ less.prems(1), folded n_def]
    have n: "0 < n" "n \<le> remaining" using 4 sp(1) less.prems(2) by (auto simp: n_def)
    then obtain c iov1 where sk: "tcmu_seek_in_iovec iov n = Some (c, iov1)"
      using seek_defined less.prems(2) by metis
    have addrs: "iov_addrs iov1 = drop n (iov_addrs iov)" by (rule seek_addrs [OF sk])
    have "iovs_disjoint iov1" "remaining - n = iov_total iov1"
      using less.prems seek_total [OF sk] by (simp_all add: iovs_disjoint_distinct addrs)
    from less.IH [OF _ this, of s1 m1 "offset + n"] n obtain ret' m' iov' s' where
      rec: "file_read_loop s1 m1 iov1 (remaining - n) (offset + n) = Some (ret', m', iov', s')"
      "ret' = TCMU_STS_OK \<longrightarrow> gather m' iov1 = mem_read (file_view s1) (offset + n) (remaining - n)"
      "\<forall>x. x \<notin> set (iov_addrs iov1) \<longrightarrow> m' x = m1 x" "file_view s' = file_view s1"
      "ret' = TCMU_STS_OK \<or> ret' = TCMU_STS_RD_ERR" by auto
    have run: "file_read_loop s m iov remaining offset = Some (ret', m', iov', s')"
      using 4 pr sk n rec(1) by (subst file_read_loop.simps) (auto simp: n_def)
    have "set (take n (iov_addrs iov)) \<inter> set (drop n (iov_addrs iov)) = {}"
      using less.prems(1) by (simp add: iovs_disjoint_distinct set_take_disj_set_drop_if_distinct)
    then have "map m' (take n (iov_addrs iov)) = map m1 (take n (iov_addrs iov))" using rec(3) addrs by auto
    then have "gather m' iov = take n (gather m1 iov) @ gather m' iov1"
      by (metis addrs append_take_drop_id gather_addrs map_append take_map)
    also have "take n (gather m1 iov) = mem_read (file_view s) offset n" using sp(4) 4 by simp
    finally have "ret' = TCMU_STS_OK \<longrightarrow> gather m' iov = mem_read (file_view s) offset remaining"
      using rec(2) sp(3) 4 n mem_read_split [of n remaining "file_view s" offset] by simp
    moreover have "\<forall>x. x \<notin> set (iov_addrs iov) \<longrightarrow> m' x = m x"
      using rec(3) sp(5) 4 addrs by (auto dest: in_set_dropD)
    ultimately show ?thesis using run rec(4,5) sp(3) 4 by simp
  qed
qed

lemma pwritev_spec:
  assumes "pwritev s m iov offset = (ret, s1)" "\<not> ret < 0"
  shows "nat ret \<le> iov_total iov" "ret = 0 \<longleftrightarrow> iov_total iov = 0"
    and "file_view s1 = mem_write (file_view s) offset (take (nat ret) (gather m iov))"
proof -
  define n where "n = transferred (fd_io s (fd_k s)) (iov_total iov)"
  have n: "n \<le> iov_total iov" by (simp add: n_def transferred_le)
  have ret: "ret = int n" and s1: "s1 = (next_call s)\<lparr>fd_data := mem_write (file_view s) offset (take n (gather m iov)),
      fd_len := if n = 0 then fd_len s else max (fd_len s) (offset + n)\<rparr>"
    using assms by (auto simp: pwritev_def Let_def n_def [symmetric] split: if_splits)
  show "nat ret \<le> iov_total iov" "ret = 0 \<longleftrightarrow> iov_total iov = 0" using n by (auto simp: ret n_def)
  show "file_view s1 = mem_write (file_view s) offset (take (nat ret) (gather m iov))"
  proof
    fix x
    show "file_view s1 x = mem_write (file_view s) offset (take (nat ret) (gather m iov)) x"
      using n by (cases "n = 0") (auto simp: s1 ret file_view_def [of "next_call s\<lparr>fd_data := _, fd_len := _\<rparr>"]
          mem_write_def file_view_def [of s])
  qed
qed

lemma file_write_loop_spec:
  assumes "remaining = iov_total iov"
  shows "\<exists>ret iov' s'. file_write_loop s m iov remaining offset = Some (ret, iov', s')
      \<and> (ret = TCMU_STS_OK \<longrightarrow> file_view s' = mem_write (file_view s) offset (gather m iov))
      \<and> (\<forall>x. x < offset \<or> offset + remaining \<le> x \<longrightarrow> file_view s' x = file_view s x)
      \<and> (ret = TCMU_STS_OK \<or> ret = TCMU_STS_WR_ERR)"
  using assms
proof (induction remaining arbitrary: s iov offset rule: less_induct)
  case (less remaining)
  obtain ret s1 where pw: "pwritev s m iov offset = (ret, s1)" by (metis surj_pair)
  consider "remaining = 0" | "remaining \<noteq> 0" "ret < 0" | "remaining \<noteq> 0" "\<not> ret < 0" by linarith
  then show ?case
  proof cases
    case 1
    then have "gather m iov = []" using less.prems by (metis length_0_conv length_gather)
    then show ?thesis using 1 by (subst file_write_loop.simps) simp
  next
    case 2
    then have "file_view s1 = file_view s" using pw by (auto simp: pwritev_def Let_def split: if_splits)
    then show ?thesis using 2 pw by (subst file_write_loop.simps) simp
  next
    case 3
    define n where "n = nat ret"
    note sp = pwritev_spec [OF pw 3(2), folded n_def]
    have n: "0 < n" "n \<le> remaining" "ret = int n" using 3 sp(1,2) less.prems by (auto simp: n_def)
    then obtain c iov1 where sk: "tcmu_seek_in_iovec iov n = Some (c, iov1)"
      using seek_defined less.prems by metis
    have "remaining - n = iov_total iov1" using less.prems seek_total [OF sk] by simp
    from less.IH [OF _ this, of s1 "offset + n"] n obtain ret' iov' s' where
      rec: "file_write_loop s1 m iov1 (remaining - n) (offset + n) = Some (ret', iov', s')"
      "ret' = TCMU_STS_OK \<longrightarrow> file_view s' = mem_write (file_view s1) (offset + n) (gather m iov1)"
      "\<forall>x. x < offset + n \<or> offset + n + (remaining - n) \<le> x \<longrightarrow> file_view s' x = file_view s1 x"
      "ret' = TCMU_STS_OK \<or> ret' = TCMU_STS_WR_ERR" by auto
    have run: "file_write_loop s m iov remaining offset = Some (ret', iov', s')"
      using 3 pw sk n rec(1) by (subst file_write_loop.simps) auto
    have len: "length (take n (gather m iov)) = n" using n less.prems by simp
    have "ret' = TCMU_STS_OK \<longrightarrow> file_view s' = mem_write (file_view s) offset (gather m iov)"
      using rec(2) sp(3) mem_write_append [of "file_view s" offset "take n (gather m iov)" "gather m iov1"] len
      by (simp add: seek_gather [OF sk])
    moreover have "\<forall>x. x < offset \<or> offset + remaining \<le> x \<longrightarrow> file_view s' x = file_view s x"
      using rec(3) sp(3) n len by (auto simp: mem_write_out)
    ultimately show ?thesis using run rec(4) by simp
  qed
qed

interpretation file_bs: backstore file_handler file_view
proof
  show "\<exists>ret m' iov' s'. h_read file_handler s m iov (iov_total iov) off = Some (ret, m', iov', s')
      \<and> (ret = TCMU_STS_OK \<longrightarrow> gather m' iov = mem_read (file_view s) off (iov_total iov))
      \<and> (\<forall>x. x \<notin> set (iov_addrs iov) \<longrightarrow> m' x = m x)
      \<and> file_view s' = file_view s \<and> ret \<noteq> TCMU_STS_ASYNC_HANDLED \<and> ret \<noteq> TCMU_STS_NOT_HANDLED"
    if "iovs_disjoint iov" for iov s m off
    using file_read_loop_spec [OF that refl, of s m off] by (auto simp: file_handler_def file_read_def)
  show "\<exists>ret iov' s'. h_write file_handler s m iov (iov_total iov) off = Some (ret, iov', s')
      \<and> (ret = TCMU_STS_OK \<longrightarrow> file_view s' = mem_write (file_view s) off (gather m iov))
      \<and> (\<forall>x. x < off \<or> off + iov_total iov \<le> x \<longrightarrow> file_view s' x = file_view s x)
      \<and> ret \<noteq> TCMU_STS_ASYNC_HANDLED \<and> ret \<noteq> TCMU_STS_NOT_HANDLED" for s m iov off
    using file_write_loop_spec [OF refl, of s m iov off] by (auto simp: file_handler_def file_write_def)
qed

text \<open>
  C27: The file handler. A write that reports success has stored exactly its data, and a read of the
  same range that reports success afterwards returns them, through any split into buffers and whatever
  short transfers the kernel makes; both always return.
\<close>
theorem file_write_read:
  assumes "iovs_disjoint riov" "iov_total riov = iov_total wiov"
  shows "\<exists>r1 v1 s1 r2 m' v2 s2. file_write s m wiov (iov_total wiov) off = Some (r1, v1, s1)
    \<and> file_read s1 m riov (iov_total riov) off = Some (r2, m', v2, s2)
    \<and> (r1 = TCMU_STS_OK \<longrightarrow> file_view s1 = mem_write (file_view s) off (gather m wiov))
    \<and> (r1 = TCMU_STS_OK \<and> r2 = TCMU_STS_OK \<longrightarrow> gather m' riov = gather m wiov)
    \<and> file_view s2 = file_view s1"
proof -
  obtain r1 v1 s1 where w: "file_write s m wiov (iov_total wiov) off = Some (r1, v1, s1)"
    "r1 = TCMU_STS_OK \<longrightarrow> file_view s1 = mem_write (file_view s) off (gather m wiov)"
    using file_bs.write_law [of s m wiov off] by (auto simp: file_handler_def)
  obtain r2 m' v2 s2 where r: "file_read s1 m riov (iov_total riov) off = Some (r2, m', v2, s2)" "file_view s2 = file_view s1"
    using file_bs.read_law [OF assms(1), of s1 m off] by (auto simp: file_handler_def)
  show ?thesis
    using w r file_bs.write_then_read [of s m wiov off v1 s1 riov m' v2 s2] assms
    by (auto simp: file_handler_def)
qed

definition short_file :: file_state where
  "short_file = \<lparr>fd_data = (\<lambda>_. 0), fd_len = 0, fd_io = (\<lambda>k. 3), fd_k = 0\<rparr>"

theorem file_write_read_witness:
  "\<exists>r1 v1 s1. file_write short_file (\<lambda>x. of_nat x) [\<lparr>iov_base = 10, iov_len = 5\<rparr>] 5 100 = Some (r1, v1, s1)"
  using file_write_read [of "[\<lparr>iov_base = 50, iov_len = 2\<rparr>, \<lparr>iov_base = 60, iov_len = 3\<rparr>]"
      "[\<lparr>iov_base = 10, iov_len = 5\<rparr>]" short_file "\<lambda>x. of_nat x" 100]
  by (auto simp: iov_range_def)

end
