(* ===== verification/Tcmur_Unmap.thy ===== *)
theory Tcmur_Unmap
  imports Tcmu_Device "HOL-Library.Monad_Syntax"
begin

unbundle bit_operations_syntax

text \<open>
  Range checks and the UNMAP command of \<open>tcmur_cmd_handler.c\<close>. An UNMAP is split into one
  request per granule; each is dispatched to the handler and its callback drops a reference on
  the shared \<open>unmap_state\<close>, the last one completing the command. Dispatching holds the state's
  mutex, so callbacks run after it, in any order.

  \<open>ue_sub k\<close> is the status of submitting the \<open>k\<close>-th request of the command
  (\<open>TCMU_STS_ASYNC_HANDLED\<close> when it was accepted, \<open>TCMU_STS_NO_RESOURCE\<close> when an allocation
  failed, a handler's error otherwise). \<open>None\<close>: a loop that does not end, or an access outside the
  parameter list.
\<close>

section \<open>Range checks\<close>

definition check_iovec_length :: "tcmu_device \<Rightarrow> tcmulib_cmd \<Rightarrow> nat \<Rightarrow> tcmu_sts" where
  "check_iovec_length dev cmd sectors =
     (if tcmu_iovec_length (cmd_iovs cmd) \<noteq> u32 (sectors * tcmu_get_dev_block_size dev)
      then TCMU_STS_HW_ERR else TCMU_STS_OK)"

definition check_lbas :: "tcmu_device \<Rightarrow> nat \<Rightarrow> nat \<Rightarrow> tcmu_sts" where
  "check_lbas dev start_lba lba_cnt =
     (if add64 start_lba lba_cnt > tcmu_get_dev_num_lbas dev \<or> add64 start_lba lba_cnt < start_lba
      then TCMU_STS_RANGE else TCMU_STS_OK)"

text \<open>\<open>None\<close>: the LBA of a CDB of unknown length (an assertion of \<open>tcmu_get_lba\<close>).\<close>

definition check_lba_and_length :: "tcmu_device \<Rightarrow> tcmulib_cmd \<Rightarrow> nat \<Rightarrow> tcmu_sts option" where
  "check_lba_and_length dev cmd sectors =
     (case tcmu_get_lba (cdb cmd) of None \<Rightarrow> None | Some start_lba \<Rightarrow>
        if check_iovec_length dev cmd sectors \<noteq> TCMU_STS_OK then Some (check_iovec_length dev cmd sectors)
        else Some (check_lbas dev start_lba sectors))"

lemma check_lbas_OK:
  assumes "start_lba < 2 ^ 64" "lba_cnt < 2 ^ 64" "num_lbas dev < 2 ^ 64"
  shows "check_lbas dev start_lba lba_cnt = TCMU_STS_OK \<longleftrightarrow> start_lba + lba_cnt \<le> num_lbas dev"
proof (cases "start_lba + lba_cnt < 2 ^ 64")
  case True
  then show ?thesis by (simp add: check_lbas_def add64_id)
next
  case False
  then show ?thesis using assms add64_wraps_iff [OF assms(1,2)] by (simp add: check_lbas_def)
qed

section \<open>UNMAP\<close>

abbreviation (input) VPD_MAX_UNMAP_LBA_COUNT :: nat where "VPD_MAX_UNMAP_LBA_COUNT \<equiv> 33554432"
abbreviation (input) VPD_MAX_UNMAP_BLOCK_DESC_COUNT :: nat where "VPD_MAX_UNMAP_BLOCK_DESC_COUNT \<equiv> 4"

record unmap_state =
  refcount :: nat
  u_error :: bool
  u_status :: tcmu_sts

record unmap_env =
  ue_par :: bool
  ue_state :: tcmu_sts
  ue_sub :: "nat \<Rightarrow> tcmu_sts"

text \<open>The loop of \<open>align_and_split_unmap\<close>; the dispatched requests as offset and length in bytes.\<close>

partial_function (option) unmap_split_loop ::
  "(nat \<Rightarrow> tcmu_sts) \<Rightarrow> nat \<Rightarrow> nat \<Rightarrow> nat \<Rightarrow> nat \<Rightarrow> nat \<Rightarrow> nat \<Rightarrow> tcmu_sts \<Rightarrow> (tcmu_sts \<times> (nat \<times> nat) list) option" where
  "unmap_split_loop sub bsize gran lba nlbas lbas k ret =
     (if nlbas = 0 then Some (ret, [])
      else if sub k \<noteq> TCMU_STS_ASYNC_HANDLED then Some (sub k, [])
      else do {
        (r, ps) \<leftarrow> unmap_split_loop sub bsize gran (add64 lba lbas) (sub64 nlbas lbas)
                    (min gran (sub64 nlbas lbas)) (k + 1) TCMU_STS_ASYNC_HANDLED;
        Some (r, (mul64 lba bsize, mul64 lbas bsize) # ps)
      })"

definition lba_and_mask :: "nat \<Rightarrow> nat \<Rightarrow> nat" where
  "lba_and_mask lba align = unat ((of_nat lba :: 64 word) AND (of_nat align - 1))"

definition align_and_split_unmap ::
  "(nat \<Rightarrow> tcmu_sts) \<Rightarrow> tcmu_device \<Rightarrow> nat \<Rightarrow> nat \<Rightarrow> nat \<Rightarrow> (tcmu_sts \<times> (nat \<times> nat) list) option" where
  "align_and_split_unmap sub dev lba nlbas k =
     (let gran = tcmu_get_dev_opt_unmap_gran dev;
          lbas = min (sub64 gran (lba_and_mask lba (tcmu_get_dev_unmap_gran_align dev))) nlbas
      in unmap_split_loop sub (tcmu_get_dev_block_size dev) gran lba nlbas lbas k TCMU_STS_NOT_HANDLED)"

text \<open>The descriptors of the parameter list: \<open>n\<close> left at \<open>offset\<close> behind the header, \<open>k\<close> requests so far.\<close>

fun unmap_descs ::
  "(nat \<Rightarrow> tcmu_sts) \<Rightarrow> tcmu_device \<Rightarrow> byte list \<Rightarrow> nat \<Rightarrow> nat \<Rightarrow> nat \<Rightarrow> tcmu_sts \<Rightarrow> (tcmu_sts \<times> (nat \<times> nat) list) option" where
  "unmap_descs sub dev par offset 0 k ret = Some (ret, [])"
| "unmap_descs sub dev par offset (Suc n) k ret =
     (if 8 + offset + 12 > length par then None
      else
        let lba = be_dec (buf_get par (8 + offset) 8);
            nlbas = be_dec (buf_get par (8 + offset + 8) 4)
        in
        if nlbas > VPD_MAX_UNMAP_LBA_COUNT then Some (TCMU_STS_INVALID_PARAM_LIST, [])
        else if check_lbas dev lba nlbas \<noteq> TCMU_STS_OK then Some (check_lbas dev lba nlbas, [])
        else if nlbas = 0 then unmap_descs sub dev par (offset + 16) n k TCMU_STS_OK
        else do {
          (r, ps) \<leftarrow> align_and_split_unmap sub dev lba nlbas k;
          if r \<noteq> TCMU_STS_ASYNC_HANDLED then Some (r, ps)
          else do {
            (r', qs) \<leftarrow> unmap_descs sub dev par (offset + 16) n (k + length ps) TCMU_STS_ASYNC_HANDLED;
            Some (r', ps @ qs)
          }
        })"

text \<open>The status returned, the requests dispatched and the state that their callbacks share.\<close>

definition handle_unmap_internal ::
  "(nat \<Rightarrow> tcmu_sts) \<Rightarrow> tcmu_device \<Rightarrow> nat \<Rightarrow> byte list \<Rightarrow> (tcmu_sts \<times> (nat \<times> nat) list \<times> unmap_state option) option" where
  "handle_unmap_internal sub dev bddl par = do {
     (ret, ps) \<leftarrow> unmap_descs sub dev par 0 (bddl div 16) 0 TCMU_STS_OK;
     let st = \<lparr>refcount = length ps, u_error = (ret \<noteq> TCMU_STS_ASYNC_HANDLED), u_status = ret\<rparr>;
     if refcount st \<noteq> 0 then Some (TCMU_STS_ASYNC_HANDLED, ps, Some st) else Some (ret, ps, None)
   }"

definition handle_unmap ::
  "unmap_env \<Rightarrow> mem \<Rightarrow> tcmu_device \<Rightarrow> tcmulib_cmd \<Rightarrow> (tcmu_sts \<times> (nat \<times> nat) list \<times> unmap_state option) option" where
  "handle_unmap env m dev cmd = do {
     data_length \<leftarrow> tcmu_get_xfer_length (cdb cmd);
     if cdb cmd 1 AND 0x01 \<noteq> 0 then Some (TCMU_STS_INVALID_CDB, [], None)
     else if data_length = 0 then Some (TCMU_STS_OK, [], None)
     else if data_length < 8 then Some (TCMU_STS_INVALID_PARAM_LIST_LEN, [], None)
     else if \<not> ue_par env then Some (TCMU_STS_NO_RESOURCE, [], None)
     else
       (case tcmu_memcpy_from_iovec m (replicate data_length 0) data_length (cmd_iovs cmd) of (copied, par, vs) \<Rightarrow>
        if copied \<noteq> data_length then Some (TCMU_STS_INVALID_PARAM_LIST_LEN, [], None)
        else
          let bddl = be_dec (buf_get par 2 2) - be_dec (buf_get par 2 2) mod 16 in
          if bddl = 0 then Some (TCMU_STS_OK, [], None)
          else if bddl div 16 > VPD_MAX_UNMAP_BLOCK_DESC_COUNT then Some (TCMU_STS_INVALID_PARAM_LIST, [], None)
          else if ue_state env \<noteq> TCMU_STS_OK then Some (ue_state env, [], None)
          else handle_unmap_internal (ue_sub env) dev bddl par)
   }"

text \<open>
  The callback of one request: the state after it and, from the last one, the status that completes
  the command.
\<close>

definition handle_unmap_cbk :: "unmap_state \<Rightarrow> tcmu_sts \<Rightarrow> unmap_state \<times> tcmu_sts option" where
  "handle_unmap_cbk state ret =
     (let s1 = (if \<not> u_error state \<and> ret \<noteq> TCMU_STS_OK then state\<lparr>u_error := True, u_status := ret\<rparr> else state);
          s2 = s1\<lparr>refcount := sub32 (refcount s1) 1\<rparr>
      in if refcount s2 > 0 then (s2, None) else (s2, Some (if u_error s2 then u_status s2 else ret)))"

text \<open>The callbacks in the order in which the requests end; after the last the state is freed.\<close>

fun unmap_callbacks :: "unmap_state option \<Rightarrow> tcmu_sts list \<Rightarrow> tcmu_sts list option" where
  "unmap_callbacks st [] = Some []"
| "unmap_callbacks None (r # rs) = None"
| "unmap_callbacks (Some st) (r # rs) =
     (case handle_unmap_cbk st r of
        (st', None) \<Rightarrow> unmap_callbacks (Some st') rs
      | (st', Some s) \<Rightarrow> map_option ((#) s) (unmap_callbacks None rs))"

section \<open>Splitting\<close>

text \<open>What splitting is meant to do: cut the range at the multiples of the granularity.\<close>

function unmap_pieces :: "nat \<Rightarrow> nat \<Rightarrow> nat \<Rightarrow> (nat \<times> nat) list" where
  "unmap_pieces gran lba n =
     (if n = 0 \<or> gran = 0 then []
      else let l = min (gran - lba mod gran) n in (lba, l) # unmap_pieces gran (lba + l) (n - l))"
  by pat_completeness auto

termination by (relation "measure (\<lambda>(_, _, n). n)") auto

declare unmap_pieces.simps [simp del]

lemma unmap_pieces_cover:
  "0 < gran \<Longrightarrow> concat (map (\<lambda>(a, l). [a ..< a + l]) (unmap_pieces gran lba n)) = [lba ..< lba + n]"
proof (induction gran lba n rule: unmap_pieces.induct)
  case (1 gran lba n)
  show ?case
  proof (cases "n = 0")
    case True then show ?thesis by (simp add: unmap_pieces.simps)
  next
    case False
    define l where "l = min (gran - lba mod gran) n"
    have le: "l \<le> n" by (simp add: l_def)
    have "[lba ..< lba + n] = [lba ..< lba + l] @ [lba + l ..< lba + n]"
      using upt_add_eq_append [of lba "lba + l" "n - l"] le by simp
    then show ?thesis using 1(1) [OF _ l_def] 1(2) False le
      by (subst unmap_pieces.simps) (simp add: Let_def l_def [symmetric])
  qed
qed

lemma unmap_pieces_granule:
  "(a, l) \<in> set (unmap_pieces gran lba n) \<Longrightarrow> 0 < l \<and> a div gran = (a + l - 1) div gran"
proof (induction gran lba n rule: unmap_pieces.induct)
  case (1 gran lba n)
  then have pos: "n \<noteq> 0" "gran \<noteq> 0" by (auto simp: unmap_pieces.simps split: if_splits)
  define k where "k = min (gran - lba mod gran) n"
  have ev: "unmap_pieces gran lba n = (lba, k) # unmap_pieces gran (lba + k) (n - k)"
    using pos by (subst unmap_pieces.simps) (simp add: Let_def k_def)
  show ?case
  proof (cases "(a, l) = (lba, k)")
    case True
    have k: "0 < k" "lba mod gran + k - 1 < gran"
      using pos mod_less_divisor [of gran lba] unfolding k_def by linarith+
    have "lba + k - 1 = (lba mod gran + k - 1) + lba div gran * gran" using k(1) by simp
    then have "(lba + k - 1) div gran = (lba mod gran + k - 1) div gran + lba div gran"
      using pos(2) by (metis div_mult_self1 mult.commute add.commute)
    then have "(lba + k - 1) div gran = lba div gran" using k(2) by simp
    then show ?thesis using True k by simp
  next
    case False
    then show ?thesis using 1 ev pos k_def by auto
  qed
qed

lemma lba_and_mask_mod:
  assumes "lba < 2 ^ 64" "j \<le> 32"
  shows "lba_and_mask lba (2 ^ j) = lba mod 2 ^ j"
proof -
  have "(of_nat (2 ^ j) :: 64 word) - 1 = mask j" by (simp add: mask_eq_decr_exp)
  then have "lba_and_mask lba (2 ^ j) = unat (take_bit j (of_nat lba :: 64 word))"
    by (simp only: lba_and_mask_def take_bit_eq_mask)
  also have "\<dots> = take_bit j (unat (of_nat lba :: 64 word))" by (simp add: unsigned_take_bit_eq)
  also have "unat (of_nat lba :: 64 word) = lba" using assms(1) by (simp add: unat_of_nat)
  finally show ?thesis by (simp add: take_bit_eq_mod)
qed

lemma next_granule:
  fixes gran :: nat
  assumes "0 < gran" "l = min (gran - lba mod gran) n" "l < n"
  shows "(lba + l) mod gran = 0"
proof -
  have "l = gran - lba mod gran" using assms by (simp add: min_def split: if_splits)
  then have "l + lba mod gran = gran" using mod_less_divisor [OF assms(1), of lba] by linarith
  then have "lba + l = (lba div gran + 1) * gran"
    using div_mult_mod_eq [of lba gran] unfolding distrib_right mult_1 by linarith
  then show ?thesis by simp
qed

lemma split_loop_pieces:
  assumes "0 < gran" "lba + n \<le> N" "N * bs < 2 ^ 64" "0 < bs" "\<forall>i. sub i = TCMU_STS_ASYNC_HANDLED"
    and "n \<noteq> 0 \<longrightarrow> lbas = min (gran - lba mod gran) n"
  shows "unmap_split_loop sub bs gran lba n lbas k ret =
    Some (if n = 0 then ret else TCMU_STS_ASYNC_HANDLED, map (\<lambda>(a, l). (a * bs, l * bs)) (unmap_pieces gran lba n))"
  using assms
proof (induction n arbitrary: lba lbas k ret rule: less_induct)
  case (less n)
  show ?case
  proof (cases "n = 0")
    case True
    then show ?thesis by (subst unmap_split_loop.simps) (simp add: unmap_pieces.simps)
  next
    case False
    then have l: "lbas = min (gran - lba mod gran) n" using less.prems by simp
    then have pos: "0 < lbas" "lbas \<le> n" using False less.prems(1) by auto
    have "N \<le> N * bs" using less.prems(4) by simp
    then have N: "N < 2 ^ 64" using less.prems(3) by linarith
    have nat_ops: "add64 lba lbas = lba + lbas" "sub64 n lbas = n - lbas"
      using pos less.prems(2) N by (simp_all add: add64_id sub64_id)
    have "lba * bs \<le> N * bs" "lbas * bs \<le> N * bs" using less.prems(2) pos by (simp_all add: mult_le_mono1)
    then have mul: "mul64 lba bs = lba * bs" "mul64 lbas bs = lbas * bs"
      using less.prems(3) mul64_id by (metis le_less_trans)+
    have nxt: "n - lbas \<noteq> 0 \<longrightarrow> min gran (n - lbas) = min (gran - (lba + lbas) mod gran) (n - lbas)"
      using next_granule [OF less.prems(1) l] by simp
    have rec: "unmap_split_loop sub bs gran (lba + lbas) (n - lbas) (min gran (n - lbas)) (k + 1) TCMU_STS_ASYNC_HANDLED =
        Some (TCMU_STS_ASYNC_HANDLED, map (\<lambda>(a, l). (a * bs, l * bs)) (unmap_pieces gran (lba + lbas) (n - lbas)))"
      using less.IH [OF _ less.prems(1) _ less.prems(3-5) nxt] pos less.prems(2) by simp
    have "unmap_pieces gran lba n = (lba, lbas) # unmap_pieces gran (lba + lbas) (n - lbas)"
      using False less.prems(1) by (subst unmap_pieces.simps) (simp add: Let_def l)
    then show ?thesis using False less.prems(5) rec
      by (subst unmap_split_loop.simps) (simp add: nat_ops mul)
  qed
qed

text \<open>A device whose granularity and alignment agree and are a power of two, as the code assumes.\<close>

definition unmap_dev :: "tcmu_device \<Rightarrow> bool" where
  "unmap_dev dev \<longleftrightarrow> (\<exists>j \<le> 31. opt_unmap_gran dev = 2 ^ j) \<and> unmap_gran_align dev = opt_unmap_gran dev
     \<and> 0 < block_size dev \<and> num_lbas dev * block_size dev < 2 ^ 64"

definition unmap_requests :: "tcmu_device \<Rightarrow> nat \<Rightarrow> nat \<Rightarrow> (nat \<times> nat) list" where
  "unmap_requests dev lba n = map (\<lambda>(a, l). (a * block_size dev, l * block_size dev)) (unmap_pieces (opt_unmap_gran dev) lba n)"

lemma unmap_dev_lbas: "unmap_dev dev \<Longrightarrow> num_lbas dev < 2 ^ 64"
proof -
  assume "unmap_dev dev"
  then have "num_lbas dev \<le> num_lbas dev * block_size dev" "num_lbas dev * block_size dev < 2 ^ 64"
    by (auto simp: unmap_dev_def)
  then show ?thesis by linarith
qed

lemma split_unmap_pieces:
  assumes "unmap_dev dev" "lba + n \<le> num_lbas dev" "\<forall>i. sub i = TCMU_STS_ASYNC_HANDLED" "0 < n"
  shows "align_and_split_unmap sub dev lba n k = Some (TCMU_STS_ASYNC_HANDLED, unmap_requests dev lba n)"
proof -
  obtain j where j: "j \<le> 31" "opt_unmap_gran dev = 2 ^ j" "unmap_gran_align dev = 2 ^ j"
    using assms(1) by (auto simp: unmap_dev_def)
  have dev: "0 < block_size dev" "num_lbas dev * block_size dev < 2 ^ 64" using assms(1) by (auto simp: unmap_dev_def)
  have "lba < 2 ^ 64" using unmap_dev_lbas [OF assms(1)] assms(2) by linarith
  then have "lba_and_mask lba (2 ^ j) = lba mod 2 ^ j" using j(1) by (intro lba_and_mask_mod) auto
  moreover have "(2::nat) ^ j < 2 ^ 64" using j(1) by (intro power_strict_increasing) auto
  moreover have "lba mod 2 ^ j < 2 ^ j" by simp
  ultimately have first: "sub64 (2 ^ j) (lba_and_mask lba (2 ^ j)) = 2 ^ j - lba mod 2 ^ j"
    using sub64_id [of "lba mod 2 ^ j" "2 ^ j"] by simp
  show ?thesis
    using split_loop_pieces [of "2 ^ j" lba n "num_lbas dev" "block_size dev" sub _ k TCMU_STS_NOT_HANDLED] assms dev j
    by (simp add: align_and_split_unmap_def Let_def first unmap_requests_def)
qed

text \<open>
  C14: \<open>align_and_split_unmap\<close> equals the reference splitting: when every request is accepted, it
  dispatches, in order, the pieces of the range cut at the multiples of the granularity. They cover every
  block of the range exactly once and nothing else, and none crosses a granule.
\<close>
theorem split_unmap_correct:
  assumes "unmap_dev dev" "lba + n \<le> num_lbas dev" "\<forall>i. sub i = TCMU_STS_ASYNC_HANDLED" "0 < n"
  shows "\<exists>ps. align_and_split_unmap sub dev lba n k =
      Some (TCMU_STS_ASYNC_HANDLED, map (\<lambda>(a, l). (a * block_size dev, l * block_size dev)) ps)
    \<and> concat (map (\<lambda>(a, l). [a ..< a + l]) ps) = [lba ..< lba + n]
    \<and> list_all (\<lambda>(a, l). 0 < l \<and> a div opt_unmap_gran dev = (a + l - 1) div opt_unmap_gran dev) ps"
proof -
  have "0 < opt_unmap_gran dev" using assms(1) by (auto simp: unmap_dev_def)
  then show ?thesis
    using split_unmap_pieces [OF assms, of k] unmap_pieces_cover unmap_pieces_granule
    by (intro exI [of _ "unmap_pieces (opt_unmap_gran dev) lba n"]) (auto simp: unmap_requests_def list_all_iff)
qed

definition thin_dev :: tcmu_device where
  "thin_dev = \<lparr>cmd_tail = 0, num_lbas = 4096, block_size = 512, max_xfer_len = 128, opt_unmap_gran = 8,
     unmap_gran_align = 8, write_cache_enabled = True, solid_state_media = False, tcm_hba_name = [],
     tcm_dev_name = [], cfgstring = []\<rparr>"

lemma thin_dev_unmap: "unmap_dev thin_dev"
  unfolding unmap_dev_def by (auto simp: thin_dev_def intro!: exI [of _ 3])

theorem split_unmap_correct_witness:
  "\<exists>ps. align_and_split_unmap (\<lambda>_. TCMU_STS_ASYNC_HANDLED) thin_dev 5 20 0 =
      Some (TCMU_STS_ASYNC_HANDLED, map (\<lambda>(a, l). (a * 512, l * 512)) ps)
    \<and> concat (map (\<lambda>(a, l). [a ..< a + l]) ps) = [5 ..< 25]"
proof -
  have "5 + 20 \<le> num_lbas thin_dev" by (simp add: thin_dev_def)
  from split_unmap_correct [OF thin_dev_unmap this, of "\<lambda>_. TCMU_STS_ASYNC_HANDLED" 0] show ?thesis
    by (auto simp: thin_dev_def)
qed

section \<open>Completion\<close>

definition unmap_final :: "unmap_state \<Rightarrow> tcmu_sts list \<Rightarrow> tcmu_sts" where
  "unmap_final st rs = (if u_error st then u_status st
     else case find (\<lambda>r. r \<noteq> TCMU_STS_OK) rs of None \<Rightarrow> TCMU_STS_OK | Some r \<Rightarrow> r)"

lemma unmap_callbacks_run:
  assumes "refcount st = length rs" "rs \<noteq> []" "length rs < 2 ^ 32"
  shows "unmap_callbacks (Some st) rs = Some [unmap_final st rs]"
  using assms
proof (induction rs arbitrary: st)
  case (Cons r rs)
  have dec: "sub32 (refcount st) 1 = length rs" using Cons.prems by (simp add: sub32_id)
  show ?case
  proof (cases "rs = []")
    case True
    then show ?thesis using dec by (simp add: handle_unmap_cbk_def Let_def unmap_final_def)
  next
    case False
    let ?st = "(if \<not> u_error st \<and> r \<noteq> TCMU_STS_OK then st\<lparr>u_error := True, u_status := r\<rparr> else st)\<lparr>refcount := length rs\<rparr>"
    have "handle_unmap_cbk st r = (?st, None)"
      using False dec by (simp add: handle_unmap_cbk_def Let_def)
    moreover have "unmap_callbacks (Some ?st) rs = Some [unmap_final ?st rs]"
      using Cons.IH [of ?st] False Cons.prems(3) by simp
    ultimately show ?thesis by (simp add: unmap_final_def)
  qed
qed simp

lemma split_loop_async_pieces:
  assumes "n \<noteq> 0" "unmap_split_loop sub bs gran lba n lbas k ret = Some (TCMU_STS_ASYNC_HANDLED, ps)"
  shows "ps \<noteq> []"
  using assms by (subst (asm) unmap_split_loop.simps) (auto split: if_splits bind_splits)

lemma split_async_pieces:
  "n \<noteq> 0 \<Longrightarrow> align_and_split_unmap sub dev lba n k \<noteq> Some (TCMU_STS_ASYNC_HANDLED, [])"
  using split_loop_async_pieces [of n sub _ _ lba _ k _ "[]"] by (auto simp: align_and_split_unmap_def Let_def)

lemma unmap_descs_async_pieces:
  "unmap_descs sub dev par offset n k ret = Some (TCMU_STS_ASYNC_HANDLED, ps) \<Longrightarrow>
   ret = TCMU_STS_ASYNC_HANDLED \<or> ps \<noteq> []"
proof (induction sub dev par offset n k ret arbitrary: ps rule: unmap_descs.induct)
  case (2 sub dev par offset n k ret)
  then show ?case
    by (auto simp: Let_def check_lbas_def split_async_pieces split: if_splits bind_splits)
qed simp

lemma unmap_internal_once:
  assumes "handle_unmap_internal sub dev bddl par = Some (ret, ps, st)"
  shows "if ret = TCMU_STS_ASYNC_HANDLED then ps \<noteq> [] \<and> (\<exists>s. st = Some s \<and> refcount s = length ps) else ps = []"
  using assms unmap_descs_async_pieces [of sub dev par 0 "bddl div 16" 0 TCMU_STS_OK]
  by (auto simp: handle_unmap_internal_def Let_def split: bind_splits if_splits)

section \<open>Whole commands\<close>

text \<open>The parameter list of SBC for a list of ranges.\<close>

definition unmap_desc :: "nat \<times> nat \<Rightarrow> byte list" where
  "unmap_desc d = be_enc 8 (fst d) @ be_enc 4 (snd d) @ replicate 4 0"

definition unmap_list :: "(nat \<times> nat) list \<Rightarrow> byte list" where
  "unmap_list ds = be_enc 2 (16 * length ds + 6) @ be_enc 2 (16 * length ds) @ replicate 4 0 @ concat (map unmap_desc ds)"

definition unmap_range_ok :: "tcmu_device \<Rightarrow> nat \<times> nat \<Rightarrow> bool" where
  "unmap_range_ok dev d \<longleftrightarrow> snd d \<le> VPD_MAX_UNMAP_LBA_COUNT \<and> fst d + snd d \<le> num_lbas dev"

lemma length_unmap_desc [simp]: "length (unmap_desc d) = 16"
  by (simp add: unmap_desc_def)

lemma length_unmap_descs [simp]: "length (concat (map unmap_desc ds)) = 16 * length ds"
  by (induction ds) auto

lemma length_unmap_list [simp]: "length (unmap_list ds) = 8 + 16 * length ds"
  by (simp add: unmap_list_def)

lemma unmap_descs_run:
  assumes "unmap_dev dev" "\<forall>i. sub i = TCMU_STS_ASYNC_HANDLED" "list_all (unmap_range_ok dev) ds"
    and "length pre = 8 + offset"
  shows "unmap_descs sub dev (pre @ concat (map unmap_desc ds)) offset (length ds) k ret =
    Some (if ds = [] then ret else if snd (last ds) = 0 then TCMU_STS_OK else TCMU_STS_ASYNC_HANDLED,
          concat (map (\<lambda>d. unmap_requests dev (fst d) (snd d)) ds))"
  using assms(3,4)
proof (induction ds arbitrary: pre offset k ret)
  case (Cons d ds)
  obtain lba n where d: "d = (lba, n)" by (cases d)
  let ?par = "pre @ concat (map unmap_desc (d # ds))"
  have ok: "n \<le> VPD_MAX_UNMAP_LBA_COUNT" "lba + n \<le> num_lbas dev" using Cons.prems(1) by (simp_all add: d unmap_range_ok_def)
  have lim: "num_lbas dev < 2 ^ 64" by (rule unmap_dev_lbas [OF assms(1)])
  then have lt: "lba < 256 ^ 8" "n < 256 ^ 4" using ok by simp_all
  have "buf_get ?par (8 + offset) 8 = be_enc 8 lba" "buf_get ?par (8 + offset + 8) 4 = be_enc 4 n"
    using Cons.prems(2) by (simp_all add: buf_get_def d unmap_desc_def)
  then have fields: "be_dec (buf_get ?par (8 + offset) 8) = lba" "be_dec (buf_get ?par (8 + offset + 8) 4) = n"
    using lt by (simp_all add: be64.dec_enc be32.dec_enc)
  have chk: "check_lbas dev lba n = TCMU_STS_OK"
    using check_lbas_OK [of lba n dev] ok lim lt by simp
  have len: "\<not> 8 + offset + 12 > length ?par" using Cons.prems(2) by simp
  have IH: "unmap_descs sub dev ?par (offset + 16) (length ds) k' ret' =
    Some (if ds = [] then ret' else if snd (last ds) = 0 then TCMU_STS_OK else TCMU_STS_ASYNC_HANDLED,
          concat (map (\<lambda>d. unmap_requests dev (fst d) (snd d)) ds))" for k' ret'
    using Cons.IH [of "pre @ unmap_desc d" "offset + 16" k' ret'] Cons.prems by simp
  have zero: "unmap_requests dev lba 0 = []" by (simp add: unmap_requests_def unmap_pieces.simps)
  show ?case
  proof (cases "n = 0")
    case True
    then show ?thesis
      using IH chk fields len zero by (simp only: length_Cons unmap_descs.simps Let_def) (simp add: d)
  next
    case False
    then have "align_and_split_unmap sub dev lba n k = Some (TCMU_STS_ASYNC_HANDLED, unmap_requests dev lba n)"
      using split_unmap_pieces [OF assms(1) ok(2) assms(2)] by simp
    then show ?thesis using False ok IH chk fields len
      by (simp only: length_Cons unmap_descs.simps Let_def) (simp add: d)
  qed
qed simp

lemma handle_unmap_run:
  assumes "unmap_dev dev" "\<forall>i. ue_sub env i = TCMU_STS_ASYNC_HANDLED" "ue_par env" "ue_state env = TCMU_STS_OK"
    and "list_all (unmap_range_ok dev) ds" "ds \<noteq> []" "length ds \<le> VPD_MAX_UNMAP_BLOCK_DESC_COUNT"
    and "cdb cmd 1 AND 0x01 = 0" "tcmu_get_xfer_length (cdb cmd) = Some (8 + 16 * length ds)"
    and "gather m (cmd_iovs cmd) = unmap_list ds"
  shows "let ps = concat (map (\<lambda>d. unmap_requests dev (fst d) (snd d)) ds);
             empty_last = (snd (last ds) = 0)
    in handle_unmap env m dev cmd =
       (if ps = [] then Some (TCMU_STS_OK, [], None)
        else Some (TCMU_STS_ASYNC_HANDLED, ps,
               Some \<lparr>refcount = length ps, u_error = empty_last,
                     u_status = if empty_last then TCMU_STS_OK else TCMU_STS_ASYNC_HANDLED\<rparr>))"
proof -
  let ?n = "8 + 16 * length ds"
  let ?ps = "concat (map (\<lambda>d. unmap_requests dev (fst d) (snd d)) ds)"
  obtain c d vs where cp: "tcmu_memcpy_from_iovec m (replicate ?n 0) ?n (cmd_iovs cmd) = (c, d, vs)"
    by (metis surj_pair)
  have tot: "iov_total (cmd_iovs cmd) = ?n"
    using assms(10) length_gather [of m "cmd_iovs cmd"] by simp
  have cd: "c = ?n" "d = unmap_list ds"
    using sg.copy_out_spec [OF cp] assms(10) tot by simp_all
  have "buf_get d 2 2 = be_enc 2 (16 * length ds)" by (simp add: cd unmap_list_def buf_get_def)
  then have bddl: "be_dec (buf_get d 2 2) = 16 * length ds" using assms(7) by (simp add: be16.dec_enc)
  have ne: "\<exists>x xs. unmap_requests dev lba n = x # xs" if "0 < n" for lba n
  proof -
    have "opt_unmap_gran dev \<noteq> 0" using assms(1) by (auto simp: unmap_dev_def)
    then show ?thesis using that by (subst unmap_requests_def, subst unmap_pieces.simps) (simp add: Let_def)
  qed
  have "?ps = [] \<longrightarrow> snd (last ds) = 0"
    using assms(6) ne [of "snd (last ds)" "fst (last ds)"] last_in_set [of ds] by fastforce
  moreover have "unmap_descs (ue_sub env) dev d 0 (length ds) 0 TCMU_STS_OK =
      Some (if snd (last ds) = 0 then TCMU_STS_OK else TCMU_STS_ASYNC_HANDLED, ?ps)"
    using unmap_descs_run [OF assms(1,2,5), of "take 8 (unmap_list ds)" 0 0 TCMU_STS_OK] assms(6)
    by (simp add: cd unmap_list_def)
  moreover have "handle_unmap env m dev cmd = handle_unmap_internal (ue_sub env) dev (16 * length ds) d"
    using assms(3,4,6-9) cp cd(1) bddl by (simp add: handle_unmap_def Let_def)
  ultimately show ?thesis by (simp add: handle_unmap_internal_def Let_def)
qed

definition unmap_cmd :: "byte list \<Rightarrow> nat \<Rightarrow> tcmulib_cmd" where
  "unmap_cmd c n = \<lparr>cmd_id = 0, cdb = cdb_of c, iovec = [\<lparr>iov_base = 1000, iov_len = n\<rparr>], iov_cnt = 1,
     sense_buf = replicate 96 0\<rparr>"

definition unmap_mem :: "(nat \<times> nat) list \<Rightarrow> mem" where
  "unmap_mem ds = mem_write (\<lambda>_. 0) 1000 (unmap_list ds)"

definition willing_env :: unmap_env where
  "willing_env = \<lparr>ue_par = True, ue_state = TCMU_STS_OK, ue_sub = (\<lambda>_. TCMU_STS_ASYNC_HANDLED)\<rparr>"

lemma unmap_cmd_length: "tcmu_get_xfer_length (cdb (unmap_cmd [0x42, 0, 0, 0, 0, 0, 0, 0, n, 0] k)) = Some (unat n)"
proof -
  have "cdb_be c 7 2 = unat (c 7) * 256 + unat (c 8)" for c
    by (simp add: cdb_be_def upt_conv_Cons be_dec_def)
  then show ?thesis
    by (simp add: unmap_cmd_def tcmu_get_xfer_length_def tcmu_get_cdb_length_def cdb_of_def)
qed

lemma unmap_sample:
  "handle_unmap willing_env (unmap_mem [(5, 20), (100, 0)]) thin_dev (unmap_cmd [0x42, 0, 0, 0, 0, 0, 0, 0, 40, 0] 40) =
     Some (TCMU_STS_ASYNC_HANDLED, [(2560, 1536), (4096, 4096), (8192, 4096), (12288, 512)],
           Some \<lparr>refcount = 4, u_error = True, u_status = TCMU_STS_OK\<rparr>)"
  (is "handle_unmap _ _ _ ?cmd = _")
proof -
  have "gather (unmap_mem [(5, 20), (100, 0)]) (cmd_iovs ?cmd) = unmap_list [(5, 20), (100, 0)]"
    using mem_read_write_same [of "\<lambda>_. 0" 1000 "unmap_list [(5, 20), (100, 0)]"]
    by (simp add: unmap_cmd_def cmd_iovs_def unmap_mem_def)
  moreover have "tcmu_get_xfer_length (cdb ?cmd) = Some 40" "cdb ?cmd 1 AND 0x01 = 0"
    by (simp_all add: unmap_cmd_length) (simp add: unmap_cmd_def cdb_of_def)
  moreover have "unmap_requests thin_dev 5 20 = [(2560, 1536), (4096, 4096), (8192, 4096), (12288, 512)]"
    by (simp add: unmap_requests_def thin_dev_def unmap_pieces.simps Let_def)
  moreover have "unmap_requests thin_dev 100 0 = []" by (simp add: unmap_requests_def unmap_pieces.simps)
  ultimately show ?thesis
    using handle_unmap_run [OF thin_dev_unmap, of willing_env "[(5, 20), (100, 0)]" ?cmd "unmap_mem [(5, 20), (100, 0)]"]
    by (simp add: willing_env_def unmap_range_ok_def thin_dev_def Let_def)
qed

text \<open>
  C13: UNMAP as a whole. For a parameter list that encodes at most four ranges inside the device,
  \<open>handle_unmap\<close> dispatches, when every submission succeeds, exactly the requests that split these ranges;
  with nothing to unmap it returns success at once. The shared state counts the requests, but it is
  already marked as failed with status success when the last range is empty, so errors of the requests of
  the other ranges are not reported.
\<close>
theorem handle_unmap_correct:
  assumes "unmap_dev dev" "\<forall>i. ue_sub env i = TCMU_STS_ASYNC_HANDLED" "ue_par env" "ue_state env = TCMU_STS_OK"
    and "list_all (unmap_range_ok dev) ds" "ds \<noteq> []" "length ds \<le> VPD_MAX_UNMAP_BLOCK_DESC_COUNT"
    and "cdb cmd 1 AND 0x01 = 0" "tcmu_get_xfer_length (cdb cmd) = Some (8 + 16 * length ds)"
    and "gather m (cmd_iovs cmd) = unmap_list ds"
  shows "let ps = concat (map (\<lambda>d. unmap_requests dev (fst d) (snd d)) ds);
             empty_last = (snd (last ds) = 0)
    in handle_unmap env m dev cmd =
       (if ps = [] then Some (TCMU_STS_OK, [], None)
        else Some (TCMU_STS_ASYNC_HANDLED, ps,
               Some \<lparr>refcount = length ps, u_error = empty_last,
                     u_status = if empty_last then TCMU_STS_OK else TCMU_STS_ASYNC_HANDLED\<rparr>))"
  by (rule handle_unmap_run [OF assms])

theorem handle_unmap_correct_witness:
  "\<exists>st. handle_unmap willing_env (unmap_mem [(5, 20)]) thin_dev (unmap_cmd [0x42, 0, 0, 0, 0, 0, 0, 0, 24, 0] 24) =
     Some (TCMU_STS_ASYNC_HANDLED, [(2560, 1536), (4096, 4096), (8192, 4096), (12288, 512)], Some st) \<and> refcount st = 4"
  (is "\<exists>st. handle_unmap _ _ _ ?cmd = _ \<and> _")
proof -
  have "gather (unmap_mem [(5, 20)]) (cmd_iovs ?cmd) = unmap_list [(5, 20)]"
    using mem_read_write_same [of "\<lambda>_. 0" 1000 "unmap_list [(5, 20)]"]
    by (simp add: unmap_cmd_def cmd_iovs_def unmap_mem_def)
  moreover have "tcmu_get_xfer_length (cdb ?cmd) = Some 24" "cdb ?cmd 1 AND 0x01 = 0"
    by (simp_all add: unmap_cmd_length) (simp add: unmap_cmd_def cdb_of_def)
  moreover have "unmap_requests thin_dev 5 20 = [(2560, 1536), (4096, 4096), (8192, 4096), (12288, 512)]"
    by (simp add: unmap_requests_def thin_dev_def unmap_pieces.simps Let_def)
  ultimately show ?thesis
    using handle_unmap_correct [OF thin_dev_unmap, of willing_env "[(5, 20)]" ?cmd "unmap_mem [(5, 20)]"]
    by (simp add: willing_env_def unmap_range_ok_def thin_dev_def Let_def)
qed



end
