(* ===== verification/Tcmur_Rw.thy ===== *)
theory Tcmur_Rw
  imports Tcmur_Store Tcmur_Unmap
begin

unbundle bit_operations_syntax

text \<open>
  READ, WRITE, WRITE SAME, WRITE AND VERIFY and COMPARE AND WRITE of \<open>tcmur_cmd_handler.c\<close>. Each
  is a chain of requests to the handler: a request is submitted with \<open>async_handle_cmd\<close>, and its
  callback submits the next one or completes the command. The model runs the chain: the handler's
  operation and the callback are one step, and before the \<open>k\<close>-th request of the command runs, other
  commands may change the store by \<open>re_other k\<close>. \<open>re_sub k\<close> is the status of the \<open>k\<close>-th submission
  (\<open>TCMU_STS_ASYNC_HANDLED\<close> when accepted) and \<open>re_alloc k\<close> tells whether the \<open>k\<close>-th allocation
  succeeds. Buffers that the code allocates lie at the address \<open>re_addr\<close>.
\<close>

record 's run_env =
  re_sub :: "nat \<Rightarrow> tcmu_sts"
  re_alloc :: "nat \<Rightarrow> bool"
  re_other :: "nat \<Rightarrow> 's \<Rightarrow> 's"
  re_addr :: nat

text \<open>A command ends with the status its handler function returns, or with that of \<open>aio_command_finish\<close>.\<close>

datatype completion = Returned tcmu_sts | Finished tcmu_sts

section \<open>READ and WRITE\<close>

definition read_work_fn ::
  "'s handler \<Rightarrow> tcmu_device \<Rightarrow> 's \<Rightarrow> mem \<Rightarrow> tcmulib_cmd \<Rightarrow> (tcmu_sts \<times> mem \<times> tcmulib_cmd \<times> 's) option" where
  "read_work_fn h dev s m cmd = do {
     lba \<leftarrow> tcmu_get_lba (cdb cmd);
     (ret, m', vs, s') \<leftarrow> h_read h s m (cmd_iovs cmd) (tcmu_iovec_length (cmd_iovs cmd)) (mul64 (block_size dev) lba);
     Some (ret, m', set_cmd_iovs cmd vs, s')
   }"

definition write_work_fn ::
  "'s handler \<Rightarrow> tcmu_device \<Rightarrow> 's \<Rightarrow> mem \<Rightarrow> tcmulib_cmd \<Rightarrow> (tcmu_sts \<times> tcmulib_cmd \<times> 's) option" where
  "write_work_fn h dev s m cmd = do {
     lba \<leftarrow> tcmu_get_lba (cdb cmd);
     (ret, vs, s') \<leftarrow> h_write h s m (cmd_iovs cmd) (tcmu_iovec_length (cmd_iovs cmd)) (mul64 (block_size dev) lba);
     Some (ret, set_cmd_iovs cmd vs, s')
   }"

definition handle_read ::
  "'s handler \<Rightarrow> 's run_env \<Rightarrow> tcmu_device \<Rightarrow> 's \<Rightarrow> mem \<Rightarrow> tcmulib_cmd \<Rightarrow> (completion \<times> mem \<times> 's) option" where
  "handle_read h env dev s m cmd = do {
     n \<leftarrow> tcmu_get_xfer_length (cdb cmd);
     ret \<leftarrow> check_lba_and_length dev cmd n;
     if ret \<noteq> TCMU_STS_OK then Some (Returned ret, m, s)
     else if re_sub env 0 \<noteq> TCMU_STS_ASYNC_HANDLED then Some (Returned (re_sub env 0), m, s)
     else do {
       (r, m', cmd', s') \<leftarrow> read_work_fn h dev (re_other env 0 s) m cmd;
       Some (Finished r, m', s')
     }
   }"

definition handle_write ::
  "'s handler \<Rightarrow> 's run_env \<Rightarrow> tcmu_device \<Rightarrow> 's \<Rightarrow> mem \<Rightarrow> tcmulib_cmd \<Rightarrow> (completion \<times> 's) option" where
  "handle_write h env dev s m cmd = do {
     n \<leftarrow> tcmu_get_xfer_length (cdb cmd);
     ret \<leftarrow> check_lba_and_length dev cmd n;
     if ret \<noteq> TCMU_STS_OK then Some (Returned ret, s)
     else if re_sub env 0 \<noteq> TCMU_STS_ASYNC_HANDLED then Some (Returned (re_sub env 0), s)
     else do {
       (r, cmd', s') \<leftarrow> write_work_fn h dev (re_other env 0 s) m cmd;
       Some (Finished r, s')
     }
   }"

section \<open>WRITE SAME\<close>

record write_same =
  ws_cur_lba :: nat
  ws_lba_cnt :: nat
  ws_iov_base :: "byte list"
  ws_iov_len :: nat

definition writesame_work_fn ::
  "'s handler \<Rightarrow> nat \<Rightarrow> tcmu_device \<Rightarrow> 's \<Rightarrow> mem \<Rightarrow> write_same \<Rightarrow> (tcmu_sts \<times> iovec list \<times> 's) option" where
  "writesame_work_fn h addr dev s m ws =
     h_write h s (mem_write m addr (ws_iov_base ws)) [\<lparr>iov_base = addr, iov_len = ws_iov_len ws\<rparr>]
       (ws_iov_len ws) (mul64 (block_size dev) (ws_cur_lba ws))"

text \<open>The callback: \<open>Inl\<close> the status that completes the command, \<open>Inr\<close> the state of the next request.\<close>

definition handle_writesame_cbk :: "tcmu_sts \<Rightarrow> tcmu_device \<Rightarrow> write_same \<Rightarrow> tcmu_sts \<Rightarrow> tcmu_sts + write_same" where
  "handle_writesame_cbk sub dev ws ret =
     (let write_lbas = ws_iov_len ws div block_size dev;
          ws1 = ws\<lparr>ws_cur_lba := add64 (ws_cur_lba ws) write_lbas, ws_lba_cnt := sub64 (ws_lba_cnt ws) write_lbas\<rparr>;
          left_lbas = ws_lba_cnt ws1
      in
      if ret \<noteq> TCMU_STS_OK then Inl ret
      else if left_lbas = 0 then Inl ret
      else if sub \<noteq> TCMU_STS_ASYNC_HANDLED then Inl TCMU_STS_WR_ERR
      else if left_lbas \<le> write_lbas then Inr (ws1\<lparr>ws_iov_len := left_lbas * block_size dev\<rparr>)
      else Inr ws1)"

partial_function (option) writesame_run ::
  "'s handler \<Rightarrow> 's run_env \<Rightarrow> tcmu_device \<Rightarrow> mem \<Rightarrow> 's \<Rightarrow> write_same \<Rightarrow> nat \<Rightarrow> (tcmu_sts \<times> 's) option" where
  "writesame_run h env dev m s ws k = do {
     (ret, vs, s') \<leftarrow> writesame_work_fn h (re_addr env) dev (re_other env k s) m ws;
     (case handle_writesame_cbk (re_sub env (Suc k)) dev ws ret of
        Inl r \<Rightarrow> Some (r, s')
      | Inr ws' \<Rightarrow> writesame_run h env dev m s' ws' (Suc k))
   }"

definition handle_writesame_check :: "tcmu_device \<Rightarrow> tcmulib_cmd \<Rightarrow> tcmu_sts option" where
  "handle_writesame_check dev cmd = do {
     lba_cnt \<leftarrow> tcmu_get_xfer_length (cdb cmd);
     start_lba \<leftarrow> tcmu_get_lba (cdb cmd);
     if iov_cnt cmd \<noteq> 1 \<or> iov_len (hd (iovec cmd)) \<noteq> block_size dev then Some TCMU_STS_INVALID_CDB
     else if lba_cnt = 0 then Some TCMU_STS_INVALID_CDB
     else if lba_cnt > 0xFFFFFFFF then Some TCMU_STS_INVALID_CDB
     else Some (check_lbas dev start_lba lba_cnt)
   }"

text \<open>\<open>round_up(a, b)\<close> on \<open>size_t\<close>.\<close>

definition round_up :: "nat \<Rightarrow> nat \<Rightarrow> nat option" where
  "round_up a b = (if b = 0 then None else Some (mul64 (add64 a (b - 1) div b) b))"

text \<open>
  UNMAP inside WRITE SAME: the status returned, the requests dispatched and the shared state. Note
  that the status is returned as it is, also when requests are outstanding.
\<close>

definition handle_unmap_in_writesame ::
  "unmap_env \<Rightarrow> tcmu_device \<Rightarrow> tcmulib_cmd \<Rightarrow> (tcmu_sts \<times> (nat \<times> nat) list \<times> unmap_state option) option" where
  "handle_unmap_in_writesame env dev cmd = do {
     lba \<leftarrow> tcmu_get_lba (cdb cmd);
     nlbas \<leftarrow> tcmu_get_xfer_length (cdb cmd);
     if ue_state env \<noteq> TCMU_STS_OK then Some (ue_state env, [], None)
     else do {
       (ret, ps) \<leftarrow> align_and_split_unmap (ue_sub env) dev lba nlbas 0;
       let st = \<lparr>refcount = length ps, u_error = (ret \<noteq> TCMU_STS_ASYNC_HANDLED), u_status = TCMU_STS_OK\<rparr>;
       Some (ret, ps, if refcount st = 0 then None else Some st)
     }
   }"

text \<open>The requests run, in the order of their dispatch; the statuses they end with.\<close>

fun run_unmaps :: "('s \<Rightarrow> nat \<Rightarrow> nat \<Rightarrow> tcmu_sts \<times> 's) \<Rightarrow> 's \<Rightarrow> (nat \<times> nat) list \<Rightarrow> tcmu_sts list \<times> 's" where
  "run_unmaps u s [] = ([], s)"
| "run_unmaps u s ((off, len) # ps) =
     (case u s off len of (r, s1) \<Rightarrow> case run_unmaps u s1 ps of (rs, s2) \<Rightarrow> (r # rs, s2))"

definition writesame_unmap ::
  "('s \<Rightarrow> nat \<Rightarrow> nat \<Rightarrow> tcmu_sts \<times> 's) \<Rightarrow> 's run_env \<Rightarrow> tcmu_device \<Rightarrow> 's \<Rightarrow> tcmulib_cmd \<Rightarrow> (completion \<times> 's) option" where
  "writesame_unmap u env dev s cmd = do {
     (ret, ps, st) \<leftarrow> handle_unmap_in_writesame
        \<lparr>ue_par = True, ue_state = if re_alloc env 0 then TCMU_STS_OK else TCMU_STS_NO_RESOURCE, ue_sub = re_sub env\<rparr> dev cmd;
     (case run_unmaps u s ps of (rs, s') \<Rightarrow>
        if ret \<noteq> TCMU_STS_ASYNC_HANDLED then Some (Returned ret, s')
        else (case unmap_callbacks st rs of Some [r] \<Rightarrow> Some (Finished r, s') | _ \<Rightarrow> None))
   }"

definition handle_writesame ::
  "'s handler \<Rightarrow> 's run_env \<Rightarrow> tcmu_device \<Rightarrow> mem \<Rightarrow> 's \<Rightarrow> tcmulib_cmd \<Rightarrow> (completion \<times> 's) option" where
  "handle_writesame h env dev m s cmd = do {
     lba_cnt \<leftarrow> tcmu_get_xfer_length (cdb cmd);
     start_lba \<leftarrow> tcmu_get_lba (cdb cmd);
     ret \<leftarrow> handle_writesame_check dev cmd;
     if ret \<noteq> TCMU_STS_OK then Some (Returned ret, s)
     else if h_unmap h \<noteq> None \<and> cdb cmd 1 AND 0x08 \<noteq> 0 then writesame_unmap (the (h_unmap h)) env dev s cmd
     else if \<not> re_alloc env 0 then Some (Returned TCMU_STS_NO_RESOURCE, s)
     else do {
       rounded \<leftarrow> round_up 1048576 (u32 (max_xfer_len dev * block_size dev));
       let len = min rounded (mul64 lba_cnt (block_size dev));
       if \<not> re_alloc env 1 then Some (Returned TCMU_STS_NO_RESOURCE, s)
       else if re_sub env 0 \<noteq> TCMU_STS_ASYNC_HANDLED then Some (Returned (re_sub env 0), s)
       else do {
         let write_lbas = len div block_size dev;
         let blk = mem_read m (iov_base (hd (iovec cmd))) (block_size dev);
         let ws = \<lparr>ws_cur_lba = start_lba, ws_lba_cnt = lba_cnt,
                   ws_iov_base = concat (replicate write_lbas blk) @ replicate (len - write_lbas * block_size dev) 0,
                   ws_iov_len = len\<rparr>;
         (r, s') \<leftarrow> writesame_run h env dev m s ws 0;
         Some (Finished r, s')
       }
     }
   }"

section \<open>WRITE SAME fills its range\<close>

text \<open>The byte \<open>x\<close> of the store is not changed by other commands.\<close>

definition undisturbed :: "('s \<Rightarrow> mem) \<Rightarrow> 's run_env \<Rightarrow> nat \<Rightarrow> bool" where
  "undisturbed view env x \<longleftrightarrow> (\<forall>k s. view (re_other env k s) x = view s x)"

lemma nth_concat_replicate:
  "length blk = bs \<Longrightarrow> i < c * bs \<Longrightarrow> concat (replicate c blk) ! i = blk ! (i mod bs)"
proof (induction c arbitrary: i)
  case (Suc c)
  show ?case
  proof (cases "i < bs")
    case False
    then have "i - bs < c * bs" using Suc.prems by auto
    then have "concat (replicate c blk) ! (i - bs) = blk ! ((i - bs) mod bs)" using Suc by blast
    moreover have "(i - bs) mod bs = i mod bs" using False by (simp add: le_mod_geq)
    ultimately show ?thesis using False Suc.prems by (simp add: nth_append)
  qed (use Suc.prems in \<open>simp add: nth_append\<close>)
qed simp

text \<open>What is known of the byte \<open>x\<close> after the range of \<open>n\<close> blocks at \<open>lba\<close> was to be filled with \<open>blk\<close>.\<close>

definition filled :: "('s \<Rightarrow> mem) \<Rightarrow> byte list \<Rightarrow> nat \<Rightarrow> nat \<Rightarrow> tcmu_sts \<Rightarrow> 's \<Rightarrow> 's \<Rightarrow> nat \<Rightarrow> bool" where
  "filled view blk lba n r s s' x \<longleftrightarrow>
     (if lba * length blk \<le> x \<and> x < (lba + n) * length blk
      then r = TCMU_STS_OK \<longrightarrow> view s' x = blk ! (x mod length blk) else view s' x = view s x)"

text \<open>A range filled in two parts.\<close>

lemma filled_split:
  assumes "c \<le> n" "filled view blk lba c TCMU_STS_OK s s1 x" "filled view blk (lba + c) (n - c) r s1 s2 x"
  shows "filled view blk lba n r s s2 x"
proof -
  define A M E where "A = lba * length blk" and "M = (lba + c) * length blk" and "E = (lba + n) * length blk"
  have "A \<le> M" "M \<le> E" "(lba + c + (n - c)) * length blk = E"
    using assms(1) by (simp_all add: A_def M_def E_def)
  then show ?thesis
    using assms(2,3) unfolding filled_def A_def [symmetric] M_def [symmetric] E_def [symmetric]
    by (auto split: if_splits)
qed

context backstore
begin

lemma chunk_write:
  assumes "0 < length blk" "block_size dev = length blk" "(lba + c) * length blk < 2 ^ 64"
    and "ws_iov_len ws = c * length blk" "ws_cur_lba ws = lba"
    and "take (c * length blk) (ws_iov_base ws) = concat (replicate c blk)" "c * length blk \<le> length (ws_iov_base ws)"
  shows "\<exists>r vs s'. writesame_work_fn h addr dev s m ws = Some (r, vs, s') \<and> (\<forall>x. filled view blk lba c r s s' x)"
proof -
  let ?bs = "length blk"
  let ?m = "mem_write m addr (ws_iov_base ws)" and ?iov = "[\<lparr>iov_base = addr, iov_len = c * ?bs\<rparr>]"
  have "gather ?m ?iov = take (c * ?bs) (ws_iov_base ws)"
    using assms(7) by (intro nth_equalityI) (auto simp: mem_write_in)
  then have data: "gather ?m ?iov = concat (replicate c blk)" using assms(6) by simp
  have "?bs * lba < 2 ^ 64" using assms(3) by (simp add: algebra_simps)
  then have off: "mul64 (block_size dev) (ws_cur_lba ws) = lba * ?bs"
    using assms(2,5) by (simp add: mul64_id mult.commute)
  obtain r vs s' where w: "h_write h s ?m ?iov (iov_total ?iov) (lba * ?bs) = Some (r, vs, s')"
    "r = TCMU_STS_OK \<longrightarrow> view s' = mem_write (view s) (lba * ?bs) (gather ?m ?iov)"
    "\<forall>x. x < lba * ?bs \<or> lba * ?bs + iov_total ?iov \<le> x \<longrightarrow> view s' x = view s x"
    using write_law [of s ?m ?iov "lba * ?bs"] by blast
  have len: "length (concat (replicate c blk)) = c * ?bs" by (simp add: length_concat sum_list_replicate)
  have "filled view blk lba c r s s' x" for x
  proof (cases "lba * ?bs \<le> x \<and> x < (lba + c) * ?bs")
    case True
    then have i: "x - lba * ?bs < c * ?bs" unfolding distrib_right by linarith
    have "(x - lba * ?bs) mod ?bs = x mod ?bs" using True by (metis le_add_diff_inverse mod_mult_self3 mult.commute)
    then have "concat (replicate c blk) ! (x - lba * ?bs) = blk ! (x mod ?bs)"
      using nth_concat_replicate [OF refl i] by simp
    then show ?thesis using True w(2) [unfolded data] i len by (simp add: filled_def mem_write_in)
  next
    case False
    then show ?thesis using w(3) by (auto simp: filled_def algebra_simps)
  qed
  then show ?thesis using w(1) off assms(4) by (auto simp: writesame_work_fn_def)
qed

lemma writesame_run_fills:
  assumes "0 < length blk" "block_size dev = length blk" "(lba + n) * length blk < 2 ^ 64"
    and "0 < c" "c \<le> n" "ws_iov_len ws = c * length blk" "ws_cur_lba ws = lba" "ws_lba_cnt ws = n"
    and "take (c * length blk) (ws_iov_base ws) = concat (replicate c blk)" "c * length blk \<le> length (ws_iov_base ws)"
  shows "\<exists>r s'. writesame_run h env dev m s ws k = Some (r, s') \<and> (\<forall>x. undisturbed view env x \<longrightarrow> filled view blk lba n r s s' x)"
  using assms(3-)
proof (induction n arbitrary: lba c ws s k rule: less_induct)
  case (less n)
  let ?bs = "length blk"
  have "(lba + c) * ?bs \<le> (lba + n) * ?bs" using less.prems(3) by simp
  then have fit: "(lba + c) * ?bs < 2 ^ 64" using less.prems(1) by linarith
  let ?s = "re_other env k s"
  obtain r vs s1 where w: "writesame_work_fn h (re_addr env) dev ?s m ws = Some (r, vs, s1)"
    "\<And>x. filled view blk lba c r ?s s1 x"
    using chunk_write [OF assms(1,2) fit less.prems(4,5,7,8), of "re_addr env" ?s m] by blast
  have "lba + n \<le> (lba + n) * ?bs" using assms(1) by (metis Suc_leI mult_le_mono2 mult.right_neutral One_nat_def)
  then have small: "lba + n < 2 ^ 64" using less.prems(1) by linarith
  have cnt: "ws_iov_len ws div block_size dev = c" "add64 (ws_cur_lba ws) c = lba + c" "sub64 (ws_lba_cnt ws) c = n - c"
    using assms(1,2) less.prems small by (simp_all add: add64_id sub64_id)
  define ws' where "ws' = ws\<lparr>ws_cur_lba := lba + c, ws_lba_cnt := n - c, ws_iov_len := min c (n - c) * ?bs\<rparr>"
  have cbk: "handle_writesame_cbk (re_sub env (Suc k)) dev ws r =
      (if r \<noteq> TCMU_STS_OK \<or> n = c then Inl r
       else if re_sub env (Suc k) \<noteq> TCMU_STS_ASYNC_HANDLED then Inl TCMU_STS_WR_ERR else Inr ws')"
    using less.prems(3,4) assms(1,2)
    by (auto simp: handle_writesame_cbk_def Let_def cnt ws'_def min_def)
  show ?case
  proof (cases "r = TCMU_STS_OK \<and> n \<noteq> c \<and> re_sub env (Suc k) = TCMU_STS_ASYNC_HANDLED")
    case False
    define r' where "r' = (if r \<noteq> TCMU_STS_OK \<or> n = c then r else TCMU_STS_WR_ERR)"
    have "handle_writesame_cbk (re_sub env (Suc k)) dev ws r = Inl r'" using False by (auto simp: cbk r'_def)
    then have run: "writesame_run h env dev m s ws k = Some (r', s1)"
      using w(1) by (subst writesame_run.simps) simp
    have "x < (lba + c) * ?bs \<longrightarrow> x < (lba + n) * ?bs" for x
      using \<open>(lba + c) * ?bs \<le> (lba + n) * ?bs\<close> by linarith
    then have "filled view blk lba n r' s s1 x" if "undisturbed view env x" for x
      using w(2) [of x] that by (auto simp: filled_def undisturbed_def r'_def split: if_splits)
    then show ?thesis using run by blast
  next
    case True
    define c' where "c' = min c (n - c)"
    then have cbk': "handle_writesame_cbk (re_sub env (Suc k)) dev ws r = Inr ws'" using True cbk by simp
    have "concat (replicate c blk) = concat (replicate c' blk) @ concat (replicate (c - c') blk)"
      by (simp add: c'_def concat_append [symmetric] replicate_add [symmetric] del: concat_append)
    then have pre: "take (c' * ?bs) (ws_iov_base ws') = concat (replicate c' blk)"
      using arg_cong [OF less.prems(7), of "take (c' * ?bs)"]
      by (simp add: ws'_def min_absorb1 mult_le_mono1 c'_def length_concat sum_list_replicate)
    have "c' * ?bs \<le> c * ?bs" by (simp add: c'_def)
    also have "\<dots> \<le> length (ws_iov_base ws')" using less.prems(8) by (simp add: ws'_def)
    finally have len: "c' * ?bs \<le> length (ws_iov_base ws')" .
    obtain r2 s2 where run: "writesame_run h env dev m s1 ws' (Suc k) = Some (r2, s2)"
      "\<forall>x. undisturbed view env x \<longrightarrow> filled view blk (lba + c) (n - c) r2 s1 s2 x"
      using less.IH [of "n - c" "lba + c" c' ws' s1 "Suc k"] True less.prems(1-3) pre len
      by (auto simp: ws'_def c'_def)
    have "filled view blk lba n r2 s s2 x" if "undisturbed view env x" for x
    proof (rule filled_split [OF less.prems(3)])
      show "filled view blk lba c TCMU_STS_OK s s1 x"
        using w(2) [of x] True that by (simp add: filled_def undisturbed_def)
      show "filled view blk (lba + c) (n - c) r2 s1 s2 x" using run(2) that by blast
    qed
    then show ?thesis using w(1) cbk' run(1) by (subst writesame_run.simps) simp
  qed
qed

end

text \<open>The number of blocks in a chunk: at least one MiB, in units of the largest transfer.\<close>

definition chunk_blocks :: "nat \<Rightarrow> nat \<Rightarrow> nat" where
  "chunk_blocks q bs = (1048576 + (q * bs - 1)) div (q * bs) * q"

lemma round_up_blocks:
  assumes "0 < q" "0 < bs" "q * bs < 2 ^ 32"
  shows "round_up 1048576 (u32 (q * bs)) = Some (chunk_blocks q bs * bs)" "0 < chunk_blocks q bs"
proof -
  define b where "b = q * bs"
  define j where "j = (1048576 + (b - 1)) div b"
  have b: "0 < b" "b < 2 ^ 32" using assms by (simp_all add: b_def)
  have "b \<le> 1048576 + (b - 1)" using b by linarith
  then have "0 < j" using b by (simp add: j_def div_greater_zero_iff)
  then show "0 < chunk_blocks q bs" using assms(1) by (simp add: chunk_blocks_def j_def b_def)
  have "j * b \<le> 1048576 + (b - 1)" by (simp add: j_def)
  also have "\<dots> < 2 ^ 64" using b(2) by simp
  finally have "j * b < 2 ^ 64" .
  then have "round_up 1048576 (u32 b) = Some (j * b)"
    using b by (simp add: round_up_def u32_id add64_id mul64_id j_def)
  then show "round_up 1048576 (u32 (q * bs)) = Some (chunk_blocks q bs * bs)"
    by (simp add: b_def j_def chunk_blocks_def mult.assoc)
qed

lemma check_OK_range:
  assumes "check_lbas dev lba n = TCMU_STS_OK" "lba < 2 ^ 64" "n < 2 ^ 32" "num_lbas dev * block_size dev < 2 ^ 64"
    and "0 < block_size dev"
  shows "(lba + n) * block_size dev < 2 ^ 64" "lba + n \<le> num_lbas dev"
proof -
  have "num_lbas dev \<le> num_lbas dev * block_size dev" using assms(5) by simp
  then have "num_lbas dev < 2 ^ 64" using assms(4) by linarith
  moreover have "n < 2 ^ 64" using assms(3) by simp
  ultimately show le: "lba + n \<le> num_lbas dev" using check_lbas_OK assms(1,2) by blast
  have "(lba + n) * block_size dev \<le> num_lbas dev * block_size dev" using le by simp
  then show "(lba + n) * block_size dev < 2 ^ 64" using assms(4) by linarith
qed

text \<open>
  C10: WRITE SAME, for any handler that satisfies the store contract, and however the submissions
  and the writes of the chunks end: the command completes, and if it reports success every block of its
  range holds the block that was sent, while no byte outside the range is changed. This holds for every byte
  that other commands leave alone meanwhile.
\<close>
theorem writesame_correct:
  assumes "backstore h view" "handle_writesame_check dev cmd = Some TCMU_STS_OK"
    and "h_unmap h = None \<or> cdb cmd 1 AND 0x08 = 0"
    and "tcmu_get_lba (cdb cmd) = Some lba" "tcmu_get_xfer_length (cdb cmd) = Some n"
    and "0 < block_size dev" "0 < max_xfer_len dev" "max_xfer_len dev * block_size dev < 2 ^ 32"
    and "num_lbas dev * block_size dev < 2 ^ 64"
    and "re_alloc env 0" "re_alloc env 1" "re_sub env 0 = TCMU_STS_ASYNC_HANDLED"
  shows "\<exists>r s'. handle_writesame h env dev m s cmd = Some (Finished r, s') \<and>
    (\<forall>x. undisturbed view env x \<longrightarrow>
       filled view (mem_read m (iov_base (hd (iovec cmd))) (block_size dev)) lba n r s s' x)"
proof -
  let ?bs = "block_size dev" and ?blk = "mem_read m (iov_base (hd (iovec cmd))) (block_size dev)"
  have chk: "check_lbas dev lba n = TCMU_STS_OK" "0 < n"
    using assms(2,4,5) by (auto simp: handle_writesame_check_def split: if_splits)
  have fit: "(lba + n) * ?bs < 2 ^ 64"
    using check_OK_range(1) [OF chk(1) _ _ assms(9,6)] tcmu_get_lba_bound [OF assms(4)]
      tcmu_get_xfer_length_bound [OF assms(5)] by blast
  define j where "j = chunk_blocks (max_xfer_len dev) ?bs"
  have j: "0 < j" "round_up 1048576 (u32 (max_xfer_len dev * ?bs)) = Some (j * ?bs)"
    using round_up_blocks [OF assms(7,6,8)] by (simp_all add: j_def)
  define c where "c = min j n"
  have c: "0 < c" "c \<le> n" using j(1) chk(2) by (simp_all add: c_def)
  have "n * ?bs \<le> (lba + n) * ?bs" by simp
  then have nb: "mul64 n ?bs = n * ?bs" using fit by (intro mul64_id) linarith
  have len: "min (j * ?bs) (n * ?bs) = c * ?bs" using assms(6) by (simp add: c_def min_def)
  define ws where "ws = \<lparr>ws_cur_lba = lba, ws_lba_cnt = n, ws_iov_base = concat (replicate c ?blk), ws_iov_len = c * ?bs\<rparr>"
  have buf: "length (concat (replicate c ?blk)) = c * ?bs" by (simp add: length_concat sum_list_replicate)
  have run: "handle_writesame h env dev m s cmd = map_option (\<lambda>(r, s'). (Finished r, s')) (writesame_run h env dev m s ws 0)"
    using assms j(2) unfolding handle_writesame_def
    by (auto simp: Let_def nb len ws_def split: bind_splits option.split)
  have "\<exists>r s'. writesame_run h env dev m s ws 0 = Some (r, s') \<and>
      (\<forall>x. undisturbed view env x \<longrightarrow> filled view ?blk lba n r s s' x)"
    using backstore.writesame_run_fills [OF assms(1), of ?blk dev lba n c ws env m s 0] assms(6) fit c buf
    by (simp add: ws_def)
  then show ?thesis unfolding run by auto
qed

definition lone_env :: "file_state run_env" where
  "lone_env = \<lparr>re_sub = (\<lambda>_. TCMU_STS_ASYNC_HANDLED), re_alloc = (\<lambda>_. True), re_other = (\<lambda>_ s. s), re_addr = 5000\<rparr>"

lemma lone_undisturbed [simp]: "undisturbed view lone_env x"
  by (simp add: undisturbed_def lone_env_def)

theorem writesame_correct_witness:
  "\<exists>r s'. handle_writesame file_handler lone_env thin_dev (\<lambda>_. 7) short_file
      (unmap_cmd [0x41, 0, 0, 0, 0, 9, 0, 0, 40, 0] 512) = Some (Finished r, s') \<and>
    filled file_view (mem_read (\<lambda>_. 7) 1000 512) 9 40 r short_file s' 4608"
proof -
  let ?cmd = "unmap_cmd [0x41, 0, 0, 0, 0, 9, 0, 0, 40, 0] 512"
  have ten: "tcmu_get_cdb_length (cdb ?cmd) = Some 10"
    by (simp add: unmap_cmd_def tcmu_get_cdb_length_def cdb_of_def)
  have lba: "tcmu_get_lba (cdb ?cmd) = Some 9" "tcmu_get_xfer_length (cdb ?cmd) = Some 40"
    by (simp_all add: tcmu_get_lba_def tcmu_get_xfer_length_def ten cdb_be_def upt_conv_Cons be_dec_def)
       (simp_all add: unmap_cmd_def cdb_of_def)
  have "handle_writesame_check thin_dev ?cmd = Some TCMU_STS_OK"
    by (simp add: handle_writesame_check_def lba) (simp add: unmap_cmd_def thin_dev_def check_lbas_def add64_def)
  moreover have "h_unmap file_handler = None \<or> cdb ?cmd 1 AND 0x08 = 0" by (simp add: file_handler_def)
  moreover have "iov_base (hd (iovec ?cmd)) = 1000" "block_size thin_dev = 512"
    by (simp_all add: unmap_cmd_def thin_dev_def)
  moreover have "0 < max_xfer_len thin_dev" "max_xfer_len thin_dev * block_size thin_dev < 2 ^ 32"
    "num_lbas thin_dev * block_size thin_dev < 2 ^ 64" by (simp_all add: thin_dev_def)
  moreover have "re_alloc lone_env k" "re_sub lone_env k = TCMU_STS_ASYNC_HANDLED" for k
    by (simp_all add: lone_env_def)
  ultimately show ?thesis
    using writesame_correct [OF file_bs.backstore_axioms _ _ lba, of thin_dev lone_env "\<lambda>_. 7" short_file] by auto
qed

end
