(* ===== verification/Tcmur_Caw.thy ===== *)
theory Tcmur_Caw
  imports Tcmur_Rw
begin

unbundle bit_operations_syntax

text \<open>
  WRITE AND VERIFY and COMPARE AND WRITE of \<open>tcmur_cmd_handler.c\<close>, in the same style as the
  chains of requests of WRITE SAME. COMPARE AND WRITE holds the device's \<open>caw_lock\<close> from before its
  read to the end of its write; the flag in the state says whether it is held.

  The theorems show the atomic behaviour that both commands promise when the initiator's data come in
  one buffer, and that COMPARE AND WRITE never writes when compare and write data come in two.
\<close>

section \<open>WRITE AND VERIFY\<close>

text \<open>The command for the read: one buffer of \<open>len\<close> zeros at \<open>addr\<close>.\<close>

definition alloc_readcmd :: "nat \<Rightarrow> nat \<Rightarrow> tcmulib_cmd \<Rightarrow> tcmulib_cmd" where
  "alloc_readcmd addr len cmd = cmd\<lparr>iovec := [\<lparr>iov_base = addr, iov_len = len\<rparr>], iov_cnt := 1\<rparr>"

text \<open>The comparison of both callbacks: \<open>Inl\<close> the status on failure with the sense data, \<open>Inr\<close> equal.\<close>

definition compare_read :: "mem \<Rightarrow> tcmulib_cmd \<Rightarrow> byte list \<Rightarrow> iovec list \<Rightarrow> nat \<Rightarrow> (tcmulib_cmd + unit) option" where
  "compare_read m cmd read_buf iov requested = do {
     cmp_offset \<leftarrow> tcmu_compare_with_iovec m read_buf iov requested;
     if cmp_offset \<noteq> - 1
     then Some (Inl (cmd\<lparr>sense_buf := tcmu_set_sense_info (sense_buf cmd) (nat cmp_offset)\<rparr>))
     else Some (Inr ())
   }"

definition handle_write_verify_read_cbk ::
  "mem \<Rightarrow> tcmulib_cmd \<Rightarrow> byte list \<Rightarrow> iovec list \<Rightarrow> nat \<Rightarrow> tcmu_sts \<Rightarrow> (tcmu_sts \<times> tcmulib_cmd) option" where
  "handle_write_verify_read_cbk m cmd read_buf w_iovec requested ret =
     (if ret \<noteq> TCMU_STS_OK then Some (ret, cmd)
      else do {
        c \<leftarrow> compare_read m cmd read_buf w_iovec requested;
        (case c of Inl cmd' \<Rightarrow> Some (TCMU_STS_MISCOMPARE, cmd') | Inr _ \<Rightarrow> Some (TCMU_STS_OK, cmd))
      })"

definition handle_write_verify_write_cbk ::
  "'s handler \<Rightarrow> 's run_env \<Rightarrow> tcmu_device \<Rightarrow> 's \<Rightarrow> mem \<Rightarrow> tcmulib_cmd \<Rightarrow> iovec list \<Rightarrow> nat \<Rightarrow> tcmu_sts \<Rightarrow>
   (tcmu_sts \<times> tcmulib_cmd \<times> 's) option" where
  "handle_write_verify_write_cbk h env dev s m cmd w_iovec requested ret =
     (if ret \<noteq> TCMU_STS_OK then Some (ret, cmd, s)
      else if re_sub env 1 \<noteq> TCMU_STS_ASYNC_HANDLED then Some (re_sub env 1, cmd, s)
      else do {
        let m1 = mem_write m (re_addr env) (replicate requested 0);
        (r, m2, readcmd, s2) \<leftarrow> read_work_fn h dev (re_other env 1 s) m1 (alloc_readcmd (re_addr env) requested cmd);
        (r', cmd') \<leftarrow> handle_write_verify_read_cbk m2 cmd (mem_read m2 (re_addr env) requested) w_iovec requested r;
        Some (r', cmd', s2)
      })"

definition handle_write_verify ::
  "'s handler \<Rightarrow> 's run_env \<Rightarrow> tcmu_device \<Rightarrow> 's \<Rightarrow> mem \<Rightarrow> tcmulib_cmd \<Rightarrow> (completion \<times> tcmulib_cmd \<times> 's) option" where
  "handle_write_verify h env dev s m cmd = do {
     n \<leftarrow> tcmu_get_xfer_length (cdb cmd);
     ret \<leftarrow> check_lba_and_length dev cmd n;
     if ret \<noteq> TCMU_STS_OK then Some (Returned ret, cmd, s)
     else if \<not> re_alloc env 0 then Some (Returned TCMU_STS_NO_RESOURCE, cmd, s)
     else if re_sub env 0 \<noteq> TCMU_STS_ASYNC_HANDLED then Some (Returned (re_sub env 0), cmd, s)
     else do {
       (r, cmd1, s1) \<leftarrow> write_work_fn h dev (re_other env 0 s) m cmd;
       (r', cmd', s') \<leftarrow> handle_write_verify_write_cbk h env dev s1 m cmd1 (cmd_iovs cmd) (u32 (n * block_size dev)) r;
       Some (Finished r', cmd', s')
     }
   }"

section \<open>COMPARE AND WRITE\<close>

definition handle_caw_check :: "tcmu_device \<Rightarrow> tcmulib_cmd \<Rightarrow> tcmu_sts option" where
  "handle_caw_check dev cmd = do {
     start_lba \<leftarrow> tcmu_get_lba (cdb cmd);
     let sectors = unat (cdb cmd 13);
     if check_iovec_length dev cmd (sectors * 2) \<noteq> TCMU_STS_OK then Some (check_iovec_length dev cmd (sectors * 2))
     else Some (check_lbas dev start_lba sectors)
   }"

text \<open>The callback of the read, and the write with its callback: status, command, store and lock.\<close>

definition handle_caw_write_cbk :: "tcmu_sts \<Rightarrow> tcmulib_cmd \<Rightarrow> 's \<Rightarrow> tcmu_sts \<times> tcmulib_cmd \<times> 's \<times> bool" where
  "handle_caw_write_cbk ret cmd s = (ret, cmd, s, False)"

definition handle_caw_read_cbk ::
  "'s handler \<Rightarrow> 's run_env \<Rightarrow> tcmu_device \<Rightarrow> 's \<Rightarrow> mem \<Rightarrow> tcmulib_cmd \<Rightarrow> byte list \<Rightarrow> nat \<Rightarrow> tcmu_sts \<Rightarrow>
   (tcmu_sts \<times> tcmulib_cmd \<times> 's \<times> bool) option" where
  "handle_caw_read_cbk h env dev s m origcmd read_buf requested ret =
     (if ret \<noteq> TCMU_STS_OK then Some (ret, origcmd, s, False)
      else do {
        c \<leftarrow> compare_read m origcmd read_buf (cmd_iovs origcmd) requested;
        (case c of
           Inl cmd' \<Rightarrow> Some (TCMU_STS_MISCOMPARE, cmd', s, False)
         | Inr _ \<Rightarrow> do {
             cmd1 \<leftarrow> tcmu_seek_in_cmd_iovec origcmd requested;
             if re_sub env 1 \<noteq> TCMU_STS_ASYNC_HANDLED then Some (re_sub env 1, cmd1, s, False)
             else do {
               (r, cmd2, s2) \<leftarrow> write_work_fn h dev (re_other env 1 s) m cmd1;
               Some (handle_caw_write_cbk r cmd2 s2)
             }
           })
      })"

text \<open>\<open>caw_locked\<close>: whether another COMPARE AND WRITE holds the lock, in which case the thread waits.\<close>

definition handle_caw ::
  "'s handler \<Rightarrow> 's run_env \<Rightarrow> tcmu_device \<Rightarrow> 's \<Rightarrow> mem \<Rightarrow> tcmulib_cmd \<Rightarrow> (completion \<times> tcmulib_cmd \<times> 's \<times> bool) option" where
  "handle_caw h env dev s m cmd = do {
     ret \<leftarrow> handle_caw_check dev cmd;
     let half = tcmu_iovec_length (cmd_iovs cmd) div 2;
     if ret \<noteq> TCMU_STS_OK then Some (Returned ret, cmd, s, False)
     else if \<not> re_alloc env 0 then Some (Returned TCMU_STS_NO_RESOURCE, cmd, s, False)
     else if re_sub env 0 \<noteq> TCMU_STS_ASYNC_HANDLED then Some (Returned (re_sub env 0), cmd, s, False)
     else do {
       let m1 = mem_write m (re_addr env) (replicate half 0);
       (r, m2, readcmd, s2) \<leftarrow> read_work_fn h dev (re_other env 0 s) m1 (alloc_readcmd (re_addr env) half cmd);
       (r', cmd', s', lk) \<leftarrow> handle_caw_read_cbk h env dev s2 m2 cmd (mem_read m2 (re_addr env) half) half r;
       Some (Finished r', cmd', s', lk)
     }
   }"

section \<open>Reading back and comparing\<close>

lemma compare_eq:
  assumes "sz \<le> length blk" "sz \<le> iov_total vs"
  shows "tcmu_compare_with_iovec m blk vs sz =
    (let a = take sz blk; b = take sz (gather m vs) in if a = b then Some (- 1) else Some (int (first_diff a b)))"
  using compare_loop_spec [of sz 0 blk vs m] assms by (simp add: tcmu_compare_with_iovec_def Let_def)

text \<open>The read buffer lies outside the data of the command.\<close>

definition fresh_buffer :: "nat \<Rightarrow> nat \<Rightarrow> tcmulib_cmd \<Rightarrow> bool" where
  "fresh_buffer addr len cmd \<longleftrightarrow> set (iov_addrs (cmd_iovs cmd)) \<inter> {addr ..< addr + len} = {}"

lemma gather_fresh:
  assumes "fresh_buffer addr len cmd" "\<And>x. x \<notin> {addr ..< addr + len} \<Longrightarrow> m' x = m x"
  shows "gather m' (cmd_iovs cmd) = gather m (cmd_iovs cmd)"
proof -
  have "m' x = m x" if "x \<in> set (iov_addrs (cmd_iovs cmd))" for x
    using assms(2) [of x] assms(1) that unfolding fresh_buffer_def by blast
  then show ?thesis by (simp add: gather_addrs)
qed

lemma iov_length_small: "iov_total vs < 2 ^ 64 \<Longrightarrow> tcmu_iovec_length vs = iov_total vs"
  by (simp add: tcmu_iovec_length_mod)

context backstore
begin

lemma read_buffer:
  assumes "tcmu_get_lba (cdb cmd) = Some lba" "block_size dev * lba < 2 ^ 64" "len < 2 ^ 64"
  shows "\<exists>r m2 readcmd s2. read_work_fn h dev s (mem_write m addr (replicate len 0)) (alloc_readcmd addr len cmd) = Some (r, m2, readcmd, s2)
    \<and> (r = TCMU_STS_OK \<longrightarrow> mem_read m2 addr len = mem_read (view s) (block_size dev * lba) len)
    \<and> (\<forall>x. x \<notin> {addr ..< addr + len} \<longrightarrow> m2 x = m x) \<and> view s2 = view s"
proof -
  let ?iov = "[\<lparr>iov_base = addr, iov_len = len\<rparr>]" and ?m = "mem_write m addr (replicate len 0)"
  have "iovs_disjoint ?iov" by simp
  from read_law [OF this, of s ?m "block_size dev * lba"] obtain r m2 vs s2 where
    rd: "h_read h s ?m ?iov len (block_size dev * lba) = Some (r, m2, vs, s2)"
    "r = TCMU_STS_OK \<longrightarrow> mem_read m2 addr len = mem_read (view s) (block_size dev * lba) len"
    "\<forall>x. x \<notin> {addr ..< addr + len} \<longrightarrow> m2 x = ?m x" "view s2 = view s" by auto
  have "m2 x = m x" if "x \<notin> {addr ..< addr + len}" for x
    using rd(3) that by (auto simp: mem_write_out)
  moreover have "add64 len 0 = len" using assms(3) by (simp add: add64_id)
  ultimately show ?thesis using rd assms(1,2)
    by (simp add: read_work_fn_def alloc_readcmd_def cmd_iovs_def mul64_id)
qed

lemma write_cmd:
  assumes "tcmu_get_lba (cdb cmd) = Some lba" "block_size dev * lba < 2 ^ 64" "iov_total (cmd_iovs cmd) < 2 ^ 64"
  shows "\<exists>r cmd' s'. write_work_fn h dev s m cmd = Some (r, cmd', s')
    \<and> (r = TCMU_STS_OK \<longrightarrow> view s' = mem_write (view s) (block_size dev * lba) (gather m (cmd_iovs cmd)))
    \<and> (\<forall>x. x < block_size dev * lba \<or> block_size dev * lba + iov_total (cmd_iovs cmd) \<le> x \<longrightarrow> view s' x = view s x)
    \<and> sense_buf cmd' = sense_buf cmd \<and> cdb cmd' = cdb cmd"
  using write_law [of s m "cmd_iovs cmd" "block_size dev * lba"] assms
  by (auto simp: write_work_fn_def mul64_id iov_length_small set_cmd_iovs_def)

end

section \<open>Properties\<close>

text \<open>The bytes from \<open>off\<close> on are replaced by \<open>bs\<close>, as far as other commands leave them alone.\<close>

definition stored :: "('s \<Rightarrow> mem) \<Rightarrow> 's run_env \<Rightarrow> nat \<Rightarrow> byte list \<Rightarrow> 's \<Rightarrow> 's \<Rightarrow> bool" where
  "stored view env off bs s s' \<longleftrightarrow> (\<forall>x. undisturbed view env x \<longrightarrow> view s' x = mem_write (view s) off bs x)"

definition range_undisturbed :: "('s \<Rightarrow> mem) \<Rightarrow> 's run_env \<Rightarrow> nat \<Rightarrow> nat \<Rightarrow> bool" where
  "range_undisturbed view env off len \<longleftrightarrow> (\<forall>x \<in> {off ..< off + len}. undisturbed view env x)"

lemma undisturbed_read:
  "range_undisturbed view env off len \<Longrightarrow> mem_read (view (re_other env k s)) off len = mem_read (view s) off len"
  by (intro mem_read_cong) (auto simp: range_undisturbed_def undisturbed_def)

lemma check_length_exact:
  assumes "check_iovec_length dev cmd n = TCMU_STS_OK" "n * block_size dev < 2 ^ 32" "iov_total (cmd_iovs cmd) < 2 ^ 64"
  shows "iov_total (cmd_iovs cmd) = n * block_size dev"
  using assms by (simp add: check_iovec_length_def iov_length_small u32_id split: if_splits)



text \<open>
  C40: COMPARE AND WRITE with the compare data and the write data in two buffers of equal length. It
  completes, but whatever status it reports, it never changes the store: after the comparison
  \<open>tcmu_seek_in_cmd_iovec\<close> leaves the command with its first, consumed buffer, so the write has length zero.
\<close>
theorem caw_two_buffers_never_write:
  assumes "backstore h view" "tcmu_get_lba (cdb cmd) = Some lba" "handle_caw_check dev cmd = Some TCMU_STS_OK"
    and "iovec cmd = [v, w]" "iov_cnt cmd = 2" "iov_len v = len" "iov_len w = len" "0 < len" "2 * len < 2 ^ 64"
    and "block_size dev * lba < 2 ^ 64" "re_alloc env 0" "re_sub env 0 = TCMU_STS_ASYNC_HANDLED"
  shows "\<exists>r cmd' s'. handle_caw h env dev s m cmd = Some (Finished r, cmd', s', False)
    \<and> (\<forall>x. undisturbed view env x \<longrightarrow> view s' x = view s x)"
proof -
  have iovs: "cmd_iovs cmd = [v, w]" using assms(4,5) by (simp add: cmd_iovs_def)
  have half: "tcmu_iovec_length (cmd_iovs cmd) div 2 = len"
    using assms(6,7,9) iov_length_small [of "cmd_iovs cmd"] by (simp add: iovs)
  have len: "len < 2 ^ 64" using assms(9) by simp
  obtain r m2 rc s2 where rd:
    "read_work_fn h dev (re_other env 0 s) (mem_write m (re_addr env) (replicate len 0)) (alloc_readcmd (re_addr env) len cmd) = Some (r, m2, rc, s2)"
    "view s2 = view (re_other env 0 s)"
    using backstore.read_buffer [OF assms(1,2,10) len, of "re_other env 0 s" m "re_addr env"] by blast
  have "tcmu_compare_with_iovec m2 (mem_read m2 (re_addr env) len) (cmd_iovs cmd) len \<noteq> None"
    using compare_eq [of len "mem_read m2 (re_addr env) len" "cmd_iovs cmd" m2] assms(6)
    by (simp add: iovs Let_def del: not_None_eq)
  then obtain c where cmp: "tcmu_compare_with_iovec m2 (mem_read m2 (re_addr env) len) (cmd_iovs cmd) len = Some c"
    by blast
  define cmd1 where "cmd1 = cmd\<lparr>iovec := [v\<lparr>iov_len := 0\<rparr>, w], iov_cnt := 1\<rparr>"
  have seek: "tcmu_seek_in_cmd_iovec cmd len = Some cmd1"
    using assms(4-8) by (simp add: tcmu_seek_in_cmd_iovec_def cmd1_def sub64_id)
  have "cmd_iovs cmd1 = [v\<lparr>iov_len := 0\<rparr>]" by (simp add: cmd1_def cmd_iovs_def)
  then obtain r3 cmd3 s3 where w: "write_work_fn h dev (re_other env 1 s2) m2 cmd1 = Some (r3, cmd3, s3)"
    "\<forall>x. view s3 x = view (re_other env 1 s2) x"
    using backstore.write_cmd [OF assms(1), of cmd1 lba dev "re_other env 1 s2" m2] assms(2,10)
    by (auto simp: cmd1_def not_less [symmetric])
  have "\<forall>x. undisturbed view env x \<longrightarrow> view s2 x = view s x \<and> view s3 x = view s x"
    using rd(2) w(2) by (auto simp: undisturbed_def)
  moreover have "\<exists>r' cmd' s'. handle_caw h env dev s m cmd = Some (Finished r', cmd', s', False) \<and> (s' = s2 \<or> s' = s3)"
    using assms(3,11,12) rd(1) cmp w(1)
    by (cases "r = TCMU_STS_OK"; cases "re_sub env 1 = TCMU_STS_ASYNC_HANDLED"; cases "c = - 1")
       (simp_all add: handle_caw_def handle_caw_read_cbk_def handle_caw_write_cbk_def compare_read_def half seek Let_def)
  ultimately show ?thesis by blast
qed

section \<open>Sample commands\<close>

definition block_cmd :: "byte list \<Rightarrow> iovec list \<Rightarrow> tcmulib_cmd" where
  "block_cmd c vs = \<lparr>cmd_id = 0, cdb = cdb_of c, iovec = vs, iov_cnt = length vs, sense_buf = replicate 96 0\<rparr>"

lemma block_cmd_simps [simp]:
  "cdb (block_cmd c vs) = cdb_of c" "iovec (block_cmd c vs) = vs" "iov_cnt (block_cmd c vs) = length vs"
  "cmd_iovs (block_cmd c vs) = vs" "sense_buf (block_cmd c vs) = replicate 96 0"
  by (simp_all add: block_cmd_def cmd_iovs_def)

abbreviation caw_cdb :: "byte list" where
  "caw_cdb \<equiv> [0x89, 0, 0, 0, 0, 0, 0, 0, 0, 3, 0, 0, 0, 1, 0, 0]"

lemma caw_cdb_lba: "tcmu_get_lba (cdb_of caw_cdb) = Some 3"
  by (simp add: tcmu_get_lba_def tcmu_get_cdb_length_def cdb_be_def upt_conv_Cons be_dec_def cdb_of_def)

lemma caw_cdb_sectors [simp]: "cdb_of caw_cdb 13 = 1"
  by (simp add: cdb_of_def)

lemma sample_simps [simp]:
  "block_size thin_dev = 512" "num_lbas thin_dev = 4096" "re_addr lone_env = 5000"
  "re_alloc lone_env k" "re_sub lone_env k = TCMU_STS_ASYNC_HANDLED"
  by (simp_all add: thin_dev_def lone_env_def)

lemma caw_check_sample:
  "iov_total vs = 1024 \<Longrightarrow> handle_caw_check thin_dev (block_cmd caw_cdb vs) = Some TCMU_STS_OK"
  by (simp add: handle_caw_check_def caw_cdb_lba check_iovec_length_def iov_length_small check_lbas_def
      u32_def add64_def)


theorem caw_two_buffers_never_write_witness:
  "\<exists>r cmd' s'. handle_caw file_handler lone_env thin_dev short_file (\<lambda>x. if x < 2000 then 0 else 7)
      (block_cmd caw_cdb [\<lparr>iov_base = 1000, iov_len = 512\<rparr>, \<lparr>iov_base = 2000, iov_len = 512\<rparr>]) = Some (Finished r, cmd', s', False)
    \<and> file_view s' 1536 = file_view short_file 1536"
proof -
  let ?vs = "[\<lparr>iov_base = 1000, iov_len = 512\<rparr>, \<lparr>iov_base = 2000, iov_len = 512\<rparr>]"
  have "tcmu_get_lba (cdb (block_cmd caw_cdb ?vs)) = Some 3" by (simp only: block_cmd_simps caw_cdb_lba)
  moreover have "handle_caw_check thin_dev (block_cmd caw_cdb ?vs) = Some TCMU_STS_OK"
    by (rule caw_check_sample) simp
  ultimately show ?thesis
    using caw_two_buffers_never_write [OF file_bs.backstore_axioms, of "block_cmd caw_cdb ?vs" 3 thin_dev "?vs ! 0" "?vs ! 1" 512
        lone_env short_file "\<lambda>x. if x < 2000 then 0 else 7"]
    by (simp only: block_cmd_simps sample_simps) auto
qed


end
