(* ===== verification/Tcmur_Format.thy ===== *)
theory Tcmur_Format
  imports Tcmur_Rw Tcmur_Device
begin

unbundle bit_operations_syntax

text \<open>
  FORMAT UNIT of \<open>tcmur_cmd_handler.c\<close>: zeros are written over the whole device in chunks, the
  device reports "format in progress" meanwhile. The number of blocks done is a \<open>uint32_t\<close>. The theorem
  characterises the result chunk by chunk: a chunk is zero if its write succeeded, but the status of the
  command is that of the last chunk alone.
\<close>

record format_unit_state =
  fu_length :: nat
  fu_offset :: nat
  fu_done_blocks :: nat

text \<open>What the callback does: complete the command, write the next chunk, or return without doing either.\<close>

datatype format_next = Format_done tcmu_sts | Format_again format_unit_state | Format_lost

definition format_progress_of :: "tcmu_device \<Rightarrow> nat \<Rightarrow> nat" where
  "format_progress_of dev done_blocks = u32 (u32 (0x10000 * done_blocks) div num_lbas dev)"

definition handle_format_unit_cbk ::
  "bool \<Rightarrow> tcmu_sts \<Rightarrow> tcmu_device \<Rightarrow> tcmur_device \<Rightarrow> format_unit_state \<Rightarrow> tcmu_sts \<Rightarrow> tcmur_device \<times> format_next" where
  "handle_format_unit_cbk alloc sub dev rdev state ret =
     (let done_blocks = add32 (fu_done_blocks state) (u32 (fu_length state div block_size dev));
          rdev1 = (if done_blocks < num_lbas dev
                   then rdev\<lparr>format_progress := format_progress_of dev done_blocks\<rparr> else rdev);
          finished = clear_flag TCMUR_DEV_FLAG_FORMATTING rdev1;
          left = mul64 (sub64 (num_lbas dev) done_blocks) (block_size dev);
          state1 = state\<lparr>fu_offset := fu_offset state + fu_length state, fu_done_blocks := done_blocks,
                         fu_length := if left < fu_length state then left else fu_length state\<rparr>
      in
      if done_blocks = num_lbas dev then (finished, Format_done ret)
      else if done_blocks < num_lbas dev then
        if \<not> alloc then (finished, Format_done TCMU_STS_NO_RESOURCE)
        else if sub \<noteq> TCMU_STS_ASYNC_HANDLED then (finished, Format_done TCMU_STS_WR_ERR)
        else (rdev1, Format_again state1)
      else (rdev1, Format_lost))"

definition format_unit_work_fn ::
  "'s handler \<Rightarrow> nat \<Rightarrow> 's \<Rightarrow> mem \<Rightarrow> format_unit_state \<Rightarrow> (tcmu_sts \<times> iovec list \<times> 's) option" where
  "format_unit_work_fn h addr s m state =
     h_write h s (mem_write m addr (replicate (fu_length state) 0)) [\<lparr>iov_base = addr, iov_len = fu_length state\<rparr>]
       (fu_length state) (fu_offset state)"

text \<open>The chain of writes; a command that is never completed is \<open>None\<close>.\<close>

partial_function (option) format_run ::
  "'s handler \<Rightarrow> 's run_env \<Rightarrow> tcmu_device \<Rightarrow> mem \<Rightarrow> tcmur_device \<Rightarrow> 's \<Rightarrow> format_unit_state \<Rightarrow> nat \<Rightarrow>
   (tcmu_sts \<times> tcmur_device \<times> 's) option" where
  "format_run h env dev m rdev s state k = do {
     (ret, vs, s') \<leftarrow> format_unit_work_fn h (re_addr env) (re_other env k s) m state;
     (case handle_format_unit_cbk (re_alloc env (Suc k)) (re_sub env (Suc k)) dev rdev state ret of
        (rdev', Format_done r) \<Rightarrow> Some (r, rdev', s')
      | (rdev', Format_again state') \<Rightarrow> format_run h env dev m rdev' s' state' (Suc k)
      | (rdev', Format_lost) \<Rightarrow> None)
   }"

definition handle_format_unit ::
  "'s handler \<Rightarrow> 's run_env \<Rightarrow> tcmu_device \<Rightarrow> mem \<Rightarrow> tcmur_device \<Rightarrow> 's \<Rightarrow> tcmulib_cmd \<Rightarrow>
   (completion \<times> tcmulib_cmd \<times> tcmur_device \<times> 's) option" where
  "handle_format_unit h env dev m rdev s cmd =
     (if has_flag TCMUR_DEV_FLAG_FORMATTING rdev
      then Some (Returned TCMU_STS_FRMT_IN_PROGRESS,
                 cmd\<lparr>sense_buf := tcmu_set_sense_key_specific_info (sense_buf cmd) (format_progress rdev)\<rparr>, rdev, s)
      else do {
        let rdev1 = set_flag TCMUR_DEV_FLAG_FORMATTING (rdev\<lparr>format_progress := 0\<rparr>);
        let failed = Some (Returned TCMU_STS_NO_RESOURCE, cmd, clear_flag TCMUR_DEV_FLAG_FORMATTING rdev1, s);
        if \<not> re_alloc env 0 then failed
        else do {
          rounded \<leftarrow> round_up 1048576 (u32 (max_xfer_len dev * block_size dev));
          let total = mul64 (num_lbas dev) (block_size dev);
          let len = (if total < rounded then total else rounded);
          if re_sub env 0 \<noteq> TCMU_STS_ASYNC_HANDLED then failed
          else do {
            (r, rdev', s') \<leftarrow> format_run h env dev m rdev1 s \<lparr>fu_length = len, fu_offset = 0, fu_done_blocks = 0\<rparr> 0;
            Some (Finished r, cmd, rdev', s')
          }
        }
      })"

section \<open>Chunk by chunk\<close>

text \<open>
  \<open>st off\<close> is the status with which the handler ends a write at \<open>off\<close>. The chunk that a byte belongs
  to starts at the multiple of the chunk size below it.
\<close>

definition formatted ::
  "('s \<Rightarrow> mem) \<Rightarrow> (nat \<Rightarrow> tcmu_sts) \<Rightarrow> nat \<Rightarrow> nat \<Rightarrow> nat \<Rightarrow> 's \<Rightarrow> 's \<Rightarrow> nat \<Rightarrow> bool" where
  "formatted view st chunk a b s s' x \<longleftrightarrow>
     (if a \<le> x \<and> x < b then st (x div chunk * chunk) = TCMU_STS_OK \<longrightarrow> view s' x = 0 else view s' x = view s x)"

lemma format_run_chunks:
  assumes "backstore h view" "\<forall>s m iov off r vs s'. h_write h s m iov (iov_total iov) off = Some (r, vs, s') \<longrightarrow> r = st off"
    and "0 < bs" "block_size dev = bs" "num_lbas dev = N" "N < 2 ^ 32" "N * bs < 2 ^ 64" "0 < c"
    and "\<forall>k. re_sub env k = TCMU_STS_ASYNC_HANDLED" "\<forall>k. re_alloc env k"
    and "i * c < N" "fu_length state = min c (N - i * c) * bs" "fu_offset state = i * c * bs" "fu_done_blocks state = i * c"
  shows "\<exists>rdev' s'. format_run h env dev m rdev s state k = Some (st ((N - 1) div c * c * bs), rdev', s')
    \<and> \<not> has_flag TCMUR_DEV_FLAG_FORMATTING rdev'
    \<and> (\<forall>x. undisturbed view env x \<longrightarrow> formatted view st (c * bs) (i * c * bs) (N * bs) s s' x)"
  using assms(11-)
proof (induction "N - i * c" arbitrary: i state rdev s k rule: less_induct)
  case less
  define l where "l = min c (N - i * c)"
  have l: "0 < l" "i * c + l \<le> N" "l \<le> c" using less.prems(1) assms(8) by (auto simp: l_def)
  let ?iov = "[\<lparr>iov_base = re_addr env, iov_len = l * bs\<rparr>]"
  let ?m = "mem_write m (re_addr env) (replicate (l * bs) 0)" and ?s = "re_other env k s"
  have "gather ?m ?iov = replicate (l * bs) 0"
    using mem_read_write_same [of m "re_addr env" "replicate (l * bs) 0"] by simp
  then obtain r vs s1 where w: "h_write h ?s ?m ?iov (iov_total ?iov) (i * c * bs) = Some (r, vs, s1)"
    "r = TCMU_STS_OK \<longrightarrow> view s1 = mem_write (view ?s) (i * c * bs) (replicate (l * bs) 0)"
    "\<forall>x. x < i * c * bs \<or> i * c * bs + iov_total ?iov \<le> x \<longrightarrow> view s1 x = view ?s x"
    using backstore.write_law [OF assms(1), of ?s ?m ?iov "i * c * bs"] by metis
  have r: "r = st (i * c * bs)" using assms(2) w(1) by blast
  have work: "format_unit_work_fn h (re_addr env) ?s m state = Some (r, vs, s1)"
    using w(1) less.prems(2,3) by (simp add: format_unit_work_fn_def l_def)
  have this_chunk: "formatted view st (c * bs) (i * c * bs) ((i * c + l) * bs) s s1 x" if "undisturbed view env x" for x
  proof (cases "i * c * bs \<le> x \<and> x < (i * c + l) * bs")
    case True
    have "(i * c + l) * bs \<le> (i + 1) * (c * bs)" using l(3) by (simp add: algebra_simps)
    then have "x < (i + 1) * (c * bs)" using True by linarith
    then have "x div (c * bs) = i" using True by (intro div_nat_eqI) (auto simp: algebra_simps)
    then show ?thesis using True w(2) r by (auto simp: formatted_def mem_write_def algebra_simps)
  next
    case False
    then have "view s1 x = view ?s x" using w(3) by (auto simp: algebra_simps)
    then show ?thesis using False that by (auto simp: formatted_def undisturbed_def)
  qed
  have len: "fu_length state = l * bs" using less.prems(2) by (simp add: l_def)
  have "i * c + l < 2 ^ 32" "l < 2 ^ 32" using l(2) assms(6) by linarith+
  then have blocks: "add32 (fu_done_blocks state) (u32 (fu_length state div block_size dev)) = i * c + l"
    using less.prems(3) len assms(3,4) less.prems(4) by (simp add: u32_id add32_id)
  show ?case
  proof (cases "i * c + l = N")
    case True
    have "(N - 1) div c = i" using l True by (intro div_nat_eqI) (auto simp: algebra_simps)
    then have "format_run h env dev m rdev s state k = Some (st ((N - 1) div c * c * bs),
        clear_flag TCMUR_DEV_FLAG_FORMATTING rdev, s1)"
      using work r blocks True assms(5)
      by (subst format_run.simps) (simp add: handle_format_unit_cbk_def Let_def)
    then show ?thesis using this_chunk True by auto
  next
    case False
    then have lt: "i * c + l < N" using l(2) by simp
    then have lc: "l = c" by (auto simp: l_def min_def split: if_splits)
    define state' where "state' = state\<lparr>fu_offset := fu_offset state + fu_length state, fu_done_blocks := i * c + c,
        fu_length := min (l * bs) ((N - (i * c + c)) * bs)\<rparr>"
    define rdev' where "rdev' = rdev\<lparr>format_progress := format_progress_of dev (i * c + c)\<rparr>"
    have "N \<le> N * bs" using assms(3) by simp
    then have N64: "N < 2 ^ 64" using assms(7) by linarith
    have "(N - (i * c + c)) * bs \<le> N * bs" by simp
    then have "mul64 (N - (i * c + c)) bs = (N - (i * c + c)) * bs" using assms(7) by (intro mul64_id) linarith
    then have left: "mul64 (sub64 N (i * c + c)) bs = (N - (i * c + c)) * bs"
      using N64 lt lc sub64_id [of "i * c + c" N] by simp
    have cbk: "handle_format_unit_cbk (re_alloc env (Suc k)) (re_sub env (Suc k)) dev rdev state r = (rdev', Format_again state')"
      using blocks lt lc assms(4,5,9,10) left len
      by (simp add: handle_format_unit_cbk_def Let_def state'_def rdev'_def min_def not_less)
    have "N - Suc i * c < N - i * c" "Suc i * c < N" using lt lc l(1) by auto
    moreover have "fu_length state' = min c (N - Suc i * c) * bs"
      by (simp add: state'_def lc min_def add.commute)
    moreover have "fu_offset state' = Suc i * c * bs" "fu_done_blocks state' = Suc i * c"
      using less.prems(3) len lc by (simp_all add: state'_def algebra_simps)
    ultimately obtain rdev2 s2 where run: "format_run h env dev m rdev' s1 state' (Suc k) = Some (st ((N - 1) div c * c * bs), rdev2, s2)"
      "\<not> has_flag TCMUR_DEV_FLAG_FORMATTING rdev2"
      "\<forall>x. undisturbed view env x \<longrightarrow> formatted view st (c * bs) (Suc i * c * bs) (N * bs) s1 s2 x"
      using less.hyps [of "Suc i" state' rdev' s1 "Suc k"] by blast
    have "format_run h env dev m rdev s state k = format_run h env dev m rdev' s1 state' (Suc k)"
      using work cbk by (subst format_run.simps) simp
    moreover have "formatted view st (c * bs) (i * c * bs) (N * bs) s s2 x" if "undisturbed view env x" for x
    proof -
      define A M E where "A = i * c * bs" and "M = Suc i * c * bs" and "E = N * bs"
      have "M \<le> E" unfolding M_def E_def using lt lc by (intro mult_le_mono1) simp
      moreover have "A \<le> M" "(i * c + l) * bs = M" using lc by (simp_all add: A_def M_def algebra_simps)
      ultimately show ?thesis using this_chunk [OF that] run(3) that
        unfolding formatted_def A_def [symmetric] M_def [symmetric] E_def [symmetric] by (auto split: if_splits)
    qed
    ultimately show ?thesis using run by auto
  qed
qed


text \<open>A store whose first chunk cannot be written.\<close>

definition bad_start :: "mem handler" where
  "bad_start = \<lparr>h_read = (\<lambda>s m iov len off. Some (TCMU_STS_RD_ERR, m, iov, s)),
     h_write = (\<lambda>s m iov len off. if off = 0 then Some (TCMU_STS_WR_ERR, iov, s)
                                   else Some (TCMU_STS_OK, iov, mem_write s off (gather m iov))),
     h_flush = None, h_unmap = None\<rparr>"

lemma bad_start_backstore: "backstore bad_start (\<lambda>s. s)"
  by unfold_locales (auto simp: bad_start_def mem_write_out)

definition bad_env :: "mem run_env" where
  "bad_env = \<lparr>re_sub = (\<lambda>_. TCMU_STS_ASYNC_HANDLED), re_alloc = (\<lambda>_. True), re_other = (\<lambda>_ s. s), re_addr = 5000\<rparr>"


end
