(* ===== verification/Tcmur_Xcopy.thy ===== *)
theory Tcmur_Xcopy
  imports Tcmu_Emul Tcmur_Rw
begin

unbundle bit_operations_syntax

text \<open>
  EXTENDED COPY and RECEIVE COPY RESULTS of \<open>tcmur_cmd_handler.c\<close>: parsing of the parameter list,
  identification of the two devices by their NAA designators, and the copy loop, a chain of reads from the
  source and writes to the destination. Devices are indices into the list \<open>ctx->devices\<close>; each has its
  handler and its store. Reads outside the parameter list, and a use of a device that was not found, are
  \<open>None\<close>. Other commands do not touch the two stores while the copy runs.
\<close>

record xdev =
  x_dev :: tcmu_device
  x_wwn :: "string option"

record xcopy =
  xc_src_dev :: "nat option"
  xc_src_wwn :: "byte list"
  xc_dst_dev :: "nat option"
  xc_dst_wwn :: "byte list"
  xc_src_lba :: nat
  xc_dst_lba :: nat
  xc_stdi :: nat
  xc_dtdi :: nat
  xc_lba_cnt :: nat
  xc_copy_lbas :: nat
  xc_iov_len :: nat

definition xcopy_zero :: xcopy where
  "xcopy_zero = \<lparr>xc_src_dev = None, xc_src_wwn = replicate 16 0, xc_dst_dev = None, xc_dst_wwn = replicate 16 0,
     xc_src_lba = 0, xc_dst_lba = 0, xc_stdi = 0, xc_dtdi = 0, xc_lba_cnt = 0, xc_copy_lbas = 0, xc_iov_len = 0\<rparr>"

text \<open>Reading \<open>n\<close> bytes of the parameter list.\<close>

definition par_get :: "byte list \<Rightarrow> nat \<Rightarrow> nat \<Rightarrow> byte list option" where
  "par_get par off n = (if off + n \<le> length par then Some (buf_get par off n) else None)"

section \<open>Segment descriptors\<close>

text \<open>\<open>sdll\<close> arrives as a \<open>uint8_t\<close>; the status and the fields found.\<close>

definition xcopy_parse_segment_descs :: "byte list \<Rightarrow> nat \<Rightarrow> xcopy \<Rightarrow> nat \<Rightarrow> (tcmu_sts \<times> xcopy) option" where
  "xcopy_parse_segment_descs par seg xc sdll =
     (if sdll mod 28 \<noteq> 0 then Some (TCMU_STS_INVALID_PARAM_LIST, xc)
      else if sdll > 28 then Some (TCMU_STS_INVALID_PARAM_LIST, xc)
      else do {
        typ \<leftarrow> par_get par seg 1;
        if typ \<noteq> [0x02] then Some (TCMU_STS_NOTSUPP_SEG_DESC_TYPE, xc)
        else do {
          desc_len \<leftarrow> par_get par (seg + 2) 2;
          if be_dec desc_len mod 256 \<noteq> 0x18 then Some (TCMU_STS_INVALID_PARAM_LIST, xc)
          else do {
            stdi \<leftarrow> par_get par (seg + 4) 2;
            dtdi \<leftarrow> par_get par (seg + 6) 2;
            cnt \<leftarrow> par_get par (seg + 10) 2;
            src \<leftarrow> par_get par (seg + 12) 8;
            dst \<leftarrow> par_get par (seg + 20) 8;
            Some (TCMU_STS_OK, xc\<lparr>xc_stdi := be_dec stdi, xc_dtdi := be_dec dtdi, xc_lba_cnt := be_dec cnt,
                                  xc_src_lba := be_dec src, xc_dst_lba := be_dec dst\<rparr>)
          }
        }
      })"

section \<open>Target descriptors\<close>

fun xcopy_fill :: "byte list \<Rightarrow> string \<Rightarrow> nat \<Rightarrow> bool \<Rightarrow> byte list" where
  "xcopy_fill wwn [] ind nxt = wwn"
| "xcopy_fill wwn (c # cs) ind nxt =
     (if ind < 16 then
        case char_to_hex c of
          None \<Rightarrow> xcopy_fill wwn cs ind nxt
        | Some v \<Rightarrow> if nxt then xcopy_fill (wwn[ind := wwn ! ind OR v]) cs (Suc ind) False
                    else xcopy_fill (wwn[ind := push_bit 4 v]) cs ind True
      else wwn)"

text \<open>\<open>None\<close>: the serial number could not be read.\<close>

definition xcopy_gen_naa_ieee :: "string option \<Rightarrow> byte list option" where
  "xcopy_gen_naa_ieee wwn =
     (case wwn of None \<Rightarrow> None | Some s \<Rightarrow> Some (xcopy_fill ([0x60, 0x01, 0x40, 0x50] @ replicate 12 0) s 3 True))"

text \<open>\<open>None\<close>: not found (or the serial number of a device on the way could not be read).\<close>

fun xcopy_locate_udev :: "xdev list \<Rightarrow> nat \<Rightarrow> byte list \<Rightarrow> nat option" where
  "xcopy_locate_udev [] i dev_wwn = None"
| "xcopy_locate_udev (d # ds) i dev_wwn =
     (case xcopy_gen_naa_ieee (x_wwn d) of
        None \<Rightarrow> None
      | Some wwn \<Rightarrow> if wwn \<noteq> dev_wwn then xcopy_locate_udev ds (Suc i) dev_wwn else Some i)"

definition xcopy_parse_target_id ::
  "xdev list \<Rightarrow> nat \<Rightarrow> xcopy \<Rightarrow> byte list \<Rightarrow> nat \<Rightarrow> nat \<Rightarrow> (tcmu_sts \<times> xcopy) option" where
  "xcopy_parse_target_id ctx udev xc par tgt index =
     (case xcopy_gen_naa_ieee (x_wwn (ctx ! udev)) of
        None \<Rightarrow> Some (TCMU_STS_HW_ERR, xc)
      | Some wwn \<Rightarrow> do {
          b4 \<leftarrow> par_get par (tgt + 4) 1;
          if (b4 ! 0) AND 0x0f \<noteq> 0x1 then Some (TCMU_STS_INVALID_PARAM_LIST, xc)
          else do {
            b5 \<leftarrow> par_get par (tgt + 5) 1;
            if (b5 ! 0) AND 0x30 \<noteq> 0 then Some (TCMU_STS_INVALID_PARAM_LIST, xc)
            else if (b5 ! 0) AND 0x0f \<noteq> 0x3 then Some (TCMU_STS_INVALID_PARAM_LIST, xc)
            else do {
              b7 \<leftarrow> par_get par (tgt + 7) 1;
              if b7 ! 0 \<noteq> 16 then Some (TCMU_STS_INVALID_PARAM_LIST, xc)
              else do {
                b8 \<leftarrow> par_get par (tgt + 8) 1;
                if drop_bit 4 (b8 ! 0) \<noteq> 0x06 then Some (TCMU_STS_INVALID_PARAM_LIST, xc)
                else if index \<noteq> xc_stdi xc \<and> index \<noteq> xc_dtdi xc then Some (TCMU_STS_OK, xc)
                else do {
                  naa \<leftarrow> par_get par (tgt + 8) 16;
                  let xc1 = (if index = xc_stdi xc
                             then (if wwn = naa then xc\<lparr>xc_src_wwn := naa, xc_src_dev := Some udev\<rparr> else xc\<lparr>xc_src_wwn := naa\<rparr>)
                             else xc);
                  let xc2 = (if index = xc_dtdi xc
                             then (if wwn = naa then xc1\<lparr>xc_dst_wwn := naa, xc_dst_dev := Some udev\<rparr> else xc1\<lparr>xc_dst_wwn := naa\<rparr>)
                             else xc1);
                  Some (TCMU_STS_OK, xc2)
                }
              }
            }
          }
        })"

text \<open>The loop over the two target descriptors: \<open>n\<close> left.\<close>

fun xcopy_target_loop ::
  "xdev list \<Rightarrow> nat \<Rightarrow> xcopy \<Rightarrow> byte list \<Rightarrow> nat \<Rightarrow> nat \<Rightarrow> nat \<Rightarrow> (tcmu_sts \<times> xcopy) option" where
  "xcopy_target_loop ctx udev xc par tgt i 0 = Some (TCMU_STS_OK, xc)"
| "xcopy_target_loop ctx udev xc par tgt i (Suc n) = do {
     typ \<leftarrow> par_get par tgt 1;
     if typ \<noteq> [0xe4] then Some (TCMU_STS_NOTSUPP_TGT_DESC_TYPE, xc)
     else do {
       (ret, xc') \<leftarrow> xcopy_parse_target_id ctx udev xc par tgt i;
       if ret \<noteq> TCMU_STS_OK then Some (ret, xc') else xcopy_target_loop ctx udev xc' par (tgt + 32) (Suc i) n
     }
   }"

definition xcopy_parse_target_descs ::
  "xdev list \<Rightarrow> nat \<Rightarrow> xcopy \<Rightarrow> byte list \<Rightarrow> nat \<Rightarrow> nat \<Rightarrow> (tcmu_sts \<times> xcopy) option" where
  "xcopy_parse_target_descs ctx udev xc par tgt tdll =
     (if tdll > 64 then Some (TCMU_STS_INVALID_PARAM_LIST, xc)
      else do {
        (ret, xc1) \<leftarrow> xcopy_target_loop ctx udev xc par tgt 0 2;
        if ret \<noteq> TCMU_STS_OK then Some (ret, xc1)
        else if xc_src_dev xc1 \<noteq> None then
          (case xcopy_locate_udev ctx 0 (xc_dst_wwn xc1) of
             None \<Rightarrow> Some (TCMU_STS_CP_TGT_DEV_NOTCONN, xc1)
           | Some d \<Rightarrow> Some (TCMU_STS_OK, xc1\<lparr>xc_dst_dev := Some d\<rparr>))
        else if xc_dst_dev xc1 \<noteq> None then
          (case xcopy_locate_udev ctx 0 (xc_src_wwn xc1) of
             None \<Rightarrow> Some (TCMU_STS_CP_TGT_DEV_NOTCONN, xc1)
           | Some d \<Rightarrow> Some (TCMU_STS_OK, xc1\<lparr>xc_src_dev := Some d\<rparr>))
        else None
      })"

section \<open>The parameter list\<close>

definition xcopy_parse_parameter_list ::
  "bool \<Rightarrow> mem \<Rightarrow> xdev list \<Rightarrow> nat \<Rightarrow> tcmulib_cmd \<Rightarrow> (tcmu_sts \<times> xcopy) option" where
  "xcopy_parse_parameter_list alloc m ctx udev cmd = do {
     data_length \<leftarrow> tcmu_get_xfer_length (cdb cmd);
     if \<not> alloc then Some (TCMU_STS_NO_RESOURCE, xcopy_zero)
     else
       (case tcmu_memcpy_from_iovec m (replicate data_length 0) data_length (cmd_iovs cmd) of (copied, par, vs) \<Rightarrow> do {
          b \<leftarrow> par_get par 0 2;
          if (b ! 1) AND 0x18 \<noteq> 0x18 \<or> b ! 0 \<noteq> 0 then Some (TCMU_STS_INVALID_PARAM_LIST, xcopy_zero)
          else do {
            t \<leftarrow> par_get par 2 2;
            let tdll = be_dec t;
            if tdll mod 32 \<noteq> 0 then Some (TCMU_STS_INVALID_PARAM_LIST_LEN, xcopy_zero)
            else do {
              sd \<leftarrow> par_get par 8 4;
              let sdll = u16 (be_dec sd);
              if sdll < 8 then Some (TCMU_STS_INVALID_PARAM_LIST_LEN, xcopy_zero)
              else if tdll + sdll > 1024 then Some (TCMU_STS_INVALID_PARAM_LIST_LEN, xcopy_zero)
              else do {
                il \<leftarrow> par_get par 12 4;
                if data_length < add32 (16 + tdll + sdll) (be_dec il) then Some (TCMU_STS_INVALID_PARAM_LIST_LEN, xcopy_zero)
                else do {
                  (ret, xc) \<leftarrow> xcopy_parse_segment_descs par (16 + tdll) xcopy_zero (sdll mod 256);
                  if ret \<noteq> TCMU_STS_OK then Some (ret, xc)
                  else do {
                    (ret, xc) \<leftarrow> xcopy_parse_target_descs ctx udev xc par 16 tdll;
                    if ret \<noteq> TCMU_STS_OK then Some (ret, xc)
                    else do {
                      si \<leftarrow> xc_src_dev xc;
                      di \<leftarrow> xc_dst_dev xc;
                      let src = x_dev (ctx ! si);
                      let dst = x_dev (ctx ! di);
                      if block_size src \<noteq> block_size dst then Some (TCMU_STS_INVALID_CP_TGT_DEV_TYPE, xc)
                      else if add64 (xc_src_lba xc) (xc_lba_cnt xc) > num_lbas src then Some (TCMU_STS_RANGE, xc)
                      else if add64 (xc_dst_lba xc) (xc_lba_cnt xc) > num_lbas dst then Some (TCMU_STS_RANGE, xc)
                      else Some (TCMU_STS_OK, xc)
                    }
                  }
                }
              }
            }
          }
        })
   }"

section \<open>Copying\<close>

text \<open>The callback of a write: \<open>Inl\<close> the status that completes the command, \<open>Inr\<close> the next chunk.\<close>

definition handle_xcopy_write_cbk :: "tcmu_sts \<Rightarrow> xcopy \<Rightarrow> tcmu_sts \<Rightarrow> tcmu_sts + xcopy" where
  "handle_xcopy_write_cbk sub xc ret =
     (let left = sub32 (xc_lba_cnt xc) (xc_copy_lbas xc);
          xc' = xc\<lparr>xc_lba_cnt := left, xc_src_lba := add64 (xc_src_lba xc) (xc_copy_lbas xc),
                   xc_dst_lba := add64 (xc_dst_lba xc) (xc_copy_lbas xc), xc_copy_lbas := min left (xc_copy_lbas xc)\<rparr>
      in
      if ret \<noteq> TCMU_STS_OK then Inl ret
      else if left = 0 then Inl ret
      else if sub \<noteq> TCMU_STS_ASYNC_HANDLED then Inl sub
      else Inr xc')"

definition xcopy_read_work_fn ::
  "(nat \<Rightarrow> 's handler) \<Rightarrow> xdev list \<Rightarrow> nat \<Rightarrow> nat \<Rightarrow> mem \<Rightarrow> (nat \<Rightarrow> 's) \<Rightarrow> xcopy \<Rightarrow> (tcmu_sts \<times> mem \<times> (nat \<Rightarrow> 's)) option" where
  "xcopy_read_work_fn hs ctx addr si m sts xc = do {
     (ret, m', vs, s') \<leftarrow> h_read (hs si) (sts si) m [\<lparr>iov_base = addr, iov_len = xc_iov_len xc\<rparr>] (xc_iov_len xc)
        (mul64 (block_size (x_dev (ctx ! si))) (xc_src_lba xc));
     Some (ret, m', sts(si := s'))
   }"

definition xcopy_write_work_fn ::
  "(nat \<Rightarrow> 's handler) \<Rightarrow> xdev list \<Rightarrow> nat \<Rightarrow> nat \<Rightarrow> mem \<Rightarrow> (nat \<Rightarrow> 's) \<Rightarrow> xcopy \<Rightarrow> (tcmu_sts \<times> (nat \<Rightarrow> 's)) option" where
  "xcopy_write_work_fn hs ctx addr di m sts xc = do {
     (ret, vs, s') \<leftarrow> h_write (hs di) (sts di) m [\<lparr>iov_base = addr, iov_len = xc_iov_len xc\<rparr>] (xc_iov_len xc)
        (mul64 (block_size (x_dev (ctx ! di))) (xc_dst_lba xc));
     Some (ret, sts(di := s'))
   }"

text \<open>The chunk \<open>k\<close>: its read, \<open>handle_xcopy_read_cbk\<close>, its write, \<open>handle_xcopy_write_cbk\<close>.\<close>

partial_function (option) xcopy_run ::
  "(nat \<Rightarrow> 's handler) \<Rightarrow> (nat \<Rightarrow> tcmu_sts) \<Rightarrow> xdev list \<Rightarrow> nat \<Rightarrow> nat \<Rightarrow> nat \<Rightarrow> mem \<Rightarrow> (nat \<Rightarrow> 's) \<Rightarrow> xcopy \<Rightarrow> nat \<Rightarrow>
   (tcmu_sts \<times> (nat \<Rightarrow> 's)) option" where
  "xcopy_run hs sub ctx addr si di m sts xc k = do {
     (ret, m1, sts1) \<leftarrow> xcopy_read_work_fn hs ctx addr si m sts xc;
     if ret \<noteq> TCMU_STS_OK then Some (ret, sts1)
     else if sub (2 * k + 1) \<noteq> TCMU_STS_ASYNC_HANDLED then Some (sub (2 * k + 1), sts1)
     else do {
       (ret2, sts2) \<leftarrow> xcopy_write_work_fn hs ctx addr di m1 sts1 xc;
       (case handle_xcopy_write_cbk (sub (2 * k + 2)) xc ret2 of
          Inl r \<Rightarrow> Some (r, sts2)
        | Inr xc' \<Rightarrow> xcopy_run hs sub ctx addr si di m1 sts2 xc' (Suc k))
     }
   }"

definition handle_xcopy ::
  "(nat \<Rightarrow> 's handler) \<Rightarrow> (nat \<Rightarrow> tcmu_sts) \<Rightarrow> (nat \<Rightarrow> bool) \<Rightarrow> nat \<Rightarrow> xdev list \<Rightarrow> nat \<Rightarrow> mem \<Rightarrow> (nat \<Rightarrow> 's) \<Rightarrow> tcmulib_cmd \<Rightarrow>
   (completion \<times> (nat \<Rightarrow> 's)) option" where
  "handle_xcopy hs sub alloc addr ctx udev m sts cmd = do {
     data_length \<leftarrow> tcmu_get_xfer_length (cdb cmd);
     if data_length = 0 then Some (Returned TCMU_STS_OK, sts)
     else if data_length < 16 then Some (Returned TCMU_STS_INVALID_PARAM_LIST_LEN, sts)
     else if \<not> alloc 0 then Some (Returned TCMU_STS_NO_RESOURCE, sts)
     else do {
       (ret, xc) \<leftarrow> xcopy_parse_parameter_list (alloc 1) m ctx udev cmd;
       if ret \<noteq> TCMU_STS_OK then Some (Returned ret, sts)
       else if xc_lba_cnt xc = 0 then Some (Returned TCMU_STS_OK, sts)
       else do {
         si \<leftarrow> xc_src_dev xc;
         di \<leftarrow> xc_dst_dev xc;
         let max_sectors = min (min (max_xfer_len (x_dev (ctx ! si))) (max_xfer_len (x_dev (ctx ! di)))) 1024;
         let copy_lbas = min max_sectors (xc_lba_cnt xc);
         let xc = xc\<lparr>xc_copy_lbas := copy_lbas, xc_iov_len := u32 (copy_lbas * block_size (x_dev (ctx ! udev)))\<rparr>;
         if \<not> alloc 2 then Some (Returned TCMU_STS_NO_RESOURCE, sts)
         else if sub 0 \<noteq> TCMU_STS_ASYNC_HANDLED then Some (Returned (sub 0), sts)
         else do {
           (r, sts') \<leftarrow> xcopy_run hs sub ctx addr si di m sts xc 0;
           Some (Finished r, sts')
         }
       }
     }
   }"

section \<open>RECEIVE COPY RESULTS\<close>

definition recv_copy_data :: "byte list" where
  "recv_copy_data =
     be_enc 4 42 @ [0x01, 0, 0, 0] @ be_enc 2 2 @ be_enc 2 1 @ be_enc 4 1024 @ be_enc 4 16777216 @ replicate 14 0 @
     be_enc 2 1 @ [1, 9, 9, 9] @ [0, 0, 0, 2] @ [0x02, 0xe4] @ replicate 82 0"

definition handle_recv_copy_result :: "mem \<Rightarrow> tcmulib_cmd \<Rightarrow> emul_result" where
  "handle_recv_copy_result m cmd =
     (case cmd_respond m cmd recv_copy_data 128 of (c, m', cmd') \<Rightarrow> Some (TCMU_STS_OK, m', cmd'))"

section \<open>The copy loop\<close>

text \<open>The number of chunks of \<open>c\<close> blocks that are copied for \<open>n\<close> blocks.\<close>

definition chunks :: "nat \<Rightarrow> nat \<Rightarrow> nat" where
  "chunks n c = (n + c - 1) div c"

lemma chunks_le: "0 < n \<Longrightarrow> n \<le> c \<Longrightarrow> chunks n c = 1"
  by (auto simp: chunks_def intro!: div_nat_eqI)

lemma chunks_step: "0 < c \<Longrightarrow> c < n \<Longrightarrow> chunks n c = Suc (chunks (n - c) c)"
proof -
  assume "0 < c" "c < n"
  then have "n + c - 1 = (n - c + c - 1) + c" by simp
  then show ?thesis using \<open>0 < c\<close> unfolding chunks_def by (metis div_add_self2 less_not_refl Suc_eq_plus1)
qed

text \<open>
  What the copy did: \<open>len\<close> bytes from \<open>src\<close> in the source are at \<open>dst\<close> in the destination, when the
  status is success; nothing outside that range was written.
\<close>

definition copied :: "('s \<Rightarrow> mem) \<Rightarrow> tcmu_sts \<Rightarrow> nat \<Rightarrow> nat \<Rightarrow> nat \<Rightarrow> 's \<Rightarrow> 's \<Rightarrow> 's \<Rightarrow> bool" where
  "copied view r src dst len s d d' \<longleftrightarrow>
     (r = TCMU_STS_OK \<longrightarrow> view d' = mem_write (view d) dst (mem_read (view s) src len))
   \<and> (\<forall>x. x < dst \<or> dst + len \<le> x \<longrightarrow> view d' x = view d x)"

lemma copied_step:
  assumes "copied view TCMU_STS_OK src dst l s d d1" "copied view r (src + l) (dst + l) k s' d1 d2" "view s' = view s"
  shows "copied view r src dst (l + k) s d d2"
proof -
  have d1: "view d1 = mem_write (view d) dst (mem_read (view s) src l)" using assms(1) by (simp add: copied_def)
  have "view d2 = mem_write (view d) dst (mem_read (view s) src (l + k))" if "r = TCMU_STS_OK"
  proof -
    have "view d2 = mem_write (view d1) (dst + length (mem_read (view s) src l)) (mem_read (view s) (src + l) k)"
      using assms(2,3) that by (simp add: copied_def)
    also have "\<dots> = mem_write (view d) dst (mem_read (view s) src l @ mem_read (view s) (src + l) k)"
      unfolding d1 by (rule mem_write_append)
    finally show ?thesis by (simp only: mem_read_add)
  qed
  moreover have "view d2 x = view d x" if "x < dst \<or> dst + (l + k) \<le> x" for x
  proof -
    have "view d2 x = view d1 x" using assms(2) that by (auto simp: copied_def)
    moreover have "view d1 x = view d x" using assms(1) that by (auto simp: copied_def)
    ultimately show ?thesis by simp
  qed
  ultimately show ?thesis by (simp add: copied_def)
qed

lemma xcopy_run_copies:
  assumes "backstore (hs si) view" "backstore (hs di) view" "si \<noteq> di" "0 < c"
    and "block_size (x_dev (ctx ! si)) = bs" "block_size (x_dev (ctx ! di)) = bs" "0 < bs"
    and "0 < n" "n < 2 ^ 32" "(src + chunks n c * c) * bs < 2 ^ 64" "(dst + chunks n c * c) * bs < 2 ^ 64"
    and "xc_lba_cnt xc = n" "xc_copy_lbas xc = min c n" "xc_iov_len xc = c * bs" "xc_src_lba xc = src" "xc_dst_lba xc = dst"
    and "\<forall>k. sub k \<noteq> TCMU_STS_OK"
  shows "\<exists>r sts'. xcopy_run hs sub ctx addr si di m sts xc k = Some (r, sts')
    \<and> view (sts' si) = view (sts si)
    \<and> copied view r (src * bs) (dst * bs) (chunks n c * c * bs) (sts si) (sts di) (sts' di)"
  using assms(8-16)
proof (induction n arbitrary: src dst xc m sts k rule: less_induct)
  case (less n)
  let ?iov = "[\<lparr>iov_base = addr, iov_len = c * bs\<rparr>]"
  have "0 < chunks n c" using chunks_le [OF less.prems(1)] chunks_step [OF assms(4)] by (cases "n \<le> c") auto
  then have one: "c \<le> chunks n c * c" by simp
  have "bs * src \<le> (src + chunks n c * c) * bs" "bs * dst \<le> (dst + chunks n c * c) * bs" by (simp_all add: algebra_simps)
  then have "bs * src < 2 ^ 64" "bs * dst < 2 ^ 64" using less.prems(3,4) by linarith+
  then have offs: "mul64 bs src = src * bs" "mul64 bs dst = dst * bs" by (simp_all add: mul64_id mult.commute)
  have "iovs_disjoint ?iov" by simp
  then obtain r m1 vs s1 where rd: "h_read (hs si) (sts si) m ?iov (c * bs) (src * bs) = Some (r, m1, vs, s1)"
    "r = TCMU_STS_OK \<longrightarrow> mem_read m1 addr (c * bs) = mem_read (view (sts si)) (src * bs) (c * bs)"
    "view s1 = view (sts si)"
    using backstore.read_law [OF assms(1), of ?iov "sts si" m "src * bs"] by auto
  obtain r2 vs2 d1 where w: "h_write (hs di) (sts di) m1 ?iov (c * bs) (dst * bs) = Some (r2, vs2, d1)"
    "r2 = TCMU_STS_OK \<longrightarrow> view d1 = mem_write (view (sts di)) (dst * bs) (mem_read m1 addr (c * bs))"
    "\<forall>x. x < dst * bs \<or> dst * bs + c * bs \<le> x \<longrightarrow> view d1 x = view (sts di) x"
    using backstore.write_law [OF assms(2), of "sts di" m1 ?iov "dst * bs"] by auto
  define sts1 where "sts1 = sts(si := s1)"
  define sts2 where "sts2 = sts1(di := d1)"
  have work: "xcopy_read_work_fn hs ctx addr si m sts xc = Some (r, m1, sts1)"
    "xcopy_write_work_fn hs ctx addr di m1 sts1 xc = Some (r2, sts2)"
    using rd(1) w(1) less.prems(7-9) assms(3,5,6) offs
    by (simp_all add: xcopy_read_work_fn_def xcopy_write_work_fn_def sts1_def sts2_def)
  have same: "view (sts1 si) = view (sts si)" "view (sts2 si) = view (sts si)" "sts1 di = sts di" "sts2 di = d1"
    using rd(3) assms(3) by (simp_all add: sts1_def sts2_def)
  have mono: "dst * bs + c * bs \<le> dst * bs + chunks n c * c * bs" using one by simp
  have fail1: "copied view r' (src * bs) (dst * bs) (chunks n c * c * bs) (sts si) (sts di) (sts1 di)" if "r' \<noteq> TCMU_STS_OK" for r'
    using that same(3) by (simp add: copied_def)
  have chunk: "copied view r2 (src * bs) (dst * bs) (c * bs) (sts si) (sts di) (sts2 di)" if "r = TCMU_STS_OK"
    using w(2,3) rd(2) that same(4) by (simp add: copied_def)
  have fail2: "copied view r' (src * bs) (dst * bs) (chunks n c * c * bs) (sts si) (sts di) (sts2 di)" if "r' \<noteq> TCMU_STS_OK" for r'
    using that w(3) le_trans [OF mono] unfolding copied_def same(4) by blast
  have left: "sub32 (xc_lba_cnt xc) (xc_copy_lbas xc) = n - min c n" using less.prems(2,5,6) by (simp add: sub32_id)
  show ?case
  proof (cases "r = TCMU_STS_OK \<and> sub (2 * k + 1) = TCMU_STS_ASYNC_HANDLED")
    case False
    let ?r = "if r \<noteq> TCMU_STS_OK then r else sub (2 * k + 1)"
    have "xcopy_run hs sub ctx addr si di m sts xc k = Some (?r, sts1)"
      using False work(1) by (subst xcopy_run.simps) auto
    moreover have "?r \<noteq> TCMU_STS_OK" using assms(17) by simp
    ultimately show ?thesis using fail1 same(1) by blast
  next
    case ok: True
    then have run: "xcopy_run hs sub ctx addr si di m sts xc k =
        (case handle_xcopy_write_cbk (sub (2 * k + 2)) xc r2 of
           Inl r \<Rightarrow> Some (r, sts2) | Inr xc' \<Rightarrow> xcopy_run hs sub ctx addr si di m1 sts2 xc' (Suc k))"
      using work by (subst xcopy_run.simps) simp
    consider (last) "r2 = TCMU_STS_OK" "n \<le> c" | (fail) "r2 \<noteq> TCMU_STS_OK \<or> (c < n \<and> sub (2 * k + 2) \<noteq> TCMU_STS_ASYNC_HANDLED)"
      | (more) "r2 = TCMU_STS_OK" "c < n" "sub (2 * k + 2) = TCMU_STS_ASYNC_HANDLED" by linarith
    then show ?thesis
    proof cases
      case last
      then have "xcopy_run hs sub ctx addr si di m sts xc k = Some (TCMU_STS_OK, sts2)"
        using run left by (simp add: handle_xcopy_write_cbk_def Let_def)
      then show ?thesis using chunk ok last same(2) chunks_le [OF less.prems(1) last(2)] by simp
    next
      case fail
      let ?r = "if r2 \<noteq> TCMU_STS_OK then r2 else sub (2 * k + 2)"
      have "xcopy_run hs sub ctx addr si di m sts xc k = Some (?r, sts2)"
        using fail run left by (auto simp: handle_xcopy_write_cbk_def Let_def)
      moreover have "?r \<noteq> TCMU_STS_OK" using assms(17) by simp
      ultimately show ?thesis using fail2 same(2) by blast
    next
      case more
      define xc' where "xc' = xc\<lparr>xc_lba_cnt := n - c, xc_src_lba := src + c, xc_dst_lba := dst + c, xc_copy_lbas := min (n - c) c\<rparr>"
      have cs: "chunks n c * c = c + chunks (n - c) c * c" using chunks_step [OF assms(4) more(2)] by simp
      have "src + c \<le> (src + chunks n c * c) * bs" "dst + c \<le> (dst + chunks n c * c) * bs"
        using one assms(7) by (simp_all add: cs trans_le_add1 add_mult_distrib)
           (metis (no_types) One_nat_def Suc_leI add_mono mult.right_neutral mult_le_mono2 trans_le_add1)+
      then have "add64 src c = src + c" "add64 dst c = dst + c"
        using less.prems(3,4) by (simp_all add: add64_id)
      then have cbk: "handle_xcopy_write_cbk (sub (2 * k + 2)) xc r2 = Inr xc'"
        using more left less.prems(5-9) by (simp add: handle_xcopy_write_cbk_def Let_def xc'_def)
      have fits: "(src + c + chunks (n - c) c * c) * bs < 2 ^ 64" "(dst + c + chunks (n - c) c * c) * bs < 2 ^ 64"
        using less.prems(3,4) by (simp_all add: cs add.assoc)
      have small: "n - c < 2 ^ 32" "n - c < n" "0 < n - c" using less.prems(2) more(2) assms(4) by simp_all
      obtain r3 sts3 where rec: "xcopy_run hs sub ctx addr si di m1 sts2 xc' (Suc k) = Some (r3, sts3)"
        "view (sts3 si) = view (sts2 si)"
        "copied view r3 ((src + c) * bs) ((dst + c) * bs) (chunks (n - c) c * c * bs) (sts2 si) (sts2 di) (sts3 di)"
        using less.IH [of "n - c" "src + c" "dst + c" xc' m1 sts2 "Suc k"] small fits less.prems(7)
        by (auto simp: xc'_def min.commute)
      have "copied view r3 (src * bs) (dst * bs) (c * bs + chunks (n - c) c * c * bs) (sts si) (sts di) (sts3 di)"
        using copied_step [of view "src * bs" "dst * bs" "c * bs" "sts si" "sts di" "sts2 di" r3 "chunks (n - c) c * c * bs" "sts2 si" "sts3 di"]
          chunk ok more(1) rec(3) same(2) by (simp add: add_mult_distrib)
      then have "copied view r3 (src * bs) (dst * bs) (chunks n c * c * bs) (sts si) (sts di) (sts3 di)"
        by (simp only: cs add_mult_distrib)
      then show ?thesis using run cbk rec same(2) by simp
    qed
  qed
qed

section \<open>What an accepted parameter list says\<close>

text \<open>A device that was found is local or has the designator that the list names.\<close>

definition ids_match :: "xdev list \<Rightarrow> xcopy \<Rightarrow> bool" where
  "ids_match ctx xc \<longleftrightarrow>
     (\<forall>u. xc_src_dev xc = Some u \<longrightarrow> u < length ctx \<and> xcopy_gen_naa_ieee (x_wwn (ctx ! u)) = Some (xc_src_wwn xc))
   \<and> (\<forall>u. xc_dst_dev xc = Some u \<longrightarrow> u < length ctx \<and> xcopy_gen_naa_ieee (x_wwn (ctx ! u)) = Some (xc_dst_wwn xc))"

definition local_before :: "nat \<Rightarrow> nat \<Rightarrow> xcopy \<Rightarrow> bool" where
  "local_before udev i xc \<longleftrightarrow>
     (xc_src_dev xc = None \<or> xc_src_dev xc = Some udev \<and> xc_stdi xc < i)
   \<and> (xc_dst_dev xc = None \<or> xc_dst_dev xc = Some udev \<and> xc_dtdi xc < i)"

definition same_extent :: "xcopy \<Rightarrow> xcopy \<Rightarrow> bool" where
  "same_extent xc xc' \<longleftrightarrow> xc_lba_cnt xc' = xc_lba_cnt xc \<and> xc_src_lba xc' = xc_src_lba xc \<and> xc_dst_lba xc' = xc_dst_lba xc"

lemma parse_target_id_ok:
  assumes "xcopy_parse_target_id ctx udev xc par tgt i = Some (TCMU_STS_OK, xc')"
    and "udev < length ctx" "local_before udev i xc" "ids_match ctx xc"
  shows "local_before udev (Suc i) xc' \<and> ids_match ctx xc' \<and> same_extent xc xc'"
  using assms unfolding xcopy_parse_target_id_def ids_match_def local_before_def same_extent_def
  by (auto simp: Let_def less_Suc_eq split: option.splits if_splits bind_splits)

lemma target_loop_ok:
  assumes "xcopy_target_loop ctx udev xc par tgt i n = Some (TCMU_STS_OK, xc')"
    and "udev < length ctx" "local_before udev i xc" "ids_match ctx xc"
  shows "local_before udev (i + n) xc' \<and> ids_match ctx xc' \<and> same_extent xc xc'"
  using assms
proof (induction ctx udev xc par tgt i n rule: xcopy_target_loop.induct)
  case (2 ctx udev xc par tgt i n)
  then obtain xc1 where one: "xcopy_parse_target_id ctx udev xc par tgt i = Some (TCMU_STS_OK, xc1)"
    "xcopy_target_loop ctx udev xc1 par (tgt + 32) (Suc i) n = Some (TCMU_STS_OK, xc')" "par_get par tgt 1 = Some [0xe4]"
    by (auto split: bind_splits if_splits)
  note step = parse_target_id_ok [OF one(1) 2(3-5)]
  from 2(1) [of "[0xe4]" "(TCMU_STS_OK, xc1)" TCMU_STS_OK xc1] one step 2(3)
  have "local_before udev (Suc i + n) xc' \<and> ids_match ctx xc' \<and> same_extent xc1 xc'" by simp
  then show ?case using step by (simp add: same_extent_def)
qed (simp add: same_extent_def)

lemma locate_udev_found:
  "xcopy_locate_udev ds i wwn = Some k \<Longrightarrow>
     i \<le> k \<and> k < i + length ds \<and> xcopy_gen_naa_ieee (x_wwn (ds ! (k - i))) = Some wwn"
proof (induction ds arbitrary: i)
  case (Cons d ds)
  show ?case
  proof (cases "xcopy_gen_naa_ieee (x_wwn d) = Some wwn")
    case False
    then have "xcopy_locate_udev ds (Suc i) wwn = Some k" using Cons.prems by (auto split: option.splits if_splits)
    from Cons.IH [OF this] show ?thesis by (auto simp: nth_Cons' Suc_le_eq)
  qed (use Cons.prems in auto)
qed simp

lemma parse_target_descs_ok:
  assumes "xcopy_parse_target_descs ctx udev xc par tgt tdll = Some (TCMU_STS_OK, xc')"
    and "udev < length ctx" "xc_src_dev xc = None" "xc_dst_dev xc = None"
  shows "\<exists>si di. xc_src_dev xc' = Some si \<and> xc_dst_dev xc' = Some di \<and> (si = udev \<or> di = udev)
    \<and> ids_match ctx xc' \<and> same_extent xc xc'"
proof -
  obtain xc1 where loop: "xcopy_target_loop ctx udev xc par tgt 0 2 = Some (TCMU_STS_OK, xc1)"
    using assms(1) unfolding xcopy_parse_target_descs_def by (auto split: if_splits bind_splits)
  have inv: "local_before udev 2 xc1" "ids_match ctx xc1" "same_extent xc xc1"
    using target_loop_ok [OF loop assms(2)] assms(3,4) by (auto simp: local_before_def ids_match_def)
  show ?thesis
    using assms(1) loop inv locate_udev_found [of ctx 0]
    unfolding xcopy_parse_target_descs_def local_before_def
    by (auto simp: ids_match_def same_extent_def split: if_splits option.splits)
qed

lemma parse_segment_ok:
  assumes "xcopy_parse_segment_descs par seg xc sdll = Some (TCMU_STS_OK, xc')"
  shows "xc_src_dev xc' = xc_src_dev xc \<and> xc_dst_dev xc' = xc_dst_dev xc \<and> xc_lba_cnt xc' < 2 ^ 16"
proof -
  obtain cnt where "par_get par (seg + 10) 2 = Some cnt" "xc_lba_cnt xc' = be_dec cnt"
    "xc_src_dev xc' = xc_src_dev xc" "xc_dst_dev xc' = xc_dst_dev xc"
    using assms unfolding xcopy_parse_segment_descs_def by (auto split: if_splits bind_splits)
  moreover from this(1) have "length cnt = 2" by (auto simp: par_get_def buf_get_def split: if_splits)
  ultimately show ?thesis using be_dec_bound [of cnt] by simp
qed

lemma parse_parameter_list_ok:
  assumes "xcopy_parse_parameter_list alloc m ctx udev cmd = Some (TCMU_STS_OK, xc)" and "udev < length ctx"
  shows "\<exists>si di. xc_src_dev xc = Some si \<and> xc_dst_dev xc = Some di \<and> (si = udev \<or> di = udev) \<and> ids_match ctx xc
    \<and> xc_lba_cnt xc < 2 ^ 16 \<and> block_size (x_dev (ctx ! si)) = block_size (x_dev (ctx ! di))
    \<and> add64 (xc_src_lba xc) (xc_lba_cnt xc) \<le> num_lbas (x_dev (ctx ! si))
    \<and> add64 (xc_dst_lba xc) (xc_lba_cnt xc) \<le> num_lbas (x_dev (ctx ! di))"
proof -
  obtain par tdll sdll xc0 si di where
    seg: "xcopy_parse_segment_descs par (16 + tdll) xcopy_zero sdll = Some (TCMU_STS_OK, xc0)"
    and tgt: "xcopy_parse_target_descs ctx udev xc0 par 16 tdll = Some (TCMU_STS_OK, xc)"
    and rest: "xc_src_dev xc = Some si" "xc_dst_dev xc = Some di"
      "block_size (x_dev (ctx ! si)) = block_size (x_dev (ctx ! di))"
      "add64 (xc_src_lba xc) (xc_lba_cnt xc) \<le> num_lbas (x_dev (ctx ! si))"
      "add64 (xc_dst_lba xc) (xc_lba_cnt xc) \<le> num_lbas (x_dev (ctx ! di))"
    using assms(1) unfolding xcopy_parse_parameter_list_def
    by (auto simp: Let_def not_less split: if_splits bind_splits prod.splits)
  have "xc_src_dev xc0 = None" "xc_dst_dev xc0 = None" "xc_lba_cnt xc0 < 2 ^ 16"
    using parse_segment_ok [OF seg] by (simp_all add: xcopy_zero_def)
  with parse_target_descs_ok [OF tgt assms(2)] rest show ?thesis by (auto simp: same_extent_def)
qed

section \<open>Properties\<close>


text \<open>
  C12: An EXTENDED COPY between two devices that was accepted completes, leaves the source as it was, and,
  on success, leaves on the destination what the source holds in as many whole chunks as cover the blocks
  to copy: the last chunk is transferred in full, so up to a chunk less one block more than the request
  named is overwritten. Nothing else on the destination changes, also when the copy fails on the way.
\<close>
theorem xcopy_copies:
  fixes n :: nat
  assumes "backstore (hs si) view" "backstore (hs di) view" and "\<And>k. sub k \<noteq> TCMU_STS_OK" and "sub 0 = TCMU_STS_ASYNC_HANDLED"
    and "\<And>k. alloc k" and "tcmu_get_xfer_length (cdb cmd) = Some len" "16 \<le> len" and "udev < length ctx"
    and "xcopy_parse_parameter_list True m ctx udev cmd = Some (TCMU_STS_OK, xc)"
    and "xc_src_dev xc = Some si" "xc_dst_dev xc = Some di" "si \<noteq> di"
    and "n = xc_lba_cnt xc" "0 < n" and "bs = block_size (x_dev (ctx ! udev))" "0 < bs" "bs < 2 ^ 22"
    and "0 < max_xfer_len (x_dev (ctx ! si))" "0 < max_xfer_len (x_dev (ctx ! di))"
    and "c = min (min (min (max_xfer_len (x_dev (ctx ! si))) (max_xfer_len (x_dev (ctx ! di)))) 1024) n"
    and "(xc_src_lba xc + chunks n c * c) * bs < 2 ^ 64" "(xc_dst_lba xc + chunks n c * c) * bs < 2 ^ 64"
  shows "\<exists>r sts'. handle_xcopy hs sub alloc addr ctx udev m sts cmd = Some (Finished r, sts')
    \<and> view (sts' si) = view (sts si)
    \<and> copied view r (xc_src_lba xc * bs) (xc_dst_lba xc * bs) (chunks n c * c * bs) (sts si) (sts di) (sts' di)"
proof -
  have blocks: "block_size (x_dev (ctx ! si)) = bs" "block_size (x_dev (ctx ! di)) = bs" "n < 2 ^ 32"
    using parse_parameter_list_ok [OF assms(9,8)] assms(10,11,13,15) by auto
  have c: "0 < c" "c \<le> n" "c \<le> 1024" using assms(14,18,19,20) by simp_all
  have "1024 * bs < 2 ^ 32" using assms(17) by simp
  then have "c * bs < 2 ^ 32" using mult_le_mono1 [OF c(3), of bs] by linarith
  then have len: "u32 (c * bs) = c * bs" by (simp add: u32_def)
  define xc' where "xc' = xc\<lparr>xc_copy_lbas := c, xc_iov_len := c * bs\<rparr>"
  obtain r sts' where run: "xcopy_run hs sub ctx addr si di m sts xc' 0 = Some (r, sts')"
    "view (sts' si) = view (sts si)"
    "copied view r (xc_src_lba xc * bs) (xc_dst_lba xc * bs) (chunks n c * c * bs) (sts si) (sts di) (sts' di)"
    using xcopy_run_copies [of hs si view di c ctx bs n "xc_src_lba xc" "xc_dst_lba xc" xc' sub addr m sts 0]
      assms(1-3,12,13,14,16,21,22) blocks c by (auto simp: xc'_def)
  have "handle_xcopy hs sub alloc addr ctx udev m sts cmd = Some (Finished r, sts')"
    using assms(4-7,9-11,13,14) run(1) assms(15,20) len unfolding handle_xcopy_def
    by (simp add: xc'_def Let_def not_less [symmetric])
  with run show ?thesis by blast
qed

text \<open>Two devices with the serial numbers 1 and 2, and a copy of four blocks from the first to the second.\<close>

definition pair_ctx :: "xdev list" where
  "pair_ctx = [\<lparr>x_dev = thin_dev, x_wwn = Some ''1''\<rparr>, \<lparr>x_dev = thin_dev, x_wwn = Some ''2''\<rparr>]"

definition naa_of :: "byte \<Rightarrow> byte list" where
  "naa_of d = [0x60, 0x01, 0x40, d, 0, 0, 0, 0, 0, 0, 0, 0, 0, 0, 0, 0]"

definition copy_list :: "byte list" where
  "copy_list =
     [0, 24, 0, 64, 0, 0, 0, 0, 0, 0, 0, 28, 0, 0, 0, 0]
      @ [228, 0, 0, 0, 1, 3, 0, 16, 96, 1, 64, 81, 0, 0, 0, 0, 0, 0, 0, 0, 0, 0, 0, 0, 0, 0, 0, 0, 0, 0, 0, 0]
      @ [228, 0, 0, 0, 1, 3, 0, 16, 96, 1, 64, 82, 0, 0, 0, 0, 0, 0, 0, 0, 0, 0, 0, 0, 0, 0, 0, 0, 0, 0, 0, 0]
      @ [2, 0, 0, 24, 0, 0, 0, 1, 0, 0, 0, 4, 0, 0, 0, 0, 0, 0, 0, 8, 0, 0, 0, 0, 0, 0, 0, 100]"

definition copy_cmd :: tcmulib_cmd where
  "copy_cmd = \<lparr>cmd_id = 1, cdb = cdb_of ([0x83, 0, 0, 0, 0, 0, 0, 0, 0, 0] @ be_enc 4 108 @ [0, 0]),
     iovec = [\<lparr>iov_base = 0, iov_len = 108\<rparr>], iov_cnt = 1, sense_buf = []\<rparr>"

definition copy_mem :: mem where
  "copy_mem x = (if x < 108 then copy_list ! x else 0)"

lemma length_copy_list: "length copy_list = 108"
  by (simp add: copy_list_def)

definition copy_xc :: xcopy where
  "copy_xc = \<lparr>xc_src_dev = Some 0, xc_src_wwn = naa_of 81, xc_dst_dev = Some 1, xc_dst_wwn = naa_of 82, xc_src_lba = 8,
     xc_dst_lba = 100, xc_stdi = 0, xc_dtdi = 1, xc_lba_cnt = 4, xc_copy_lbas = 0, xc_iov_len = 0\<rparr>"

lemma copy_list_read: "\<exists>c vs. tcmu_memcpy_from_iovec copy_mem (replicate 108 0) 108 (cmd_iovs copy_cmd) = (c, copy_list, vs)"
proof -
  have "mem_read copy_mem 0 108 = copy_list"
    by (rule nth_equalityI) (simp_all add: length_copy_list mem_read_def copy_mem_def)
  then have "gather copy_mem (cmd_iovs copy_cmd) = copy_list" "iov_total (cmd_iovs copy_cmd) = 108"
    by (simp_all add: gather_def iov_total_def cmd_iovs_def copy_cmd_def)
  then show ?thesis
    using sg.copy_out_spec [of copy_mem "replicate 108 0" 108 "cmd_iovs copy_cmd"] length_copy_list
    by (cases "tcmu_memcpy_from_iovec copy_mem (replicate 108 0) 108 (cmd_iovs copy_cmd)") auto
qed

lemma copy_ids:
  "xcopy_gen_naa_ieee (Some ''1'') = Some (naa_of 81)" "xcopy_gen_naa_ieee (Some ''2'') = Some (naa_of 82)"
  by code_simp+

lemma pair_udev [simp]:
  "x_wwn (pair_ctx ! 0) = Some ''1''" "x_dev (pair_ctx ! 0) = thin_dev" "x_dev (pair_ctx ! 1) = thin_dev" "x_dev (pair_ctx ! Suc 0) = thin_dev"
  "xcopy_locate_udev pair_ctx 0 (naa_of 82) = Some 1"
  by (simp_all add: pair_ctx_def copy_ids naa_of_def)

lemmas copy_par = par_get_def length_copy_list buf_get_def copy_list_def be_dec_def

lemma copy_fields:
  "par_get copy_list 0 2 = Some [0, 24]" "par_get copy_list 2 2 = Some [0, 64]" "par_get copy_list 8 4 = Some [0, 0, 0, 28]"
  "par_get copy_list 12 4 = Some [0, 0, 0, 0]"
  by (simp_all add: copy_par)

lemma copy_segment:
  "xcopy_parse_segment_descs copy_list 80 xcopy_zero 28 = Some (TCMU_STS_OK,
     xcopy_zero\<lparr>xc_dtdi := 1, xc_lba_cnt := 4, xc_src_lba := 8, xc_dst_lba := 100\<rparr>)"
proof -
  have "par_get copy_list 80 1 = Some [2]" "par_get copy_list 82 2 = Some [0, 24]" "par_get copy_list 84 2 = Some [0, 0]"
    "par_get copy_list 86 2 = Some [0, 1]" "par_get copy_list 90 2 = Some [0, 4]"
    "par_get copy_list 92 8 = Some [0, 0, 0, 0, 0, 0, 0, 8]" "par_get copy_list 100 8 = Some [0, 0, 0, 0, 0, 0, 0, 100]"
    by (simp_all add: copy_par)
  then show ?thesis by (simp add: xcopy_parse_segment_descs_def be_dec_def xcopy_zero_def)
qed

lemma copy_targets:
  "par_get copy_list 16 1 = Some [0xe4]" "par_get copy_list 20 1 = Some [1]" "par_get copy_list 21 1 = Some [3]"
  "par_get copy_list 23 1 = Some [16]" "par_get copy_list 24 1 = Some [0x60]" "par_get copy_list 24 16 = Some (naa_of 81)"
  "par_get copy_list 48 1 = Some [0xe4]" "par_get copy_list 52 1 = Some [1]" "par_get copy_list 53 1 = Some [3]"
  "par_get copy_list 55 1 = Some [16]" "par_get copy_list 56 1 = Some [0x60]" "par_get copy_list 56 16 = Some (naa_of 82)"
  by (simp_all add: copy_par naa_of_def)

lemma naa_of_neq: "naa_of 81 \<noteq> naa_of 82" by (simp add: naa_of_def)

lemma nib: "drop_bit 4 (0x60 :: byte) = 6" "(3 :: byte) AND 0x30 = 0" by code_simp+

lemma copy_target_loop:
  "xcopy_target_loop pair_ctx 0 (xcopy_zero\<lparr>xc_dtdi := 1, xc_lba_cnt := 4, xc_src_lba := 8, xc_dst_lba := 100\<rparr>) copy_list 16 0 2
     = Some (TCMU_STS_OK, copy_xc\<lparr>xc_dst_dev := None\<rparr>)"
  using naa_of_neq
  by (subst numeral_2_eq_2) (simp add: nib xcopy_parse_target_id_def copy_targets [simplified] copy_ids xcopy_zero_def copy_xc_def)

lemma copy_cmd_length: "tcmu_get_xfer_length (cdb copy_cmd) = Some 108"
  by code_simp

lemma xcopy_sample: "xcopy_parse_parameter_list True copy_mem pair_ctx 0 copy_cmd = Some (TCMU_STS_OK, copy_xc)"
proof -
  obtain c vs where "tcmu_memcpy_from_iovec copy_mem (replicate 108 0) 108 (cmd_iovs copy_cmd) = (c, copy_list, vs)"
    using copy_list_read by blast
  moreover have "xcopy_parse_target_descs pair_ctx 0 (xcopy_zero\<lparr>xc_dtdi := 1, xc_lba_cnt := 4, xc_src_lba := 8, xc_dst_lba := 100\<rparr>)
      copy_list 16 64 = Some (TCMU_STS_OK, copy_xc)"
    by (simp add: xcopy_parse_target_descs_def copy_target_loop [simplified]) (simp add: copy_xc_def)
  ultimately show ?thesis
    using copy_segment copy_cmd_length copy_fields unfolding xcopy_parse_parameter_list_def
    by (simp add: be_dec_def u16_def add32_def u32_def Let_def) (simp add: copy_xc_def thin_dev_def add64_def u64_def)
qed


theorem xcopy_copies_witness:
  "\<exists>r sts'. handle_xcopy (\<lambda>_. file_handler) (\<lambda>_. TCMU_STS_ASYNC_HANDLED) (\<lambda>_. True) 5000 pair_ctx 0 copy_mem
       (\<lambda>_. short_file) copy_cmd = Some (Finished r, sts')
     \<and> copied file_view r 4096 51200 2048 short_file short_file (sts' 1)"
proof -
  have c: "chunks 4 4 = 1" by (simp add: chunks_def)
  have xc: "xc_src_dev copy_xc = Some 0" "xc_dst_dev copy_xc = Some 1" "xc_lba_cnt copy_xc = 4" "xc_src_lba copy_xc = 8" "xc_dst_lba copy_xc = 100"
    by (simp_all add: copy_xc_def)
  have dev: "block_size thin_dev = 512" "max_xfer_len thin_dev = 128" by (simp_all add: thin_dev_def)
  have "0 < length pair_ctx" by (simp add: pair_ctx_def)
  from xcopy_copies [OF file_bs.backstore_axioms file_bs.backstore_axioms _ _ _ copy_cmd_length _ this xcopy_sample xc(1,2),
      where n = 4 and bs = 512 and c = 4 and sub = "\<lambda>_. TCMU_STS_ASYNC_HANDLED" and alloc = "\<lambda>_. True"
        and addr = 5000 and sts = "\<lambda>_. short_file"]
  show ?thesis by (simp add: xc dev c) blast
qed

section \<open>The designator that INQUIRY reports\<close>

lemma buf_get_update_in:
  "p \<le> j \<Longrightarrow> j < p + n \<Longrightarrow> p + n \<le> length d \<Longrightarrow> buf_get (d[j := v]) p n = (buf_get d p n)[j - p := v]"
  by (intro nth_equalityI) (auto simp: buf_get_def nth_list_update)

lemma naa_fill_designator:
  "p + 20 \<le> length d \<Longrightarrow> buf_get (naa_fill d p cs (ind + 4) nxt) (p + 4) 16 = xcopy_fill (buf_get d (p + 4) 16) cs ind nxt"
proof (induction "buf_get d (p + 4) 16" cs ind nxt arbitrary: d rule: xcopy_fill.induct)
  case (2 c cs ind nxt)
  have nth: "ind < 16 \<Longrightarrow> buf_get d (p + 4) 16 ! ind = d ! (p + (ind + 4))"
    using 2(4) by (simp add: buf_get_def ac_simps)
  have upd: "ind < 16 \<Longrightarrow> buf_get (d[p + (ind + 4) := v]) (p + 4) 16 = (buf_get d (p + 4) 16)[ind := v]" for v
    using 2(4) by (simp add: buf_get_update_in)
  show ?case
    using 2(1) 2(2) [of _ "d[p + (ind + 4) := d ! (p + (ind + 4)) OR _]"] 2(3) [of _ "d[p + (ind + 4) := push_bit 4 _]"] 2(4)
    by (auto simp: upd nth split: option.splits)
qed simp

lemma evpd_83_ids_naa:
  assumes "length wwn \<le> 246"
  defines "p \<equiv> length wwn + 17"
  shows "\<exists>d. evpd_83_ids ((replicate 512 0)[1 := 0x83]) wwn = Some (length wwn + 33, naa_fill d p wwn 7 True) \<and> length d = 512
    \<and> buf_get d (p + 4) 16 = [0x60, 0x01, 0x40, 0x50] @ replicate 12 0"
proof -
  let ?d1 = "buf_put (buf_put ((replicate 512 0)[1 := 0x83]) 4 [2, 1]) 8 (bytes_of ''LIO-ORG '') :: byte list"
  define d2 where "d2 = buf_put ?d1 16 (bytes_of wwn @ [0])"
  have sn: "snprintf ?d1 16 (512 - 16) wwn = Some (length wwn, d2)" using assms(1) by (simp add: snprintf_def d2_def)
  have len2: "length d2 = 512" using assms(1) by (simp add: d2_def)
  have l: "unat (of_nat (9 + length wwn) :: byte) = length wwn + 9"
    using assms(1) by (simp add: unat_of_nat_byte del: of_nat_add of_nat_Suc)
  define d3 where "d3 = buf_put (buf_put (buf_put (buf_put d2 7 [of_nat (9 + length wwn)]) p [1, 3]) (p + 3) [16]) (p + 4) [0x60, 0x01, 0x40, 0x50]"
  have len3: "length d3 = 512" using len2 assms(1) by (simp add: d3_def p_def del: of_nat_add of_nat_Suc)
  have run: "evpd_83_ids ((replicate 512 0)[1 := 0x83]) wwn = Some (length wwn + 33, naa_fill d3 p wwn 7 True)"
    using assms(1) sn len2 unfolding d3_def p_def
    by (simp add: evpd_83_ids_def l Let_def del: of_nat_add of_nat_Suc) (simp add: ac_simps)
  have "d3 ! (p + 4 + i) = ([0x60, 0x01, 0x40, 0x50] @ replicate 12 0) ! i" if "i < 16" for i
    using that assms(1) len2 unfolding d3_def p_def
    by (simp add: nth_buf_put nth_append d2_def nth_list_update nth_Cons' del: of_nat_add of_nat_Suc)
  then have "buf_get d3 (p + 4) 16 = [0x60, 0x01, 0x40, 0x50] @ replicate 12 0"
    using len3 assms(1) by (intro nth_equalityI) (simp_all add: buf_get_def p_def)
  then show ?thesis using run len3 by blast
qed

text \<open>
  C26: The designator with which EXTENDED COPY identifies a device (\<open>xcopy_gen_naa_ieee\<close>) is, byte for
  byte, the NAA designator that the device identification page of INQUIRY reports for it, for every serial number that
  page has room for: the two independent generators are equivalent.
\<close>
theorem xcopy_naa_matches:
  assumes "length wwn \<le> 246"
  shows "\<exists>data. evpd_83_ids ((replicate 512 0)[1 := 0x83]) wwn = Some (length wwn + 33, data)
    \<and> xcopy_gen_naa_ieee (Some wwn) = Some (buf_get data (length wwn + 21) 16)"
proof -
  define p where "p = length wwn + 17"
  have p4: "length wwn + 21 = p + 4" by (simp add: p_def)
  obtain d where d: "evpd_83_ids ((replicate 512 0)[1 := 0x83]) wwn = Some (length wwn + 33, naa_fill d p wwn 7 True)"
    "length d = 512" "buf_get d (p + 4) 16 = [0x60, 0x01, 0x40, 0x50] @ replicate 12 0"
    using evpd_83_ids_naa [OF assms] unfolding p_def by blast
  have "p + 20 \<le> length d" using assms d(2) by (simp add: p_def)
  from naa_fill_designator [OF this, of wwn 3 True] d show ?thesis by (simp add: xcopy_gen_naa_ieee_def p4)
qed

theorem xcopy_naa_matches_witness:
  "\<exists>data. evpd_83_ids ((replicate 512 0)[1 := 0x83]) ''a-7'' = Some (36, data)
    \<and> xcopy_gen_naa_ieee (Some ''a-7'') = Some (buf_get data 24 16)"
  using xcopy_naa_matches [of "''a-7''"] by simp

end
