(* ===== verification/Tcmur_Dispatch.thy ===== *)
theory Tcmur_Dispatch
  imports Tcmu_Alua Tcmur_Caw Tcmur_Format Tcmur_Xcopy
begin

unbundle bit_operations_syntax

text \<open>
  The command dispatch of the runner (\<open>tcmur_cmd_handler.c\<close>): unit attentions, the format check, the handler's own
  command processing, the emulated commands, and the commands that access the medium behind the checks for
  recovery and failover. This theory puts the components together: the state has the device, the runner's
  device with its request tracking, configfs, the memory and the stores of the devices. A command ends with the status
  returned, or later with the one its callback gives; a command that the handler has taken over is
  \<open>Returned TCMU_STS_ASYNC_HANDLED\<close>. Calling a function the handler does not have is \<open>None\<close>.
\<close>

record 's runner =
  ru_dev :: tcmu_device
  ru_rdev :: tcmur_device
  ru_cf :: cfgfs
  ru_mem :: mem
  ru_stores :: "nat \<Rightarrow> 's"

text \<open>
  The environment: the handlers of all devices, the index of this one, what the system and other threads
  do, whether the handler has \<open>lock\<close> and \<open>get_lock_tag\<close>, whether the lock thread starts, the ALUA directory, the
  serial number, the uninitialised buffer of MODE SELECT, and the handler's \<open>handle_cmd\<close>.
\<close>

record 's runner_env =
  rn_handlers :: "nat \<Rightarrow> 's handler"
  rn_udev :: nat
  rn_ctx :: "xdev list"
  rn_run :: "'s run_env"
  rn_dev :: dev_env
  rn_lock :: bool
  rn_tag :: bool
  rn_thread :: bool
  rn_dirs :: "string list option"
  rn_wwn :: "string option"
  rn_garbage :: "byte list"
  rn_handle_cmd :: "('s runner \<Rightarrow> tcmulib_cmd \<Rightarrow> tcmu_sts \<times> tcmulib_cmd \<times> 's runner) option"

type_synonym 's outcome = "(completion \<times> tcmulib_cmd \<times> 's runner) option"

abbreviation rn_handler :: "'s runner_env \<Rightarrow> 's handler" where
  "rn_handler env \<equiv> rn_handlers env (rn_udev env)"

abbreviation ru_store :: "'s runner_env \<Rightarrow> 's runner \<Rightarrow> 's" where
  "ru_store env ru \<equiv> ru_stores ru (rn_udev env)"

definition set_store :: "'s runner_env \<Rightarrow> 's runner \<Rightarrow> 's \<Rightarrow> 's runner" where
  "set_store env ru s = ru\<lparr>ru_stores := (ru_stores ru)(rn_udev env := s)\<rparr>"

section \<open>Unit attentions\<close>

definition tcmur_set_pending_ua :: "tcmur_device \<Rightarrow> nat \<Rightarrow> tcmur_device" where
  "tcmur_set_pending_ua rdev ua = rdev\<lparr>pending_uas := pending_uas rdev OR push_bit ua 1\<rparr>"

text \<open>\<open>set_size\<close>: what \<open>tcmu_set_dev_size\<close> returns, which tells the kernel.\<close>

definition tcmur_dev_update_size :: "int \<Rightarrow> tcmu_device \<Rightarrow> tcmur_device \<Rightarrow> nat \<Rightarrow> (int \<times> tcmu_device \<times> tcmur_device) option" where
  "tcmur_dev_update_size set_size dev rdev new_size = do {
     let old_size = mul64 (tcmu_get_dev_num_lbas dev) (tcmu_get_dev_block_size dev);
     (ret, dev1) \<leftarrow> tcmu_update_num_lbas dev new_size;
     if ret \<noteq> 0 then Some (ret, dev1, rdev)
     else if set_size \<noteq> 0 then do {
       (r, dev2) \<leftarrow> tcmu_update_num_lbas dev1 old_size;
       Some (set_size, dev2, rdev)
     }
     else Some (0, dev1, tcmur_set_pending_ua rdev 0)
   }"

text \<open>The lowest bit that is set, \<open>ffs - 1\<close>.\<close>

fun first_bit :: "32 word \<Rightarrow> nat \<Rightarrow> nat \<Rightarrow> nat" where
  "first_bit w i 0 = i"
| "first_bit w i (Suc n) = (if bit w i then i else first_bit w (Suc i) n)"

definition handle_pending_ua :: "tcmur_device \<Rightarrow> tcmulib_cmd \<Rightarrow> tcmu_sts \<times> tcmur_device" where
  "handle_pending_ua rdev cmd =
     (if cdb cmd 0 = 0x12 \<or> cdb cmd 0 = 0x03 then (TCMU_STS_NOT_HANDLED, rdev)
      else if pending_uas rdev = 0 then (TCMU_STS_NOT_HANDLED, rdev)
      else
        let ua = first_bit (pending_uas rdev) 0 32 in
        (if ua = 0 then TCMU_STS_CAPACITY_CHANGED else TCMU_STS_NOT_HANDLED,
         rdev\<lparr>pending_uas := pending_uas rdev AND NOT (push_bit ua 1)\<rparr>))"

section \<open>Emulated commands\<close>

definition lift_emul :: "'s runner \<Rightarrow> emul_result \<Rightarrow> 's outcome" where
  "lift_emul ru r = (case r of None \<Rightarrow> None | Some (sts, m, cmd) \<Rightarrow> Some (Returned sts, cmd, ru\<lparr>ru_mem := m\<rparr>))"

definition handle_stpg :: "'s runner_env \<Rightarrow> 's runner \<Rightarrow> tcmulib_cmd \<Rightarrow> 's outcome" where
  "handle_stpg env ru cmd =
     (case tcmu_get_alua_grps (ru_cf ru) (rn_lock env) (ru_rdev ru) (rn_dirs env) of
        (None, rdev) \<Rightarrow> Some (Returned TCMU_STS_HW_ERR, cmd, ru\<lparr>ru_rdev := rdev\<rparr>)
      | (Some gs, rdev) \<Rightarrow> do {
          (r, cf, rdev', gs') \<leftarrow> tcmu_emulate_set_tgt_port_grps (rn_dev env) (rn_lock env) (re_alloc (rn_run env) 0) (ru_cf ru) rdev gs (ru_mem ru) cmd;
          Some (Returned r, cmd, ru\<lparr>ru_rdev := rdev', ru_cf := cf\<rparr>)
        })"

definition handle_rtpg :: "'s runner_env \<Rightarrow> 's runner \<Rightarrow> tcmulib_cmd \<Rightarrow> 's outcome" where
  "handle_rtpg env ru cmd =
     (case tcmu_get_alua_grps (ru_cf ru) (rn_lock env) (ru_rdev ru) (rn_dirs env) of
        (None, rdev) \<Rightarrow> Some (Returned TCMU_STS_HW_ERR, cmd, ru\<lparr>ru_rdev := rdev\<rparr>)
      | (Some gs, rdev) \<Rightarrow> do {
          (r, cf, rdev', gs', m, cmd') \<leftarrow> tcmu_emulate_report_tgt_port_grps (rn_dev env) (rn_tag env) (re_alloc (rn_run env) 0) (ru_cf ru) rdev gs (ru_mem ru) cmd;
          Some (Returned r, cmd', ru\<lparr>ru_rdev := rdev', ru_cf := cf, ru_mem := m\<rparr>)
        })"

definition handle_inquiry :: "'s runner_env \<Rightarrow> 's runner \<Rightarrow> tcmulib_cmd \<Rightarrow> 's outcome" where
  "handle_inquiry env ru cmd =
     (case tcmu_get_alua_grps (ru_cf ru) (rn_lock env) (ru_rdev ru) (rn_dirs env) of
        (None, rdev) \<Rightarrow> Some (Returned TCMU_STS_HW_ERR, cmd, ru\<lparr>ru_rdev := rdev\<rparr>)
      | (Some gs, rdev) \<Rightarrow>
          lift_emul (ru\<lparr>ru_rdev := rdev\<rparr>)
            (tcmu_emulate_inquiry (ru_mem ru) (ru_dev ru) (h_unmap (rn_handler env) \<noteq> None) (rn_wwn env)
               (map_option snd (tcmu_get_enabled_port gs)) cmd))"

definition handle_sync_cmd :: "'s runner_env \<Rightarrow> 's runner \<Rightarrow> tcmulib_cmd \<Rightarrow> 's outcome" where
  "handle_sync_cmd env ru cmd =
     (let op = cdb cmd 0; b1 = cdb cmd 1; dev = ru_dev ru; m = ru_mem ru; not_handled = Some (Returned TCMU_STS_NOT_HANDLED, cmd, ru) in
      if op = 0x12 then handle_inquiry env ru cmd
      else if op = 0x00 then lift_emul ru (tcmu_emulate_test_unit_ready m cmd)
      else if op = 0x9e then
        if b1 = 0x10 then lift_emul ru (tcmu_emulate_read_capacity_16 m (num_lbas dev) (block_size dev) cmd) else not_handled
      else if op = 0x25 then
        if b1 AND 0x01 \<noteq> 0 \<or> cdb cmd 8 AND 0x01 \<noteq> 0 then Some (Returned TCMU_STS_INVALID_CDB, cmd, ru)
        else lift_emul ru (tcmu_emulate_read_capacity_10 m (num_lbas dev) (block_size dev) cmd)
      else if op = 0x1a \<or> op = 0x5a then lift_emul ru (tcmu_emulate_mode_sense m dev cmd)
      else if op = 0x1b then lift_emul ru (tcmu_emulate_start_stop m cmd)
      else if op = 0x15 \<or> op = 0x55 then lift_emul ru (tcmu_emulate_mode_select (rn_garbage env) m dev cmd)
      else if op = 0x84 then
        if b1 AND 0x1f = 0x03 then lift_emul ru (handle_recv_copy_result m cmd) else not_handled
      else if op = 0xa4 then if b1 = 0x0a then handle_stpg env ru cmd else not_handled
      else if op = 0xa3 then if b1 AND 0x1f = 0x0a then handle_rtpg env ru cmd else not_handled
      else not_handled)"

section \<open>Commands that access the medium\<close>

definition flush_work_fn :: "'s handler \<Rightarrow> 's \<Rightarrow> (tcmu_sts \<times> 's) option" where
  "flush_work_fn h s = (case h_flush h of None \<Rightarrow> None | Some f \<Rightarrow> Some (f s))"

definition handle_flush :: "'s handler \<Rightarrow> 's run_env \<Rightarrow> 's \<Rightarrow> (completion \<times> 's) option" where
  "handle_flush h env s =
     (if re_sub env 0 \<noteq> TCMU_STS_ASYNC_HANDLED then Some (Returned (re_sub env 0), s)
      else do { (r, s') \<leftarrow> flush_work_fn h (re_other env 0 s); Some (Finished r, s') })"

text \<open>UNMAP with its requests and their callbacks.\<close>

definition run_unmap :: "'s handler \<Rightarrow> 's run_env \<Rightarrow> tcmu_device \<Rightarrow> 's \<Rightarrow> mem \<Rightarrow> tcmulib_cmd \<Rightarrow> (completion \<times> 's) option" where
  "run_unmap h env dev s m cmd = do {
     (ret, ps, st) \<leftarrow> handle_unmap \<lparr>ue_par = re_alloc env 0, ue_state = if re_alloc env 1 then TCMU_STS_OK else TCMU_STS_NO_RESOURCE,
                                   ue_sub = re_sub env\<rparr> m dev cmd;
     if ps = [] then Some (Returned ret, s)
     else do {
       u \<leftarrow> h_unmap h;
       (case run_unmaps u s ps of (rs, s') \<Rightarrow>
          (case unmap_callbacks st rs of Some [r] \<Rightarrow> Some (Finished r, s') | _ \<Rightarrow> None))
     }
   }"

text \<open>\<open>track_aio_request_start\<close> and \<open>track_aio_request_finish(rdev, NULL)\<close> on the runner's device.\<close>

definition track_start :: "'s runner \<Rightarrow> 's runner" where
  "track_start ru = ru\<lparr>ru_rdev := (ru_rdev ru)\<lparr>track_queue := track_aio_request_start (track_queue (ru_rdev ru))\<rparr>\<rparr>"

definition track_done :: "'s runner \<Rightarrow> 's runner option" where
  "track_done ru = do {
     (t, w, c) \<leftarrow> track_aio_request_finish (track_queue (ru_rdev ru)) False;
     Some (ru\<lparr>ru_rdev := (ru_rdev ru)\<lparr>track_queue := t\<rparr>\<rparr>)
   }"

text \<open>\<open>aio_command_finish\<close> without other threads in it: one wake-up.\<close>

definition track_finished :: "'s runner \<Rightarrow> 's runner option" where
  "track_finished ru = do {
     (t, w, c) \<leftarrow> track_aio_request_finish (track_queue (ru_rdev ru)) True;
     t' \<leftarrow> (if w then map_option fst (track_aio_wakeup_finish t) else Some t);
     Some (ru\<lparr>ru_rdev := (ru_rdev ru)\<lparr>track_queue := t'\<rparr>\<rparr>)
   }"

definition settle :: "completion \<times> tcmulib_cmd \<times> 's runner \<Rightarrow> 's outcome" where
  "settle x = (case x of
     (Returned r, cmd, ru) \<Rightarrow>
       if r = TCMU_STS_ASYNC_HANDLED then Some x else do { ru' \<leftarrow> track_done ru; Some (Returned r, cmd, ru') }
   | (Finished r, cmd, ru) \<Rightarrow> do { ru' \<leftarrow> track_finished ru; Some (Finished r, cmd, ru') })"

definition is_read :: "byte \<Rightarrow> bool" where "is_read op \<longleftrightarrow> op \<in> {0x08, 0x28, 0xa8, 0x88}"
definition is_write :: "byte \<Rightarrow> bool" where "is_write op \<longleftrightarrow> op \<in> {0x0a, 0x2a, 0xaa, 0x8a}"

definition media_op :: "byte \<Rightarrow> bool" where
  "media_op op \<longleftrightarrow> is_read op \<or> is_write op \<or> op \<in> {0x42, 0x35, 0x91, 0x83, 0x89, 0x2e, 0x8e, 0x41, 0x93, 0x04}"

text \<open>The second \<open>switch\<close> of \<open>tcmur_cmd_handler\<close>.\<close>

definition media_cmd :: "'s runner_env \<Rightarrow> 's runner \<Rightarrow> tcmulib_cmd \<Rightarrow> 's outcome" where
  "media_cmd env ru cmd =
     (let op = cdb cmd 0; h = rn_handler env; re = rn_run env; dev = ru_dev ru; s = ru_store env ru; m = ru_mem ru in
      if is_read op then do { (c, m', s') \<leftarrow> handle_read h re dev s m cmd; Some (c, cmd, (set_store env ru s')\<lparr>ru_mem := m'\<rparr>) }
      else if is_write op then do { (c, s') \<leftarrow> handle_write h re dev s m cmd; Some (c, cmd, set_store env ru s') }
      else if op = 0x42 then do { (c, s') \<leftarrow> run_unmap h re dev s m cmd; Some (c, cmd, set_store env ru s') }
      else if op = 0x35 \<or> op = 0x91 then
        if h_flush h = None then Some (Returned TCMU_STS_OK, cmd, ru)
        else do { (c, s') \<leftarrow> handle_flush h re s; Some (c, cmd, set_store env ru s') }
      else if op = 0x83 then do {
        (c, sts) \<leftarrow> handle_xcopy (rn_handlers env) (re_sub re) (re_alloc re) (re_addr re) (rn_ctx env) (rn_udev env) m (ru_stores ru) cmd;
        Some (c, cmd, ru\<lparr>ru_stores := sts\<rparr>)
      }
      else if op = 0x89 then do { (c, cmd', s', lk) \<leftarrow> handle_caw h re dev s m cmd; Some (c, cmd', set_store env ru s') }
      else if op = 0x2e \<or> op = 0x8e then do { (c, cmd', s') \<leftarrow> handle_write_verify h re dev s m cmd; Some (c, cmd', set_store env ru s') }
      else if op = 0x41 \<or> op = 0x93 then do { (c, s') \<leftarrow> handle_writesame h re dev m s cmd; Some (c, cmd, set_store env ru s') }
      else if op = 0x04 then do {
        (c, cmd', rdev', s') \<leftarrow> handle_format_unit h re dev m (ru_rdev ru) s cmd;
        Some (c, cmd', (set_store env ru s')\<lparr>ru_rdev := rdev'\<rparr>)
      }
      else Some (Returned TCMU_STS_NOT_HANDLED, cmd, ru))"

definition tcmur_cmd_handler :: "'s runner_env \<Rightarrow> 's runner \<Rightarrow> tcmulib_cmd \<Rightarrow> 's outcome" where
  "tcmur_cmd_handler env ru cmd =
     (let ru1 = track_start ru in
      if tcmu_dev_in_recovery (ru_rdev ru1) then settle (Returned TCMU_STS_BUSY, cmd, ru1)
      else
        let (ret, rdev) = (if media_op (cdb cmd 0) then alua_check_state (rn_lock env) (rn_thread env) (ru_rdev ru1)
                           else (TCMU_STS_OK, ru_rdev ru1));
            ru2 = ru1\<lparr>ru_rdev := rdev\<rparr>
        in
        if ret \<noteq> TCMU_STS_OK then settle (Returned ret, cmd, ru2)
        else do { x \<leftarrow> media_cmd env ru2 cmd; settle x })"

section \<open>The handler's own commands, and the whole dispatch\<close>

definition handle_try_passthrough :: "'s runner_env \<Rightarrow> 's runner \<Rightarrow> tcmulib_cmd \<Rightarrow> 's outcome" where
  "handle_try_passthrough env ru cmd =
     (case rn_handle_cmd env of
        None \<Rightarrow> Some (Returned TCMU_STS_NOT_HANDLED, cmd, ru)
      | Some f \<Rightarrow>
          let ru1 = track_start ru in
          if tcmu_dev_in_recovery (ru_rdev ru1) then settle (Returned TCMU_STS_BUSY, cmd, ru1)
          else case f ru1 cmd of (ret, cmd', ru2) \<Rightarrow> settle (Returned ret, cmd', ru2))"

definition tcmur_generic_handle_cmd :: "'s runner_env \<Rightarrow> 's runner \<Rightarrow> tcmulib_cmd \<Rightarrow> 's outcome" where
  "tcmur_generic_handle_cmd env ru cmd =
     (case handle_pending_ua (ru_rdev ru) cmd of (ret, rdev) \<Rightarrow>
        let ru1 = ru\<lparr>ru_rdev := rdev\<rparr> in
        if ret \<noteq> TCMU_STS_NOT_HANDLED then Some (Returned ret, cmd, ru1)
        else if has_flag TCMUR_DEV_FLAG_FORMATTING rdev \<and> cdb cmd 0 \<noteq> 0x12
        then Some (Returned TCMU_STS_FRMT_IN_PROGRESS,
                   cmd\<lparr>sense_buf := tcmu_set_sense_key_specific_info (sense_buf cmd) (format_progress rdev)\<rparr>, ru1)
        else do {
          (c, cmd1, ru2) \<leftarrow> handle_try_passthrough env ru1 cmd;
          if c \<noteq> Returned TCMU_STS_NOT_HANDLED then Some (c, cmd1, ru2)
          else do {
            (c2, cmd2, ru3) \<leftarrow> handle_sync_cmd env ru2 cmd1;
            if c2 \<noteq> Returned TCMU_STS_NOT_HANDLED then Some (c2, cmd2, ru3)
            else tcmur_cmd_handler env ru3 cmd2
          }
        })"

text \<open>
  Handlers that do reads, writes and flushes in their own \<open>handle_cmd\<close>. On a thread of the runner, success
  means that the handler has taken the command over and completes it itself.
\<close>

definition tcmur_handler_is_passthrough_only :: "bool \<Rightarrow> bool \<Rightarrow> bool \<Rightarrow> bool" where
  "tcmur_handler_is_passthrough_only has_write has_read has_flush \<longleftrightarrow> \<not> (has_write \<or> has_read \<or> has_flush)"

definition passthrough_work_fn :: "'s runner_env \<Rightarrow> 's runner \<Rightarrow> tcmulib_cmd \<Rightarrow> (tcmu_sts \<times> tcmulib_cmd \<times> 's runner) option" where
  "passthrough_work_fn env ru cmd = (case rn_handle_cmd env of None \<Rightarrow> None | Some f \<Rightarrow> Some (f ru cmd))"

definition handle_passthrough :: "'s runner_env \<Rightarrow> 's runner \<Rightarrow> tcmulib_cmd \<Rightarrow> 's outcome" where
  "handle_passthrough env ru cmd =
     (if re_sub (rn_run env) 0 \<noteq> TCMU_STS_ASYNC_HANDLED then Some (Returned (re_sub (rn_run env) 0), cmd, ru)
      else do {
        (r, cmd', ru') \<leftarrow> passthrough_work_fn env ru cmd;
        if r = TCMU_STS_OK then Some (Returned TCMU_STS_ASYNC_HANDLED, cmd', ru') else Some (Finished r, cmd', ru')
      })"

text \<open>\<open>nr_threads\<close>: whether the handler wants threads of the runner.\<close>

definition tcmur_cmd_passthrough_handler :: "bool \<Rightarrow> 's runner_env \<Rightarrow> 's runner \<Rightarrow> tcmulib_cmd \<Rightarrow> 's outcome" where
  "tcmur_cmd_passthrough_handler nr_threads env ru cmd =
     (case rn_handle_cmd env of
        None \<Rightarrow> Some (Returned TCMU_STS_NOT_HANDLED, cmd, ru)
      | Some f \<Rightarrow>
          if \<not> nr_threads then (case f ru cmd of (r, cmd', ru') \<Rightarrow> Some (Returned r, cmd', ru'))
          else do { x \<leftarrow> handle_passthrough env (track_start ru) cmd; settle x })"

section \<open>Tracking\<close>

text \<open>No other thread is inside \<open>aio_command_finish\<close>, and the counter has room.\<close>

definition track_idle :: "tcmu_track_aio \<Rightarrow> bool" where
  "track_idle t \<longleftrightarrow> pending_wakeups t = 0 \<and> tracked_aio_ops t < 2 ^ 32 - 1 \<and> is_empty_cond t = None"

lemma track_round:
  assumes "track_idle (track_queue (ru_rdev ru))" "track_queue (ru_rdev ru') = track_aio_request_start (track_queue (ru_rdev ru))"
  shows "track_done ru' = Some (ru'\<lparr>ru_rdev := (ru_rdev ru')\<lparr>track_queue := track_queue (ru_rdev ru)\<rparr>\<rparr>)"
    and "track_finished ru' = Some (ru'\<lparr>ru_rdev := (ru_rdev ru')\<lparr>track_queue := track_queue (ru_rdev ru)\<rparr>\<rparr>)"
proof -
  obtain k where t: "track_queue (ru_rdev ru) = \<lparr>pending_wakeups = 0, tracked_aio_ops = k, is_empty_cond = None\<rparr>" "k < 2 ^ 32 - 1"
    using assms(1) by (cases "track_queue (ru_rdev ru)") (auto simp: track_idle_def)
  have "track_queue (ru_rdev ru') = \<lparr>pending_wakeups = 0, tracked_aio_ops = k + 1, is_empty_cond = None\<rparr>"
    using assms(2) t by (simp add: track_aio_request_start_def add32_id)
  then show "track_done ru' = Some (ru'\<lparr>ru_rdev := (ru_rdev ru')\<lparr>track_queue := track_queue (ru_rdev ru)\<rparr>\<rparr>)"
    "track_finished ru' = Some (ru'\<lparr>ru_rdev := (ru_rdev ru')\<lparr>track_queue := track_queue (ru_rdev ru)\<rparr>\<rparr>)"
    using t by (simp_all add: track_done_def track_finished_def track_aio_request_finish_def track_aio_wakeup_finish_def add32_def u32_def Let_def)
qed

lemma settle_track:
  assumes "track_idle (track_queue (ru_rdev ru))" "track_queue (ru_rdev ru') = track_aio_request_start (track_queue (ru_rdev ru))"
    and "c \<noteq> Returned TCMU_STS_ASYNC_HANDLED"
  shows "settle (c, cmd, ru') = Some (c, cmd, ru'\<lparr>ru_rdev := (ru_rdev ru')\<lparr>track_queue := track_queue (ru_rdev ru)\<rparr>\<rparr>)"
  using track_round [OF assms(1,2)] assms(3) by (auto simp: settle_def split: completion.splits)

lemma track_start_simps [simp]:
  "ru_dev (track_start ru) = ru_dev ru" "ru_mem (track_start ru) = ru_mem ru" "ru_stores (track_start ru) = ru_stores ru"
  "ru_cf (track_start ru) = ru_cf ru" "track_queue (ru_rdev (track_start ru)) = track_aio_request_start (track_queue (ru_rdev ru))"
  "has_flag k (ru_rdev (track_start ru)) = has_flag k (ru_rdev ru)" "lock_state (ru_rdev (track_start ru)) = lock_state (ru_rdev ru)"
  "failover_type (ru_rdev (track_start ru)) = failover_type (ru_rdev ru)"
  by (simp_all add: track_start_def has_flag_def)

lemma track_start_undo: "(ru_rdev (track_start ru))\<lparr>track_queue := track_queue (ru_rdev ru)\<rparr> = ru_rdev ru"
  by (simp add: track_start_def)

section \<open>Which commands reach the medium\<close>

lemma sync_not_media:
  assumes "media_op (cdb cmd 0)"
  shows "handle_sync_cmd env ru cmd = Some (Returned TCMU_STS_NOT_HANDLED, cmd, ru)"
  using assms unfolding handle_sync_cmd_def Let_def media_op_def is_read_def is_write_def
  by (elim disjE insertE emptyE) simp_all

lemma ua_media: "media_op (cdb cmd 0) \<Longrightarrow> cdb cmd 0 \<noteq> 0x12 \<and> cdb cmd 0 \<noteq> 0x03"
  unfolding media_op_def is_read_def is_write_def by (elim disjE insertE emptyE) simp_all

text \<open>The device may serve the command: no attention, no format, no recovery, and the lock when it is needed.\<close>

definition serves :: "'s runner_env \<Rightarrow> 's runner \<Rightarrow> bool" where
  "serves env ru \<longleftrightarrow> pending_uas (ru_rdev ru) = 0 \<and> \<not> has_flag TCMUR_DEV_FLAG_FORMATTING (ru_rdev ru)
     \<and> \<not> has_flag TCMUR_DEV_FLAG_IN_RECOVERY (ru_rdev ru)
     \<and> (rn_lock env \<longrightarrow> failover_type (ru_rdev ru) = TMCUR_DEV_FAILOVER_ALL_ACTIVE \<or> lock_state (ru_rdev ru) = TCMUR_DEV_LOCK_LOCKED)
     \<and> track_idle (track_queue (ru_rdev ru)) \<and> rn_handle_cmd env = None"

lemma check_state_serves:
  assumes "serves env ru"
  shows "alua_check_state (rn_lock env) started (ru_rdev (track_start ru)) = (TCMU_STS_OK, ru_rdev (track_start ru))"
  using assms by (cases "failover_type (ru_rdev ru)") (auto simp: serves_def alua_check_state_def alua_implicit_transition_def)

lemma dispatch_media:
  assumes "serves env ru" "media_op (cdb cmd 0)"
  shows "tcmur_generic_handle_cmd env ru cmd = do { x \<leftarrow> media_cmd env (track_start ru) cmd; settle x }"
proof -
  have rec: "\<not> tcmu_dev_in_recovery (ru_rdev (track_start ru))" using assms(1) by (simp add: serves_def tcmu_dev_in_recovery_def)
  have "tcmur_cmd_handler env ru cmd = do { x \<leftarrow> media_cmd env (track_start ru) cmd; settle x }"
    unfolding tcmur_cmd_handler_def Let_def check_state_serves [OF assms(1)] using rec assms(2) by simp
  moreover have "handle_pending_ua (ru_rdev ru) cmd = (TCMU_STS_NOT_HANDLED, ru_rdev ru)"
    using assms(1) by (simp add: handle_pending_ua_def serves_def)
  ultimately show ?thesis
    using assms(1) sync_not_media [OF assms(2), of env ru]
    by (simp add: tcmur_generic_handle_cmd_def handle_try_passthrough_def serves_def)
qed

section \<open>Fencing and the round trip\<close>

text \<open>Reasons for which the runner does not let a command reach the medium.\<close>

definition fenced :: "'s runner_env \<Rightarrow> 's runner \<Rightarrow> bool" where
  "fenced env ru \<longleftrightarrow> has_flag TCMUR_DEV_FLAG_FORMATTING (ru_rdev ru) \<or> has_flag TCMUR_DEV_FLAG_IN_RECOVERY (ru_rdev ru)
     \<or> (rn_lock env \<and> failover_type (ru_rdev ru) \<noteq> TMCUR_DEV_FAILOVER_ALL_ACTIVE \<and> lock_state (ru_rdev ru) \<noteq> TCMUR_DEV_LOCK_LOCKED)"

text \<open>The command ends at once with an error: nothing on the stores, in memory or in the tracking has changed.\<close>

definition refused :: "'s runner \<Rightarrow> 's outcome \<Rightarrow> bool" where
  "refused ru x \<longleftrightarrow> (case x of
     Some (Returned r, cmd', ru') \<Rightarrow> r \<noteq> TCMU_STS_OK \<and> r \<noteq> TCMU_STS_ASYNC_HANDLED \<and> ru_stores ru' = ru_stores ru \<and> ru_mem ru' = ru_mem ru
       \<and> ru_dev ru' = ru_dev ru \<and> ru_cf ru' = ru_cf ru \<and> track_queue (ru_rdev ru') = track_queue (ru_rdev ru)
   | _ \<Rightarrow> False)"

lemma check_state_track: "alua_check_state lk st rdev = (r, rdev') \<Longrightarrow> track_queue rdev' = track_queue rdev \<and> r \<noteq> TCMU_STS_ASYNC_HANDLED"
  by (cases "failover_type rdev"; cases "lock_state rdev")
     (auto simp: alua_check_state_def alua_implicit_transition_def split: if_splits)

lemma check_state_refuses:
  "alua_check_state True st rdev = (r, rdev') \<Longrightarrow> failover_type rdev \<noteq> TMCUR_DEV_FAILOVER_ALL_ACTIVE \<Longrightarrow> lock_state rdev \<noteq> TCMUR_DEV_LOCK_LOCKED
   \<Longrightarrow> r \<noteq> TCMU_STS_OK"
  by (cases "failover_type rdev"; cases "lock_state rdev")
     (auto simp: alua_check_state_def alua_implicit_transition_def split: if_splits)

lemma handler_refuses:
  assumes "media_op (cdb cmd 0)" "track_idle (track_queue (ru_rdev ru))"
    and "has_flag TCMUR_DEV_FLAG_IN_RECOVERY (ru_rdev ru)
     \<or> (rn_lock env \<and> failover_type (ru_rdev ru) \<noteq> TMCUR_DEV_FAILOVER_ALL_ACTIVE \<and> lock_state (ru_rdev ru) \<noteq> TCMUR_DEV_LOCK_LOCKED)"
  shows "refused ru (tcmur_cmd_handler env ru cmd)"
proof (cases "has_flag TCMUR_DEV_FLAG_IN_RECOVERY (ru_rdev ru)")
  case True
  then show ?thesis
    using settle_track [OF assms(2), of "track_start ru" "Returned TCMU_STS_BUSY" cmd]
    by (simp add: tcmur_cmd_handler_def tcmu_dev_in_recovery_def refused_def Let_def)
next
  case False
  obtain r rdev where st: "alua_check_state (rn_lock env) (rn_thread env) (ru_rdev (track_start ru)) = (r, rdev)" by fastforce
  have r: "r \<noteq> TCMU_STS_OK" "r \<noteq> TCMU_STS_ASYNC_HANDLED" "track_queue rdev = track_aio_request_start (track_queue (ru_rdev ru))"
    using check_state_refuses [of "rn_thread env" "ru_rdev (track_start ru)" r rdev] check_state_track [OF st] st assms(3) False by auto
  then show ?thesis
    using settle_track [OF assms(2), of "(track_start ru)\<lparr>ru_rdev := rdev\<rparr>" "Returned r" cmd] st assms(1) False
    by (simp add: tcmur_cmd_handler_def tcmu_dev_in_recovery_def refused_def Let_def)
qed

lemma pending_ua_cases:
  assumes "handle_pending_ua rdev cmd = (r, rdev')"
  shows "(r = TCMU_STS_NOT_HANDLED \<or> r = TCMU_STS_CAPACITY_CHANGED) \<and> rdev' = rdev\<lparr>pending_uas := pending_uas rdev'\<rparr>"
  using assms by (auto simp: handle_pending_ua_def Let_def split: if_splits)


definition quiet_env :: "file_state runner_env" where
  "quiet_env = \<lparr>rn_handlers = (\<lambda>_. file_handler), rn_udev = 0, rn_ctx = [], rn_run = lone_env, rn_dev = calm_env, rn_lock = True,
     rn_tag = True, rn_thread = True, rn_dirs = None, rn_wwn = None, rn_garbage = [], rn_handle_cmd = None\<rparr>"

definition ready_runner :: "file_state runner" where
  "ready_runner = \<lparr>ru_dev = thin_dev, ru_rdev = locked_dev, ru_cf = sample_cfgfs, ru_mem = (\<lambda>_. 7), ru_stores = (\<lambda>_. short_file)\<rparr>"

lemma ready_track [simp]: "track_idle (track_queue locked_dev)"
  by (simp add: locked_dev_def track_idle_def setup_aio_tracking_def)


lemma served_again:
  assumes "serves env ru" "ru_rdev ru' = ru_rdev ru"
  shows "serves env ru'"
  using assms by (simp add: serves_def)

lemma check_io_OK:
  assumes "check_lba_and_length dev cmd n = Some TCMU_STS_OK" "iov_total (cmd_iovs cmd) < 2 ^ 64"
  shows "iov_total (cmd_iovs cmd) = u32 (n * block_size dev)" "\<exists>lba. tcmu_get_lba (cdb cmd) = Some lba"
  using assms by (auto simp: check_lba_and_length_def check_iovec_length_def tcmu_iovec_length_mod split: option.splits if_splits)

lemma settle_served:
  assumes "serves env ru" "ru_rdev ru' = ru_rdev (track_start ru)"
  shows "settle (Finished r, cmd, ru') = Some (Finished r, cmd, ru'\<lparr>ru_rdev := ru_rdev ru\<rparr>)"
proof -
  have idle: "track_idle (track_queue (ru_rdev ru))" using assms(1) by (simp add: serves_def)
  have "track_queue (ru_rdev ru') = track_aio_request_start (track_queue (ru_rdev ru))" using assms(2) by simp
  from settle_track [OF idle this, of "Finished r"] show ?thesis by (simp add: assms(2) track_start_undo)
qed

lemma is_media: "is_read op \<Longrightarrow> media_op op" "is_write op \<Longrightarrow> media_op op" "is_write op \<Longrightarrow> \<not> is_read op"
  by (auto simp: media_op_def is_read_def is_write_def)

lemma serve_write:
  assumes "backstore (rn_handler env) view" "serves env ru" "re_sub (rn_run env) 0 = TCMU_STS_ASYNC_HANDLED"
    and "is_write (cdb cmd 0)" "tcmu_get_xfer_length (cdb cmd) = Some n" "tcmu_get_lba (cdb cmd) = Some lba"
    and "check_lba_and_length (ru_dev ru) cmd n = Some TCMU_STS_OK" "iov_total (cmd_iovs cmd) < 2 ^ 64"
  obtains r s where "tcmur_generic_handle_cmd env ru cmd = Some (Finished r, cmd, set_store env ru s)"
    "r = TCMU_STS_OK \<longrightarrow> view s = mem_write (view (re_other (rn_run env) 0 (ru_store env ru))) (mul64 (block_size (ru_dev ru)) lba) (gather (ru_mem ru) (cmd_iovs cmd))"
proof -
  have len: "tcmu_iovec_length (cmd_iovs cmd) = iov_total (cmd_iovs cmd)" using assms(8) by (simp add: tcmu_iovec_length_mod)
  obtain r v s where w: "h_write (rn_handler env) (re_other (rn_run env) 0 (ru_store env ru)) (ru_mem ru) (cmd_iovs cmd) (iov_total (cmd_iovs cmd))
        (mul64 (block_size (ru_dev ru)) lba) = Some (r, v, s)"
      "r = TCMU_STS_OK \<longrightarrow> view s = mem_write (view (re_other (rn_run env) 0 (ru_store env ru))) (mul64 (block_size (ru_dev ru)) lba) (gather (ru_mem ru) (cmd_iovs cmd))"
    using backstore.write_law [OF assms(1)] by metis
  have "media_cmd env (track_start ru) cmd = Some (Finished r, cmd, set_store env (track_start ru) s)"
    using w(1) assms(3-8) is_media(3) [OF assms(4)] by (simp add: media_cmd_def Let_def handle_write_def write_work_fn_def len)
  then have "tcmur_generic_handle_cmd env ru cmd = Some (Finished r, cmd, set_store env ru s)"
    using dispatch_media [OF assms(2) is_media(2) [OF assms(4)]] settle_served [OF assms(2), of "set_store env (track_start ru) s" r cmd]
    by (simp add: set_store_def track_start_def)
  with w(2) that show thesis by blast
qed

lemma serve_read:
  assumes "backstore (rn_handler env) view" "serves env ru" "re_sub (rn_run env) 0 = TCMU_STS_ASYNC_HANDLED"
    and "is_read (cdb cmd 0)" "tcmu_get_xfer_length (cdb cmd) = Some n" "tcmu_get_lba (cdb cmd) = Some lba"
    and "check_lba_and_length (ru_dev ru) cmd n = Some TCMU_STS_OK" "iov_total (cmd_iovs cmd) < 2 ^ 64" "iovs_disjoint (cmd_iovs cmd)"
  obtains r m s where "tcmur_generic_handle_cmd env ru cmd = Some (Finished r, cmd, (set_store env ru s)\<lparr>ru_mem := m\<rparr>)"
    "r = TCMU_STS_OK \<longrightarrow> gather m (cmd_iovs cmd) =
       mem_read (view (re_other (rn_run env) 0 (ru_store env ru))) (mul64 (block_size (ru_dev ru)) lba) (iov_total (cmd_iovs cmd))"
    "\<forall>x. x \<notin> set (iov_addrs (cmd_iovs cmd)) \<longrightarrow> m x = ru_mem ru x" "view s = view (re_other (rn_run env) 0 (ru_store env ru))"
proof -
  have len: "tcmu_iovec_length (cmd_iovs cmd) = iov_total (cmd_iovs cmd)" using assms(8) by (simp add: tcmu_iovec_length_mod)
  obtain r m v s where rd: "h_read (rn_handler env) (re_other (rn_run env) 0 (ru_store env ru)) (ru_mem ru) (cmd_iovs cmd) (iov_total (cmd_iovs cmd))
        (mul64 (block_size (ru_dev ru)) lba) = Some (r, m, v, s)"
      "r = TCMU_STS_OK \<longrightarrow> gather m (cmd_iovs cmd) =
         mem_read (view (re_other (rn_run env) 0 (ru_store env ru))) (mul64 (block_size (ru_dev ru)) lba) (iov_total (cmd_iovs cmd))"
      "\<forall>x. x \<notin> set (iov_addrs (cmd_iovs cmd)) \<longrightarrow> m x = ru_mem ru x" "view s = view (re_other (rn_run env) 0 (ru_store env ru))"
    using backstore.read_law [OF assms(1,9)] by metis
  have "media_cmd env (track_start ru) cmd = Some (Finished r, cmd, (set_store env (track_start ru) s)\<lparr>ru_mem := m\<rparr>)"
    using rd(1) assms(3-8) by (simp add: media_cmd_def Let_def handle_read_def read_work_fn_def len)
  then have "tcmur_generic_handle_cmd env ru cmd = Some (Finished r, cmd, (set_store env ru s)\<lparr>ru_mem := m\<rparr>)"
    using dispatch_media [OF assms(2) is_media(1) [OF assms(4)]] settle_served [OF assms(2), of "(set_store env (track_start ru) s)\<lparr>ru_mem := m\<rparr>" r cmd]
    by (simp add: set_store_def track_start_def)
  with rd(2,3,4) that show thesis by blast
qed

text \<open>
  C4: A write followed by a read of the same blocks, through the whole command path (unit attentions, format check,
  dispatch, recovery and failover checks, tracking, the handler), on any handler that satisfies the store contract: both commands complete, and when both
  report success the buffers of the read hold the data of the write. The read changes no memory outside its
  buffers, neither touches the store of another device, and the runner's device is as before.
\<close>
theorem dispatch_write_then_read:
  assumes "backstore (rn_handler env) view" "serves env ru" "re_sub (rn_run env) 0 = TCMU_STS_ASYNC_HANDLED" "re_other (rn_run env) 0 = id"
    and "is_write (cdb w 0)" "is_read (cdb r 0)" "tcmu_get_lba (cdb r) = tcmu_get_lba (cdb w)"
    and "tcmu_get_xfer_length (cdb w) = Some n" "tcmu_get_xfer_length (cdb r) = Some n"
    and "check_lba_and_length (ru_dev ru) w n = Some TCMU_STS_OK" "check_lba_and_length (ru_dev ru) r n = Some TCMU_STS_OK"
    and "iov_total (cmd_iovs w) < 2 ^ 64" "iov_total (cmd_iovs r) < 2 ^ 64" "iovs_disjoint (cmd_iovs r)"
  shows "\<exists>r1 ru1 r2 ru2. tcmur_generic_handle_cmd env ru w = Some (Finished r1, w, ru1)
    \<and> tcmur_generic_handle_cmd env ru1 r = Some (Finished r2, r, ru2)
    \<and> (r1 = TCMU_STS_OK \<and> r2 = TCMU_STS_OK \<longrightarrow> gather (ru_mem ru2) (cmd_iovs r) = gather (ru_mem ru) (cmd_iovs w))
    \<and> (\<forall>x. x \<notin> set (iov_addrs (cmd_iovs r)) \<longrightarrow> ru_mem ru2 x = ru_mem ru x)
    \<and> (\<forall>d. d \<noteq> rn_udev env \<longrightarrow> ru_stores ru2 d = ru_stores ru d) \<and> ru_rdev ru2 = ru_rdev ru \<and> ru_dev ru2 = ru_dev ru"
proof -
  obtain lba where lba: "tcmu_get_lba (cdb w) = Some lba" "tcmu_get_lba (cdb r) = Some lba"
    using check_io_OK(2) [OF assms(10,12)] assms(7) by auto
  have len: "length (gather (ru_mem ru) (cmd_iovs w)) = iov_total (cmd_iovs r)"
    using check_io_OK(1) [OF assms(10,12)] check_io_OK(1) [OF assms(11,13)] by simp
  obtain r1 s1 where 1: "tcmur_generic_handle_cmd env ru w = Some (Finished r1, w, set_store env ru s1)"
    "r1 = TCMU_STS_OK \<longrightarrow> view s1 = mem_write (view (re_other (rn_run env) 0 (ru_store env ru))) (mul64 (block_size (ru_dev ru)) lba) (gather (ru_mem ru) (cmd_iovs w))"
    using serve_write [OF assms(1,2,3,5,8) lba(1) assms(10,12)] .
  let ?ru = "set_store env ru s1"
  have ru: "serves env ?ru" "check_lba_and_length (ru_dev ?ru) r n = Some TCMU_STS_OK"
    using served_again [OF assms(2)] assms(11) by (simp_all add: set_store_def)
  obtain r2 m s2 where 2: "tcmur_generic_handle_cmd env ?ru r = Some (Finished r2, r, (set_store env ?ru s2)\<lparr>ru_mem := m\<rparr>)"
    "r2 = TCMU_STS_OK \<longrightarrow> gather m (cmd_iovs r) =
       mem_read (view (re_other (rn_run env) 0 (ru_store env ?ru))) (mul64 (block_size (ru_dev ?ru)) lba) (iov_total (cmd_iovs r))"
    "\<forall>x. x \<notin> set (iov_addrs (cmd_iovs r)) \<longrightarrow> m x = ru_mem ?ru x"
    using serve_read [OF assms(1) ru(1) assms(3,6,9) lba(2) ru(2) assms(13,14)] .
  have "gather m (cmd_iovs r) = gather (ru_mem ru) (cmd_iovs w)" if "r1 = TCMU_STS_OK" "r2 = TCMU_STS_OK"
    using 1(2) 2(2) that assms(4) mem_read_write_same [of _ _ "gather (ru_mem ru) (cmd_iovs w)", unfolded len]
    by (simp add: set_store_def)
  then show ?thesis using 1(1) 2(1,3) by (auto simp: set_store_def)
qed

definition rw_cmd :: "byte \<Rightarrow> nat \<Rightarrow> tcmulib_cmd" where
  "rw_cmd op a = \<lparr>cmd_id = 1, cdb = cdb_of [op, 0, 0, 0, 0, 9, 0, 0, 1, 0], iovec = [\<lparr>iov_base = a, iov_len = 512\<rparr>], iov_cnt = 1, sense_buf = []\<rparr>"

lemma rw_cmd_simps [simp]:
  "cmd_iovs (rw_cmd op a) = [\<lparr>iov_base = a, iov_len = 512\<rparr>]" "cdb (rw_cmd op a) 0 = op"
  by (simp_all add: rw_cmd_def cmd_iovs_def cdb_of_def)

lemma rw_cmd_ten:
  assumes "op = 0x28 \<or> op = 0x2a"
  shows "tcmu_get_lba (cdb (rw_cmd op a)) = Some 9" "tcmu_get_xfer_length (cdb (rw_cmd op a)) = Some 1"
    "check_lba_and_length thin_dev (rw_cmd op a) 1 = Some TCMU_STS_OK"
proof -
  have ten: "tcmu_get_cdb_length (cdb (rw_cmd op a)) = Some 10"
    using assms by (auto simp: rw_cmd_def tcmu_get_cdb_length_def cdb_of_def)
  show lba: "tcmu_get_lba (cdb (rw_cmd op a)) = Some 9" and "tcmu_get_xfer_length (cdb (rw_cmd op a)) = Some 1"
    by (simp_all add: tcmu_get_lba_def tcmu_get_xfer_length_def ten cdb_be_def upt_conv_Cons be_dec_def) (simp_all add: rw_cmd_def cdb_of_def)
  show "check_lba_and_length thin_dev (rw_cmd op a) 1 = Some TCMU_STS_OK"
    by (simp add: check_lba_and_length_def lba check_iovec_length_def check_lbas_def thin_dev_def u32_def add64_def)
qed

lemma ready_serves: "serves quiet_env ready_runner"
  by (simp add: serves_def quiet_env_def ready_runner_def)
     (simp add: locked_dev_def has_flag_def bit_numeral_rec eval_nat_numeral)

theorem dispatch_write_then_read_witness:
  "\<exists>r1 ru1 r2 ru2. tcmur_generic_handle_cmd quiet_env ready_runner (rw_cmd 0x2a 100) = Some (Finished r1, rw_cmd 0x2a 100, ru1)
    \<and> tcmur_generic_handle_cmd quiet_env ru1 (rw_cmd 0x28 9000) = Some (Finished r2, rw_cmd 0x28 9000, ru2)"
proof -
  have env: "rn_handler quiet_env = file_handler" "re_sub (rn_run quiet_env) 0 = TCMU_STS_ASYNC_HANDLED" "re_other (rn_run quiet_env) 0 = id"
    by (auto simp: quiet_env_def lone_env_def)
  have dev: "ru_dev ready_runner = thin_dev" by (simp add: ready_runner_def)
  have ops: "is_write (cdb (rw_cmd 0x2a 100) 0)" "is_read (cdb (rw_cmd 0x28 9000) 0)" by (simp_all add: is_write_def is_read_def)
  have bufs: "iov_total (cmd_iovs (rw_cmd op a)) < 2 ^ 64" "iovs_disjoint (cmd_iovs (rw_cmd op a))" for op a by simp_all
  have rw: "(0x28 :: byte) = 0x28 \<or> (0x28 :: byte) = 0x2a" "(0x2a :: byte) = 0x28 \<or> (0x2a :: byte) = 0x2a" by simp_all
  have lba: "tcmu_get_lba (cdb (rw_cmd 0x28 9000)) = tcmu_get_lba (cdb (rw_cmd 0x2a 100))" by (simp add: rw_cmd_ten)
  show ?thesis
    using dispatch_write_then_read [of quiet_env file_view ready_runner, unfolded env(1) dev, OF file_bs.backstore_axioms ready_serves env(2,3) ops lba
        rw_cmd_ten(2) [OF rw(2)] rw_cmd_ten(2) [OF rw(1)] rw_cmd_ten(3) [OF rw(2)] rw_cmd_ten(3) [OF rw(1)] bufs(1) bufs]
    by (elim exE conjE) (intro exI conjI)
qed

section \<open>Size changes\<close>

lemma first_bit_0: "bit w 0 \<Longrightarrow> first_bit w 0 32 = 0"
  by (simp add: eval_nat_numeral)

text \<open>
  A change of the device size by the handler. When it succeeds, the new size is in force, the next command
  other than INQUIRY and REQUEST SENSE is answered with the capacity change and does nothing else, and the
  attention is then cleared; with no other attention pending the command after it is served normally. When the kernel refuses, the old size and the attentions stay.
\<close>
theorem size_change_reported:
  assumes "tcmur_dev_update_size set_size dev (ru_rdev ru) new_size = Some (ret, dev', rdev')"
    and "0 < num_lbas dev" "num_lbas dev * block_size dev < 2 ^ 64" "new_size < 2 ^ 64"
  shows "if ret \<noteq> 0 then dev' = dev \<and> rdev' = ru_rdev ru
    else dev' = dev\<lparr>num_lbas := new_size div block_size dev\<rparr> \<and>
      (\<forall>cmd. cdb cmd 0 \<noteq> 0x12 \<and> cdb cmd 0 \<noteq> 0x03 \<longrightarrow>
        (\<exists>p. tcmur_generic_handle_cmd env (ru\<lparr>ru_dev := dev', ru_rdev := rdev'\<rparr>) cmd
              = Some (Returned TCMU_STS_CAPACITY_CHANGED, cmd, ru\<lparr>ru_dev := dev', ru_rdev := (ru_rdev ru)\<lparr>pending_uas := p\<rparr>\<rparr>)
           \<and> \<not> bit p 0 \<and> (pending_uas (ru_rdev ru) = 0 \<longrightarrow> p = 0)))"
proof -
  have bs: "new_size = 0 \<or> block_size dev \<noteq> 0" "new_size \<noteq> 0 \<or> ret \<noteq> 0 \<and> dev' = dev \<and> rdev' = ru_rdev ru"
    using assms(1) by (auto simp: tcmur_dev_update_size_def tcmu_update_num_lbas_def Let_def split: if_splits)
  have old: "mul64 (num_lbas dev) (block_size dev) = num_lbas dev * block_size dev" using assms(3) by (rule mul64_id)
  have small: "u64 (num_lbas dev) = num_lbas dev" "u64 (new_size div block_size dev) = new_size div block_size dev" if "block_size dev \<noteq> 0"
  proof -
    have "num_lbas dev * 1 \<le> num_lbas dev * block_size dev" using that by (intro mult_le_mono2) simp
    then show "u64 (num_lbas dev) = num_lbas dev" using assms(3) by (intro u64_id) linarith
    show "u64 (new_size div block_size dev) = new_size div block_size dev"
      using assms(4) div_le_dividend [of new_size "block_size dev"] by (intro u64_id) linarith
  qed
  show ?thesis
  proof (cases "new_size = 0 \<or> set_size \<noteq> 0")
    case True
    then show ?thesis
      using assms(1,2) bs by (auto simp: tcmur_dev_update_size_def tcmu_update_num_lbas_def Let_def old small split: if_splits)
  next
    case False
    then have ok: "ret = 0" "dev' = dev\<lparr>num_lbas := new_size div block_size dev\<rparr>" "rdev' = tcmur_set_pending_ua (ru_rdev ru) 0"
      using assms(1) bs by (auto simp: tcmur_dev_update_size_def tcmu_update_num_lbas_def Let_def small)
    let ?p = "pending_uas (ru_rdev ru) OR 1"
    have bit: "bit ?p 0" "\<not> bit (?p AND NOT 1) 0" "pending_uas (ru_rdev ru) = 0 \<longrightarrow> ?p AND NOT 1 = 0"
      by (auto simp: bit_simps)
    moreover have "?p \<noteq> 0" using bit(1) by (metis bit_0_eq bot_apply bot_bool_def)
    ultimately show ?thesis
      using ok by (auto simp: tcmur_generic_handle_cmd_def handle_pending_ua_def tcmur_set_pending_ua_def first_bit_0 Let_def)
  qed
qed

theorem size_change_reported_witness:
  "\<exists>p. tcmur_generic_handle_cmd quiet_env (ready_runner\<lparr>ru_dev := thin_dev\<lparr>num_lbas := 8\<rparr>, ru_rdev := tcmur_set_pending_ua locked_dev 0\<rparr>) (rw_cmd 0x28 9000)
     = Some (Returned TCMU_STS_CAPACITY_CHANGED, rw_cmd 0x28 9000,
         ready_runner\<lparr>ru_dev := thin_dev\<lparr>num_lbas := 8\<rparr>, ru_rdev := locked_dev\<lparr>pending_uas := p\<rparr>\<rparr>)"
proof -
  have up: "tcmur_dev_update_size 0 thin_dev (ru_rdev ready_runner) 4096 = Some (0, thin_dev\<lparr>num_lbas := 8\<rparr>, tcmur_set_pending_ua locked_dev 0)"
    by (simp add: tcmur_dev_update_size_def tcmu_update_num_lbas_def ready_runner_def thin_dev_def Let_def u64_def)
  have dev: "0 < num_lbas thin_dev" "num_lbas thin_dev * block_size thin_dev < 2 ^ 64" "ru_rdev ready_runner = locked_dev"
    by (simp_all add: thin_dev_def ready_runner_def)
  have "(4096 :: nat) < 2 ^ 64" "cdb (rw_cmd 0x28 9000) 0 \<noteq> 0x12 \<and> cdb (rw_cmd 0x28 9000) 0 \<noteq> 0x03" by simp_all
  then show ?thesis using size_change_reported [OF up dev(1,2), of quiet_env] unfolding dev(3) by (simp del: rw_cmd_simps) blast
qed

end
