(* ===== verification/Sys_File.thy ===== *)
theory Sys_File
  imports Tcmur_Store
begin

text \<open>
  The system calls on a file that the handlers use, over the \<open>file_state\<close> of the file handler: each call takes the next
  answer of the kernel. The second section has what the calls do when the kernel transfers everything it is asked for.
\<close>

section \<open>System calls on a file\<close>

text \<open>An offset of \<open>2 ^ 63\<close> and more is negative as an \<open>off_t\<close> and is refused.\<close>

definition fd_pread :: "file_state \<Rightarrow> nat \<Rightarrow> nat \<Rightarrow> int \<times> byte list \<times> file_state" where
  "fd_pread f count offset =
     (let r = fd_io f (fd_k f); n = transferred r (min count (fd_len f - offset)) in
      if r < 0 \<or> offset \<ge> 2 ^ 63 then (-1, [], next_call f) else (int n, mem_read (fd_data f) offset n, next_call f))"

definition fd_pwrite :: "file_state \<Rightarrow> byte list \<Rightarrow> nat \<Rightarrow> int \<times> file_state" where
  "fd_pwrite f bs offset =
     (let r = fd_io f (fd_k f); n = transferred r (length bs) in
      if r < 0 \<or> offset \<ge> 2 ^ 63 then (-1, next_call f)
      else (int n, (next_call f)\<lparr>fd_data := mem_write (file_view f) offset (take n bs),
                                 fd_len := if n = 0 then fd_len f else max (fd_len f) (offset + n)\<rparr>))"

definition fd_preadv :: "file_state \<Rightarrow> mem \<Rightarrow> iovec list \<Rightarrow> nat \<Rightarrow> int \<times> mem \<times> file_state" where
  "fd_preadv f m iov offset = (if offset \<ge> 2 ^ 63 then (-1, m, next_call f) else preadv f m iov offset)"

definition fd_pwritev :: "file_state \<Rightarrow> mem \<Rightarrow> iovec list \<Rightarrow> nat \<Rightarrow> int \<times> file_state" where
  "fd_pwritev f m iov offset = (if offset \<ge> 2 ^ 63 then (-1, next_call f) else pwritev f m iov offset)"

definition lseek_end :: "file_state \<Rightarrow> int \<times> file_state" where
  "lseek_end f = (if fd_io f (fd_k f) < 0 then -1 else int (fd_len f), next_call f)"

definition ftruncate :: "file_state \<Rightarrow> nat \<Rightarrow> int \<times> file_state" where
  "ftruncate f n =
     (if fd_io f (fd_k f) < 0 \<or> n \<ge> 2 ^ 63 then (-1, next_call f)
      else (0, (next_call f)\<lparr>fd_data := file_view f, fd_len := n\<rparr>))"

text \<open>\<open>fallocate\<close> with \<open>FALLOC_FL_ZERO_RANGE\<close>.\<close>

definition fallocate_zero :: "file_state \<Rightarrow> nat \<Rightarrow> nat \<Rightarrow> int \<times> file_state" where
  "fallocate_zero f offset len =
     (if fd_io f (fd_k f) < 0 \<or> offset \<ge> 2 ^ 63 then (-1, next_call f)
      else (0, (next_call f)\<lparr>fd_data := mem_write (file_view f) offset (replicate len 0), fd_len := max (fd_len f) (offset + len)\<rparr>))"

section \<open>Whole transfers\<close>

text \<open>The kernel transfers everything it is asked for, up to the limit of one call.\<close>

definition io_whole :: "file_state \<Rightarrow> bool" where
  "io_whole f \<longleftrightarrow> (\<forall>k. 2 ^ 31 \<le> fd_io f k)"

lemma whole_transferred: "io_whole f \<Longrightarrow> n \<le> 2 ^ 31 \<Longrightarrow> transferred (fd_io f k) n = n" "io_whole f \<Longrightarrow> \<not> fd_io f k < 0"
proof -
  assume "io_whole f"
  then have io: "2 ^ 31 \<le> fd_io f k" by (simp add: io_whole_def)
  then show "\<not> fd_io f k < 0" by simp
  assume "n \<le> 2 ^ 31"
  then have "int n \<le> 2 ^ 31" by (metis of_nat_le_iff of_nat_numeral of_nat_power)
  then have "n \<le> nat (fd_io f k)" using io by linarith
  then show "transferred (fd_io f k) n = n" by (auto simp: transferred_def)
qed

lemma next_call_simps [simp]: "io_whole (next_call f) = io_whole f" "fd_io (next_call f) = fd_io f" "fd_data (next_call f) = fd_data f"
  by (simp_all add: io_whole_def next_call_def)

lemma view_read: "off + n \<le> fd_len f \<Longrightarrow> mem_read (fd_data f) off n = mem_read (file_view f) off n"
  by (rule nth_equalityI) (simp_all add: file_view_def)

lemma pread_whole:
  assumes "io_whole f" "off + n \<le> fd_len f" "n \<le> 2 ^ 31" "off < 2 ^ 63"
  shows "fd_pread f n off = (int n, mem_read (file_view f) off n, next_call f)"
proof -
  have "min n (fd_len f - off) = n" using assms(2) by simp
  then show ?thesis
    using assms whole_transferred [OF assms(1)] view_read [OF assms(2)] by (simp add: fd_pread_def Let_def)
qed

lemma view_update:
  "file_view (f\<lparr>fd_data := mem_write (file_view f) off bs, fd_len := max (fd_len f) (off + length bs)\<rparr>) = mem_write (file_view f) off bs"
proof
  fix x
  show "file_view (f\<lparr>fd_data := mem_write (file_view f) off bs, fd_len := max (fd_len f) (off + length bs)\<rparr>) x = mem_write (file_view f) off bs x"
    by (cases "x < off \<or> off + length bs \<le> x") (auto simp: file_view_def mem_write_out)
qed

definition stored :: "file_state \<Rightarrow> nat \<Rightarrow> byte list \<Rightarrow> file_state" where
  "stored f off bs = (next_call f)\<lparr>fd_data := mem_write (file_view f) off bs, fd_len := if bs = [] then fd_len f else max (fd_len f) (off + length bs)\<rparr>"

lemma stored_simps [simp]:
  "file_view (stored f off bs) = mem_write (file_view f) off bs" "io_whole (stored f off bs) = io_whole f"
  "fd_len f \<le> fd_len (stored f off bs)" "bs \<noteq> [] \<Longrightarrow> off + length bs \<le> fd_len (stored f off bs)"
proof -
  show "file_view (stored f off bs) = mem_write (file_view f) off bs"
    using view_update [of "next_call f" off bs]
    by (cases "bs = []") (simp_all add: stored_def, simp add: file_view_def fun_eq_iff)
qed (auto simp: stored_def io_whole_def next_call_def)

lemma pwrite_whole:
  assumes "io_whole f" "length bs \<le> 2 ^ 31" "off < 2 ^ 63"
  shows "fd_pwrite f bs off = (int (length bs), stored f off bs)"
  using assms whole_transferred [OF assms(1)] by (simp add: fd_pwrite_def Let_def stored_def)

lemma pwritev_whole:
  assumes "io_whole f" "iov_total iov \<le> 2 ^ 31" "off < 2 ^ 63"
  shows "fd_pwritev f m iov off = (int (iov_total iov), stored f off (gather m iov))"
proof -
  have "gather m iov = [] \<longleftrightarrow> iov_total iov = 0" by (metis length_0_conv length_gather)
  then show ?thesis
    using assms whole_transferred [OF assms(1)] by (simp add: fd_pwritev_def pwritev_def Let_def stored_def)
qed

lemma preadv_whole:
  assumes "io_whole f" "off + iov_total iov \<le> fd_len f" "iov_total iov \<le> 2 ^ 31" "off < 2 ^ 63" "iovs_disjoint iov"
  obtains m' where "fd_preadv f m iov off = (int (iov_total iov), m', next_call f)"
    "gather m' iov = mem_read (file_view f) off (iov_total iov)" "\<forall>x. x \<notin> set (iov_addrs iov) \<longrightarrow> m' x = m x"
proof -
  have n: "min (iov_total iov) (fd_len f - off) = iov_total iov" using assms(2) by simp
  obtain m' where p: "preadv f m iov off = (int (iov_total iov), m', next_call f)"
    using assms whole_transferred [OF assms(1)] by (simp add: preadv_def Let_def n)
  show thesis
    using that [of m'] p preadv_spec [OF p _ assms(5)] assms(4) by (simp add: fd_preadv_def)
qed

lemma pread_full:
  assumes "fd_pread f n off = (int n, bs, f')"
  shows "bs = mem_read (file_view f') off n" "file_view f' = file_view f" "fd_len f' = fd_len f" "0 < n \<Longrightarrow> off + n \<le> fd_len f"
proof -
  let ?k = "transferred (fd_io f (fd_k f)) (min n (fd_len f - off))"
  have r: "n = ?k" "bs = mem_read (fd_data f) off n" "f' = next_call f"
    using assms by (auto simp: fd_pread_def Let_def split: if_splits)
  have "?k \<le> min n (fd_len f - off)" by (auto simp: transferred_def)
  then have fit: "n \<le> fd_len f - off" using r(1) by simp
  show "file_view f' = file_view f" "fd_len f' = fd_len f" using r(3) by (simp_all add: next_call_def file_view_def fun_eq_iff)
  show "0 < n \<Longrightarrow> off + n \<le> fd_len f" using fit by simp
  show "bs = mem_read (file_view f') off n"
    using r fit by (intro nth_equalityI) (auto simp: file_view_def next_call_def)
qed

end
