(* ===== verification/Qcow_Image.thy ===== *)
theory Qcow_Image
  imports Tcmur_Rw Sys_File
begin

unbundle bit_operations_syntax

text \<open>
  The image formats of the QCOW handler (\<open>qcow.c\<close> 78--700, 1315--1405): headers, probing, opening an image and
  the chain of its backing images. Tables are held as the raw big-endian bytes that the
  code reads and writes.
\<close>

section \<open>Headers\<close>

record qcow_header =
  h_magic :: nat
  h_version :: nat
  h_backing_file_offset :: nat
  h_backing_file_size :: nat
  h_mtime :: nat
  h_size :: nat
  h_cluster_bits :: nat
  h_l2_bits :: nat
  h_padding :: nat
  h_crypt_method :: nat
  h_l1_table_offset :: nat

record qcow2_header =
  h2_magic :: nat
  h2_version :: nat
  h2_backing_file_offset :: nat
  h2_backing_file_size :: nat
  h2_cluster_bits :: nat
  h2_size :: nat
  h2_crypt_method :: nat
  h2_l1_size :: nat
  h2_l1_table_offset :: nat
  h2_refcount_table_offset :: nat
  h2_refcount_table_clusters :: nat
  h2_nb_snapshots :: nat
  h2_snapshots_offset :: nat
  h2_incompatible_features :: nat
  h2_compatible_features :: nat
  h2_autoclear_features :: nat
  h2_refcount_order :: nat
  h2_header_length :: nat

abbreviation be_at :: "byte list \<Rightarrow> nat \<Rightarrow> nat \<Rightarrow> nat" where
  "be_at buf off n \<equiv> be_dec (buf_get buf off n)"

definition QCOW_MAGIC :: nat where "QCOW_MAGIC = 0x514649fb"

definition qcow_header_bswap :: "byte list \<Rightarrow> qcow_header" where
  "qcow_header_bswap be =
     \<lparr>h_magic = be_at be 0 4, h_version = be_at be 4 4, h_backing_file_offset = be_at be 8 8, h_backing_file_size = be_at be 16 4,
      h_mtime = be_at be 20 4, h_size = be_at be 24 8, h_cluster_bits = be_at be 32 1, h_l2_bits = be_at be 33 1,
      h_padding = be_at be 34 2, h_crypt_method = be_at be 36 4, h_l1_table_offset = be_at be 40 8\<rparr>"

definition qcow2_header_bswap :: "byte list \<Rightarrow> qcow2_header" where
  "qcow2_header_bswap be =
     (let v2 = (be_at be 4 4 = 2) in
     \<lparr>h2_magic = be_at be 0 4, h2_version = be_at be 4 4, h2_backing_file_offset = be_at be 8 8, h2_backing_file_size = be_at be 16 4,
      h2_cluster_bits = be_at be 20 4, h2_size = be_at be 24 8, h2_crypt_method = be_at be 32 4, h2_l1_size = be_at be 36 4,
      h2_l1_table_offset = be_at be 40 8, h2_refcount_table_offset = be_at be 48 8, h2_refcount_table_clusters = be_at be 56 4,
      h2_nb_snapshots = be_at be 60 4, h2_snapshots_offset = be_at be 64 8,
      h2_incompatible_features = if v2 then 0 else be_at be 72 8, h2_compatible_features = if v2 then 0 else be_at be 80 8,
      h2_autoclear_features = if v2 then 0 else be_at be 88 8, h2_refcount_order = if v2 then 4 else be_at be 96 4,
      h2_header_length = if v2 then 72 else be_at be 100 4\<rparr>)"

definition qcow_validate_header :: "qcow_header \<Rightarrow> bool" where
  "qcow_validate_header h \<longleftrightarrow> h_magic h = QCOW_MAGIC \<and> h_version h = 1 \<and> \<not> (h_cluster_bits h < 9 \<or> h_cluster_bits h > 16)
     \<and> \<not> (h_l2_bits h < 9 - 3 \<or> h_l2_bits h > 16 - 3) \<and> h_crypt_method h = 0"

definition qcow2_validate_header :: "qcow2_header \<Rightarrow> bool" where
  "qcow2_validate_header h \<longleftrightarrow> h2_magic h = QCOW_MAGIC \<and> \<not> h2_version h < 2 \<and> \<not> (h2_cluster_bits h < 9 \<or> h2_cluster_bits h > 16)
     \<and> h2_crypt_method h = 0"

section \<open>The state of an image\<close>

text \<open>
  \<open>q_l1_table\<close>, \<open>l2_cache\<close>, \<open>refcount_table\<close> and \<open>rc_cache\<close> hold bytes; the offsets of the caches are \<open>0\<close> for a slot
  that was never filled. \<open>q_alloc\<close> is the function that \<open>block_alloc\<close> and \<open>set_refcount\<close> point to: those of version 1 or
  those of version 2.
\<close>

datatype alloc_kind = Grow | Refcounted

record qcow_state =
  q_fd :: file_state
  q_size :: nat
  cluster_bits :: nat
  cluster_size :: nat
  cluster_sectors :: nat
  l2_bits :: nat
  l2_size :: nat
  cluster_offset_mask :: "64 word"
  l1_size :: nat
  l1_table_offset :: nat
  q_l1_table :: "byte list"
  l2_cache :: "byte list list"
  l2_cache_offsets :: "64 word list"
  l2_cache_counts :: "nat list"
  cluster_cache :: "byte list"
  cluster_cache_offset :: "64 word"
  cluster_compressed :: "64 word"
  cluster_copied :: "64 word"
  cluster_mask :: "64 word"
  refcount_table_offset :: nat
  refcount_table_size :: nat
  refcount_table :: "byte list"
  refcount_order :: nat
  rc_cache :: "byte list list"
  rc_cache_offsets :: "64 word list"
  rc_cache_counts :: "nat list"
  q_alloc :: alloc_kind
  first_free_cluster :: "64 word"

abbreviation (input) L2_CACHE_SIZE :: nat where "L2_CACHE_SIZE \<equiv> 16"
abbreviation (input) RC_CACHE_SIZE :: nat where "RC_CACHE_SIZE \<equiv> 16"
abbreviation (input) QCOW_OFLAG_COMPRESSED :: "64 word" where "QCOW_OFLAG_COMPRESSED \<equiv> 0x8000000000000000"
abbreviation (input) QCOW2_OFLAG_COPIED :: "64 word" where "QCOW2_OFLAG_COPIED \<equiv> 0x8000000000000000"
abbreviation (input) QCOW2_OFLAG_COMPRESSED :: "64 word" where "QCOW2_OFLAG_COMPRESSED \<equiv> 0x4000000000000000"
abbreviation (input) QCOW2_OFLAG_ZERO :: "64 word" where "QCOW2_OFLAG_ZERO \<equiv> 1"

text \<open>A raw file, or an image with the image behind it.\<close>

datatype image = Raw file_state | Qcow qcow_state "image option"

section \<open>Opening\<close>

text \<open>
  What the system provides: access checks, opening and sizes of files by directory and name, the directory of an
  opened file (\<open>get_dirfd\<close>), whether the \<open>k\<close>-th allocation of an open succeeds, and what is on the stack before a
  short read of the probe.
\<close>

record image_env =
  ie_access :: "nat \<Rightarrow> string \<Rightarrow> bool \<Rightarrow> bool"
  ie_openat :: "nat \<Rightarrow> string \<Rightarrow> file_state option"
  ie_stat :: "nat \<Rightarrow> string \<Rightarrow> nat option"
  ie_dir :: "nat \<Rightarrow> string \<Rightarrow> nat option"
  ie_alloc :: "nat \<Rightarrow> bool"
  ie_stack :: "byte list"

text \<open>The first bytes of the file, over what the stack held.\<close>

definition probe_head :: "image_env \<Rightarrow> nat \<Rightarrow> string \<Rightarrow> byte list option" where
  "probe_head env dirfd path = do {
     f \<leftarrow> (if ie_access env dirfd path True then ie_openat env dirfd path else None);
     (case fd_pread f 8 0 of (r, bs, f') \<Rightarrow> if r = -1 then None else Some (bs @ drop (length bs) (ie_stack env)))
   }"

definition qcow_probe :: "image_env \<Rightarrow> nat \<Rightarrow> string \<Rightarrow> bool" where
  "qcow_probe env dirfd path =
     (case probe_head env dirfd path of None \<Rightarrow> False | Some h \<Rightarrow> be_at h 0 4 = QCOW_MAGIC \<and> be_at h 4 4 = 1)"

definition qcow2_probe :: "image_env \<Rightarrow> nat \<Rightarrow> string \<Rightarrow> bool" where
  "qcow2_probe env dirfd path =
     (case probe_head env dirfd path of None \<Rightarrow> False | Some h \<Rightarrow> be_at h 0 4 = QCOW_MAGIC \<and> \<not> be_at h 4 4 < 2)"

definition raw_probe :: "image_env \<Rightarrow> nat \<Rightarrow> nat \<Rightarrow> string \<Rightarrow> bool" where
  "raw_probe env sz dirfd path = (ie_access env dirfd path False \<and> ie_stat env dirfd path = Some sz)"

text \<open>
  The backing image: \<open>opn\<close> opens an image with the size and block size of the overlay. \<open>Inl\<close> fails; \<open>Inr None\<close> is an image
  without one.
\<close>

definition qcow_setup_backing_file ::
  "image_env \<Rightarrow> (nat \<Rightarrow> string \<Rightarrow> image option option) \<Rightarrow> nat \<Rightarrow> string \<Rightarrow> file_state \<Rightarrow> nat \<Rightarrow> nat \<Rightarrow> (unit + image option) option" where
  "qcow_setup_backing_file env opn dirfd path f offset len =
     (if offset = 0 \<or> len = 0 then Some (Inr None)
      else if len \<ge> 4096 then Some (Inl ())
      else case fd_pread f len offset of (r, bs, f') \<Rightarrow>
        if r \<noteq> int len then Some (Inl ())
        else if \<not> ie_alloc env 4 then Some (Inl ())
        else case ie_dir env dirfd path of
          None \<Rightarrow> Some (Inl ())
        | Some d \<Rightarrow> do {
            im \<leftarrow> opn d (map (\<lambda>b. char_of (unat b)) (takeWhile (\<lambda>b. b \<noteq> 0) bs));
            Some (case im of None \<Rightarrow> Inl () | Some i \<Rightarrow> Inr (Some i))
          })"

text \<open>The common part of the state, and the L1 table with its bounds; \<open>None\<close> is the failure of the open.\<close>

definition l1_entries :: "nat \<Rightarrow> nat \<Rightarrow> nat option" where
  "l1_entries sz shift =
     (if sz > 2 ^ 64 - 1 - 2 ^ shift then None
      else let n = (sz + 2 ^ shift - 1) div 2 ^ shift in
           if n > (2 ^ 31 - 1) div 8 then None
           else if round_up sz 512 \<noteq> Some sz then None
           else Some n)"

definition qcow_state_of :: "file_state \<Rightarrow> nat \<Rightarrow> nat \<Rightarrow> nat \<Rightarrow> nat \<Rightarrow> nat \<Rightarrow> byte list \<Rightarrow> qcow_state" where
  "qcow_state_of f sz cb l2b n off l1 =
     \<lparr>q_fd = f, q_size = sz, cluster_bits = cb, cluster_size = 2 ^ cb, cluster_sectors = 2 ^ (cb - 9), l2_bits = l2b, l2_size = 2 ^ l2b,
      cluster_offset_mask = push_bit (63 - cb) 1 - 1, l1_size = n, l1_table_offset = off, q_l1_table = l1,
      l2_cache = replicate L2_CACHE_SIZE (replicate (8 * 2 ^ l2b) 0), l2_cache_offsets = replicate L2_CACHE_SIZE 0,
      l2_cache_counts = replicate L2_CACHE_SIZE 0, cluster_cache = replicate (2 ^ cb) 0, cluster_cache_offset = -1,
      cluster_compressed = QCOW_OFLAG_COMPRESSED, cluster_copied = 0, cluster_mask = NOT QCOW_OFLAG_COMPRESSED,
      refcount_table_offset = 0, refcount_table_size = 0, refcount_table = [], refcount_order = 0,
      rc_cache = [], rc_cache_offsets = replicate RC_CACHE_SIZE 0, rc_cache_counts = replicate RC_CACHE_SIZE 0,
      q_alloc = Grow, first_free_cluster = 0\<rparr>"

definition qcow_image_open ::
  "image_env \<Rightarrow> (nat \<Rightarrow> string \<Rightarrow> image option option) \<Rightarrow> nat \<Rightarrow> nat \<Rightarrow> nat \<Rightarrow> string \<Rightarrow> image option option" where
  "qcow_image_open env opn bsize blksz dirfd path =
     (case (if ie_alloc env 0 then ie_openat env dirfd path else None) of
        None \<Rightarrow> Some None
      | Some f \<Rightarrow> case fd_pread f 48 0 of (r, buf, f1) \<Rightarrow>
          if r \<noteq> 48 then Some None
          else let h = qcow_header_bswap buf in
            if \<not> qcow_validate_header h \<or> bsize \<noteq> h_size h \<or> blksz \<noteq> 512 then Some None
            else case l1_entries (h_size h) (h_cluster_bits h + h_l2_bits h) of
              None \<Rightarrow> Some None
            | Some n \<Rightarrow>
                if \<not> ie_alloc env 1 then Some None
                else case fd_pread f1 (8 * n) (h_l1_table_offset h) of (r, l1, f2) \<Rightarrow>
                  if r \<noteq> int (8 * n) \<or> \<not> ie_alloc env 2 \<or> \<not> ie_alloc env 3 then Some None
                  else do {
                    b \<leftarrow> qcow_setup_backing_file env opn dirfd path f2 (h_backing_file_offset h) (h_backing_file_size h);
                    Some (case b of Inl _ \<Rightarrow> None
                          | Inr im \<Rightarrow> Some (Qcow (qcow_state_of f2 bsize (h_cluster_bits h) (h_l2_bits h) n (h_l1_table_offset h) l1) im))
                  })"

definition qcow2_image_open ::
  "image_env \<Rightarrow> (nat \<Rightarrow> string \<Rightarrow> image option option) \<Rightarrow> nat \<Rightarrow> nat \<Rightarrow> nat \<Rightarrow> string \<Rightarrow> image option option" where
  "qcow2_image_open env opn bsize blksz dirfd path =
     (case (if ie_alloc env 0 then ie_openat env dirfd path else None) of
        None \<Rightarrow> Some None
      | Some f \<Rightarrow> case fd_pread f 104 0 of (r, buf, f1) \<Rightarrow>
          if r \<noteq> 104 then Some None
          else let h = qcow2_header_bswap buf; cb = h2_cluster_bits h in
            if \<not> qcow2_validate_header h \<or> bsize \<noteq> h2_size h \<or> blksz \<noteq> 512 then Some None
            else case l1_entries (h2_size h) (cb + (cb - 3)) of
              None \<Rightarrow> Some None
            | Some n \<Rightarrow>
                if h2_l1_size h \<noteq> n \<or> \<not> ie_alloc env 1 then Some None
                else case fd_pread f1 (8 * n) (h2_l1_table_offset h) of (r, l1, f2) \<Rightarrow>
                  if r \<noteq> int (8 * n) \<or> \<not> ie_alloc env 2 \<or> \<not> ie_alloc env 3 then Some None
                  else let rts = u32 (h2_refcount_table_clusters h * 2 ^ (cb - 3)) in
                    if \<not> ie_alloc env 5 then Some None
                    else case fd_pread f2 (8 * rts) (h2_refcount_table_offset h) of (r, rt, f3) \<Rightarrow>
                      if r \<noteq> int (8 * rts) \<or> \<not> ie_alloc env 6 then Some None
                      else do {
                        b \<leftarrow> qcow_setup_backing_file env opn dirfd path f3 (h2_backing_file_offset h) (h2_backing_file_size h);
                        Some (case b of Inl _ \<Rightarrow> None
                              | Inr im \<Rightarrow> Some (Qcow ((qcow_state_of f3 bsize cb (cb - 3) n (h2_l1_table_offset h) l1)
                                  \<lparr>cluster_compressed := QCOW2_OFLAG_COMPRESSED, cluster_copied := QCOW2_OFLAG_COPIED,
                                   cluster_mask := NOT (QCOW_OFLAG_COMPRESSED OR QCOW2_OFLAG_COPIED OR QCOW2_OFLAG_ZERO),
                                   refcount_table_offset := h2_refcount_table_offset h, refcount_table_size := rts, refcount_table := rt,
                                   refcount_order := h2_refcount_order h, rc_cache := replicate RC_CACHE_SIZE (replicate (2 ^ cb) 0),
                                   q_alloc := Refcounted\<rparr>) im))
                      })"

definition raw_image_open :: "image_env \<Rightarrow> nat \<Rightarrow> string \<Rightarrow> image option" where
  "raw_image_open env dirfd path = map_option Raw (ie_openat env dirfd path)"

text \<open>
  The images are tried in the order of \<open>bdev_ops\<close>. The first argument is the number of nested opens there is stack for: an
  image that is its own backing file never finishes (\<open>None\<close>).
\<close>

primrec bdev_open :: "nat \<Rightarrow> image_env \<Rightarrow> nat \<Rightarrow> nat \<Rightarrow> nat \<Rightarrow> string \<Rightarrow> image option option" where
  "bdev_open 0 env bsize blksz dirfd path = None"
| "bdev_open (Suc depth) env bsize blksz dirfd path =
     (if qcow_probe env dirfd path then qcow_image_open env (bdev_open depth env bsize blksz) bsize blksz dirfd path
      else if qcow2_probe env dirfd path then qcow2_image_open env (bdev_open depth env bsize blksz) bsize blksz dirfd path
      else if raw_probe env bsize dirfd path then Some (raw_image_open env dirfd path)
      else Some None)"

text \<open>The handler's open: the image is named behind the first slash of the configuration string.\<close>

definition qcow_open :: "nat \<Rightarrow> image_env \<Rightarrow> tcmu_device \<Rightarrow> int \<Rightarrow> (int \<times> tcmu_device \<times> image option) option" where
  "qcow_open depth env dev dev_size =
     (if dev_size < 0 then Some (-1, dev, None)
      else case dropWhile (\<lambda>c. c \<noteq> CHR ''/'') (cfgstring dev) of
        [] \<Rightarrow> Some (-1, dev, None)
      | c # config \<Rightarrow> do {
          let dev' = tcmu_set_dev_write_cache_enabled dev True;
          im \<leftarrow> bdev_open depth env (nat dev_size) (tcmu_get_dev_block_size dev) 0 config;
          Some (case im of None \<Rightarrow> (-1, dev', None) | Some i \<Rightarrow> (0, dev', Some i))
        })"

end
