(* ===== verification/Qcow_Cluster.thy ===== *)
theory Qcow_Cluster
  imports Qcow_Image "HOL-Library.Monad_Syntax"
begin

unbundle bit_operations_syntax

text \<open>
  Clusters of a QCOW image (\<open>qcow.c\<close> 704--1180): the caches of L2 tables and refcount blocks, allocation by growing the file
  (version 1) or by refcounts (version 2), and the two-level lookup that allocates, decompresses and copies
  clusters on the way. \<open>None\<close> is an access outside a table, a failed assertion or a loop that never ends; failures that the
  code reports are values. \<open>zinf\<close> is \<open>decompress_buffer\<close>, which calls zlib: from the input and the size of the output, whether it
  succeeds and the bytes it has put out.
\<close>

definition be64_at :: "byte list \<Rightarrow> nat \<Rightarrow> 64 word" where
  "be64_at tbl i = of_nat (be_at tbl (8 * i) 8)"

section \<open>Caches\<close>

fun first_index :: "64 word list \<Rightarrow> 64 word \<Rightarrow> nat \<Rightarrow> nat option" where
  "first_index [] v i = None"
| "first_index (x # xs) v i = (if v = x then Some i else first_index xs v (Suc i))"

text \<open>The least used entry: the first one with the least count.\<close>

fun victim :: "nat list \<Rightarrow> nat \<Rightarrow> nat \<Rightarrow> nat \<Rightarrow> nat" where
  "victim [] i min_count min_index = min_index"
| "victim (c # cs) i min_count min_index =
     (if c < min_count then victim cs (Suc i) c i else victim cs (Suc i) min_count min_index)"

abbreviation (input) INT_MAX :: nat where "INT_MAX \<equiv> 2147483647"

text \<open>The slot of the table. When a count reaches \<open>INT_MAX\<close> the loop that halves the counts never ends, since it tests the wrong variable.\<close>

definition l2_cache_lookup :: "qcow_state \<Rightarrow> 64 word \<Rightarrow> (nat option \<times> qcow_state) option" where
  "l2_cache_lookup s l2_offset =
     (case first_index (l2_cache_offsets s) l2_offset 0 of
        Some i \<Rightarrow>
          let c = l2_cache_counts s ! i + 1 in
          if c = INT_MAX then None else Some (Some i, s\<lparr>l2_cache_counts := (l2_cache_counts s)[i := c]\<rparr>)
      | None \<Rightarrow>
          let min_index = victim (l2_cache_counts s) 0 INT_MAX 0 in
          case fd_pread (q_fd s) (l2_size s * 8) (unat l2_offset) of (read, bs, f) \<Rightarrow>
            let s1 = s\<lparr>q_fd := f, l2_cache := (l2_cache s)[min_index := buf_put (l2_cache s ! min_index) 0 bs]\<rparr> in
            if read \<noteq> int (l2_size s * 8) then Some (None, s1)
            else Some (Some min_index, s1\<lparr>l2_cache_offsets := (l2_cache_offsets s)[min_index := l2_offset],
                                          l2_cache_counts := (l2_cache_counts s)[min_index := 1]\<rparr>))"

definition rc_cache_lookup :: "qcow_state \<Rightarrow> 64 word \<Rightarrow> (nat option \<times> qcow_state) option" where
  "rc_cache_lookup s rc_offset =
     (case first_index (rc_cache_offsets s) rc_offset 0 of
        Some i \<Rightarrow>
          let c = rc_cache_counts s ! i + 1 in
          if c = INT_MAX then None else Some (Some i, s\<lparr>rc_cache_counts := (rc_cache_counts s)[i := c]\<rparr>)
      | None \<Rightarrow>
          let min_index = victim (rc_cache_counts s) 0 INT_MAX 0 in
          case fd_pread (q_fd s) (2 ^ cluster_bits s) (unat rc_offset) of (read, bs, f) \<Rightarrow>
            let s1 = s\<lparr>q_fd := f, rc_cache := (rc_cache s)[min_index := buf_put (rc_cache s ! min_index) 0 bs]\<rparr> in
            if read \<noteq> 2 ^ cluster_bits s then Some (None, s1)
            else Some (Some min_index, s1\<lparr>rc_cache_offsets := (rc_cache_offsets s)[min_index := rc_offset],
                                          rc_cache_counts := (rc_cache_counts s)[min_index := 1]\<rparr>))"

section \<open>Refcounts\<close>

text \<open>A field of \<open>2 ^ order\<close> bits in a refcount block. \<open>None\<close>: an order above 6, or an index outside the block.\<close>

definition get_refcount :: "nat \<Rightarrow> byte list \<Rightarrow> nat \<Rightarrow> nat option" where
  "get_refcount order rcblock index =
     (if (index + 1) * 2 ^ order > 8 * length rcblock then None
      else if order = 0 then Some (unat (drop_bit (index mod 8) (rcblock ! (index div 8)) AND 0x1))
      else if order = 1 then Some (unat (drop_bit (2 * (index mod 4)) (rcblock ! (index div 4)) AND 0x3))
      else if order = 2 then Some (unat (drop_bit (4 * (index mod 2)) (rcblock ! (index div 2)) AND 0xf))
      else if order = 3 then Some (unat (rcblock ! index))
      else if order = 4 then Some (be_at rcblock (2 * index) 2)
      else if order = 5 then Some (be_at rcblock (4 * index) 4)
      else if order = 6 then Some (be_at rcblock (8 * index) 8)
      else None)"

text \<open>The assertion shifts by \<open>1 << order\<close>, which is undefined for 64 bits and more.\<close>

definition set_refcount :: "nat \<Rightarrow> byte list \<Rightarrow> nat \<Rightarrow> nat \<Rightarrow> byte list option" where
  "set_refcount order rcblock index val =
     (if order \<ge> 6 then None
      else if val div 2 ^ 2 ^ order \<noteq> 0 \<or> (index + 1) * 2 ^ order > 8 * length rcblock then None
      else if order = 0 then Some (rcblock[index div 8 := (rcblock ! (index div 8) AND NOT (push_bit (index mod 8) 0x1)) OR push_bit (index mod 8) (of_nat val)])
      else if order = 1 then Some (rcblock[index div 4 := (rcblock ! (index div 4) AND NOT (push_bit (2 * (index mod 4)) 0x3)) OR push_bit (2 * (index mod 4)) (of_nat val)])
      else if order = 2 then Some (rcblock[index div 2 := (rcblock ! (index div 2) AND NOT (push_bit (4 * (index mod 2)) 0xf)) OR push_bit (4 * (index mod 2)) (of_nat val)])
      else if order = 3 then Some (rcblock[index := of_nat val])
      else if order = 4 then Some (buf_put rcblock (2 * index) (be_enc 2 val))
      else Some (buf_put rcblock (4 * index) (be_enc 4 val)))"

text \<open>The position of a cluster's refcount: the entry of the refcount table and the index in its block.\<close>

definition refcount_pos :: "qcow_state \<Rightarrow> nat \<Rightarrow> (nat \<times> nat) option" where
  "refcount_pos s cluster_offset =
     (if refcount_order s > cluster_bits s + 3 \<or> cluster_offset \<ge> 2 ^ 63 then None
      else let bits = cluster_bits s + 3 - refcount_order s;
               rc_index = cluster_offset div 2 ^ (cluster_bits s + bits)
           in if rc_index \<ge> refcount_table_size s then None
              else Some (rc_index, cluster_offset div 2 ^ cluster_bits s mod 2 ^ bits))"

definition qcow2_get_refcount :: "qcow_state \<Rightarrow> nat \<Rightarrow> (nat \<times> qcow_state) option" where
  "qcow2_get_refcount s cluster_offset = do {
     (rc_index, refblock_index) \<leftarrow> refcount_pos s cluster_offset;
     let refblock_offset = be64_at (refcount_table s) rc_index;
     if refblock_offset = 0 then Some (0, s)
     else do {
       (refblock, s1) \<leftarrow> rc_cache_lookup s refblock_offset;
       (case refblock of
          None \<Rightarrow> Some (0, s1)
        | Some i \<Rightarrow> do { rc \<leftarrow> get_refcount (refcount_order s) (rc_cache s1 ! i) refblock_index; Some (rc, s1) })
     }
   }"

section \<open>Allocation\<close>

text \<open>Version 1 grows the file. \<open>0\<close> is the failure of an allocation.\<close>

definition qcow_block_alloc :: "qcow_state \<Rightarrow> nat \<Rightarrow> 64 word \<times> qcow_state" where
  "qcow_block_alloc s sz =
     (case lseek_end (q_fd s) of (off, f1) \<Rightarrow>
        if off = -1 then (0, s\<lparr>q_fd := f1\<rparr>)
        else
          let offset = (of_int off + of_nat sz - 1) AND NOT (of_nat sz - 1) :: 64 word in
          case ftruncate f1 (unat (offset + of_nat sz)) of (r, f2) \<Rightarrow>
            if r = -1 then (0, s\<lparr>q_fd := f2\<rparr>) else (offset, s\<lparr>q_fd := f2\<rparr>))"

text \<open>Version 2 looks for a cluster with refcount zero; the search reads behind the refcount table when there is none.\<close>

partial_function (option) free_search :: "qcow_state \<Rightarrow> 64 word \<Rightarrow> (64 word \<times> qcow_state) option" where
  "free_search s cluster = do {
     (rc, s1) \<leftarrow> qcow2_get_refcount s (unat cluster);
     if rc \<noteq> 0 then free_search s1 (cluster + of_nat (cluster_size s)) else Some (cluster, s1)
   }"

definition qcow2_block_alloc :: "qcow_state \<Rightarrow> nat \<Rightarrow> (64 word \<times> qcow_state) option" where
  "qcow2_block_alloc s sz =
     (if sz \<noteq> cluster_size s then None
      else do {
        (cluster, s1) \<leftarrow> free_search s (first_free_cluster s);
        (case fallocate_zero (q_fd s1) (unat cluster) (cluster_size s) of (ret, f) \<Rightarrow>
           if ret \<noteq> 0 then Some (0, s1\<lparr>q_fd := f\<rparr>)
           else Some (cluster, s1\<lparr>q_fd := f, first_free_cluster := cluster + of_nat (cluster_size s)\<rparr>))
      })"

definition block_alloc :: "qcow_state \<Rightarrow> nat \<Rightarrow> (64 word \<times> qcow_state) option" where
  "block_alloc s sz = (case q_alloc s of Grow \<Rightarrow> Some (qcow_block_alloc s sz) | Refcounted \<Rightarrow> qcow2_block_alloc s sz)"

definition qcow_cluster_alloc :: "qcow_state \<Rightarrow> (64 word \<times> qcow_state) option" where
  "qcow_cluster_alloc s = block_alloc s (cluster_size s)"

definition l2_table_alloc :: "qcow_state \<Rightarrow> (64 word \<times> qcow_state) option" where
  "l2_table_alloc s = block_alloc s (l2_size s * 8)"

text \<open>Writes of single entries; the callers ignore their results.\<close>

definition rc_table_update :: "qcow_state \<Rightarrow> nat \<Rightarrow> 64 word \<Rightarrow> int \<times> qcow_state" where
  "rc_table_update s rc_index refblock_offset =
     (let e = be_enc 8 (unat refblock_offset) in
      case fd_pwrite (q_fd s) e (refcount_table_offset s + rc_index * 8) of (ret, f) \<Rightarrow>
        (ret, s\<lparr>q_fd := f, refcount_table := buf_put (refcount_table s) (8 * rc_index) e\<rparr>))"

definition l1_table_update :: "qcow_state \<Rightarrow> nat \<Rightarrow> 64 word \<Rightarrow> int \<times> qcow_state" where
  "l1_table_update s l1_index l2_offset =
     (let e = be_enc 8 (unat l2_offset) in
      case fd_pwrite (q_fd s) e (l1_table_offset s + l1_index * 8) of (ret, f) \<Rightarrow>
        (ret, s\<lparr>q_fd := f, q_l1_table := buf_put (q_l1_table s) (8 * l1_index) e\<rparr>))"

definition l2_table_update :: "qcow_state \<Rightarrow> nat \<Rightarrow> 64 word \<Rightarrow> nat \<Rightarrow> 64 word \<Rightarrow> int \<times> qcow_state" where
  "l2_table_update s slot l2_table_offset l2_index cluster_offset =
     (let e = be_enc 8 (unat cluster_offset) in
      case fd_pwrite (q_fd s) e (unat l2_table_offset + l2_index * 8) of (ret, f) \<Rightarrow>
        (ret, s\<lparr>q_fd := f, l2_cache := (l2_cache s)[slot := buf_put (l2_cache s ! slot) (8 * l2_index) e]\<rparr>))"

text \<open>Setting a refcount, with a new refcount block where there is none, whose own refcount is set first.\<close>

partial_function (option) qcow2_set_refcount :: "qcow_state \<Rightarrow> 64 word \<Rightarrow> nat \<Rightarrow> (int \<times> qcow_state) option" where
  "qcow2_set_refcount s cluster_offset val = do {
     (rc_index, refblock_index) \<leftarrow> refcount_pos s (unat cluster_offset);
     let old_offset = be64_at (refcount_table s) rc_index;
     (refblock_offset, s1) \<leftarrow> (if old_offset \<noteq> 0 then Some (old_offset, s) else do {
        (o1, s1) \<leftarrow> qcow_cluster_alloc s;
        if o1 = 0 then Some (0, s1)
        else do {
          (r, s2) \<leftarrow> qcow2_set_refcount (snd (rc_table_update s1 rc_index o1)) o1 1;
          Some (o1, s2)
        }
      });
     if refblock_offset = 0 then Some (-1, s1)
     else do {
       (refblock, s2) \<leftarrow> rc_cache_lookup s1 refblock_offset;
       (case refblock of
          None \<Rightarrow> Some (-1, s2)
        | Some i \<Rightarrow> do {
            b \<leftarrow> set_refcount (refcount_order s) (rc_cache s2 ! i) refblock_index val;
            (case fd_pwrite (q_fd s2) b (unat refblock_offset) of (ret, f) \<Rightarrow>
               Some (ret, s2\<lparr>q_fd := f, rc_cache := (rc_cache s2)[i := b]\<rparr>))
          })
     }
   }"

definition set_refcount_of :: "qcow_state \<Rightarrow> 64 word \<Rightarrow> nat \<Rightarrow> (int \<times> qcow_state) option" where
  "set_refcount_of s cluster_offset val =
     (case q_alloc s of Grow \<Rightarrow> Some (0, s) | Refcounted \<Rightarrow> qcow2_set_refcount s cluster_offset val)"

section \<open>Compressed clusters\<close>

text \<open>
  zlib is a parameter: whether \<open>inflateInit2\<close> succeeds, and what \<open>inflate\<close> returns and puts out for an input and the room there is. The
  definitions below take \<open>decompress_buffer\<close> with its zlib as the argument \<open>zinf\<close>.
\<close>

datatype z_ret = Z_STREAM_END | Z_BUF_ERROR | Z_OTHER

definition decompress_buffer :: "bool \<Rightarrow> (byte list \<Rightarrow> nat \<Rightarrow> z_ret \<times> byte list) \<Rightarrow> byte list \<Rightarrow> nat \<Rightarrow> bool \<times> byte list" where
  "decompress_buffer init inflate src dst_size =
     (if \<not> init then (False, [])
      else case inflate src dst_size of (ret, out) \<Rightarrow>
        (\<not> (ret \<noteq> Z_STREAM_END \<and> ret \<noteq> Z_BUF_ERROR \<or> length out \<noteq> dst_size), out))"

definition decompress_cluster :: "(byte list \<Rightarrow> nat \<Rightarrow> bool \<times> byte list) \<Rightarrow> qcow_state \<Rightarrow> 64 word \<Rightarrow> bool \<times> qcow_state" where
  "decompress_cluster zinf s cluster_offset =
     (let coffset = cluster_offset AND cluster_offset_mask s in
      if cluster_cache_offset s = coffset then (True, s)
      else
        let csize = unat (drop_bit (63 - cluster_bits s) cluster_offset) mod cluster_size s in
        case fd_pread (q_fd s) csize (unat coffset) of (ret, bs, f) \<Rightarrow>
          if ret \<noteq> int csize then (False, s\<lparr>q_fd := f\<rparr>)
          else case zinf bs (cluster_size s) of (ok, out) \<Rightarrow>
            let s1 = s\<lparr>q_fd := f, cluster_cache := buf_put (cluster_cache s) 0 out\<rparr> in
            if ok then (True, s1\<lparr>cluster_cache_offset := coffset\<rparr>) else (False, s1))"

section \<open>The lookup\<close>

text \<open>A new cluster enters the L2 table.\<close>

definition map_cluster :: "qcow_state \<Rightarrow> nat \<Rightarrow> 64 word \<Rightarrow> nat \<Rightarrow> 64 word \<Rightarrow> (64 word \<times> qcow_state) option" where
  "map_cluster s slot l2_offset l2_index c = do {
     (r, s1) \<leftarrow> set_refcount_of (snd (l2_table_update s slot l2_offset l2_index (c OR cluster_copied s))) c 1;
     Some (c AND NOT (cluster_copied s), s1)
   }"

text \<open>\<open>mok\<close>: the copy buffer could be allocated.\<close>

definition cluster_in_table ::
  "(byte list \<Rightarrow> nat \<Rightarrow> bool \<times> byte list) \<Rightarrow> bool \<Rightarrow> qcow_state \<Rightarrow> nat \<Rightarrow> 64 word \<Rightarrow> nat \<Rightarrow> bool \<Rightarrow> (64 word \<times> qcow_state) option" where
  "cluster_in_table zinf mok s slot l2_offset l2_index allocate = do {
     let cluster_offset = be64_at (l2_cache s ! slot) l2_index;
     if cluster_offset = 0 then
       if \<not> allocate then Some (0, s)
       else do {
         (c, s1) \<leftarrow> qcow_cluster_alloc s;
         if c = 0 then Some (0, s1) else map_cluster s1 slot l2_offset l2_index c
       }
     else if cluster_offset AND cluster_compressed s \<noteq> 0 \<and> allocate then
       (case decompress_cluster zinf s cluster_offset of (ok, s1) \<Rightarrow>
          if \<not> ok then Some (0, s1)
          else do {
            (c, s2) \<leftarrow> qcow_cluster_alloc s1;
            if c = 0 then Some (0, s2)
            else case fd_pwrite (q_fd s2) (cluster_cache s2) (unat c) of (r, f) \<Rightarrow>
              if r \<noteq> int (cluster_size s) then Some (0, s2\<lparr>q_fd := f\<rparr>)
              else map_cluster (s2\<lparr>q_fd := f\<rparr>) slot l2_offset l2_index c
          })
     else if cluster_offset AND cluster_copied s = 0 \<and> allocate then
       let old_offset = cluster_offset AND cluster_mask s in
       if \<not> mok then Some (0, s)
       else do {
         (c, s1) \<leftarrow> qcow_cluster_alloc s;
         if c = 0 then Some (0, s1)
         else case fd_pread (q_fd s1) (cluster_size s) (unat old_offset) of (r, cow_buffer, f) \<Rightarrow>
           if r \<noteq> int (cluster_size s) then Some (0, s1\<lparr>q_fd := f\<rparr>)
           else case fd_pwrite f cow_buffer (unat c) of (r, f) \<Rightarrow>
             if r \<noteq> int (cluster_size s) then Some (0, s1\<lparr>q_fd := f\<rparr>)
             else map_cluster (s1\<lparr>q_fd := f\<rparr>) slot l2_offset l2_index c
       }
     else Some (cluster_offset AND NOT (cluster_copied s), s)
   }"

text \<open>The L2 table of an entry of the L1 table, with a new one where there is none; \<open>0\<close> when there is none and none can be had.\<close>

definition l2_table_of :: "qcow_state \<Rightarrow> nat \<Rightarrow> bool \<Rightarrow> (64 word \<times> qcow_state) option" where
  "l2_table_of s l1_index allocate =
     (let l2_offset = be64_at (q_l1_table s) l1_index AND cluster_mask s in
      if l1_index \<ge> l1_size s then None
      else if l2_offset \<noteq> 0 then Some (l2_offset, s)
      else if \<not> allocate then Some (0, s)
      else do {
        (o1, s1) \<leftarrow> l2_table_alloc s;
        if o1 = 0 then Some (0, s1)
        else do {
          (r, s2) \<leftarrow> set_refcount_of (snd (l1_table_update s1 l1_index (o1 OR cluster_copied s))) o1 1;
          Some (o1, s2)
        }
      })"

definition get_cluster_offset ::
  "(byte list \<Rightarrow> nat \<Rightarrow> bool \<times> byte list) \<Rightarrow> bool \<Rightarrow> qcow_state \<Rightarrow> nat \<Rightarrow> bool \<Rightarrow> (64 word \<times> qcow_state) option" where
  "get_cluster_offset zinf mok s offset allocate = do {
     let l1_index = u32 (offset div 2 ^ (l2_bits s + cluster_bits s));
     let l2_index = offset div 2 ^ cluster_bits s mod l2_size s;
     (l2_offset, s1) \<leftarrow> l2_table_of s l1_index allocate;
     if l2_offset = 0 then Some (0, s1)
     else do {
       (l2_table, s2) \<leftarrow> l2_cache_lookup s1 l2_offset;
       (case l2_table of
          None \<Rightarrow> Some (0, s2)
        | Some slot \<Rightarrow> cluster_in_table zinf mok s2 slot l2_offset l2_index allocate)
     }
   }"

section \<open>Refcount fields\<close>

lemma small_bit: "v < 2 ^ w \<Longrightarrow> bit (v :: nat) k \<Longrightarrow> k < w"
  by (metis bit_take_bit_iff take_bit_nat_eq_self)

lemma field_get:
  fixes x :: byte
  assumes "p + w \<le> 8" "v < 2 ^ w"
  shows "drop_bit p ((x AND NOT (push_bit p (mask w))) OR push_bit p (of_nat v)) AND mask w = of_nat v"
  by (rule bit_eqI) (use assms in \<open>auto simp: bit_simps dest: small_bit [OF assms(2)]\<close>)

lemma field_keep:
  fixes x :: byte
  assumes "p + w \<le> q \<or> q + w \<le> p" "p + w \<le> 8" "q + w \<le> 8" "v < 2 ^ w"
  shows "drop_bit q ((x AND NOT (push_bit p (mask w))) OR push_bit p (of_nat v)) AND mask w = drop_bit q x AND mask w"
  by (rule bit_eqI) (use assms in \<open>auto simp: bit_simps dest: small_bit [OF assms(4)]\<close>)

text \<open>The orders below three, in one form: \<open>w\<close> bits a field, \<open>8 div w\<close> fields a byte.\<close>

definition sub_get :: "nat \<Rightarrow> byte list \<Rightarrow> nat \<Rightarrow> nat" where
  "sub_get w b i = unat (drop_bit (w * (i mod (8 div w))) (b ! (i div (8 div w))) AND mask w)"

definition sub_set :: "nat \<Rightarrow> byte list \<Rightarrow> nat \<Rightarrow> nat \<Rightarrow> byte list" where
  "sub_set w b i v = b[i div (8 div w) := (b ! (i div (8 div w)) AND NOT (push_bit (w * (i mod (8 div w))) (mask w))) OR push_bit (w * (i mod (8 div w))) (of_nat v)]"

lemma sub_field:
  assumes "w = 1 \<or> w = 2 \<or> w = 4" "v < 2 ^ w" "i div (8 div w) < length b" "j div (8 div w) < length b"
  shows "sub_get w (sub_set w b i v) i = v" "i \<noteq> j \<Longrightarrow> sub_get w (sub_set w b i v) j = sub_get w b j"
proof -
  let ?p = "\<lambda>i. w * (i mod (8 div w))"
  have fit: "?p i + w \<le> 8" for i
  proof -
    have "i mod (8 div w) + 1 \<le> 8 div w" using assms(1) by (auto simp: Suc_leI)
    then have "w * (i mod (8 div w) + 1) \<le> w * (8 div w)" by (intro mult_le_mono2)
    then show ?thesis using assms(1) by auto
  qed
  have "unat (of_nat v :: byte) = v" using assms(1,2) by (auto simp: unat_of_nat)
  then show "sub_get w (sub_set w b i v) i = v"
    using field_get [OF fit [of i] assms(2)] assms(3) by (simp add: sub_get_def sub_set_def)
  assume "i \<noteq> j"
  show "sub_get w (sub_set w b i v) j = sub_get w b j"
  proof (cases "i div (8 div w) = j div (8 div w)")
    case True
    then have "i mod (8 div w) \<noteq> j mod (8 div w)" using \<open>i \<noteq> j\<close> by (metis div_mult_mod_eq)
    then have "i mod (8 div w) + 1 \<le> j mod (8 div w) \<or> j mod (8 div w) + 1 \<le> i mod (8 div w)" by linarith
    then have "w * (i mod (8 div w) + 1) \<le> ?p j \<or> w * (j mod (8 div w) + 1) \<le> ?p i"
      using mult_le_mono2 by blast
    then have "?p i + w \<le> ?p j \<or> ?p j + w \<le> ?p i" by (simp add: add.commute)
    then show ?thesis using field_keep [OF _ fit [of i] fit [of j] assms(2)] True assms(4) by (simp add: sub_get_def sub_set_def)
  next
    case False
    then show ?thesis by (simp add: sub_get_def sub_set_def)
  qed
qed

lemma refcount_sub:
  assumes "order < 3" "(i + 1) * 2 ^ order \<le> 8 * length b"
  shows "get_refcount order b i = Some (sub_get (2 ^ order) b i)"
    "v < 2 ^ 2 ^ order \<Longrightarrow> set_refcount order b i v = Some (sub_set (2 ^ order) b i v)" "i div (8 div 2 ^ order) < length b"
proof -
  have o: "order = 0 \<or> order = 1 \<or> order = 2" using assms(1) by linarith
  have masks: "mask 1 = (1 :: byte)" "mask 2 = (3 :: byte)" "mask 4 = (15 :: byte)" by (simp_all add: mask_eq_exp_minus_1)
  show "get_refcount order b i = Some (sub_get (2 ^ order) b i)"
    using o assms(2) masks by (auto simp: get_refcount_def sub_get_def)
  show "set_refcount order b i v = Some (sub_set (2 ^ order) b i v)" if "v < 2 ^ 2 ^ order"
    using o assms(2) that masks by (auto simp: set_refcount_def sub_set_def)
  show "i div (8 div 2 ^ order) < length b" using o assms(2) by auto
qed

lemma be_field_keep:
  assumes "i \<noteq> j" "(i + 1) * k \<le> length b" "(j + 1) * k \<le> length b" "length bs = k"
  shows "buf_get (buf_put b (k * i) bs) (k * j) k = buf_get b (k * j) k"
proof -
  have "i + 1 \<le> j \<or> j + 1 \<le> i" using assms(1) by linarith
  then have "k * (i + 1) \<le> k * j \<or> k * (j + 1) \<le> k * i" using mult_le_mono2 by blast
  then have "k * i + length bs \<le> k * j \<or> k * j + k \<le> k * i" using assms(4) by (simp add: add.commute)
  then show ?thesis using assms by (intro buf_get_put_other) (auto simp: algebra_simps)
qed



end
