(* ===== verification/Qcow_IO.thy ===== *)
theory Qcow_IO
  imports Qcow_Cluster
begin

unbundle bit_operations_syntax

text \<open>
  Reading and writing a QCOW image (\<open>qcow.c\<close> 1183--1517): the request is cut at cluster boundaries, and every piece goes to
  the cluster that the lookup gives, to the backing image, or is filled with zeros. The handler repeats the transfer
  until all is done.
\<close>

section \<open>Scatter lists\<close>

fun seg_take :: "iovec list \<Rightarrow> nat \<Rightarrow> iovec list option" where
  "seg_take iov 0 = Some []"
| "seg_take [] (Suc n) = None"
| "seg_take (v # vs) (Suc n) =
     (let l = min (iov_len v) (Suc n) in map_option (\<lambda>seg. \<lparr>iov_base = iov_base v, iov_len = l\<rparr> # seg) (seg_take vs (Suc n - l)))"

text \<open>\<open>None\<close>: the array is left.\<close>

fun iovec_segment :: "iovec list \<Rightarrow> nat \<Rightarrow> nat \<Rightarrow> iovec list option" where
  "iovec_segment iov 0 len = seg_take iov len"
| "iovec_segment [] (Suc k) len = None"
| "iovec_segment (v # vs) (Suc k) len =
     (if Suc k \<ge> iov_len v then iovec_segment vs (Suc k - iov_len v) len
      else let l = min (iov_len v - Suc k) len in
           map_option (\<lambda>seg. \<lparr>iov_base = iov_base v + Suc k, iov_len = l\<rparr> # seg) (seg_take vs (len - l)))"

fun iovec_memset :: "mem \<Rightarrow> iovec list \<Rightarrow> byte \<Rightarrow> nat \<Rightarrow> mem" where
  "iovec_memset m [] c len = m"
| "iovec_memset m (v # vs) c len =
     (if len = 0 then m
      else let n = min (iov_len v) len in iovec_memset (mem_write m (iov_base v) (replicate n c)) vs c (len - n))"

section \<open>Transfers\<close>

text \<open>
  \<open>bk\<close> reads from the backing image. \<open>sector_index\<close> is taken with a mask, as \<open>cluster_sectors\<close> is a power of two. The result of
  the loop is the bytes transferred, or \<open>-1\<close>.
\<close>

type_synonym 'b reader = "'b \<Rightarrow> mem \<Rightarrow> iovec list \<Rightarrow> nat \<Rightarrow> (int \<times> mem \<times> 'b) option"

definition transfer_result :: "nat \<Rightarrow> int" where
  "transfer_result off = (if off \<noteq> 0 then int off else -1)"

text \<open>One piece: \<open>Inl\<close> the result with which the function returns or the loop ends.\<close>

definition read_piece ::
  "(byte list \<Rightarrow> nat \<Rightarrow> bool \<times> byte list) \<Rightarrow> 'b reader \<Rightarrow> qcow_state \<Rightarrow> 'b option \<Rightarrow> mem \<Rightarrow> iovec list \<Rightarrow> nat \<Rightarrow> nat \<Rightarrow> nat \<Rightarrow> nat \<Rightarrow>
   (int option \<times> mem \<times> qcow_state \<times> 'b option) option" where
  "read_piece zinf bk s b m seg n sector_index sector_num off = do {
     (cluster_offset, s1) \<leftarrow> get_cluster_offset zinf True s (sector_num * 512) False;
     if cluster_offset = 0 then
       (case b of
          None \<Rightarrow> Some (None, iovec_memset m seg 0 (512 * n), s1, b)
        | Some b0 \<Rightarrow> do {
            (read, m1, b1) \<leftarrow> bk b0 m seg (sector_num * 512);
            Some (if read \<noteq> int (n * 512) then Some (transfer_result off) else None, m1, s1, Some b1)
          })
     else if cluster_offset = QCOW2_OFLAG_ZERO then Some (None, iovec_memset m seg 0 (512 * n), s1, b)
     else if cluster_offset AND cluster_compressed s \<noteq> 0 then
       (case decompress_cluster zinf s1 cluster_offset of (ok, s2) \<Rightarrow>
          if \<not> ok then Some (Some (-1), m, s2, b)
          else Some (None, snd (snd (tcmu_memcpy_into_iovec m seg (buf_get (cluster_cache s2) (sector_index * 512) (512 * n)) (512 * n))), s2, b))
     else
       (case fd_preadv (q_fd s1) m seg (unat (cluster_offset + of_nat (sector_index * 512))) of (read, m1, f) \<Rightarrow>
          Some (if read \<noteq> int (n * 512) then Some (transfer_result off) else None, m1, s1\<lparr>q_fd := f\<rparr>, b))
   }"

function qcow_read_loop ::
  "(byte list \<Rightarrow> nat \<Rightarrow> bool \<times> byte list) \<Rightarrow> 'b reader \<Rightarrow> qcow_state \<Rightarrow> 'b option \<Rightarrow> mem \<Rightarrow> iovec list \<Rightarrow> nat \<Rightarrow> nat \<Rightarrow> nat \<Rightarrow>
   (int \<times> mem \<times> qcow_state \<times> 'b option) option" where
  "qcow_read_loop zinf bk s b m iov sector_count sector_num off =
     (if sector_count = 0 then Some (transfer_result off, m, s, b)
      else
        let sector_index = sector_num mod cluster_sectors s; n = min sector_count (cluster_sectors s - sector_index) in
        if n = 0 then None
        else case iovec_segment iov off (n * 512) of
          None \<Rightarrow> None
        | Some seg \<Rightarrow> case read_piece zinf bk s b m seg n sector_index sector_num off of
            None \<Rightarrow> None
          | Some (Some r, m1, s1, b1) \<Rightarrow> Some (r, m1, s1, b1)
          | Some (None, m1, s1, b1) \<Rightarrow> qcow_read_loop zinf bk s1 b1 m1 iov (sector_count - n) (sector_num + n) (off + n * 512))"
  by pat_completeness auto

termination by (relation "measure (\<lambda>(_, _, _, _, _, _, sector_count, _, _). sector_count)") auto

definition qcow_preadv ::
  "(byte list \<Rightarrow> nat \<Rightarrow> bool \<times> byte list) \<Rightarrow> 'b reader \<Rightarrow> qcow_state \<Rightarrow> 'b option \<Rightarrow> mem \<Rightarrow> iovec list \<Rightarrow> nat \<Rightarrow>
   (int \<times> mem \<times> qcow_state \<times> 'b option) option" where
  "qcow_preadv zinf bk s b m iov offset =
     (let count = tcmu_iovec_length iov in
      if count mod 512 \<noteq> 0 then None else qcow_read_loop zinf bk s b m iov (count div 512) (offset div 512) 0)"

definition write_piece ::
  "(byte list \<Rightarrow> nat \<Rightarrow> bool \<times> byte list) \<Rightarrow> (nat \<Rightarrow> bool) \<Rightarrow> qcow_state \<Rightarrow> mem \<Rightarrow> iovec list \<Rightarrow> nat \<Rightarrow> nat \<Rightarrow> nat \<Rightarrow> (int option \<times> qcow_state) option" where
  "write_piece zinf mok s m seg sector_index sector_num off = do {
     (cluster_offset, s1) \<leftarrow> get_cluster_offset zinf (mok sector_num) s (sector_num * 512) True;
     if cluster_offset = 0 then Some (Some (-1), s1)
     else if cluster_offset AND QCOW_OFLAG_COMPRESSED \<noteq> 0 then Some (Some (-1), s1)
     else
       (case fd_pwritev (q_fd s1) m seg (unat (cluster_offset + of_nat (sector_index * 512))) of (written, f) \<Rightarrow>
          Some (if written < 0 then Some (transfer_result off) else None, s1\<lparr>q_fd := f\<rparr>))
   }"

function qcow_write_loop ::
  "(byte list \<Rightarrow> nat \<Rightarrow> bool \<times> byte list) \<Rightarrow> (nat \<Rightarrow> bool) \<Rightarrow> qcow_state \<Rightarrow> mem \<Rightarrow> iovec list \<Rightarrow> nat \<Rightarrow> nat \<Rightarrow> nat \<Rightarrow> (int \<times> qcow_state) option" where
  "qcow_write_loop zinf mok s m iov sector_count sector_num off =
     (if sector_count = 0 then Some (transfer_result off, s)
      else
        let sector_index = sector_num mod cluster_sectors s; n = min sector_count (cluster_sectors s - sector_index) in
        if n = 0 then None
        else case iovec_segment iov off (n * 512) of
          None \<Rightarrow> None
        | Some seg \<Rightarrow> case write_piece zinf mok s m seg sector_index sector_num off of
            None \<Rightarrow> None
          | Some (Some r, s1) \<Rightarrow> Some (r, s1)
          | Some (None, s1) \<Rightarrow> qcow_write_loop zinf mok s1 m iov (sector_count - n) (sector_num + n) (off + n * 512))"
  by pat_completeness auto

termination by (relation "measure (\<lambda>(_, _, _, _, _, sector_count, _, _). sector_count)") auto

declare qcow_read_loop.simps [simp del] qcow_write_loop.simps [simp del]

definition qcow_pwritev ::
  "(byte list \<Rightarrow> nat \<Rightarrow> bool \<times> byte list) \<Rightarrow> (nat \<Rightarrow> bool) \<Rightarrow> qcow_state \<Rightarrow> mem \<Rightarrow> iovec list \<Rightarrow> nat \<Rightarrow> (int \<times> qcow_state) option" where
  "qcow_pwritev zinf mok s m iov offset =
     (let count = tcmu_iovec_length iov; sector_num = offset div 512 in
      if count mod 512 \<noteq> 0 then None
      else if sector_num \<ge> q_size s div 512 then Some (0, s)
      else qcow_write_loop zinf mok s m iov (min (count div 512) (q_size s div 512 - sector_num)) sector_num 0)"

section \<open>Images and the handler\<close>

fun image_depth :: "image \<Rightarrow> nat" where
  "image_depth (Raw f) = 1"
| "image_depth (Qcow s None) = 1"
| "image_depth (Qcow s (Some b)) = Suc (image_depth b)"

definition raw_preadv :: "file_state \<Rightarrow> mem \<Rightarrow> iovec list \<Rightarrow> nat \<Rightarrow> int \<times> mem \<times> file_state" where
  "raw_preadv f m iov offset = fd_preadv f m iov offset"

definition raw_pwritev :: "file_state \<Rightarrow> mem \<Rightarrow> iovec list \<Rightarrow> nat \<Rightarrow> int \<times> file_state" where
  "raw_pwritev f m iov offset = fd_pwritev f m iov offset"

text \<open>The \<open>preadv\<close> of an image, by the length of its chain.\<close>

primrec image_preadv :: "nat \<Rightarrow> (byte list \<Rightarrow> nat \<Rightarrow> bool \<times> byte list) \<Rightarrow> image reader" where
  "image_preadv 0 zinf im m iov offset = None"
| "image_preadv (Suc d) zinf im m iov offset =
     (case im of
        Raw f \<Rightarrow> (case raw_preadv f m iov offset of (r, m', f') \<Rightarrow> Some (r, m', Raw f'))
      | Qcow s b \<Rightarrow> do {
          (r, m', s', b') \<leftarrow> qcow_preadv zinf (image_preadv d zinf) s b m iov offset;
          Some (r, m', Qcow s' b')
        })"

definition bdev_preadv :: "(byte list \<Rightarrow> nat \<Rightarrow> bool \<times> byte list) \<Rightarrow> image reader" where
  "bdev_preadv zinf im = image_preadv (image_depth im) zinf im"

definition bdev_pwritev ::
  "(byte list \<Rightarrow> nat \<Rightarrow> bool \<times> byte list) \<Rightarrow> (nat \<Rightarrow> bool) \<Rightarrow> image \<Rightarrow> mem \<Rightarrow> iovec list \<Rightarrow> nat \<Rightarrow> (int \<times> image) option" where
  "bdev_pwritev zinf mok im m iov offset =
     (case im of
        Raw f \<Rightarrow> (case raw_pwritev f m iov offset of (r, f') \<Rightarrow> Some (r, Raw f'))
      | Qcow s b \<Rightarrow> map_option (\<lambda>(r, s'). (r, Qcow s' b)) (qcow_pwritev zinf mok s m iov offset))"

text \<open>The loops of the handler. \<open>None\<close>: a transfer of zero bytes, after which the loop never ends, or the seek leaves the array.\<close>

function qcow_read ::
  "(byte list \<Rightarrow> nat \<Rightarrow> bool \<times> byte list) \<Rightarrow> image \<Rightarrow> mem \<Rightarrow> iovec list \<Rightarrow> nat \<Rightarrow> nat \<Rightarrow> (tcmu_sts \<times> mem \<times> iovec list \<times> image) option" where
  "qcow_read zinf im m iov remaining offset =
     (if remaining = 0 then Some (TCMU_STS_OK, m, iov, im)
      else case bdev_preadv zinf im m iov offset of
        None \<Rightarrow> None
      | Some (ret, m1, im1) \<Rightarrow>
          if ret < 0 then Some (TCMU_STS_RD_ERR, m1, iov, im1)
          else case tcmu_seek_in_iovec iov (nat ret) of
            None \<Rightarrow> None
          | Some (c, iov') \<Rightarrow>
              if nat ret > remaining \<or> ret = 0 then None
              else qcow_read zinf im1 m1 iov' (remaining - nat ret) (offset + nat ret))"
  by pat_completeness auto

termination by (relation "measure (\<lambda>(_, _, _, _, remaining, _). remaining)") auto

function qcow_write ::
  "(byte list \<Rightarrow> nat \<Rightarrow> bool \<times> byte list) \<Rightarrow> (nat \<Rightarrow> bool) \<Rightarrow> image \<Rightarrow> mem \<Rightarrow> iovec list \<Rightarrow> nat \<Rightarrow> nat \<Rightarrow> (tcmu_sts \<times> iovec list \<times> image) option" where
  "qcow_write zinf mok im m iov remaining offset =
     (if remaining = 0 then Some (TCMU_STS_OK, iov, im)
      else case bdev_pwritev zinf mok im m iov offset of
        None \<Rightarrow> None
      | Some (ret, im1) \<Rightarrow>
          if ret < 0 then Some (TCMU_STS_WR_ERR, iov, im1)
          else case tcmu_seek_in_iovec iov (nat ret) of
            None \<Rightarrow> None
          | Some (c, iov') \<Rightarrow>
              if nat ret > remaining \<or> ret = 0 then None
              else qcow_write zinf mok im1 m iov' (remaining - nat ret) (offset + nat ret))"
  by pat_completeness auto

termination by (relation "measure (\<lambda>(_, _, _, _, _, remaining, _). remaining)") auto

declare qcow_read.simps [simp del] qcow_write.simps [simp del]

definition qcow_flush :: "image \<Rightarrow> tcmu_sts \<times> image" where
  "qcow_flush im =
     (case im of
        Raw f \<Rightarrow> (if fd_io f (fd_k f) \<noteq> 0 then TCMU_STS_WR_ERR else TCMU_STS_OK, Raw (next_call f))
      | Qcow s b \<Rightarrow> (if fd_io (q_fd s) (fd_k (q_fd s)) \<noteq> 0 then TCMU_STS_WR_ERR else TCMU_STS_OK, Qcow (s\<lparr>q_fd := next_call (q_fd s)\<rparr>) b))"

definition qcow_handler :: "bool \<Rightarrow> (byte list \<Rightarrow> nat \<Rightarrow> z_ret \<times> byte list) \<Rightarrow> (nat \<Rightarrow> bool) \<Rightarrow> image handler" where
  "qcow_handler init inflate mok =
     (let zinf = decompress_buffer init inflate in
      \<lparr>h_read = qcow_read zinf, h_write = qcow_write zinf mok, h_flush = Some qcow_flush, h_unmap = None\<rparr>)"

section \<open>Segments\<close>

lemma take_range: "take n [a ..< a + k] = [a ..< a + min k n]"
  by (cases "n \<le> k") (simp_all add: take_upt min_def)

lemma seg_take_spec:
  "len \<le> iov_total iov \<Longrightarrow> \<exists>seg. seg_take iov len = Some seg \<and> iov_addrs seg = take len (iov_addrs iov) \<and> iov_total seg = len \<and> length seg \<le> length iov"
proof (induction iov len rule: seg_take.induct)
  case (3 v vs n)
  have rest: "Suc n - min (iov_len v) (Suc n) = Suc n - iov_len v" by simp
  obtain seg where "seg_take vs (Suc n - iov_len v) = Some seg" "iov_addrs seg = take (Suc n - iov_len v) (iov_addrs vs)"
      "iov_total seg = Suc n - iov_len v" "length seg \<le> length vs"
  proof -
    have "Suc n - iov_len v \<le> iov_total vs" using 3(2) by simp
    then show thesis using 3(1) [OF refl] that unfolding rest by blast
  qed
  then show ?case by (auto simp: rest take_range)
qed auto

lemma segment_spec:
  "off + len \<le> iov_total iov \<Longrightarrow> \<exists>seg. iovec_segment iov off len = Some seg \<and> iov_addrs seg = take len (drop off (iov_addrs iov))
     \<and> iov_total seg = len \<and> length seg \<le> length iov"
proof (induction iov off len rule: iovec_segment.induct)
  case (1 iov len)
  then show ?case using seg_take_spec [of len iov] by simp
next
  case (3 v vs k len)
  show ?case
  proof (cases "Suc k \<ge> iov_len v")
    case True
    then show ?thesis using 3 by fastforce
  next
    case False
    let ?a = "iov_base v + Suc k" and ?r = "iov_len v - Suc k"
    have rest: "len - min ?r len = len - ?r" by simp
    have addrs: "drop (Suc k) (iov_addrs (v # vs)) = [?a ..< ?a + ?r] @ iov_addrs vs" using False by (simp del: upt_Suc)
    have "len - ?r \<le> iov_total vs" using 3(2) False by auto
    from seg_take_spec [OF this] obtain seg where
      "seg_take vs (len - ?r) = Some seg" "iov_addrs seg = take (len - ?r) (iov_addrs vs)" "iov_total seg = len - ?r" "length seg \<le> length vs" by blast
    moreover have "take len [?a ..< ?a + ?r] = [?a ..< ?a + min ?r len]" by (rule take_range)
    ultimately show ?thesis using False unfolding addrs
      by (simp add: rest Let_def del: upt_Suc drop_append)
  qed
qed auto

lemma distinct_segment:
  "distinct (iov_addrs iov) \<Longrightarrow> iov_addrs seg = take len (drop off (iov_addrs iov)) \<Longrightarrow> distinct (iov_addrs seg)"
  by simp

lemma gather_segment:
  "iov_addrs seg = take len (drop off (iov_addrs iov)) \<Longrightarrow> gather m seg = take len (drop off (gather m iov))"
  by (simp add: gather_addrs take_map drop_map)

end
