(* ===== verification/Qcow_View.thy ===== *)
theory Qcow_View
  imports Qcow_IO
begin

unbundle bit_operations_syntax

text \<open>
  The disk that a QCOW image stands for, and what keeps it: the abstraction \<open>qcow_view\<close> from the tables and the data in the
  file to a byte-addressed disk, the invariant \<open>img_ok\<close> of images of version 1 (tables and data within the file and apart
  from each other, caches that agree with the file), and what the changes that the handler makes to file, tables and caches
  do to both. The last argument but one of the invariant is a fence: everything the image uses lies below it.
\<close>

section \<open>The disk an image stands for\<close>

abbreviation fv :: "qcow_state \<Rightarrow> mem" where "fv s \<equiv> file_view (q_fd s)"

definition l2_off :: "qcow_state \<Rightarrow> nat \<Rightarrow> 64 word" where
  "l2_off s i = be64_at (q_l1_table s) i AND cluster_mask s"

abbreviation l2_bytes :: "qcow_state \<Rightarrow> nat" where "l2_bytes s \<equiv> 8 * l2_size s"
abbreviation clusters :: "qcow_state \<Rightarrow> nat" where "clusters s \<equiv> l1_size s * l2_size s"

text \<open>The L2 entry of the cluster number \<open>c\<close>, from the file.\<close>

definition entry_of :: "qcow_state \<Rightarrow> nat \<Rightarrow> 64 word" where
  "entry_of s c =
     (let o1 = l2_off s (c div l2_size s) in
      if c < clusters s \<and> o1 \<noteq> 0 then be64_at (mem_read (fv s) (unat o1) (l2_bytes s)) (c mod l2_size s) else 0)"

definition is_comp :: "64 word \<Rightarrow> bool" where "is_comp e \<longleftrightarrow> e AND QCOW_OFLAG_COMPRESSED \<noteq> 0"

text \<open>Where the data of an entry lies in the file.\<close>

definition ext_start :: "qcow_state \<Rightarrow> 64 word \<Rightarrow> nat" where
  "ext_start s e = (if is_comp e then unat (e AND cluster_offset_mask s) else unat e)"

definition ext_len :: "qcow_state \<Rightarrow> 64 word \<Rightarrow> nat" where
  "ext_len s e = (if is_comp e then unat (drop_bit (63 - cluster_bits s) e) mod cluster_size s else cluster_size s)"

abbreviation ext_bytes :: "qcow_state \<Rightarrow> 64 word \<Rightarrow> byte list" where
  "ext_bytes s e \<equiv> mem_read (fv s) (ext_start s e) (ext_len s e)"

definition content :: "(byte list \<Rightarrow> nat \<Rightarrow> bool \<times> byte list) \<Rightarrow> qcow_state \<Rightarrow> 64 word \<Rightarrow> byte list" where
  "content zinf s e = (if is_comp e then snd (zinf (ext_bytes s e) (cluster_size s)) else ext_bytes s e)"

text \<open>The disk: \<open>bk\<close> is the disk of the backing image, zeros without one.\<close>

definition qcow_view :: "(byte list \<Rightarrow> nat \<Rightarrow> bool \<times> byte list) \<Rightarrow> qcow_state \<Rightarrow> mem \<Rightarrow> mem" where
  "qcow_view zinf s bk x =
     (let e = entry_of s (x div cluster_size s) in if e = 0 then bk x else content zinf s e ! (x mod cluster_size s))"

section \<open>Well-formed images of version 1\<close>

definition apart :: "nat \<Rightarrow> nat \<Rightarrow> nat \<Rightarrow> nat \<Rightarrow> bool" where
  "apart a n b k \<longleftrightarrow> a + n \<le> b \<or> b + k \<le> a"

definition geom_ok :: "qcow_state \<Rightarrow> bool" where
  "geom_ok s \<longleftrightarrow> q_alloc s = Grow \<and> cluster_copied s = 0 \<and> cluster_compressed s = QCOW_OFLAG_COMPRESSED
     \<and> cluster_mask s = NOT QCOW_OFLAG_COMPRESSED \<and> cluster_bits s \<in> {9..16} \<and> l2_bits s \<in> {6..13}
     \<and> cluster_size s = 2 ^ cluster_bits s \<and> cluster_sectors s = 2 ^ (cluster_bits s - 9) \<and> l2_size s = 2 ^ l2_bits s
     \<and> cluster_offset_mask s = push_bit (63 - cluster_bits s) 1 - 1 \<and> length (q_l1_table s) = 8 * l1_size s \<and> l1_size s < 2 ^ 28
     \<and> q_size s \<le> clusters s * cluster_size s"

text \<open>The L1 table and the L2 tables lie below \<open>L\<close>, apart from each other, and the L1 table in memory is that of the file.\<close>

definition tables_ok :: "nat \<Rightarrow> qcow_state \<Rightarrow> bool" where
  "tables_ok L s \<longleftrightarrow> l1_table_offset s + 8 * l1_size s \<le> L \<and> q_l1_table s = mem_read (fv s) (l1_table_offset s) (8 * l1_size s)
     \<and> (\<forall>i < l1_size s. l2_off s i \<noteq> 0 \<longrightarrow>
          unat (l2_off s i) + l2_bytes s \<le> L \<and> apart (l1_table_offset s) (8 * l1_size s) (unat (l2_off s i)) (l2_bytes s)
          \<and> (\<forall>j < l1_size s. l2_off s j \<noteq> 0 \<longrightarrow> i \<noteq> j \<longrightarrow> apart (unat (l2_off s i)) (l2_bytes s) (unat (l2_off s j)) (l2_bytes s)))"

text \<open>The data of an entry lie below \<open>L\<close> and apart from the tables; compressed data can be decompressed.\<close>

definition entry_ok :: "(byte list \<Rightarrow> nat \<Rightarrow> bool \<times> byte list) \<Rightarrow> nat \<Rightarrow> qcow_state \<Rightarrow> 64 word \<Rightarrow> bool" where
  "entry_ok zinf L s e \<longleftrightarrow> ext_start s e + ext_len s e \<le> L \<and> apart (l1_table_offset s) (8 * l1_size s) (ext_start s e) (ext_len s e)
     \<and> (\<forall>i < l1_size s. l2_off s i \<noteq> 0 \<longrightarrow> apart (unat (l2_off s i)) (l2_bytes s) (ext_start s e) (ext_len s e))
     \<and> (is_comp e \<longrightarrow> fst (zinf (ext_bytes s e) (cluster_size s)) \<and> length (content zinf s e) = cluster_size s)
     \<and> (\<not> is_comp e \<longrightarrow> 512 \<le> unat e)"

definition entries_ok :: "(byte list \<Rightarrow> nat \<Rightarrow> bool \<times> byte list) \<Rightarrow> nat \<Rightarrow> qcow_state \<Rightarrow> bool" where
  "entries_ok zinf L s \<longleftrightarrow> (\<forall>c. entry_of s c \<noteq> 0 \<longrightarrow> entry_ok zinf L s (entry_of s c))"

text \<open>Compressed clusters at the same place are the same.\<close>

definition comp_unique :: "qcow_state \<Rightarrow> bool" where
  "comp_unique s \<longleftrightarrow> (\<forall>c d. is_comp (entry_of s c) \<longrightarrow> is_comp (entry_of s d) \<longrightarrow> ext_start s (entry_of s c) = ext_start s (entry_of s d)
     \<longrightarrow> ext_len s (entry_of s c) = ext_len s (entry_of s d))"

text \<open>The caches agree with the file.\<close>

definition slot_ok :: "qcow_state \<Rightarrow> nat \<Rightarrow> bool" where
  "slot_ok s k \<longleftrightarrow> (\<exists>i < l1_size s. l2_cache_offsets s ! k = l2_off s i) \<and> l2_cache s ! k = mem_read (fv s) (unat (l2_cache_offsets s ! k)) (l2_bytes s)
     \<and> (\<forall>k' < L2_CACHE_SIZE. k' \<noteq> k \<longrightarrow> l2_cache_offsets s ! k' \<noteq> l2_cache_offsets s ! k)"

definition cache_ok :: "qcow_state \<Rightarrow> bool" where
  "cache_ok s \<longleftrightarrow> length (l2_cache s) = L2_CACHE_SIZE \<and> length (l2_cache_offsets s) = L2_CACHE_SIZE \<and> length (l2_cache_counts s) = L2_CACHE_SIZE
     \<and> (\<forall>k < L2_CACHE_SIZE. length (l2_cache s ! k) = l2_bytes s) \<and> (\<forall>k < L2_CACHE_SIZE. l2_cache_offsets s ! k \<noteq> 0 \<longrightarrow> slot_ok s k)"

definition zcache_ok :: "(byte list \<Rightarrow> nat \<Rightarrow> bool \<times> byte list) \<Rightarrow> qcow_state \<Rightarrow> bool" where
  "zcache_ok zinf s \<longleftrightarrow> length (cluster_cache s) = cluster_size s
     \<and> (\<forall>c. is_comp (entry_of s c) \<longrightarrow> entry_of s c AND cluster_offset_mask s = cluster_cache_offset s
          \<longrightarrow> cluster_cache s = content zinf s (entry_of s c))"

definition img_ok :: "(byte list \<Rightarrow> nat \<Rightarrow> bool \<times> byte list) \<Rightarrow> nat \<Rightarrow> qcow_state \<Rightarrow> bool" where
  "img_ok zinf L s \<longleftrightarrow> geom_ok s \<and> tables_ok L s \<and> entries_ok zinf L s \<and> comp_unique s \<and> cache_ok s \<and> zcache_ok zinf s
     \<and> io_whole (q_fd s) \<and> L \<le> fd_len (q_fd s)"

lemma comp_nonzero: "is_comp e \<Longrightarrow> e \<noteq> 0"
  by (auto simp: is_comp_def)

lemma geom_ok_upd [simp]:
  "geom_ok (s\<lparr>q_fd := f\<rparr>) = geom_ok s" "geom_ok (s\<lparr>l2_cache := c\<rparr>) = geom_ok s" "geom_ok (s\<lparr>l2_cache_offsets := os\<rparr>) = geom_ok s"
  "geom_ok (s\<lparr>l2_cache_counts := ks\<rparr>) = geom_ok s" "geom_ok (s\<lparr>cluster_cache := bs\<rparr>) = geom_ok s"
  "geom_ok (s\<lparr>cluster_cache_offset := w\<rparr>) = geom_ok s" "length t = length (q_l1_table s) \<Longrightarrow> geom_ok (s\<lparr>q_l1_table := t\<rparr>) = geom_ok s"
  unfolding geom_ok_def by simp_all

lemma geom_bounds:
  assumes "geom_ok s"
  shows "l2_size s \<le> 2 ^ 13" "0 < l2_size s" "cluster_size s \<le> 2 ^ 16" "512 \<le> cluster_size s" "cluster_size s = 512 * cluster_sectors s"
proof -
  have g: "l2_size s = 2 ^ l2_bits s" "l2_bits s \<le> 13" "cluster_size s = 2 ^ cluster_bits s" "cluster_bits s \<le> 16" "9 \<le> cluster_bits s"
    "cluster_sectors s = 2 ^ (cluster_bits s - 9)" using assms unfolding geom_ok_def by simp_all
  show "l2_size s \<le> 2 ^ 13" "cluster_size s \<le> 2 ^ 16" unfolding g(1,3) using g(2,4) by (intro power_increasing; simp)+
  show "0 < l2_size s" by (simp add: g(1))
  have "cluster_size s = 2 ^ 9 * 2 ^ (cluster_bits s - 9)" unfolding g(3) power_add [symmetric] using g(5) by simp
  then show "cluster_size s = 512 * cluster_sectors s" by (simp add: g(6))
  then show "512 \<le> cluster_size s" by (simp add: g(6))
qed

lemma tables_okD:
  assumes "tables_ok L s" "i < l1_size s" "l2_off s i \<noteq> 0"
  shows "unat (l2_off s i) + l2_bytes s \<le> L" "apart (l1_table_offset s) (8 * l1_size s) (unat (l2_off s i)) (l2_bytes s)"
    "j < l1_size s \<Longrightarrow> l2_off s j \<noteq> 0 \<Longrightarrow> i \<noteq> j \<Longrightarrow> apart (unat (l2_off s i)) (l2_bytes s) (unat (l2_off s j)) (l2_bytes s)"
  using assms unfolding tables_ok_def by blast+

lemma slot_okD:
  assumes "tables_ok L s" "slot_ok s k" "l2_cache_offsets s ! k \<noteq> 0"
  shows "unat (l2_cache_offsets s ! k) + l2_bytes s \<le> L"
  using assms tables_okD(1) [OF assms(1)] unfolding slot_ok_def by metis

section \<open>Changes outside the image\<close>

lemma mem_read_below: "a + n \<le> L \<Longrightarrow> \<forall>x < L. F' x = F x \<Longrightarrow> mem_read F' a n = mem_read F a n"
  by (rule nth_equalityI) simp_all

lemma entry_below:
  assumes "tables_ok L s" "\<forall>x < L. file_view f x = fv s x"
  shows "entry_of (s\<lparr>q_fd := f\<rparr>) c = entry_of s c"
proof -
  have l2: "l2_off (s\<lparr>q_fd := f\<rparr>) i = l2_off s i" for i by (simp add: l2_off_def)
  have "mem_read (file_view f) (unat (l2_off s (c div l2_size s))) (l2_bytes s) = mem_read (fv s) (unat (l2_off s (c div l2_size s))) (l2_bytes s)"
    if "c < clusters s" "l2_off s (c div l2_size s) \<noteq> 0"
  proof -
    have "c div l2_size s < l1_size s" using that(1) by (simp add: less_mult_imp_div_less)
    then have "unat (l2_off s (c div l2_size s)) + l2_bytes s \<le> L" using assms(1) that(2) by (auto simp: tables_ok_def)
    then show ?thesis using assms(2) by (rule mem_read_below)
  qed
  then show ?thesis by (auto simp: entry_of_def l2 Let_def)
qed

lemma img_ok_file:
  assumes ok: "img_ok zinf L s" and f: "io_whole f" "L \<le> fd_len f" "\<forall>x < L. file_view f x = fv s x"
  shows "img_ok zinf L (s\<lparr>q_fd := f\<rparr>)" "qcow_view zinf (s\<lparr>q_fd := f\<rparr>) bk = qcow_view zinf s bk"
proof -
  let ?s = "s\<lparr>q_fd := f\<rparr>"
  have parts: "geom_ok s" "tables_ok L s" "entries_ok zinf L s" "cache_ok s" "zcache_ok zinf s" "comp_unique s" using ok by (auto simp: img_ok_def)
  have frame [simp]: "l2_off ?s i = l2_off s i" "ext_start ?s e = ext_start s e" "ext_len ?s e = ext_len s e" for i e
    by (simp_all add: l2_off_def ext_start_def ext_len_def)
  have ent: "entry_of ?s c = entry_of s c" for c by (rule entry_below [OF parts(2) f(3)])
  have ext: "ext_bytes ?s e = ext_bytes s e" if "entry_ok zinf L s e" for e
    using that mem_read_below [OF _ f(3)] by (simp add: entry_ok_def)
  have cont: "content zinf ?s e = content zinf s e" if "entry_ok zinf L s e" for e
    using ext [OF that] by (simp add: content_def)
  have eok: "entry_ok zinf L ?s (entry_of s c)" "content zinf ?s (entry_of s c) = content zinf s (entry_of s c)" if "entry_of s c \<noteq> 0" for c
  proof -
    have e: "entry_ok zinf L s (entry_of s c)" using parts(3) that by (auto simp: entries_ok_def)
    then show "entry_ok zinf L ?s (entry_of s c)" "content zinf ?s (entry_of s c) = content zinf s (entry_of s c)"
      using ext [OF e] cont [OF e] by (auto simp: entry_ok_def)
  qed
  have "tables_ok L ?s" using parts(2) mem_read_below [OF _ f(3)] by (auto simp: tables_ok_def)
  moreover have "entries_ok zinf L ?s" using eok unfolding entries_ok_def ent by blast
  moreover have "comp_unique ?s" using parts(6) unfolding comp_unique_def ent frame .
  moreover have "cache_ok ?s"
  proof -
    have "slot_ok ?s k" if "slot_ok s k" "l2_cache_offsets s ! k \<noteq> 0" for k
      using that(1) mem_read_below [OF slot_okD [OF parts(2) that] f(3)] unfolding slot_ok_def frame by simp
    then show ?thesis using parts(4) by (simp add: cache_ok_def)
  qed
  moreover have "zcache_ok zinf ?s" using parts(5) by (simp add: zcache_ok_def ent eok comp_nonzero)
  ultimately show "img_ok zinf L ?s" using parts(1) f(1,2) by (simp add: img_ok_def)
  show "qcow_view zinf ?s bk = qcow_view zinf s bk"
    using eok by (auto simp: qcow_view_def ent Let_def fun_eq_iff)
qed
section \<open>The cache of L2 tables\<close>

lemma first_index_Some: "first_index xs v i = Some k \<Longrightarrow> i \<le> k \<and> k - i < length xs \<and> xs ! (k - i) = v"
proof (induction xs arbitrary: i)
  case (Cons x xs)
  show ?case
  proof (cases "v = x")
    case False
    then have k: "Suc i \<le> k" "k - Suc i < length xs" "xs ! (k - Suc i) = v" using Cons.IH [of "Suc i"] Cons.prems by auto
    then have "k - i = Suc (k - Suc i)" by linarith
    then show ?thesis using k by simp
  qed (use Cons.prems in auto)
qed simp

lemma first_index_None: "first_index xs v i = None \<Longrightarrow> v \<notin> set xs"
  by (induction xs arbitrary: i) (auto split: if_splits)

lemma victim_bound: "victim cs i mc mi = mi \<or> victim cs i mc mi < i + length cs"
proof (induction cs arbitrary: i mc mi)
  case (Cons c cs)
  then show ?case using Cons.IH [of "Suc i" c i] Cons.IH [of "Suc i" mc mi] by auto
qed simp

text \<open>What an image stands for does not depend on the cache.\<close>

definition recache :: "qcow_state \<Rightarrow> file_state \<Rightarrow> byte list list \<Rightarrow> 64 word list \<Rightarrow> nat list \<Rightarrow> qcow_state" where
  "recache s f cs os ks = s\<lparr>q_fd := f, l2_cache := cs, l2_cache_offsets := os, l2_cache_counts := ks\<rparr>"

lemma recache_fields [simp]:
  "q_fd (recache s f cs os ks) = f" "l2_cache (recache s f cs os ks) = cs" "l2_cache_offsets (recache s f cs os ks) = os"
  "l2_cache_counts (recache s f cs os ks) = ks" "l1_size (recache s f cs os ks) = l1_size s" "l2_size (recache s f cs os ks) = l2_size s"
  "l2_off (recache s f cs os ks) i = l2_off s i" "geom_ok (recache s f cs os ks) = geom_ok s"
  "cluster_size (recache s f cs os ks) = cluster_size s"
  by (simp_all add: recache_def l2_off_def)

lemma recache_ok:
  assumes ok: "img_ok zinf L s" and f: "io_whole f" "fd_len (q_fd s) \<le> fd_len f" "file_view f = fv s" and cache: "cache_ok (recache s f cs os ks)"
  shows "img_ok zinf L (recache s f cs os ks)" "entry_of (recache s f cs os ks) c = entry_of s c"
    "qcow_view zinf (recache s f cs os ks) bk = qcow_view zinf s bk"
proof -
  let ?s = "recache s f cs os ks" and ?t = "s\<lparr>q_fd := f\<rparr>"
  have len: "L \<le> fd_len f" using ok f(2) by (simp add: img_ok_def)
  have t: "img_ok zinf L ?t" "qcow_view zinf ?t bk = qcow_view zinf s bk" using img_ok_file [OF ok f(1) len] f(3) by auto
  have l2: "l2_off ?s i = l2_off ?t i" for i by (simp add: l2_off_def recache_def)
  have ent: "entry_of ?s c = entry_of ?t c" for c by (simp add: entry_of_def l2_off_def recache_def Let_def)
  have ext: "ext_start ?s e = ext_start ?t e" "ext_len ?s e = ext_len ?t e" for e by (simp_all add: ext_start_def ext_len_def recache_def)
  have cont: "content zinf ?s e = content zinf ?t e" for e by (simp add: content_def ext)
  have eok: "entry_ok zinf L ?s e = entry_ok zinf L ?t e" for e unfolding entry_ok_def ext l2 cont by (simp add: recache_def)
  have "tables_ok L ?s = tables_ok L ?t" unfolding tables_ok_def l2 by (simp add: recache_def)
  moreover have "entries_ok zinf L ?s = entries_ok zinf L ?t" unfolding entries_ok_def ent eok ..
  moreover have "comp_unique ?s = comp_unique ?t" unfolding comp_unique_def ent ext ..
  moreover have "zcache_ok zinf ?s = zcache_ok zinf ?t" unfolding zcache_ok_def ent cont by (simp add: recache_def)
  ultimately show "img_ok zinf L ?s" using t(1) cache by (simp add: img_ok_def f(1))
  show "entry_of ?s c = entry_of s c" unfolding ent using entry_below [of L s f] ok f(3) by (simp add: img_ok_def)
  show "qcow_view zinf ?s bk = qcow_view zinf s bk" unfolding t(2) [symmetric] unfolding qcow_view_def ent cont fun_eq_iff by (simp add: Let_def)
qed

definition hits_left :: "nat \<Rightarrow> qcow_state \<Rightarrow> bool" where
  "hits_left n s \<longleftrightarrow> (\<forall>k < L2_CACHE_SIZE. l2_cache_counts s ! k + n < INT_MAX)"

lemma l2_lookup_ok:
  assumes ok: "img_ok zinf L s" and i: "i < l1_size s" "l2_off s i \<noteq> 0" and L: "L < 2 ^ 63" and hits: "hits_left (Suc n) s"
  obtains k f cs os ks where "l2_cache_lookup s (l2_off s i) = Some (Some k, recache s f cs os ks)" "k < L2_CACHE_SIZE" "os ! k = l2_off s i"
    "cs ! k = mem_read (fv s) (unat (l2_off s i)) (l2_bytes s)" "file_view f = fv s" "io_whole f" "fd_len f = fd_len (q_fd s)"
    "cache_ok (recache s f cs os ks)" "hits_left n (recache s f cs os ks)"
proof (cases "first_index (l2_cache_offsets s) (l2_off s i) 0")
  case (Some k)
  have cache: "cache_ok s" and io: "io_whole (q_fd s)" using ok by (auto simp: img_ok_def)
  have k: "k < L2_CACHE_SIZE" "l2_cache_offsets s ! k = l2_off s i" using first_index_Some [OF Some] cache by (auto simp: cache_ok_def)
  have slot: "l2_cache s ! k = mem_read (fv s) (unat (l2_off s i)) (l2_bytes s)"
    using cache k i(2) by (auto simp: cache_ok_def slot_ok_def)
  let ?ks = "(l2_cache_counts s)[k := l2_cache_counts s ! k + 1]"
  let ?r = "recache s (q_fd s) (l2_cache s) (l2_cache_offsets s) ?ks"
  have r: "s\<lparr>l2_cache_counts := (l2_cache_counts s)[k := Suc (l2_cache_counts s ! k)]\<rparr> = recache s (q_fd s) (l2_cache s) (l2_cache_offsets s) ((l2_cache_counts s)[k := Suc (l2_cache_counts s ! k)])" by (simp add: recache_def)
  have "l2_cache_counts s ! k + Suc n < INT_MAX" using hits k(1) by (simp add: hits_left_def)
  then have small: "l2_cache_counts s ! k + 1 \<noteq> INT_MAX" by linarith
  have "slot_ok ?r k' = slot_ok s k'" for k' by (simp add: slot_ok_def)
  then have "cache_ok ?r" using cache by (simp add: cache_ok_def)
  moreover have "hits_left n ?r"
    unfolding hits_left_def
  proof (intro allI impI)
    fix j assume "j < L2_CACHE_SIZE"
    then have "l2_cache_counts s ! j + Suc n < INT_MAX" using hits by (simp add: hits_left_def)
    then show "l2_cache_counts ?r ! j + n < INT_MAX" using k(1) cache by (cases "j = k") (simp_all add: cache_ok_def)
  qed
  ultimately show thesis
    using that [of k "q_fd s" "l2_cache s" "l2_cache_offsets s" ?ks] Some small k slot io r by (simp add: l2_cache_lookup_def)
next
  case None
  have cache: "cache_ok s" and io: "io_whole (q_fd s)" and tab: "tables_ok L s" and len: "L \<le> fd_len (q_fd s)" and geom: "geom_ok s"
    using ok by (auto simp: img_ok_def)
  define k where "k = victim (l2_cache_counts s) 0 INT_MAX 0"
  have k: "k < L2_CACHE_SIZE" using victim_bound [of "l2_cache_counts s" 0 INT_MAX 0] cache by (auto simp: k_def cache_ok_def)
  have lens: "length (l2_cache s) = 16" "length (l2_cache_offsets s) = 16" "length (l2_cache_counts s) = 16" "length (l2_cache s ! k) = l2_bytes s"
    using cache k by (auto simp: cache_ok_def)
  have bound: "unat (l2_off s i) + l2_bytes s \<le> L" by (rule tables_okD(1) [OF tab i])
  have small: "l2_bytes s \<le> 2 ^ 31"
    using geom_bounds(1) [OF geom] by simp
  let ?t = "mem_read (fv s) (unat (l2_off s i)) (l2_bytes s)"
  have pr: "fd_pread (q_fd s) (l2_bytes s) (unat (l2_off s i)) = (int (l2_bytes s), ?t, next_call (q_fd s))"
    by (rule pread_whole [OF io _ small]) (use bound len L in linarith)+
  have put: "buf_put (l2_cache s ! k) 0 ?t = ?t" using lens(4) by (simp add: buf_put_def)
  let ?r = "recache s (next_call (q_fd s)) ((l2_cache s)[k := ?t]) ((l2_cache_offsets s)[k := l2_off s i]) ((l2_cache_counts s)[k := 1])"
  have look: "l2_cache_lookup s (l2_off s i) = Some (Some k, ?r)"
    using None pr put by (simp add: l2_cache_lookup_def k_def [symmetric] Let_def mult.commute recache_def)
  have new: "l2_cache_offsets s ! k' \<noteq> l2_off s i" if "k' < 16" for k' using first_index_None [OF None] lens(2) that by (metis nth_mem)
  have "slot_ok ?r k'" if "k' < 16" "l2_cache_offsets ?r ! k' \<noteq> 0" for k'
  proof (cases "k' = k")
    case True
    then show ?thesis using k lens i new by (auto simp: slot_ok_def nth_list_update)
  next
    case False
    then have "slot_ok s k'" using cache that lens by (auto simp: cache_ok_def)
    then show ?thesis using False that lens k new by (auto simp: slot_ok_def nth_list_update)
  qed
  then have "cache_ok ?r" using cache lens k by (auto simp: cache_ok_def nth_list_update)
  moreover have "hits_left n ?r"
  proof -
    have "n + 1 < INT_MAX" using hits k by (fastforce simp: hits_left_def)
    moreover have "l2_cache_counts s ! j + n < INT_MAX" if "j < L2_CACHE_SIZE" for j using hits that by (fastforce simp: hits_left_def)
    ultimately show ?thesis using lens k by (auto simp: hits_left_def nth_list_update)
  qed
  ultimately show thesis using that [OF look k] k lens io by simp
qed

section \<open>Entries of the tables\<close>

lemma be64_put:
  assumes "8 * i + 8 \<le> length t" "8 * j + 8 \<le> length t"
  shows "be64_at (buf_put t (8 * i) (be_enc 8 (unat e))) j = (if j = i then e else be64_at t j)"
proof (cases "j = i")
  case True
  have "unat e < 2 ^ 64" using unsigned_less [of e] by simp
  then have "be_dec (be_enc 8 (unat e)) = unat e" using be_dec_enc [of 8 "unat e"] by simp
  then show ?thesis using assms True by (simp add: be64_at_def buf_get_put_same)
next
  case False
  then show ?thesis
    using be_field_keep [of i j 8 t "be_enc 8 (unat e)"] assms by (simp add: be64_at_def algebra_simps)
qed

lemma be_enc_zero: "be_enc k 0 = replicate k 0"
  by (induction k) (simp_all add: replicate_append_same)

lemma be64_zeros: "8 * j + 8 \<le> n \<Longrightarrow> be64_at (replicate n 0) j = 0"
proof -
  assume "8 * j + 8 \<le> n"
  then have "buf_get (replicate n 0) (8 * j) 8 = be_enc 8 0" by (simp add: buf_get_def be_enc_zero)
  then show ?thesis by (simp add: be64_at_def be_dec_enc)
qed

lemma flag_bit: "bit (0x8000000000000000 :: 64 word) k \<longleftrightarrow> k = 63"
proof -
  have "(0x8000000000000000 :: 64 word) = 2 ^ 63" by simp
  then show ?thesis by (simp only: bit_exp_iff) auto
qed

lemma mask_small: "n < 2 ^ 63 \<Longrightarrow> (of_nat n :: 64 word) AND NOT 0x8000000000000000 = of_nat n" "n < 2 ^ 63 \<Longrightarrow> \<not> is_comp (of_nat n)"
proof -
  assume "n < 2 ^ 63"
  then have "\<not> bit n k" if "63 \<le> k" for k using small_bit [of n 63 k] that by auto
  then have "\<not> bit (of_nat n :: 64 word) k" if "63 \<le> k" for k using that by (simp add: bit_of_nat_iff)
  then have n: "bit (of_nat n :: 64 word) k \<Longrightarrow> k \<noteq> 63" for k by auto
  show "(of_nat n :: 64 word) AND NOT 0x8000000000000000 = of_nat n"
    by (rule bit_eqI) (auto simp only: bit_and_iff bit_not_iff flag_bit dest: n impossible_bit)
  have "(of_nat n :: 64 word) AND 0x8000000000000000 = 0"
    by (rule bit_eqI) (auto simp only: bit_and_iff flag_bit bit_0_eq bot_apply bot_bool_def dest: n)
  then show "\<not> is_comp (of_nat n)" by (simp add: is_comp_def)
qed

lemma read_over:
  assumes "a \<le> w" "w + length bs \<le> a + n"
  shows "mem_read (mem_write F w bs) a n = buf_put (mem_read F a n) (w - a) bs"
proof (rule nth_equalityI)
  fix i assume "i < length (mem_read (mem_write F w bs) a n)"
  then have i: "i < n" by simp
  have put: "w - a + length bs \<le> length (mem_read F a n)" using assms by simp
  show "mem_read (mem_write F w bs) a n ! i = buf_put (mem_read F a n) (w - a) bs ! i"
    using assms i nth_buf_put [OF put, of i] by (auto simp: mem_write_def add.commute)
qed (use assms in simp)

lemma read_apart: "apart a n b k \<Longrightarrow> b \<le> w \<Longrightarrow> w + length bs \<le> b + k \<Longrightarrow> mem_read (mem_write F w bs) a n = mem_read F a n"
  "apart b k a n \<Longrightarrow> b \<le> w \<Longrightarrow> w + length bs \<le> b + k \<Longrightarrow> mem_read (mem_write F w bs) a n = mem_read F a n"
  by (auto simp: apart_def intro!: mem_read_write_other)

section \<open>Growing the file\<close>

lemma align_up:
  assumes "a + 2 ^ p < 2 ^ 63"
  shows "unat ((of_int (int a) + of_nat (2 ^ p) - 1) AND NOT (of_nat (2 ^ p) - 1) :: 64 word) = (a + 2 ^ p - 1) div 2 ^ p * 2 ^ p"
proof -
  have pow: "of_nat (2 ^ p) - 1 = (mask p :: 64 word)" by (simp add: mask_eq_exp_minus_1)
  have sum: "(of_int (int a) + of_nat (2 ^ p) - 1 :: 64 word) = of_nat (a + 2 ^ p - 1)"
  proof -
    have "Suc (a + 2 ^ p - 1) = a + 2 ^ p" by simp
    then have "of_nat (a + 2 ^ p) = (of_nat (a + 2 ^ p - 1) + 1 :: 64 word)" by (metis of_nat_Suc add.commute)
    then show ?thesis by simp
  qed
  have small: "a + 2 ^ p - 1 < 2 ^ 64" using assms by simp
  have "unat (of_nat (a + 2 ^ p - 1) :: 64 word) = a + 2 ^ p - 1" using small by (simp add: unat_of_nat)
  then show ?thesis unfolding pow sum unat_and_not_mask by (simp add: minus_mod_eq_div_mult)
qed

lemma grow_ok:
  assumes "q_alloc s = Grow" "io_whole (q_fd s)" "fd_len (q_fd s) + 2 * 2 ^ p < 2 ^ 63" "0 < fd_len (q_fd s)"
  obtains n f where "block_alloc s (2 ^ p) = Some (of_nat n, s\<lparr>q_fd := f\<rparr>)" "fd_len (q_fd s) \<le> n" "n < fd_len (q_fd s) + 2 ^ p"
    "file_view f = fv s" "fd_len f = n + 2 ^ p" "io_whole f"
proof -
  define a where "a = fd_len (q_fd s)"
  define n where "n = (a + 2 ^ p - 1) div 2 ^ p * 2 ^ p"
  have a: "a + 2 * 2 ^ p < 2 ^ 63" "0 < a" using assms(3,4) by (simp_all add: a_def)
  have n_eq: "n = a + 2 ^ p - 1 - (a + 2 ^ p - 1) mod 2 ^ p" by (simp add: n_def minus_mod_eq_div_mult)
  have "(a + 2 ^ p - 1) mod 2 ^ p < 2 ^ p" by simp
  then have n: "a \<le> n" "n < a + 2 ^ p" using a(2) n_eq by linarith+
  let ?w = "(of_int (int a) + of_nat (2 ^ p) - 1) AND NOT (of_nat (2 ^ p) - 1) :: 64 word"
  have "unat ?w = n" using align_up [of a p] a by (simp add: n_def)
  then have w: "?w = of_nat n" by (metis of_nat_unat ucast_id)
  have "n + 2 ^ p < 2 ^ 63" using n(2) a(1) by linarith
  then have sum: "unat (of_nat n + of_nat (2 ^ p) :: 64 word) = n + 2 ^ p" "n + 2 ^ p < 2 ^ 63"
    by (simp_all only: of_nat_add [symmetric] unat_of_nat) simp_all
  define f where "f = (next_call (next_call (q_fd s)))\<lparr>fd_data := fv s, fd_len := n + 2 ^ p\<rparr>"
  have "block_alloc s (2 ^ p) = Some (of_nat n, s\<lparr>q_fd := f\<rparr>)"
    using assms(1) whole_transferred(2) [OF assms(2)] sum
    unfolding block_alloc_def qcow_block_alloc_def lseek_end_def ftruncate_def
    by (simp only: Let_def a_def [symmetric] w prod.case alloc_kind.case if_False if_True) (simp add: f_def w a_def [symmetric])
  moreover have "file_view f = fv s" using n by (auto simp: f_def file_view_def a_def)
  ultimately show thesis using that [of n f] n assms(2) by (simp add: f_def a_def io_whole_def)
qed

section \<open>A new L2 table\<close>

lemma zero_read: "\<forall>x. a \<le> x \<and> x < a + n \<longrightarrow> F x = 0 \<Longrightarrow> mem_read F a n = replicate n 0"
  by (rule nth_equalityI) simp_all

lemma new_table_ok:
  assumes ok: "img_ok zinf L s" and i: "i < l1_size s" "l2_off s i = 0"
    and n: "L \<le> n" "0 < n" "n + l2_bytes s \<le> fd_len (q_fd s)" "n + l2_bytes s < 2 ^ 63" and zero: "\<forall>x. L \<le> x \<longrightarrow> fv s x = 0"
  defines "s' \<equiv> snd (l1_table_update s i (of_nat n OR cluster_copied s))"
  shows "img_ok zinf (n + l2_bytes s) s'" "l2_off s' i = of_nat n" "qcow_view zinf s' bk = qcow_view zinf s bk" "entry_of s' c = entry_of s c"
    "\<exists>f. s' = s\<lparr>q_fd := f, q_l1_table := q_l1_table s'\<rparr> \<and> fd_len f = fd_len (q_fd s)" "\<forall>x. n + l2_bytes s \<le> x \<longrightarrow> fv s' x = 0"
proof -
  have parts: "geom_ok s" "tables_ok L s" "entries_ok zinf L s" "cache_ok s" "zcache_ok zinf s" "comp_unique s" "io_whole (q_fd s)" "L \<le> fd_len (q_fd s)"
    using ok by (auto simp: img_ok_def)
  have g: "cluster_copied s = 0" "cluster_mask s = NOT QCOW_OFLAG_COMPRESSED" "length (q_l1_table s) = 8 * l1_size s"
    using parts(1) by (auto simp: geom_ok_def)
  let ?e = "be_enc 8 (unat (of_nat n :: 64 word))" and ?w = "l1_table_offset s + 8 * i"
  let ?f = "stored (q_fd s) ?w ?e" and ?t = "buf_put (q_l1_table s) (8 * i) ?e"
  have L: "l1_table_offset s + 8 * l1_size s \<le> L" "q_l1_table s = mem_read (fv s) (l1_table_offset s) (8 * l1_size s)"
    using parts(2) by (auto simp: tables_ok_def)
  have w: "?w + 8 \<le> l1_table_offset s + 8 * l1_size s" using i(1) by linarith
  have wb: "?w < 2 ^ 63" using w L(1) n by linarith
  have s': "s' = s\<lparr>q_fd := ?f, q_l1_table := ?t\<rparr>"
    using pwrite_whole [OF parts(7), of ?e ?w] wb by (simp add: s'_def l1_table_update_def g(1) Let_def mult.commute)
  have F: "fv s' = mem_write (fv s) ?w ?e" by (simp add: s')
  have flen: "fd_len ?f = fd_len (q_fd s)" using w L(1) parts(8) by (auto simp: stored_def next_call_def)
  have l2: "l2_off s' j = (if j = i then of_nat n else l2_off s j)" if "j < l1_size s" for j
    using that i(1) g mask_small(1) [of n] n(4) by (simp add: l2_off_def s' be64_put)
  have other: "mem_read (fv s') a k = mem_read (fv s) a k" if "apart (l1_table_offset s) (8 * l1_size s) a k" for a k
    unfolding F using that w by (intro read_apart(2) [where b = "l1_table_offset s" and k = "8 * l1_size s"]) simp_all
  have fresh: "mem_read (fv s') n (l2_bytes s) = replicate (l2_bytes s) 0"
  proof (rule zero_read, intro allI impI)
    fix x assume "n \<le> x \<and> x < n + l2_bytes s"
    then show "fv s' x = 0" unfolding F using w L(1) n(1) zero by (subst mem_write_out) auto
  qed
  have sizes [simp]: "l1_size s' = l1_size s" "l2_size s' = l2_size s" "cluster_size s' = cluster_size s" "cluster_bits s' = cluster_bits s"
    "cluster_offset_mask s' = cluster_offset_mask s" "l1_table_offset s' = l1_table_offset s" "l2_cache s' = l2_cache s"
    "l2_cache_offsets s' = l2_cache_offsets s" "l2_cache_counts s' = l2_cache_counts s" "cluster_cache s' = cluster_cache s"
    "cluster_cache_offset s' = cluster_cache_offset s" "q_fd s' = ?f"
    by (simp_all add: s')
  have unn: "unat (of_nat n :: 64 word) = n" using n(4) by (simp add: unat_of_nat)
  have nz: "(of_nat n :: 64 word) \<noteq> 0" using unn n(2) by (metis unat_0 less_numeral_extra(3))
  have ent: "entry_of s' c = entry_of s c" for c
  proof (cases "c < clusters s")
    case True
    then have ci: "c div l2_size s < l1_size s" by (simp add: less_mult_imp_div_less)
    have "c mod l2_size s < l2_size s" using geom_bounds(2) [OF parts(1)] by simp
    then have cm: "8 * (c mod l2_size s) + 8 \<le> l2_bytes s" by linarith
    show ?thesis
    proof (cases "c div l2_size s = i")
      case True
      then have "entry_of s c = 0" using i(2) by (simp add: entry_of_def)
      moreover have "entry_of s' c = 0"
        using True \<open>c < clusters s\<close> l2 [OF ci] fresh be64_zeros [OF cm] by (simp add: entry_of_def unn Let_def del: stored_simps(1))
      ultimately show ?thesis by simp
    next
      case False
      then show ?thesis
        using l2 [OF ci] other [OF tables_okD(2) [OF parts(2) ci]] by (auto simp: entry_of_def Let_def simp del: stored_simps(1))
    qed
  qed (simp add: entry_of_def)
  show "l2_off s' i = of_nat n" using l2 [OF i(1)] by simp
  show "entry_of s' c = entry_of s c" by (rule ent)
  show "\<exists>f. s' = s\<lparr>q_fd := f, q_l1_table := q_l1_table s'\<rparr> \<and> fd_len f = fd_len (q_fd s)" using flen s' by auto
  show "\<forall>x. n + l2_bytes s \<le> x \<longrightarrow> fv s' x = 0" unfolding F using w L(1) n(1) zero by (auto simp: mem_write_out)
  have ext [simp]: "ext_start s' e = ext_start s e" "ext_len s' e = ext_len s e" for e by (simp_all add: ext_start_def ext_len_def)
  have eok: "entry_ok zinf (n + l2_bytes s) s' (entry_of s c)" "content zinf s' (entry_of s c) = content zinf s (entry_of s c)"
    if "entry_of s c \<noteq> 0" for c
  proof -
    let ?e = "entry_of s c"
    have e: "entry_ok zinf L s ?e" using parts(3) that by (auto simp: entries_ok_def)
    have same: "ext_bytes s' ?e = ext_bytes s ?e" using other e by (simp add: entry_ok_def del: stored_simps(1))
    then show c: "content zinf s' ?e = content zinf s ?e" by (simp add: content_def del: stored_simps(1))
    have below: "ext_start s ?e + ext_len s ?e \<le> L" using e by (simp add: entry_ok_def)
    have "apart (unat (l2_off s' j)) (l2_bytes s) (ext_start s ?e) (ext_len s ?e)" if "j < l1_size s" "l2_off s' j \<noteq> 0" for j
      using l2 [OF that(1)] that e below n(1) unn by (auto simp: entry_ok_def apart_def split: if_splits)
    then show "entry_ok zinf (n + l2_bytes s) s' ?e"
      using e c same below n(1) unfolding entry_ok_def by (simp del: stored_simps(1))
  qed
  have "tables_ok (n + l2_bytes s) s'"
  proof -
    have "q_l1_table s' = mem_read (fv s') (l1_table_offset s) (8 * l1_size s)"
    proof -
      have "mem_read (fv s') (l1_table_offset s) (8 * l1_size s) = buf_put (mem_read (fv s) (l1_table_offset s) (8 * l1_size s)) (8 * i) ?e"
        unfolding F using w by (subst read_over) simp_all
      then show ?thesis by (simp add: s' L(2) [symmetric])
    qed
    moreover have "unat (l2_off s' j) + l2_bytes s \<le> n + l2_bytes s \<and> apart (l1_table_offset s) (8 * l1_size s) (unat (l2_off s' j)) (l2_bytes s)
        \<and> (\<forall>k < l1_size s. l2_off s' k \<noteq> 0 \<longrightarrow> j \<noteq> k \<longrightarrow> apart (unat (l2_off s' j)) (l2_bytes s) (unat (l2_off s' k)) (l2_bytes s))"
      if j: "j < l1_size s" "l2_off s' j \<noteq> 0" for j
    proof -
      have old: "unat (l2_off s k) + l2_bytes s \<le> n" if "k < l1_size s" "k \<noteq> i" "l2_off s' k \<noteq> 0" for k
        using tables_okD(1) [OF parts(2) that(1)] l2 [OF that(1)] that(2,3) n(1) by auto
      show ?thesis
        using j l2 old tables_okD(2,3) [OF parts(2)] L(1) n(1) unn
        by (cases "j = i") (auto simp: apart_def intro: add_leD1 [OF old])
    qed
    ultimately show ?thesis using L(1) n(1) unfolding tables_ok_def by simp
  qed
  moreover have "entries_ok zinf (n + l2_bytes s) s'" using eok by (simp add: entries_ok_def ent)
  moreover have "comp_unique s'" using parts(6) unfolding comp_unique_def ent ext .
  moreover have "zcache_ok zinf s'" using parts(5) eok(2) by (simp add: zcache_ok_def ent comp_nonzero)
  moreover have "cache_ok s'"
  proof -
    have "slot_ok s' k" if sl: "slot_ok s k" "l2_cache_offsets s ! k \<noteq> 0" for k
    proof -
      obtain j where j: "j < l1_size s" "l2_cache_offsets s ! k = l2_off s j" using sl(1) by (auto simp: slot_ok_def)
      then have "j \<noteq> i" using i(2) sl(2) by auto
      then have "l2_cache_offsets s ! k = l2_off s' j" using j l2 by simp
      then show ?thesis
        using sl other [OF tables_okD(2) [OF parts(2) j(1)]] j unfolding slot_ok_def by (auto simp del: stored_simps(1))
    qed
    then show ?thesis using parts(4) by (simp add: cache_ok_def)
  qed
  moreover have "geom_ok s'" using parts(1) i(1) g(3) by (simp add: s')
  ultimately show "img_ok zinf (n + l2_bytes s) s'" using parts(7) n(3) flen by (simp add: img_ok_def)
  show "qcow_view zinf s' bk = qcow_view zinf s bk" using eok(2) by (auto simp: qcow_view_def ent Let_def fun_eq_iff)
qed

section \<open>A new cluster\<close>

lemma new_cluster_ok:
  assumes ok: "img_ok zinf L s" and i: "i < l1_size s" "j < l2_size s" "l2_off s i \<noteq> 0" and k: "k < L2_CACHE_SIZE" "l2_cache_offsets s ! k = l2_off s i"
    and n: "L \<le> n" "512 \<le> n" "n + cluster_size s \<le> fd_len (q_fd s)" "n + cluster_size s < 2 ^ 63"
  defines "s' \<equiv> snd (l2_table_update s k (l2_off s i) j (of_nat n OR cluster_copied s))"
  shows "img_ok zinf (n + cluster_size s) s'" "entry_of s' c = (if c = i * l2_size s + j then of_nat n else entry_of s c)"
    "qcow_view zinf s' bk x = (if x div cluster_size s = i * l2_size s + j then fv s (n + x mod cluster_size s) else qcow_view zinf s bk x)"
    "\<exists>f. s' = s\<lparr>q_fd := f, l2_cache := l2_cache s'\<rparr> \<and> fd_len f = fd_len (q_fd s)" "\<forall>x. L \<le> x \<longrightarrow> fv s' x = fv s x"
proof -
  have parts: "geom_ok s" "tables_ok L s" "entries_ok zinf L s" "cache_ok s" "zcache_ok zinf s" "comp_unique s" "io_whole (q_fd s)" "L \<le> fd_len (q_fd s)"
    using ok by (auto simp: img_ok_def)
  have g: "cluster_copied s = 0" using parts(1) by (auto simp: geom_ok_def)
  let ?e = "be_enc 8 (unat (of_nat n :: 64 word))" and ?o = "unat (l2_off s i)" and ?c = "i * l2_size s + j"
  let ?w = "?o + 8 * j"
  let ?f = "stored (q_fd s) ?w ?e"
  have o: "?o + l2_bytes s \<le> L" by (rule tables_okD(1) [OF parts(2) i(1,3)])
  have w: "?w + 8 \<le> ?o + l2_bytes s" using i(2) by linarith
  have wb: "?w < 2 ^ 63" using w o n by linarith
  have s': "s' = s\<lparr>q_fd := ?f, l2_cache := (l2_cache s)[k := buf_put (l2_cache s ! k) (8 * j) ?e]\<rparr>"
    using pwrite_whole [OF parts(7), of ?e ?w] wb by (simp add: s'_def l2_table_update_def g Let_def mult.commute)
  have F: "fv s' = mem_write (fv s) ?w ?e" by (simp add: s')
  have flen: "fd_len ?f = fd_len (q_fd s)" using w o parts(8) by (auto simp: stored_def next_call_def)
  have other: "mem_read (fv s') a m = mem_read (fv s) a m" if "apart ?o (l2_bytes s) a m" for a m
    unfolding F using that w by (intro read_apart(2) [where b = ?o and k = "l2_bytes s"]) simp_all
  have sizes [simp]: "l1_size s' = l1_size s" "l2_size s' = l2_size s" "cluster_size s' = cluster_size s" "cluster_bits s' = cluster_bits s"
    "cluster_offset_mask s' = cluster_offset_mask s" "l1_table_offset s' = l1_table_offset s" "q_l1_table s' = q_l1_table s"
    "l2_cache_offsets s' = l2_cache_offsets s" "l2_cache_counts s' = l2_cache_counts s" "cluster_cache s' = cluster_cache s"
    "cluster_cache_offset s' = cluster_cache_offset s" "q_fd s' = ?f" "l2_off s' a = l2_off s a" for a
    by (simp_all add: s' l2_off_def)
  have unn: "unat (of_nat n :: 64 word) = n" using n(4) by (simp add: unat_of_nat)
  have nz: "(of_nat n :: 64 word) \<noteq> 0" using unn n(2) by (metis unat_0 not_numeral_le_zero)
  have plain: "\<not> is_comp (of_nat n)" using mask_small(2) n(4) by simp
  have tab: "mem_read (fv s') ?o (l2_bytes s) = buf_put (mem_read (fv s) ?o (l2_bytes s)) (8 * j) ?e"
    unfolding F using w by (subst read_over) simp_all
  have ent: "entry_of s' c = (if c = ?c then of_nat n else entry_of s c)" for c
  proof (cases "c < clusters s")
    case True
    then have ci: "c div l2_size s < l1_size s" by (simp add: less_mult_imp_div_less)
    have "c mod l2_size s < l2_size s" using geom_bounds(2) [OF parts(1)] by simp
    then have cm: "8 * (c mod l2_size s) + 8 \<le> l2_bytes s" by linarith
    show ?thesis
    proof (cases "c div l2_size s = i")
      case True
      then have "c = ?c \<longleftrightarrow> c mod l2_size s = j" using i(2) by (metis div_mult_mod_eq mod_less mod_mult_self3)
      then show ?thesis
        using True \<open>c < clusters s\<close> i tab cm w be64_put [of j "mem_read (fv s) ?o (l2_bytes s)" "c mod l2_size s" "of_nat n"]
        by (simp add: entry_of_def Let_def del: stored_simps(1))
    next
      case False
      then have "c \<noteq> ?c" using i(2) by auto
      then show ?thesis
        using False other tables_okD(3) [OF parts(2) i(1,3) ci] \<open>c < clusters s\<close> by (auto simp: entry_of_def Let_def simp del: stored_simps(1))
    qed
  next
    case False
    have "?c < (i + 1) * l2_size s" using i(2) by simp
    also have "\<dots> \<le> clusters s" using i(1) by (intro mult_le_mono1) simp
    finally show ?thesis using False by (auto simp: entry_of_def)
  qed
  have ext [simp]: "ext_start s' e = ext_start s e" "ext_len s' e = ext_len s e" for e by (simp_all add: ext_start_def ext_len_def)
  have eok: "entry_ok zinf (n + cluster_size s) s' (entry_of s c)" "content zinf s' (entry_of s c) = content zinf s (entry_of s c)"
    if "entry_of s c \<noteq> 0" for c
  proof -
    let ?e = "entry_of s c"
    have e: "entry_ok zinf L s ?e" using parts(3) that by (auto simp: entries_ok_def)
    have same: "ext_bytes s' ?e = ext_bytes s ?e" using other e i(1,3) by (simp add: entry_ok_def del: stored_simps(1))
    then show c: "content zinf s' ?e = content zinf s ?e" by (simp add: content_def del: stored_simps(1))
    show "entry_ok zinf (n + cluster_size s) s' ?e"
      using e c same n(1) unfolding entry_ok_def by (simp del: stored_simps(1))
  qed
  have new: "entry_ok zinf (n + cluster_size s) s' (of_nat n)" "ext_start s (of_nat n) = n" "ext_len s (of_nat n) = cluster_size s"
  proof -
    show x: "ext_start s (of_nat n) = n" "ext_len s (of_nat n) = cluster_size s" using plain unn by (simp_all add: ext_start_def ext_len_def)
    have "l1_table_offset s + 8 * l1_size s \<le> n" using parts(2) n(1) by (auto simp: tables_ok_def)
    then show "entry_ok zinf (n + cluster_size s) s' (of_nat n)"
      using plain n unn tables_okD(1) [OF parts(2)] by (auto simp: entry_ok_def x apart_def intro: order_trans)
  qed
  show "entry_of s' c = (if c = ?c then of_nat n else entry_of s c)" by (rule ent)
  show "\<exists>f. s' = s\<lparr>q_fd := f, l2_cache := l2_cache s'\<rparr> \<and> fd_len f = fd_len (q_fd s)" using flen s' by auto
  show keep: "\<forall>x. L \<le> x \<longrightarrow> fv s' x = fv s x" unfolding F using w o by (auto intro!: mem_write_out)
  have "tables_ok (n + cluster_size s) s'"
  proof -
    have "mem_read (fv s') (l1_table_offset s) (8 * l1_size s) = mem_read (fv s) (l1_table_offset s) (8 * l1_size s)"
      using other tables_okD(2) [OF parts(2) i(1,3)] by (simp add: apart_def disj_commute del: stored_simps(1))
    then show ?thesis using parts(2) n(1) unfolding tables_ok_def by (auto simp del: stored_simps(1))
  qed
  moreover have "entries_ok zinf (n + cluster_size s) s'" using eok new by (simp add: entries_ok_def ent)
  moreover have "comp_unique s'"
  proof -
    have "entry_of s' c = entry_of s c" if "is_comp (entry_of s' c)" for c using that plain unfolding ent by presburger
    then show ?thesis using parts(6) unfolding comp_unique_def ext by metis
  qed
  moreover have "zcache_ok zinf s'" using parts(5) eok(2) plain by (simp add: zcache_ok_def ent comp_nonzero)
  moreover have "cache_ok s'"
  proof -
    have lens: "length (l2_cache s) = 16" "length (l2_cache s ! k) = l2_bytes s" using parts(4) k(1) by (auto simp: cache_ok_def)
    have cs: "l2_cache s' = (l2_cache s)[k := buf_put (l2_cache s ! k) (8 * j) ?e]" by (simp add: s')
    have "slot_ok s' a" if sl: "slot_ok s a" "l2_cache_offsets s ! a \<noteq> 0" "a < 16" for a
    proof (cases "a = k")
      case True
      then show ?thesis using sl tab k lens cs unfolding slot_ok_def by (simp del: stored_simps(1))
    next
      case False
      obtain b where b: "b < l1_size s" "l2_cache_offsets s ! a = l2_off s b" using sl(1) by (auto simp: slot_ok_def)
      have "b \<noteq> i" using sl(1) k b False by (auto simp: slot_ok_def)
      then show ?thesis
        using sl other tables_okD(3) [OF parts(2) i(1,3) b(1)] b False cs unfolding slot_ok_def by (auto simp del: stored_simps(1))
    qed
    then show ?thesis using parts(4) lens k w by (auto simp: cache_ok_def cs nth_list_update)
  qed
  moreover have "geom_ok s'" using parts(1) by (simp add: s')
  ultimately show "img_ok zinf (n + cluster_size s) s'" using parts(7) n(3) flen by (simp add: img_ok_def)
  have "content zinf s' (of_nat n) = mem_read (fv s) n (cluster_size s)"
  proof -
    have "mem_read (fv s') n (cluster_size s) = mem_read (fv s) n (cluster_size s)" using keep n(1) by (intro mem_read_cong) simp
    then show ?thesis using plain new by (simp add: content_def del: stored_simps(1))
  qed
  moreover have "x mod cluster_size s < cluster_size s" using geom_bounds(4) [OF parts(1)] by simp
  ultimately show "qcow_view zinf s' bk x = (if x div cluster_size s = ?c then fv s (n + x mod cluster_size s) else qcow_view zinf s bk x)"
    using eok(2) nz by (auto simp: qcow_view_def ent Let_def)
qed

end
