(* ===== verification/Qcow_Lookup.thy ===== *)
theory Qcow_Lookup
  imports Qcow_View
begin

unbundle bit_operations_syntax

text \<open>
  What the lookup of \<open>qcow.c\<close> does to the disk of an image of version 1: for reading it changes nothing and gives the entry; for writing
  it gives a cluster at the end of the file that no other entry uses and that already holds what the disk held there.
\<close>

section \<open>Decompression\<close>

definition rezcache :: "qcow_state \<Rightarrow> file_state \<Rightarrow> byte list \<Rightarrow> 64 word \<Rightarrow> qcow_state" where
  "rezcache s f bs w = s\<lparr>q_fd := f, cluster_cache := bs, cluster_cache_offset := w\<rparr>"

lemma rezcache_ok:
  assumes ok: "img_ok zinf L s" and f: "io_whole f" "fd_len (q_fd s) \<le> fd_len f" "file_view f = fv s" and len: "length bs = cluster_size s"
    and z: "\<And>c. is_comp (entry_of s c) \<Longrightarrow> entry_of s c AND cluster_offset_mask s = w \<Longrightarrow> bs = content zinf s (entry_of s c)"
  shows "img_ok zinf L (rezcache s f bs w)" "entry_of (rezcache s f bs w) c = entry_of s c" "qcow_view zinf (rezcache s f bs w) bk = qcow_view zinf s bk"
proof -
  let ?s = "rezcache s f bs w" and ?t = "s\<lparr>q_fd := f\<rparr>"
  have L: "L \<le> fd_len f" using ok f(2) by (simp add: img_ok_def)
  have t: "img_ok zinf L ?t" "qcow_view zinf ?t bk = qcow_view zinf s bk" using img_ok_file [OF ok f(1) L] f(3) by auto
  have te: "entry_of ?t c = entry_of s c" for c using entry_below [of L s f] ok f(3) by (simp add: img_ok_def)
  have l2: "l2_off ?s i = l2_off ?t i" for i by (simp add: l2_off_def rezcache_def)
  have ent: "entry_of ?s c = entry_of ?t c" for c by (simp add: entry_of_def l2_off_def rezcache_def Let_def)
  have ext: "ext_start ?s e = ext_start ?t e" "ext_len ?s e = ext_len ?t e" for e by (simp_all add: ext_start_def ext_len_def rezcache_def)
  have cont: "content zinf ?s e = content zinf ?t e" for e by (simp add: content_def ext) (simp add: rezcache_def)
  have eok: "entry_ok zinf L ?s e = entry_ok zinf L ?t e" for e unfolding entry_ok_def ext l2 cont by (simp add: rezcache_def)
  have tc: "content zinf ?t e = content zinf s e" for e by (simp add: content_def ext_start_def ext_len_def f(3))
  have "tables_ok L ?s = tables_ok L ?t" unfolding tables_ok_def l2 by (simp add: rezcache_def)
  moreover have "entries_ok zinf L ?s = entries_ok zinf L ?t" unfolding entries_ok_def ent eok ..
  moreover have "comp_unique ?s = comp_unique ?t" unfolding comp_unique_def ent ext ..
  moreover have "slot_ok ?s k = slot_ok ?t k" for k unfolding slot_ok_def l2 by (simp add: rezcache_def)
  then have "cache_ok ?s = cache_ok ?t" unfolding cache_ok_def by (simp add: rezcache_def)
  moreover have "zcache_ok zinf ?s" using z len unfolding zcache_ok_def ent te cont tc by (simp add: rezcache_def)
  moreover have "geom_ok ?s = geom_ok ?t" by (simp add: rezcache_def)
  ultimately show "img_ok zinf L ?s" using t(1) by (simp add: img_ok_def rezcache_def)
  show "entry_of ?s c = entry_of s c" unfolding ent te ..
  show "qcow_view zinf ?s bk = qcow_view zinf s bk" unfolding t(2) [symmetric] qcow_view_def ent cont fun_eq_iff by (simp add: rezcache_def Let_def)
qed

lemma rezcache_same:
  assumes "file_view f = fv s"
  shows "entry_of (rezcache s f bs w) c = entry_of s c" "qcow_view zinf (rezcache s f bs w) bk = qcow_view zinf s bk"
proof -
  let ?s = "rezcache s f bs w"
  have eq: "content zinf ?s x = content zinf s x" for x by (simp add: content_def ext_start_def ext_len_def rezcache_def assms)
  show ent: "entry_of ?s c = entry_of s c" for c by (simp add: entry_of_def l2_off_def rezcache_def assms Let_def)
  have "cluster_size ?s = cluster_size s" by (simp add: rezcache_def)
  then show "qcow_view zinf ?s bk = qcow_view zinf s bk" by (simp add: qcow_view_def ent eq fun_eq_iff Let_def)
qed

lemma ext_comp: "is_comp e \<Longrightarrow> ext_start s e = unat (e AND cluster_offset_mask s)"
  by (simp add: ext_start_def)

lemma decompress_ok:
  assumes ok: "img_ok zinf L s" and e: "is_comp (entry_of s c)" and L: "L < 2 ^ 63"
  obtains f bs w where "decompress_cluster zinf s (entry_of s c) = (True, rezcache s f bs w)" "bs = content zinf s (entry_of s c)"
    "img_ok zinf L (rezcache s f bs w)" "file_view f = fv s" "fd_len f = fd_len (q_fd s)" "io_whole f"
proof -
  have parts: "geom_ok s" "entries_ok zinf L s" "zcache_ok zinf s" "comp_unique s" "io_whole (q_fd s)" "L \<le> fd_len (q_fd s)"
    using ok by (auto simp: img_ok_def)
  let ?e = "entry_of s c" and ?w = "entry_of s c AND cluster_offset_mask s"
  have eok: "entry_ok zinf L s ?e" using parts(2) comp_nonzero [OF e] by (auto simp: entries_ok_def)
  have zl: "length (cluster_cache s) = cluster_size s" using parts(3) by (simp add: zcache_ok_def)
  show thesis
  proof (cases "cluster_cache_offset s = ?w")
    case True
    have bs: "cluster_cache s = content zinf s ?e" using parts(3) e True unfolding zcache_ok_def by metis
    have "rezcache s (q_fd s) (cluster_cache s) ?w = s" by (simp add: rezcache_def True [symmetric])
    then show thesis
      using that [of "q_fd s" "cluster_cache s" ?w] True bs ok parts(5) by (simp add: decompress_cluster_def Let_def)
  next
    case False
    have len: "ext_start s ?e + ext_len s ?e \<le> L" and out: "fst (zinf (ext_bytes s ?e) (cluster_size s))" "length (content zinf s ?e) = cluster_size s"
      using eok e by (auto simp: entry_ok_def)
    have size: "ext_len s ?e \<le> 2 ^ 31"
    proof -
      have "ext_len s ?e \<le> cluster_size s" using geom_bounds(4) [OF parts(1)] by (simp add: ext_len_def)
      then show ?thesis using geom_bounds(3) [OF parts(1)] by simp
    qed
    have pr: "fd_pread (q_fd s) (ext_len s ?e) (ext_start s ?e) = (int (ext_len s ?e), ext_bytes s ?e, next_call (q_fd s))"
      by (rule pread_whole [OF parts(5) _ size]) (use len parts(6) L in linarith)+
    have put: "buf_put (cluster_cache s) 0 (content zinf s ?e) = content zinf s ?e" using zl out(2) by (simp add: buf_put_def)
    have "decompress_cluster zinf s ?e = (True, rezcache s (next_call (q_fd s)) (content zinf s ?e) ?w)"
    proof -
      obtain o1 where "zinf (ext_bytes s ?e) (cluster_size s) = (True, o1)" using out(1) by (metis prod.collapse)
      then show ?thesis
        using False pr put e by (simp add: decompress_cluster_def Let_def ext_start_def ext_len_def content_def rezcache_def)
    qed
    moreover have "img_ok zinf L (rezcache s (next_call (q_fd s)) (content zinf s ?e) ?w)"
    proof (rule rezcache_ok(1) [OF ok])
      fix d assume d: "is_comp (entry_of s d)" "entry_of s d AND cluster_offset_mask s = ?w"
      then have st: "ext_start s ?e = ext_start s (entry_of s d)" using e by (simp add: ext_comp)
      then have "ext_len s ?e = ext_len s (entry_of s d)" using parts(4) e d(1) unfolding comp_unique_def by metis
      then show "content zinf s ?e = content zinf s (entry_of s d)" using st e d(1) by (simp add: content_def)
    qed (use parts(5) out(2) in simp_all)
    ultimately show thesis using that [of "next_call (q_fd s)" "content zinf s ?e" ?w] parts(5) by simp
  qed
qed
section \<open>The lookup for writing\<close>

text \<open>Geometry, which no operation changes.\<close>

definition geom :: "qcow_state \<Rightarrow> nat \<times> nat \<times> nat \<times> nat \<times> nat \<times> nat \<times> nat \<times> nat" where
  "geom s = (cluster_bits s, cluster_size s, cluster_sectors s, l2_bits s, l2_size s, l1_size s, l1_table_offset s, q_size s)"

lemma geomD: "geom s' = geom s \<Longrightarrow> cluster_bits s' = cluster_bits s \<and> cluster_size s' = cluster_size s \<and> cluster_sectors s' = cluster_sectors s
   \<and> l2_bits s' = l2_bits s \<and> l2_size s' = l2_size s \<and> l1_size s' = l1_size s \<and> l1_table_offset s' = l1_table_offset s \<and> q_size s' = q_size s"
  by (simp add: geom_def)

lemma geom_upd [simp]: "geom (s\<lparr>q_fd := f\<rparr>) = geom s" "geom (s\<lparr>l2_cache := cs\<rparr>) = geom s" "geom (s\<lparr>q_l1_table := t\<rparr>) = geom s"
  "geom (recache s f cs os ks) = geom s" "geom (rezcache s f bs w) = geom s"
  by (simp_all add: geom_def recache_def rezcache_def)

lemma upd_alloc [simp]: "q_alloc (snd (l1_table_update s i e)) = q_alloc s" "q_alloc (snd (l2_table_update s k o1 j e)) = q_alloc s"
  by (simp_all add: l1_table_update_def l2_table_update_def Let_def split: prod.split)

lemma grow_refcount [simp]: "q_alloc s = Grow \<Longrightarrow> set_refcount_of s c v = Some (0, s)"
  by (simp add: set_refcount_of_def)

abbreviation flen :: "qcow_state \<Rightarrow> nat" where "flen s \<equiv> fd_len (q_fd s)"

lemma beyond_end: "flen s \<le> x \<Longrightarrow> fv s x = 0"
  by (simp add: file_view_def)

lemma table_of_ok:
  assumes ok: "img_ok zinf (flen s) s" and i: "i < l1_size s" and room: "flen s + 2 * l2_bytes s < 2 ^ 63" "0 < flen s"
  obtains o1 s1 where "l2_table_of s i True = Some (o1, s1)" "o1 \<noteq> 0" "l2_off s1 i = o1" "img_ok zinf (flen s1) s1"
    "\<forall>bk. qcow_view zinf s1 bk = qcow_view zinf s bk" "\<forall>c. entry_of s1 c = entry_of s c" "geom s1 = geom s" "l2_cache_counts s1 = l2_cache_counts s"
    "flen s \<le> flen s1" "flen s1 \<le> flen s + 2 * l2_bytes s"
proof (cases "l2_off s i = 0")
  case False
  then show thesis using that [of "l2_off s i" s] ok i by (simp add: l2_table_of_def l2_off_def)
next
  case True
  have geo: "geom_ok s" and io: "io_whole (q_fd s)" using ok by (auto simp: img_ok_def)
  have sz: "l2_size s * 8 = 2 ^ (l2_bits s + 3)" "l2_bytes s = 2 ^ (l2_bits s + 3)" and q: "q_alloc s = Grow" "cluster_copied s = 0"
    using geo by (auto simp: geom_ok_def power_add)
  obtain n f where al: "block_alloc s (2 ^ (l2_bits s + 3)) = Some (of_nat n, s\<lparr>q_fd := f\<rparr>)" "flen s \<le> n" "n < flen s + 2 ^ (l2_bits s + 3)"
      "file_view f = fv s" "fd_len f = n + 2 ^ (l2_bits s + 3)" "io_whole f"
    using grow_ok [OF q(1) io, of "l2_bits s + 3"] room unfolding sz by blast
  let ?t = "s\<lparr>q_fd := f\<rparr>"
  have fl: "fd_len f = n + l2_bytes s" "n < flen s + l2_bytes s" using al(3,5) unfolding sz by simp_all
  have t: "img_ok zinf (flen s) ?t" "qcow_view zinf ?t bk = qcow_view zinf s bk" for bk
    using img_ok_file [OF ok al(6)] al(2,4) fl(1) by auto
  have te: "entry_of ?t c = entry_of s c" for c using entry_below [of "flen s" s f] ok al(4) by (simp add: img_ok_def)
  let ?s = "snd (l1_table_update ?t i (of_nat n OR cluster_copied ?t))"
  have new: "img_ok zinf (n + l2_bytes s) ?s" "l2_off ?s i = of_nat n" "qcow_view zinf ?s bk = qcow_view zinf ?t bk" "entry_of ?s c = entry_of ?t c"
      "\<exists>f'. ?s = ?t\<lparr>q_fd := f', q_l1_table := q_l1_table ?s\<rparr> \<and> fd_len f' = fd_len f" for c bk
    using new_table_ok [OF t(1), of i n] i True al(2,4) fl room beyond_end by (simp_all add: l2_off_def)
  obtain f' t where s: "?s = s\<lparr>q_fd := f', q_l1_table := t\<rparr>" "fd_len f' = fd_len f" using new(5) by auto
  have nz: "(of_nat n :: 64 word) \<noteq> 0"
  proof -
    have "unat (of_nat n :: 64 word) = n" using fl room by (simp add: unat_of_nat)
    then show ?thesis using al(2) room(2) by (metis unat_0 le_zero_eq less_numeral_extra(3))
  qed
  have run: "l2_table_of s i True = Some (of_nat n, ?s)"
    using True i nz al(1) q sz(1) by (simp add: l2_table_of_def l2_off_def l2_table_alloc_def)
  have len: "flen ?s = n + l2_bytes s" using fl(1) s(2) unfolding s(1) by simp
  show thesis
  proof (rule that [OF run nz new(2)])
    show "img_ok zinf (flen ?s) ?s" unfolding len by (rule new(1))
    show "\<forall>bk. qcow_view zinf ?s bk = qcow_view zinf s bk" using new(3) t(2) by simp
    show "\<forall>c. entry_of ?s c = entry_of s c" using new(4) te by simp
    show "geom ?s = geom s" "l2_cache_counts ?s = l2_cache_counts s" unfolding s(1) by simp_all
    show "flen s \<le> flen ?s" "flen ?s \<le> flen s + 2 * l2_bytes s" unfolding len using al(2) fl(2) by simp_all
  qed
qed
lemma map_fresh:
  assumes ok: "img_ok zinf L t" and i: "i < l1_size t" "j < l2_size t" "l2_off t i \<noteq> 0" and k: "k < L2_CACHE_SIZE" "l2_cache_offsets t ! k = l2_off t i"
    and n: "L \<le> n" "512 \<le> n" "flen t = n + cluster_size t" "n + cluster_size t < 2 ^ 63"
  obtains s' where "map_cluster t k (l2_off t i) j (of_nat n) = Some (of_nat n, s')" "img_ok zinf (flen s') s'" "flen s' = n + cluster_size t"
    "\<forall>d. entry_of s' d = (if d = i * l2_size t + j then of_nat n else entry_of t d)" "geom s' = geom t" "l2_cache_counts s' = l2_cache_counts t"
    "\<forall>bk x. qcow_view zinf s' bk x = (if x div cluster_size t = i * l2_size t + j then fv t (n + x mod cluster_size t) else qcow_view zinf t bk x)"
proof -
  let ?s = "snd (l2_table_update t k (l2_off t i) j (of_nat n OR cluster_copied t))"
  have len: "n + cluster_size t \<le> flen t" using n(3) by simp
  note new = new_cluster_ok [OF ok i k n(1,2) len n(4)]
  have q: "q_alloc t = Grow" "cluster_copied t = 0" using ok by (auto simp: img_ok_def geom_ok_def)
  obtain f cs where s: "?s = t\<lparr>q_fd := f, l2_cache := cs\<rparr>" "fd_len f = flen t" using new(4) by auto
  have fl: "flen ?s = n + cluster_size t" unfolding s(1) using s(2) n(3) by simp
  show thesis
  proof (rule that)
    show "map_cluster t k (l2_off t i) j (of_nat n) = Some (of_nat n, ?s)" using q by (simp add: map_cluster_def)
    show "img_ok zinf (flen ?s) ?s" unfolding fl by (rule new(1))
    show "flen ?s = n + cluster_size t" by (rule fl)
    show "geom ?s = geom t" "l2_cache_counts ?s = l2_cache_counts t" unfolding s(1) by simp_all
  qed (use new(2,3) in blast)+
qed

lemma slot_entry:
  assumes ok: "img_ok zinf L s" and i: "i < l1_size s" "j < l2_size s" "l2_off s i \<noteq> 0" and k: "k < L2_CACHE_SIZE" "l2_cache_offsets s ! k = l2_off s i"
  shows "be64_at (l2_cache s ! k) j = entry_of s (i * l2_size s + j)"
proof -
  have "slot_ok s k" using ok k i(3) by (auto simp: img_ok_def cache_ok_def)
  then have "l2_cache s ! k = mem_read (fv s) (unat (l2_off s i)) (l2_bytes s)" using k by (simp add: slot_ok_def)
  moreover have "i * l2_size s + j < clusters s"
  proof -
    have "i * l2_size s + j < (i + 1) * l2_size s" using i(2) by simp
    also have "\<dots> \<le> clusters s" using i(1) by (intro mult_le_mono1) simp
    finally show ?thesis .
  qed
  ultimately show ?thesis using i by (simp add: entry_of_def)
qed

lemma alloc_filled:
  assumes ok: "img_ok zinf (flen s) s" and room: "flen s + 2 * cluster_size s < 2 ^ 63" "512 \<le> flen s"
  obtains n f where "qcow_cluster_alloc s = Some (of_nat n, s\<lparr>q_fd := f\<rparr>)" "(of_nat n :: 64 word) \<noteq> 0" "unat (of_nat n :: 64 word) = n" "flen s \<le> n"
    "n < flen s + cluster_size s" "n + cluster_size s < 2 ^ 63" "512 \<le> n" "fd_len f = n + cluster_size s" "io_whole f" "file_view f = fv s" "img_ok zinf (flen s) (s\<lparr>q_fd := f\<rparr>)"
    "\<forall>bk. qcow_view zinf (s\<lparr>q_fd := f\<rparr>) bk = qcow_view zinf s bk" "\<forall>c. entry_of (s\<lparr>q_fd := f\<rparr>) c = entry_of s c"
proof -
  have geo: "geom_ok s" and io: "io_whole (q_fd s)" and tab: "tables_ok (flen s) s" using ok by (auto simp: img_ok_def)
  have sz: "cluster_size s = 2 ^ cluster_bits s" and q: "q_alloc s = Grow" using geo by (auto simp: geom_ok_def)
  have pos: "0 < flen s" using room(2) by simp
  obtain n f where al: "block_alloc s (cluster_size s) = Some (of_nat n, s\<lparr>q_fd := f\<rparr>)" "flen s \<le> n" "n < flen s + cluster_size s"
      "file_view f = fv s" "fd_len f = n + cluster_size s" "io_whole f"
    using grow_ok [OF q io _ pos, of "cluster_bits s"] room(1) unfolding sz by blast
  have b: "n + cluster_size s < 2 ^ 63" using al(3) room(1) by linarith
  then have un: "unat (of_nat n :: 64 word) = n" by (simp add: unat_of_nat)
  have nz: "(of_nat n :: 64 word) \<noteq> 0" using un al(2) pos by (metis unat_0 le_zero_eq less_numeral_extra(3))
  have "\<forall>x < flen s. file_view f x = fv s x" using al(4) by simp
  note im = img_ok_file [OF ok al(6) _ this] and te = entry_below [OF tab this]
  show thesis
    by (rule that [of n f]) (use al b un nz room(2) im te in \<open>simp_all add: qcow_cluster_alloc_def\<close>)
qed

text \<open>The new cluster with its contents, before it enters the table.\<close>

lemma filled_ok:
  assumes ok: "img_ok zinf L s" and n: "L \<le> n" "flen s = n + cluster_size s" and bs: "length bs = cluster_size s"
  shows "img_ok zinf L (s\<lparr>q_fd := stored (q_fd s) n bs\<rparr>)" "qcow_view zinf (s\<lparr>q_fd := stored (q_fd s) n bs\<rparr>) bk = qcow_view zinf s bk"
    "entry_of (s\<lparr>q_fd := stored (q_fd s) n bs\<rparr>) c = entry_of s c" "fd_len (stored (q_fd s) n bs) = flen s"
proof -
  have parts: "io_whole (q_fd s)" "L \<le> flen s" "tables_ok L s" using ok by (auto simp: img_ok_def)
  have v: "\<forall>x < L. file_view (stored (q_fd s) n bs) x = fv s x" using n(1) by (auto intro!: mem_write_out)
  have l: "L \<le> fd_len (stored (q_fd s) n bs)" using parts(2) stored_simps(3) le_trans by blast
  show "img_ok zinf L (s\<lparr>q_fd := stored (q_fd s) n bs\<rparr>)" "qcow_view zinf (s\<lparr>q_fd := stored (q_fd s) n bs\<rparr>) bk = qcow_view zinf s bk"
    using img_ok_file [OF ok _ l v] parts(1) by simp_all
  show "entry_of (s\<lparr>q_fd := stored (q_fd s) n bs\<rparr>) c = entry_of s c" by (rule entry_below [OF parts(3) v])
  show "fd_len (stored (q_fd s) n bs) = flen s" using n(2) bs by (auto simp: stored_def)
qed
text \<open>What the lookup for writing achieves for cluster \<open>c\<close>: a cluster at the end of the file that no other entry uses.\<close>

definition remapped :: "(byte list \<Rightarrow> nat \<Rightarrow> bool \<times> byte list) \<Rightarrow> qcow_state \<Rightarrow> nat \<Rightarrow> nat \<Rightarrow> qcow_state \<Rightarrow> bool" where
  "remapped zinf s c n s' \<longleftrightarrow> img_ok zinf (flen s') s' \<and> flen s \<le> n \<and> n < flen s + cluster_size s \<and> flen s' = n + cluster_size s
     \<and> (\<forall>d. entry_of s' d = (if d = c then of_nat n else entry_of s d)) \<and> geom s' = geom s \<and> l2_cache_counts s' = l2_cache_counts s
     \<and> (\<forall>bk x. qcow_view zinf s' bk x = (if x div cluster_size s = c \<and> entry_of s c = 0 then 0 else qcow_view zinf s bk x))"

lemma plain_mask: "\<not> is_comp e \<Longrightarrow> e AND NOT QCOW_OFLAG_COMPRESSED = e"
proof -
  assume "\<not> is_comp e"
  then have "\<not> bit (e AND QCOW_OFLAG_COMPRESSED) 63" by (simp add: is_comp_def)
  then have "\<not> bit e 63" by (simp only: bit_and_iff flag_bit) simp
  then show ?thesis by (intro bit_eqI) (auto simp only: bit_and_iff bit_not_iff flag_bit dest: impossible_bit)
qed

lemma in_table_ok:
  assumes ok: "img_ok zinf (flen s) s" and i: "i < l1_size s" "j < l2_size s" "l2_off s i \<noteq> 0" and k: "k < L2_CACHE_SIZE" "l2_cache_offsets s ! k = l2_off s i"
    and room: "flen s + 2 * cluster_size s < 2 ^ 63" "512 \<le> flen s"
  obtains n s' where "cluster_in_table zinf True s k (l2_off s i) j True = Some (of_nat n, s')" "remapped zinf s (i * l2_size s + j) n s'"
proof -
  note result = that
  let ?c = "i * l2_size s + j" and ?cs = "cluster_size s"
  have geo: "geom_ok s" and ents: "entries_ok zinf (flen s) s" using ok by (auto simp: img_ok_def)
  have g: "cluster_copied s = 0" "cluster_compressed s = QCOW_OFLAG_COMPRESSED" "cluster_mask s = NOT QCOW_OFLAG_COMPRESSED" using geo by (auto simp: geom_ok_def)
  have e: "be64_at (l2_cache s ! k) j = entry_of s ?c" by (rule slot_entry [OF ok i k])
  have csz: "?cs \<le> 2 ^ 31" "0 < ?cs" using geom_bounds(3,4) [OF geo] by simp_all
  have modlt: "x mod ?cs < ?cs" for x using csz(2) by simp
  text \<open>The common end: a filled cluster enters the table.\<close>
  have finish: thesis
    if run: "\<And>s'. map_cluster t k (l2_off s i) j (of_nat n) = Some (of_nat n, s') \<Longrightarrow> cluster_in_table zinf True s k (l2_off s i) j True = Some (of_nat n, s')"
      and t: "img_ok zinf (flen s) t" "geom t = geom s" "l2_cache_counts t = l2_cache_counts s" "l2_cache_offsets t = l2_cache_offsets s" "l2_off t i = l2_off s i"
        "\<forall>c. entry_of t c = entry_of s c" "\<And>bk. qcow_view zinf t bk = qcow_view zinf s bk" "flen t = n + ?cs"
      and n: "flen s \<le> n" "n < flen s + ?cs" "n + ?cs < 2 ^ 63" "512 \<le> n"
      and cont: "\<And>bk x. x div ?cs = ?c \<Longrightarrow> fv t (n + x mod ?cs) = (if entry_of s ?c = 0 then 0 else qcow_view zinf s bk x)" for t n
  proof -
    have gt: "l1_size t = l1_size s" "l2_size t = l2_size s" "cluster_size t = ?cs" using geomD [OF t(2)] by simp_all
    have ti: "i < l1_size t" "j < l2_size t" "l2_off t i \<noteq> 0" "l2_cache_offsets t ! k = l2_off t i" "flen t = n + cluster_size t" "n + cluster_size t < 2 ^ 63"
      using i k t(4,5,8) gt n(3) by simp_all
    obtain s' where s': "map_cluster t k (l2_off t i) j (of_nat n) = Some (of_nat n, s')" "img_ok zinf (flen s') s'" "flen s' = n + cluster_size t"
      "\<forall>d. entry_of s' d = (if d = i * l2_size t + j then of_nat n else entry_of t d)" "geom s' = geom t" "l2_cache_counts s' = l2_cache_counts t"
      "\<forall>bk x. qcow_view zinf s' bk x = (if x div cluster_size t = i * l2_size t + j then fv t (n + x mod cluster_size t) else qcow_view zinf t bk x)"
      using map_fresh [OF t(1) ti(1,2,3) k(1) ti(4) n(1,4) ti(5,6)] .
    have "\<forall>bk x. qcow_view zinf s' bk x = (if x div ?cs = ?c \<and> entry_of s ?c = 0 then 0 else qcow_view zinf s bk x)"
    proof (intro allI)
      fix bk x
      show "qcow_view zinf s' bk x = (if x div ?cs = ?c \<and> entry_of s ?c = 0 then 0 else qcow_view zinf s bk x)"
        using s'(7) cont [of x bk] t(7) [of bk] unfolding gt by (cases "x div ?cs = ?c") auto
    qed
    moreover have "\<forall>d. entry_of s' d = (if d = ?c then of_nat n else entry_of s d)" using s'(4) t(6) unfolding gt by simp
    moreover have "flen s' = n + ?cs" "geom s' = geom s" "l2_cache_counts s' = l2_cache_counts s" using s'(3,5,6) gt(3) t(2,3) by simp_all
    ultimately have "remapped zinf s ?c n s'" unfolding remapped_def using s'(2) n(1,2) by blast
    then show thesis using result [OF run] s'(1) t(5) by simp
  qed
  consider "entry_of s ?c = 0" | "is_comp (entry_of s ?c)" | "entry_of s ?c \<noteq> 0" "\<not> is_comp (entry_of s ?c)" by blast
  then show thesis
  proof cases
    case 1
    obtain n f where al: "qcow_cluster_alloc s = Some (of_nat n, s\<lparr>q_fd := f\<rparr>)" "(of_nat n :: 64 word) \<noteq> 0" "flen s \<le> n" "n < flen s + ?cs" "n + ?cs < 2 ^ 63" "512 \<le> n"
      "fd_len f = n + ?cs" "file_view f = fv s" "img_ok zinf (flen s) (s\<lparr>q_fd := f\<rparr>)" "\<forall>c. entry_of (s\<lparr>q_fd := f\<rparr>) c = entry_of s c"
      "\<forall>bk. qcow_view zinf (s\<lparr>q_fd := f\<rparr>) bk = qcow_view zinf s bk"
      using alloc_filled [OF ok room] by metis
    show thesis
      by (rule finish [of "s\<lparr>q_fd := f\<rparr>" n]) (use al 1 e beyond_end in \<open>simp_all add: cluster_in_table_def l2_off_def\<close>)
  next
    case 2
    let ?e = "entry_of s ?c"
    have L: "flen s < 2 ^ 63" using room(1) by linarith
    obtain f bs w where z: "decompress_cluster zinf s ?e = (True, rezcache s f bs w)" "bs = content zinf s ?e" "img_ok zinf (flen s) (rezcache s f bs w)"
        "file_view f = fv s" "fd_len f = flen s" "io_whole f"
      using decompress_ok [OF ok 2 L] .
    let ?s1 = "rezcache s f bs w"
    have s1: "flen ?s1 = flen s" "cluster_size ?s1 = ?cs" "cluster_cache ?s1 = bs" "l2_off ?s1 i = l2_off s i" "l2_cache_counts ?s1 = l2_cache_counts s"
      "l2_cache_offsets ?s1 = l2_cache_offsets s" using z(5) by (simp_all add: rezcache_def l2_off_def)
    note same = rezcache_same [OF z(4)]
    have ok1: "img_ok zinf (flen ?s1) ?s1" "flen ?s1 + 2 * cluster_size ?s1 < 2 ^ 63" "512 \<le> flen ?s1" using z(3) room s1 by simp_all
    obtain n f2 where al: "qcow_cluster_alloc ?s1 = Some (of_nat n, ?s1\<lparr>q_fd := f2\<rparr>)" "(of_nat n :: 64 word) \<noteq> 0" "unat (of_nat n :: 64 word) = n" "flen ?s1 \<le> n"
        "n < flen ?s1 + cluster_size ?s1" "n + cluster_size ?s1 < 2 ^ 63" "512 \<le> n" "fd_len f2 = n + cluster_size ?s1" "io_whole f2" "file_view f2 = fv ?s1"
        "img_ok zinf (flen ?s1) (?s1\<lparr>q_fd := f2\<rparr>)" "\<forall>bk. qcow_view zinf (?s1\<lparr>q_fd := f2\<rparr>) bk = qcow_view zinf ?s1 bk" "\<forall>c. entry_of (?s1\<lparr>q_fd := f2\<rparr>) c = entry_of ?s1 c"
      using alloc_filled [OF ok1] .
    have blen: "length bs = ?cs" using z(2) ents 2 comp_nonzero [OF 2] by (auto simp: entries_ok_def entry_ok_def)
    let ?f3 = "stored f2 n bs" and ?s2 = "?s1\<lparr>q_fd := f2\<rparr>"
    let ?t = "?s1\<lparr>q_fd := ?f3\<rparr>"
    have pw: "fd_pwrite f2 bs n = (int ?cs, ?f3)" using pwrite_whole [OF al(9), of bs n] blen csz al(6) by simp
    have fl: "img_ok zinf (flen ?s1) ?t" "qcow_view zinf ?t bk = qcow_view zinf ?s2 bk" "entry_of ?t c = entry_of ?s2 c" "fd_len ?f3 = fd_len f2" for bk c
      using filled_ok [OF al(11) al(4), of bs] al(8) blen s1(2) by (simp_all add: rezcache_def)
    show thesis
    proof (rule finish [of ?t n])
      fix s' assume m: "map_cluster ?t k (l2_off s i) j (of_nat n) = Some (of_nat n, s')"
      have "cluster_cache (?s1\<lparr>q_fd := f2\<rparr>) = bs" by (simp add: rezcache_def)
      then show "cluster_in_table zinf True s k (l2_off s i) j True = Some (of_nat n, s')"
        using 2 e z(1) al(1,2,3) pw m g comp_nonzero [OF 2] by (simp add: cluster_in_table_def is_comp_def)
    next
      show "fv ?t (n + x mod ?cs) = (if entry_of s ?c = 0 then 0 else qcow_view zinf s bk x)" if "x div ?cs = ?c" for bk x
        using that comp_nonzero [OF 2] modlt [of x] blen z(2) by (simp add: mem_write_in qcow_view_def)
    qed (use fl al s1 same in \<open>simp_all add: l2_off_def\<close>)
  next
    case 3
    let ?e = "entry_of s ?c"
    have eok: "entry_ok zinf (flen s) s ?e" using ents 3(1) by (auto simp: entries_ok_def)
    have x: "ext_start s ?e = unat ?e" "ext_len s ?e = ?cs" "content zinf s ?e = mem_read (fv s) (unat ?e) ?cs" "unat ?e + ?cs \<le> flen s"
      using 3(2) eok by (simp_all add: ext_start_def ext_len_def content_def entry_ok_def)
    obtain n f where al: "qcow_cluster_alloc s = Some (of_nat n, s\<lparr>q_fd := f\<rparr>)" "(of_nat n :: 64 word) \<noteq> 0" "unat (of_nat n :: 64 word) = n" "flen s \<le> n"
        "n < flen s + ?cs" "n + ?cs < 2 ^ 63" "512 \<le> n" "fd_len f = n + ?cs" "io_whole f" "file_view f = fv s"
      using alloc_filled [OF ok room] by metis
    let ?bs = "mem_read (fv s) (unat ?e) ?cs" and ?s1 = "s\<lparr>q_fd := next_call f\<rparr>"
    let ?f3 = "stored (next_call f) n ?bs"
    let ?t = "s\<lparr>q_fd := ?f3\<rparr>"
    have v: "\<forall>x < flen s. file_view (next_call f) x = fv s x" using al(10) by simp
    have one: "img_ok zinf (flen s) ?s1" "qcow_view zinf ?s1 bk = qcow_view zinf s bk" "entry_of ?s1 c = entry_of s c" for bk c
      using img_ok_file [OF ok _ _ v] entry_below [of "flen s" s "next_call f"] v ok al(4,8,9) by (simp_all add: img_ok_def)
    have pr: "fd_pread f ?cs (unat ?e) = (int ?cs, ?bs, next_call f)"
      using pread_whole [OF al(9), of "unat ?e" ?cs] x(4) al(4,6,8,10) csz by simp
    have pw: "fd_pwrite (next_call f) ?bs n = (int ?cs, ?f3)" using pwrite_whole [of "next_call f" ?bs n] csz al(6,9) by simp
    have fl: "img_ok zinf (flen s) ?t" "qcow_view zinf ?t bk = qcow_view zinf ?s1 bk" "entry_of ?t c = entry_of ?s1 c" "fd_len ?f3 = fd_len f" for bk c
      using filled_ok [OF one(1) al(4), of ?bs] al(8) by simp_all
    show thesis
    proof (rule finish [of ?t n])
      fix s' assume m: "map_cluster ?t k (l2_off s i) j (of_nat n) = Some (of_nat n, s')"
      show "cluster_in_table zinf True s k (l2_off s i) j True = Some (of_nat n, s')"
        using 3 e al(1,2,3) pr pw m g plain_mask [OF 3(2)] by (simp add: cluster_in_table_def is_comp_def)
    next
      show "fv ?t (n + x mod ?cs) = (if entry_of s ?c = 0 then 0 else qcow_view zinf s bk x)" if "x div ?cs = ?c" for bk x
        using that 3(1) modlt [of x] x(3) by (simp add: mem_write_in qcow_view_def)
    qed (use fl al one in \<open>simp_all add: l2_off_def\<close>)
  qed
qed
lemma lookup_indices:
  assumes "geom_ok s" "x div cluster_size s < clusters s"
  defines "c \<equiv> x div cluster_size s"
  shows "u32 (x div 2 ^ (l2_bits s + cluster_bits s)) = c div l2_size s" "x div 2 ^ cluster_bits s mod l2_size s = c mod l2_size s"
    "c div l2_size s < l1_size s" "c mod l2_size s < l2_size s" "c div l2_size s * l2_size s + c mod l2_size s = c"
proof -
  have g: "cluster_size s = 2 ^ cluster_bits s" "l2_size s = 2 ^ l2_bits s" "l1_size s < 2 ^ 28" using assms(1) by (auto simp: geom_ok_def)
  show i: "c div l2_size s < l1_size s" using assms(2) by (simp add: c_def less_mult_imp_div_less)
  have "x div 2 ^ (l2_bits s + cluster_bits s) = c div l2_size s" unfolding c_def g power_add by (metis div_mult2_eq mult.commute)
  then show "u32 (x div 2 ^ (l2_bits s + cluster_bits s)) = c div l2_size s" using i g(3) by (simp add: u32_id)
  show "x div 2 ^ cluster_bits s mod l2_size s = c mod l2_size s" by (simp add: c_def g(1))
  show "c mod l2_size s < l2_size s" by (simp add: g(2))
  show "c div l2_size s * l2_size s + c mod l2_size s = c" by simp
qed

lemma hits_left_counts: "l2_cache_counts s' = l2_cache_counts s \<Longrightarrow> hits_left n s' = hits_left n s" "hits_left (Suc n) s \<Longrightarrow> hits_left n s"
  by (auto simp: hits_left_def)

text \<open>The lookup for writing, from the whole image.\<close>

definition fresh_cluster :: "(byte list \<Rightarrow> nat \<Rightarrow> bool \<times> byte list) \<Rightarrow> qcow_state \<Rightarrow> nat \<Rightarrow> nat \<Rightarrow> qcow_state \<Rightarrow> bool" where
  "fresh_cluster zinf s c n s' \<longleftrightarrow> img_ok zinf (flen s') s' \<and> flen s \<le> n \<and> flen s' = n + cluster_size s \<and> flen s' \<le> flen s + 2 * l2_bytes s + 2 * cluster_size s
     \<and> (\<forall>d. entry_of s' d = (if d = c then of_nat n else entry_of s d)) \<and> geom s' = geom s
     \<and> (\<forall>bk x. qcow_view zinf s' bk x = (if x div cluster_size s = c \<and> entry_of s c = 0 then 0 else qcow_view zinf s bk x))"

lemma lookup_write:
  assumes ok: "img_ok zinf (flen s) s" and x: "x div cluster_size s < clusters s" and hits: "hits_left (Suc h) s"
    and room: "flen s + 2 * l2_bytes s + 2 * cluster_size s < 2 ^ 63" "512 \<le> flen s"
  obtains n s' where "get_cluster_offset zinf True s x True = Some (of_nat n, s')" "fresh_cluster zinf s (x div cluster_size s) n s'" "hits_left h s'"
proof -
  let ?c = "x div cluster_size s"
  let ?i = "?c div l2_size s" and ?j = "?c mod l2_size s"
  have geo: "geom_ok s" using ok by (simp add: img_ok_def)
  note ix = lookup_indices [OF geo x]
  have r1: "flen s + 2 * l2_bytes s < 2 ^ 63" "0 < flen s" using room by linarith+
  obtain o1 s1 where t: "l2_table_of s ?i True = Some (o1, s1)" "o1 \<noteq> 0" "l2_off s1 ?i = o1" "img_ok zinf (flen s1) s1"
      "\<forall>bk. qcow_view zinf s1 bk = qcow_view zinf s bk" "\<forall>c. entry_of s1 c = entry_of s c" "geom s1 = geom s" "l2_cache_counts s1 = l2_cache_counts s"
      "flen s \<le> flen s1" "flen s1 \<le> flen s + 2 * l2_bytes s"
    using table_of_ok [OF ok ix(3) r1] .
  have g1: "l1_size s1 = l1_size s" "l2_size s1 = l2_size s" "cluster_size s1 = cluster_size s" using geomD [OF t(7)] by simp_all
  have i1: "?i < l1_size s1" "l2_off s1 ?i \<noteq> 0" "flen s1 < 2 ^ 63" using ix(3) t(2,3,10) g1 room by simp_all
  have h1: "hits_left (Suc h) s1" using hits hits_left_counts(1) [OF t(8)] by simp
  obtain k f cs os ks where l: "l2_cache_lookup s1 (l2_off s1 ?i) = Some (Some k, recache s1 f cs os ks)" "k < L2_CACHE_SIZE" "os ! k = l2_off s1 ?i"
      "cs ! k = mem_read (fv s1) (unat (l2_off s1 ?i)) (l2_bytes s1)" "file_view f = fv s1" "io_whole f" "fd_len f = flen s1"
      "cache_ok (recache s1 f cs os ks)" "hits_left h (recache s1 f cs os ks)"
    using l2_lookup_ok [OF t(4) i1 h1] .
  let ?s2 = "recache s1 f cs os ks"
  have fl: "flen s1 \<le> fd_len f" using l(7) by simp
  note rc = recache_ok [OF t(4) l(6) fl l(5) l(8)]
  have s2: "img_ok zinf (flen ?s2) ?s2" "?i < l1_size ?s2" "?j < l2_size ?s2" "l2_off ?s2 ?i \<noteq> 0" "l2_cache_offsets ?s2 ! k = l2_off ?s2 ?i"
      "flen ?s2 + 2 * cluster_size ?s2 < 2 ^ 63" "512 \<le> flen ?s2"
    using rc(1) l(3,7) i1 ix g1 room t(9,10) by simp_all
  obtain n s' where m: "cluster_in_table zinf True ?s2 k (l2_off ?s2 ?i) ?j True = Some (of_nat n, s')" "remapped zinf ?s2 (?i * l2_size ?s2 + ?j) n s'"
    using in_table_ok [OF s2(1-4) l(2) s2(5-7)] .
  have c: "?i * l2_size ?s2 + ?j = ?c" using ix(5) g1 by simp
  have "get_cluster_offset zinf True s x True = Some (of_nat n, s')"
    using t(1,2,3) l(1) m(1) ix(1,2) by (simp add: get_cluster_offset_def Let_def)
  moreover have "fresh_cluster zinf s ?c n s'"
    using m(2) rc(2,3) t g1 l(7) unfolding remapped_def fresh_cluster_def c by auto
  moreover have "hits_left h s'" using m(2) l(9) hits_left_counts(1) [of s' ?s2] by (simp add: remapped_def)
  ultimately show thesis by (rule that)
qed

text \<open>The lookup for reading gives the entry.\<close>

lemma lookup_read:
  assumes ok: "img_ok zinf (flen s) s" and x: "x div cluster_size s < clusters s" and hits: "hits_left (Suc h) s" and L: "flen s < 2 ^ 63"
  obtains s' where "get_cluster_offset zinf True s x False = Some (entry_of s (x div cluster_size s), s')" "img_ok zinf (flen s') s'" "hits_left h s'"
    "geom s' = geom s" "\<forall>c. entry_of s' c = entry_of s c" "fv s' = fv s" "flen s' = flen s" "cluster_compressed s' = cluster_compressed s"
    "\<forall>bk. qcow_view zinf s' bk = qcow_view zinf s bk"
proof -
  let ?c = "x div cluster_size s"
  let ?i = "?c div l2_size s" and ?j = "?c mod l2_size s"
  have geo: "geom_ok s" using ok by (simp add: img_ok_def)
  note ix = lookup_indices [OF geo x]
  show thesis
  proof (cases "l2_off s ?i = 0")
    case True
    then have "entry_of s ?c = 0" by (simp add: entry_of_def)
    moreover have "get_cluster_offset zinf True s x False = Some (0, s)"
      using True ix(1,3) by (simp add: get_cluster_offset_def l2_table_of_def l2_off_def Let_def)
    ultimately show thesis using that [of s] ok hits_left_counts(2) [OF hits] by simp
  next
    case False
    obtain k f cs os ks where l: "l2_cache_lookup s (l2_off s ?i) = Some (Some k, recache s f cs os ks)" "k < L2_CACHE_SIZE" "os ! k = l2_off s ?i"
        "cs ! k = mem_read (fv s) (unat (l2_off s ?i)) (l2_bytes s)" "file_view f = fv s" "io_whole f" "fd_len f = flen s"
        "cache_ok (recache s f cs os ks)" "hits_left h (recache s f cs os ks)"
      using l2_lookup_ok [OF ok ix(3) False L hits] .
    let ?s2 = "recache s f cs os ks"
    have fl: "flen s \<le> fd_len f" using l(7) by simp
    note rc = recache_ok [OF ok l(6) fl l(5) l(8)]
    have s2: "img_ok zinf (flen s) ?s2" "?i < l1_size ?s2" "?j < l2_size ?s2" "l2_off ?s2 ?i \<noteq> 0" "l2_cache_offsets ?s2 ! k = l2_off ?s2 ?i"
      using rc(1) l(3) ix False by simp_all
    have e: "be64_at (cs ! k) ?j = entry_of s ?c" using slot_entry [OF s2(1-4) l(2) s2(5)] rc(2) ix(5) by simp
    have g: "cluster_copied ?s2 = 0" using s2(1) by (auto simp: img_ok_def geom_ok_def)
    have "get_cluster_offset zinf True s x False = Some (entry_of s ?c, ?s2)"
      using ix(1-3) False l(1) e g by (simp add: get_cluster_offset_def l2_table_of_def l2_off_def [symmetric] Let_def cluster_in_table_def)
    moreover have "cluster_compressed ?s2 = cluster_compressed s" by (simp add: recache_def)
    ultimately show thesis using that [of ?s2] rc l by simp
  qed
qed

end
