(* ===== verification/Qcow_Disk.thy ===== *)
theory Qcow_Disk
  imports Qcow_Lookup
begin

unbundle bit_operations_syntax

text \<open>
  Reading and writing a QCOW image of version 1 against the disk it stands for: a write through \<open>qcow_pwritev\<close> is a write to
  that disk, and a read through \<open>qcow_preadv\<close> returns its bytes.
\<close>

section \<open>Writing into a cluster\<close>

lemma ext_geom:
  assumes "geom_ok s" "geom_ok s'" "geom s' = geom s"
  shows "ext_start s' e = ext_start s e" "ext_len s' e = ext_len s e"
proof -
  have "cluster_offset_mask s' = cluster_offset_mask s" "cluster_bits s' = cluster_bits s" "cluster_size s' = cluster_size s"
    using assms geomD [OF assms(3)] by (auto simp: geom_ok_def)
  then show "ext_start s' e = ext_start s e" "ext_len s' e = ext_len s e" by (simp_all add: ext_start_def ext_len_def)
qed

lemma cluster_write_ok:
  assumes ok: "img_ok zinf L s" and c: "entry_of s c = of_nat n" "n + cluster_size s < 2 ^ 63" "512 \<le> n" "n + cluster_size s \<le> flen s"
    and alone: "\<And>d. d \<noteq> c \<Longrightarrow> entry_of s d \<noteq> 0 \<Longrightarrow> ext_start s (entry_of s d) + ext_len s (entry_of s d) \<le> n"
    and w: "n \<le> w" "w + length bs \<le> n + cluster_size s"
  defines "s' \<equiv> s\<lparr>q_fd := stored (q_fd s) w bs\<rparr>"
  shows "img_ok zinf L s'" "entry_of s' d = entry_of s d" "flen s' = flen s"
    "qcow_view zinf s' bk x = (if x div cluster_size s = c then mem_write (fv s) w bs (n + x mod cluster_size s) else qcow_view zinf s bk x)"
proof -
  have parts: "geom_ok s" "tables_ok L s" "entries_ok zinf L s" "cache_ok s" "zcache_ok zinf s" "comp_unique s" "io_whole (q_fd s)" "L \<le> flen s"
    using ok by (auto simp: img_ok_def)
  have un: "unat (of_nat n :: 64 word) = n" using c(2) by (simp add: unat_of_nat)
  have nz: "(of_nat n :: 64 word) \<noteq> 0" using un c(3) by (metis unat_0 not_numeral_le_zero)
  have plain: "\<not> is_comp (of_nat n)" using mask_small(2) c(2) by simp
  have ec: "entry_ok zinf L s (of_nat n)" using parts(3) c(1) nz by (metis entries_ok_def)
  have xc: "ext_start s (of_nat n) = n" "ext_len s (of_nat n) = cluster_size s" using plain un by (simp_all add: ext_start_def ext_len_def)
  have keep: "mem_read (fv s') a k = mem_read (fv s) a k" if "apart a k n (cluster_size s)" for a k
    using that w by (auto simp: s'_def apart_def intro!: mem_read_write_other)
  have l2 [simp]: "l2_off s' i = l2_off s i" "ext_start s' e = ext_start s e" "ext_len s' e = ext_len s e" for i e
    by (simp_all add: s'_def l2_off_def ext_start_def ext_len_def)
  have sizes [simp]: "l1_size s' = l1_size s" "l2_size s' = l2_size s" "cluster_size s' = cluster_size s" "l1_table_offset s' = l1_table_offset s"
    "q_l1_table s' = q_l1_table s" "l2_cache s' = l2_cache s" "l2_cache_offsets s' = l2_cache_offsets s" "l2_cache_counts s' = l2_cache_counts s"
    "cluster_cache s' = cluster_cache s" "cluster_cache_offset s' = cluster_cache_offset s" "cluster_offset_mask s' = cluster_offset_mask s"
    by (simp_all add: s'_def)
  have tab: "mem_read (fv s') (unat (l2_off s i)) (l2_bytes s) = mem_read (fv s) (unat (l2_off s i)) (l2_bytes s)" if "i < l1_size s" "l2_off s i \<noteq> 0" for i
    using keep ec that xc by (simp add: entry_ok_def)
  have l1: "mem_read (fv s') (l1_table_offset s) (8 * l1_size s) = mem_read (fv s) (l1_table_offset s) (8 * l1_size s)"
    using keep ec xc by (simp add: entry_ok_def)
  have ent: "entry_of s' d = entry_of s d" for d
  proof (cases "d < clusters s \<and> l2_off s (d div l2_size s) \<noteq> 0")
    case True
    then have "d div l2_size s < l1_size s" by (simp add: less_mult_imp_div_less)
    then show ?thesis using tab True by (simp add: entry_of_def)
  qed (auto simp: entry_of_def Let_def)
  have other: "ext_bytes s' (entry_of s d) = ext_bytes s (entry_of s d)" if "d \<noteq> c" "entry_of s d \<noteq> 0" for d
    using keep alone [OF that] by (simp add: apart_def)
  have cont: "content zinf s' (entry_of s d) = content zinf s (entry_of s d)" if "d \<noteq> c" "entry_of s d \<noteq> 0" for d
    using other [OF that] by (simp add: content_def)
  have fl: "flen s' = flen s" using w c(4) by (auto simp: s'_def stored_def)
  show "entry_of s' d = entry_of s d" "flen s' = flen s" by (fact ent fl)+
  have "tables_ok L s'" using parts(2) l1 by (simp add: tables_ok_def)
  moreover have "entries_ok zinf L s'"
    unfolding entries_ok_def ent
  proof (intro allI impI)
    fix d assume d: "entry_of s d \<noteq> 0"
    then have "entry_ok zinf L s (entry_of s d)" using parts(3) by (simp add: entries_ok_def)
    then show "entry_ok zinf L s' (entry_of s d)"
      using other [OF _ d] cont [OF _ d] plain c(1) by (cases "d = c") (simp_all add: entry_ok_def)
  qed
  moreover have "comp_unique s'" using parts(6) unfolding comp_unique_def ent l2 .
  moreover have "zcache_ok zinf s'"
  proof -
    have "content zinf s' (entry_of s d) = content zinf s (entry_of s d)" if "is_comp (entry_of s d)" for d
      using cont that plain c(1) comp_nonzero by metis
    then show ?thesis using parts(5) by (simp add: zcache_ok_def ent)
  qed
  moreover have "cache_ok s'"
  proof -
    have "slot_ok s' k" if "slot_ok s k" "l2_cache_offsets s ! k \<noteq> 0" for k
      using that tab by (auto simp: slot_ok_def)
    then show ?thesis using parts(4) by (simp add: cache_ok_def)
  qed
  ultimately show "img_ok zinf L s'" using parts(1,7,8) fl by (simp add: img_ok_def s'_def)
  have "x mod cluster_size s < cluster_size s" using geom_bounds(4) [OF parts(1)] by simp
  then show "qcow_view zinf s' bk x = (if x div cluster_size s = c then mem_write (fv s) w bs (n + x mod cluster_size s) else qcow_view zinf s bk x)"
    using cont c(1) nz plain xc by (auto simp: qcow_view_def ent content_def Let_def) (simp add: s'_def)
qed

text \<open>The clusters that a write of \<open>n\<close> bytes at \<open>a\<close> touches; holes among them are filled with zeros before the write.\<close>

definition touched :: "qcow_state \<Rightarrow> nat \<Rightarrow> nat \<Rightarrow> nat \<Rightarrow> bool" where
  "touched s a n d \<longleftrightarrow> 0 < n \<and> d * cluster_size s < a + n \<and> a < d * cluster_size s + cluster_size s"

definition holes_zeroed :: "(byte list \<Rightarrow> nat \<Rightarrow> bool \<times> byte list) \<Rightarrow> qcow_state \<Rightarrow> nat \<Rightarrow> nat \<Rightarrow> mem \<Rightarrow> mem" where
  "holes_zeroed zinf s a n bk x =
     (if touched s a n (x div cluster_size s) \<and> entry_of s (x div cluster_size s) = 0 then 0 else qcow_view zinf s bk x)"

definition disk_written :: "(byte list \<Rightarrow> nat \<Rightarrow> bool \<times> byte list) \<Rightarrow> qcow_state \<Rightarrow> nat \<Rightarrow> byte list \<Rightarrow> qcow_state \<Rightarrow> bool" where
  "disk_written zinf s a bs s' \<longleftrightarrow> img_ok zinf (flen s') s' \<and> geom s' = geom s \<and> flen s \<le> flen s'
     \<and> (\<forall>bk. qcow_view zinf s' bk = mem_write (holes_zeroed zinf s a (length bs) bk) a bs)
     \<and> (\<forall>d. entry_of s' d = 0 \<longleftrightarrow> entry_of s d = 0 \<and> \<not> touched s a (length bs) d)"

lemma written_none: "img_ok zinf (flen s) s \<Longrightarrow> disk_written zinf s a [] s"
  by (simp add: disk_written_def touched_def holes_zeroed_def fun_eq_iff)

lemma touched_append:
  "cluster_size s' = cluster_size s \<Longrightarrow> 0 < cluster_size s \<Longrightarrow> 0 < n \<Longrightarrow> touched s a (n + k) d \<longleftrightarrow> touched s a n d \<or> touched s' (a + n) k d"
  by (cases "k = 0") (auto simp: touched_def)

lemma touched_hit: "0 < cluster_size s \<Longrightarrow> a \<le> x \<Longrightarrow> x < a + n \<Longrightarrow> touched s a n (x div cluster_size s)"
proof -
  assume "0 < cluster_size s" "a \<le> x" "x < a + n"
  moreover have "x div cluster_size s * cluster_size s \<le> x" by simp
  moreover have "x < x div cluster_size s * cluster_size s + cluster_size s" using dividend_less_div_times [OF \<open>0 < cluster_size s\<close>, of x] by simp
  ultimately show ?thesis unfolding touched_def by linarith
qed

lemma written_trans:
  assumes "disk_written zinf s a bs s1" "disk_written zinf s1 (a + length bs) cs s'" "bs \<noteq> []" "0 < cluster_size s"
  shows "disk_written zinf s a (bs @ cs) s'"
proof -
  have g: "cluster_size s1 = cluster_size s" using assms(1) geomD [of s1 s] by (simp add: disk_written_def)
  have t: "touched s a (length bs + length cs) d \<longleftrightarrow> touched s a (length bs) d \<or> touched s1 (a + length bs) (length cs) d" for d
    using touched_append [OF g assms(4)] assms(3) by simp
  have e1: "entry_of s1 d = 0 \<longleftrightarrow> entry_of s d = 0 \<and> \<not> touched s a (length bs) d"
    and v1: "qcow_view zinf s1 bk = mem_write (holes_zeroed zinf s a (length bs) bk) a bs" for bk d
    using assms(1) by (auto simp: disk_written_def)
  have "mem_write (holes_zeroed zinf s1 (a + length bs) (length cs) bk) (a + length bs) cs = mem_write (holes_zeroed zinf s a (length (bs @ cs)) bk) a (bs @ cs)" for bk
  proof
    fix x
    let ?d = "x div cluster_size s"
    consider "x < a \<or> a + length bs + length cs \<le> x" | "a + length bs \<le> x" "x < a + length bs + length cs" | "a \<le> x" "x < a + length bs" by linarith
    then show "mem_write (holes_zeroed zinf s1 (a + length bs) (length cs) bk) (a + length bs) cs x = mem_write (holes_zeroed zinf s a (length (bs @ cs)) bk) a (bs @ cs) x"
    proof cases
      case 1
      then have out: "mem_write m a bs x = m x" "mem_write m (a + length bs) cs x = m x" "mem_write m a (bs @ cs) x = m x" for m
        by (auto intro!: mem_write_out)
      show ?thesis unfolding out using t [of ?d] e1 [of ?d] v1 by (auto simp: out holes_zeroed_def g)
    next
      case 2
      then show ?thesis by (auto simp: mem_write_in nth_append)
    next
      case 3
      then have "touched s a (length bs) ?d" by (intro touched_hit [OF assms(4)])
      then show ?thesis using 3 e1 [of ?d] v1 by (auto simp: mem_write_out mem_write_in nth_append holes_zeroed_def g)
    qed
  qed
  then show ?thesis using assms(1,2) t e1 by (auto simp: disk_written_def)
qed
lemma sector_sizes:
  assumes "geom_ok s"
  shows "cluster_size s = cluster_sectors s * 512" "cluster_size s \<le> 2 ^ 31" "0 < cluster_size s"
proof -
  have g: "cluster_size s = 2 ^ cluster_bits s" "cluster_sectors s = 2 ^ (cluster_bits s - 9)" "9 \<le> cluster_bits s" using assms by (auto simp: geom_ok_def)
  moreover have "(2 :: nat) ^ cluster_bits s = 2 ^ (cluster_bits s - 9) * 2 ^ 9" using g(3) by (metis le_add_diff_inverse2 power_add)
  ultimately show "cluster_size s = cluster_sectors s * 512" by simp
qed (use geom_bounds(3,4) [OF assms] in simp_all)

text \<open>One piece.\<close>

lemma write_piece_ok:
  assumes ok: "img_ok zinf (flen s) s" and x: "sn * 512 div cluster_size s < clusters s" and hits: "hits_left (Suc h) s" and mok: "mok sn"
    and room: "flen s + 2 * l2_bytes s + 2 * cluster_size s < 2 ^ 63" "512 \<le> flen s"
    and n: "0 < n" "sn mod cluster_sectors s + n \<le> cluster_sectors s" "iov_total seg = n * 512"
  obtains s' where "write_piece zinf mok s m seg (sn mod cluster_sectors s) sn off = Some (None, s')" "disk_written zinf s (sn * 512) (gather m seg) s'"
    "hits_left h s'" "flen s' \<le> flen s + 2 * l2_bytes s + 2 * cluster_size s"
proof -
  let ?a = "sn * 512" and ?cs = "cluster_size s" and ?bs = "gather m seg"
  let ?c = "?a div ?cs"
  have geo: "geom_ok s" using ok by (simp add: img_ok_def)
  note cs = sector_sizes [OF geo]
  have am: "?a mod ?cs = sn mod cluster_sectors s * 512" unfolding cs(1) by (simp add: mult_mod_right [symmetric] mult.commute)
  have fit: "?a mod ?cs + length ?bs \<le> ?cs" using n unfolding am cs(1) by (simp flip: add_mult_distrib)
  obtain k s1 where l: "get_cluster_offset zinf True s ?a True = Some (of_nat k, s1)" "fresh_cluster zinf s ?c k s1" "hits_left h s1"
    using lookup_write [OF ok x hits room] .
  have f: "img_ok zinf (flen s1) s1" "flen s \<le> k" "flen s1 = k + ?cs" "flen s1 \<le> flen s + 2 * l2_bytes s + 2 * ?cs" "geom s1 = geom s"
      "entry_of s1 d = (if d = ?c then of_nat k else entry_of s d)" for d using l(2) by (auto simp: fresh_cluster_def)
  have v: "qcow_view zinf s1 bk y = (if y div ?cs = ?c \<and> entry_of s ?c = 0 then 0 else qcow_view zinf s bk y)" for bk y
    using l(2) by (simp add: fresh_cluster_def)
  have g1: "cluster_size s1 = ?cs" "geom_ok s1" using geomD [OF f(5)] f(1) by (auto simp: img_ok_def)
  have kb: "k + ?cs < 2 ^ 63" "512 \<le> k" using f(2-4) room by linarith+
  have un: "unat (of_nat k :: 64 word) = k" using kb by (simp add: unat_of_nat)
  have nz: "(of_nat k :: 64 word) \<noteq> 0" using un kb(2) by (metis unat_0 not_numeral_le_zero)
  have plain: "\<not> is_comp (of_nat k)" using mask_small(2) kb by simp
  let ?w = "k + ?a mod ?cs"
  have pos: "unat (of_nat k + of_nat (sn mod cluster_sectors s * 512) :: 64 word) = ?w"
  proof -
    have "?a mod ?cs < ?cs" using cs(3) by simp
    then have "?w < 2 ^ 64" using kb by simp
    then show ?thesis unfolding am [symmetric] of_nat_add [symmetric] by (simp add: unat_of_nat del: of_nat_add)
  qed
  have wb: "?w < 2 ^ 63" using kb mod_less_divisor [OF cs(3), of ?a] by linarith
  have tot: "iov_total seg \<le> 2 ^ 31" using fit cs(2) by simp
  let ?s = "s1\<lparr>q_fd := stored (q_fd s1) ?w ?bs\<rparr>"
  have io: "io_whole (q_fd s1)" using f(1) by (simp add: img_ok_def)
  have run: "write_piece zinf mok s m seg (sn mod cluster_sectors s) sn off = Some (None, ?s)"
    using l(1) mok nz plain pos pwritev_whole [OF io tot wb, of m] by (simp add: write_piece_def is_comp_def)
  have alone: "ext_start s1 (entry_of s1 d) + ext_len s1 (entry_of s1 d) \<le> k" if "d \<noteq> ?c" "entry_of s1 d \<noteq> 0" for d
  proof -
    have "entry_ok zinf (flen s) s (entry_of s d)" using ok that f(6) by (simp add: img_ok_def entries_ok_def)
    then show ?thesis using that f(2,6) ext_geom [OF geo g1(2) f(5)] by (simp add: entry_ok_def)
  qed
  have e: "entry_of s1 ?c = of_nat k" "k + cluster_size s1 < 2 ^ 63" "k + cluster_size s1 \<le> flen s1" "k \<le> ?w" "?w + length ?bs \<le> k + cluster_size s1"
    using f(3,6) kb fit g1(1) by simp_all
  note cw = cluster_write_ok [OF f(1) e(1,2) kb(2) e(3) alone e(4,5)]
  have bs: "0 < length ?bs" using n by simp
  have at: "?a = ?c * ?cs + ?a mod ?cs" by simp
  have touch: "touched s ?a (length ?bs) d \<longleftrightarrow> d = ?c" for d
  proof
    assume "touched s ?a (length ?bs) d"
    then have "d * ?cs < (?c + 1) * ?cs" "?c * ?cs < (d + 1) * ?cs" using fit at unfolding touched_def add_mult_distrib by linarith+
    then have "d < ?c + 1" "?c < d + 1" using mult_less_cancel2 by blast+
    then show "d = ?c" by linarith
  qed (use touched_hit [OF cs(3), of ?a ?a] bs in simp)
  have view: "qcow_view zinf ?s bk y = mem_write (holes_zeroed zinf s ?a (length ?bs) bk) ?a ?bs y" for bk y
  proof (cases "y div ?cs = ?c")
    case True
    then have y: "y = ?c * ?cs + y mod ?cs" by (metis div_mult_mod_eq)
    have "fv s1 (k + y mod ?cs) = qcow_view zinf s1 bk y"
      using True e(1) nz plain un mod_less_divisor [OF cs(3), of y] g1(1) by (simp add: qcow_view_def content_def ext_start_def ext_len_def)
    moreover have "mem_write m1 ?w ?bs (k + y mod ?cs) = (if ?a \<le> y \<and> y < ?a + length ?bs then ?bs ! (y - ?a) else m1 (k + y mod ?cs))" for m1
    proof -
      have "?w \<le> k + y mod ?cs \<longleftrightarrow> ?a \<le> y" "k + y mod ?cs < ?w + length ?bs \<longleftrightarrow> y < ?a + length ?bs" "k + y mod ?cs - ?w = y - ?a"
        using y at by linarith+
      then show ?thesis by (auto simp: mem_write_def)
    qed
    ultimately show ?thesis using True cw(4) [of bk y] v [of bk y] g1(1) touch by (auto simp: mem_write_def holes_zeroed_def)
  next
    case False
    then have "y < ?a \<or> ?a + length ?bs \<le> y" using touch touched_hit [OF cs(3), of ?a y] not_le by blast
    then show ?thesis using False cw(4) [of bk y] v [of bk y] g1(1) touch by (simp add: mem_write_out holes_zeroed_def)
  qed
  have "disk_written zinf s ?a ?bs ?s"
    unfolding disk_written_def
  proof (intro conjI allI)
    show "img_ok zinf (flen ?s) ?s" using cw(1,3) by simp
    show "geom ?s = geom s" using f(5) by simp
    show "flen s \<le> flen ?s" using cw(3) f(2,3) by simp
    show "qcow_view zinf ?s bk = mem_write (holes_zeroed zinf s ?a (length ?bs) bk) ?a ?bs" for bk by (rule ext) (rule view)
    show "entry_of ?s d = 0 \<longleftrightarrow> entry_of s d = 0 \<and> \<not> touched s ?a (length ?bs) d" for d using cw(2) f(6) nz touch by simp
  qed
  then show thesis using that [of ?s] run l(3) cw(3) f(4) hits_left_counts(1) [of ?s s1] by simp
qed

text \<open>What one piece may add to the file: a new L2 table and a new cluster, each with its alignment.\<close>

abbreviation growth :: "qcow_state \<Rightarrow> nat" where "growth s \<equiv> 2 * l2_bytes s + 2 * cluster_size s"

lemma geom_sizes: "geom s' = geom s \<Longrightarrow> growth s' = growth s \<and> clusters s' = clusters s \<and> cluster_size s' = cluster_size s
   \<and> cluster_sectors s' = cluster_sectors s \<and> q_size s' = q_size s"
  using geomD [of s' s] by simp

lemma sector_in_range:
  assumes "geom_ok s" "sn < q_size s div 512"
  shows "sn * 512 div cluster_size s < clusters s"
proof -
  have "q_size s \<le> clusters s * cluster_size s" using assms(1) by (auto simp: geom_ok_def)
  then have "sn * 512 < clusters s * cluster_size s" using assms(2) by linarith
  then show ?thesis by (simp add: less_mult_imp_div_less)
qed

lemma take_drop_split: "a + b = c \<Longrightarrow> take c (drop off zs) = take a (drop off zs) @ take b (drop (off + a) zs)"
  by (auto simp: take_add add.commute)

lemma hits_left_mono: "hits_left (k + n) s \<Longrightarrow> hits_left k s"
  unfolding hits_left_def by (metis add.assoc add_lessD1)

lemma write_loop_ok:
  assumes "img_ok zinf (flen s) s" "hits_left (k + count) s" "\<forall>k. mok k" "flen s + count * growth s < 2 ^ 63" "512 \<le> flen s"
    "sn + count \<le> q_size s div 512" "off + count * 512 \<le> iov_total iov"
  shows "\<exists>s'. qcow_write_loop zinf mok s m iov count sn off = Some (transfer_result (off + count * 512), s')
    \<and> disk_written zinf s (sn * 512) (take (count * 512) (drop off (gather m iov))) s' \<and> hits_left k s' \<and> flen s' \<le> flen s + count * growth s"
  using assms
proof (induction zinf mok s m iov count sn off rule: qcow_write_loop.induct)
  case (1 zinf mok s m iov count sn off)
  note IH = 1(1) and prems = 1(2-)
  show ?case
  proof (cases "count = 0")
    case True
    then show ?thesis using prems(1,2) written_none by (simp add: qcow_write_loop.simps)
  next
    case False
    let ?si = "sn mod cluster_sectors s"
    let ?n = "min count (cluster_sectors s - ?si)"
    have geo: "geom_ok s" using prems(1) by (simp add: img_ok_def)
    have pos: "0 < cluster_sectors s" "0 < cluster_size s" using geo by (auto simp: geom_ok_def)
    have n: "0 < ?n" "?si + ?n \<le> cluster_sectors s" "?n \<le> count" using False pos(1) mod_less_divisor [OF pos(1), of sn] by (simp_all del: mod_less_divisor)
    have "off + ?n * 512 \<le> iov_total iov" using n(3) prems(7) by simp
    then obtain seg where seg: "iovec_segment iov off (?n * 512) = Some seg" "iov_addrs seg = take (?n * 512) (drop off (iov_addrs iov))" "iov_total seg = ?n * 512"
      using segment_spec by blast
    have g: "gather m seg = take (?n * 512) (drop off (gather m iov))" by (rule gather_segment [OF seg(2)])
    obtain h where h: "count = Suc h" using False by (cases count) simp_all
    have room: "flen s + 2 * l2_bytes s + 2 * cluster_size s < 2 ^ 63" using prems(4) unfolding h by simp
    have rng: "sn * 512 div cluster_size s < clusters s" using sector_in_range [OF geo] prems(6) False by simp
    obtain s1 where p: "write_piece zinf mok s m seg ?si sn off = Some (None, s1)" "disk_written zinf s (sn * 512) (gather m seg) s1"
        "hits_left (k + h) s1" "flen s1 \<le> flen s + 2 * l2_bytes s + 2 * cluster_size s"
      using write_piece_ok [OF prems(1) rng prems(2) [unfolded h add_Suc_right] _ room prems(5) n(1,2) seg(3)] prems(3) by metis
    have s1: "img_ok zinf (flen s1) s1" "geom s1 = geom s" "flen s \<le> flen s1" using p(2) by (simp_all add: disk_written_def)
    have left: "hits_left (k + (count - ?n)) s1"
    proof -
      have "k + h = k + (count - ?n) + (?n - 1)" using n(1,3) h by linarith
      then show ?thesis using p(3) hits_left_mono by metis
    qed
    have room1: "flen s1 + (count - ?n) * growth s1 < 2 ^ 63"
    proof -
      have "(count - ?n) * growth s \<le> h * growth s" using n(1) h by (intro mult_le_mono1) linarith
      moreover have "flen s + growth s + h * growth s < 2 ^ 63" using prems(4) unfolding h mult_Suc by linarith
      moreover have "growth s1 = growth s" using geom_sizes [OF s1(2)] by blast
      ultimately show ?thesis using p(4) by (simp only:)
    qed
    have rest: "512 \<le> flen s1" "sn + ?n + (count - ?n) \<le> q_size s1 div 512" "off + ?n * 512 + (count - ?n) * 512 \<le> iov_total iov"
    proof -
      show "512 \<le> flen s1" using s1(3) prems(5) by simp
      show "sn + ?n + (count - ?n) \<le> q_size s1 div 512" using prems(6) n(3) geom_sizes [OF s1(2)] by simp
      have "off + ?n * 512 + (count - ?n) * 512 = off + count * 512" using n(3) by (simp flip: add_mult_distrib)
      then show "off + ?n * 512 + (count - ?n) * 512 \<le> iov_total iov" using prems(7) by simp
    qed
    obtain s' where s': "qcow_write_loop zinf mok s1 m iov (count - ?n) (sn + ?n) (off + ?n * 512) = Some (transfer_result (off + ?n * 512 + (count - ?n) * 512), s')"
        "disk_written zinf s1 ((sn + ?n) * 512) (take ((count - ?n) * 512) (drop (off + ?n * 512) (gather m iov))) s'" "hits_left k s'" "flen s' \<le> flen s1 + (count - ?n) * growth s1"
      using IH [OF False refl refl _ seg(1) p(1) refl refl s1(1) left prems(3) room1 rest] n(1) by auto
    have total: "off + ?n * 512 + (count - ?n) * 512 = off + count * 512" using n(3) by (simp flip: add_mult_distrib)
    have run: "qcow_write_loop zinf mok s m iov count sn off = Some (transfer_result (off + count * 512), s')"
      using False n(1) seg(1) p(1) s'(1) unfolding total by (subst qcow_write_loop.simps) (simp add: Let_def)
    have len: "length (gather m seg) = ?n * 512" using seg(3) by simp
    have parts: "?n * 512 + (count - ?n) * 512 = count * 512" using n(3) by (simp flip: add_mult_distrib)
    note split = take_drop_split [OF parts, of off "gather m iov", folded g]
    have "disk_written zinf s (sn * 512) (take (count * 512) (drop off (gather m iov))) s'"
      unfolding split
    proof (rule written_trans [OF p(2) _ _ pos(2)])
      show "disk_written zinf s1 (sn * 512 + length (gather m seg)) (take ((count - ?n) * 512) (drop (off + ?n * 512) (gather m iov))) s'"
        using s'(2) unfolding len add_mult_distrib .
      show "gather m seg \<noteq> []" using len n(1) by force
    qed
    moreover have "flen s' \<le> flen s + count * growth s"
    proof -
      have "(count - ?n) * growth s \<le> h * growth s" using n(1) h by (intro mult_le_mono1) linarith
      moreover have "growth s1 = growth s" using geom_sizes [OF s1(2)] by blast
      ultimately show ?thesis using s'(4) p(4) unfolding h mult_Suc by (simp only:)
    qed
    ultimately show ?thesis using run s'(3) by blast
  qed
qed

end
