(* ===== verification/Qcow_Read.thy ===== *)
theory Qcow_Read
  imports Qcow_Disk
begin

unbundle bit_operations_syntax

text \<open>
  Reading a chain of images. A locale states what the read of a backing image promises; within it, an image of version 1 on top of
  such a disk is again one. The chain of \<open>bdev_preadv\<close> is an instance by induction over its length.
\<close>

section \<open>Buffers\<close>

lemma memset_spec:
  "iovs_disjoint seg \<Longrightarrow> gather (iovec_memset m seg c (iov_total seg)) seg = replicate (iov_total seg) c
     \<and> (\<forall>x. x \<notin> set (iov_addrs seg) \<longrightarrow> iovec_memset m seg c (iov_total seg) x = m x)"
proof (induction seg arbitrary: m)
  case (Cons v vs)
  let ?m = "mem_write m (iov_base v) (replicate (iov_len v) c)"
  have d: "iovs_disjoint vs" "distinct (iov_addrs (v # vs))" using Cons.prems iovs_disjoint_distinct [of "v # vs"] by auto
  note IH = Cons.IH [OF d(1), of ?m]
  show ?case
  proof (cases "iov_total (v # vs) = 0")
    case True
    then have "gather (iovec_memset m (v # vs) c 0) (v # vs) = []" by (metis length_0_conv length_gather)
    then show ?thesis using True by simp
  next
    case False
    have run: "iovec_memset m (v # vs) c (iov_total (v # vs)) = iovec_memset ?m vs c (iov_total vs)" using False by auto
    have "mem_read (iovec_memset ?m vs c (iov_total vs)) (iov_base v) (iov_len v) = mem_read ?m (iov_base v) (iov_len v)"
      using IH d(2) by (intro mem_read_cong) auto
    also have "\<dots> = replicate (iov_len v) c" using mem_read_write_same [of m "iov_base v" "replicate (iov_len v) c"] by simp
    finally show ?thesis unfolding run using IH by (auto simp: replicate_add mem_write_def)
  qed
qed simp

lemma copy_buffer:
  assumes "iovs_disjoint seg" "length bs = iov_total seg"
  obtains m' where "snd (snd (tcmu_memcpy_into_iovec m seg bs (iov_total seg))) = m'" "gather m' seg = bs" "\<forall>x. x \<notin> set (iov_addrs seg) \<longrightarrow> m' x = m x"
proof -
  obtain c vs' m' where r: "tcmu_memcpy_into_iovec m seg bs (iov_total seg) = (c, vs', m')" by (metis surj_pair)
  have "gather m' seg = bs" using memcpy_into_loop_spec [of m seg bs "iov_total seg" 0 c vs' m'] r assms by (simp add: tcmu_memcpy_into_iovec_def)
  moreover have "\<forall>x. x \<notin> set (iov_addrs seg) \<longrightarrow> m' x = m x"
    using sg.copy_in_frame [OF r] assms(2) by (simp add: set_iov_addrs)
  ultimately show thesis using that [of m'] r by simp
qed

lemma div_mod_within: "(a :: nat) mod c + i < c \<Longrightarrow> (a + i) div c = a div c \<and> (a + i) mod c = a mod c + i"
proof -
  assume l: "a mod c + i < c"
  have "a + i = a mod c + i + a div c * c" by simp
  then show ?thesis using l by (metis add.right_neutral add_diff_cancel_left' div_less div_mult_self1 mod_less mod_mult_self1 add.commute not_less_zero)
qed

section \<open>Disks that can be read\<close>

text \<open>An image on top of a backing disk, or of none.\<close>

definition backing :: "('b \<Rightarrow> mem) \<Rightarrow> 'b option \<Rightarrow> mem" where
  "backing disk b = (case b of None \<Rightarrow> (\<lambda>_. 0) | Some b \<Rightarrow> disk b)"

definition over :: "(nat \<Rightarrow> 'b \<Rightarrow> bool) \<Rightarrow> ('b \<Rightarrow> nat) \<Rightarrow> (byte list \<Rightarrow> nat \<Rightarrow> bool \<times> byte list) \<Rightarrow> nat \<Rightarrow> qcow_state \<times> 'b option \<Rightarrow> bool" where
  "over good dlen zinf k = (\<lambda>(s, b). img_ok zinf (flen s) s \<and> hits_left k s \<and> flen s < 2 ^ 63
     \<and> (case b of None \<Rightarrow> True | Some b \<Rightarrow> good k b \<and> q_size s \<le> dlen b))"

text \<open>
  What the read of a backing image promises to the image above it: \<open>good k\<close> holds while at least \<open>k\<close> more sectors can be read before
  the hit counter of a cache overflows.
\<close>

locale disk_reader =
  fixes bk :: "'b reader" and good :: "nat \<Rightarrow> 'b \<Rightarrow> bool" and disk :: "'b \<Rightarrow> mem" and dlen :: "'b \<Rightarrow> nat"
  assumes good_mono: "good (k + n) b \<Longrightarrow> good k b"
    and reads: "good (k + n) b \<Longrightarrow> 0 < n \<Longrightarrow> iovs_disjoint iov \<Longrightarrow> iov_total iov = n * 512 \<Longrightarrow> n * 512 \<le> 2 ^ 31 \<Longrightarrow> (sn + n) * 512 \<le> dlen b \<Longrightarrow>
      \<exists>m' b'. bk b m iov (sn * 512) = Some (int (n * 512), m', b') \<and> gather m' iov = mem_read (disk b) (sn * 512) (n * 512)
        \<and> (\<forall>x. x \<notin> set (iov_addrs iov) \<longrightarrow> m' x = m x) \<and> good k b' \<and> disk b' = disk b \<and> dlen b' = dlen b"
begin

lemma over_mono: "over good dlen zinf (k + n) sb \<Longrightarrow> over good dlen zinf k sb"
  using good_mono hits_left_mono by (auto simp: over_def split: option.splits)

text \<open>One piece.\<close>

lemma piece_ok:
  assumes ok: "over good dlen zinf (k + n) (s, b)" and n: "0 < n" "sn mod cluster_sectors s + n \<le> cluster_sectors s" "iov_total seg = n * 512" "iovs_disjoint seg"
    and rng: "(sn + n) * 512 \<le> q_size s"
  obtains m' s' b' where "read_piece zinf bk s b m seg n (sn mod cluster_sectors s) sn off = Some (None, m', s', b')"
    "gather m' seg = mem_read (qcow_view zinf s (backing disk b)) (sn * 512) (n * 512)" "\<forall>x. x \<notin> set (iov_addrs seg) \<longrightarrow> m' x = m x"
    "over good dlen zinf k (s', b')" "geom s' = geom s" "qcow_view zinf s' (backing disk b') = qcow_view zinf s (backing disk b)"
proof -
  note result = that
  let ?a = "sn * 512" and ?cs = "cluster_size s"
  let ?c = "?a div ?cs" and ?si = "sn mod cluster_sectors s"
  let ?e = "entry_of s ?c"
  have im: "img_ok zinf (flen s) s" "flen s < 2 ^ 63" "hits_left (k + n) s" using ok by (auto simp: over_def)
  have geo: "geom_ok s" using im(1) by (simp add: img_ok_def)
  note cs = sector_sizes [OF geo]
  have am: "?a mod ?cs = ?si * 512" unfolding cs(1) by (simp add: mult_mod_right [symmetric] mult.commute)
  have fit: "?a mod ?cs + n * 512 \<le> ?cs" using n(2) unfolding am cs(1) by (simp flip: add_mult_distrib)
  have c: "?c < clusters s" using sector_in_range [OF geo, of sn] rng n(1) by simp
  have hits: "hits_left (Suc k) s" using im(3) n(1) hits_left_mono [of "Suc k" "n - 1"] by simp
  obtain s1 where l: "get_cluster_offset zinf True s ?a False = Some (?e, s1)" "img_ok zinf (flen s1) s1" "hits_left k s1" "geom s1 = geom s"
      "\<forall>c. entry_of s1 c = entry_of s c" "fv s1 = fv s" "flen s1 = flen s" "cluster_compressed s1 = cluster_compressed s"
      "\<forall>bk. qcow_view zinf s1 bk = qcow_view zinf s bk"
    using lookup_read [OF im(1) c hits im(2)] .
  have size: "n * 512 \<le> 2 ^ 31" using fit cs(2) by simp
  have within: "(?a + i) div ?cs = ?c \<and> (?a + i) mod ?cs = ?si * 512 + i" if "i < n * 512" for i
    using div_mod_within [of ?a ?cs i] that fit am by simp
  text \<open>The bytes of the piece, when the cluster has an entry.\<close>
  have bytes: "mem_read (qcow_view zinf s v) ?a (n * 512) = buf_get (content zinf s ?e) (?si * 512) (n * 512)"
    if "?e \<noteq> 0" "length (content zinf s ?e) = ?cs" for v
  proof (rule nth_equalityI)
    fix i assume i: "i < length (mem_read (qcow_view zinf s v) ?a (n * 512))"
    then show "mem_read (qcow_view zinf s v) ?a (n * 512) ! i = buf_get (content zinf s ?e) (?si * 512) (n * 512) ! i"
      using that within [of i] fit am by (simp add: qcow_view_def buf_get_def)
  qed (use fit am that in \<open>simp add: buf_get_def\<close>)
  have hole: "mem_read (qcow_view zinf s v) ?a (n * 512) = mem_read v ?a (n * 512)" if "?e = 0" for v
    by (rule nth_equalityI) (use that within in \<open>simp_all add: qcow_view_def\<close>)
  have under: "case b of None \<Rightarrow> True | Some b \<Rightarrow> good k b \<and> q_size s \<le> dlen b" using ok good_mono by (auto simp: over_def split: option.splits)
  consider "?e = 0" "b = None" | b0 where "?e = 0" "b = Some b0" | "is_comp ?e" | "?e \<noteq> 0" "\<not> is_comp ?e" by (cases b) auto
  then show thesis
  proof cases
    case 1
    have run: "read_piece zinf bk s b m seg n ?si sn off = Some (None, iovec_memset m seg 0 (512 * n), s1, None)"
      using l(1) 1 by (simp add: read_piece_def)
    have len: "512 * n = iov_total seg" using n(3) by simp
    have "replicate (n * 512) 0 = mem_read (\<lambda>_. 0) ?a (n * 512)" by (rule nth_equalityI) simp_all
    then show thesis
      using result [OF run] memset_spec [OF n(4), of m 0] l hole 1 im(2) unfolding len by (simp add: over_def backing_def n(3))
  next
    case (2 b0)
    have "good (k + n) b0" "(sn + n) * 512 \<le> dlen b0" using ok rng 2(2) by (auto simp: over_def)
    then obtain m' b' where r: "bk b0 m seg ?a = Some (int (n * 512), m', b')" "gather m' seg = mem_read (disk b0) ?a (n * 512)"
        "\<forall>x. x \<notin> set (iov_addrs seg) \<longrightarrow> m' x = m x" "good k b'" "disk b' = disk b0" "dlen b' = dlen b0"
      using reads [OF _ n(1,4,3) size] by metis
    have run: "read_piece zinf bk s b m seg n ?si sn off = Some (None, m', s1, Some b')"
      using l(1) 2 r(1) by (simp add: read_piece_def)
    show thesis
      using result [OF run] r l hole 2 im(2) under geomD [OF l(4)] by (simp add: over_def backing_def)
  next
    case 3
    have L: "flen s1 < 2 ^ 63" and e1: "entry_of s1 ?c = ?e" using im(2) l(5,7) by simp_all
    obtain f bs w where z: "decompress_cluster zinf s1 ?e = (True, rezcache s1 f bs w)" "bs = content zinf s1 ?e" "img_ok zinf (flen s1) (rezcache s1 f bs w)"
        "file_view f = fv s1" "fd_len f = flen s1" "io_whole f"
      using decompress_ok [OF l(2) _ L, of ?c] 3 unfolding e1 by blast
    let ?s2 = "rezcache s1 f bs w"
    have ec: "content zinf s1 x = content zinf s x" "ext_start s1 x = ext_start s x" for x
      using ext_geom [OF geo _ l(4)] l(2,6) geomD [OF l(4)] by (auto simp: content_def img_ok_def)
    have len: "length (content zinf s ?e) = ?cs" using im(1) 3 comp_nonzero [OF 3] by (auto simp: img_ok_def entries_ok_def entry_ok_def)
    have bl: "length (buf_get bs (?si * 512) (512 * n)) = iov_total seg" using len fit am n(3) unfolding z(2) ec by (simp add: buf_get_def)
    obtain m' where c: "snd (snd (tcmu_memcpy_into_iovec m seg (buf_get bs (?si * 512) (512 * n)) (iov_total seg))) = m'"
        "gather m' seg = buf_get bs (?si * 512) (512 * n)" "\<forall>x. x \<notin> set (iov_addrs seg) \<longrightarrow> m' x = m x"
      using copy_buffer [OF n(4) bl] .
    have nz: "?e \<noteq> 0" "?e \<noteq> QCOW2_OFLAG_ZERO" "?e AND cluster_compressed s \<noteq> 0"
      using 3 comp_nonzero [OF 3] geo by (auto simp: is_comp_def geom_ok_def)
    have run: "read_piece zinf bk s b m seg n ?si sn off = Some (None, m', ?s2, b)"
      using l(1) nz z(1) c(1) n(3) by (simp add: read_piece_def mult.commute) (simp add: rezcache_def)
    have "gather m' seg = mem_read (qcow_view zinf s (backing disk b)) ?a (n * 512)" using c(2) bytes [OF nz(1) len] unfolding z(2) ec by (simp add: mult.commute)
    moreover have "qcow_view zinf ?s2 v = qcow_view zinf s v" for v using rezcache_same(2) [OF z(4)] l(9) by simp
    moreover have "over good dlen zinf k (?s2, b)"
      using z(3,5) l(3,7) im(2) under geomD [OF l(4)] by (simp add: over_def rezcache_def hits_left_def split: option.splits)
    ultimately show thesis using result [OF run] c(3) l(4) by simp
  next
    case 4
    have eok: "entry_ok zinf (flen s) s ?e" using im(1) 4(1) by (auto simp: img_ok_def entries_ok_def)
    have x: "content zinf s ?e = mem_read (fv s) (unat ?e) ?cs" "unat ?e + ?cs \<le> flen s" "512 \<le> unat ?e"
      using 4(2) eok by (simp_all add: ext_start_def ext_len_def content_def entry_ok_def)
    have nz: "?e \<noteq> QCOW2_OFLAG_ZERO" "?e AND cluster_compressed s = 0"
      using 4(2) x(3) geo by (auto simp: is_comp_def geom_ok_def)
    let ?w = "unat ?e + ?si * 512"
    have w: "?w + n * 512 \<le> flen s" "?w < 2 ^ 63" using x(2) fit im(2) n(1) unfolding am by linarith+
    have un: "unat (?e + of_nat (?si * 512)) = ?w" using w(2) by (simp add: unat_word_ariths unat_of_nat)
    have io: "io_whole (q_fd s1)" "?w + iov_total seg \<le> flen s1" "iov_total seg \<le> 2 ^ 31" using l(2,7) w(1) n(3) size by (simp_all add: img_ok_def)
    obtain m' where p: "fd_preadv (q_fd s1) m seg ?w = (int (iov_total seg), m', next_call (q_fd s1))"
        "gather m' seg = mem_read (fv s1) ?w (iov_total seg)" "\<forall>x. x \<notin> set (iov_addrs seg) \<longrightarrow> m' x = m x"
      using preadv_whole [OF io w(2) n(4)] .
    let ?s2 = "s1\<lparr>q_fd := next_call (q_fd s1)\<rparr>"
    have run: "read_piece zinf bk s b m seg n ?si sn off = Some (None, m', ?s2, b)"
      using l(1) 4(1) nz un p(1) n(3) by (simp add: read_piece_def)
    have vw: "\<forall>x < flen s1. file_view (next_call (q_fd s1)) x = fv s1 x" by simp
    have fl: "flen s1 \<le> fd_len (next_call (q_fd s1))" by simp
    have two: "img_ok zinf (flen s1) ?s2" "qcow_view zinf ?s2 v = qcow_view zinf s1 v" for v
      using img_ok_file [OF l(2) _ fl vw] io(1) by simp_all
    have "gather m' seg = mem_read (qcow_view zinf s (backing disk b)) ?a (n * 512)"
    proof -
      have "buf_get (mem_read (fv s) (unat ?e) ?cs) (?si * 512) (n * 512) = mem_read (fv s) ?w (n * 512)"
        by (rule nth_equalityI) (use fit am in \<open>simp_all add: buf_get_def add.assoc\<close>)
      then show ?thesis using p(2) n(3) l(6) bytes [OF 4(1)] x(1) by simp
    qed
    moreover have "over good dlen zinf k (?s2, b)"
      using two(1) l(3,7) im(2) under geomD [OF l(4)] by (simp add: over_def hits_left_def split: option.splits)
    ultimately show thesis using result [OF run] p(3) l(4,9) two(2) by simp
  qed
qed

text \<open>All pieces.\<close>

lemma loop_ok:
  assumes "over good dlen zinf (k + count) (s, b)" "iovs_disjoint iov" "(sn + count) * 512 \<le> q_size s" "off + count * 512 \<le> iov_total iov"
  shows "\<exists>m' s' b'. qcow_read_loop zinf bk s b m iov count sn off = Some (transfer_result (off + count * 512), m', s', b')
    \<and> take (count * 512) (drop off (gather m' iov)) = mem_read (qcow_view zinf s (backing disk b)) (sn * 512) (count * 512)
    \<and> (\<forall>x. x \<notin> set (take (count * 512) (drop off (iov_addrs iov))) \<longrightarrow> m' x = m x)
    \<and> over good dlen zinf k (s', b') \<and> geom s' = geom s \<and> qcow_view zinf s' (backing disk b') = qcow_view zinf s (backing disk b)"
  using assms
proof (induction count arbitrary: s b m sn off rule: less_induct)
  case (less count)
  show ?case
  proof (cases "count = 0")
    case True
    then show ?thesis using less.prems(1) by (simp add: qcow_read_loop.simps)
  next
    case False
    let ?si = "sn mod cluster_sectors s" and ?v = "qcow_view zinf s (backing disk b)" and ?as = "iov_addrs iov"
    let ?n = "min count (cluster_sectors s - ?si)"
    have geo: "geom_ok s" using less.prems(1) by (simp add: over_def img_ok_def)
    have pos: "0 < cluster_sectors s" using geo by (auto simp: geom_ok_def)
    have n: "0 < ?n" "?si + ?n \<le> cluster_sectors s" "?n \<le> count" using False pos mod_less_divisor [OF pos, of sn] by (simp_all del: mod_less_divisor)
    have total: "?n * 512 + (count - ?n) * 512 = count * 512" using n(3) by (simp flip: add_mult_distrib)
    have "off + ?n * 512 \<le> iov_total iov" using total less.prems(4) by linarith
    then obtain seg where seg: "iovec_segment iov off (?n * 512) = Some seg" "iov_addrs seg = take (?n * 512) (drop off ?as)" "iov_total seg = ?n * 512"
      using segment_spec by blast
    have dis: "iovs_disjoint seg" using less.prems(2) seg(2) by (simp add: iovs_disjoint_distinct)
    have pre: "over good dlen zinf (k + (count - ?n) + ?n) (s, b)" using less.prems(1) n(3) by simp
    have rng: "(sn + ?n) * 512 \<le> q_size s"
    proof -
      have "(sn + ?n) * 512 \<le> (sn + count) * 512" using n(3) by simp
      then show ?thesis using less.prems(3) by linarith
    qed
    obtain m1 s1 b1 where p: "read_piece zinf bk s b m seg ?n ?si sn off = Some (None, m1, s1, b1)"
        "gather m1 seg = mem_read ?v (sn * 512) (?n * 512)" "\<forall>x. x \<notin> set (iov_addrs seg) \<longrightarrow> m1 x = m x"
        "over good dlen zinf (k + (count - ?n)) (s1, b1)" "geom s1 = geom s" "qcow_view zinf s1 (backing disk b1) = ?v"
      using piece_ok [OF pre n(1,2) seg(3) dis rng] .
    have rest: "count - ?n < count" "(sn + ?n + (count - ?n)) * 512 \<le> q_size s1" "off + ?n * 512 + (count - ?n) * 512 \<le> iov_total iov"
      using n total less.prems(3,4) geomD [OF p(5)] by simp_all
    obtain m' s' b' where r: "qcow_read_loop zinf bk s1 b1 m1 iov (count - ?n) (sn + ?n) (off + ?n * 512) = Some (transfer_result (off + ?n * 512 + (count - ?n) * 512), m', s', b')"
        "take ((count - ?n) * 512) (drop (off + ?n * 512) (gather m' iov)) = mem_read ?v ((sn + ?n) * 512) ((count - ?n) * 512)"
        "\<forall>x. x \<notin> set (take ((count - ?n) * 512) (drop (off + ?n * 512) ?as)) \<longrightarrow> m' x = m1 x"
        "over good dlen zinf k (s', b')" "geom s' = geom s" "qcow_view zinf s' (backing disk b') = ?v"
      using less.IH [OF rest(1) p(4) less.prems(2) rest(2,3), of m1] unfolding p(5,6) by blast
    have run: "qcow_read_loop zinf bk s b m iov count sn off = Some (transfer_result (off + count * 512), m', s', b')"
      using False n(1) seg(1) p(1) r(1) unfolding add.assoc total by (subst qcow_read_loop.simps) (simp add: Let_def)
    note split = take_drop_split [OF total, of off]
    have first: "gather m' seg = gather m1 seg"
    proof -
      have "distinct (take (count * 512) (drop off ?as))" using less.prems(2) by (simp add: iovs_disjoint_distinct)
      then have "x \<notin> set (take ((count - ?n) * 512) (drop (off + ?n * 512) ?as))" if "x \<in> set (iov_addrs seg)" for x
        using that unfolding split seg(2) by auto
      then show ?thesis using r(3) by (simp add: gather_addrs)
    qed
    have "take (count * 512) (drop off (gather m' iov)) = mem_read ?v (sn * 512) (count * 512)"
    proof -
      have "take (?n * 512) (drop off (gather m' iov)) = mem_read ?v (sn * 512) (?n * 512)"
        using first p(2) gather_segment [OF seg(2), of m'] by simp
      moreover have "mem_read ?v (sn * 512) (count * 512) = mem_read ?v (sn * 512) (?n * 512) @ mem_read ?v ((sn + ?n) * 512) ((count - ?n) * 512)"
        unfolding total [symmetric] mem_read_add add_mult_distrib ..
      ultimately show ?thesis using r(2) unfolding split by simp
    qed
    moreover have "\<forall>x. x \<notin> set (take (count * 512) (drop off ?as)) \<longrightarrow> m' x = m x"
      using r(3) p(3) unfolding split seg(2) by auto
    ultimately show ?thesis using run r(4-6) by blast
  qed
qed

text \<open>An image on top of such a disk is again one.\<close>

lemma over_reader:
  "disk_reader (\<lambda>(s, b). qcow_preadv zinf bk s b) (over good dlen zinf) (\<lambda>(s, b). qcow_view zinf s (backing disk b)) (\<lambda>(s, b). q_size s)"
proof (unfold_locales, goal_cases)
  case (1 k n sb)
  then show ?case by (rule over_mono)
next
  case (2 k n sb iov sn m)
  obtain s b where sb: "sb = (s, b)" by (cases sb)
  have len: "tcmu_iovec_length iov = n * 512"
    using 2(4,5) by (simp add: tcmu_iovec_length_mod)
  have pre: "over good dlen zinf (k + n) (s, b)" "(sn + n) * 512 \<le> q_size s" "0 + n * 512 \<le> iov_total iov" using 2 sb by auto
  obtain m' s' b' where r: "qcow_read_loop zinf bk s b m iov n sn 0 = Some (int (n * 512), m', s', b')"
      "gather m' iov = mem_read (qcow_view zinf s (backing disk b)) (sn * 512) (n * 512)" "\<forall>x. x \<notin> set (iov_addrs iov) \<longrightarrow> m' x = m x"
      "over good dlen zinf k (s', b')" "geom s' = geom s" "qcow_view zinf s' (backing disk b') = qcow_view zinf s (backing disk b)"
    using loop_ok [OF pre(1) 2(3) pre(2,3), of m] 2(2,4) by (auto simp: transfer_result_def)
  then show ?case using sb len geomD [OF r(5)] by (auto simp: qcow_preadv_def)
qed

end

end
