(* ===== verification/Qcow_Chain.thy ===== *)
theory Qcow_Chain
  imports Qcow_Read
begin

unbundle bit_operations_syntax

text \<open>
  Chains of images and the QCOW handler on top of them: reading and writing through \<open>qcow_read\<close> and \<open>qcow_write\<close> against the disk
  that the chain stands for, and opening. The contract of a readable disk is interpreted on the images themselves.
\<close>

section \<open>Chains of images\<close>

fun image_view :: "(byte list \<Rightarrow> nat \<Rightarrow> bool \<times> byte list) \<Rightarrow> image \<Rightarrow> mem" where
  "image_view zinf (Raw f) = file_view f"
| "image_view zinf (Qcow s None) = qcow_view zinf s (\<lambda>_. 0)"
| "image_view zinf (Qcow s (Some b)) = qcow_view zinf s (image_view zinf b)"

fun image_len :: "image \<Rightarrow> nat" where
  "image_len (Raw f) = fd_len f"
| "image_len (Qcow s b) = q_size s"

text \<open>Every image of the chain is well formed, and the one behind covers the one in front.\<close>

fun image_ok :: "(byte list \<Rightarrow> nat \<Rightarrow> bool \<times> byte list) \<Rightarrow> nat \<Rightarrow> image \<Rightarrow> bool" where
  "image_ok zinf k (Raw f) \<longleftrightarrow> io_whole f \<and> fd_len f < 2 ^ 63"
| "image_ok zinf k (Qcow s None) \<longleftrightarrow> img_ok zinf (flen s) s \<and> hits_left k s \<and> flen s < 2 ^ 63"
| "image_ok zinf k (Qcow s (Some b)) \<longleftrightarrow> img_ok zinf (flen s) s \<and> hits_left k s \<and> flen s < 2 ^ 63 \<and> image_ok zinf k b \<and> q_size s \<le> image_len b"

abbreviation chain_ok :: "nat \<Rightarrow> (byte list \<Rightarrow> nat \<Rightarrow> bool \<times> byte list) \<Rightarrow> nat \<Rightarrow> image \<Rightarrow> bool" where
  "chain_ok d zinf k im \<equiv> image_ok zinf k im \<and> image_depth im \<le> d"

lemma image_ok_mono: "image_ok zinf (k + n) im \<Longrightarrow> image_ok zinf k im"
  by (induction zinf k im rule: image_ok.induct) (auto intro: hits_left_mono)

lemma chain_over: "chain_ok (Suc d) zinf k (Qcow s b) \<longleftrightarrow> over (chain_ok d zinf) image_len zinf k (s, b)"
  by (cases b) (auto simp: over_def)

lemma view_over: "image_view zinf (Qcow s b) = qcow_view zinf s (backing (image_view zinf) b)"
  by (cases b) (simp_all add: backing_def)

lemma depth_pos: "0 < image_depth im"
  by (cases im rule: image_depth.cases) simp_all

lemma chain_reader: "disk_reader (image_preadv d zinf) (chain_ok d zinf) (image_view zinf) image_len"
proof (induction d)
  case 0
  have "\<not> image_depth im \<le> 0" for im using depth_pos [of im] by simp
  then show ?case unfolding disk_reader_def by blast
next
  case (Suc d)
  note below = disk_reader.reads [OF disk_reader.over_reader [OF Suc]]
  show ?case
  proof (unfold_locales, goal_cases)
    case (1 k n im)
    then show ?case using image_ok_mono by blast
  next
    case (2 k n im iov sn m)
    show ?case
    proof (cases im)
      case (Raw f)
      have pre: "io_whole f" "sn * 512 + iov_total iov \<le> fd_len f" "iov_total iov \<le> 2 ^ 31" "sn * 512 < 2 ^ 63"
        using 2 Raw by (simp_all add: add_mult_distrib)
      obtain m' where "fd_preadv f m iov (sn * 512) = (int (iov_total iov), m', next_call f)"
          "gather m' iov = mem_read (file_view f) (sn * 512) (iov_total iov)" "\<forall>x. x \<notin> set (iov_addrs iov) \<longrightarrow> m' x = m x"
        using preadv_whole [OF pre 2(3)] .
      then show ?thesis using Raw 2 by (simp add: raw_preadv_def)
    next
      case (Qcow s b)
      then show ?thesis
        using below [of zinf k n "(s, b)" iov sn m] 2 unfolding chain_over by (fastforce simp: view_over chain_over [symmetric])
    qed
  qed
qed
interpretation chain: disk_reader "image_preadv d zinf" "chain_ok d zinf" "image_view zinf" image_len for d zinf
  by (rule chain_reader)

section \<open>The handler\<close>

lemma handler_read:
  assumes ok: "image_ok zinf (k + n) im" and n: "0 < n" "n * 512 \<le> 2 ^ 31" "iovs_disjoint iov" "iov_total iov = n * 512" "(sn + n) * 512 \<le> image_len im"
  obtains m' iov' im' where "qcow_read zinf im m iov (n * 512) (sn * 512) = Some (TCMU_STS_OK, m', iov', im')"
    "gather m' iov = mem_read (image_view zinf im) (sn * 512) (n * 512)" "\<forall>x. x \<notin> set (iov_addrs iov) \<longrightarrow> m' x = m x"
    "image_ok zinf k im'" "image_view zinf im' = image_view zinf im" "image_len im' = image_len im"
proof -
  have c: "chain_ok (image_depth im) zinf (k + n) im" using ok by simp
  obtain m' im' where r: "bdev_preadv zinf im m iov (sn * 512) = Some (int (n * 512), m', im')"
      "gather m' iov = mem_read (image_view zinf im) (sn * 512) (n * 512)" "\<forall>x. x \<notin> set (iov_addrs iov) \<longrightarrow> m' x = m x"
      "image_ok zinf k im'" "image_view zinf im' = image_view zinf im" "image_len im' = image_len im"
    using chain.reads [OF c n(1,3,4,2,5), of m] unfolding bdev_preadv_def by blast
  obtain j iov' where s: "tcmu_seek_in_iovec iov (n * 512) = Some (j, iov')" using seek_defined [of "n * 512" iov] n(4) by auto
  have "qcow_read zinf im m iov (n * 512) (sn * 512) = Some (TCMU_STS_OK, m', iov', im')"
    using r(1) s n(1) by (subst qcow_read.simps) (simp add: qcow_read.simps [of _ _ _ _ 0] nat_mult_distrib)
  then show thesis using that r by blast
qed

lemma handler_write:
  assumes ok: "image_ok zinf (k + n) (Qcow s b)" and mok: "\<forall>k. mok k" and room: "512 \<le> flen s" "flen s + n * growth s < 2 ^ 63"
    and n: "0 < n" "iov_total iov = n * 512" "n * 512 \<le> 2 ^ 31" "(sn + n) * 512 \<le> q_size s"
  obtains iov' s' where "qcow_write zinf mok (Qcow s b) m iov (n * 512) (sn * 512) = Some (TCMU_STS_OK, iov', Qcow s' b)"
    "disk_written zinf s (sn * 512) (gather m iov) s'" "image_ok zinf k (Qcow s' b)"
proof -
  have im: "img_ok zinf (flen s) s" "hits_left (k + n) s" using ok by (cases b; simp)+
  have q: "sn + n \<le> q_size s div 512" using div_le_mono [OF n(4), of 512] by simp
  have len: "tcmu_iovec_length iov = n * 512" using n(2,3) by (simp add: tcmu_iovec_length_mod)
  have tot: "0 + n * 512 \<le> iov_total iov" using n(2) by simp
  obtain s' where w: "qcow_write_loop zinf mok s m iov n sn 0 = Some (transfer_result (0 + n * 512), s')"
      "disk_written zinf s (sn * 512) (gather m iov) s'" "hits_left k s'" "flen s' \<le> flen s + n * growth s"
    using write_loop_ok [OF im mok room(2,1) q tot, of m] n(2) by auto
  have pw: "bdev_pwritev zinf mok (Qcow s b) m iov (sn * 512) = Some (int (n * 512), Qcow s' b)"
    using w(1) len q n(1) by (simp add: bdev_pwritev_def qcow_pwritev_def transfer_result_def min_absorb1 Let_def)
  obtain j iov' where sk: "tcmu_seek_in_iovec iov (n * 512) = Some (j, iov')" using seek_defined [of "n * 512" iov] n(2) by auto
  have run: "qcow_write zinf mok (Qcow s b) m iov (n * 512) (sn * 512) = Some (TCMU_STS_OK, iov', Qcow s' b)"
    using pw sk n(1) by (subst qcow_write.simps) (simp add: qcow_write.simps [of _ _ _ _ _ 0] nat_mult_distrib)
  have s': "img_ok zinf (flen s') s'" "q_size s' = q_size s" using w(2) geom_sizes [of s' s] by (auto simp: disk_written_def)
  have "flen s' < 2 ^ 63" using w(4) room(2) by linarith
  then have "image_ok zinf k (Qcow s' b)" using s' w(3) ok image_ok_mono by (cases b) auto
  then show thesis using that [OF run w(2)] by blast
qed

section \<open>Opening\<close>

lemma l1_entries_bounds:
  assumes "l1_entries sz (cb + l2b) = Some n"
  shows "n < 2 ^ 28" "sz \<le> n * 2 ^ l2b * 2 ^ cb"
proof -
  let ?p = "2 ^ (cb + l2b) :: nat"
  have n: "n = (sz + ?p - 1) div ?p" "n \<le> (2 ^ 31 - 1) div 8" using assms by (auto simp: l1_entries_def Let_def split: if_splits)
  show "n < 2 ^ 28" using n(2) by simp
  have "sz + ?p - 1 < n * ?p + ?p" using dividend_less_div_times [of ?p "sz + ?p - 1"] unfolding n(1) by simp
  then have "sz \<le> n * ?p" by linarith
  then show "sz \<le> n * 2 ^ l2b * 2 ^ cb" by (simp add: power_add ac_simps)
qed

lemma opened_geom:
  assumes "l1_entries sz (cb + l2b) = Some n" "cb \<in> {9..16}" "l2b \<in> {6..13}" "length l1 = 8 * n"
  shows "geom_ok (qcow_state_of f sz cb l2b n off l1)"
  using l1_entries_bounds [OF assms(1)] assms(2-) by (simp add: geom_ok_def qcow_state_of_def)

lemma opened_caches:
  assumes "geom_ok (qcow_state_of f sz cb l2b n off l1)"
  shows "cache_ok (qcow_state_of f sz cb l2b n off l1)" "zcache_ok zinf (qcow_state_of f sz cb l2b n off l1)"
    "k < INT_MAX \<Longrightarrow> hits_left k (qcow_state_of f sz cb l2b n off l1)"
proof -
  let ?s = "qcow_state_of f sz cb l2b n off l1"
  show "cache_ok ?s" "k < INT_MAX \<Longrightarrow> hits_left k ?s" by (simp_all add: cache_ok_def hits_left_def qcow_state_of_def)
  have "cluster_offset_mask ?s \<noteq> -1"
  proof
    assume "cluster_offset_mask ?s = -1"
    then have "bit (mask (63 - cb) :: 64 word) 63" by (simp add: qcow_state_of_def mask_eq_exp_minus_1)
    then show False by (simp add: bit_mask_iff)
  qed
  then have "e AND cluster_offset_mask ?s \<noteq> -1" for e by (metis and.left_idem word_bw_comms(1) and_eq_minus_1_iff)
  then show "zcache_ok zinf ?s" by (simp add: zcache_ok_def qcow_state_of_def)
qed

text \<open>The state of a file that is opened again.\<close>

definition reopened :: "qcow_state \<Rightarrow> qcow_state" where
  "reopened s = qcow_state_of (q_fd s) (q_size s) (cluster_bits s) (l2_bits s) (l1_size s) (l1_table_offset s)
     (mem_read (fv s) (l1_table_offset s) (8 * l1_size s))"

lemma reopened_ok:
  assumes ok: "img_ok zinf L s"
  shows "img_ok zinf L (reopened s)" "qcow_view zinf (reopened s) bk = qcow_view zinf s bk" "k < INT_MAX \<Longrightarrow> hits_left k (reopened s)"
proof -
  let ?s = "reopened s"
  have parts: "geom_ok s" "tables_ok L s" "entries_ok zinf L s" "comp_unique s" "io_whole (q_fd s)" "L \<le> flen s" using ok by (auto simp: img_ok_def)
  have g: "cluster_size s = 2 ^ cluster_bits s" "l2_size s = 2 ^ l2_bits s" "cluster_mask s = NOT QCOW_OFLAG_COMPRESSED"
      "cluster_offset_mask s = push_bit (63 - cluster_bits s) 1 - 1" "q_size s \<le> clusters s * cluster_size s" using parts(1) by (auto simp: geom_ok_def)
  have f [simp]: "q_fd ?s = q_fd s" "q_size ?s = q_size s" "cluster_bits ?s = cluster_bits s" "cluster_size ?s = cluster_size s" "l2_size ?s = l2_size s"
      "cluster_offset_mask ?s = cluster_offset_mask s" "l1_size ?s = l1_size s" "l1_table_offset ?s = l1_table_offset s" "q_l1_table ?s = q_l1_table s"
      "cluster_mask ?s = cluster_mask s"
    using g parts(2) by (simp_all add: reopened_def qcow_state_of_def tables_ok_def)
  have geo: "geom_ok ?s" using parts(1,2) by (auto simp: geom_ok_def reopened_def qcow_state_of_def)
  have l2: "l2_off ?s i = l2_off s i" for i by (simp add: l2_off_def)
  have ent: "entry_of ?s c = entry_of s c" for c by (simp add: entry_of_def l2 Let_def)
  have ext: "ext_start ?s e = ext_start s e" "ext_len ?s e = ext_len s e" for e by (simp_all add: ext_start_def ext_len_def)
  have cont: "content zinf ?s e = content zinf s e" for e by (simp add: content_def ext)
  have "entry_ok zinf L ?s e = entry_ok zinf L s e" for e unfolding entry_ok_def ext l2 cont by simp
  then have "entries_ok zinf L ?s" using parts(3) by (simp add: entries_ok_def ent)
  moreover have "tables_ok L ?s" using parts(2) by (simp add: tables_ok_def l2)
  moreover have "comp_unique ?s" using parts(4) unfolding comp_unique_def ent ext .
  ultimately show "img_ok zinf L ?s"
    using geo opened_caches(1,2) [OF geo [unfolded reopened_def], folded reopened_def] parts(5,6) by (simp add: img_ok_def)
  show "qcow_view zinf ?s bk = qcow_view zinf s bk" by (simp add: qcow_view_def ent cont fun_eq_iff Let_def)
  show "hits_left k ?s" if "k < INT_MAX" using opened_caches(3) [OF geo [unfolded reopened_def] that] by (simp add: reopened_def)
qed

text \<open>An image without any table.\<close>

lemma blank_ok:
  assumes geo: "l1_entries sz (cb + l2b) = Some n" "cb \<in> {9..16}" "l2b \<in> {6..13}"
    and f: "io_whole f" "off + 8 * n \<le> L" "L \<le> fd_len f" "mem_read (file_view f) off (8 * n) = replicate (8 * n) 0"
  shows "img_ok zinf L (qcow_state_of f sz cb l2b n off (replicate (8 * n) 0))" "entry_of (qcow_state_of f sz cb l2b n off (replicate (8 * n) 0)) c = 0"
proof -
  let ?s = "qcow_state_of f sz cb l2b n off (replicate (8 * n) 0)"
  have g: "geom_ok ?s" by (rule opened_geom [OF geo]) simp
  have none: "l2_off ?s i = 0" if "i < n" for i
    using be64_zeros [of i "8 * n"] that by (simp add: l2_off_def qcow_state_of_def)
  show ent: "entry_of ?s c = 0" for c
  proof (cases "c < clusters ?s")
    case True
    then have "c div l2_size ?s < n" by (simp add: less_mult_imp_div_less qcow_state_of_def)
    then show ?thesis using none by (simp add: entry_of_def)
  qed (simp add: entry_of_def)
  have "l1_size ?s = n" "l1_table_offset ?s = off" "q_l1_table ?s = replicate (8 * n) 0" "q_fd ?s = f" by (simp_all add: qcow_state_of_def)
  then have "tables_ok L ?s" using f none by (simp add: tables_ok_def)
  moreover have "entries_ok zinf L ?s" "comp_unique ?s" using ent by (simp_all add: entries_ok_def comp_unique_def is_comp_def)
  ultimately show "img_ok zinf L ?s" using g opened_caches [OF g] f by (simp add: img_ok_def qcow_state_of_def)
qed

section \<open>A small image\<close>

text \<open>An empty image of one cluster of 1 kB, whose L1 table is at 512, on a raw file of sevens.\<close>

definition small_header :: "byte list" where
  "small_header = [0x51, 0x46, 0x49, 0xfb, 0, 0, 0, 1] @ [0, 0, 0, 0, 0, 0, 0, 0, 0, 0, 0, 0, 0, 0, 0, 0] @ [0, 0, 0, 0, 0, 0, 4, 0, 10, 6, 0, 0, 0, 0, 0, 0, 0, 0, 0, 0, 0, 0, 2, 0]"

definition small_file :: file_state where
  "small_file = \<lparr>fd_data = mem_write (\<lambda>_. 0) 0 small_header, fd_len = 1024, fd_io = \<lambda>_. 2 ^ 31, fd_k = 0\<rparr>"

definition small_image :: qcow_state where
  "small_image = qcow_state_of small_file 1024 10 6 1 512 (replicate 8 0)"

definition sevens :: image where
  "sevens = Raw \<lparr>fd_data = \<lambda>_. 7, fd_len = 1024, fd_io = \<lambda>_. 2 ^ 31, fd_k = 0\<rparr>"

lemma small_ok: "image_ok zinf 9 (Qcow small_image (Some sevens))" "flen small_image = 1024" "q_size small_image = 1024" "growth small_image = 3072"
  "cluster_size small_image = 1024" "entry_of small_image c = 0"
proof -
  have hl: "length small_header = 48" by (simp add: small_header_def)
  have z: "mem_read (file_view small_file) 512 8 = replicate 8 0"
    by (rule nth_equalityI) (simp_all add: small_file_def file_view_def mem_write_def hl)
  have e: "l1_entries 1024 (10 + 6) = Some 1" by (simp add: l1_entries_def round_up_def mul64_def add64_def)
  note b = blank_ok [OF e, of small_file 512 "fd_len small_file"]
  have io: "io_whole small_file" "fd_len small_file = 1024" by (simp_all add: io_whole_def small_file_def)
  have im: "img_ok zinf (flen small_image) small_image" "entry_of small_image c = 0"
    using b z io by (simp_all add: small_image_def qcow_state_of_def)
  show sz: "flen small_image = 1024" "q_size small_image = 1024" "growth small_image = 3072" "cluster_size small_image = 1024"
    using io by (simp_all add: small_image_def qcow_state_of_def)
  show "entry_of small_image c = 0" by (rule im(2))
  have "hits_left 9 small_image" by (simp add: hits_left_def small_image_def qcow_state_of_def)
  then show "image_ok zinf 9 (Qcow small_image (Some sevens))"
    using im(1) sz by (simp add: sevens_def io_whole_def)
qed

lemma small_view: "image_view zinf (Qcow small_image (Some sevens)) x = (if x < 1024 then 7 else 0)"
  by (simp add: qcow_view_def small_ok sevens_def file_view_def)

definition small_env :: image_env where
  "small_env = \<lparr>ie_access = \<lambda>_ _ _. True, ie_openat = \<lambda>_ _. Some small_file, ie_stat = \<lambda>_ _. None, ie_dir = \<lambda>_ _. None, ie_alloc = \<lambda>_. True, ie_stack = []\<rparr>"

lemma small_open: "\<exists>s. qcow_image_open small_env (\<lambda>_ _. None) 1024 512 0 [] = Some (Some (Qcow s None))"
proof -
  have io: "io_whole small_file" "fd_len small_file = 1024" by (simp_all add: io_whole_def small_file_def)
  have hl: "length small_header = 48" by (simp add: small_header_def)
  have hd: "mem_read (file_view small_file) 0 48 = small_header"
    by (rule nth_equalityI) (simp_all add: small_file_def file_view_def mem_write_def hl)
  have r1: "fd_pread small_file 48 0 = (48, small_header, next_call small_file)"
    using pread_whole [OF io(1), of 0 48] io(2) hd by simp
  obtain l1 f2 where r2: "fd_pread (next_call small_file) 8 512 = (8, l1, f2)"
  proof -
    have "io_whole (next_call small_file)" "512 + 8 \<le> fd_len (next_call small_file)" using io by (simp, simp add: next_call_def)
    then show thesis using pread_whole [of "next_call small_file" 512 8] that by simp
  qed
  have h: "h_size (qcow_header_bswap small_header) = 1024" "h_cluster_bits (qcow_header_bswap small_header) = 10" "h_l2_bits (qcow_header_bswap small_header) = 6"
      "h_l1_table_offset (qcow_header_bswap small_header) = 512" "h_backing_file_offset (qcow_header_bswap small_header) = 0" "qcow_validate_header (qcow_header_bswap small_header)"
    by (simp_all add: qcow_header_bswap_def qcow_validate_header_def QCOW_MAGIC_def small_header_def buf_get_def be_dec_def)
  have e: "l1_entries 1024 16 = Some 1" by (simp add: l1_entries_def round_up_def mul64_def add64_def)
  show ?thesis using r1 r2 h e by (simp add: qcow_image_open_def small_env_def qcow_setup_backing_file_def Let_def)
qed

section \<open>Properties\<close>



text \<open>
  C1: Writing a QCOW image. A write within an image of version 1 succeeds and is a write to the disk that the image stands for, whatever
  clusters it hits: unallocated, compressed, or allocated ones, which are copied to a new place first. No other byte changes, except
  one case: where a cluster was not allocated, its bytes outside the write become zero, so they are lost when they came from a backing image. An
  image without one behaves exactly as a flat disk.
\<close>
theorem qcow_write_refines:
  assumes "image_ok zinf (k + n) (Qcow s b)" "\<forall>k. mok k" "512 \<le> flen s" "flen s + n * growth s < 2 ^ 63"
    "0 < n" "iov_total iov = n * 512" "n * 512 \<le> 2 ^ 31" "(sn + n) * 512 \<le> q_size s"
  shows "\<exists>iov' s'. qcow_write zinf mok (Qcow s b) m iov (n * 512) (sn * 512) = Some (TCMU_STS_OK, iov', Qcow s' b) \<and> image_ok zinf k (Qcow s' b)
    \<and> image_view zinf (Qcow s' b) = mem_write (holes_zeroed zinf s (sn * 512) (n * 512) (backing (image_view zinf) b)) (sn * 512) (gather m iov)
    \<and> (b = None \<longrightarrow> image_view zinf (Qcow s' b) = mem_write (image_view zinf (Qcow s b)) (sn * 512) (gather m iov))"
proof -
  obtain iov' s' where w: "qcow_write zinf mok (Qcow s b) m iov (n * 512) (sn * 512) = Some (TCMU_STS_OK, iov', Qcow s' b)"
      "disk_written zinf s (sn * 512) (gather m iov) s'" "image_ok zinf k (Qcow s' b)"
    using handler_write [OF assms] .
  have "image_view zinf (Qcow s' b) = mem_write (holes_zeroed zinf s (sn * 512) (n * 512) (backing (image_view zinf) b)) (sn * 512) (gather m iov)"
    using w(2) assms(6) unfolding view_over by (simp add: disk_written_def)
  moreover have "holes_zeroed zinf s a l (\<lambda>_. 0) = qcow_view zinf s (\<lambda>_. 0)" for a l
    by (auto simp: holes_zeroed_def qcow_view_def)
  ultimately show ?thesis using w by (auto simp: view_over backing_def)
qed




theorem qcow_write_refines_witness:
  "\<exists>iov' s'. qcow_write (\<lambda>_ _. (False, [])) (\<lambda>_. True) (Qcow small_image (Some sevens)) (\<lambda>_. 5) [\<lparr>iov_base = 0, iov_len = 512\<rparr>] 512 0
       = Some (TCMU_STS_OK, iov', Qcow s' (Some sevens))
     \<and> image_view (\<lambda>_ _. (False, [])) (Qcow s' (Some sevens)) 3 = 5 \<and> image_view (\<lambda>_ _. (False, [])) (Qcow s' (Some sevens)) 600 = 0
     \<and> image_view (\<lambda>_ _. (False, [])) (Qcow small_image (Some sevens)) 600 = 7"
proof -
  let ?b = "Some sevens" and ?iov = "[\<lparr>iov_base = 0, iov_len = 512\<rparr>]" and ?z = "\<lambda>_ _. (False, [])"
  have ok: "image_ok ?z (8 + 1) (Qcow small_image ?b)" using small_ok(1) by simp
  obtain iov' s' where w: "qcow_write ?z (\<lambda>_. True) (Qcow small_image ?b) (\<lambda>_. 5) ?iov (1 * 512) (0 * 512) = Some (TCMU_STS_OK, iov', Qcow s' ?b)"
      "image_view ?z (Qcow s' ?b) = mem_write (holes_zeroed ?z small_image (0 * 512) (1 * 512) (backing (image_view ?z) ?b)) (0 * 512) (gather (\<lambda>_. 5) ?iov)"
    using qcow_write_refines [OF ok, of "\<lambda>_. True" ?iov 0 "\<lambda>_. 5"] small_ok(2,3,4) by auto
  have g: "gather (\<lambda>_. 5) ?iov = replicate 512 5" by (rule nth_equalityI) simp_all
  have "image_view ?z (Qcow s' ?b) 3 = 5" "image_view ?z (Qcow s' ?b) 600 = 0"
    unfolding w(2) g by (simp_all add: mem_write_def holes_zeroed_def touched_def small_ok(5,6))
  then show ?thesis using w(1) small_view by simp
qed


end
