(* ===== verification/Fbo_Emul.thy ===== *)
theory Fbo_Emul
  imports Tcmu_Emul Sys_File "HOL-Library.Signed_Division"
begin

unbundle bit_operations_syntax

text \<open>
  The optical handler (\<open>file_optical.c\<close>), first part: its state, opening, and the commands that only answer (lines
  66--993). The results of the system are arguments. A command gives its status, the initiator's memory, the device
  state and the command; \<open>None\<close> is undefined behaviour or a command that never ends.
\<close>

section \<open>State\<close>

text \<open>
  Threads that the handler started and that have not ended: where a thread is in \<open>fbo_async_sync_cache\<close> or
  \<open>fbo_async_format\<close>. The numbers are \<open>done_blocks\<close>, \<open>offset\<close> and \<open>length\<close> of \<open>fbo_do_format\<close>.
\<close>

datatype fbo_thread = SyncBegin | SyncFlush | SyncEnd | FmtBegin | FmtAlloc | FmtLoop nat nat nat | FmtEnd

record fbo_state =
  fbo_fd :: file_state
  fbo_num_lbas :: nat
  fbo_block_size :: nat
  fbo_cur_lba :: nat
  fbo_flags :: "32 word"
  format_progress :: nat
  event_op_ch_code :: nat
  async_cache_count :: nat
  fbo_threads :: "fbo_thread list"

abbreviation (input) FBO_READ_ONLY :: "32 word" where "FBO_READ_ONLY \<equiv> 0x01"
abbreviation (input) FBO_PREV_EJECT :: "32 word" where "FBO_PREV_EJECT \<equiv> 0x02"
abbreviation (input) FBO_DEV_IO :: "32 word" where "FBO_DEV_IO \<equiv> 0x04"
abbreviation (input) FBO_BUSY_EVENT :: "32 word" where "FBO_BUSY_EVENT \<equiv> 0x08"
abbreviation (input) FBO_FORMATTING :: "32 word" where "FBO_FORMATTING \<equiv> 0x10"
abbreviation (input) FBO_FORMAT_IMMED :: "32 word" where "FBO_FORMAT_IMMED \<equiv> 0x20"

definition fbo_has :: "fbo_state \<Rightarrow> 32 word \<Rightarrow> bool" where
  "fbo_has st f \<longleftrightarrow> fbo_flags st AND f \<noteq> 0"

definition fbo_set :: "32 word \<Rightarrow> fbo_state \<Rightarrow> fbo_state" where
  "fbo_set f st = st\<lparr>fbo_flags := fbo_flags st OR f\<rparr>"

definition fbo_clear :: "32 word \<Rightarrow> fbo_state \<Rightarrow> fbo_state" where
  "fbo_clear f st = st\<lparr>fbo_flags := fbo_flags st AND NOT f\<rparr>"

definition fbo_report_op_change :: "fbo_state \<Rightarrow> nat \<Rightarrow> fbo_state" where
  "fbo_report_op_change st code = (if code > event_op_ch_code st then st\<lparr>event_op_ch_code := code\<rparr> else st)"

section \<open>Opening\<close>

definition lower :: "char \<Rightarrow> char" where
  "lower c = (let v = (of_char c :: nat) in if 65 \<le> v \<and> v \<le> 90 then char_of (v + 32) else c)"

text \<open>The options in front of the path, up to an empty one; \<open>None\<close>: there is no path.\<close>

function fbo_options :: "string \<Rightarrow> bool \<Rightarrow> (bool \<times> string) option" where
  "fbo_options options ro =
     (if options \<noteq> [] \<and> hd options = CHR ''/'' then Some (ro, options)
      else let ro' = (ro \<or> map lower (take 3 options) = ''ro/'') in
        case dropWhile (\<lambda>c. c \<noteq> CHR ''/'') options of
          [] \<Rightarrow> None
        | c # rest \<Rightarrow> fbo_options rest ro')"
  by pat_completeness auto

termination
proof (relation "measure (\<lambda>(options, _). length options)", goal_cases)
  case (2 options ro ro' c rest)
  then have "length (c # rest) \<le> length options" by (metis length_dropWhile_le)
  then show ?case by simp
qed simp

declare fbo_options.simps [simp del]

text \<open>
  \<open>opn path create read_only\<close> opens the file. The size from configfs is negative when it could not be read; only \<open>-1\<close> is
  taken for an error. The division is that of C.
\<close>

definition fbo_open ::
  "bool \<Rightarrow> int \<Rightarrow> (string \<Rightarrow> bool) \<Rightarrow> (string \<Rightarrow> bool \<Rightarrow> bool \<Rightarrow> file_state option) \<Rightarrow> tcmu_device \<Rightarrow> int \<times> tcmu_device \<times> fbo_state option" where
  "fbo_open mok dev_size exists opn dev =
     (if \<not> mok then (-12, dev, None)
      else
        let dev1 = tcmu_set_dev_block_size dev 2048 in
        if dev_size = -1 then (-22, dev1, None)
        else
          let n = nat ((dev_size sdiv 2048) mod 2 ^ 64); dev2 = tcmu_set_dev_num_lbas dev1 n in
          case dropWhile (\<lambda>c. c \<noteq> CHR ''/'') (cfgstring dev) of
            [] \<Rightarrow> (-22, dev2, None)
          | c # options \<Rightarrow>
              case fbo_options options False of
                None \<Rightarrow> (-22, dev2, None)
              | Some (ro, path) \<Rightarrow>
                  case opn path (\<not> exists path) ro of
                    None \<Rightarrow> (-22, dev2, None)
                  | Some f \<Rightarrow>
                      (0, dev2, Some (fbo_report_op_change
                         \<lparr>fbo_fd = f, fbo_num_lbas = n, fbo_block_size = 2048, fbo_cur_lba = 0, fbo_flags = if ro then FBO_READ_ONLY else 0,
                          format_progress = 0, event_op_ch_code = 0, async_cache_count = 0, fbo_threads = []\<rparr> 2)))"

section \<open>Answers\<close>

type_synonym fbo_result = "(tcmu_sts \<times> mem \<times> fbo_state \<times> tcmulib_cmd) option"

definition fbo_respond :: "mem \<Rightarrow> fbo_state \<Rightarrow> tcmulib_cmd \<Rightarrow> byte list \<Rightarrow> nat \<Rightarrow> fbo_result" where
  "fbo_respond m st cmd buf len = (case cmd_respond m cmd buf len of (c, m', cmd') \<Rightarrow> Some (TCMU_STS_OK, m', st, cmd'))"

definition fbo_emulate_inquiry :: "mem \<Rightarrow> fbo_state \<Rightarrow> tcmulib_cmd \<Rightarrow> fbo_result" where
  "fbo_emulate_inquiry m st cmd =
     (if cdb cmd 1 AND 0x01 \<noteq> 0 \<or> cdb cmd 2 \<noteq> 0 then Some (TCMU_STS_INVALID_CDB, m, st, cmd)
      else fbo_respond m st cmd
        ([0x05, 0x80, 0x05, 0x02, 31, 0, 0, 0x02] @ bytes_of ''LIO-ORG '' @ bytes_of ''VOPTA'' @ replicate 11 0x20 @ bytes_of ''0001'') 36)"

definition fbo_emulate_request_sense :: "mem \<Rightarrow> fbo_state \<Rightarrow> tcmulib_cmd \<Rightarrow> fbo_result" where
  "fbo_emulate_request_sense m st cmd =
     (if cdb cmd 1 AND 0x01 \<noteq> 0 then Some (TCMU_STS_INVALID_CDB, m, st, cmd)
      else
        let buf = (replicate 18 0)[0 := 0x70, 7 := 0xa] in
        fbo_respond m st cmd
          (if fbo_has st FBO_FORMATTING
           then buf_put (buf[2 := NOT_READY, 12 := 0x04, 13 := 0x04, 15 := 0x80]) 16 (put_unaligned_be16 (of_nat (format_progress st)))
           else buf) 18)"

text \<open>The mode pages; \<open>None\<close> is the negative return when there is not enough room.\<close>

definition fbo_handle_rwerp_page :: "nat \<Rightarrow> byte \<Rightarrow> byte list option" where
  "fbo_handle_rwerp_page buf_len page_control =
     (if buf_len < 12 then None
      else Some (let b = (replicate 12 0)[0 := 0x01, 1 := 10] in if page_control \<noteq> 1 then b[3 := 5, 8 := 5] else b))"

definition fbo_handle_cache_page :: "nat \<Rightarrow> byte \<Rightarrow> byte list option" where
  "fbo_handle_cache_page buf_len page_control =
     (if buf_len < 12 then None
      else Some (let b = (replicate 12 0)[0 := 0x08, 1 := 10] in if page_control \<noteq> 1 then b[2 := 4] else b))"

definition fbo_handle_timeout_page :: "nat \<Rightarrow> byte \<Rightarrow> byte list option" where
  "fbo_handle_timeout_page buf_len page_control =
     (if buf_len < 10 then None
      else Some (let b = (replicate 10 0)[0 := 0x1d, 1 := 8] in
                 if page_control \<noteq> 1 then b[6 := 0xff, 7 := 0xff, 8 := 0xff, 9 := 0xff] else b))"

definition fbo_modesense_handlers :: "(byte \<times> (nat \<Rightarrow> byte \<Rightarrow> byte list option)) list" where
  "fbo_modesense_handlers = [(0x01, fbo_handle_rwerp_page), (0x08, fbo_handle_cache_page), (0x1d, fbo_handle_timeout_page)]"

fun fbo_sense_all :: "(byte \<times> (nat \<Rightarrow> byte \<Rightarrow> byte list option)) list \<Rightarrow> byte \<Rightarrow> nat \<Rightarrow> byte list \<Rightarrow> nat \<Rightarrow> byte list \<times> nat" where
  "fbo_sense_all [] page_control alloc_len buf used_len = (buf, used_len)"
| "fbo_sense_all ((pg, get) # hs) page_control alloc_len buf used_len =
     (case get (512 - used_len) page_control of
        None \<Rightarrow> (buf, used_len)
      | Some page \<Rightarrow>
          let buf' = buf_put buf used_len page in
          if used_len + length page \<ge> alloc_len then (buf', used_len)
          else fbo_sense_all hs page_control alloc_len buf' (used_len + length page))"

definition fbo_sense_one :: "byte \<Rightarrow> byte \<Rightarrow> byte list \<Rightarrow> nat \<Rightarrow> (byte list \<times> nat) option" where
  "fbo_sense_one page_code page_control buf used_len =
     (case find (\<lambda>(pg, get). page_code = pg) fbo_modesense_handlers of
        None \<Rightarrow> None
      | Some (pg, get) \<Rightarrow>
          (case get (512 - used_len) page_control of
             None \<Rightarrow> None
           | Some page \<Rightarrow> Some (buf_put buf used_len page, used_len + length page)))"

definition fbo_emulate_mode_sense :: "mem \<Rightarrow> fbo_state \<Rightarrow> tcmulib_cmd \<Rightarrow> fbo_result" where
  "fbo_emulate_mode_sense m st cmd =
     (let sense_ten = (cdb cmd 0 = 0x5a);
          page_control = drop_bit 6 (cdb cmd 2) AND 0x3;
          page_code = cdb cmd 2 AND 0x3f in
      case tcmu_get_xfer_length (cdb cmd) of None \<Rightarrow> None | Some alloc_len \<Rightarrow>
      if page_control = 3 then Some (TCMU_STS_NOTSUPP_SAVE_PARAMS, m, st, cmd)
      else
        let buf = replicate 512 0; used_len = (if sense_ten then 8 else 4) in
        case (if page_code = 0 \<and> page_control = 0 then Some (buf, used_len)
              else if page_code = 0x3f then Some (fbo_sense_all fbo_modesense_handlers page_control alloc_len buf used_len)
              else fbo_sense_one page_code page_control buf used_len) of
          None \<Rightarrow> Some (TCMU_STS_INVALID_CDB, m, st, cmd)
        | Some (buf1, used1) \<Rightarrow>
            fbo_respond m st cmd
              (if sense_ten then buf_put buf1 0 (be_enc 2 (u16 (used1 - 2))) else buf1[0 := of_nat (used1 - 1)]) used1)"

lemma handler_pages:
  "(pg, get) \<in> set fbo_modesense_handlers \<Longrightarrow> get n c = Some page \<Longrightarrow> 10 \<le> length page \<and> length page \<le> n \<and> page ! 0 = pg"
  by (auto simp: fbo_modesense_handlers_def fbo_handle_rwerp_page_def fbo_handle_cache_page_def fbo_handle_timeout_page_def Let_def
      split: if_splits)

text \<open>The loop over the pages of a parameter list. Every page has at least ten bytes.\<close>

function fbo_select_loop :: "byte list \<Rightarrow> nat \<Rightarrow> nat \<Rightarrow> tcmu_sts" where
  "fbo_select_loop in_buf alloc_len used_len =
     (if alloc_len > used_len then
        case find (\<lambda>(pg, get). in_buf ! used_len = pg) fbo_modesense_handlers of
          None \<Rightarrow> TCMU_STS_INVALID_PARAM_LIST
        | Some (pg, get) \<Rightarrow>
            (case get (512 - used_len) 0 of
               None \<Rightarrow> TCMU_STS_INVALID_CDB
             | Some page \<Rightarrow>
                 if used_len + length page > alloc_len then TCMU_STS_INVALID_PARAM_LIST_LEN
                 else if page \<noteq> buf_get in_buf used_len (length page) then TCMU_STS_INVALID_PARAM_LIST
                 else fbo_select_loop in_buf alloc_len (used_len + length page))
      else TCMU_STS_OK)"
  by pat_completeness auto

termination
proof (relation "measure (\<lambda>(_, alloc_len, used_len). alloc_len - used_len)", goal_cases)
  case (2 in_buf alloc_len used_len r pg get page)
  then have "10 \<le> length page" using handler_pages by (metis find_Some_iff nth_mem)
  then show ?case using 2 by auto
qed simp

declare fbo_select_loop.simps [simp del]

text \<open>\<open>garbage\<close>: what the uninitialised \<open>in_buf[512]\<close> holds.\<close>

definition fbo_emulate_mode_select :: "byte list \<Rightarrow> mem \<Rightarrow> fbo_state \<Rightarrow> tcmulib_cmd \<Rightarrow> fbo_result" where
  "fbo_emulate_mode_select garbage m st cmd =
     (let select_ten = (cdb cmd 0 = 0x55) in
      case tcmu_get_xfer_length (cdb cmd) of None \<Rightarrow> None | Some alloc_len \<Rightarrow>
      if cdb cmd 1 AND 0x10 = 0 \<or> cdb cmd 1 AND 0x01 \<noteq> 0 then Some (TCMU_STS_INVALID_CDB, m, st, cmd)
      else if alloc_len > 512 then Some (TCMU_STS_INVALID_PARAM_LIST_LEN, m, st, cmd)
      else
        case tcmu_memcpy_from_iovec m garbage 512 (cmd_iovs cmd) of (copied, in_buf, vs) \<Rightarrow>
        let cmd' = set_cmd_iovs cmd vs in
        if copied \<noteq> alloc_len then Some (TCMU_STS_INVALID_PARAM_LIST_LEN, m, st, cmd')
        else Some (fbo_select_loop in_buf alloc_len (if select_ten then 8 else 4), m, st, cmd'))"

definition fbo_emulate_allow_medium_removal :: "mem \<Rightarrow> fbo_state \<Rightarrow> tcmulib_cmd \<Rightarrow> fbo_result" where
  "fbo_emulate_allow_medium_removal m st cmd =
     Some (TCMU_STS_OK, m, if cdb cmd 4 AND 0x01 \<noteq> 0 then fbo_set FBO_PREV_EJECT st else fbo_clear FBO_PREV_EJECT st, cmd)"

section \<open>Disc information\<close>

definition fbo_emulate_read_toc :: "mem \<Rightarrow> fbo_state \<Rightarrow> tcmulib_cmd \<Rightarrow> fbo_result" where
  "fbo_emulate_read_toc m st cmd =
     (let time_bit = cdb cmd 1 AND 0x02 \<noteq> 0; format = cdb cmd 2 AND 0x0f; n = fbo_num_lbas st; buf = replicate 512 0 in
      if format = 0x00 then
        let b1 = buf[1 := 0x12, 2 := 1, 3 := 1, 5 := 0x14, 6 := 1];
            b2 = (if time_bit then b1[10 := 0x02] else b1);
            b3 = b2[13 := if fbo_has st FBO_READ_ONLY then 0x14 else 0x17, 14 := 0xaa];
            b4 = (if time_bit then
                    if n \<ge> (0xff * 60 + 60 - 1) * 75 + 75 - 1 - 150 then b3[17 := 0xff, 18 := 59, 19 := 74]
                    else b3[17 := of_nat ((n div 75 + 2) div 60), 18 := of_nat ((n div 75 + 2) mod 60), 19 := of_nat (n mod 75)]
                  else buf_put b3 16 (put_unaligned_be32 (of_nat n)))
        in fbo_respond m st cmd b4 0x14
      else if format = 0x01 then
        let b1 = buf[1 := 0xa, 2 := 1, 3 := 1, 5 := 0x14, 6 := 1] in
        fbo_respond m st cmd (if time_bit then b1[10 := 2] else b1) 0xc
      else Some (TCMU_STS_INVALID_CDB, m, st, cmd))"

text \<open>
  GET CONFIGURATION appends the descriptor of each feature in turn. \<open>fbo_wanted rt start code current\<close> is the condition in
  front of a feature; \<open>fbo_feature\<close> writes the descriptor at \<open>used_len\<close>.
\<close>

definition fbo_wanted :: "byte \<Rightarrow> nat \<Rightarrow> nat \<Rightarrow> bool \<Rightarrow> bool" where
  "fbo_wanted rt start code current \<longleftrightarrow> rt = 2 \<and> start = code \<or> start \<le> code \<and> (rt = 0 \<or> rt = 1 \<and> current)"

definition fbo_feature :: "bool \<Rightarrow> byte list \<Rightarrow> byte list \<times> nat \<Rightarrow> byte list \<times> nat" where
  "fbo_feature wanted d = (\<lambda>(buf, used_len). if wanted then (buf_put buf used_len d, used_len + length d) else (buf, used_len))"

definition fbo_profile_list :: "bool \<Rightarrow> byte list" where
  "fbo_profile_list ro =
     be_enc 2 0x0000 @ [3, 16] @ be_enc 2 0x12 @ [if ro then 0 else 1, 0] @ be_enc 2 0x10 @ [if ro then 1 else 0, 0] @
     be_enc 2 0x0a @ [0, 0] @ be_enc 2 0x08 @ [0, 0]"

definition fbo_emulate_get_configuration :: "mem \<Rightarrow> fbo_state \<Rightarrow> tcmulib_cmd \<Rightarrow> fbo_result" where
  "fbo_emulate_get_configuration m st cmd =
     (let rt = cdb cmd 1 AND 0x03; start = cdb_be (cdb cmd) 2 2; ro = fbo_has st FBO_READ_ONLY in
      if rt = 3 then Some (TCMU_STS_INVALID_CDB, m, st, cmd)
      else
        let s0 = (buf_put (replicate 512 0) 6 (put_unaligned_be16 (if ro then 0x10 else 0x12)), 8);
            s1 = fbo_feature (fbo_wanted rt start 0x0000 True) (fbo_profile_list ro) s0;
            s2 = fbo_feature (fbo_wanted rt start 0x0001 True) (be_enc 2 0x0001 @ [7, 8] @ be_enc 4 1 @ [1, 0, 0, 0]) s1;
            s3 = fbo_feature (fbo_wanted rt start 0x0002 True) (be_enc 2 0x0002 @ [7, 4, 2, 0, 0, 0]) s2;
            s4 = fbo_feature (fbo_wanted rt start 0x0003 True) (be_enc 2 0x0003 @ [3, 4, 0x20, 0, 0, 0]) s3;
            s5 = fbo_feature (fbo_wanted rt start 0x0010 True)
                   (be_enc 2 0x0010 @ [1, 8] @ be_enc 4 (fbo_block_size st) @ be_enc 2 0x10 @ [0x01, 0]) s4;
            s6 = fbo_feature (fbo_wanted rt start 0x001d False) (be_enc 2 0x001d @ [0, 0]) s5;
            s7 = fbo_feature (fbo_wanted rt start 0x001e False) (be_enc 2 0x001e @ [8, 4, 0, 0, 0, 0]) s6;
            s8 = fbo_feature (fbo_wanted rt start 0x001f True) (be_enc 2 0x001f @ [1, 0]) s7;
            s9 = fbo_feature (fbo_wanted rt start 0x0020 (\<not> ro))
                   (be_enc 2 0x0020 @ [if ro then 4 else 5, 0xc] @ be_enc 4 (u32 (sub64 (fbo_num_lbas st) 1)) @
                    be_enc 4 (fbo_block_size st) @ be_enc 2 0x10 @ [0x01, 0]) s8;
            s10 = fbo_feature (fbo_wanted rt start 0x0021 False) (be_enc 2 0x0021 @ [4, 4, 0, 0, 0, 0]) s9;
            s11 = fbo_feature (fbo_wanted rt start 0x0023 (\<not> ro)) (be_enc 2 0x0023 @ [if ro then 0 else 1, 0]) s10;
            s12 = fbo_feature (fbo_wanted rt start 0x0024 (\<not> ro)) (be_enc 2 0x0024 @ [if ro then 4 else 5, 4, 0, 0, 0, 0]) s11;
            s13 = fbo_feature (fbo_wanted rt start 0x0026 False) (be_enc 2 0x0026 @ [0, 0]) s12;
            s14 = fbo_feature (fbo_wanted rt start 0x002d False) (be_enc 2 0x002d @ [8, 4, 0, 0, 0, 0]) s13;
            (buf, used_len) = fbo_feature (fbo_wanted rt start 0x0105 True) (be_enc 2 0x0105 @ [5, 4, 0, 0, 0, 0]) s14
        in fbo_respond m st cmd (buf_put buf 0 (put_unaligned_be32 (of_nat (used_len - 4)))) used_len)"

text \<open>The event that is reported is cleared, unless the allocation length only leaves room for the header.\<close>

definition fbo_emulate_get_event_status_notification :: "mem \<Rightarrow> fbo_state \<Rightarrow> tcmulib_cmd \<Rightarrow> fbo_result" where
  "fbo_emulate_get_event_status_notification m st cmd =
     (let class_req = cdb cmd 4 in
      case tcmu_get_xfer_length (cdb cmd) of None \<Rightarrow> None | Some xfer_len \<Rightarrow>
      let alloc_len = u16 xfer_len in
      if cdb cmd 1 AND 0x01 = 0 then Some (TCMU_STS_INVALID_CDB, m, st, cmd)
      else
        let buf = (replicate 8 0)[3 := 0x42];
            (b, used_len, st') =
              (if class_req AND 0x42 = 0 then (buf[2 := 0x80], 4, st)
               else if class_req AND 0x02 \<noteq> 0
                 \<and> (event_op_ch_code st \<noteq> 0 \<or> class_req AND 0x40 = 0 \<or> \<not> fbo_has st FBO_BUSY_EVENT) then
                 if alloc_len > 4 then
                   let b1 = buf[2 := 1, 4 := of_nat (event_op_ch_code st)] in
                   (if event_op_ch_code st \<noteq> 0 then buf_put b1 6 (put_unaligned_be16 0x0001) else b1, 8, st\<lparr>event_op_ch_code := 0\<rparr>)
                 else (buf[2 := 1], 4, st)
               else if alloc_len > 4 then
                 let b1 = (if fbo_has st FBO_BUSY_EVENT then buf[2 := 6, 4 := 1] else buf[2 := 6]);
                     st1 = (if fbo_has st FBO_BUSY_EVENT then fbo_clear FBO_BUSY_EVENT st else st) in
                 (if fbo_has st1 FBO_FORMAT_IMMED \<or> async_cache_count st1 \<noteq> 0 then b1[5 := 1] else b1, 8, st1)
               else (buf[2 := 6], 4, st))
        in fbo_respond m st' cmd (buf_put b 0 (put_unaligned_be16 (of_nat (used_len - 4)))) used_len)"

definition fbo_emulate_read_disc_information :: "mem \<Rightarrow> fbo_state \<Rightarrow> tcmulib_cmd \<Rightarrow> fbo_result" where
  "fbo_emulate_read_disc_information m st cmd =
     fbo_respond m st cmd
       ((replicate 34 0)[1 := 32, 2 := if fbo_has st FBO_READ_ONLY then 0x0e else 0x1f, 3 := 1, 4 := 1, 5 := 1, 6 := 1, 7 := 0x20]) 34"

abbreviation (input) manuf_info :: string where "manuf_info \<equiv> ''VIRTUAL FB OPT''"

definition fbo_emulate_read_dvd_structure :: "mem \<Rightarrow> fbo_state \<Rightarrow> tcmulib_cmd \<Rightarrow> fbo_result" where
  "fbo_emulate_read_dvd_structure m st cmd =
     (let format = cdb cmd 7; ro = fbo_has st FBO_READ_ONLY; buf = replicate 512 0 in
      if cdb cmd 6 \<noteq> 0 then Some (TCMU_STS_INVALID_CDB, m, st, cmd)
      else if format = 0x00 then
        let start_phys = (if ro then 0x30000 else 0x31000);
            end_phys = u32 (sub64 (add64 start_phys (fbo_num_lbas st)) 1);
            b1 = buf[1 := 19, 4 := if ro then 0x02 else 0x12, 5 := 0x0f];
            b2 = (if \<not> ro then b1[6 := 0x02] else b1);
            b3 = buf_put (b2[9 := of_nat (start_phys div 2 ^ 16)]) 10 (put_unaligned_be16 (of_nat (start_phys mod 2 ^ 16)));
            b4 = buf_put (b3[13 := of_nat (end_phys div 2 ^ 16)]) 14 (put_unaligned_be16 (of_nat (end_phys mod 2 ^ 16)))
        in fbo_respond m st cmd b4 21
      else if format = 0x01 then fbo_respond m st cmd (buf[1 := 6]) 8
      else if format = 0x04 then
        fbo_respond m st cmd (buf_put (buf[2 := of_nat (length manuf_info + 2)]) 4 (bytes_of manuf_info)) (length manuf_info + 4)
      else if format = 0x09 then
        if ro then Some (TCMU_STS_INVALID_CDB, m, st, cmd)
        else fbo_respond m st cmd (buf[1 := 6, 5 := 0x10]) 8
      else if format = 0xff then
        fbo_respond m st cmd
          (buf[1 := 18, 4 := 0x00, 5 := 0x40, 7 := 21, 8 := 0x01, 9 := 0x40, 11 := 8, 12 := 0x04, 13 := 0x40,
               15 := of_nat (length manuf_info + 4), 16 := 0x09, 17 := 0x40, 19 := 8]) 20
      else Some (TCMU_STS_INVALID_CDB, m, st, cmd))"

definition fbo_emulate_mechanism_status :: "mem \<Rightarrow> fbo_state \<Rightarrow> tcmulib_cmd \<Rightarrow> fbo_result" where
  "fbo_emulate_mechanism_status m st cmd =
     (let buf = replicate 8 0; cur = fbo_cur_lba st in
      fbo_respond m st cmd
        (if fbo_has st FBO_DEV_IO
         then buf_put (buf[1 := 0x20, 2 := of_nat (cur div 2 ^ 16)]) 3 (put_unaligned_be16 (of_nat (cur mod 2 ^ 16)))
         else buf) 8)"

definition fbo_emulate_read_format_capacities :: "mem \<Rightarrow> fbo_state \<Rightarrow> tcmulib_cmd \<Rightarrow> fbo_result" where
  "fbo_emulate_read_format_capacities m st cmd =
     (let bs = fbo_block_size st;
          b1 = (buf_put (replicate 20 0) 4 (put_unaligned_be32 (of_nat (fbo_num_lbas st))))[8 := 0x02, 9 := of_nat (bs div 2 ^ 16)];
          b2 = buf_put b1 10 (put_unaligned_be16 (of_nat (bs mod 2 ^ 16)));
          (b3, used_len) = (if fbo_has st FBO_READ_ONLY then (b2, 12) else ((buf_put b2 12 (buf_get b2 4 8))[16 := 0], 20))
      in fbo_respond m st cmd (b3[3 := of_nat (used_len - 4)]) used_len)"

end
