(* ===== verification/Fbo_IO.thy ===== *)
theory Fbo_IO
  imports Fbo_Emul
begin

unbundle bit_operations_syntax

text \<open>
  The optical handler, second part: cache synchronisation, reading, writing, verifying and formatting (\<open>file_optical.c\<close>
  995--1410), with the threads that run behind an immediate command. A thread advances in the steps between which it does
  not hold \<open>state_mtx\<close>.
\<close>

section \<open>Synchronisation\<close>

definition fbo_fsync :: "fbo_state \<Rightarrow> bool \<times> fbo_state" where
  "fbo_fsync st = (fd_io (fbo_fd st) (fd_k (fbo_fd st)) = 0, st\<lparr>fbo_fd := next_call (fbo_fd st)\<rparr>)"

definition fbo_do_sync :: "fbo_state \<Rightarrow> tcmu_sts \<times> fbo_state" where
  "fbo_do_sync st = (case fbo_fsync st of (ok, st') \<Rightarrow> (if \<not> ok then TCMU_STS_WR_ERR else TCMU_STS_OK, st'))"

text \<open>\<open>spawn\<close>: \<open>pthread_create\<close> succeeds; the code does not look.\<close>

definition fbo_pthread_create :: "bool \<Rightarrow> fbo_thread \<Rightarrow> fbo_state \<Rightarrow> fbo_state" where
  "fbo_pthread_create spawn t st = (if spawn then st\<lparr>fbo_threads := fbo_threads st @ [t]\<rparr> else st)"

definition fbo_synchronize_cache :: "bool \<Rightarrow> mem \<Rightarrow> fbo_state \<Rightarrow> tcmulib_cmd \<Rightarrow> fbo_result" where
  "fbo_synchronize_cache spawn m st cmd =
     (if cdb cmd 1 AND 0x01 \<noteq> 0 then Some (TCMU_STS_INVALID_CDB, m, st, cmd)
      else if cdb cmd 1 AND 0x02 \<noteq> 0 then Some (TCMU_STS_OK, m, fbo_pthread_create spawn SyncBegin st, cmd)
      else case fbo_do_sync st of (rc, st') \<Rightarrow> Some (rc, m, st', cmd))"

section \<open>Reading\<close>

text \<open>The address and the length in bytes, which is an \<open>int\<close>; \<open>Inl\<close> is the status of a refusal.\<close>

definition fbo_check_lba_and_length :: "fbo_state \<Rightarrow> tcmulib_cmd \<Rightarrow> (tcmu_sts + nat \<times> int) option" where
  "fbo_check_lba_and_length st cmd =
     (case (tcmu_get_lba (cdb cmd), tcmu_get_xfer_length (cdb cmd)) of
        (Some lba, Some num_blocks) \<Rightarrow>
          if lba \<ge> fbo_num_lbas st \<or> add64 lba num_blocks > fbo_num_lbas st then Some (Inl TCMU_STS_RANGE)
          else Some (Inr (lba, int32 (num_blocks * fbo_block_size st)))
      | _ \<Rightarrow> None)"

text \<open>
  \<open>None\<close>: the loop never ends, as at the end of the file, where \<open>preadv\<close> returns zero, and once \<open>remaining\<close> is negative; or the
  seek leaves the array. A read error ends the loop.
\<close>

function fbo_read_loop :: "file_state \<Rightarrow> mem \<Rightarrow> iovec list \<Rightarrow> nat \<Rightarrow> nat \<Rightarrow> (mem \<times> iovec list \<times> file_state) option" where
  "fbo_read_loop f m iov remaining offset =
     (if remaining = 0 then Some (m, iov, f)
      else
        case fd_preadv f m iov offset of (ret, m1, f1) \<Rightarrow>
        if ret < 0 then Some (m1, iov, f1)
        else
          case tcmu_seek_in_iovec iov (nat ret) of
            None \<Rightarrow> None
          | Some (c, iov') \<Rightarrow>
              if ret = 0 \<or> nat ret > remaining then None
              else fbo_read_loop f1 m1 iov' (remaining - nat ret) (offset + nat ret))"
  by pat_completeness auto

termination by (relation "measure (\<lambda>(_, _, _, remaining, _). remaining)") auto

declare fbo_read_loop.simps [simp del]

definition fbo_read :: "mem \<Rightarrow> fbo_state \<Rightarrow> tcmulib_cmd \<Rightarrow> fbo_result" where
  "fbo_read m st cmd =
     (if cdb cmd 0 \<noteq> 0x08 \<and> cdb cmd 1 AND 0x11 \<noteq> 0 then Some (TCMU_STS_INVALID_CDB, m, st, cmd)
      else
        case fbo_check_lba_and_length st cmd of
          None \<Rightarrow> None
        | Some (Inl rc) \<Rightarrow> Some (rc, m, st, cmd)
        | Some (Inr (cur_lba, len)) \<Rightarrow>
            (case (if cdb cmd 1 AND 0x08 \<noteq> 0 then fbo_fsync st else (True, st)) of (ok, st1) \<Rightarrow>
               if \<not> ok then Some (TCMU_STS_RD_ERR, m, st1, cmd)
               else if len < 0 then None
               else
                 let st2 = fbo_set FBO_DEV_IO (st1\<lparr>fbo_cur_lba := u32 cur_lba\<rparr>) in
                 case fbo_read_loop (fbo_fd st2) m (cmd_iovs cmd) (nat len) (mul64 (fbo_block_size st) cur_lba) of
                   None \<Rightarrow> None
                 | Some (m', iov, f) \<Rightarrow> Some (TCMU_STS_OK, m', fbo_clear FBO_DEV_IO (st2\<lparr>fbo_fd := f\<rparr>), set_cmd_iovs cmd iov)))"

section \<open>Verifying and writing\<close>

text \<open>The comparison of what was read with the initiator's data: a status, or the rest of the array.\<close>

function fbo_verify_loop ::
  "file_state \<Rightarrow> mem \<Rightarrow> iovec list \<Rightarrow> byte list \<Rightarrow> nat \<Rightarrow> nat \<Rightarrow> (tcmu_sts \<times> iovec list \<times> byte list \<times> file_state) option" where
  "fbo_verify_loop f m iov sense remaining offset =
     (if remaining = 0 then Some (TCMU_STS_OK, iov, sense, f)
      else
        case fd_pread f remaining offset of (ret, buf, f1) \<Rightarrow>
        if ret < 0 then Some (TCMU_STS_RD_ERR, iov, sense, f1)
        else
          case tcmu_compare_with_iovec m buf iov (nat ret) of
            None \<Rightarrow> None
          | Some cmp_offset \<Rightarrow>
              if cmp_offset \<noteq> -1 then Some (TCMU_STS_MISCOMPARE, iov, tcmu_set_sense_info sense (nat cmp_offset), f1)
              else
                case tcmu_seek_in_iovec iov (nat ret) of
                  None \<Rightarrow> None
                | Some (c, iov') \<Rightarrow>
                    if ret = 0 \<or> nat ret > remaining then None
                    else fbo_verify_loop f1 m iov' sense (remaining - nat ret) (offset + nat ret))"
  by pat_completeness auto

termination by (relation "measure (\<lambda>(_, _, _, _, remaining, _). remaining)") auto

declare fbo_verify_loop.simps [simp del]

text \<open>\<open>mok\<close>: the buffer can be allocated; a negative length never can.\<close>

definition fbo_do_verify :: "bool \<Rightarrow> mem \<Rightarrow> fbo_state \<Rightarrow> tcmulib_cmd \<Rightarrow> nat \<Rightarrow> int \<Rightarrow> fbo_result" where
  "fbo_do_verify mok m st cmd offset len =
     (if \<not> mok \<or> len < 0 then Some (TCMU_STS_NO_RESOURCE, m, st, cmd)
      else if fbo_block_size st = 0 then None
      else
        let st1 = fbo_set FBO_DEV_IO (st\<lparr>fbo_cur_lba := u32 (offset div fbo_block_size st)\<rparr>) in
        case fbo_verify_loop (fbo_fd st1) m (cmd_iovs cmd) (sense_buf cmd) (nat len) offset of
          None \<Rightarrow> None
        | Some (rc, iov, sense, f) \<Rightarrow>
            Some (rc, m, fbo_clear FBO_DEV_IO (st1\<lparr>fbo_fd := f\<rparr>), (set_cmd_iovs cmd iov)\<lparr>sense_buf := sense\<rparr>))"

function fbo_write_loop :: "file_state \<Rightarrow> mem \<Rightarrow> iovec list \<Rightarrow> nat \<Rightarrow> nat \<Rightarrow> (tcmu_sts \<times> file_state) option" where
  "fbo_write_loop f m iov remaining offset =
     (if remaining = 0 then Some (TCMU_STS_OK, f)
      else
        case fd_pwritev f m iov offset of (ret, f1) \<Rightarrow>
        if ret < 0 then Some (TCMU_STS_WR_ERR, f1)
        else
          case tcmu_seek_in_iovec iov (nat ret) of
            None \<Rightarrow> None
          | Some (c, iov') \<Rightarrow>
              if ret = 0 \<or> nat ret > remaining then None
              else fbo_write_loop f1 m iov' (remaining - nat ret) (offset + nat ret))"
  by pat_completeness auto

termination by (relation "measure (\<lambda>(_, _, _, remaining, _). remaining)") auto

declare fbo_write_loop.simps [simp del]

text \<open>The loop consumes a copy of the array, so the verification starts with the whole of it.\<close>

definition fbo_write :: "bool \<Rightarrow> mem \<Rightarrow> fbo_state \<Rightarrow> tcmulib_cmd \<Rightarrow> bool \<Rightarrow> fbo_result" where
  "fbo_write mok m st cmd do_verify =
     (if fbo_has st FBO_READ_ONLY then Some (TCMU_STS_WR_ERR_INCOMPAT_FRMT, m, st, cmd)
      else
        case fbo_check_lba_and_length st cmd of
          None \<Rightarrow> None
        | Some (Inl rc) \<Rightarrow> Some (rc, m, st, cmd)
        | Some (Inr (cur_lba, len)) \<Rightarrow>
            if len < 0 then None
            else
              let st1 = fbo_set FBO_DEV_IO (st\<lparr>fbo_cur_lba := u32 cur_lba\<rparr>); offset = mul64 (fbo_block_size st) cur_lba in
              case fbo_write_loop (fbo_fd st1) m (cmd_iovs cmd) (nat len) offset of
                None \<Rightarrow> None
              | Some (rc, f) \<Rightarrow>
                  let st2 = st1\<lparr>fbo_fd := f\<rparr> in
                  (case (if rc = TCMU_STS_OK \<and> (do_verify \<or> cdb cmd 1 AND 0x08 \<noteq> 0)
                         then (case fbo_fsync st2 of (ok, st3) \<Rightarrow> (if ok then rc else TCMU_STS_WR_ERR, st3)) else (rc, st2)) of
                     (rc', st3) \<Rightarrow>
                       let st4 = fbo_clear FBO_DEV_IO st3 in
                       if \<not> do_verify \<or> rc' \<noteq> TCMU_STS_OK then Some (rc', m, st4, cmd)
                       else fbo_do_verify mok m st4 cmd offset len))"

definition fbo_verify :: "bool \<Rightarrow> mem \<Rightarrow> fbo_state \<Rightarrow> tcmulib_cmd \<Rightarrow> fbo_result" where
  "fbo_verify mok m st cmd =
     (if fbo_has st FBO_READ_ONLY then Some (TCMU_STS_WR_ERR_INCOMPAT_FRMT, m, st, cmd)
      else if cdb cmd 1 AND 0x13 \<noteq> 0 then Some (TCMU_STS_INVALID_CDB, m, st, cmd)
      else
        case fbo_check_lba_and_length st cmd of
          None \<Rightarrow> None
        | Some (Inl rc) \<Rightarrow> Some (rc, m, st, cmd)
        | Some (Inr (cur_lba, len)) \<Rightarrow> fbo_do_verify mok m st cmd (mul64 (fbo_block_size st) cur_lba) len)"

section \<open>Formatting\<close>

text \<open>
  One pass of the loop of \<open>fbo_do_format\<close>: a write of zeros, whose length is not looked at. \<open>Inl\<close> is the status with which the loop is
  left; \<open>None\<close> is the division by a zero block size.
\<close>

definition fbo_format_chunk :: "fbo_state \<Rightarrow> nat \<Rightarrow> nat \<Rightarrow> nat \<Rightarrow> ((tcmu_sts + nat \<times> nat \<times> nat) \<times> fbo_state) option" where
  "fbo_format_chunk st done_blocks offset len =
     (let left = mul64 (sub64 (fbo_num_lbas st) done_blocks) (fbo_block_size st);
          len1 = (if left < len then u32 left else len) in
      case fd_pwrite (fbo_fd st) (replicate len1 0) offset of (ret, f) \<Rightarrow>
        let st1 = st\<lparr>fbo_fd := f\<rparr> in
        if ret = -1 then Some (Inl TCMU_STS_WR_ERR, st1)
        else if fbo_block_size st = 0 then None
        else
          let done1 = u32 (done_blocks + len1 div fbo_block_size st);
              st2 = (if done1 < fbo_num_lbas st
                     then st1\<lparr>format_progress := u32 (u32 (0x10000 * done1) div fbo_num_lbas st)\<rparr> else st1)
          in Some (Inr (done1, add64 offset len1, len1), st2))"

lemma chunk_num_lbas [simp]: "fbo_format_chunk st d off len = Some (r, st1) \<Longrightarrow> fbo_num_lbas st1 = fbo_num_lbas st"
  by (auto simp: fbo_format_chunk_def Let_def split: prod.splits if_splits)

text \<open>\<open>None\<close>: no progress, or the 32-bit count of blocks wraps around and the loop goes on behind the end of the device.\<close>

function fbo_format_loop :: "fbo_state \<Rightarrow> nat \<Rightarrow> nat \<Rightarrow> nat \<Rightarrow> (tcmu_sts \<times> fbo_state) option" where
  "fbo_format_loop st done_blocks offset len =
     (if done_blocks < fbo_num_lbas st then
        case fbo_format_chunk st done_blocks offset len of
          None \<Rightarrow> None
        | Some (Inl rc, st1) \<Rightarrow> Some (rc, st1)
        | Some (Inr (done1, offset1, len1), st1) \<Rightarrow>
            if done1 \<le> done_blocks then None else fbo_format_loop st1 done1 offset1 len1
      else Some (TCMU_STS_OK, st))"
  by pat_completeness auto

termination by (relation "measure (\<lambda>(st, done_blocks, _, _). fbo_num_lbas st - done_blocks)") auto

declare fbo_format_loop.simps [simp del] chunk_num_lbas [simp del]

definition fbo_do_format :: "bool \<Rightarrow> fbo_state \<Rightarrow> (tcmu_sts \<times> fbo_state) option" where
  "fbo_do_format mok st =
     (if \<not> mok then Some (TCMU_STS_NO_RESOURCE, st)
      else case fbo_format_loop st 0 0 (1024 * 1024) of
        None \<Rightarrow> None
      | Some (rc, st1) \<Rightarrow> Some (rc, fbo_clear FBO_FORMATTING st1))"

text \<open>\<open>garbage\<close>: what the uninitialised \<open>param_list[12]\<close> holds.\<close>

definition fbo_emulate_format_unit :: "bool \<Rightarrow> bool \<Rightarrow> byte list \<Rightarrow> mem \<Rightarrow> fbo_state \<Rightarrow> tcmulib_cmd \<Rightarrow> fbo_result" where
  "fbo_emulate_format_unit spawn mok garbage m st cmd =
     (if fbo_has st FBO_READ_ONLY then Some (TCMU_STS_WR_ERR_INCOMPAT_FRMT, m, st, cmd)
      else if cdb cmd 1 AND 0x10 = 0 \<or> cdb cmd 1 AND 0x07 \<noteq> 1 \<or> cdb cmd 3 \<noteq> 0 \<or> cdb cmd 4 \<noteq> 0 then Some (TCMU_STS_INVALID_CDB, m, st, cmd)
      else
        case tcmu_memcpy_from_iovec m garbage 12 (cmd_iovs cmd) of (copied, pl, vs) \<Rightarrow>
        let cmd1 = set_cmd_iovs cmd vs in
        if copied < 12 then Some (TCMU_STS_INVALID_PARAM_LIST_LEN, m, st, cmd1)
        else if pl ! 1 AND 0x80 = 0 \<and> pl ! 1 AND 0x7c \<noteq> 0 then Some (TCMU_STS_INVALID_PARAM_LIST, m, st, cmd1)
        else if pl ! 1 AND 0x1c \<noteq> 0 then Some (TCMU_STS_INVALID_PARAM_LIST, m, st, cmd1)
        else if be_dec (buf_get pl 2 2) \<noteq> 8 then Some (TCMU_STS_INVALID_PARAM_LIST, m, st, cmd1)
        else if pl ! 8 \<noteq> 0 then Some (TCMU_STS_INVALID_PARAM_LIST, m, st, cmd1)
        else if (cdb cmd 1 AND 0x08 \<noteq> 0 \<or> pl ! 1 AND 0x20 = 0) \<and> be_dec (buf_get pl 4 2) \<noteq> fbo_num_lbas st
          then Some (TCMU_STS_INVALID_PARAM_LIST, m, st, cmd1)
        else if unat (pl ! 9) * 2 ^ 16 + be_dec (buf_get pl 10 2) \<noteq> fbo_block_size st then Some (TCMU_STS_INVALID_PARAM_LIST, m, st, cmd1)
        else if fbo_has st FBO_FORMATTING
          then Some (TCMU_STS_FRMT_IN_PROGRESS, m, st, cmd1\<lparr>sense_buf := tcmu_set_sense_key_specific_info (sense_buf cmd) (format_progress st)\<rparr>)
        else
          let st1 = fbo_set FBO_FORMATTING (st\<lparr>format_progress := 0\<rparr>) in
          if pl ! 1 AND 0x02 \<noteq> 0 then Some (TCMU_STS_OK, m, fbo_pthread_create spawn FmtBegin st1, cmd1)
          else case fbo_do_format mok st1 of
            None \<Rightarrow> None
          | Some (rc, st2) \<Rightarrow> Some (rc, m, st2, cmd1))"

section \<open>Threads\<close>

text \<open>
  A step of \<open>fbo_async_sync_cache\<close> or \<open>fbo_async_format\<close>: what the thread does next (\<open>None\<close> inside: it ends) and the state. A failed
  allocation in \<open>fbo_do_format\<close> returns at once.
\<close>

definition fbo_thread_step :: "bool \<Rightarrow> fbo_thread \<Rightarrow> fbo_state \<Rightarrow> (fbo_thread option \<times> fbo_state) option" where
  "fbo_thread_step mok t st =
     (case t of
        SyncBegin \<Rightarrow> Some (Some SyncFlush, fbo_set FBO_BUSY_EVENT (st\<lparr>async_cache_count := (async_cache_count st + 1) mod 256\<rparr>))
      | SyncFlush \<Rightarrow> Some (Some SyncEnd, snd (fbo_do_sync st))
      | SyncEnd \<Rightarrow> Some (None, fbo_set FBO_BUSY_EVENT (st\<lparr>async_cache_count := (async_cache_count st + 255) mod 256\<rparr>))
      | FmtBegin \<Rightarrow> Some (Some FmtAlloc, fbo_set (FBO_BUSY_EVENT OR FBO_FORMAT_IMMED) st)
      | FmtAlloc \<Rightarrow> Some (Some (if mok then FmtLoop 0 0 (1024 * 1024) else FmtEnd), st)
      | FmtLoop done_blocks offset len \<Rightarrow>
          if done_blocks < fbo_num_lbas st then
            (case fbo_format_chunk st done_blocks offset len of
               None \<Rightarrow> None
             | Some (Inl rc, st1) \<Rightarrow> Some (Some FmtEnd, fbo_clear FBO_FORMATTING st1)
             | Some (Inr (done1, offset1, len1), st1) \<Rightarrow> Some (Some (FmtLoop done1 offset1 len1), st1))
          else Some (Some FmtEnd, fbo_clear FBO_FORMATTING st)
      | FmtEnd \<Rightarrow> Some (None, fbo_set FBO_BUSY_EVENT (fbo_clear FBO_FORMAT_IMMED st)))"

end
