(* ===== verification/Fbo_Cmd.thy ===== *)
theory Fbo_Cmd
  imports Fbo_IO
begin

unbundle bit_operations_syntax

text \<open>
  The optical handler, third part: the dispatch of a command (\<open>fbo_handle_cmd\<close>, \<open>file_optical.c\<close> 1444--1556), and the device as a step
  relation over commands and the threads behind immediate commands.
\<close>

section \<open>Dispatch\<close>

text \<open>What the system answers during a command: thread creation, memory, and what the stack holds.\<close>

record fbo_env =
  fe_spawn :: bool
  fe_malloc :: bool
  fe_garbage :: "byte list"

definition fbo_emul :: "fbo_state \<Rightarrow> emul_result \<Rightarrow> fbo_result" where
  "fbo_emul st r = map_option (\<lambda>(sts, m, cmd). (sts, m, st, cmd)) r"

definition fbo_handle_cmd :: "fbo_env \<Rightarrow> mem \<Rightarrow> fbo_state \<Rightarrow> tcmulib_cmd \<Rightarrow> fbo_result" where
  "fbo_handle_cmd env m st cmd =
     (let op = cdb cmd 0 in
      if fbo_has st FBO_FORMATTING \<and> op \<noteq> 0x12 \<and> op \<noteq> 0x03 \<and> op \<noteq> 0x46 \<and> op \<noteq> 0x4a then
        Some (TCMU_STS_FRMT_IN_PROGRESS, m, st, cmd\<lparr>sense_buf := tcmu_set_sense_key_specific_info (sense_buf cmd) (format_progress st)\<rparr>)
      else if op = 0x00 then fbo_emul st (tcmu_emulate_test_unit_ready m cmd)
      else if op = 0x03 then fbo_emulate_request_sense m st cmd
      else if op = 0x04 then fbo_emulate_format_unit (fe_spawn env) (fe_malloc env) (fe_garbage env) m st cmd
      else if op = 0x08 \<or> op = 0x28 \<or> op = 0xa8 then fbo_read m st cmd
      else if op = 0x2e then fbo_write (fe_malloc env) m st cmd True
      else if op = 0x0a \<or> op = 0x2a \<or> op = 0xaa then fbo_write (fe_malloc env) m st cmd False
      else if op = 0x12 then fbo_emulate_inquiry m st cmd
      else if op = 0x15 \<or> op = 0x55 then fbo_emulate_mode_select (fe_garbage env) m st cmd
      else if op = 0x1a \<or> op = 0x5a then fbo_emulate_mode_sense m st cmd
      else if op = 0x1b then fbo_emul st (tcmu_emulate_start_stop m cmd)
      else if op = 0x1e then fbo_emulate_allow_medium_removal m st cmd
      else if op = 0x23 then fbo_emulate_read_format_capacities m st cmd
      else if op = 0x25 then
        if cdb cmd 1 AND 0x01 \<noteq> 0 \<or> cdb cmd 8 AND 0x01 \<noteq> 0 then Some (TCMU_STS_INVALID_CDB, m, st, cmd)
        else fbo_emul st (tcmu_emulate_read_capacity_10 m (fbo_num_lbas st) (fbo_block_size st) cmd)
      else if op = 0x2f then fbo_verify (fe_malloc env) m st cmd
      else if op = 0x35 then fbo_synchronize_cache (fe_spawn env) m st cmd
      else if op = 0x43 then fbo_emulate_read_toc m st cmd
      else if op = 0x46 then fbo_emulate_get_configuration m st cmd
      else if op = 0x4a then fbo_emulate_get_event_status_notification m st cmd
      else if op = 0x51 then fbo_emulate_read_disc_information m st cmd
      else if op = 0xad then fbo_emulate_read_dvd_structure m st cmd
      else if op = 0xbd then fbo_emulate_mechanism_status m st cmd
      else Some (TCMU_STS_NOT_HANDLED, m, st, cmd))"

section \<open>Commands and threads\<close>

definition fbo_advance :: "fbo_state \<Rightarrow> nat \<Rightarrow> fbo_thread option \<Rightarrow> fbo_state" where
  "fbo_advance st i t =
     st\<lparr>fbo_threads := case t of Some t' \<Rightarrow> (fbo_threads st)[i := t'] | None \<Rightarrow> take i (fbo_threads st) @ drop (Suc i) (fbo_threads st)\<rparr>"

text \<open>One worker takes the commands; the threads run beside it.\<close>

inductive fbo_step :: "fbo_state \<Rightarrow> fbo_state \<Rightarrow> bool" where
  command: "fbo_handle_cmd env m st cmd = Some (sts, m', st', cmd') \<Longrightarrow> fbo_step st st'"
| thread: "i < length (fbo_threads st) \<Longrightarrow> fbo_thread_step mok (fbo_threads st ! i) st = Some (t, st') \<Longrightarrow> fbo_step st (fbo_advance st' i t)"

inductive_simps fbo_step_iff: "fbo_step st st'"

section \<open>Flags\<close>

lemma has_flag: "f = 2 ^ k \<Longrightarrow> fbo_has st f = bit (fbo_flags st) k"
  by (simp add: fbo_has_def and_exp_eq_0_iff_not_bit)

lemma flag_bit_iff: "f = 2 ^ j \<Longrightarrow> j < 32 \<Longrightarrow> bit (f :: 32 word) k \<longleftrightarrow> k = j"
  by (auto simp: bit_exp_iff possible_bit_def)

lemma has_bit:
  "fbo_has st FBO_READ_ONLY = bit (fbo_flags st) 0" "fbo_has st FBO_PREV_EJECT = bit (fbo_flags st) 1" "fbo_has st FBO_DEV_IO = bit (fbo_flags st) 2"
  "fbo_has st FBO_BUSY_EVENT = bit (fbo_flags st) 3" "fbo_has st FBO_FORMATTING = bit (fbo_flags st) 4" "fbo_has st FBO_FORMAT_IMMED = bit (fbo_flags st) 5"
  by (rule has_flag, simp)+

lemma bit_flags:
  "bit (1 :: 32 word) k \<longleftrightarrow> k = 0" "bit (2 :: 32 word) k \<longleftrightarrow> k = 1" "bit (4 :: 32 word) k \<longleftrightarrow> k = 2" "bit (8 :: 32 word) k \<longleftrightarrow> k = 3"
  "bit (0x10 :: 32 word) k \<longleftrightarrow> k = 4" "bit (0x20 :: 32 word) k \<longleftrightarrow> k = 5"
  by (rule flag_bit_iff; simp)+

lemmas flag_simps = has_bit fbo_set_def fbo_clear_def bit_or_iff bit_and_iff bit_not_iff bit_flags possible_bit_def

section \<open>What a command does to threads and file\<close>

text \<open>A command that leaves threads, file and the format flag alone.\<close>

definition fbo_quiet :: "fbo_state \<Rightarrow> fbo_state \<Rightarrow> bool" where
  "fbo_quiet st st' \<longleftrightarrow> fbo_threads st' = fbo_threads st \<and> fbo_fd st' = fbo_fd st \<and> fbo_has st' FBO_FORMATTING = fbo_has st FBO_FORMATTING"

lemma quiet_refl [simp]: "fbo_quiet st st"
  by (simp add: fbo_quiet_def)

lemma quiet_respond: "fbo_respond m st cmd buf len = Some (sts, m', st', cmd') \<Longrightarrow> st' = st"
  by (auto simp: fbo_respond_def split: prod.splits)

lemma quiet_emul: "fbo_emul st r = Some (sts, m', st', cmd') \<Longrightarrow> st' = st"
  by (auto simp: fbo_emul_def)

lemma answers_quiet:
  "fbo_emulate_inquiry m st cmd = Some (sts, m', st', cmd') \<Longrightarrow> fbo_quiet st st'"
  "fbo_emulate_request_sense m st cmd = Some (sts, m', st', cmd') \<Longrightarrow> fbo_quiet st st'"
  "fbo_emulate_mode_sense m st cmd = Some (sts, m', st', cmd') \<Longrightarrow> fbo_quiet st st'"
  "fbo_emulate_mode_select g m st cmd = Some (sts, m', st', cmd') \<Longrightarrow> fbo_quiet st st'"
  "fbo_emulate_read_toc m st cmd = Some (sts, m', st', cmd') \<Longrightarrow> fbo_quiet st st'"
  "fbo_emulate_read_disc_information m st cmd = Some (sts, m', st', cmd') \<Longrightarrow> fbo_quiet st st'"
  "fbo_emulate_read_dvd_structure m st cmd = Some (sts, m', st', cmd') \<Longrightarrow> fbo_quiet st st'"
  "fbo_emulate_mechanism_status m st cmd = Some (sts, m', st', cmd') \<Longrightarrow> fbo_quiet st st'"
  by (auto simp: fbo_emulate_inquiry_def fbo_emulate_request_sense_def fbo_emulate_mode_sense_def fbo_emulate_mode_select_def
      fbo_emulate_read_toc_def fbo_emulate_read_disc_information_def fbo_emulate_read_dvd_structure_def
      fbo_emulate_mechanism_status_def Let_def split: if_splits option.splits prod.splits dest!: quiet_respond)

lemma answers_quiet2:
  "fbo_emulate_allow_medium_removal m st cmd = Some (sts, m', st', cmd') \<Longrightarrow> fbo_quiet st st'"
  "fbo_emulate_get_configuration m st cmd = Some (sts, m', st', cmd') \<Longrightarrow> fbo_quiet st st'"
  "fbo_emulate_read_format_capacities m st cmd = Some (sts, m', st', cmd') \<Longrightarrow> fbo_quiet st st'"
  "fbo_emulate_get_event_status_notification m st cmd = Some (sts, m', st', cmd') \<Longrightarrow> fbo_quiet st st'"
proof -
  show "fbo_quiet st st'" if "fbo_emulate_allow_medium_removal m st cmd = Some (sts, m', st', cmd')"
    using that by (auto simp: fbo_emulate_allow_medium_removal_def fbo_quiet_def flag_simps split: if_splits)
  show "fbo_quiet st st'" if "fbo_emulate_get_configuration m st cmd = Some (sts, m', st', cmd')"
    using that by (auto simp: fbo_emulate_get_configuration_def Let_def split: if_splits prod.splits dest!: quiet_respond)
  show "fbo_quiet st st'" if "fbo_emulate_read_format_capacities m st cmd = Some (sts, m', st', cmd')"
    using that by (auto simp: fbo_emulate_read_format_capacities_def Let_def split: if_splits prod.splits dest!: quiet_respond)
  show "fbo_quiet st st'" if "fbo_emulate_get_event_status_notification m st cmd = Some (sts, m', st', cmd')"
    using that by (auto simp: fbo_emulate_get_event_status_notification_def Let_def fbo_quiet_def flag_simps
        split: if_splits option.splits prod.splits dest!: quiet_respond)
qed

lemma io_threads:
  "fbo_read m st cmd = Some (sts, m', st', cmd') \<Longrightarrow> fbo_threads st' = fbo_threads st"
  "fbo_do_verify mok m st cmd offset len = Some (sts, m', st', cmd') \<Longrightarrow> fbo_threads st' = fbo_threads st"
  by (auto simp: fbo_read_def fbo_do_verify_def fbo_fsync_def fbo_set_def fbo_clear_def Let_def split: if_splits option.splits prod.splits sum.splits)

lemma write_threads:
  assumes "fbo_write mok m st cmd v = Some (sts, m', st', cmd')"
  shows "fbo_threads st' = fbo_threads st"
  using assms
  by (auto simp: fbo_write_def fbo_fsync_def fbo_set_def fbo_clear_def Let_def
      split: if_splits option.splits prod.splits sum.splits dest!: io_threads(2))

lemma chunk_keeps:
  "fbo_format_chunk st d off len = Some (r, st') \<Longrightarrow> fbo_threads st' = fbo_threads st \<and> fbo_flags st' = fbo_flags st"
  by (auto simp: fbo_format_chunk_def Let_def split: prod.splits if_splits)

lemma format_loop_keeps:
  "fbo_format_loop st d off len = Some (rc, st') \<Longrightarrow> fbo_threads st' = fbo_threads st \<and> fbo_flags st' = fbo_flags st"
proof (induction st d off len rule: fbo_format_loop.induct)
  case (1 st d off len)
  show ?case
  proof (cases "d < fbo_num_lbas st")
    case True
    then obtain r st1 where c: "fbo_format_chunk st d off len = Some (r, st1)"
      using 1(2) by (subst (asm) fbo_format_loop.simps) (auto split: option.splits)
    show ?thesis
    proof (cases r)
      case (Inl rc')
      then show ?thesis using 1(2) True c chunk_keeps [OF c] by (subst (asm) fbo_format_loop.simps) simp
    next
      case (Inr x)
      obtain d1 off1 len1 where x: "x = (d1, off1, len1)" by (cases x)
      then have go: "\<not> d1 \<le> d" "fbo_format_loop st1 d1 off1 len1 = Some (rc, st')"
        using 1(2) True c Inr by (subst (asm) (1) fbo_format_loop.simps, simp split: if_splits)+
      show ?thesis using 1(1) [OF True c refl _ _ refl] go chunk_keeps [OF c] Inr x by auto
    qed
  next
    case False
    then show ?thesis using 1(2) by (subst (asm) fbo_format_loop.simps) simp
  qed
qed

text \<open>A format that is live has the device for itself.\<close>

fun fmt_live :: "fbo_thread \<Rightarrow> bool" where
  "fmt_live FmtBegin = True"
| "fmt_live FmtAlloc = True"
| "fmt_live (FmtLoop d off len) = True"
| "fmt_live _ = False"

abbreviation live :: "fbo_state \<Rightarrow> fbo_thread list" where "live st \<equiv> filter fmt_live (fbo_threads st)"

definition fbo_inv :: "fbo_state \<Rightarrow> bool" where
  "fbo_inv st \<longleftrightarrow> length (live st) \<le> 1 \<and> (live st \<noteq> [] \<longrightarrow> fbo_has st FBO_FORMATTING)"

lemma command_formatting:
  assumes "fbo_handle_cmd env m st cmd = Some (sts, m', st', cmd')" "fbo_has st FBO_FORMATTING"
  shows "fbo_quiet st st'"
  using assms unfolding fbo_handle_cmd_def Let_def by (auto split: if_split_asm dest: answers_quiet answers_quiet2)

lemma do_format_threads: "fbo_do_format mok st = Some (rc, st') \<Longrightarrow> fbo_threads st' = fbo_threads st"
  by (auto simp: fbo_do_format_def fbo_clear_def split: if_splits option.splits dest: format_loop_keeps)

lemma format_unit_threads:
  assumes "fbo_emulate_format_unit spawn mok g m st cmd = Some (sts, m', st', cmd')"
  shows "fbo_threads st' = fbo_threads st \<or> fbo_threads st' = fbo_threads st @ [FmtBegin] \<and> fbo_has st' FBO_FORMATTING"
proof -
  let ?st1 = "fbo_set FBO_FORMATTING (st\<lparr>format_progress := 0\<rparr>)"
  have set1: "fbo_threads ?st1 = fbo_threads st" "fbo_has ?st1 FBO_FORMATTING"
    by (simp_all add: flag_simps)
  have "st' = st \<or> st' = fbo_pthread_create spawn FmtBegin ?st1 \<or> (\<exists>rc. fbo_do_format mok ?st1 = Some (rc, st'))"
    using assms unfolding fbo_emulate_format_unit_def Let_def by (simp split: if_split_asm option.split_asm prod.split_asm)
  then show ?thesis using set1 by (cases spawn) (auto simp: fbo_pthread_create_def fbo_has_def dest!: do_format_threads)
qed


lemma command_idle:
  assumes "fbo_handle_cmd env m st cmd = Some (sts, m', st', cmd')"
  shows "fbo_threads st' = fbo_threads st \<or> fbo_threads st' = fbo_threads st @ [SyncBegin]
    \<or> fbo_threads st' = fbo_threads st @ [FmtBegin] \<and> fbo_has st' FBO_FORMATTING"
proof -
  have sync: "fbo_synchronize_cache spawn m st cmd = Some (sts, m', st', cmd') \<Longrightarrow>
      fbo_threads st' = fbo_threads st \<or> fbo_threads st' = fbo_threads st @ [SyncBegin]" for spawn
    by (auto simp: fbo_synchronize_cache_def fbo_do_sync_def fbo_fsync_def fbo_pthread_create_def split: if_splits)
  have verify: "fbo_verify mok m st cmd = Some (sts, m', st', cmd') \<Longrightarrow> fbo_threads st' = fbo_threads st" for mok
    by (auto simp: fbo_verify_def split: if_splits option.splits sum.splits dest!: io_threads(2))
  show ?thesis
    using assms unfolding fbo_handle_cmd_def Let_def
    by (auto split: if_split_asm dest: sync verify io_threads(1) write_threads format_unit_threads quiet_emul
        answers_quiet [unfolded fbo_quiet_def] answers_quiet2 [unfolded fbo_quiet_def])
qed

section \<open>A format has the device for itself\<close>

lemma count_update:
  assumes "i < length xs"
  shows "length (filter P (xs[i := t])) + of_bool (P (xs ! i)) = length (filter P xs) + of_bool (P t)"
proof -
  have "length (filter P xs) = length (filter P (take i xs @ xs ! i # drop (Suc i) xs))" using id_take_nth_drop [OF assms] by metis
  then show ?thesis using assms by (simp add: upd_conv_take_nth_drop)
qed

lemma count_delete:
  assumes "i < length xs"
  shows "length (filter P (take i xs @ drop (Suc i) xs)) + of_bool (P (xs ! i)) = length (filter P xs)"
proof -
  have "length (filter P xs) = length (filter P (take i xs @ xs ! i # drop (Suc i) xs))" using id_take_nth_drop [OF assms] by metis
  then show ?thesis by simp
qed

lemma thread_step_keeps:
  assumes "fbo_thread_step mok t st = Some (t', st')"
  shows "fbo_threads st' = fbo_threads st"
    and "fmt_live t \<Longrightarrow> (t' = Some FmtEnd \<or> (t' \<noteq> None \<and> fmt_live (the t') \<and> fbo_has st' FBO_FORMATTING = fbo_has st FBO_FORMATTING))"
    and "\<not> fmt_live t \<Longrightarrow> (\<forall>u. t' = Some u \<longrightarrow> \<not> fmt_live u) \<and> fbo_has st' FBO_FORMATTING = fbo_has st FBO_FORMATTING"
proof -
  note s = assms [unfolded fbo_thread_step_def]
  show "fbo_threads st' = fbo_threads st"
    using s by (auto simp: fbo_set_def fbo_clear_def fbo_do_sync_def fbo_fsync_def split: fbo_thread.splits if_splits option.splits sum.splits dest!: chunk_keeps)
  show "t' = Some FmtEnd \<or> (t' \<noteq> None \<and> fmt_live (the t') \<and> fbo_has st' FBO_FORMATTING = fbo_has st FBO_FORMATTING)" if "fmt_live t"
    using s that by (cases t) (auto simp: flag_simps split: if_splits option.splits sum.splits dest!: chunk_keeps)
  show "(\<forall>u. t' = Some u \<longrightarrow> \<not> fmt_live u) \<and> fbo_has st' FBO_FORMATTING = fbo_has st FBO_FORMATTING" if "\<not> fmt_live t"
    using s that by (cases t) (auto simp: flag_simps fbo_do_sync_def fbo_fsync_def)
qed

lemma advance_threads:
  assumes "i < length (fbo_threads st)" "fbo_thread_step mok (fbo_threads st ! i) st = Some (t, st')" "fbo_inv st"
  shows "fbo_inv (fbo_advance st' i t)"
proof -
  note k = thread_step_keeps [OF assms(2)]
  have f: "fbo_has (fbo_advance st' i t) FBO_FORMATTING = fbo_has st' FBO_FORMATTING" by (simp add: fbo_advance_def has_bit)
  have one: "length (live st) \<le> 1" and flag: "live st \<noteq> [] \<Longrightarrow> fbo_has st FBO_FORMATTING"
    using assms(3) by (auto simp: fbo_inv_def)
  have n: "length (live (fbo_advance st' i t)) + of_bool (fmt_live (fbo_threads st ! i))
      = length (live st) + of_bool (case t of Some u \<Rightarrow> fmt_live u | None \<Rightarrow> False)"
    using count_update [OF assms(1), of fmt_live] count_delete [OF assms(1), of fmt_live] k(1)
    by (cases t) (simp_all add: fbo_advance_def)
  show ?thesis
  proof (cases "fmt_live (fbo_threads st ! i)")
    case True
    then have "live st \<noteq> []" using assms(1) by (auto simp: filter_empty_conv)
    then have "length (live st) = 1" "fbo_has st FBO_FORMATTING" using one flag by (simp_all add: le_Suc_eq)
    then show ?thesis using k(2) [OF True] n True f by (auto simp: fbo_inv_def)
  next
    case False
    then have "length (live (fbo_advance st' i t)) = length (live st)" using k(3) n by (auto split: option.splits)
    then show ?thesis using one flag k(3) [OF False] f by (cases "live st = []") (auto simp: fbo_inv_def)
  qed
qed

lemma step_inv:
  assumes "fbo_step st st'" "fbo_inv st"
  shows "fbo_inv st'"
  using assms(1)
proof (cases rule: fbo_step.cases)
  case (command env m cmd sts m' cmd')
  show ?thesis
  proof (cases "fbo_has st FBO_FORMATTING")
    case True
    show ?thesis using command_formatting [OF command True] assms(2) by (auto simp: fbo_quiet_def fbo_inv_def)
  next
    case False
    then have "live st = []" using assms(2) by (auto simp: fbo_inv_def)
    then show ?thesis using command_idle [OF command] by (auto simp: fbo_inv_def)
  qed
next
  case (thread i mok t st1)
  then show ?thesis using advance_threads assms(2) by blast
qed

lemma open_idle: "fbo_open mok dev_size exists opn dev = (r, dev', Some st) \<Longrightarrow> fbo_inv st \<and> fbo_threads st = [] \<and> \<not> fbo_has st FBO_FORMATTING"
  by (auto simp: fbo_open_def fbo_inv_def fbo_report_op_change_def has_bit Let_def split: if_splits list.splits option.splits)

text \<open>
  C6: From the moment the device is opened, after any commands and thread steps at most one format is running, the flag that refuses
  other commands is set as long as it runs, and while it runs no command changes the medium, starts a thread or clears that flag.
\<close>
theorem fbo_format_exclusive:
  assumes "fbo_open mok dev_size exists opn dev = (r, dev', Some st0)" "fbo_step\<^sup>*\<^sup>* st0 st"
  shows "length (live st) \<le> 1 \<and> (live st \<noteq> [] \<longrightarrow> fbo_has st FBO_FORMATTING
    \<and> (\<forall>env m cmd sts m' st' cmd'. fbo_handle_cmd env m st cmd = Some (sts, m', st', cmd') \<longrightarrow>
         fbo_fd st' = fbo_fd st \<and> fbo_threads st' = fbo_threads st \<and> fbo_has st' FBO_FORMATTING))"
proof -
  have "fbo_inv st"
    using assms(2) open_idle [OF assms(1)] by (induction rule: rtranclp_induct) (auto intro: step_inv)
  then have inv: "length (live st) \<le> 1" "live st \<noteq> [] \<longrightarrow> fbo_has st FBO_FORMATTING"
    by (auto simp: fbo_inv_def)
  show ?thesis using inv command_formatting unfolding fbo_quiet_def by metis
qed

definition disc_file :: file_state where
  "disc_file = \<lparr>fd_data = \<lambda>x. 7, fd_len = 8192, fd_io = \<lambda>k. 2 ^ 40, fd_k = 0\<rparr>"

definition disc_dev :: tcmu_device where
  "disc_dev = \<lparr>cmd_tail = 0, num_lbas = 0, block_size = 512, max_xfer_len = 0, opt_unmap_gran = 0, unmap_gran_align = 0,
     write_cache_enabled = False, solid_state_media = False, tcm_hba_name = [], tcm_dev_name = [], cfgstring = ''fbo//d''\<rparr>"

definition disc :: fbo_state where
  "disc = \<lparr>fbo_fd = disc_file, fbo_num_lbas = 4, fbo_block_size = 2048, fbo_cur_lba = 0, fbo_flags = 0, format_progress = 0,
     event_op_ch_code = 2, async_cache_count = 0, fbo_threads = []\<rparr>"

lemma disc_open: "\<exists>dev'. fbo_open True 8192 (\<lambda>_. True) (\<lambda>_ _ _. Some disc_file) disc_dev = (0, dev', Some disc)"
  by (simp add: fbo_open_def fbo_options.simps disc_dev_def disc_def fbo_report_op_change_def Let_def tcmu_set_dev_block_size_def
      tcmu_set_dev_num_lbas_def signed_divide_int_def)

text \<open>FORMAT UNIT with a parameter list that asks for an immediate answer.\<close>

definition disc_format :: tcmulib_cmd where
  "disc_format = \<lparr>cmd_id = 1, cdb = (\<lambda>_. 0)(0 := 4, 1 := 0x11), iovec = [\<lparr>iov_base = 0, iov_len = 12\<rparr>], iov_cnt = 1, sense_buf = replicate 96 0\<rparr>"

definition disc_params :: mem where
  "disc_params = (\<lambda>_. 0)(1 := 0xa2, 3 := 8, 7 := 4, 10 := 8)"

lemma disc_params_copied:
  "tcmu_memcpy_from_iovec disc_params (replicate 12 0) 12 (cmd_iovs disc_format)
   = (12, [0, 0xa2, 0, 8, 0, 0, 0, 4, 0, 0, 8, 0], [\<lparr>iov_base = 12, iov_len = 0\<rparr>])"
  by code_simp

lemma disc_formats:
  "fbo_handle_cmd \<lparr>fe_spawn = True, fe_malloc = True, fe_garbage = replicate 12 0\<rparr> disc_params disc disc_format
   = Some (TCMU_STS_OK, disc_params, disc\<lparr>fbo_flags := FBO_FORMATTING, fbo_threads := [FmtBegin]\<rparr>, set_cmd_iovs disc_format [\<lparr>iov_base = 12, iov_len = 0\<rparr>])"
proof -
  have cdb: "cdb disc_format 0 = 4" "cdb disc_format 1 = 0x11" "cdb disc_format 3 = 0" "cdb disc_format 4 = 0"
    by (simp_all add: disc_format_def)
  show ?thesis
    using cdb disc_params_copied
    by (simp add: fbo_handle_cmd_def fbo_emulate_format_unit_def disc_def fbo_has_def fbo_set_def fbo_pthread_create_def Let_def be_dec_def buf_get_def)
qed

theorem fbo_format_exclusive_witness:
  "\<exists>st. fbo_step\<^sup>*\<^sup>* disc st \<and> live st = [FmtBegin] \<and> fbo_has st FBO_FORMATTING"
proof -
  let ?st = "disc\<lparr>fbo_flags := FBO_FORMATTING, fbo_threads := [FmtBegin]\<rparr>"
  have step: "fbo_step\<^sup>*\<^sup>* disc ?st" using fbo_step.command [OF disc_formats] by blast
  have live: "live ?st = [FmtBegin]" by simp
  obtain dev' where "fbo_open True 8192 (\<lambda>_. True) (\<lambda>_ _ _. Some disc_file) disc_dev = (0, dev', Some disc)" using disc_open by blast
  from fbo_format_exclusive [OF this step] live have "fbo_has ?st FBO_FORMATTING" by simp
  with step live show ?thesis by blast
qed

end
