(* ===== verification/Fbo_Media.thy ===== *)
theory Fbo_Media
  imports Fbo_Cmd
begin

unbundle bit_operations_syntax

text \<open>
  The optical handler, fourth part: what reading, writing and formatting do to the medium. The transfer loops are those of the file
  handler as long as no call fails and the file is not left; a format that is not interrupted writes zeros everywhere.
\<close>

section \<open>The loops are those of the file handler\<close>

lemma transferred_nothing [simp]: "transferred r 0 = 0"
  by (simp add: transferred_def)

lemma fd_pwritev_next:
  assumes "fd_pwritev f m iov off = (ret, f1)"
  shows "fd_io f1 = fd_io f" "fd_len f \<le> fd_len f1" "0 < ret \<Longrightarrow> off + nat ret \<le> fd_len f1" "nat ret \<le> iov_total iov"
    "ret < 0 \<Longrightarrow> off < 2 ^ 63 \<Longrightarrow> fd_io f (fd_k f) < 0" "ret = 0 \<Longrightarrow> iov_total iov = 0"
  using assms transferred_le [of "fd_io f (fd_k f)" "iov_total iov"]
  by (auto simp: fd_pwritev_def pwritev_def Let_def next_call_def split: if_splits)

lemma fbo_write_loop_sim:
  assumes "off + remaining \<le> 2 ^ 63"
  shows "fbo_write_loop f m iov remaining off = map_option (\<lambda>(r, _, s). (r, s)) (file_write_loop f m iov remaining off)"
  using assms
proof (induction f m iov remaining off rule: fbo_write_loop.induct)
  case (1 f m iov remaining off)
  obtain ret f1 where pw: "pwritev f m iov off = (ret, f1)" by (metis surj_pair)
  show ?case
  proof (cases "remaining = 0 \<or> ret < 0 \<or> ret = 0 \<or> nat ret > remaining")
    case True
    then show ?thesis using pw 1(2)
      by (subst fbo_write_loop.simps, subst file_write_loop.simps) (auto simp: fd_pwritev_def split: option.splits)
  next
    case False
    then show ?thesis using pw 1(2) 1(1) [of ret f1]
      by (subst fbo_write_loop.simps, subst file_write_loop.simps) (auto simp: fd_pwritev_def split: option.splits)
  qed
qed

text \<open>Inside the file the reading loop meets no end of file.\<close>

lemma fbo_read_loop_sim:
  assumes "off + remaining \<le> 2 ^ 63" "off + remaining \<le> fd_len f" "remaining = iov_total iov"
  shows "fbo_read_loop f m iov remaining off = map_option (\<lambda>(_, m, iov, s). (m, iov, s)) (file_read_loop f m iov remaining off)"
  using assms
proof (induction f m iov remaining off rule: fbo_read_loop.induct)
  case (1 f m iov remaining off)
  obtain ret m1 f1 where pr: "preadv f m iov off = (ret, m1, f1)" by (metis surj_pair)
  have f1: "fd_len f1 = fd_len f" and some: "remaining \<noteq> 0 \<Longrightarrow> ret \<noteq> 0"
    using pr 1(3,4) by (auto simp: preadv_def Let_def split: if_splits)
  have seek: "iov_total iov' = remaining - nat ret" if "tcmu_seek_in_iovec iov (nat ret) = Some (c, iov')" for c iov'
    using seek_total [OF that] 1(4) by simp
  show ?case
  proof (cases "remaining = 0 \<or> ret < 0 \<or> nat ret > remaining")
    case True
    then show ?thesis using pr 1(2) some
      by (subst fbo_read_loop.simps, subst file_read_loop.simps) (auto simp: fd_preadv_def split: option.splits)
  next
    case False
    have off: "off < 2 ^ 63" using False 1(2) by simp
    then have pr': "fd_preadv f m iov off = (ret, m1, f1)" using pr by (simp add: fd_preadv_def)
    have go: "remaining \<noteq> 0" "\<not> ret < 0" "\<not> (ret = 0 \<or> remaining < nat ret)" using False some by simp_all
    show ?thesis
    proof (cases "tcmu_seek_in_iovec iov (nat ret)")
      case None
      then show ?thesis using pr pr' go
        by (subst fbo_read_loop.simps, subst file_read_loop.simps) simp
    next
      case (Some x)
      obtain c iov' where sk: "tcmu_seek_in_iovec iov (nat ret) = Some (c, iov')" using Some by (cases x) auto
      have "fbo_read_loop f1 m1 iov' (remaining - nat ret) (off + nat ret)
          = map_option (\<lambda>(_, m, iov, s). (m, iov, s)) (file_read_loop f1 m1 iov' (remaining - nat ret) (off + nat ret))"
        using 1(2,3) f1 False by (intro 1(1) [OF go(1) pr' [symmetric] refl go(2) sk refl go(3) _ _ seek [OF sk, symmetric]]) simp_all
      then show ?thesis using pr pr' go sk
        by (subst fbo_read_loop.simps, subst file_read_loop.simps) simp
    qed
  qed
qed

text \<open>When no call fails the loops end well.\<close>

lemma fbo_write_loop_ok:
  assumes "\<forall>k. 0 \<le> fd_io f k" "off + remaining \<le> 2 ^ 63" "fbo_write_loop f m iov remaining off = Some (rc, f')"
  shows "rc = TCMU_STS_OK \<and> fd_io f' = fd_io f \<and> fd_len f \<le> fd_len f' \<and> (0 < remaining \<longrightarrow> off + remaining \<le> fd_len f')"
  using assms
proof (induction f m iov remaining off rule: fbo_write_loop.induct)
  case (1 f m iov remaining off)
  obtain ret f1 where pw: "fd_pwritev f m iov off = (ret, f1)" by (metis surj_pair)
  note nx = fd_pwritev_next [OF pw]
  show ?case
  proof (cases "remaining = 0")
    case True
    then show ?thesis using 1(4) by (subst (asm) fbo_write_loop.simps) simp
  next
    case False
    then have "off < 2 ^ 63" using 1(3) by simp
    then have ret: "\<not> ret < 0" using nx(5) 1(2) by (meson not_less)
    then obtain c iov' where sk: "tcmu_seek_in_iovec iov (nat ret) = Some (c, iov')" "ret \<noteq> 0" "nat ret \<le> remaining"
      and rec: "fbo_write_loop f1 m iov' (remaining - nat ret) (off + nat ret) = Some (rc, f')"
      using False 1(4) pw by (subst (asm) (1) fbo_write_loop.simps) (auto split: option.splits if_splits)
    have "rc = TCMU_STS_OK \<and> fd_io f' = fd_io f1 \<and> fd_len f1 \<le> fd_len f' \<and>
        (0 < remaining - nat ret \<longrightarrow> off + nat ret + (remaining - nat ret) \<le> fd_len f')"
      using 1(1) [OF False pw [symmetric] ret sk(1) refl] rec nx(1) sk 1(2,3) by simp
    then show ?thesis using nx(1,2,3) sk ret by (cases "remaining = nat ret") auto
  qed
qed

lemma fbo_read_loop_ok:
  assumes "off + iov_total iov \<le> 2 ^ 63" "off + iov_total iov \<le> fd_len f" "iovs_disjoint iov" "\<forall>k. 0 \<le> fd_io f k"
  obtains m' iov' f' where "fbo_read_loop f m iov (iov_total iov) off = Some (m', iov', f')"
    "gather m' iov = mem_read (file_view f) off (iov_total iov)" "file_view f' = file_view f"
    "\<forall>x. x \<notin> set (iov_addrs iov) \<longrightarrow> m' x = m x"
proof -
  have ok: "ret \<noteq> TCMU_STS_RD_ERR" if "file_read_loop f m iov n off = Some (ret, r)" "\<forall>k. 0 \<le> fd_io f k" for f m iov n off ret r
    using that
  proof (induction f m iov n off rule: file_read_loop.induct)
    case (1 f m iov n off)
    obtain ret' m1 f1 where pr: "preadv f m iov off = (ret', m1, f1)" by (metis surj_pair)
    have p: "\<not> ret' < 0" "fd_io f1 = fd_io f"
      using pr spec [OF 1(3), of "fd_k f"] by (auto simp: preadv_def Let_def next_call_def split: if_splits)
    show ?case
    proof (cases "n = 0 \<or> ret' = 0")
      case True
      then show ?thesis using 1(2) pr p by (subst (asm) file_read_loop.simps) (auto split: if_splits)
    next
      case False
      then obtain c iov' where sk: "tcmu_seek_in_iovec iov (nat ret') = Some (c, iov')" "\<not> n < nat ret'"
        and rec: "file_read_loop f1 m1 iov' (n - nat ret') (off + nat ret') = Some (ret, r)"
        using 1(2) pr p by (subst (asm) (1) file_read_loop.simps) (auto split: if_splits option.splits)
      then show ?thesis using 1(1) [OF _ pr [symmetric] refl p(1) _ sk(1) refl sk(2) rec] False p(2) 1(3) by simp
    qed
  qed
  obtain ret m' iov' f' where r: "file_read_loop f m iov (iov_total iov) off = Some (ret, m', iov', f')"
    "ret = TCMU_STS_OK \<longrightarrow> gather m' iov = mem_read (file_view f) off (iov_total iov)"
    "\<forall>x. x \<notin> set (iov_addrs iov) \<longrightarrow> m' x = m x" "file_view f' = file_view f" "ret = TCMU_STS_OK \<or> ret = TCMU_STS_RD_ERR"
    using file_read_loop_spec [OF assms(3) refl, of f m off] by blast
  have "ret = TCMU_STS_OK" using ok [OF r(1) assms(4)] r(5) by blast
  then show thesis using that r fbo_read_loop_sim [OF assms(1,2) refl] by simp
qed
section \<open>Writing and reading\<close>

text \<open>A request for some blocks of a device with blocks of 2048 bytes.\<close>

definition fbo_request :: "fbo_state \<Rightarrow> tcmulib_cmd \<Rightarrow> nat \<Rightarrow> nat \<Rightarrow> bool" where
  "fbo_request st cmd lba n \<longleftrightarrow> tcmu_get_lba (cdb cmd) = Some lba \<and> tcmu_get_xfer_length (cdb cmd) = Some n
     \<and> fbo_block_size st = 2048 \<and> fbo_num_lbas st \<le> 2 ^ 52 \<and> 0 < n \<and> n < 2 ^ 20 \<and> lba + n \<le> fbo_num_lbas st
     \<and> iov_total (cmd_iovs cmd) = n * 2048"

lemma request_facts:
  assumes "fbo_request st cmd lba n"
  shows "fbo_check_lba_and_length st cmd = Some (Inr (lba, int (iov_total (cmd_iovs cmd))))" "mul64 2048 lba = lba * 2048"
    "lba * 2048 + iov_total (cmd_iovs cmd) \<le> 2 ^ 63"
proof -
  have n: "n * 2048 < 2 ^ 31" and b: "lba + n \<le> 2 ^ 52" using assms by (auto simp: fbo_request_def)
  show "fbo_check_lba_and_length st cmd = Some (Inr (lba, int (iov_total (cmd_iovs cmd))))"
    using assms int32_id [OF n] b by (simp add: fbo_check_lba_and_length_def fbo_request_def add64_def)
  show "mul64 2048 lba = lba * 2048" "lba * 2048 + iov_total (cmd_iovs cmd) \<le> 2 ^ 63"
    using assms b by (simp_all add: mul64_def fbo_request_def)
qed

lemma fbo_write_ok:
  assumes "fbo_request st cmd lba n" "\<forall>k. 0 \<le> fd_io (fbo_fd st) k" "\<not> fbo_has st FBO_READ_ONLY" "cdb cmd 1 AND 0x08 = 0"
  obtains st' where "fbo_write mok m st cmd False = Some (TCMU_STS_OK, m, st', cmd)"
    "file_view (fbo_fd st') = mem_write (file_view (fbo_fd st)) (lba * 2048) (gather m (cmd_iovs cmd))"
    "fd_io (fbo_fd st') = fd_io (fbo_fd st)" "lba * 2048 + iov_total (cmd_iovs cmd) \<le> fd_len (fbo_fd st')"
    "fbo_num_lbas st' = fbo_num_lbas st" "fbo_block_size st' = fbo_block_size st" "fbo_has st' FBO_FORMATTING = fbo_has st FBO_FORMATTING"
proof -
  let ?iov = "cmd_iovs cmd" and ?f = "fbo_fd st"
  note rf = request_facts [OF assms(1)]
  obtain ret iov' f' where w: "file_write_loop ?f m ?iov (iov_total ?iov) (lba * 2048) = Some (ret, iov', f')"
    "ret = TCMU_STS_OK \<longrightarrow> file_view f' = mem_write (file_view ?f) (lba * 2048) (gather m ?iov)"
    using file_write_loop_spec [OF refl, of ?f m ?iov "lba * 2048"] by blast
  have loop: "fbo_write_loop ?f m ?iov (iov_total ?iov) (lba * 2048) = Some (ret, f')"
    using fbo_write_loop_sim [OF rf(3)] w(1) by simp
  have pos: "0 < iov_total ?iov" "fbo_block_size st = 2048" using assms(1) by (simp_all add: fbo_request_def)
  note ok = fbo_write_loop_ok [OF assms(2) rf(3) loop]
  let ?st = "fbo_clear FBO_DEV_IO ((fbo_set FBO_DEV_IO (st\<lparr>fbo_cur_lba := u32 lba\<rparr>))\<lparr>fbo_fd := f'\<rparr>)"
  have "fbo_write mok m st cmd False = Some (TCMU_STS_OK, m, ?st, cmd)"
    using assms(3,4) rf(1,2) pos loop ok by (simp add: fbo_write_def Let_def fbo_set_def)
  then show thesis using that [of ?st] w(2) ok pos by (simp add: flag_simps)
qed

lemma fbo_read_ok:
  assumes "fbo_request st cmd lba n" "\<forall>k. 0 \<le> fd_io (fbo_fd st) k" "cdb cmd 1 AND 0x11 = 0" "cdb cmd 1 AND 0x08 = 0"
    "iovs_disjoint (cmd_iovs cmd)" "lba * 2048 + iov_total (cmd_iovs cmd) \<le> fd_len (fbo_fd st)"
  obtains m' st' cmd' where "fbo_read m st cmd = Some (TCMU_STS_OK, m', st', cmd')"
    "gather m' (cmd_iovs cmd) = mem_read (file_view (fbo_fd st)) (lba * 2048) (iov_total (cmd_iovs cmd))"
    "file_view (fbo_fd st') = file_view (fbo_fd st)" "\<forall>x. x \<notin> set (iov_addrs (cmd_iovs cmd)) \<longrightarrow> m' x = m x"
proof -
  note rf = request_facts [OF assms(1)]
  obtain m' iov' f' where r: "fbo_read_loop (fbo_fd st) m (cmd_iovs cmd) (iov_total (cmd_iovs cmd)) (lba * 2048) = Some (m', iov', f')"
    "gather m' (cmd_iovs cmd) = mem_read (file_view (fbo_fd st)) (lba * 2048) (iov_total (cmd_iovs cmd))" "file_view f' = file_view (fbo_fd st)"
    "\<forall>x. x \<notin> set (iov_addrs (cmd_iovs cmd)) \<longrightarrow> m' x = m x"
    using fbo_read_loop_ok [OF rf(3) assms(6,5,2)] by metis
  have b: "fbo_block_size st = 2048" using assms(1) by (simp add: fbo_request_def)
  have "\<exists>st' cmd'. fbo_read m st cmd = Some (TCMU_STS_OK, m', st', cmd') \<and> fbo_fd st' = f'"
    using assms(3,4) rf(1,2) b r(1) by (simp add: fbo_read_def Let_def fbo_set_def fbo_clear_def)
  then show thesis using that r(2-4) by metis
qed

text \<open>
  C8: On a device with blocks of 2048 bytes that is not read-only and is not being formatted, a WRITE (6, 10 or 12) of blocks in
  range and a READ of the same blocks, without FUA, both end with good status however the kernel splits the transfers; the reader gets what
  the writer sent, and the file changed at those blocks only.
\<close>
theorem fbo_write_read:
  assumes "fbo_request st wcmd lba n" "fbo_request st rcmd lba n" "iovs_disjoint (cmd_iovs rcmd)" "\<forall>k. 0 \<le> fd_io (fbo_fd st) k"
    and "\<not> fbo_has st FBO_READ_ONLY" "\<not> fbo_has st FBO_FORMATTING"
    and "cdb wcmd 0 = 0x0a \<or> cdb wcmd 0 = 0x2a \<or> cdb wcmd 0 = 0xaa" "cdb wcmd 1 AND 0x08 = 0"
    and "cdb rcmd 0 = 0x08 \<or> cdb rcmd 0 = 0x28 \<or> cdb rcmd 0 = 0xa8" "cdb rcmd 1 AND 0x11 = 0" "cdb rcmd 1 AND 0x08 = 0"
  shows "\<exists>st1 m' st2 rcmd'. fbo_handle_cmd env m st wcmd = Some (TCMU_STS_OK, m, st1, wcmd)
    \<and> fbo_handle_cmd env m st1 rcmd = Some (TCMU_STS_OK, m', st2, rcmd')
    \<and> gather m' (cmd_iovs rcmd) = gather m (cmd_iovs wcmd)
    \<and> (\<forall>x. x \<notin> set (iov_addrs (cmd_iovs rcmd)) \<longrightarrow> m' x = m x)
    \<and> file_view (fbo_fd st2) = mem_write (file_view (fbo_fd st)) (lba * 2048) (gather m (cmd_iovs wcmd))"
proof -
  obtain st1 where w: "fbo_write (fe_malloc env) m st wcmd False = Some (TCMU_STS_OK, m, st1, wcmd)"
    "file_view (fbo_fd st1) = mem_write (file_view (fbo_fd st)) (lba * 2048) (gather m (cmd_iovs wcmd))"
    "fd_io (fbo_fd st1) = fd_io (fbo_fd st)" "lba * 2048 + iov_total (cmd_iovs wcmd) \<le> fd_len (fbo_fd st1)"
    "fbo_num_lbas st1 = fbo_num_lbas st" "fbo_block_size st1 = fbo_block_size st" "\<not> fbo_has st1 FBO_FORMATTING"
    using fbo_write_ok [OF assms(1,4,5,8), of "fe_malloc env" m] assms(6) by metis
  have same: "iov_total (cmd_iovs rcmd) = iov_total (cmd_iovs wcmd)" using assms(1,2) by (simp add: fbo_request_def)
  have "fbo_request st1 rcmd lba n" using assms(2) w(5,6) by (simp add: fbo_request_def)
  then obtain m' st2 rcmd' where r: "fbo_read m st1 rcmd = Some (TCMU_STS_OK, m', st2, rcmd')"
    "gather m' (cmd_iovs rcmd) = mem_read (file_view (fbo_fd st1)) (lba * 2048) (iov_total (cmd_iovs rcmd))"
    "file_view (fbo_fd st2) = file_view (fbo_fd st1)" "\<forall>x. x \<notin> set (iov_addrs (cmd_iovs rcmd)) \<longrightarrow> m' x = m x"
    using fbo_read_ok [OF _ _ assms(10,11,3)] assms(4) w(3,4) same by metis
  have "gather m' (cmd_iovs rcmd) = gather m (cmd_iovs wcmd)"
    using r(2) w(2) same mem_read_write_same [of "file_view (fbo_fd st)" "lba * 2048" "gather m (cmd_iovs wcmd)"] by simp
  moreover have "fbo_handle_cmd env m st wcmd = Some (TCMU_STS_OK, m, st1, wcmd)"
    using assms(6,7) w(1) by (auto simp: fbo_handle_cmd_def Let_def)
  moreover have "fbo_handle_cmd env m st1 rcmd = Some (TCMU_STS_OK, m', st2, rcmd')"
    using assms(9) w(7) r(1) by (auto simp: fbo_handle_cmd_def Let_def)
  ultimately show ?thesis using r(3,4) w(2) by auto
qed

definition disc_io :: "byte \<Rightarrow> tcmulib_cmd" where
  "disc_io op = \<lparr>cmd_id = 2, cdb = (\<lambda>_. 0)(0 := op, 5 := 2, 8 := 1), iovec = [\<lparr>iov_base = 4096, iov_len = 2048\<rparr>], iov_cnt = 1, sense_buf = replicate 96 0\<rparr>"

theorem fbo_write_read_witness:
  "\<exists>st1 m' st2 rcmd'. fbo_handle_cmd \<lparr>fe_spawn = True, fe_malloc = True, fe_garbage = []\<rparr> of_nat disc (disc_io 0x2a) = Some (TCMU_STS_OK, of_nat, st1, disc_io 0x2a)
    \<and> fbo_handle_cmd \<lparr>fe_spawn = True, fe_malloc = True, fe_garbage = []\<rparr> of_nat st1 (disc_io 0x28) = Some (TCMU_STS_OK, m', st2, rcmd')
    \<and> gather m' (cmd_iovs (disc_io 0x28)) = gather of_nat (cmd_iovs (disc_io 0x2a))"
proof -
  have cdb: "tcmu_get_lba (cdb (disc_io 0x2a)) = Some 2" "tcmu_get_xfer_length (cdb (disc_io 0x2a)) = Some 1"
    "tcmu_get_lba (cdb (disc_io 0x28)) = Some 2" "tcmu_get_xfer_length (cdb (disc_io 0x28)) = Some 1"
    by code_simp+
  have req: "fbo_request disc (disc_io op) 2 1" if "op = 0x2a \<or> op = 0x28" for op
    using that cdb by (auto simp: fbo_request_def disc_def disc_io_def cmd_iovs_def)
  have dis: "iovs_disjoint (cmd_iovs (disc_io 0x28))" by (simp add: disc_io_def cmd_iovs_def)
  have io: "\<forall>k. 0 \<le> fd_io (fbo_fd disc) k" by (simp add: disc_def disc_file_def)
  have flags: "\<not> fbo_has disc FBO_READ_ONLY" "\<not> fbo_has disc FBO_FORMATTING" by (simp_all add: disc_def fbo_has_def)
  have ops: "cdb (disc_io op) 0 = op" "cdb (disc_io op) 1 = 0" for op by (simp_all add: disc_io_def)
  show ?thesis
    using fbo_write_read [where env = "\<lparr>fe_spawn = True, fe_malloc = True, fe_garbage = []\<rparr>" and m = of_nat, OF req [of "0x2a"] req [of "0x28"] dis io flags]
    unfolding ops by auto
qed

section \<open>Formatting\<close>

lemma view_zeros: "mem_write v off (replicate n 0) = (\<lambda>x. if off \<le> x \<and> x < off + n then 0 else v x)"
  by (auto simp: mem_write_def fun_eq_iff)

lemma format_chunk_whole:
  assumes "io_whole (fbo_fd st)" "fbo_block_size st = 2048" "fbo_num_lbas st < 2 ^ 32" "d < fbo_num_lbas st" "0 < k" "k \<le> 512"
  defines "j \<equiv> min k (fbo_num_lbas st - d)"
  obtains st1 where "fbo_format_chunk st d (d * 2048) (k * 2048) = Some (Inr (d + j, (d + j) * 2048, j * 2048), st1)"
    "fbo_fd st1 = stored (fbo_fd st) (d * 2048) (replicate (j * 2048) 0)" "fbo_block_size st1 = 2048" "fbo_num_lbas st1 = fbo_num_lbas st"
proof -
  have j: "0 < j" "j \<le> 512" "d + j \<le> fbo_num_lbas st" using assms by auto
  have left: "mul64 (sub64 (fbo_num_lbas st) d) (fbo_block_size st) = (fbo_num_lbas st - d) * 2048"
    using assms(2-4) by (simp add: mul64_def sub64_id)
  have len: "(if (fbo_num_lbas st - d) * 2048 < k * 2048 then u32 ((fbo_num_lbas st - d) * 2048) else k * 2048) = j * 2048"
    using assms(6) by (auto simp: j_def u32_def min_def)
  have pw: "fd_pwrite (fbo_fd st) (replicate (j * 2048) 0) (d * 2048) = (int (j * 2048), stored (fbo_fd st) (d * 2048) (replicate (j * 2048) 0))"
    using pwrite_whole [OF assms(1), of "replicate (j * 2048) 0" "d * 2048"] j assms(3,4) by simp
  have sums: "u32 (d + j) = d + j" "add64 (d * 2048) (j * 2048) = (d + j) * 2048" using j assms(3) by (simp_all add: u32_def add64_def)
  let ?st = "st\<lparr>fbo_fd := stored (fbo_fd st) (d * 2048) (replicate (j * 2048) 0)\<rparr>"
  have "\<exists>p. fbo_format_chunk st d (d * 2048) (k * 2048) = Some (Inr (d + j, (d + j) * 2048, j * 2048), ?st\<lparr>format_progress := p\<rparr>)"
    unfolding fbo_format_chunk_def Let_def left len pw using sums assms(2)
    by (cases "d + j < fbo_num_lbas st") (auto intro: exI [of _ "format_progress st"])
  then show thesis using that assms(2) by auto
qed

lemma format_loop_whole:
  assumes "io_whole (fbo_fd st)" "fbo_block_size st = 2048" "fbo_num_lbas st < 2 ^ 32" "0 < k" "k \<le> 512" "d \<le> fbo_num_lbas st"
  shows "\<exists>st'. fbo_format_loop st d (d * 2048) (k * 2048) = Some (TCMU_STS_OK, st')
    \<and> file_view (fbo_fd st') = (\<lambda>x. if d * 2048 \<le> x \<and> x < fbo_num_lbas st * 2048 then 0 else file_view (fbo_fd st) x)"
  using assms
proof (induction "fbo_num_lbas st - d" arbitrary: st d k rule: less_induct)
  case less
  show ?case
  proof (cases "d < fbo_num_lbas st")
    case True
    define j where "j = min k (fbo_num_lbas st - d)"
    obtain st1 where c: "fbo_format_chunk st d (d * 2048) (k * 2048) = Some (Inr (d + j, (d + j) * 2048, j * 2048), st1)"
      "fbo_fd st1 = stored (fbo_fd st) (d * 2048) (replicate (j * 2048) 0)" "fbo_block_size st1 = 2048" "fbo_num_lbas st1 = fbo_num_lbas st"
      using format_chunk_whole [OF less.prems(1-3) True less.prems(4,5)] unfolding j_def by metis
    have j: "0 < j" "j \<le> 512" "d + j \<le> fbo_num_lbas st" using True less.prems(4,5) by (auto simp: j_def)
    have "\<exists>st'. fbo_format_loop st1 (d + j) ((d + j) * 2048) (j * 2048) = Some (TCMU_STS_OK, st')
        \<and> file_view (fbo_fd st') = (\<lambda>x. if (d + j) * 2048 \<le> x \<and> x < fbo_num_lbas st1 * 2048 then 0 else file_view (fbo_fd st1) x)"
      using less.prems j c by (intro less.hyps) auto
    then obtain st' where rec: "fbo_format_loop st1 (d + j) ((d + j) * 2048) (j * 2048) = Some (TCMU_STS_OK, st')"
      "file_view (fbo_fd st') = (\<lambda>x. if (d + j) * 2048 \<le> x \<and> x < fbo_num_lbas st * 2048 then 0 else file_view (fbo_fd st1) x)"
      using c(4) by auto
    have "fbo_format_loop st d (d * 2048) (k * 2048) = Some (TCMU_STS_OK, st')"
      using True c(1) j rec(1) by (subst fbo_format_loop.simps) simp
    then show ?thesis using rec(2) j by (auto simp: c(2) view_zeros fun_eq_iff)
  next
    case False
    then show ?thesis using less.prems(6) by (subst fbo_format_loop.simps) (auto simp: fun_eq_iff)
  qed
qed

text \<open>
  C23: When every write of the kernel is whole, formatting a device of fewer than \<open>2 ^ 32\<close> blocks of 2048 bytes ends with good status,
  writes zeros over exactly the blocks of the device, and allows other commands again.
\<close>
theorem fbo_format_zeroes:
  assumes "io_whole (fbo_fd st)" "fbo_block_size st = 2048" "fbo_num_lbas st < 2 ^ 32"
  shows "\<exists>st'. fbo_do_format True st = Some (TCMU_STS_OK, st') \<and> \<not> fbo_has st' FBO_FORMATTING
    \<and> file_view (fbo_fd st') = (\<lambda>x. if x < fbo_num_lbas st * 2048 then 0 else file_view (fbo_fd st) x)"
proof -
  obtain st1 where "fbo_format_loop st 0 0 (1024 * 1024) = Some (TCMU_STS_OK, st1)"
    "file_view (fbo_fd st1) = (\<lambda>x. if x < fbo_num_lbas st * 2048 then 0 else file_view (fbo_fd st) x)"
    using format_loop_whole [OF assms, of 512 0] by auto
  then show ?thesis by (auto simp: fbo_do_format_def flag_simps)
qed

theorem fbo_format_zeroes_witness:
  "\<exists>st'. fbo_do_format True disc = Some (TCMU_STS_OK, st') \<and> file_view (fbo_fd disc) 0 = 7 \<and> file_view (fbo_fd st') 0 = 0"
proof -
  have "io_whole (fbo_fd disc)" "fbo_block_size disc = 2048" "fbo_num_lbas disc = 4" "file_view (fbo_fd disc) 0 = 7"
    by (simp_all add: disc_def disc_file_def io_whole_def file_view_def)
  then show ?thesis using fbo_format_zeroes [of disc] by auto
qed

section \<open>FORMAT UNIT\<close>

lemma high_half_differs:
  assumes "length bs = 4" "be_dec bs = n" "0 < n"
  shows "be_dec (take 2 bs) \<noteq> n"
proof -
  obtain a b c d where "bs = [a, b, c, d]" using assms(1) by (auto simp: numeral_eq_Suc length_Suc_conv)
  then show ?thesis using assms(2,3) by (auto simp: be_dec_def)
qed



text \<open>A failed read is reported as good, and the initiator's memory is left as it was.\<close>

lemma fbo_read_hides_error:
  assumes "fbo_request st cmd lba n" "cdb cmd 1 AND 0x11 = 0" "cdb cmd 1 AND 0x08 = 0" "fd_io (fbo_fd st) (fd_k (fbo_fd st)) < 0"
  shows "\<exists>st' cmd'. fbo_read m st cmd = Some (TCMU_STS_OK, m, st', cmd')"
proof -
  have pr: "fd_preadv (fbo_fd st) m iov off = (-1, m, next_call (fbo_fd st))" for iov off
    using assms(4) by (simp add: fd_preadv_def preadv_def Let_def)
  have b: "fbo_block_size st = 2048" "iov_total (cmd_iovs cmd) \<noteq> 0" using assms(1) by (simp_all add: fbo_request_def)
  show ?thesis using assms(2,3) request_facts [OF assms(1)] b
    by (simp add: fbo_read_def Let_def fbo_set_def fbo_clear_def fbo_read_loop.simps [of "fbo_fd st"] pr)
qed

end
