(* ===== verification/Fbo_Config.thy ===== *)
theory Fbo_Config
  imports Fbo_Cmd
begin

unbundle bit_operations_syntax

text \<open>
  The optical handler, fifth part: the answer to GET CONFIGURATION, read back the way an initiator walks over the feature descriptors.
\<close>

section \<open>GET CONFIGURATION\<close>

text \<open>What an initiator reads: the feature codes and the current bits, from descriptor to descriptor by the additional length.\<close>

function feature_list :: "byte list \<Rightarrow> (nat \<times> bool) list" where
  "feature_list bs = (if length bs < 4 then [] else (be_dec (take 2 bs), bit (bs ! 2) 0) # feature_list (drop (4 + unat (bs ! 3)) bs))"
  by pat_completeness auto

termination by (relation "measure length") auto

declare feature_list.simps [simp del]

definition feature_table :: "bool \<Rightarrow> (nat \<times> bool) list" where
  "feature_table ro = [(0x0000, True), (0x0001, True), (0x0002, True), (0x0003, True), (0x0010, True), (0x001d, False), (0x001e, False), (0x001f, True),
     (0x0020, \<not> ro), (0x0021, False), (0x0023, \<not> ro), (0x0024, \<not> ro), (0x0026, False), (0x002d, False), (0x0105, True)]"

definition well_formed :: "byte list \<Rightarrow> bool" where
  "well_formed d \<longleftrightarrow> 4 \<le> length d \<and> length d = 4 + unat (d ! 3)"

lemma feature_list_concat:
  "list_all well_formed ds \<Longrightarrow> feature_list (concat ds) = map (\<lambda>d. (be_dec (take 2 d), bit (d ! 2) 0)) ds"
proof (induction ds)
  case (Cons d ds)
  then have "4 \<le> length d" "length d = 4 + unat (d ! 3)" by (simp_all add: well_formed_def)
  then show ?case using Cons by (subst feature_list.simps) (simp add: nth_append)
qed (simp add: feature_list.simps)

lemma features_appended:
  assumes "length buf = k" "used + length (concat (map snd xs)) \<le> k"
  shows "\<exists>buf' used'. foldl (\<lambda>s (w, d). fbo_feature w d s) (buf, used) xs = (buf', used') \<and> length buf' = k \<and> used \<le> used' \<and> used' \<le> k
    \<and> take used' buf' = take used buf @ concat (map snd (filter fst xs))"
  using assms
proof (induction xs arbitrary: buf used)
  case (Cons x xs)
  obtain w d where x: "x = (w, d)" by (cases x)
  show ?case
  proof (cases w)
    case True
    let ?buf = "buf_put buf used d"
    have len: "length ?buf = k" "take (used + length d) ?buf = take used buf @ d"
      using Cons.prems x by (auto simp: buf_put_def)
    show ?thesis using Cons.IH [OF len(1), of "used + length d"] Cons.prems(2) x True len(2) by (auto simp: fbo_feature_def)
  next
    case False
    then show ?thesis using Cons.IH [OF Cons.prems(1), of used] Cons.prems(2) x by (auto simp: fbo_feature_def)
  qed
qed simp

text \<open>The features in the order of the code, with their descriptors.\<close>

definition feature_descriptors :: "fbo_state \<Rightarrow> byte list list" where
  "feature_descriptors st =
     (let ro = fbo_has st FBO_READ_ONLY in
      [fbo_profile_list ro, be_enc 2 0x0001 @ [7, 8] @ be_enc 4 1 @ [1, 0, 0, 0], be_enc 2 0x0002 @ [7, 4, 2, 0, 0, 0],
       be_enc 2 0x0003 @ [3, 4, 0x20, 0, 0, 0], be_enc 2 0x0010 @ [1, 8] @ be_enc 4 (fbo_block_size st) @ be_enc 2 0x10 @ [0x01, 0],
       be_enc 2 0x001d @ [0, 0], be_enc 2 0x001e @ [8, 4, 0, 0, 0, 0], be_enc 2 0x001f @ [1, 0],
       be_enc 2 0x0020 @ [if ro then 4 else 5, 0xc] @ be_enc 4 (u32 (sub64 (fbo_num_lbas st) 1)) @
         be_enc 4 (fbo_block_size st) @ be_enc 2 0x10 @ [0x01, 0],
       be_enc 2 0x0021 @ [4, 4, 0, 0, 0, 0], be_enc 2 0x0023 @ [if ro then 0 else 1, 0], be_enc 2 0x0024 @ [if ro then 4 else 5, 4, 0, 0, 0, 0],
       be_enc 2 0x0026 @ [0, 0], be_enc 2 0x002d @ [8, 4, 0, 0, 0, 0], be_enc 2 0x0105 @ [5, 4, 0, 0, 0, 0]])"

lemma descriptors_listed:
  "list_all well_formed (feature_descriptors st)"
  "map (\<lambda>d. (be_dec (take 2 d), bit (d ! 2) 0)) (feature_descriptors st) = feature_table (fbo_has st FBO_READ_ONLY)"
  "length (concat (feature_descriptors st)) = 132"
proof -
  have two: "be_enc 2 n = [of_nat (n div 256), of_nat n]" for n by (simp add: numeral_2_eq_2)
  show "list_all well_formed (feature_descriptors st)" by (simp add: feature_descriptors_def well_formed_def fbo_profile_list_def two Let_def)
  show "map (\<lambda>d. (be_dec (take 2 d), bit (d ! 2) 0)) (feature_descriptors st) = feature_table (fbo_has st FBO_READ_ONLY)"
    by (simp add: feature_descriptors_def feature_table_def fbo_profile_list_def two Let_def be_dec_def)
  show "length (concat (feature_descriptors st)) = 132" by (simp add: feature_descriptors_def fbo_profile_list_def two Let_def)
qed

lemma configuration_foldl:
  fixes m st cmd
  defines "rt \<equiv> cdb cmd 1 AND 0x03" and "start \<equiv> cdb_be (cdb cmd) 2 2"
  assumes "rt \<noteq> 3"
  shows "fbo_emulate_get_configuration m st cmd =
    (case foldl (\<lambda>s (w, d). fbo_feature w d s)
       (buf_put (replicate 512 0) 6 (put_unaligned_be16 (if fbo_has st FBO_READ_ONLY then 0x10 else 0x12)), 8)
       (map2 (\<lambda>(code, current) d. (fbo_wanted rt start code current, d)) (feature_table (fbo_has st FBO_READ_ONLY)) (feature_descriptors st)) of
     (buf, used_len) \<Rightarrow> fbo_respond m st cmd (buf_put buf 0 (put_unaligned_be32 (of_nat (used_len - 4)))) used_len)"
  using assms(3) unfolding fbo_emulate_get_configuration_def feature_table_def feature_descriptors_def Let_def
  by (simp add: rt_def start_def)

lemma filtered_pairs:
  "map f ds = ts \<Longrightarrow> map f (map snd (filter fst (map2 (\<lambda>t d. (P t, d)) ts ds))) = filter P ts"
  by (induction ds arbitrary: ts) auto

lemma filtered_subset: "set (map snd (filter fst (map2 (\<lambda>t d. (P t, d)) ts ds))) \<subseteq> set ds"
  by (auto dest: set_zip_rightD)

lemma second_of_map2: "length ds = length ts \<Longrightarrow> map snd (map2 (\<lambda>t d. (P t, d)) ts ds) = ds"
  by (induction ts ds rule: list_induct2') auto

lemma two_bits: "w AND 3 \<noteq> 3 \<Longrightarrow> w AND 3 = 0 \<or> w AND 3 = 1 \<or> w AND (3 :: byte) = 2"
proof -
  assume n: "w AND 3 \<noteq> 3"
  have "uint (w AND 3) = uint w AND mask 2" by (simp add: uint_and mask_eq_exp_minus_1)
  then have "uint (w AND 3) = uint w mod 4" by (simp flip: take_bit_eq_mask add: take_bit_eq_mod)
  then have "uint (w AND 3) \<in> {0, 1, 2, 3}" by auto
  then show ?thesis using n by (auto simp: word_uint_eq_iff)
qed

text \<open>
  C24: The answer to GET CONFIGURATION lies within the buffer, its data length field is right, and walking its descriptors finds exactly the
  features of the device that the command asks for, in order: all from the starting one on, only those that are current, or only the starting
  one; the current bit of each descriptor is the one used to select it.
\<close>
theorem fbo_get_configuration_lists:
  fixes m st cmd
  defines "rt \<equiv> cdb cmd 1 AND 0x03" and "start \<equiv> cdb_be (cdb cmd) 2 2"
  assumes "rt \<noteq> 3"
  shows "\<exists>buf used_len. fbo_emulate_get_configuration m st cmd = fbo_respond m st cmd buf used_len \<and> length buf = 512 \<and> 8 \<le> used_len \<and> used_len \<le> 512
    \<and> be_dec (take 4 buf) = used_len - 4
    \<and> feature_list (drop 8 (take used_len buf)) = filter (\<lambda>(code, current).
        if rt = 2 then code = start else start \<le> code \<and> (rt = 1 \<longrightarrow> current)) (feature_table (fbo_has st FBO_READ_ONLY))"
proof -
  let ?ro = "fbo_has st FBO_READ_ONLY" and ?ds = "feature_descriptors st"
  let ?P = "\<lambda>(code, current). fbo_wanted rt start code current"
  let ?xs = "map2 (\<lambda>t d. (?P t, d)) (feature_table ?ro) ?ds" and ?f = "\<lambda>d. (be_dec (take 2 d), bit (d ! 2) 0)"
  let ?b0 = "buf_put (replicate 512 0) 6 (put_unaligned_be16 (if ?ro then 0x10 else 0x12))"
  have xs: "?xs = map2 (\<lambda>(code, current) d. (fbo_wanted rt start code current, d)) (feature_table ?ro) ?ds"
    by (intro map_cong refl) auto
  have "length ?ds = length (feature_table ?ro)" using arg_cong [OF descriptors_listed(2) [of st], of length] by simp
  then have "map snd ?xs = ?ds" by (rule second_of_map2)
  then have fits: "8 + length (concat (map snd ?xs)) \<le> 512" using descriptors_listed(3) [of st] by simp
  have b0: "length ?b0 = 512" by (simp add: buf_put_def put_unaligned_be16_def)
  obtain buf u where b: "foldl (\<lambda>s (w, d). fbo_feature w d s) (?b0, 8) ?xs = (buf, u)" "length buf = 512" "8 \<le> u" "u \<le> 512"
    "take u buf = take 8 ?b0 @ concat (map snd (filter fst ?xs))"
    using features_appended [OF b0 fits] by auto
  let ?buf = "buf_put buf 0 (put_unaligned_be32 (of_nat (u - 4)))"
  have run: "fbo_emulate_get_configuration m st cmd = fbo_respond m st cmd ?buf u"
    using configuration_foldl [of cmd m st] assms(3) b(1) unfolding xs by (simp add: rt_def start_def)
  have "unat (of_nat (u - 4) :: 32 word) = u - 4" using b(4) by (simp add: unat_of_nat take_bit_nat_eq_self_iff del: of_nat_diff)
  then have put: "put_unaligned_be32 (of_nat (u - 4)) = be_enc 4 (u - 4)" by (simp only: put_unaligned_be32_eq)
  have len: "length ?buf = 512" "be_dec (take 4 ?buf) = u - 4" unfolding put using b(2,3,4) by (simp_all add: buf_put_def be_dec_enc)
  have "drop 8 (take u ?buf) = drop 8 (take u buf)" using b(2,3) by (simp add: buf_put_def put_unaligned_be32_def drop_take)
  also have "\<dots> = concat (map snd (filter fst ?xs))" using b(5) b0 by simp
  finally have dr: "drop 8 (take u ?buf) = concat (map snd (filter fst ?xs))" .
  have "list_all well_formed (map snd (filter fst ?xs))"
    using descriptors_listed(1) [of st] filtered_subset [of ?P "feature_table ?ro" ?ds] unfolding list_all_iff by blast
  then have "feature_list (drop 8 (take u ?buf)) = map ?f (map snd (filter fst ?xs))" unfolding dr by (rule feature_list_concat)
  also have "\<dots> = filter ?P (feature_table ?ro)" by (rule filtered_pairs [OF descriptors_listed(2)])
  also have "\<dots> = filter (\<lambda>(code, current). if rt = 2 then code = start else start \<le> code \<and> (rt = 1 \<longrightarrow> current)) (feature_table ?ro)"
  proof (rule filter_cong [OF refl])
    have "rt = 0 \<or> rt = 1 \<or> rt = 2" using assms(3) unfolding rt_def by (rule two_bits)
    then show "?P x = (case x of (code, current) \<Rightarrow> if rt = 2 then code = start else start \<le> code \<and> (rt = 1 \<longrightarrow> current))" for x
      by (cases x) (auto simp: fbo_wanted_def)
  qed
  finally show ?thesis using run len b(3,4) by blast
qed

definition disc_config :: tcmulib_cmd where
  "disc_config = \<lparr>cmd_id = 3, cdb = (\<lambda>_. 0)(0 := 0x46, 1 := 1, 3 := 0x20), iovec = [\<lparr>iov_base = 0, iov_len = 512\<rparr>], iov_cnt = 1, sense_buf = replicate 96 0\<rparr>"

theorem fbo_get_configuration_lists_witness:
  "\<exists>buf used_len. fbo_emulate_get_configuration of_nat disc disc_config = fbo_respond of_nat disc disc_config buf used_len
    \<and> feature_list (drop 8 (take used_len buf)) = [(0x20, True), (0x23, True), (0x24, True), (0x105, True)]"
proof -
  have c: "cdb disc_config 1 AND 0x03 = 1" "cdb_be (cdb disc_config) 2 2 = 0x20" by code_simp+
  have "\<not> fbo_has disc FBO_READ_ONLY" by (simp add: disc_def fbo_has_def)
  then show ?thesis using fbo_get_configuration_lists [of disc_config of_nat disc] unfolding c by (auto simp: feature_table_def)
qed

end
