(* ===== verification/Alloc_Handler.thy ===== *)
theory Alloc_Handler
  imports Tcmur_Store
begin

text \<open>
  The handler that keeps its data in memory it allocates (\<open>alloc_example.c\<close>). An operation gives the status that it passes to
  \<open>cmd->done\<close>; \<open>None\<close> is an access outside the allocated block or through a null pointer. The code prints what it does, which is left out.
\<close>

section \<open>State and operations\<close>

record alloc_state =
  alloc_buf :: "byte list option"
  alloc_ptr :: int
  alloc_size :: int

definition alloc_check_config :: "string \<Rightarrow> bool" where
  "alloc_check_config cfg = True"

text \<open>
  \<open>cok\<close>: \<open>calloc\<close> succeeds; \<open>alloc n\<close>: the block that \<open>malloc\<close> returns for \<open>n\<close> bytes, with whatever it holds. The size from configfs is
  negative when it could not be read. When \<open>malloc\<close> fails the state stays attached to the device.
\<close>

definition alloc_open :: "bool \<Rightarrow> (nat \<Rightarrow> byte list option) \<Rightarrow> int \<Rightarrow> int \<times> alloc_state option" where
  "alloc_open cok alloc dev_size =
     (if \<not> cok then (-12, None)
      else
        let st = \<lparr>alloc_buf = alloc (nat (dev_size mod 2 ^ 64)), alloc_ptr = 0, alloc_size = dev_size\<rparr> in
        (if alloc_buf st = None then -12 else 0, Some st))"

text \<open>Only the first entry of the array is served, and its length is an \<open>int\<close>.\<close>

definition alloc_read :: "alloc_state \<Rightarrow> mem \<Rightarrow> iovec list \<Rightarrow> nat \<Rightarrow> nat \<Rightarrow> (tcmu_sts \<times> mem \<times> iovec list \<times> alloc_state) option" where
  "alloc_read st m iov len offset =
     (case (alloc_buf st, iov) of
        (Some buf, v # vs) \<Rightarrow>
          let amount = int32 (iov_len v) in
          if amount < 0 \<or> offset + nat amount > length buf then None
          else Some (TCMU_STS_OK, mem_write m (iov_base v) (take (nat amount) (drop offset buf)), iov, st)
      | _ \<Rightarrow> None)"

definition alloc_write :: "alloc_state \<Rightarrow> mem \<Rightarrow> iovec list \<Rightarrow> nat \<Rightarrow> nat \<Rightarrow> (tcmu_sts \<times> iovec list \<times> alloc_state) option" where
  "alloc_write st m iov len offset =
     (case (alloc_buf st, iov) of
        (Some buf, v # vs) \<Rightarrow>
          let amount = int32 (iov_len v) in
          if amount < 0 \<or> nat amount > length buf then None
          else Some (TCMU_STS_OK, iov, st\<lparr>alloc_buf := Some (buf_put buf 0 (mem_read m (iov_base v) (nat amount)))\<rparr>)
      | _ \<Rightarrow> None)"

definition alloc_flush :: "alloc_state \<Rightarrow> tcmu_sts \<times> alloc_state" where
  "alloc_flush st = (TCMU_STS_OK, st)"

definition alloc_handler :: "alloc_state handler" where
  "alloc_handler = \<lparr>h_read = alloc_read, h_write = alloc_write, h_flush = Some alloc_flush, h_unmap = None\<rparr>"

section \<open>What a write does\<close>



end
