(* ===== verification/Conf_File.thy ===== *)
theory Conf_File
  imports Tcmu_Prelude "HOL-Library.Monad_Syntax"
begin

text \<open>
  The daemon's configuration file (\<open>libtcmu_config.c\<close>): options of the form \<open>key = 3\<close>, \<open>key = "text"\<close> and \<open>key\<close>. The parser works on the
  buffer the file was read into, and cuts it into strings by storing NULs; pointers are positions in the buffer. \<open>None\<close> is an access outside
  the buffer, a use of a union member that was not stored, or a loop that never ends.
\<close>

section \<open>Characters and scans\<close>

abbreviation (input) NUL :: char where "NUL \<equiv> CHR 0x00"
abbreviation (input) DQ :: char where "DQ \<equiv> CHR 0x22"
abbreviation (input) SQ :: char where "SQ \<equiv> CHR 0x27"

definition isblank :: "char \<Rightarrow> bool" where
  "isblank c \<longleftrightarrow> c = CHR 0x20 \<or> c = CHR 0x09"

definition is_eol :: "char \<Rightarrow> bool" where
  "is_eol c \<longleftrightarrow> c = CHR 0x0A \<or> c = CHR 0x0D"

definition isdigit :: "char \<Rightarrow> bool" where
  "isdigit c \<longleftrightarrow> 48 \<le> (of_char c :: nat) \<and> (of_char c :: nat) \<le> 57"

definition isalpha :: "char \<Rightarrow> bool" where
  "isalpha c \<longleftrightarrow> 65 \<le> (of_char c :: nat) \<and> (of_char c :: nat) \<le> 90 \<or> 97 \<le> (of_char c :: nat) \<and> (of_char c :: nat) \<le> 122"

definition char_at :: "char list \<Rightarrow> nat \<Rightarrow> char option" where
  "char_at b i = (if i < length b then Some (b ! i) else None)"

definition store :: "char list \<Rightarrow> nat \<Rightarrow> char \<Rightarrow> char list option" where
  "store b i c = (if i < length b then Some (b[i := c]) else None)"

text \<open>\<open>while (P( *x)) x++\<close>, the same with \<open>x < y\<close> in front, and \<open>while (P( *x)) x--\<close>.\<close>

function scan :: "(char \<Rightarrow> bool) \<Rightarrow> char list \<Rightarrow> nat \<Rightarrow> nat option" where
  "scan P b x = (if x < length b then if P (b ! x) then scan P b (Suc x) else Some x else None)"
  by pat_completeness auto

termination by (relation "measure (\<lambda>(_, b, x). length b - x)") auto

function scan_to :: "(char \<Rightarrow> bool) \<Rightarrow> char list \<Rightarrow> nat \<Rightarrow> nat \<Rightarrow> nat option" where
  "scan_to P b x y = (if x < y then do { c \<leftarrow> char_at b x; if P c then scan_to P b (Suc x) y else Some x } else Some x)"
  by pat_completeness auto

termination by (relation "measure (\<lambda>(_, _, x, y). y - x)") auto

fun scan_back :: "(char \<Rightarrow> bool) \<Rightarrow> char list \<Rightarrow> nat \<Rightarrow> nat option" where
  "scan_back P b 0 = do { c \<leftarrow> char_at b 0; if P c then None else Some 0 }"
| "scan_back P b (Suc x) = do { c \<leftarrow> char_at b (Suc x); if P c then scan_back P b x else Some (Suc x) }"

declare scan.simps [simp del] scan_to.simps [simp del]

definition c_str :: "char list \<Rightarrow> nat \<Rightarrow> string option" where
  "c_str b x = do { y \<leftarrow> scan (\<lambda>c. c \<noteq> NUL) b x; Some (take (y - x) (drop x b)) }"

definition strchr :: "char list \<Rightarrow> nat \<Rightarrow> char \<Rightarrow> nat option option" where
  "strchr b x c = do { y \<leftarrow> scan (\<lambda>d. d \<noteq> NUL \<and> d \<noteq> c) b x; Some (if b ! y = c then Some y else None) }"

text \<open>The digits that \<open>atoi\<close> is given; \<open>strtol\<close> saturates and its result is cut to an \<open>int\<close>.\<close>

definition atoi :: "string \<Rightarrow> int" where
  "atoi ds = int32 (min (foldl (\<lambda>n c. n * 10 + (of_char c - 48)) 0 ds) (2 ^ 63 - 1))"

lemma scan_to_le: "scan_to P b x y = Some z \<Longrightarrow> x \<le> z"
  by (induction P b x y rule: scan_to.induct) (subst (asm) (2) scan_to.simps, auto split: if_splits bind_splits)

section \<open>Options\<close>

datatype tcmu_option_type = TCMU_OPT_INT | TCMU_OPT_STR | TCMU_OPT_BOOL

text \<open>The union: an \<open>int\<close>, whose lowest byte is the \<open>bool\<close>, or a string.\<close>

datatype opt_value = Opt_Int int | Opt_Str "string option"

record tcmu_conf_option =
  opt_key :: string
  opt_type :: tcmu_option_type
  opt_value :: opt_value

definition tcmu_get_option :: "tcmu_conf_option list \<Rightarrow> string \<Rightarrow> tcmu_conf_option option" where
  "tcmu_get_option os key = find (\<lambda>opt. opt_key opt = key) os"

text \<open>The option that \<open>tcmu_get_option\<close> finds gets a value.\<close>

fun set_value :: "string \<Rightarrow> opt_value \<Rightarrow> tcmu_conf_option list \<Rightarrow> tcmu_conf_option list" where
  "set_value key v [] = []"
| "set_value key v (opt # os) = (if opt_key opt = key then opt\<lparr>opt_value := v\<rparr> # os else opt # set_value key v os)"

text \<open>\<open>mok key\<close>: there is memory for the option.\<close>

definition tcmu_register_option :: "(string \<Rightarrow> bool) \<Rightarrow> tcmu_conf_option list \<Rightarrow> string \<Rightarrow> tcmu_option_type \<Rightarrow> tcmu_conf_option list option" where
  "tcmu_register_option mok os key type =
     (if mok key
      then Some (os @ [\<lparr>opt_key = key, opt_type = type, opt_value = (if type = TCMU_OPT_STR then Opt_Str None else Opt_Int 0)\<rparr>])
      else None)"

section \<open>Parsing\<close>

text \<open>
  \<open>key\<close> alone: the option becomes true. On an option that holds a string, \<open>opt_bool\<close> overwrites a part of its pointer, and the model stops
  there.
\<close>

definition set_bool :: "(string \<Rightarrow> bool) \<Rightarrow> tcmu_conf_option list \<Rightarrow> string \<Rightarrow> tcmu_conf_option list option" where
  "set_bool mok os key =
     (case tcmu_get_option os key of
        Some opt \<Rightarrow>
          (case opt_value opt of
             Opt_Int v \<Rightarrow> Some (set_value key (Opt_Int (v div 256 * 256 + 1)) os)
           | Opt_Str _ \<Rightarrow> None)
      | None \<Rightarrow>
          (case tcmu_register_option mok os key TCMU_OPT_BOOL of
             None \<Rightarrow> Some os
           | Some os' \<Rightarrow> Some (set_value key (Opt_Int 1) os')))"

text \<open>The options with one for the key: registered before, or by the first character of the value (\<open>None\<close> inside: no type or no memory).\<close>

definition option_for ::
  "(string \<Rightarrow> bool) \<Rightarrow> char list \<Rightarrow> tcmu_conf_option list \<Rightarrow> string \<Rightarrow> nat \<Rightarrow> (tcmu_option_type \<times> tcmu_conf_option list) option option" where
  "option_for mok b os key s =
     (case tcmu_get_option os key of
        Some opt \<Rightarrow> Some (Some (opt_type opt, os))
      | None \<Rightarrow> do {
          r \<leftarrow> scan (\<lambda>c. isblank c \<or> c = CHR ''='') b s;
          let c = b ! r;
          if c = DQ \<or> c = SQ then Some (map_option (Pair TCMU_OPT_STR) (tcmu_register_option mok os key TCMU_OPT_STR))
          else if isdigit c then Some (map_option (Pair TCMU_OPT_INT) (tcmu_register_option mok os key TCMU_OPT_INT))
          else Some None })"

definition parse_int :: "char list \<Rightarrow> nat \<Rightarrow> (char list \<times> int) option" where
  "parse_int b s = do {
     s1 \<leftarrow> scan (\<lambda>c. \<not> isdigit c) b s;
     r \<leftarrow> scan isdigit b s1;
     b1 \<leftarrow> store b r NUL;
     ds \<leftarrow> c_str b1 s1;
     Some (b1, atoi ds) }"

text \<open>\<open>q\<close> is the end of the line. The character behind the equals sign is skipped unseen.\<close>

definition parse_str :: "char list \<Rightarrow> nat \<Rightarrow> nat \<Rightarrow> (char list \<times> string) option" where
  "parse_str b s q = do {
     s1 \<leftarrow> scan isblank b (Suc s);
     let s2 = (if b ! s1 = DQ \<or> b ! s1 = SQ then Suc s1 else s1);
     r \<leftarrow> scan_back isblank b (q - 1);
     b1 \<leftarrow> (if b ! r = DQ \<or> b ! r = SQ then store b r NUL else Some b);
     v \<leftarrow> c_str b1 s2;
     Some (b1, v) }"

text \<open>One line: the buffer, the position of the next line, and the options.\<close>

definition tcmu_parse_option ::
  "(string \<Rightarrow> bool) \<Rightarrow> char list \<Rightarrow> nat \<Rightarrow> nat \<Rightarrow> tcmu_conf_option list \<Rightarrow> (char list \<times> nat \<times> tcmu_conf_option list) option" where
  "tcmu_parse_option mok b cur end_pos os = do {
     p \<leftarrow> scan isblank b cur;
     q \<leftarrow> scan_to (\<lambda>c. \<not> is_eol c) b cur end_pos;
     b1 \<leftarrow> store b q NUL;
     eq \<leftarrow> strchr b1 p (CHR ''='');
     case eq of
       None \<Rightarrow> do {
         r \<leftarrow> scan_to (\<lambda>c. \<not> isblank c) b1 p q;
         b2 \<leftarrow> store b1 r NUL;
         key \<leftarrow> c_str b2 p;
         os1 \<leftarrow> set_bool mok os key;
         Some (b2, Suc q, os1) }
     | Some e \<Rightarrow> do {
         r \<leftarrow> scan_back (\<lambda>c. isblank c \<or> c = CHR ''='') b1 e;
         b2 \<leftarrow> store b1 (Suc r) NUL;
         key \<leftarrow> c_str b2 p;
         found \<leftarrow> option_for mok b2 os key (Suc e);
         case found of
           None \<Rightarrow> Some (b2, Suc q, os)
         | Some (TCMU_OPT_INT, os1) \<Rightarrow> do {
             (b3, n) \<leftarrow> parse_int b2 (Suc e);
             Some (b3, Suc q, set_value key (Opt_Int n) os1) }
         | Some (TCMU_OPT_STR, os1) \<Rightarrow> do {
             (b3, v) \<leftarrow> parse_str b2 (Suc e) q;
             Some (b3, Suc q, set_value key (Opt_Str (if mok v then Some v else None)) os1) }
         | Some (TCMU_OPT_BOOL, os1) \<Rightarrow> Some (b2, Suc q, os1) } }"

function skip_comment_lines :: "char list \<Rightarrow> nat \<Rightarrow> nat \<Rightarrow> nat option" where
  "skip_comment_lines b x y =
     (if x < y then do {
        c \<leftarrow> char_at b x;
        if c = CHR ''#'' then (case scan_to (\<lambda>c. \<not> is_eol c) b x y of None \<Rightarrow> None | Some z \<Rightarrow> skip_comment_lines b (Suc z) y)
        else Some x }
      else Some x)"
  by pat_completeness auto

termination by (relation "measure (\<lambda>(_, x, y). y - x)") (auto dest: scan_to_le)

declare skip_comment_lines.simps [simp del]

text \<open>The loop goes round at the same place when a line starts with another character than a letter.\<close>

partial_function (option) parse_loop ::
  "(string \<Rightarrow> bool) \<Rightarrow> char list \<Rightarrow> nat \<Rightarrow> nat \<Rightarrow> tcmu_conf_option list \<Rightarrow> (char list \<times> tcmu_conf_option list) option" where
  "parse_loop mok b cur end_pos os =
     (if cur < end_pos then
        Option.bind (scan_to (\<lambda>c. isblank c \<or> is_eol c) b cur end_pos) (\<lambda>x.
        Option.bind (skip_comment_lines b x end_pos) (\<lambda>y.
        if y \<ge> end_pos then Some (b, os)
        else Option.bind (char_at b y) (\<lambda>c.
          if \<not> isalpha c then parse_loop mok b y end_pos os
          else Option.bind (tcmu_parse_option mok b y end_pos os) (\<lambda>(b1, cur1, os1). parse_loop mok b1 cur1 end_pos os1))))
      else Some (b, os))"

section \<open>The configuration\<close>

record tcmu_config =
  cfg_log_level :: int
  cfg_log_dir_path :: "string option"

definition to_syslog_level :: "int \<Rightarrow> nat" where
  "to_syslog_level level = (if level = 1 then 3 else if level = 2 then 4 else if level = 3 then 6 else if level = 4 then 7 else if level = 5 then 8 else 6)"

definition tcmu_set_log_level :: "int \<Rightarrow> nat" where
  "tcmu_set_log_level level = to_syslog_level (if level > 5 then 5 else if level < 1 then 1 else level)"

text \<open>
  What the program keeps: the options, the configuration, the syslog level and the log directory, which \<open>create\<close> (\<open>tcmu_logdir_create\<close>)
  makes from a path. An integer option is set back to its default, so that it holds when its line is gone from the file.
\<close>

record conf_state =
  conf_options :: "tcmu_conf_option list"
  conf_cfg :: tcmu_config
  tcmu_log_level :: nat
  conf_logdir :: "string option"

definition parse_cfg_int :: "string \<Rightarrow> int \<Rightarrow> tcmu_conf_option list \<Rightarrow> int \<Rightarrow> (int \<times> tcmu_conf_option list) option" where
  "parse_cfg_int key dflt os v =
     (case tcmu_get_option os key of
        None \<Rightarrow> Some (v, os)
      | Some opt \<Rightarrow> (case opt_value opt of Opt_Int n \<Rightarrow> Some (n, set_value key (Opt_Int dflt) os) | Opt_Str _ \<Rightarrow> None))"

definition parse_cfg_str :: "string \<Rightarrow> tcmu_conf_option list \<Rightarrow> string option \<Rightarrow> string option option" where
  "parse_cfg_str key os v =
     (case tcmu_get_option os key of
        None \<Rightarrow> Some v
      | Some opt \<Rightarrow> (case opt_value opt of Opt_Str (Some s) \<Rightarrow> Some (Some s) | _ \<Rightarrow> None))"

definition tcmu_conf_set_options :: "(string option \<Rightarrow> string option) \<Rightarrow> bool \<Rightarrow> conf_state \<Rightarrow> conf_state option" where
  "tcmu_conf_set_options create reloading st = do {
     (level, os) \<leftarrow> parse_cfg_int ''log_level'' 3 (conf_options st) (cfg_log_level (conf_cfg st));
     let st1 = st\<lparr>conf_options := os, conf_cfg := (conf_cfg st)\<lparr>cfg_log_level := level\<rparr>,
                 tcmu_log_level := if level \<noteq> 0 then tcmu_set_log_level level else tcmu_log_level st\<rparr>;
     if reloading then Some st1
     else do {
       dir \<leftarrow> parse_cfg_str ''log_dir_path'' os (cfg_log_dir_path (conf_cfg st));
       Some (st1\<lparr>conf_cfg := (conf_cfg st1)\<lparr>cfg_log_dir_path := dir\<rparr>,
                conf_logdir := if conf_logdir st = None then create dir else conf_logdir st\<rparr>) } }"

definition tcmu_parse_options ::
  "(string \<Rightarrow> bool) \<Rightarrow> (string option \<Rightarrow> string option) \<Rightarrow> char list \<Rightarrow> nat \<Rightarrow> bool \<Rightarrow> conf_state \<Rightarrow> conf_state option" where
  "tcmu_parse_options mok create buf len reloading st = do {
     (b, os) \<leftarrow> parse_loop mok buf 0 len (conf_options st);
     tcmu_conf_set_options create reloading (st\<lparr>conf_options := os\<rparr>) }"

text \<open>
  Reading the file: \<open>rd k\<close> is the answer to the \<open>k\<close>-th call, an error number or data. The loop looks at \<open>errno\<close> even when the call succeeded,
  so an old \<open>EAGAIN\<close> makes it read on.
\<close>

partial_function (option) tcmu_read_config ::
  "(nat \<Rightarrow> nat + string) \<Rightarrow> nat \<Rightarrow> nat \<Rightarrow> char list \<Rightarrow> (nat option \<times> char list) option" where
  "tcmu_read_config rd k err buf =
     (case rd k of
        Inl e \<Rightarrow> if e = 11 then tcmu_read_config rd (Suc k) e buf else Some (None, buf)
      | Inr d \<Rightarrow>
          if err = 11 then tcmu_read_config rd (Suc k) err (take (length buf) d @ drop (length d) buf)
          else Some (Some (min (length d) (length buf)), take (length buf) d @ drop (length d) buf))"

text \<open>\<open>garbage\<close>: the block that \<open>malloc\<close> returns; the terminating NUL is behind it when the file fills it.\<close>

definition tcmu_load_config ::
  "(string \<Rightarrow> bool) \<Rightarrow> (string option \<Rightarrow> string option) \<Rightarrow> char list option \<Rightarrow> bool \<Rightarrow> (nat \<Rightarrow> nat + string) \<Rightarrow> nat \<Rightarrow> bool \<Rightarrow> conf_state \<Rightarrow> (int \<times> conf_state) option" where
  "tcmu_load_config mok create garbage opened rd err reloading st =
     (case garbage of
        None \<Rightarrow> Some (-12, st)
      | Some buf \<Rightarrow>
          if \<not> opened then Some (-1, st)
          else
            Option.bind (tcmu_read_config rd 0 err buf) (\<lambda>(len, b).
              case len of
                None \<Rightarrow> Some (-1, st)
              | Some n \<Rightarrow>
                  Option.bind (store b n NUL) (\<lambda>b1.
                  Option.bind (tcmu_parse_options mok create b1 n reloading st) (\<lambda>st'. Some (0, st')))))"

declare parse_loop.simps [code] tcmu_read_config.simps [code]

section \<open>Start and reload\<close>

text \<open>
  \<open>tcmu_setup_config\<close>: a configuration and whether it is reloaded dynamically, or none. \<open>cok\<close>, \<open>pok\<close>: memory for the configuration and the
  path; \<open>spawn\<close>: \<open>pthread_create\<close> succeeds; \<open>load\<close> is \<open>tcmu_load_config\<close> on the file.
\<close>

definition tcmu_setup_config ::
  "bool \<Rightarrow> bool \<Rightarrow> bool \<Rightarrow> (bool \<Rightarrow> conf_state \<Rightarrow> (int \<times> conf_state) option) \<Rightarrow> conf_state \<Rightarrow> ((tcmu_config \<times> bool) option \<times> conf_state) option" where
  "tcmu_setup_config cok pok spawn load st =
     (if \<not> cok \<or> \<not> pok then Some (None, st)
      else Option.bind (load False (st\<lparr>conf_cfg := \<lparr>cfg_log_level = 0, cfg_log_dir_path = None\<rparr>\<rparr>)) (\<lambda>(ret, st1).
        if ret \<noteq> 0 then Some (None, st1) else Some (Some (conf_cfg st1, spawn), st1)))"

text \<open>
  The events of one read of \<open>dyn_config_start\<close>: watch descriptor, mask, and what a new watch returns when the file exists. The loop does not
  get past an event of another watch. The result of a reload is not looked at.
\<close>

fun dyn_config_events ::
  "(bool \<Rightarrow> conf_state \<Rightarrow> (int \<times> conf_state) option) \<Rightarrow> int \<Rightarrow> (int \<times> 32 word \<times> int option) list \<Rightarrow> conf_state \<Rightarrow> (int \<times> conf_state) option" where
  "dyn_config_events load wd [] st = Some (wd, st)"
| "dyn_config_events load wd ((w, mk, watch) # evs) st =
     (if w \<noteq> wd then None
      else
        let wd1 = (case watch of Some v \<Rightarrow> if bit mk 15 then v else wd | None \<Rightarrow> wd) in
        if bit mk 1 \<or> bit mk 15
        then Option.bind (load True st) (\<lambda>(ret, st1). dyn_config_events load wd1 evs st1)
        else dyn_config_events load wd1 evs st)"

end
