(* ===== verification/Conf_Text.thy ===== *)
theory Conf_Text
  imports Conf_File
begin

text \<open>
  The configuration file read back: what the parser does on the text of a well-formed file, line by line and as a whole, and where it hangs.
\<close>

section \<open>Scans over known text\<close>

lemma scan_run:
  assumes "b = pre @ xs @ c # rest" "x = length pre" "list_all P xs" "\<not> P c"
  shows "scan P b x = Some (x + length xs)"
  using assms
proof (induction xs arbitrary: pre x)
  case Nil
  then show ?case by (simp add: scan.simps)
next
  case (Cons d xs)
  have "scan P b (Suc x) = Some (Suc x + length xs)" using Cons.prems by (intro Cons.IH [of "pre @ [d]"]) auto
  then show ?case using Cons.prems by (subst scan.simps) (simp add: nth_append)
qed

lemma scan_to_run:
  assumes "b = pre @ xs @ c # rest" "x = length pre" "list_all P xs" "\<not> P c" "x + length xs < y"
  shows "scan_to P b x y = Some (x + length xs)"
  using assms
proof (induction xs arbitrary: pre x)
  case Nil
  then show ?case by (simp add: scan_to.simps char_at_def)
next
  case (Cons d xs)
  have "scan_to P b (Suc x) y = Some (Suc x + length xs)" using Cons.prems by (intro Cons.IH [of "pre @ [d]"]) auto
  then show ?case using Cons.prems by (subst scan_to.simps) (simp add: char_at_def nth_append)
qed

lemma scan_back_run:
  assumes "b = pre @ d # xs @ rest" "x = length pre + length xs" "list_all P xs" "\<not> P d"
  shows "scan_back P b x = Some (length pre)"
  using assms
proof (induction xs arbitrary: x rest rule: rev_induct)
  case Nil
  then show ?case by (cases pre) (auto simp: char_at_def nth_append)
next
  case (snoc e xs)
  have "scan_back P b (length pre + length xs) = Some (length pre)" using snoc.prems by (intro snoc.IH [of "e # rest"]) auto
  then show ?case using snoc.prems by (simp add: char_at_def nth_append)
qed

lemma store_at: "b = pre @ c # rest \<Longrightarrow> x = length pre \<Longrightarrow> store b x d = Some (pre @ d # rest)"
  by (simp add: store_def)

lemma c_str_run:
  assumes "b = pre @ xs @ NUL # rest" "x = length pre" "NUL \<notin> set xs"
  shows "c_str b x = Some xs"
proof -
  have "scan (\<lambda>c. c \<noteq> NUL) b x = Some (x + length xs)" using assms by (intro scan_run [OF assms(1,2)]) (auto simp: list_all_iff)
  then show ?thesis using assms by (simp add: c_str_def)
qed

section \<open>Lines\<close>

lemma set_value_new:
  "tcmu_get_option os k = None \<Longrightarrow>
    set_value k v (os @ [\<lparr>opt_key = k, opt_type = t, opt_value = w\<rparr>]) = os @ [\<lparr>opt_key = k, opt_type = t, opt_value = v\<rparr>]"
  by (induction os) (auto simp: tcmu_get_option_def split: if_splits)

text \<open>A key starts with a letter and has no blank, equals sign, end of line or NUL; a text has no end of line and no NUL.\<close>

definition conf_key :: "string \<Rightarrow> bool" where
  "conf_key k \<longleftrightarrow> k \<noteq> [] \<and> isalpha (hd k) \<and> list_all (\<lambda>c. \<not> isblank c \<and> c \<noteq> CHR ''='' \<and> \<not> is_eol c \<and> c \<noteq> NUL) k"

definition conf_text :: "string \<Rightarrow> bool" where
  "conf_text v \<longleftrightarrow> list_all (\<lambda>c. \<not> is_eol c \<and> c \<noteq> NUL) v"

text \<open>The part that both forms share: a line \<open>key = val\<close> up to the value.\<close>

lemma line_front:
  assumes "conf_key k" "conf_text val" "is_eol nl" "b = pre @ k @ '' = '' @ val @ nl # rest" "length pre + length k + 3 + length val < e"
    and "tcmu_get_option os k = None"
  defines "q \<equiv> length pre + length k + 3 + length val" and "b2 \<equiv> pre @ k @ [NUL, CHR ''='', CHR '' ''] @ val @ NUL # rest"
  shows "tcmu_parse_option mok b (length pre) e os = do {
      found \<leftarrow> option_for mok b2 os k (Suc (Suc (length pre + length k)));
      case found of
        None \<Rightarrow> Some (b2, Suc q, os)
      | Some (TCMU_OPT_INT, os1) \<Rightarrow> do { (b3, n) \<leftarrow> parse_int b2 (Suc (Suc (length pre + length k))); Some (b3, Suc q, set_value k (Opt_Int n) os1) }
      | Some (TCMU_OPT_STR, os1) \<Rightarrow> do {
          (b3, v) \<leftarrow> parse_str b2 (Suc (Suc (length pre + length k))) q;
          Some (b3, Suc q, set_value k (Opt_Str (if mok v then Some v else None)) os1) }
      | Some (TCMU_OPT_BOOL, os1) \<Rightarrow> Some (b2, Suc q, os1) }"
proof -
  let ?p = "length pre"
  define b1 where "b1 = pre @ k @ '' = '' @ val @ NUL # rest"
  have k: "k \<noteq> []" "list_all (\<lambda>c. \<not> isblank c \<and> c \<noteq> CHR ''='' \<and> \<not> is_eol c \<and> c \<noteq> NUL) k" using assms(1) by (auto simp: conf_key_def)
  obtain c ks where ks: "k = c # ks" "\<not> isblank c" using k by (cases k) auto
  obtain k' d where kd: "k = k' @ [d]" "\<not> isblank d" "d \<noteq> CHR ''=''" using k by (cases k rule: rev_cases) auto
  have p: "scan isblank b ?p = Some ?p" using assms(4) ks scan_run [of b pre "[]" c "ks @ '' = '' @ val @ nl # rest" ?p isblank] by simp
  have line: "list_all (\<lambda>c. \<not> is_eol c) (k @ '' = '' @ val)" using k(2) assms(2) by (auto simp: list_all_iff conf_text_def is_eol_def)
  have q: "scan_to (\<lambda>c. \<not> is_eol c) b ?p e = Some q"
    using scan_to_run [of b pre "k @ '' = '' @ val" nl rest ?p "\<lambda>c. \<not> is_eol c" e] line assms(3,4,5) by (simp add: q_def)
  have st1: "store b q NUL = Some b1" using store_at [of b "pre @ k @ '' = '' @ val" nl rest q NUL] assms(4) by (simp add: q_def b1_def)
  have "scan (\<lambda>d. d \<noteq> NUL \<and> d \<noteq> CHR ''='') b1 ?p = Some (?p + length (k @ '' ''))"
    using k(2) by (intro scan_run [of _ pre "k @ '' ''" "CHR ''=''" "'' '' @ val @ NUL # rest"]) (auto simp: list_all_iff b1_def)
  then have eq: "strchr b1 ?p (CHR ''='') = Some (Some (Suc (?p + length k)))" by (simp add: strchr_def b1_def nth_append)
  have r: "scan_back (\<lambda>c. isblank c \<or> c = CHR ''='') b1 (Suc (?p + length k)) = Some (?p + length k')"
    using scan_back_run [of b1 "pre @ k'" d "'' =''" "'' '' @ val @ NUL # rest" "Suc (?p + length k)" "\<lambda>c. isblank c \<or> c = CHR ''=''"] kd
    by (simp add: isblank_def b1_def)
  have st2: "store b1 (Suc (?p + length k')) NUL = Some b2"
    using store_at [of b1 "pre @ k" "CHR '' ''" "''= '' @ val @ NUL # rest" "Suc (?p + length k')" NUL] kd(1) by (simp add: b2_def b1_def)
  have key: "c_str b2 ?p = Some k" using k(2) by (intro c_str_run [of _ pre k]) (auto simp: b2_def list_all_iff)
  show ?thesis by (simp add: tcmu_parse_option_def p q st1 eq r st2 key del: scan_back.simps)
qed

lemma int_line:
  assumes "conf_key k" "ds \<noteq> []" "list_all isdigit ds" "is_eol nl" "b = pre @ k @ '' = '' @ ds @ nl # rest"
    and "length pre + length k + 3 + length ds < e" "tcmu_get_option os k = None" "mok k"
  shows "\<exists>b'. tcmu_parse_option mok b (length pre) e os = Some (b', length pre + length k + 4 + length ds,
      os @ [\<lparr>opt_key = k, opt_type = TCMU_OPT_INT, opt_value = Opt_Int (atoi ds)\<rparr>])
    \<and> length b' = length b \<and> drop (length pre + length k + 4 + length ds) b' = rest"
proof -
  let ?s = "Suc (Suc (length pre + length k))"
  define b2 where "b2 = pre @ k @ [NUL, CHR ''='', CHR '' ''] @ ds @ NUL # rest"
  have digits: "\<not> isblank c" "c \<noteq> CHR ''=''" "c \<noteq> DQ" "c \<noteq> SQ" "\<not> is_eol c" "c \<noteq> NUL" if "isdigit c" for c
    using that by (auto simp: isdigit_def isblank_def is_eol_def)
  obtain d ds' where d: "ds = d # ds'" "isdigit d" using assms(2,3) by (cases ds) auto
  have ctext: "conf_text ds" using assms(3) digits by (auto simp: conf_text_def list_all_iff)
  have at: "b2 ! Suc ?s = d" by (simp add: b2_def d(1) nth_append)
  have "scan (\<lambda>c. isblank c \<or> c = CHR ''='') b2 ?s = Some (Suc ?s)"
    using scan_run [of b2 "pre @ k @ [NUL, CHR ''='']" "'' ''" d "ds' @ NUL # rest" ?s "\<lambda>c. isblank c \<or> c = CHR ''=''"] digits(1,2) [OF d(2)]
    by (simp add: b2_def d(1) isblank_def)
  then have found: "option_for mok b2 os k ?s = Some (Some (TCMU_OPT_INT, os @ [\<lparr>opt_key = k, opt_type = TCMU_OPT_INT, opt_value = Opt_Int 0\<rparr>]))"
    using assms(7,8) digits(3,4) [OF d(2)] d(2) by (simp add: option_for_def at tcmu_register_option_def Let_def)
  have s1: "scan (\<lambda>c. \<not> isdigit c) b2 ?s = Some (Suc ?s)"
    using scan_run [of b2 "pre @ k @ [NUL, CHR ''='']" "'' ''" d "ds' @ NUL # rest" ?s "\<lambda>c. \<not> isdigit c"] d by (simp add: b2_def isdigit_def)
  have nodigit: "\<not> isdigit NUL" by (simp add: isdigit_def)
  have r: "scan isdigit b2 (Suc ?s) = Some (Suc ?s + length ds)"
    using assms(3) nodigit by (intro scan_run [of _ "pre @ k @ [NUL, CHR ''='', CHR '' '']" ds NUL rest]) (simp_all add: b2_def)
  have st: "store b2 (Suc ?s + length ds) NUL = Some b2"
    using store_at [of b2 "pre @ k @ [NUL, CHR ''='', CHR '' ''] @ ds" NUL rest "Suc ?s + length ds" NUL] by (simp add: b2_def)
  have v: "c_str b2 (Suc ?s) = Some ds"
    using assms(3) digits(6) by (intro c_str_run [of _ "pre @ k @ [NUL, CHR ''='', CHR '' '']" ds rest]) (auto simp: b2_def list_all_iff)
  have int: "parse_int b2 ?s = Some (b2, atoi ds)" unfolding parse_int_def s1 by (simp add: r [simplified] st [simplified] v)
  have none: "set_value k v (os @ [\<lparr>opt_key = k, opt_type = t, opt_value = w\<rparr>]) = os @ [\<lparr>opt_key = k, opt_type = t, opt_value = v\<rparr>]" for v t w
    using assms(7) by (rule set_value_new)
  have "tcmu_parse_option mok b (length pre) e os = Some (b2, length pre + length k + 4 + length ds,
      os @ [\<lparr>opt_key = k, opt_type = TCMU_OPT_INT, opt_value = Opt_Int (atoi ds)\<rparr>])"
    using line_front [OF assms(1) ctext assms(4,5,6,7), of mok, folded b2_def] found int none by simp
  moreover have "drop (length pre + length k + 4 + length ds) b2 = rest" "length b2 = length b"
    by (simp_all add: b2_def assms(5) numeral_eq_Suc)
  ultimately show ?thesis by blast
qed

lemma str_line:
  assumes "conf_key k" "conf_text v" "is_eol nl" "b = pre @ k @ '' = '' @ (DQ # v @ [DQ]) @ nl # rest"
    and "length pre + length k + 5 + length v < e" "tcmu_get_option os k = None" "mok k" "mok v"
  shows "\<exists>b'. tcmu_parse_option mok b (length pre) e os = Some (b', length pre + length k + 6 + length v,
      os @ [\<lparr>opt_key = k, opt_type = TCMU_OPT_STR, opt_value = Opt_Str (Some v)\<rparr>])
    \<and> length b' = length b \<and> drop (length pre + length k + 6 + length v) b' = rest"
proof -
  let ?s = "Suc (Suc (length pre + length k))" and ?q = "length pre + length k + 3 + length (DQ # v @ [DQ])"
  define b2 where "b2 = pre @ k @ [NUL, CHR ''='', CHR '' ''] @ (DQ # v @ [DQ]) @ NUL # rest"
  define b3 where "b3 = pre @ k @ [NUL, CHR ''='', CHR '' '', DQ] @ v @ NUL # NUL # rest"
  have quote: "\<not> isblank DQ" "\<not> is_eol DQ" by (simp_all add: isblank_def is_eol_def)
  have ctext: "conf_text (DQ # v @ [DQ])" using assms(2) quote by (simp add: conf_text_def)
  have at: "b2 ! Suc ?s = DQ" by (simp add: b2_def nth_append)
  have "scan (\<lambda>c. isblank c \<or> c = CHR ''='') b2 ?s = Some (Suc ?s)"
    using scan_run [of b2 "pre @ k @ [NUL, CHR ''='']" "'' ''" DQ "v @ DQ # NUL # rest" ?s "\<lambda>c. isblank c \<or> c = CHR ''=''"] quote
    by (simp add: b2_def isblank_def)
  then have found: "option_for mok b2 os k ?s = Some (Some (TCMU_OPT_STR, os @ [\<lparr>opt_key = k, opt_type = TCMU_OPT_STR, opt_value = Opt_Str None\<rparr>]))"
    using assms(6,7) by (simp add: option_for_def at tcmu_register_option_def Let_def)
  have s1: "scan isblank b2 (Suc ?s) = Some (Suc ?s)"
    using scan_run [of b2 "pre @ k @ [NUL, CHR ''='', CHR '' '']" "[]" DQ "v @ DQ # NUL # rest" "Suc ?s" isblank] quote by (simp add: b2_def)
  have r: "scan_back isblank b2 (?q - 1) = Some (?q - 1)"
    using scan_back_run [of b2 "pre @ k @ [NUL, CHR ''='', CHR '' '', DQ] @ v" DQ "[]" "NUL # rest" "?q - 1" isblank] quote
    by (simp add: b2_def numeral_eq_Suc)
  have last: "b2 ! (?q - 1) = DQ" by (simp add: b2_def nth_append numeral_eq_Suc)
  have st: "store b2 (?q - 1) NUL = Some b3"
    using store_at [of b2 "pre @ k @ [NUL, CHR ''='', CHR '' '', DQ] @ v" DQ "NUL # rest" "?q - 1" NUL] by (simp add: b2_def b3_def numeral_eq_Suc)
  have val: "c_str b3 (Suc (Suc ?s)) = Some v"
    using assms(2) by (intro c_str_run [of _ "pre @ k @ [NUL, CHR ''='', CHR '' '', DQ]" v "NUL # rest"]) (auto simp: b3_def conf_text_def list_all_iff)
  have str: "parse_str b2 ?s ?q = Some (b3, v)"
    unfolding parse_str_def s1 r by (simp only: bind.bind_lunit Let_def at last st val if_True simp_thms)
  have none: "set_value k w (os @ [\<lparr>opt_key = k, opt_type = t, opt_value = w'\<rparr>]) = os @ [\<lparr>opt_key = k, opt_type = t, opt_value = w\<rparr>]" for w t w'
    using assms(6) by (rule set_value_new)
  have "tcmu_parse_option mok b (length pre) e os = Some (b3, length pre + length k + 6 + length v,
      os @ [\<lparr>opt_key = k, opt_type = TCMU_OPT_STR, opt_value = Opt_Str (Some v)\<rparr>])"
    using line_front [OF assms(1) ctext assms(3,4) _ assms(6), of e mok, folded b2_def] found str none assms(5,8) by simp
  moreover have "drop (length pre + length k + 6 + length v) b3 = rest" "length b3 = length b"
    by (simp_all add: b3_def assms(4) numeral_eq_Suc)
  ultimately show ?thesis by blast
qed
section \<open>Files\<close>

text \<open>The lines of a file: integer options, text options and comments.\<close>

datatype conf_setting = Int_Setting string string | Str_Setting string string | Comment string

fun conf_line :: "conf_setting \<Rightarrow> string" where
  "conf_line (Int_Setting k ds) = k @ '' = '' @ ds"
| "conf_line (Str_Setting k v) = k @ '' = '' @ (DQ # v @ [DQ])"
| "conf_line (Comment c) = CHR ''#'' # c"

fun setting_ok :: "conf_setting \<Rightarrow> bool" where
  "setting_ok (Int_Setting k ds) = (conf_key k \<and> ds \<noteq> [] \<and> list_all isdigit ds)"
| "setting_ok (Str_Setting k v) = (conf_key k \<and> conf_text v)"
| "setting_ok (Comment c) = conf_text c"

fun setting_options :: "conf_setting \<Rightarrow> tcmu_conf_option list" where
  "setting_options (Int_Setting k ds) = [\<lparr>opt_key = k, opt_type = TCMU_OPT_INT, opt_value = Opt_Int (atoi ds)\<rparr>]"
| "setting_options (Str_Setting k v) = [\<lparr>opt_key = k, opt_type = TCMU_OPT_STR, opt_value = Opt_Str (Some v)\<rparr>]"
| "setting_options (Comment c) = []"

definition conf_file :: "conf_setting list \<Rightarrow> string" where
  "conf_file ss = concat (map (\<lambda>s. conf_line s @ [CHR 0x0A]) ss)"

lemma first_char:
  assumes "setting_ok s"
  obtains c cs where "conf_line s = c # cs" "\<not> isblank c" "\<not> is_eol c"
proof (cases s)
  case (Comment c)
  then show thesis using that [of "CHR ''#''" c] by (simp add: isblank_def is_eol_def)
next
  case (Int_Setting k ds)
  then show thesis using that [of "hd k" "tl k @ '' = '' @ ds"] assms by (cases k) (auto simp: conf_key_def)
next
  case (Str_Setting k v)
  then show thesis using that [of "hd k" "tl k @ '' = '' @ (DQ # v @ [DQ])"] assms by (cases k) (auto simp: conf_key_def)
qed

lemma split_at: "drop cur b = xs \<Longrightarrow> xs \<noteq> [] \<Longrightarrow> \<exists>pre. length pre = cur \<and> b = pre @ xs"
  by (rule exI [of _ "take cur b"]) (auto simp: min_def)

lemma loop_at_line:
  assumes "drop cur b = conf_line s @ rest" "setting_ok s" "cur < e"
  shows "scan_to (\<lambda>c. isblank c \<or> is_eol c) b cur e = Some cur"
proof -
  obtain c cs where c: "conf_line s = c # cs" "\<not> isblank c" "\<not> is_eol c" using first_char [OF assms(2)] .
  obtain pre where "length pre = cur" "b = pre @ c # cs @ rest" using split_at [of cur b "c # cs @ rest"] assms(1) c(1) by auto
  then show ?thesis using scan_to_run [of b pre "[]" c "cs @ rest" cur "\<lambda>c. isblank c \<or> is_eol c" e] c assms(3) by simp
qed

lemma option_line:
  assumes "drop cur b = conf_line s @ CHR 0x0A # rest" "setting_ok s" "\<forall>c. s \<noteq> Comment c" "cur + length (conf_line s) < e"
    and "\<forall>opt \<in> set (setting_options s). tcmu_get_option os (opt_key opt) = None"
  shows "\<exists>b'. tcmu_parse_option (\<lambda>_. True) b cur e os = Some (b', Suc (cur + length (conf_line s)), os @ setting_options s)
    \<and> drop (Suc (cur + length (conf_line s))) b' = rest"
proof -
  obtain pre where cur: "length pre = cur" and b: "b = pre @ conf_line s @ CHR 0x0A # rest" using split_at [OF assms(1)] by auto
  have nl: "is_eol (CHR 0x0A)" by (simp add: is_eol_def)
  show ?thesis
  proof (cases s)
    case (Int_Setting k ds)
    then show ?thesis using int_line [of k ds "CHR 0x0A" b pre rest e os "\<lambda>_. True"] assms(2,4,5) b nl
      by (auto simp: cur numeral_eq_Suc add.assoc)
  next
    case (Str_Setting k v)
    then show ?thesis using str_line [of k v "CHR 0x0A" b pre rest e os "\<lambda>_. True"] assms(2,4,5) b nl
      by (auto simp: cur numeral_eq_Suc add.assoc)
  qed (use assms(3) in simp)
qed

lemma comment_line:
  assumes "drop cur b = (CHR ''#'' # c) @ CHR 0x0A # rest" "conf_text c" "Suc (cur + length c) < e"
  shows "skip_comment_lines b cur e = skip_comment_lines b (Suc (Suc (cur + length c))) e"
proof -
  obtain pre where pre: "length pre = cur" "b = pre @ (CHR ''#'' # c) @ CHR 0x0A # rest" using split_at [OF assms(1)] by auto
  have "scan_to (\<lambda>c. \<not> is_eol c) b cur e = Some (cur + length (CHR ''#'' # c))"
    using assms(2,3) pre by (intro scan_to_run [of b pre "CHR ''#'' # c" "CHR 0x0A" rest]) (auto simp: conf_text_def list_all_iff is_eol_def)
  then show ?thesis using assms(3) pre by (subst skip_comment_lines.simps) (simp add: char_at_def nth_append)
qed

lemma no_comment: "char_at b cur = Some c \<Longrightarrow> c \<noteq> CHR ''#'' \<Longrightarrow> skip_comment_lines b cur e = Some cur"
  by (subst skip_comment_lines.simps) simp

lemma file_loop:
  assumes "drop cur b = conf_file ss @ rest" "cur + length (conf_file ss) = e" "list_all setting_ok ss"
    and "distinct (map opt_key (os @ concat (map setting_options ss)))"
  shows "\<exists>b'. parse_loop (\<lambda>_. True) b cur e os = Some (b', os @ concat (map setting_options ss))"
  using assms
proof (induction ss arbitrary: b cur os)
  case Nil
  then show ?case by (subst parse_loop.simps) (simp add: conf_file_def)
next
  case (Cons s ss)
  let ?n = "length (conf_line s)" and ?rest = "conf_file ss @ rest"
  have ok: "setting_ok s" and tx: "drop cur b = conf_line s @ CHR 0x0A # ?rest" and e: "Suc (cur + ?n) + length (conf_file ss) = e"
    using Cons.prems(1-3) by (simp_all add: conf_file_def)
  have in_e: "cur < e" "cur + ?n < e" using e by simp_all
  have sc: "scan_to (\<lambda>c. isblank c \<or> is_eol c) b cur e = Some cur" by (rule loop_at_line [OF tx ok in_e(1)])
  show ?case
  proof (cases "\<exists>c. s = Comment c")
    case True
    then obtain c where s: "s = Comment c" by blast
    have next_text: "drop (Suc (cur + ?n)) b = ?rest" using arg_cong [OF tx, of "drop (Suc ?n)"] by (simp add: add.commute)
    have step: "skip_comment_lines b cur e = skip_comment_lines b (Suc (cur + ?n)) e"
      using comment_line [of cur b c ?rest e] tx ok in_e s by simp
    have "parse_loop (\<lambda>_. True) b cur e os = parse_loop (\<lambda>_. True) b (Suc (cur + ?n)) e os"
    proof (cases ss)
      case Nil
      then have "skip_comment_lines b (Suc (cur + ?n)) e = Some e" using e by (subst skip_comment_lines.simps) (simp add: conf_file_def)
      then show ?thesis using Nil in_e sc step e by (subst parse_loop.simps, subst (2) parse_loop.simps) (simp add: conf_file_def)
    next
      case (Cons t ts)
      then have "Suc (cur + ?n) < e" using e by (simp add: conf_file_def)
      moreover have "scan_to (\<lambda>c. isblank c \<or> is_eol c) b (Suc (cur + ?n)) e = Some (Suc (cur + ?n))"
        using loop_at_line [of "Suc (cur + ?n)" b t "CHR 0x0A # conf_file ts @ rest" e] next_text Cons \<open>list_all setting_ok (s # ss)\<close> calculation
        by (simp add: conf_file_def)
      ultimately show ?thesis using in_e sc step by (subst parse_loop.simps, subst (2) parse_loop.simps) simp
    qed
    then show ?thesis using Cons.IH [OF next_text _ _, of os] e Cons.prems(3,4) s by simp
  next
    case False
    then obtain d ds where d: "conf_line s = d # ds" "isalpha d" using ok by (cases s) (auto simp: conf_key_def neq_Nil_conv)
    then have hash: "d \<noteq> CHR ''#''" by (auto simp: isalpha_def)
    have at: "char_at b cur = Some d" using tx d(1) by (auto simp: char_at_def dest!: split_at)
    have new: "\<forall>opt \<in> set (setting_options s). tcmu_get_option os (opt_key opt) = None"
      using Cons.prems(4) by (auto simp: tcmu_get_option_def find_None_iff)
    obtain b' where p: "tcmu_parse_option (\<lambda>_. True) b cur e os = Some (b', Suc (cur + ?n), os @ setting_options s)"
      "drop (Suc (cur + ?n)) b' = ?rest"
      using option_line [OF tx ok _ in_e(2) new] False by auto
    have "parse_loop (\<lambda>_. True) b cur e os = parse_loop (\<lambda>_. True) b' (Suc (cur + ?n)) e (os @ setting_options s)"
      using in_e sc at no_comment [OF at hash] d(2) p(1) by (subst parse_loop.simps) simp
    then show ?thesis using Cons.IH [OF p(2) _ _, of "os @ setting_options s"] e Cons.prems(3,4) by simp
  qed
qed


definition conf_example :: "conf_setting list" where
  "conf_example = [Comment ''levels'', Int_Setting ''log_level'' ''4'', Str_Setting ''log_dir_path'' ''/var/x'']"


text \<open>A line that starts with another character than a letter, a blank or \<open>#\<close>, such as a digit, hangs the parser.\<close>

lemma conf_hangs:
  assumes "cur < e" "char_at b cur = Some c" "\<not> isblank c" "\<not> is_eol c" "c \<noteq> CHR ''#''" "\<not> isalpha c"
  shows "parse_loop mok b cur e os = None"
proof -
  have "scan_to (\<lambda>c. isblank c \<or> is_eol c) b cur e = Some cur" using assms(1-4) by (subst scan_to.simps) simp
  note at = this no_comment [OF assms(2,5), of e]
  have "\<not> (x = b \<and> i = cur \<and> e' = e)" if "parse_loop mok' x i e' os' = Some y" for mok' x i e' os' y
  proof (rule parse_loop.raw_induct [where P = "\<lambda>mok' x i e' os' y. \<not> (x = b \<and> i = cur \<and> e' = e)", OF _ that])
    fix f mok' x i e' os' y
    assume hyp: "\<And>mok' x i e' os' y. f mok' x i e' os' = Some y \<Longrightarrow> \<not> (x = b \<and> i = cur \<and> e' = e)"
      and run: "(if i < e' then Option.bind (scan_to (\<lambda>c. isblank c \<or> is_eol c) x i e') (\<lambda>z.
          Option.bind (skip_comment_lines x z e') (\<lambda>y. if y \<ge> e' then Some (x, os') else Option.bind (char_at x y) (\<lambda>c.
            if \<not> isalpha c then f mok' x y e' os'
            else Option.bind (tcmu_parse_option mok' x y e' os') (\<lambda>(b1, cur1, os1). f mok' b1 cur1 e' os1)))) else Some (x, os')) = Some y"
    show "\<not> (x = b \<and> i = cur \<and> e' = e)" using run hyp [of mok' b cur e os' y] at assms by auto
  qed
  then show ?thesis by (metis not_None_eq)
qed

end
